(* ===== verification/Prelude.thy ===== *)
theory Prelude
  imports Main "HOL-Library.Char_ord" "HOL-Library.List_Lexorder" "HOL-Library.AList"
    "HOL-Library.Multiset"
begin

text \<open>
  Shared vocabulary of the development: Python exceptions as values of a sum type, the
  exception monad over it, ordered dictionaries as association lists, and the string and
  list functions of the Python standard library that the modelled modules use.
  A Python string is a list of characters (code points below 256); a Python integer is an
  \<open>int\<close>, whose \<open>div\<close> and \<open>mod\<close> round towards minus infinity as Python's do.
\<close>

section \<open>Errors as values\<close>

text \<open>
  The exceptions the modelled code raises. The argument is the fixed part of the message;
  the values a message interpolates are left out.
\<close>

datatype exn =
    PolicyError string
  | ValueError string
  | StateError string
  | KeyError string
  | TypeError string
  | AttributeError string
  | OSError string
  | RecursionError string
  | StopIteration string
  | IndexError string
  | EGCFError string
  | SchemaError string
  | CapabilityError string
  | CompilationError string
  | ApprovalError string
  | QualificationError string

type_synonym 'a res = "exn + 'a"

named_theorems res_simps \<open>inversion of computations that succeed\<close>

definition bindR :: "'a res \<Rightarrow> ('a \<Rightarrow> 'b res) \<Rightarrow> 'b res" where
  "bindR m f = (case m of Inl e \<Rightarrow> Inl e | Inr x \<Rightarrow> f x)"

lemma bindR_simps [simp]: "bindR (Inl e) f = Inl e" "bindR (Inr x) f = f x"
  by (simp_all add: bindR_def)

lemma bindR_Inr [res_simps]: "bindR m f = Inr y \<longleftrightarrow> (\<exists>x. m = Inr x \<and> f x = Inr y)"
  by (cases m) auto

lemma bindR_Inl: "bindR m f = Inl e \<longleftrightarrow> m = Inl e \<or> (\<exists>x. m = Inr x \<and> f x = Inl e)"
  by (cases m) auto

lemma bindR_cong [fundef_cong]:
  "m = m' \<Longrightarrow> (\<And>x. m' = Inr x \<Longrightarrow> f x = f' x) \<Longrightarrow> bindR m f = bindR m' f'"
  by (cases m') auto

lemma guard_Inr [res_simps]: "(if b then Inl e else m) = Inr y \<longleftrightarrow> \<not> b \<and> m = Inr y"
  by simp

lemma case_res_Inr [res_simps]:
  "(case m of Inl e \<Rightarrow> Inl (g e) | Inr x \<Rightarrow> f x) = Inr y \<longleftrightarrow> (\<exists>x. m = Inr x \<and> f x = Inr y)"
  by (cases m) auto

text \<open>
  What holds of the result of a computation if it succeeds. The rules walk a computation from
  the outside in, so that a proof about a long handler is one \<open>intro\<close> and its leaves.
\<close>

definition yields :: "'a res \<Rightarrow> ('a \<Rightarrow> bool) \<Rightarrow> bool" where
  "yields m Q = (\<forall>y. m = Inr y \<longrightarrow> Q y)"

named_theorems yields_intro \<open>rules for computations by their outermost construct\<close>

lemma yieldsD: "yields m Q \<Longrightarrow> m = Inr y \<Longrightarrow> Q y"
  by (simp add: yields_def)

lemma yieldsI: "(\<And>y. m = Inr y \<Longrightarrow> Q y) \<Longrightarrow> yields m Q"
  by (simp add: yields_def)

lemma yields_Inl [yields_intro]: "yields (Inl e) Q"
  by (simp add: yields_def)

lemma yields_Inr [yields_intro]: "Q x \<Longrightarrow> yields (Inr x) Q"
  by (simp add: yields_def)

lemma yields_bind [yields_intro]: "(\<And>x. m = Inr x \<Longrightarrow> yields (f x) Q) \<Longrightarrow> yields (bindR m f) Q"
  by (cases m) (simp_all add: yields_def)

lemma yields_if [yields_intro]:
  "(b \<Longrightarrow> yields m Q) \<Longrightarrow> (\<not> b \<Longrightarrow> yields n Q) \<Longrightarrow> yields (if b then m else n) Q"
  by simp

lemma yields_option [yields_intro]:
  "(x = None \<Longrightarrow> yields m Q) \<Longrightarrow> (\<And>y. x = Some y \<Longrightarrow> yields (f y) Q) \<Longrightarrow>
   yields (case x of None \<Rightarrow> m | Some y \<Rightarrow> f y) Q"
  by (cases x) simp_all

lemma yields_sum [yields_intro]:
  "(\<And>e. x = Inl e \<Longrightarrow> yields (f e) Q) \<Longrightarrow> (\<And>y. x = Inr y \<Longrightarrow> yields (g y) Q) \<Longrightarrow>
   yields (case x of Inl e \<Rightarrow> f e | Inr y \<Rightarrow> g y) Q"
  by (cases x) simp_all

lemma yields_pair [yields_intro]:
  "(\<And>a b. x = (a, b) \<Longrightarrow> yields (f a b) Q) \<Longrightarrow> yields (case x of (a, b) \<Rightarrow> f a b) Q"
  by (cases x) simp_all

lemma yields_list [yields_intro]:
  "(x = [] \<Longrightarrow> yields m Q) \<Longrightarrow> (\<And>y ys. x = y # ys \<Longrightarrow> yields (f y ys) Q) \<Longrightarrow>
   yields (case x of [] \<Rightarrow> m | y # ys \<Rightarrow> f y ys) Q"
  by (cases x) simp_all

lemma yields_mono: "yields m P \<Longrightarrow> (\<And>y. P y \<Longrightarrow> Q y) \<Longrightarrow> yields m Q"
  by (simp add: yields_def)

text \<open>A \<open>for\<close> loop whose body may raise: element by element, stopping at the first error.\<close>

primrec mapR :: "('a \<Rightarrow> 'b res) \<Rightarrow> 'a list \<Rightarrow> 'b list res" where
  "mapR f [] = Inr []"
| "mapR f (x # xs) = bindR (f x) (\<lambda>y. bindR (mapR f xs) (\<lambda>ys. Inr (y # ys)))"

primrec foldR :: "('a \<Rightarrow> 's \<Rightarrow> 's res) \<Rightarrow> 'a list \<Rightarrow> 's \<Rightarrow> 's res" where
  "foldR f [] s = Inr s"
| "foldR f (x # xs) s = bindR (f x s) (foldR f xs)"

primrec eachR :: "('a \<Rightarrow> unit res) \<Rightarrow> 'a list \<Rightarrow> unit res" where
  "eachR f [] = Inr ()"
| "eachR f (x # xs) = bindR (f x) (\<lambda>_. eachR f xs)"

lemma mapR_Inr: "mapR f xs = Inr ys \<longleftrightarrow> list_all2 (\<lambda>x y. f x = Inr y) xs ys"
proof (induction xs arbitrary: ys)
  case Nil
  show ?case by auto
next
  case (Cons x xs)
  show ?case by (auto simp: bindR_Inr Cons.IH list_all2_Cons1)
qed

lemma mapR_Inr_length: "mapR f xs = Inr ys \<Longrightarrow> length ys = length xs"
  by (simp add: mapR_Inr list_all2_lengthD)

lemma mapR_Inr_set: "mapR f xs = Inr ys \<Longrightarrow> y \<in> set ys \<Longrightarrow> \<exists>x \<in> set xs. f x = Inr y"
proof (induction xs arbitrary: ys)
  case Nil
  then show ?case by simp
next
  case (Cons x xs)
  then show ?case by (auto simp: bindR_Inr)
qed

lemma mapR_total: "(\<And>x. x \<in> set xs \<Longrightarrow> f x = Inr (g x)) \<Longrightarrow> mapR f xs = Inr (map g xs)"
  by (induction xs) simp_all

lemma eachR_Inr: "eachR f xs = Inr u \<longleftrightarrow> (\<forall>x \<in> set xs. f x = Inr ())"
  by (induction xs) (auto simp: bindR_Inr)

text \<open>A property kept by one successful round of a loop is kept by the loop.\<close>

lemma foldR_invariant:
  assumes "foldR f xs s = Inr t" and "P s"
    and "\<And>x s t. x \<in> set xs \<Longrightarrow> P s \<Longrightarrow> f x s = Inr t \<Longrightarrow> P t"
  shows "P t"
  using assms
proof (induction xs arbitrary: s)
  case Nil
  then show ?case by simp
next
  case (Cons x xs)
  from Cons.prems(1) obtain u where u: "f x s = Inr u" "foldR f xs u = Inr t"
    by (auto simp: bindR_Inr)
  have "P u" using Cons.prems u by auto
  then show ?case using Cons.IH [OF u(2)] Cons.prems(3) by auto
qed

lemma yields_foldR:
  assumes "P s" and "\<And>x s. x \<in> set xs \<Longrightarrow> P s \<Longrightarrow> yields (f x s) P"
  shows "yields (foldR f xs s) P"
  using assms by (auto simp: yields_def intro: foldR_invariant [of f xs s])

lemma foldR_append: "foldR f (xs @ ys) s = bindR (foldR f xs s) (foldR f ys)"
  by (induction xs arbitrary: s) (auto simp: bindR_def split: sum.splits)

section \<open>Ordered dictionaries\<close>

text \<open>
  A Python dict keeps insertion order; assignment to a present key keeps the key's place and
  assignment to a new key appends it, which is what \<^const>\<open>AList.update\<close> does.
\<close>

type_synonym ('k, 'v) dict = "('k \<times> 'v) list"

abbreviation dict_get :: "('k, 'v) dict \<Rightarrow> 'k \<Rightarrow> 'v option" where
  "dict_get d k \<equiv> map_of d k"

abbreviation dict_set :: "'k \<Rightarrow> 'v \<Rightarrow> ('k, 'v) dict \<Rightarrow> ('k, 'v) dict" where
  "dict_set k v d \<equiv> AList.update k v d"

definition dict_getd :: "('k, 'v) dict \<Rightarrow> 'k \<Rightarrow> 'v \<Rightarrow> 'v" where
  "dict_getd d k v = (case dict_get d k of None \<Rightarrow> v | Some x \<Rightarrow> x)"

text \<open>\<open>dict.setdefault\<close> with its result dropped, and \<open>dict.pop(key, None)\<close>.\<close>

definition dict_setdefault :: "'k \<Rightarrow> 'v \<Rightarrow> ('k, 'v) dict \<Rightarrow> ('k, 'v) dict" where
  "dict_setdefault k v d = (if dict_get d k = None then d @ [(k, v)] else d)"

definition dict_pop :: "'k \<Rightarrow> ('k, 'v) dict \<Rightarrow> ('k, 'v) dict" where
  "dict_pop k d = filter (\<lambda>kv. fst kv \<noteq> k) d"

lemma dict_get_set [simp]: "dict_get (dict_set k v d) j = (if j = k then Some v else dict_get d j)"
  by (simp add: update_conv)

lemma dict_get_setdefault [simp]:
  "dict_get (dict_setdefault k v d) j =
     (if j = k \<and> dict_get d k = None then Some v else dict_get d j)"
  by (auto simp: dict_setdefault_def map_add_def split: option.splits)

lemma dict_get_pop [simp]: "dict_get (dict_pop k d) j = (if j = k then None else dict_get d j)"
  by (induction d) (auto simp: dict_pop_def)

text \<open>\<open>d == e\<close> on dicts: the same keys with equal values, in whatever order.\<close>

definition dict_eq :: "('k, 'v) dict \<Rightarrow> ('k, 'v) dict \<Rightarrow> bool" where
  "dict_eq d e = list_all (\<lambda>kv. dict_get d (fst kv) = dict_get e (fst kv)) (d @ e)"

lemma dict_eq_iff: "dict_eq d e \<longleftrightarrow> map_of d = map_of e"
proof
  assume *: "dict_eq d e"
  show "map_of d = map_of e"
  proof
    fix k
    show "map_of d k = map_of e k"
    proof (cases "k \<in> fst ` set (d @ e)")
      case True
      with * show ?thesis by (auto simp: dict_eq_def list_all_iff)
    next
      case False
      then have "map_of d k = None" "map_of e k = None" by (auto simp: map_of_eq_None_iff)
      then show ?thesis by simp
    qed
  qed
qed (simp add: dict_eq_def list_all_iff)

section \<open>Lists and strings of the standard library\<close>

text \<open>\<open>list(dict.fromkeys(xs))\<close>: the first occurrence of each element, in order.\<close>

definition from_keys :: "'a list \<Rightarrow> 'a list" where
  "from_keys xs = rev (remdups (rev xs))"

lemma set_from_keys [simp]: "set (from_keys xs) = set xs"
  by (simp add: from_keys_def)

lemma distinct_from_keys [simp]: "distinct (from_keys xs)"
  by (simp add: from_keys_def)

lemma from_keys_distinct: "distinct xs \<Longrightarrow> from_keys xs = xs"
  by (simp add: from_keys_def distinct_remdups_id)

lemma from_keys_idem [simp]: "from_keys (from_keys xs) = from_keys xs"
  by (simp add: from_keys_distinct)

text \<open>\<open>sorted(set(xs))\<close>.\<close>

definition sorted_set :: "'a::linorder list \<Rightarrow> 'a list" where
  "sorted_set xs = sort (remdups xs)"

lemma sorted_set_simps [simp]:
  "sorted (sorted_set xs)" "distinct (sorted_set xs)" "set (sorted_set xs) = set xs"
  by (simp_all add: sorted_set_def)

lemma sorted_set_eqI: "set xs = set ys \<Longrightarrow> sorted_set xs = sorted_set ys"
  by (rule sorted_distinct_set_unique) simp_all

lemma sorted_set_id: "sorted xs \<Longrightarrow> distinct xs \<Longrightarrow> sorted_set xs = xs"
  by (simp add: sorted_set_def distinct_remdups_id sorted_sort_id)

lemma sorted_set_idem [simp]: "sorted_set (sorted_set xs) = sorted_set xs"
  by (simp add: sorted_set_id)

text \<open>\<open>str.strip\<close>, \<open>str.lower\<close> and \<open>str.casefold\<close> on code points below 256.\<close>

definition is_space :: "char \<Rightarrow> bool" where
  "is_space c = (let n = (of_char c :: nat) in
     (9 \<le> n \<and> n \<le> 13) \<or> (28 \<le> n \<and> n \<le> 32) \<or> n = 133 \<or> n = 160)"

definition lstrip :: "string \<Rightarrow> string" where
  "lstrip s = dropWhile is_space s"

definition rstrip :: "string \<Rightarrow> string" where
  "rstrip s = rev (dropWhile is_space (rev s))"

definition strip :: "string \<Rightarrow> string" where
  "strip s = rstrip (lstrip s)"

definition lower_char :: "char \<Rightarrow> char" where
  "lower_char c = (let n = (of_char c :: nat) in
     if (65 \<le> n \<and> n \<le> 90) \<or> (192 \<le> n \<and> n \<le> 222 \<and> n \<noteq> 215) then char_of (n + 32) else c)"

definition lower :: "string \<Rightarrow> string" where
  "lower s = map lower_char s"

definition casefold :: "string \<Rightarrow> string" where
  "casefold s = concat (map (\<lambda>c. if (of_char c :: nat) = 223 then ''ss'' else [lower_char c]) s)"

definition starts_with :: "string \<Rightarrow> string \<Rightarrow> bool" where
  "starts_with s p = (take (length p) s = p)"

definition ends_with :: "string \<Rightarrow> string \<Rightarrow> bool" where
  "ends_with s p = starts_with (rev s) (rev p)"

text \<open>\<open>needle in haystack\<close> on strings.\<close>

primrec contains :: "string \<Rightarrow> string \<Rightarrow> bool" where
  "contains n [] = (n = [])"
| "contains n (c # cs) = (starts_with (c # cs) n \<or> contains n cs)"

text \<open>\<open>str.split(c)\<close> and \<open>sep.join(parts)\<close>.\<close>

primrec split_on :: "char \<Rightarrow> string \<Rightarrow> string list" where
  "split_on c [] = [[]]"
| "split_on c (x # xs) =
     (let ws = split_on c xs in if x = c then [] # ws else (x # hd ws) # tl ws)"

fun join :: "string \<Rightarrow> string list \<Rightarrow> string" where
  "join sep [] = []"
| "join sep [s] = s"
| "join sep (s # ss) = s @ sep @ join sep ss"

lemma split_on_ne [simp]: "split_on c s \<noteq> []"
  by (induction s) (simp_all add: Let_def)

lemma join_split_on: "join [c] (split_on c s) = s"
proof (induction s)
  case Nil
  show ?case by simp
next
  case (Cons x xs)
  obtain w ws where "split_on c xs = w # ws" by (cases "split_on c xs") auto
  with Cons show ?case by (cases ws) (auto simp: Let_def)
qed

lemma split_on_join:
  "ss \<noteq> [] \<Longrightarrow> (\<And>s. s \<in> set ss \<Longrightarrow> c \<notin> set s) \<Longrightarrow> split_on c (join [c] ss) = ss"
proof (induction ss)
  case Nil
  then show ?case by simp
next
  case (Cons s ss)
  have one: "c \<notin> set t \<Longrightarrow> split_on c t = [t]" for t by (induction t) auto
  have app: "c \<notin> set v \<Longrightarrow> split_on c (v @ c # u) = v # split_on c u" for v u
    by (induction v) auto
  show ?case
  proof (cases ss)
    case Nil
    with one Cons.prems show ?thesis by simp
  next
    case (Cons t ts)
    with Cons.IH Cons.prems have "split_on c (join [c] ss) = ss" by simp
    with app Cons Cons.prems show ?thesis by simp
  qed
qed

lemma split_on_parts: "w \<in> set (split_on c s) \<Longrightarrow> c \<notin> set w"
proof (induction s arbitrary: w)
  case Nil
  then show ?case by simp
next
  case (Cons x xs)
  obtain v vs where "split_on c xs = v # vs" by (cases "split_on c xs") auto
  with Cons show ?case by (auto simp: Let_def split: if_splits)
qed

lemma split_on_chars: "w \<in> set (split_on c s) \<Longrightarrow> set w \<subseteq> set s"
proof (induction s arbitrary: w)
  case Nil
  then show ?case by simp
next
  case (Cons x xs)
  obtain v vs where "split_on c xs = v # vs" by (cases "split_on c xs") auto
  with Cons show ?case by (fastforce simp: Let_def split: if_splits)
qed

lemma starts_with_append [simp]: "starts_with (p @ s) p"
  by (simp add: starts_with_def)

lemma starts_withE: "starts_with s p \<Longrightarrow> \<exists>r. s = p @ r"
  by (metis starts_with_def append_take_drop_id)

text \<open>\<open>str.encode("utf-8")\<close> on code points below 256; a byte is a character again.\<close>

definition utf8_char :: "char \<Rightarrow> string" where
  "utf8_char c = (let n = (of_char c :: nat) in
     if n < 128 then [c] else [char_of (192 + n div 64), char_of (128 + n mod 64)])"

definition utf8 :: "string \<Rightarrow> string" where
  "utf8 s = concat (map utf8_char s)"

lemma utf8_char_reads: "utf8_char c @ x = utf8_char d @ y \<Longrightarrow> c = d \<and> x = y"
proof -
  assume eq: "utf8_char c @ x = utf8_char d @ y"
  let ?c = "of_char c :: nat" and ?d = "of_char d :: nat"
  have byte: "?c < 256" "?d < 256" by simp_all
  have lead: "of_char (char_of (192 + n div 64) :: char) = 192 + n div 64" if "n < 256" for n :: nat
    using that by (simp add: of_char_of)
  have trail: "of_char (char_of (128 + n mod 64) :: char) = 128 + n mod 64" for n :: nat
  proof -
    have "n mod 64 < 64" by simp
    then have "128 + n mod 64 < 256" by linarith
    then show ?thesis by (simp add: of_char_of)
  qed
  show ?thesis
  proof (cases "?c < 128"; cases "?d < 128")
    assume "?c < 128" "?d < 128"
    with eq show ?thesis by (simp add: utf8_char_def Let_def)
  next
    assume *: "?c < 128" "\<not> ?d < 128"
    with eq have "c = char_of (192 + ?d div 64)" by (simp add: utf8_char_def Let_def)
    then have "?c = 192 + ?d div 64" using lead byte by metis
    with * show ?thesis by simp
  next
    assume *: "\<not> ?c < 128" "?d < 128"
    with eq have "d = char_of (192 + ?c div 64)" by (simp add: utf8_char_def Let_def)
    then have "?d = 192 + ?c div 64" using lead byte by metis
    with * show ?thesis by simp
  next
    assume *: "\<not> ?c < 128" "\<not> ?d < 128"
    with eq have "char_of (192 + ?c div 64) = (char_of (192 + ?d div 64) :: char)"
        "char_of (128 + ?c mod 64) = (char_of (128 + ?d mod 64) :: char)" and xy: "x = y"
      by (simp_all add: utf8_char_def Let_def)
    then have "192 + ?c div 64 = 192 + ?d div 64" "128 + ?c mod 64 = 128 + ?d mod 64"
      using lead trail byte by metis+
    then have "?c = ?d" by (metis add_left_cancel div_mult_mod_eq)
    with xy show ?thesis by simp
  qed
qed

lemma utf8_char_ne [simp]: "utf8_char c \<noteq> []"
  by (simp add: utf8_char_def Let_def)

lemma utf8_inj: "utf8 s = utf8 t \<longleftrightarrow> s = t"
proof
  assume "utf8 s = utf8 t"
  then show "s = t"
  proof (induction s arbitrary: t)
    case Nil
    then show ?case by (cases t) (simp_all add: utf8_def)
  next
    case (Cons c s)
    then show ?case
    proof (cases t)
      case Nil
      with Cons.prems show ?thesis by (simp add: utf8_def)
    next
      case (Cons d u)
      with Cons.prems have "utf8_char c @ utf8 s = utf8_char d @ utf8 u" by (simp add: utf8_def)
      from utf8_char_reads [OF this] Cons.IH Cons show ?thesis by simp
    qed
  qed
qed simp

text \<open>\<open>s.replace(a, b)\<close> on single characters and \<open>s.rstrip(c)\<close>.\<close>

definition replace_char :: "char \<Rightarrow> char \<Rightarrow> string \<Rightarrow> string" where
  "replace_char a b s = map (\<lambda>c. if c = a then b else c) s"

definition rstrip_char :: "char \<Rightarrow> string \<Rightarrow> string" where
  "rstrip_char c s = rev (dropWhile (\<lambda>x. x = c) (rev s))"

text \<open>Decimal numerals, as \<open>str(n)\<close> prints them.\<close>

fun nat_str :: "nat \<Rightarrow> string" where
  "nat_str n = (if n < 10 then [char_of (48 + n)]
                else nat_str (n div 10) @ [char_of (48 + n mod 10)])"

declare nat_str.simps [simp del]

definition int_str :: "int \<Rightarrow> string" where
  "int_str i = (if i < 0 then CHR ''-'' # nat_str (nat (- i)) else nat_str (nat i))"

section \<open>Transition systems\<close>

text \<open>
  The contract of a component whose operations move a state along a life cycle: every step
  keeps the invariant and the identity of what it works on, and either leaves the phase as it
  is or moves it on. The runs of the component then inherit all three.
\<close>

locale life_cycle =
  fixes step :: "'s \<Rightarrow> 's \<Rightarrow> bool"
    and good :: "'s \<Rightarrow> bool"
    and identity :: "'s \<Rightarrow> 'k"
    and phase :: "'s \<Rightarrow> 'p"
    and rank :: "'p \<Rightarrow> nat"
  assumes step_good: "good s \<Longrightarrow> step s t \<Longrightarrow> good t"
    and step_identity: "good s \<Longrightarrow> step s t \<Longrightarrow> identity t = identity s"
    and step_phase: "good s \<Longrightarrow> step s t \<Longrightarrow> phase t = phase s \<or> rank (phase s) < rank (phase t)"
begin

lemma run_good: "step\<^sup>*\<^sup>* s t \<Longrightarrow> good s \<Longrightarrow> good t"
  by (induction rule: rtranclp_induct) (auto intro: step_good)

lemma run_identity: "step\<^sup>*\<^sup>* s t \<Longrightarrow> good s \<Longrightarrow> identity t = identity s"
proof (induction rule: rtranclp_induct)
  case (step t u)
  then show ?case using run_good step_identity by metis
qed simp

lemma run_phase: "step\<^sup>*\<^sup>* s t \<Longrightarrow> good s \<Longrightarrow> phase t = phase s \<or> rank (phase s) < rank (phase t)"
proof (induction rule: rtranclp_induct)
  case (step t u)
  then have "phase t = phase s \<or> rank (phase s) < rank (phase t)" "good t" using run_good by metis+
  with step_phase [OF \<open>good t\<close> \<open>step t u\<close>] show ?case by auto
qed simp

text \<open>A phase of greatest rank is never left.\<close>

lemma final_stays:
  "step\<^sup>*\<^sup>* s t \<Longrightarrow> good s \<Longrightarrow> (\<And>p. rank p \<le> rank (phase s)) \<Longrightarrow> phase t = phase s"
  using run_phase by (metis not_le)

end

text \<open>\<open>text.replace(old, new, count)\<close>, with no limit for \<open>None\<close>.\<close>

function replace_text :: "string \<Rightarrow> string \<Rightarrow> nat option \<Rightarrow> string \<Rightarrow> string" where
  "replace_text old new limit s =
     (if limit = Some 0 then s
      else if old = [] then new @ (case s of [] \<Rightarrow> [] | c # cs \<Rightarrow> c # replace_text old new (map_option (\<lambda>n. n - 1) limit) cs)
      else if starts_with s old then new @ replace_text old new (map_option (\<lambda>n. n - 1) limit) (drop (length old) s)
      else (case s of [] \<Rightarrow> [] | c # cs \<Rightarrow> c # replace_text old new limit cs))"
  by pat_completeness auto
termination
proof (relation "measure (\<lambda>(old, new, limit, s). length s)", goal_cases)
  case (3 old new limit s)
  then have "0 < length old" "length old \<le> length s"
    by (simp, metis append_take_drop_id length_append le_add1 starts_with_def)
  then have "length s - length old < length s" by linarith
  then show ?case by simp
qed auto

declare replace_text.simps [simp del]

section \<open>Score arithmetic\<close>

text \<open>All control quantities are integers in basis points; see \<open>ourd/constants.py\<close>.\<close>

abbreviation SCORE_SCALE :: int where
  "SCORE_SCALE \<equiv> 10000"

abbreviation in_scale :: "int \<Rightarrow> bool" where
  "in_scale x \<equiv> 0 \<le> x \<and> x \<le> SCORE_SCALE"

lemma weighted_sum_bound:
  fixes ws :: "(int \<times> int) list"
  assumes "\<And>w x. (w, x) \<in> set ws \<Longrightarrow> 0 \<le> w \<and> 0 \<le> x \<and> x \<le> M"
  shows "0 \<le> (\<Sum>(w, x) \<leftarrow> ws. w * x) \<and> (\<Sum>(w, x) \<leftarrow> ws. w * x) \<le> (\<Sum>(w, x) \<leftarrow> ws. w) * M"
  using assms
proof (induction ws)
  case Nil
  show ?case by simp
next
  case (Cons p ws)
  obtain w x where p: "p = (w, x)" by (cases p)
  have "0 \<le> w" "0 \<le> x" "x \<le> M" using Cons.prems p by auto
  then have "0 \<le> w * x" "w * x \<le> w * M" by (auto intro: mult_left_mono)
  moreover have "0 \<le> (\<Sum>(w, x) \<leftarrow> ws. w * x) \<and>
      (\<Sum>(w, x) \<leftarrow> ws. w * x) \<le> (\<Sum>(w, x) \<leftarrow> ws. w) * M"
    using Cons by auto
  ultimately show ?case using p by (auto simp: algebra_simps)
qed

end
