(* ===== verification/Json.thy ===== *)
theory Json
  imports Prelude
begin

text \<open>
  JSON values as the modelled modules build them (no floats: every signed quantity is an
  integer), the serialisations \<open>json.dumps(v, sort_keys=True, separators=(",", ":"),
  ensure_ascii=False)\<close> (\<open>canonical_json\<close> of \<open>ourd/oiec.py\<close>, \<open>ourd/authority.py\<close>,
  \<open>ourd/persistence.py\<close> and \<open>ourd/reasoning/models.py\<close>) and \<open>json.dumps(v,
  ensure_ascii=False)\<close>, and the content addresses built on them. The canonical text is
  uniquely readable: two values have the same text exactly when they are equal up to the
  order of object keys, so a digest binds the value up to collisions of the digest.
\<close>

section \<open>Values and serialisation\<close>

datatype json =
    JNull
  | JBool bool
  | JInt int
  | JStr string
  | JList "json list"
  | JObj "(string \<times> json) list"

definition hex_digit :: "nat \<Rightarrow> char" where
  "hex_digit n = (if n < 10 then char_of (48 + n) else char_of (87 + n))"

text \<open>The characters \<open>json.dumps\<close> escapes when \<open>ensure_ascii\<close> is off.\<close>

definition enc_char :: "char \<Rightarrow> string" where
  "enc_char c = (let n = (of_char c :: nat) in
     if n = 34 then [CHR 0x5C, CHR 0x22]
     else if n = 92 then [CHR 0x5C, CHR 0x5C]
     else if n = 10 then [CHR 0x5C, CHR ''n'']
     else if n = 13 then [CHR 0x5C, CHR ''r'']
     else if n = 9 then [CHR 0x5C, CHR ''t'']
     else if n = 12 then [CHR 0x5C, CHR ''f'']
     else if n = 8 then [CHR 0x5C, CHR ''b'']
     else if n < 32 then [CHR 0x5C, CHR ''u'', CHR ''0'', CHR ''0'', hex_digit (n div 16), hex_digit (n mod 16)]
     else [c])"

definition enc_str :: "string \<Rightarrow> string" where
  "enc_str s = CHR 0x22 # concat (map enc_char s) @ [CHR 0x22]"

fun dumps :: "string \<Rightarrow> string \<Rightarrow> json \<Rightarrow> string" where
  "dumps isep ksep JNull = ''null''"
| "dumps isep ksep (JBool b) = (if b then ''true'' else ''false'')"
| "dumps isep ksep (JInt i) = int_str i"
| "dumps isep ksep (JStr s) = enc_str s"
| "dumps isep ksep (JList vs) = ''['' @ join isep (map (dumps isep ksep) vs) @ '']''"
| "dumps isep ksep (JObj kvs) =
     ''{'' @ join isep (map (\<lambda>kv. enc_str (fst kv) @ ksep @ dumps isep ksep (snd kv)) kvs) @ ''}''"

fun norm_json :: "json \<Rightarrow> json" where
  "norm_json (JList vs) = JList (map norm_json vs)"
| "norm_json (JObj kvs) = JObj (sort_key fst (map (\<lambda>kv. (fst kv, norm_json (snd kv))) kvs))"
| "norm_json v = v"

definition canonical_json :: "json \<Rightarrow> string" where
  "canonical_json v = dumps '','' '':'' (norm_json v)"

definition default_json :: "json \<Rightarrow> string" where
  "default_json v = dumps '', '' '': '' v"

text \<open>
  \<open>hashlib.sha256(text.encode("utf-8")).hexdigest()\<close> is the parameter \<open>H\<close>: a function
  from text to text. Nothing below assumes more of it than that; statements about
  authenticity name the pairs of texts on which it would have to collide.
\<close>

type_synonym digest = "string \<Rightarrow> string"

definition stable_hash :: "digest \<Rightarrow> json \<Rightarrow> string" where
  "stable_hash H v = H (canonical_json v)"

abbreviation jstrs :: "string list \<Rightarrow> json" where
  "jstrs ss \<equiv> JList (map JStr ss)"

lemma map_JStr_inj [simp]: "map JStr xs = map JStr ys \<longleftrightarrow> xs = ys"
  by (rule inj_map_eq_map) (simp add: inj_def)

lemma map_JInt_inj [simp]: "map JInt xs = map JInt ys \<longleftrightarrow> xs = ys"
  by (rule inj_map_eq_map) (simp add: inj_def)

section \<open>Unique readability\<close>

subsection \<open>Decimal numerals\<close>

definition digit_char :: "char \<Rightarrow> bool" where
  "digit_char c = (48 \<le> (of_char c :: nat) \<and> (of_char c :: nat) \<le> 57)"

primrec digits_val :: "nat \<Rightarrow> string \<Rightarrow> nat" where
  "digits_val a [] = a"
| "digits_val a (c # cs) = digits_val (10 * a + (of_char c - 48)) cs"

lemma digits_val_append: "digits_val a (s @ t) = digits_val (digits_val a s) t"
  by (induction s arbitrary: a) simp_all

lemma nat_str_digits: "c \<in> set (nat_str n) \<Longrightarrow> digit_char c"
proof (induction n rule: nat_str.induct)
  case (1 n)
  show ?case
  proof (cases "n < 10")
    case True
    with 1 show ?thesis by (auto simp: nat_str.simps [of n] digit_char_def)
  next
    case False
    with 1 show ?thesis by (auto simp: nat_str.simps [of n] digit_char_def)
  qed
qed

lemma digits_val_nat_str: "digits_val 0 (nat_str n) = n"
proof (induction n rule: nat_str.induct)
  case (1 n)
  show ?case
  proof (cases "n < 10")
    case True
    then show ?thesis by (auto simp: nat_str.simps [of n])
  next
    case False
    with 1 show ?thesis by (auto simp: nat_str.simps [of n] digits_val_append)
  qed
qed

lemma nat_str_ne [simp]: "nat_str n \<noteq> []"
  by (simp add: nat_str.simps [of n])

lemma nat_str_inj: "nat_str m = nat_str n \<longleftrightarrow> m = n"
  by (metis digits_val_nat_str)

definition delim :: "string \<Rightarrow> bool" where
  "delim r = (case r of [] \<Rightarrow> True | c # _ \<Rightarrow> \<not> digit_char c)"

lemma takeWhile_nat_str: "delim r \<Longrightarrow> takeWhile digit_char (nat_str n @ r) = nat_str n"
proof -
  assume "delim r"
  then have "takeWhile digit_char r = []" by (cases r) (auto simp: delim_def)
  then show ?thesis
    using nat_str_digits by (subst takeWhile_append2) auto
qed

lemma nat_str_reads:
  "nat_str m @ r = nat_str n @ s \<Longrightarrow> delim r \<Longrightarrow> delim s \<Longrightarrow> m = n \<and> r = s"
  by (metis takeWhile_nat_str nat_str_inj same_append_eq)

lemma nat_str_hd: "digit_char (hd (nat_str n))"
  using nat_str_digits hd_in_set nat_str_ne by blast

lemma nat_str_no_minus: "CHR ''-'' # x \<noteq> nat_str n @ y"
proof
  assume "CHR ''-'' # x = nat_str n @ y"
  then have "hd (nat_str n) = CHR ''-''" by (cases "nat_str n") auto
  then show False using nat_str_hd [of n] by (simp add: digit_char_def)
qed

lemma int_str_reads:
  assumes eq: "int_str i @ r = int_str j @ s" and d: "delim r" "delim s"
  shows "i = j \<and> r = s"
proof (cases "i < 0"; cases "j < 0")
  assume "i < 0" "j < 0"
  with eq have "nat_str (nat (- i)) @ r = nat_str (nat (- j)) @ s" by (simp add: int_str_def)
  from nat_str_reads [OF this d] have "nat (- i) = nat (- j)" "r = s" by simp_all
  with \<open>i < 0\<close> \<open>j < 0\<close> show ?thesis by linarith
next
  assume "i < 0" "\<not> j < 0"
  with eq show ?thesis using nat_str_no_minus by (simp add: int_str_def)
next
  assume "\<not> i < 0" "j < 0"
  with eq show ?thesis using nat_str_no_minus [symmetric] by (simp add: int_str_def)
next
  assume "\<not> i < 0" "\<not> j < 0"
  with eq have "nat_str (nat i) @ r = nat_str (nat j) @ s" by (simp add: int_str_def)
  from nat_str_reads [OF this d] have "nat i = nat j" "r = s" by simp_all
  with \<open>\<not> i < 0\<close> \<open>\<not> j < 0\<close> show ?thesis by linarith
qed

subsection \<open>Strings\<close>

definition unhex :: "char \<Rightarrow> nat" where
  "unhex c = (if (of_char c :: nat) < 58 then of_char c - 48 else of_char c - 87)"

lemma unhex_hex: "n < 16 \<Longrightarrow> unhex (hex_digit n) = n"
  by (simp add: unhex_def hex_digit_def)

text \<open>A reader for one encoded character, the left inverse of \<^const>\<open>enc_char\<close>.\<close>

definition dec_char :: "string \<Rightarrow> (char \<times> string) option" where
  "dec_char s = (case s of [] \<Rightarrow> None | a # t \<Rightarrow>
     if a \<noteq> CHR 0x5C then Some (a, t)
     else (case t of [] \<Rightarrow> None | b # u \<Rightarrow>
       if b = CHR 0x22 \<or> b = CHR 0x5C then Some (b, u)
       else if b = CHR ''n'' then Some (char_of (10 :: nat), u)
       else if b = CHR ''r'' then Some (char_of (13 :: nat), u)
       else if b = CHR ''t'' then Some (char_of (9 :: nat), u)
       else if b = CHR ''f'' then Some (char_of (12 :: nat), u)
       else if b = CHR ''b'' then Some (char_of (8 :: nat), u)
       else Some (char_of (16 * unhex (u ! 2) + unhex (u ! 3)), drop 4 u)))"

lemma of_char_eqD: "(of_char c :: nat) = n \<Longrightarrow> c = char_of n"
  by auto

lemma of_char_backslash: "(of_char c :: nat) \<noteq> 92 \<Longrightarrow> c \<noteq> CHR 0x5C"
  by auto

lemma char_of_literals [simp]: "char_of (34 :: nat) = CHR 0x22" "char_of (92 :: nat) = CHR 0x5C"
proof -
  have "char_of (of_char (CHR 0x22) :: nat) = CHR 0x22" by (rule char_of_char)
  then show "char_of (34 :: nat) = CHR 0x22" by simp
  have "char_of (of_char (CHR 0x5C) :: nat) = CHR 0x5C" by (rule char_of_char)
  then show "char_of (92 :: nat) = CHR 0x5C" by simp
qed

lemma dec_enc_special:
  "dec_char (enc_char (char_of (34 :: nat)) @ x) = Some (char_of (34 :: nat), x)"
  "dec_char (enc_char (char_of (92 :: nat)) @ x) = Some (char_of (92 :: nat), x)"
  "dec_char (enc_char (char_of (10 :: nat)) @ x) = Some (char_of (10 :: nat), x)"
  "dec_char (enc_char (char_of (13 :: nat)) @ x) = Some (char_of (13 :: nat), x)"
  "dec_char (enc_char (char_of (9 :: nat)) @ x) = Some (char_of (9 :: nat), x)"
  "dec_char (enc_char (char_of (12 :: nat)) @ x) = Some (char_of (12 :: nat), x)"
  "dec_char (enc_char (char_of (8 :: nat)) @ x) = Some (char_of (8 :: nat), x)"
  by (simp_all add: dec_char_def enc_char_def)

lemma dec_u_escape:
  "dec_char ([CHR 0x5C, CHR ''u'', CHR ''0'', CHR ''0'', h, l] @ x) =
     Some (char_of (16 * unhex h + unhex l), x)"
  by (simp add: dec_char_def numeral_2_eq_2 numeral_3_eq_3)

lemma dec_enc_char: "dec_char (enc_char c @ x) = Some (c, x)"
proof -
  define n where "n = (of_char c :: nat)"
  have c: "c = char_of n" by (simp add: n_def)
  consider "n \<in> {34, 92, 10, 13, 9, 12, 8}" | "n < 32" "n \<notin> {10, 13, 9, 12, 8}"
    | "32 \<le> n" "n \<noteq> 34" "n \<noteq> 92" by fastforce
  then show ?thesis
  proof cases
    case 1
    with c show ?thesis using dec_enc_special by auto
  next
    case 2
    then have "enc_char c =
        [CHR 0x5C, CHR ''u'', CHR ''0'', CHR ''0'', hex_digit (n div 16), hex_digit (n mod 16)]"
      by (simp add: enc_char_def Let_def flip: n_def)
    moreover from 2 have "unhex (hex_digit (n div 16)) = n div 16" by (intro unhex_hex) simp
    moreover have "unhex (hex_digit (n mod 16)) = n mod 16" by (intro unhex_hex) simp
    ultimately show ?thesis using c by (simp only: dec_u_escape) simp
  next
    case 3
    then have "enc_char c = [c]" "c \<noteq> CHR 0x5C"
      by (auto simp: enc_char_def Let_def n_def)
    then show ?thesis by (simp add: dec_char_def)
  qed
qed

lemma enc_char_reads: "enc_char c @ x = enc_char d @ y \<Longrightarrow> c = d \<and> x = y"
  by (metis dec_enc_char option.inject prod.inject)

lemma enc_char_ne_quote: "enc_char c @ x \<noteq> CHR 0x22 # y"
  by (auto simp: enc_char_def Let_def dest!: arg_cong [of "_ :: string" _ hd])

lemma enc_chars_reads:
  "concat (map enc_char s) @ CHR 0x22 # x = concat (map enc_char t) @ CHR 0x22 # y
     \<Longrightarrow> s = t \<and> x = y"
proof (induction s arbitrary: t)
  case Nil
  then show ?case using enc_char_ne_quote by (cases t) (auto dest: sym)
next
  case (Cons c s)
  then show ?case
  proof (cases t)
    case Nil
    with Cons.prems enc_char_ne_quote show ?thesis by auto
  next
    case (Cons d u)
    with Cons.prems have "enc_char c @ (concat (map enc_char s) @ CHR 0x22 # x) =
        enc_char d @ (concat (map enc_char u) @ CHR 0x22 # y)" by simp
    with enc_char_reads Cons.IH Cons show ?thesis by blast
  qed
qed

lemma enc_str_reads: "enc_str s @ x = enc_str t @ y \<Longrightarrow> s = t \<and> x = y"
  by (auto simp: enc_str_def dest: enc_chars_reads)

subsection \<open>Sequences\<close>

text \<open>
  An encoder \<open>p\<close> reads back at \<open>x\<close> when what follows the text of \<open>x\<close>, if it does not
  start with a digit, does not change what is read.
\<close>

definition reads :: "('a \<Rightarrow> string) \<Rightarrow> 'a \<Rightarrow> bool" where
  "reads p x = (\<forall>y r s. delim r \<longrightarrow> delim s \<longrightarrow> p x @ r = p y @ s \<longrightarrow> x = y \<and> r = s)"

lemma readsD: "reads p x \<Longrightarrow> p x @ r = p y @ s \<Longrightarrow> delim r \<Longrightarrow> delim s \<Longrightarrow> x = y \<and> r = s"
  by (simp add: reads_def)

lemma delim_simps [simp]:
  "delim (CHR '','' # r)" "delim (CHR '']'' # r)" "delim (CHR ''}'' # r)" "delim []"
  by (simp_all add: delim_def digit_char_def)

lemma join_Cons: "join sep (x # xs) = x @ (if xs = [] then [] else sep @ join sep xs)"
  by (cases xs) simp_all

lemma hd_clash: "x \<noteq> [] \<Longrightarrow> hd x \<noteq> c \<Longrightarrow> c # r \<noteq> x @ s"
  by (cases x) auto

lemma join_tail:
  "join '','' (map p (z # us)) @ c # t =
     p z @ (if us = [] then c # t else CHR '','' # join '','' (map p us) @ c # t)"
  by (simp add: join_Cons)

lemma join_reads:
  assumes "\<And>x. x \<in> set xs \<Longrightarrow> reads p x"
    and c: "c = CHR '']'' \<or> c = CHR ''}''"
    and p: "\<And>x. p x \<noteq> [] \<and> hd (p x) \<noteq> c"
    and "join '','' (map p xs) @ c # r = join '','' (map p ys) @ c # s"
  shows "xs = ys \<and> r = s"
  using assms(1,4)
proof (induction xs arbitrary: ys)
  case Nil
  show ?case
  proof (cases ys)
    case Nil
    with Nil.prems show ?thesis by simp
  next
    case (Cons y zs)
    with Nil.prems(2) p [of y] hd_clash [of "p y" c] show ?thesis
      by (simp only: join_tail) simp
  qed
next
  case (Cons x xs)
  show ?case
  proof (cases ys)
    case Nil
    have "c # s \<noteq> join '','' (map p (x # xs)) @ c # r"
      using p [of x] hd_clash [of "p x" c] by (simp only: join_tail) simp
    with Cons.prems(2) Nil show ?thesis by (metis append_Nil join.simps(1) list.map_disc_iff)
  next
    case (Cons y zs)
    let ?rest = "\<lambda>us t. if us = [] then c # t else CHR '','' # join '','' (map p us) @ c # t"
    have d: "delim (?rest us t)" for us t using c by auto
    from Cons.prems(2) Cons have "p x @ ?rest xs r = p y @ ?rest zs s"
      by (simp only: join_tail)
    with Cons.prems(1) d have xy: "x = y" "?rest xs r = ?rest zs s"
      using readsD [of p x "?rest xs r" y "?rest zs s"] by auto
    have cc: "c \<noteq> CHR '',''" using c by auto
    have "xs = [] \<longleftrightarrow> zs = []" using xy(2) cc by (cases "xs = []"; cases "zs = []") simp_all
    moreover have "xs = zs \<and> r = s" if "xs \<noteq> []" "zs \<noteq> []"
      using xy(2) that Cons.prems(1) by (intro Cons.IH) simp_all
    ultimately show ?thesis using xy Cons by (cases "xs = []") simp_all
  qed
qed

subsection \<open>Values\<close>

lemma int_str_hd: "hd (int_str i) = CHR ''-'' \<or> digit_char (hd (int_str i))"
  by (simp add: int_str_def nat_str_hd)

lemma int_str_ne [simp]: "int_str i \<noteq> []"
  by (simp add: int_str_def)

lemma not_digits [simp]:
  "\<not> digit_char (CHR '']'')" "\<not> digit_char (CHR ''}'')" "\<not> digit_char (CHR ''['')"
  "\<not> digit_char (CHR ''{'')" "\<not> digit_char (CHR 0x22)" "\<not> digit_char (CHR ''n'')"
  "\<not> digit_char (CHR ''t'')" "\<not> digit_char (CHR ''f'')"
  by (simp_all add: digit_char_def)

text \<open>The first character of a text tells the kind of value.\<close>

definition head_kind :: "json \<Rightarrow> char \<Rightarrow> bool" where
  "head_kind v c = (case v of JNull \<Rightarrow> c = CHR ''n''
     | JBool b \<Rightarrow> c = (if b then CHR ''t'' else CHR ''f'')
     | JInt _ \<Rightarrow> c = CHR ''-'' \<or> digit_char c
     | JStr _ \<Rightarrow> c = CHR 0x22 | JList _ \<Rightarrow> c = CHR ''['' | JObj _ \<Rightarrow> c = CHR ''{'')"

lemma dumps_head: "\<exists>c t. dumps a b v = c # t \<and> head_kind v c"
proof (cases v)
  case (JInt i)
  then show ?thesis using int_str_hd [of i] int_str_ne [of i]
    by (cases "int_str i") (auto simp: head_kind_def)
qed (auto simp: head_kind_def enc_str_def)

lemma dumps_hd: "dumps a b v \<noteq> [] \<and> hd (dumps a b v) \<noteq> CHR '']''"
proof -
  obtain c t where d: "dumps a b v = c # t" "head_kind v c" using dumps_head by blast
  then have "c \<noteq> CHR '']''" by (cases v) (auto simp: head_kind_def split: if_splits)
  with d show ?thesis by simp
qed

lemma head_kind_bool:
  "head_kind (JBool True) c \<longleftrightarrow> c = CHR ''t''" "head_kind (JBool False) c \<longleftrightarrow> c = CHR ''f''"
  by (simp_all add: head_kind_def)

text \<open>Values whose texts start alike are of the same kind.\<close>

definition same_kind :: "json \<Rightarrow> json \<Rightarrow> bool" where
  "same_kind v w = (case v of
       JNull \<Rightarrow> w = JNull | JBool b \<Rightarrow> w = JBool b
     | JInt _ \<Rightarrow> (case w of JInt _ \<Rightarrow> True | _ \<Rightarrow> False)
     | JStr _ \<Rightarrow> (case w of JStr _ \<Rightarrow> True | _ \<Rightarrow> False)
     | JList _ \<Rightarrow> (case w of JList _ \<Rightarrow> True | _ \<Rightarrow> False)
     | JObj _ \<Rightarrow> (case w of JObj _ \<Rightarrow> True | _ \<Rightarrow> False))"

lemma head_kind_same: "head_kind v c \<Longrightarrow> head_kind w c \<Longrightarrow> same_kind v w"
  by (cases v; cases w) (auto simp: head_kind_def same_kind_def split: if_splits)

lemma dumps_same_kind: "dumps a b v @ r = dumps a b w @ s \<Longrightarrow> same_kind v w"
proof -
  assume eq: "dumps a b v @ r = dumps a b w @ s"
  obtain c t where v: "dumps a b v = c # t" "head_kind v c" using dumps_head by blast
  obtain d u where w: "dumps a b w = d # u" "head_kind w d" using dumps_head by blast
  from eq v w have "c = d" by simp
  with v w show ?thesis by (metis head_kind_same)
qed

lemma pair_reads:
  "reads p (snd kv) \<Longrightarrow> reads (\<lambda>kv. enc_str (fst kv) @ '':'' @ p (snd kv)) kv"
  unfolding reads_def
proof (intro allI impI)
  fix y :: "string \<times> 'a" and r s
  assume v: "\<forall>y r s. delim r \<longrightarrow> delim s \<longrightarrow> p (snd kv) @ r = p y @ s \<longrightarrow> snd kv = y \<and> r = s"
    and d: "delim r" "delim s"
    and eq: "(enc_str (fst kv) @ '':'' @ p (snd kv)) @ r = (enc_str (fst y) @ '':'' @ p (snd y)) @ s"
  from eq have "fst kv = fst y \<and> '':'' @ p (snd kv) @ r = '':'' @ p (snd y) @ s"
    by (intro enc_str_reads) simp
  with v d show "kv = y \<and> r = s" by (auto simp: prod_eq_iff)
qed

theorem dumps_reads: "reads (dumps '','' '':'') v"
proof (induction v)
  case JNull
  show ?case unfolding reads_def
  proof (intro allI impI)
    fix y r s assume eq: "dumps '','' '':'' JNull @ r = dumps '','' '':'' y @ s"
    from dumps_same_kind [OF eq] have "y = JNull" by (simp add: same_kind_def)
    with eq show "JNull = y \<and> r = s" by simp
  qed
next
  case (JBool b)
  show ?case unfolding reads_def
  proof (intro allI impI)
    fix y r s assume eq: "dumps '','' '':'' (JBool b) @ r = dumps '','' '':'' y @ s"
    from dumps_same_kind [OF eq] have "y = JBool b" by (simp add: same_kind_def)
    with eq show "JBool b = y \<and> r = s" by simp
  qed
next
  case (JInt i)
  show ?case unfolding reads_def
  proof (intro allI impI)
    fix y r s assume d: "delim r" "delim s" and eq: "dumps '','' '':'' (JInt i) @ r = dumps '','' '':'' y @ s"
    from dumps_same_kind [OF eq] obtain j where "y = JInt j"
      by (auto simp: same_kind_def split: json.splits)
    with eq have "int_str i @ r = int_str j @ s" by simp
    from int_str_reads [OF this d] \<open>y = JInt j\<close> show "JInt i = y \<and> r = s" by simp
  qed
next
  case (JStr t)
  show ?case unfolding reads_def
  proof (intro allI impI)
    fix y r s assume eq: "dumps '','' '':'' (JStr t) @ r = dumps '','' '':'' y @ s"
    from dumps_same_kind [OF eq] obtain u where "y = JStr u"
      by (auto simp: same_kind_def split: json.splits)
    with eq have "enc_str t @ r = enc_str u @ s" by simp
    from enc_str_reads [OF this] \<open>y = JStr u\<close> show "JStr t = y \<and> r = s" by simp
  qed
next
  case (JList vs)
  show ?case unfolding reads_def
  proof (intro allI impI)
    fix y r s assume eq: "dumps '','' '':'' (JList vs) @ r = dumps '','' '':'' y @ s"
    from dumps_same_kind [OF eq] obtain ws where y: "y = JList ws"
      by (auto simp: same_kind_def split: json.splits)
    with eq have "join '','' (map (dumps '','' '':'') vs) @ CHR '']'' # r =
        join '','' (map (dumps '','' '':'') ws) @ CHR '']'' # s" by simp
    then have "vs = ws \<and> r = s" using JList dumps_hd by (intro join_reads) auto
    with y show "JList vs = y \<and> r = s" by simp
  qed
next
  case (JObj kvs)
  let ?p = "\<lambda>kv. enc_str (fst kv) @ '':'' @ dumps '','' '':'' (snd kv)"
  have each: "reads ?p kv" if "kv \<in> set kvs" for kv
    by (rule pair_reads, cases kv) (use that JObj in auto)
  show ?case unfolding reads_def
  proof (intro allI impI)
    fix y r s assume eq: "dumps '','' '':'' (JObj kvs) @ r = dumps '','' '':'' y @ s"
    from dumps_same_kind [OF eq] obtain ws where y: "y = JObj ws"
      by (auto simp: same_kind_def split: json.splits)
    with eq have "join '','' (map ?p kvs) @ CHR ''}'' # r = join '','' (map ?p ws) @ CHR ''}'' # s"
      by simp
    then have "kvs = ws \<and> r = s" using each by (intro join_reads) (auto simp: enc_str_def)
    with y show "JObj kvs = y \<and> r = s" by simp
  qed
qed

section \<open>Equality up to key order\<close>

lemma canonical_json_eq: "canonical_json v = canonical_json w \<longleftrightarrow> norm_json v = norm_json w"
proof
  assume "canonical_json v = canonical_json w"
  then have "dumps '','' '':'' (norm_json v) @ [] = dumps '','' '':'' (norm_json w) @ []"
    by (simp add: canonical_json_def)
  from readsD [OF dumps_reads this] show "norm_json v = norm_json w" by simp
qed (simp add: canonical_json_def)

lemma map_of_sort_key_fst:
  "distinct (map fst kvs) \<Longrightarrow> map_of (sort_key fst kvs) = map_of kvs"
  by (intro map_of_eqI) (auto simp: distinct_map)

text \<open>Objects written with the same keys in the same order agree when their values do.\<close>

lemma norm_obj_eq:
  assumes "distinct (map fst a)" and "map fst a = map fst b"
  shows "norm_json (JObj a) = norm_json (JObj b) \<longleftrightarrow>
    map (norm_json \<circ> snd) a = map (norm_json \<circ> snd) b"
proof -
  let ?n = "\<lambda>kv. (fst kv, norm_json (snd kv))"
  have z: "map ?n x = zip (map fst x) (map (norm_json \<circ> snd) x)" for x by (induction x) auto
  have len: "length b = length a" by (metis assms(2) length_map)
  show ?thesis
  proof
    assume "norm_json (JObj a) = norm_json (JObj b)"
    then have "map_of (sort_key fst (map ?n a)) = map_of (sort_key fst (map ?n b))" by simp
    then have "map_of (map ?n a) = map_of (map ?n b)"
      using assms by (simp add: map_of_sort_key_fst comp_def)
    then have "map_of (zip (map fst a) (map (norm_json \<circ> snd) a)) =
        map_of (zip (map fst a) (map (norm_json \<circ> snd) b))"
      by (simp only: z assms(2))
    then show "map (norm_json \<circ> snd) a = map (norm_json \<circ> snd) b"
      using assms(1) len by (intro map_of_zip_inject) simp_all
  next
    assume "map (norm_json \<circ> snd) a = map (norm_json \<circ> snd) b"
    then have "map ?n a = map ?n b" by (simp only: z assms(2))
    then show "norm_json (JObj a) = norm_json (JObj b)" by simp
  qed
qed

lemma norm_jstrs [simp]: "map (norm_json \<circ> JStr) xs = map JStr xs" "map (norm_json \<circ> JInt) is = map JInt is"
  by simp_all

text \<open>A dict written as an object with values \<open>f v\<close> that \<open>f\<close> tells apart.\<close>

lemma norm_dict_eq:
  assumes "norm_json (JObj (map (\<lambda>(k, v). (k, f v)) d)) = norm_json (JObj (map (\<lambda>(k, v). (k, f v)) e))"
    and "distinct (map fst d)" "distinct (map fst e)" and "inj (norm_json \<circ> f)"
  shows "map_of d = map_of e"
proof -
  let ?g = "norm_json \<circ> f"
  have m: "map_of (sort_key fst (map (\<lambda>kv. (fst kv, norm_json (snd kv))) (map (\<lambda>(k, v). (k, f v)) d)))
      = map_option ?g \<circ> map_of d" if "distinct (map fst d)" for d :: "(string \<times> 'a) list"
  proof -
    have eq: "map (\<lambda>kv. (fst kv, norm_json (snd kv))) (map (\<lambda>(k, v). (k, f v)) d) = map (\<lambda>(k, v). (k, ?g v)) d"
      by auto
    have "distinct (map fst (map (\<lambda>(k, v). (k, ?g v)) d))" using that by (simp add: comp_def case_prod_unfold)
    from map_of_sort_key_fst [OF this] show ?thesis unfolding eq by (simp only: map_of_map)
  qed
  from assms(1) have "map_option ?g \<circ> map_of d = map_option ?g \<circ> map_of e"
    using m [OF assms(2)] m [OF assms(3)] by simp
  then have *: "map_option ?g (map_of d k) = map_option ?g (map_of e k)" for k by (metis comp_apply)
  have "inj (map_option ?g)" using assms(4) by (rule option.inj_map)
  with * show ?thesis by (intro ext) (metis injD)
qed

section \<open>Content addresses\<close>

text \<open>
  The interface of a record that is identified by the digest of a serialised material: the
  material is faithful when it determines the part of the record that it signs. Then equal
  addresses mean equal signed parts, up to a collision of the digest on the two texts.
\<close>

locale content_address =
  fixes material :: "'a \<Rightarrow> json" and signed :: "'a \<Rightarrow> 'b" and ok :: "'a \<Rightarrow> bool"
  assumes faithful: "ok x \<Longrightarrow> ok y \<Longrightarrow> norm_json (material x) = norm_json (material y) \<Longrightarrow> signed x = signed y"
begin

lemma address_binds:
  assumes "ok x" "ok y" and "inj_on H {canonical_json (material x), canonical_json (material y)}"
    and "stable_hash H (material x) = stable_hash H (material y)"
  shows "signed x = signed y"
proof -
  have "canonical_json (material x) = canonical_json (material y)"
  proof (rule inj_onD [OF assms(3)])
    show "H (canonical_json (material x)) = H (canonical_json (material y))"
      using assms(4) by (simp only: stable_hash_def)
  qed simp_all
  with faithful [OF assms(1,2)] show ?thesis by (simp add: canonical_json_eq)
qed

lemma tamper_evident:
  "ok x \<Longrightarrow> ok y \<Longrightarrow> inj_on H {canonical_json (material x), canonical_json (material y)} \<Longrightarrow>
   signed x \<noteq> signed y \<Longrightarrow> stable_hash H (material x) \<noteq> stable_hash H (material y)"
  using address_binds by blast

end

section \<open>Properties\<close>

text \<open>The canonical serialisation is uniquely readable: two values have the same canonical
  text exactly when they are equal up to the order of object keys, so a content address
  (authority hash, transaction id, action id, event hash, signatures) confuses no two values
  that differ in anything but key order.\<close>

lemma canonical_json_injective:
  "canonical_json v = canonical_json w \<longleftrightarrow> norm_json v = norm_json w"
  by (rule canonical_json_eq)

end
