(* ===== verification/RModels.thy ===== *)
theory RModels
  imports Json
begin

text \<open>
  The records of \<open>ourd/reasoning/models.py\<close>: one record per dataclass, and for each
  \<open>__post_init__\<close> a function that checks the fields in the code's order and returns the
  canonical record (\<open>ValueError\<close> as \<open>Inl\<close>). A record that signs itself takes the digest
  \<open>H\<close>. Field names carry a short prefix, since record fields are global constants.
\<close>

section \<open>Shared checks\<close>

definition bounded_score :: "int \<Rightarrow> string \<Rightarrow> bool \<Rightarrow> int res" where
  "bounded_score v label signed =
     (if (if signed then - SCORE_SCALE else 0) \<le> v \<and> v \<le> SCORE_SCALE then Inr v
      else Inl (ValueError label))"

lemma bounded_score_Inr [res_simps]:
  "bounded_score v l s = Inr w \<longleftrightarrow>
     w = v \<and> (if s then - SCORE_SCALE else 0) \<le> v \<and> v \<le> SCORE_SCALE"
  by (auto simp: bounded_score_def)

definition check_scores :: "(string \<times> int) list \<Rightarrow> unit res" where
  "check_scores fs = eachR (\<lambda>(name, v). bindR (bounded_score v name False) (\<lambda>_. Inr ())) fs"

lemma check_scores_Inr [res_simps]:
  "check_scores fs = Inr u \<longleftrightarrow> (\<forall>(n, v) \<in> set fs. in_scale v)"
  by (force simp: check_scores_def eachR_Inr res_simps)

definition canonical_strings :: "string list \<Rightarrow> string list" where
  "canonical_strings vs = sorted_set (filter (\<lambda>v. v \<noteq> []) vs)"

definition stable_strings :: "string list \<Rightarrow> string list" where
  "stable_strings vs = from_keys (filter (\<lambda>v. v \<noteq> []) vs)"

definition canonical_score_pairs :: "(string \<times> int) list \<Rightarrow> (string \<times> int) list res" where
  "canonical_score_pairs vs =
     (if list_ex (\<lambda>kv. fst kv = []) vs then Inl (ValueError ''score keys must be non-empty'')
      else Inr (sort_key fst (foldl (\<lambda>d kv. dict_set (fst kv) (snd kv) d) [] vs)))"

lemma canonical_strings_simps [simp]:
  "sorted (canonical_strings vs)" "distinct (canonical_strings vs)"
  "set (canonical_strings vs) = {v \<in> set vs. v \<noteq> []}"
  by (auto simp: canonical_strings_def)

lemma canonical_strings_eqI:
  "{v \<in> set xs. v \<noteq> []} = {v \<in> set ys. v \<noteq> []} \<Longrightarrow> canonical_strings xs = canonical_strings ys"
  unfolding canonical_strings_def by (rule sorted_set_eqI) auto

lemma canonical_strings_id:
  "sorted xs \<Longrightarrow> distinct xs \<Longrightarrow> [] \<notin> set xs \<Longrightarrow> canonical_strings xs = xs"
  unfolding canonical_strings_def by (subst filter_True) (auto simp: sorted_set_id)

lemma canonical_strings_idem [simp]: "canonical_strings (canonical_strings vs) = canonical_strings vs"
  by (rule canonical_strings_id) auto

lemma set_stable_strings [simp]: "set (stable_strings vs) = {v \<in> set vs. v \<noteq> []}"
  by (auto simp: stable_strings_def)

lemma distinct_stable_strings [simp]: "distinct (stable_strings vs)"
  by (simp add: stable_strings_def)

section \<open>Vocabularies\<close>

definition HYPOTHESIS_STATUSES :: "string list" where
  "HYPOTHESIS_STATUSES = [''ACTIVE'', ''WEAKENED'', ''SUPPORTED'', ''FALSIFIED'', ''UNRESOLVED'']"

definition NODE_KINDS :: "string list" where
  "NODE_KINDS = [''question'', ''hypothesis'', ''premise'', ''assumption'', ''claim'',
     ''observation'', ''evidence'', ''inference'', ''prediction'', ''experiment'',
     ''counterexample'', ''constraint'', ''conclusion'', ''decision'']"

definition EDGE_RELATIONS :: "string list" where
  "EDGE_RELATIONS = [''supports'', ''contradicts'', ''requires'', ''entails'', ''predicts'',
     ''tests'', ''falsifies'', ''qualifies'', ''explains'', ''causes'', ''depends_on'',
     ''undercuts'', ''rebuts'']"

definition INFERENCE_MODES :: "string list" where
  "INFERENCE_MODES = [''unspecified'', ''deductive'', ''inductive'', ''abductive'', ''causal'',
     ''analogical'', ''probabilistic'', ''authority'', ''defeasible'', ''constraint'',
     ''computational'']"

definition INFERENCE_MODE_ALIASES :: "(string, string) dict" where
  "INFERENCE_MODE_ALIASES = [(''empirical'', ''inductive''), (''formal'', ''deductive''),
     (''mathematical'', ''computational''), (''mechanistic'', ''causal'')]"

definition canonical_inference_mode :: "string \<Rightarrow> bool \<Rightarrow> string res" where
  "canonical_inference_mode value allow_unspecified =
     (let n = map (\<lambda>c. if c = CHR ''-'' \<or> c = CHR '' '' then CHR ''_'' else c) (casefold (strip value));
          m = dict_getd INFERENCE_MODE_ALIASES n n
      in if m \<notin> set INFERENCE_MODES then Inl (ValueError ''invalid reasoning inference mode'')
         else if m = ''unspecified'' \<and> \<not> allow_unspecified
           then Inl (ValueError ''reasoning inference mode must be explicit'')
         else Inr m)"

section \<open>Problems and hypotheses\<close>

record reasoning_problem =
  rp_schema_version :: int
  rp_problem_id :: string
  rp_statement :: string
  rp_goal :: string
  rp_source_snapshot_hash :: string
  rp_boundary_signature :: string
  rp_dimension_signature :: string
  rp_evidence_ids :: "string list"
  rp_uncertainty_bp :: int
  rp_difficulty_bp :: int
  rp_mutually_exclusive_hypotheses :: bool
  rp_signature :: string

definition problem_post_init :: "reasoning_problem \<Rightarrow> reasoning_problem res" where
  "problem_post_init p =
     (if strip (rp_statement p) = [] then Inl (ValueError ''reasoning problem statement must be non-empty'')
      else if strip (rp_goal p) = [] then Inl (ValueError ''reasoning problem goal must be non-empty'')
      else bindR (check_scores [(''problem uncertainty'', rp_uncertainty_bp p),
                                (''problem difficulty'', rp_difficulty_bp p)]) (\<lambda>_.
        Inr (p\<lparr>rp_evidence_ids := canonical_strings (rp_evidence_ids p)\<rparr>)))"

record reasoning_hypothesis =
  rh_hypothesis_id :: string
  rh_proposition :: string
  rh_prior_bp :: int
  rh_posterior_bp :: int
  rh_supporting_evidence :: "string list"
  rh_conflicting_evidence :: "string list"
  rh_assumptions :: "string list"
  rh_predictions :: "string list"
  rh_falsifiers :: "string list"
  rh_status :: string
  rh_signature :: string

definition rhypothesis_post_init :: "reasoning_hypothesis \<Rightarrow> reasoning_hypothesis res" where
  "rhypothesis_post_init h =
     (if rh_hypothesis_id h = [] then Inl (ValueError ''hypothesis_id must be non-empty'')
      else if strip (rh_proposition h) = [] then Inl (ValueError ''hypothesis proposition must be non-empty'')
      else bindR (check_scores [(''hypothesis prior'', rh_prior_bp h),
                                (''hypothesis posterior'', rh_posterior_bp h)]) (\<lambda>_.
        if rh_status h \<notin> set HYPOTHESIS_STATUSES then Inl (ValueError ''invalid hypothesis status'')
        else Inr (h\<lparr>rh_supporting_evidence := canonical_strings (rh_supporting_evidence h),
                    rh_conflicting_evidence := canonical_strings (rh_conflicting_evidence h),
                    rh_assumptions := canonical_strings (rh_assumptions h),
                    rh_predictions := canonical_strings (rh_predictions h),
                    rh_falsifiers := canonical_strings (rh_falsifiers h)\<rparr>)))"

text \<open>\<open>asdict\<close> of a hypothesis without its signature: the material it signs.\<close>

definition rhypothesis_fields :: "reasoning_hypothesis \<Rightarrow> (string \<times> json) list" where
  "rhypothesis_fields h = [
     (''hypothesis_id'', JStr (rh_hypothesis_id h)), (''proposition'', JStr (rh_proposition h)),
     (''prior_bp'', JInt (rh_prior_bp h)), (''posterior_bp'', JInt (rh_posterior_bp h)),
     (''supporting_evidence'', jstrs (rh_supporting_evidence h)),
     (''conflicting_evidence'', jstrs (rh_conflicting_evidence h)),
     (''assumptions'', jstrs (rh_assumptions h)), (''predictions'', jstrs (rh_predictions h)),
     (''falsifiers'', jstrs (rh_falsifiers h)), (''status'', JStr (rh_status h))]"

definition rhypothesis_json :: "reasoning_hypothesis \<Rightarrow> json" where
  "rhypothesis_json h = JObj (rhypothesis_fields h @ [(''signature'', JStr (rh_signature h))])"

record hypothesis_update =
  hu_schema_version :: int
  hu_update_id :: string
  hu_problem_id :: string
  hu_hypothesis_id :: string
  hu_operation :: string
  hu_evidence_ids :: "string list"
  hu_collision_ids :: "string list"
  hu_polarity :: string
  hu_likelihood_if_true_bp :: int
  hu_likelihood_if_false_bp :: int
  hu_previous_posterior_bp :: int
  hu_updated_posterior_bp :: int
  hu_previous_status :: string
  hu_updated_status :: string
  hu_previous_hypothesis_signature :: string
  hu_updated_hypothesis_signature :: string
  hu_reason :: string
  hu_signature :: string

definition update_fields :: "hypothesis_update \<Rightarrow> (string \<times> json) list" where
  "update_fields u = [
     (''schema_version'', JInt (hu_schema_version u)), (''problem_id'', JStr (hu_problem_id u)),
     (''hypothesis_id'', JStr (hu_hypothesis_id u)), (''operation'', JStr (hu_operation u)),
     (''evidence_ids'', jstrs (hu_evidence_ids u)), (''collision_ids'', jstrs (hu_collision_ids u)),
     (''polarity'', JStr (hu_polarity u)),
     (''likelihood_if_true_bp'', JInt (hu_likelihood_if_true_bp u)),
     (''likelihood_if_false_bp'', JInt (hu_likelihood_if_false_bp u)),
     (''previous_posterior_bp'', JInt (hu_previous_posterior_bp u)),
     (''updated_posterior_bp'', JInt (hu_updated_posterior_bp u)),
     (''previous_status'', JStr (hu_previous_status u)),
     (''updated_status'', JStr (hu_updated_status u)),
     (''previous_hypothesis_signature'', JStr (hu_previous_hypothesis_signature u)),
     (''updated_hypothesis_signature'', JStr (hu_updated_hypothesis_signature u)),
     (''reason'', JStr (hu_reason u))]"

definition update_post_init :: "digest \<Rightarrow> hypothesis_update \<Rightarrow> hypothesis_update res" where
  "update_post_init H u =
     (if hu_schema_version u \<noteq> 1 then Inl (ValueError ''hypothesis update schema_version must be 1'')
      else if list_ex (\<lambda>s. strip s = []) [hu_problem_id u, hu_hypothesis_id u, hu_operation u,
          hu_previous_hypothesis_signature u, hu_updated_hypothesis_signature u]
        then Inl (ValueError ''hypothesis update field must be non-empty'')
      else if hu_polarity u \<notin> {''support'', ''counterexample'', ''conflict''}
        then Inl (ValueError ''hypothesis update polarity is invalid'')
      else bindR (check_scores [
          (''likelihood_if_true_bp'', hu_likelihood_if_true_bp u),
          (''likelihood_if_false_bp'', hu_likelihood_if_false_bp u),
          (''previous_posterior_bp'', hu_previous_posterior_bp u),
          (''updated_posterior_bp'', hu_updated_posterior_bp u)]) (\<lambda>_.
        if hu_previous_status u \<notin> set HYPOTHESIS_STATUSES
          then Inl (ValueError ''hypothesis update previous status is invalid'')
        else if hu_updated_status u \<notin> set HYPOTHESIS_STATUSES
          then Inl (ValueError ''hypothesis update updated status is invalid'')
        else let v = u\<lparr>hu_evidence_ids := canonical_strings (hu_evidence_ids u),
                       hu_collision_ids := canonical_strings (hu_collision_ids u)\<rparr>;
                 expected_id = ''hypothesis-update:'' @ stable_hash H (JObj (update_fields v))
          in if hu_update_id u \<noteq> [] \<and> hu_update_id u \<noteq> expected_id
               then Inl (ValueError ''hypothesis update ID mismatch'')
             else let expected_signature = stable_hash H
                        (JObj (update_fields v @ [(''update_id'', JStr expected_id)]))
               in if hu_signature u \<noteq> [] \<and> hu_signature u \<noteq> expected_signature
                    then Inl (ValueError ''hypothesis update signature mismatch'')
                  else Inr (v\<lparr>hu_update_id := expected_id, hu_signature := expected_signature\<rparr>)))"

record reasoning_hypothesis_set =
  hs_schema_version :: int
  hs_problem_id :: string
  hs_hypotheses :: "reasoning_hypothesis list"
  hs_max_hypotheses :: int
  hs_mutually_exclusive :: bool
  hs_uncertainty_bp :: int
  hs_evidence_ids :: "string list"
  hs_update_ids :: "string list"
  hs_signature :: string

definition hypothesis_set_material :: "reasoning_hypothesis_set \<Rightarrow> json" where
  "hypothesis_set_material s = JObj [
     (''schema_version'', JInt (hs_schema_version s)), (''problem_id'', JStr (hs_problem_id s)),
     (''hypotheses'', JList (map rhypothesis_json (hs_hypotheses s))),
     (''max_hypotheses'', JInt (hs_max_hypotheses s)),
     (''mutually_exclusive'', JBool (hs_mutually_exclusive s)),
     (''uncertainty_bp'', JInt (hs_uncertainty_bp s)),
     (''evidence_ids'', jstrs (hs_evidence_ids s)), (''update_ids'', jstrs (hs_update_ids s))]"

definition hypothesis_set_post_init ::
  "digest \<Rightarrow> reasoning_hypothesis_set \<Rightarrow> reasoning_hypothesis_set res" where
  "hypothesis_set_post_init H s =
     (let ordered = sort_key rh_hypothesis_id (hs_hypotheses s);
          survivors = filter (\<lambda>h. rh_status h \<noteq> ''FALSIFIED'') ordered;
          expected_mass = (if survivors \<noteq> [] then SCORE_SCALE else 0)
      in if hs_schema_version s \<noteq> 1 then Inl (ValueError ''hypothesis set schema_version must be 1'')
         else if strip (hs_problem_id s) = [] then Inl (ValueError ''hypothesis set problem_id must be non-empty'')
         else if hs_max_hypotheses s < 1 then Inl (ValueError ''hypothesis set maximum must be positive'')
         else if ordered = [] then Inl (ValueError ''hypothesis set must contain at least one hypothesis'')
         else if int (length ordered) > hs_max_hypotheses s
           then Inl (ValueError ''hypothesis set exceeds its maximum'')
         else if \<not> distinct (map rh_hypothesis_id ordered)
           then Inl (ValueError ''hypothesis set IDs must be unique'')
         else if hs_mutually_exclusive s \<and> sum_list (map rh_posterior_bp ordered) \<noteq> expected_mass
           then Inl (ValueError ''mutually exclusive hypothesis posteriors must sum to 10000 or zero'')
         else bindR (check_scores [(''hypothesis set uncertainty'', hs_uncertainty_bp s)]) (\<lambda>_.
           let t = s\<lparr>hs_hypotheses := ordered,
                     hs_evidence_ids := canonical_strings (hs_evidence_ids s),
                     hs_update_ids := canonical_strings (hs_update_ids s)\<rparr>;
               expected = stable_hash H (hypothesis_set_material t)
           in if hs_signature s \<noteq> [] \<and> hs_signature s \<noteq> expected
                then Inl (ValueError ''hypothesis set signature mismatch'')
              else Inr (t\<lparr>hs_signature := expected\<rparr>)))"

text \<open>
  The invariant of a constructed set: ordered by identity without duplicates, within its
  bound, non-empty, and with the whole probability mass on an exclusive set that has a
  survivor.
\<close>

definition hypothesis_set_ok :: "reasoning_hypothesis_set \<Rightarrow> bool" where
  "hypothesis_set_ok s \<longleftrightarrow>
     sorted (map rh_hypothesis_id (hs_hypotheses s)) \<and> distinct (map rh_hypothesis_id (hs_hypotheses s)) \<and>
     hs_hypotheses s \<noteq> [] \<and> int (length (hs_hypotheses s)) \<le> hs_max_hypotheses s \<and>
     in_scale (hs_uncertainty_bp s) \<and>
     (hs_mutually_exclusive s \<longrightarrow>
        sum_list (map rh_posterior_bp (hs_hypotheses s)) =
          (if \<exists>h \<in> set (hs_hypotheses s). rh_status h \<noteq> ''FALSIFIED'' then SCORE_SCALE else 0))"

lemma hypothesis_set_post_init_cases:
  assumes "hypothesis_set_post_init H s = Inr t"
  defines "ordered \<equiv> sort_key rh_hypothesis_id (hs_hypotheses s)"
  shows "ordered \<noteq> [] \<and> int (length ordered) \<le> hs_max_hypotheses s \<and>
      distinct (map rh_hypothesis_id ordered) \<and> in_scale (hs_uncertainty_bp s) \<and>
      (hs_mutually_exclusive s \<longrightarrow> sum_list (map rh_posterior_bp ordered) =
         (if filter (\<lambda>h. rh_status h \<noteq> ''FALSIFIED'') ordered \<noteq> [] then SCORE_SCALE else 0)) \<and>
      (\<exists>u. u = s\<lparr>hs_hypotheses := ordered,
               hs_evidence_ids := canonical_strings (hs_evidence_ids s),
               hs_update_ids := canonical_strings (hs_update_ids s)\<rparr> \<and>
           t = u\<lparr>hs_signature := stable_hash H (hypothesis_set_material u)\<rparr>)"
  using assms(1) unfolding hypothesis_set_post_init_def Let_def ordered_def [symmetric]
  by (simp only: guard_Inr bindR_Inr check_scores_Inr not_less not_not) auto

lemma hypothesis_set_material_signature [simp]:
  "hypothesis_set_material (s\<lparr>hs_signature := x\<rparr>) = hypothesis_set_material s"
  by (simp add: hypothesis_set_material_def)

lemma hypothesis_set_post_init_Inr:
  assumes "hypothesis_set_post_init H s = Inr t"
  shows "hypothesis_set_ok t" and "mset (hs_hypotheses t) = mset (hs_hypotheses s)"
    and "hs_problem_id t = hs_problem_id s" and "hs_max_hypotheses t = hs_max_hypotheses s"
    and "hs_mutually_exclusive t = hs_mutually_exclusive s"
    and "hs_signature t = stable_hash H (hypothesis_set_material t)"
    and "hs_hypotheses t = sort_key rh_hypothesis_id (hs_hypotheses s)"
  using hypothesis_set_post_init_cases [OF assms]
  by (auto simp: hypothesis_set_ok_def filter_empty_conv)

end
