(* ===== verification/Models.thy ===== *)
theory Models
  imports RModels
begin

text \<open>
  The records of \<open>ourd/models.py\<close>: authority, governance, evidence, transactions, EON actions,
  gate decisions, collisions, the OIEC control state (boundary, dimension budget, finite
  evidence, hypotheses, progress) and the runtime state that holds them all. A dataclass with
  a \<open>__post_init__\<close> has a constructor function that runs it. The reasoning records the runtime
  state carries without reading them here (topology, candidates, context, contradictions,
  synthesis, operation choice, certificate) are opaque payloads in it.
\<close>

section \<open>Risk levels\<close>

definition RISK_ORDER :: "(string, nat) dict" where
  "RISK_ORDER = [(''L0'', 0), (''L1'', 1), (''L2'', 2)]"

definition is_risk :: "string \<Rightarrow> bool" where
  "is_risk r = (dict_get RISK_ORDER r \<noteq> None)"

text \<open>\<open>RISK_ORDER[r]\<close> where the code has already checked the key, or a \<open>KeyError\<close>.\<close>

definition risk_rank :: "string \<Rightarrow> nat" where
  "risk_rank r = dict_getd RISK_ORDER r 0"

definition risk_index :: "string \<Rightarrow> nat res" where
  "risk_index r = (case dict_get RISK_ORDER r of None \<Rightarrow> Inl (KeyError r) | Some n \<Rightarrow> Inr n)"

text \<open>\<open>max\<close> with a key: the first of the largest elements.\<close>

definition max_by :: "('a \<Rightarrow> 'b::linorder) \<Rightarrow> 'a \<Rightarrow> 'a list \<Rightarrow> 'a" where
  "max_by k x xs = foldl (\<lambda>m y. if k y > k m then y else m) x xs"

definition max_risk :: "string list \<Rightarrow> string res" where
  "max_risk rs =
     (if list_ex (\<lambda>r. \<not> is_risk r) rs then Inl (ValueError ''invalid risk values'')
      else (case rs of [] \<Rightarrow> Inl (ValueError ''max() arg is an empty sequence'')
            | r # rest \<Rightarrow> Inr (max_by risk_rank r rest)))"

lemma is_risk_iff: "is_risk r \<longleftrightarrow> r = ''L0'' \<or> r = ''L1'' \<or> r = ''L2''"
  by (simp add: is_risk_def RISK_ORDER_def)

lemma risk_rank_simps [simp]: "risk_rank ''L0'' = 0" "risk_rank ''L1'' = 1" "risk_rank ''L2'' = 2"
  by (simp_all add: risk_rank_def dict_getd_def RISK_ORDER_def)

lemma risk_index_is: "is_risk r \<Longrightarrow> risk_index r = Inr (risk_rank r)"
  by (auto simp: risk_index_def risk_rank_def dict_getd_def is_risk_def)

lemma risk_rank_inj: "is_risk r \<Longrightarrow> is_risk s \<Longrightarrow> risk_rank r = risk_rank s \<longleftrightarrow> r = s"
  by (auto simp: is_risk_iff)

lemma max_by_simps [simp]:
  "max_by k y [] = y"
  "max_by k y (z # zs) = max_by k (if k z > k y then z else y) zs"
  by (simp_all add: max_by_def)

lemma max_by_ge_init: "k y \<le> k (max_by k y ys)"
proof (induction ys arbitrary: y)
  case Nil
  show ?case by simp
next
  case (Cons z zs)
  have "k y \<le> k (if k z > k y then z else y)" by (simp add: less_imp_le leI)
  also have "\<dots> \<le> k (max_by k y (z # zs))" using Cons [of "if k z > k y then z else y"] by simp
  finally show ?case .
qed

lemma max_by_ge: "x \<in> set ys \<Longrightarrow> k x \<le> k (max_by k y ys)"
proof (induction ys arbitrary: y)
  case Nil
  then show ?case by simp
next
  case (Cons z zs)
  show ?case
  proof (cases "x = z")
    case True
    have "k z \<le> k (if k z > k y then z else y)" by (simp add: less_imp_le leI)
    also have "\<dots> \<le> k (max_by k y (z # zs))" by (simp add: max_by_ge_init)
    finally show ?thesis using True by simp
  next
    case False
    with Cons show ?thesis by simp
  qed
qed

lemma max_by_mem: "max_by k y ys \<in> set (y # ys)"
proof (induction ys arbitrary: y)
  case Nil
  show ?case by simp
next
  case (Cons z zs)
  from Cons [of "if k z > k y then z else y"] show ?case by (auto split: if_splits)
qed

lemma max_risk_Inr:
  assumes "max_risk rs = Inr r"
  shows "r \<in> set rs" and "is_risk r" and "s \<in> set rs \<Longrightarrow> risk_rank s \<le> risk_rank r"
proof -
  from assms obtain x xs where rs: "rs = x # xs" "r = max_by risk_rank x xs"
      "\<forall>s \<in> set rs. is_risk s"
    by (auto simp: max_risk_def Ball_set list_ex_iff split: if_splits list.splits)
  then show "r \<in> set rs" using max_by_mem by metis
  with rs show "is_risk r" by blast
  show "risk_rank s \<le> risk_rank r" if "s \<in> set rs"
    using max_by_ge [of s xs risk_rank x] max_by_ge_init [of risk_rank x xs] that rs by auto
qed

lemma max_risk_two: "is_risk a \<Longrightarrow> is_risk b \<Longrightarrow>
    max_risk [a, b] = Inr (if risk_rank b > risk_rank a then b else a)"
  by (simp add: max_risk_def max_by_def)

section \<open>Governance records\<close>

record authority_manifest =
  am_schema_version :: int
  am_task_id :: string
  am_goal :: string
  am_source_snapshot_hash :: string
  am_allowed_paths :: "string list"
  am_forbidden_paths :: "string list"
  am_read_capabilities :: "string list"
  am_command_capabilities :: "string list"
  am_semantic_capability_ceiling :: string
  am_semantic_capabilities :: "string list"
  am_max_retries_per_action :: int
  am_max_automatic_risk :: string
  am_allow_l1_auto_apply :: bool
  am_allow_interactive_l2 :: bool
  am_allow_yolo :: bool
  am_mandatory_tests :: "string list"
  am_mandatory_evidence :: "string list"
  am_expires_at :: string
  am_operator :: string
  am_authority_hash :: string
  am_read_only :: bool

definition default_authority :: authority_manifest where
  "default_authority = \<lparr>
     am_schema_version = 1, am_task_id = ''read-only'', am_goal = ''Read-only repository inspection'',
     am_source_snapshot_hash = [], am_allowed_paths = [''**''],
     am_forbidden_paths = [''.ourd-agent/**''],
     am_read_capabilities = [''workspace.list'', ''workspace.read'', ''workspace.search'',
        ''git.status'', ''git.diff''],
     am_command_capabilities = [], am_semantic_capability_ceiling = ''C1'',
     am_semantic_capabilities = [], am_max_retries_per_action = 1, am_max_automatic_risk = ''L0'',
     am_allow_l1_auto_apply = False, am_allow_interactive_l2 = False, am_allow_yolo = False,
     am_mandatory_tests = [], am_mandatory_evidence = [], am_expires_at = [],
     am_operator = ''unconfigured'', am_authority_hash = [], am_read_only = True \<rparr>"

record governance_record =
  gv_goal :: string
  gv_constraints :: "string list"
  gv_assumptions :: "string list"
  gv_uncertainties :: "string list"
  gv_objects :: "string list"
  gv_relations :: "string list"
  gv_boundaries :: "string list"
  gv_excluded_scope :: "string list"
  gv_allowed_paths :: "string list"
  gv_dimensions :: "string list"
  gv_invariants :: "string list"
  gv_authority_hash :: string
  gv_established :: bool

definition default_governance :: governance_record where
  "default_governance = \<lparr> gv_goal = [], gv_constraints = [], gv_assumptions = [],
     gv_uncertainties = [], gv_objects = [], gv_relations = [], gv_boundaries = [],
     gv_excluded_scope = [], gv_allowed_paths = [], gv_dimensions = [], gv_invariants = [],
     gv_authority_hash = [], gv_established = False \<rparr>"

record evidence_artifact =
  ev_artifact_id :: string
  ev_kind :: string
  ev_description :: string
  ev_sha256 :: string
  ev_action_id :: string
  ev_source_snapshot_hash :: string
  ev_source_event_id :: string
  ev_path :: string
  ev_command_capability :: string
  ev_success :: "bool option"
  ev_requirement_ids :: "string list"
  ev_quality_bp :: int
  ev_polarity :: string

definition evidence_post_init :: "evidence_artifact \<Rightarrow> evidence_artifact res" where
  "evidence_post_init e =
     (let e = e\<lparr>ev_requirement_ids := from_keys (ev_requirement_ids e)\<rparr>
      in if \<not> in_scale (ev_quality_bp e) then Inl (ValueError ''evidence quality must be 0..10000'')
         else if ev_polarity e \<notin> {''support'', ''counterexample'', ''conflict''}
           then Inl (ValueError ''evidence polarity must be support, counterexample, or conflict'')
         else Inr e)"

text \<open>One entry of a transaction's backup manifest.\<close>

record backup_entry =
  bk_existed :: bool
  bk_mode :: "int option"
  bk_sha256 :: "string option"
  bk_backup :: string

record transaction_record =
  tx_transaction_id :: string
  tx_operation :: string
  tx_targets :: "string list"
  tx_source_snapshot_hash :: string
  tx_candidate_hash :: string
  tx_candidate_files :: "(string, string) dict"
  tx_original_hashes :: "(string, string option) dict"
  tx_diff :: string
  tx_authority_hash :: string
  tx_status :: string
  tx_action_id :: string
  tx_applied_hashes :: "(string, string) dict"
  tx_applied_snapshot_hash :: string
  tx_backup_manifest :: "(string, backup_entry) dict"
  tx_verification_evidence_ids :: "string list"

record eon_action =
  ac_action_id :: string
  ac_summary :: string
  ac_operation :: string
  ac_targets :: "string list"
  ac_preconditions :: "string list"
  ac_postconditions :: "string list"
  ac_preserve :: "string list"
  ac_evidence :: "string list"
  ac_model_risk :: string
  ac_effective_risk :: string
  ac_authority_hash :: string
  ac_source_snapshot_hash :: string
  ac_transaction_id :: string
  ac_candidate_hash :: string
  ac_command_capabilities :: "string list"
  ac_commands :: "string list"
  ac_required_tests :: "string list"
  ac_expires_at :: string
  ac_use_limit :: int
  ac_use_count :: int
  ac_varied_dimensions :: "string list"
  ac_reasoning_certificate_signature :: string
  ac_reasoning_winning_path_id :: string

definition action_post_init :: "eon_action \<Rightarrow> eon_action" where
  "action_post_init a =
     a\<lparr>ac_varied_dimensions := from_keys (filter (\<lambda>v. v \<noteq> []) (ac_varied_dimensions a))\<rparr>"

record gate_decision =
  gd_decision_id :: string
  gd_action_id :: string
  gd_proposed_verdict :: string
  gd_verdict :: string
  gd_evidence_ids :: "string list"
  gd_evidence_categories :: "(string, string list) dict"
  gd_satisfied_requirements :: "string list"
  gd_uncovered :: "string list"
  gd_limits :: "(string, json) dict"
  gd_reason :: string

record collision_record =
  co_collision_id :: string
  co_timestamp :: string
  co_action_id :: string
  co_expected :: string
  co_observed :: string
  co_objects :: "string list"
  co_boundary :: string
  co_active_dimension :: string
  co_frozen_dimensions :: "string list"
  co_evidence_ids :: "string list"
  co_proposed_correction :: string
  co_falsifier :: string
  co_retry_count :: int
  co_disposition :: string
  co_fingerprint :: string
  co_severity_bp :: int
  co_attempt_key :: string
  co_boundary_signature :: string
  co_dimension_signature :: string

definition collision_post_init :: "collision_record \<Rightarrow> collision_record res" where
  "collision_post_init c =
     (if \<not> in_scale (co_severity_bp c) then Inl (ValueError ''collision severity must be 0..10000'')
      else Inr c)"

section \<open>OIEC control state\<close>

text \<open>
  \<open>_canonical_strings\<close> and \<open>_stable_strings\<close> of this module are the functions of the
  same name in \<open>ourd/reasoning/models.py\<close>, modelled there; the score pairs raise a message
  of their own.
\<close>

definition oiec_score_pairs :: "(string \<times> int) list \<Rightarrow> (string \<times> int) list res" where
  "oiec_score_pairs vs =
     (if list_ex (\<lambda>kv. fst kv = []) vs then Inl (ValueError ''OIEC score keys must be non-empty'')
      else Inr (sort_key fst (foldl (\<lambda>d kv. dict_set (fst kv) (snd kv) d) [] vs)))"

record boundary_state =
  bs_schema_version :: int
  bs_authority_hash :: string
  bs_source_snapshot_hash :: string
  bs_semantic_objects :: "string list"
  bs_semantic_relations :: "string list"
  bs_authority_allowed_patterns :: "string list"
  bs_authority_forbidden_patterns :: "string list"
  bs_governance_allowed_patterns :: "string list"
  bs_governance_excluded_patterns :: "string list"
  bs_experimental_dimensions :: "string list"
  bs_semantic_membership_bp :: "(string \<times> int) list"
  bs_boundary_uncertainty_bp :: int
  bs_signature :: string

definition boundary_post_init :: "boundary_state \<Rightarrow> boundary_state res" where
  "boundary_post_init b =
     bindR (oiec_score_pairs (bs_semantic_membership_bp b)) (\<lambda>memberships.
       if list_ex (\<lambda>kv. \<not> in_scale (snd kv)) memberships
         then Inl (ValueError ''boundary membership must be 0..10000'')
       else if \<not> in_scale (bs_boundary_uncertainty_bp b)
         then Inl (ValueError ''boundary uncertainty must be 0..10000'')
       else Inr (b\<lparr>
         bs_semantic_objects := canonical_strings (bs_semantic_objects b),
         bs_semantic_relations := canonical_strings (bs_semantic_relations b),
         bs_authority_allowed_patterns := canonical_strings (bs_authority_allowed_patterns b),
         bs_authority_forbidden_patterns := canonical_strings (bs_authority_forbidden_patterns b),
         bs_governance_allowed_patterns := canonical_strings (bs_governance_allowed_patterns b),
         bs_governance_excluded_patterns := canonical_strings (bs_governance_excluded_patterns b),
         bs_experimental_dimensions := canonical_strings (bs_experimental_dimensions b),
         bs_semantic_membership_bp := memberships\<rparr>))"

record dimension_budget =
  db_schema_version :: int
  db_max_active_objects :: int
  db_max_active_relations :: int
  db_max_active_dimensions :: int
  db_max_active_hypotheses :: int
  db_max_quantization_levels :: int
  db_max_interaction_order :: int
  db_max_candidate_actions :: int
  db_max_active_evidence_atoms :: int
  db_max_decomposition_depth :: int
  db_max_branch_factor :: int
  db_max_retries_per_attempt :: int
  db_selected_dimensions :: "string list"
  db_dimension_utility_bp :: "(string \<times> int) list"
  db_signature :: string

definition budget_post_init :: "dimension_budget \<Rightarrow> dimension_budget res" where
  "budget_post_init d =
     (if list_ex (\<lambda>v. v < 1) [db_max_active_objects d, db_max_active_relations d,
           db_max_active_dimensions d, db_max_active_hypotheses d, db_max_quantization_levels d,
           db_max_candidate_actions d, db_max_active_evidence_atoms d,
           db_max_decomposition_depth d, db_max_branch_factor d]
        then Inl (ValueError ''OIEC active-state limits must be positive'')
      else if \<not> (1 \<le> db_max_interaction_order d \<and>
                  db_max_interaction_order d \<le> db_max_active_dimensions d)
        then Inl (ValueError ''OIEC interaction order must fit within active dimensions'')
      else if db_max_retries_per_attempt d < 0
        then Inl (ValueError ''OIEC retry limit cannot be negative'')
      else let selected = stable_strings (db_selected_dimensions d)
        in if int (length selected) > db_max_active_dimensions d
             then Inl (ValueError ''selected dimensions exceed the OIEC budget'')
           else bindR (oiec_score_pairs (db_dimension_utility_bp d)) (\<lambda>us.
             Inr (d\<lparr>db_selected_dimensions := selected, db_dimension_utility_bp := us\<rparr>)))"

record finite_evidence =
  fe_schema_version :: int
  fe_atoms :: "string list"
  fe_present_mask :: int
  fe_conflict_mask :: int
  fe_quality_bp :: "int list"
  fe_representative_ids :: "string list"
  fe_signature :: string

text \<open>
  \<open>sum(1 << old_to_new[index] for index in range(n) if mask & (1 << index))\<close>, where
  \<open>old_to_new\<close> inverts the sort order of the atoms. The mask is a Python integer: the bits of
  a negative one are those of its two's complement, which \<^const>\<open>bit\<close> on \<open>int\<close> reads.
\<close>

definition sort_order :: "string list \<Rightarrow> nat list" where
  "sort_order atoms = sort_key (\<lambda>i. atoms ! i) [0..<length atoms]"

definition old_to_new :: "nat list \<Rightarrow> nat \<Rightarrow> nat" where
  "old_to_new order i = length (takeWhile (\<lambda>j. j \<noteq> i) order)"

definition remap_mask :: "nat list \<Rightarrow> int \<Rightarrow> int" where
  "remap_mask order m =
     sum_list (map (\<lambda>i. 2 ^ old_to_new order i) (filter (bit m) [0..<length order]))"

definition evidence_state_post_init :: "finite_evidence \<Rightarrow> finite_evidence res" where
  "evidence_state_post_init s =
     (let atoms0 = fe_atoms s
      in if length (fe_quality_bp s) \<noteq> length atoms0 \<or> length (fe_representative_ids s) \<noteq> length atoms0
           then Inl (ValueError ''finite evidence arrays must align with the atom universe'')
         else if [] \<in> set atoms0 \<or> \<not> distinct atoms0
           then Inl (ValueError ''finite evidence atoms must be unique and non-empty'')
         else let order = sort_order atoms0;
                  t = s\<lparr>fe_atoms := map (\<lambda>i. atoms0 ! i) order,
                        fe_quality_bp := map (\<lambda>i. fe_quality_bp s ! i) order,
                        fe_representative_ids := map (\<lambda>i. fe_representative_ids s ! i) order,
                        fe_present_mask := remap_mask order (fe_present_mask s),
                        fe_conflict_mask := remap_mask order (fe_conflict_mask s)\<rparr>;
                  valid_mask = (if fe_atoms t \<noteq> [] then 2 ^ length (fe_atoms t) - 1 else 0)
           in if list_ex (\<lambda>v. \<not> in_scale v) (fe_quality_bp t)
                then Inl (ValueError ''evidence quality must be 0..10000'')
              else if fe_present_mask t < 0 \<or> fe_conflict_mask t < 0
                then Inl (ValueError ''evidence masks cannot be negative'')
              else if and (fe_present_mask t) (not valid_mask) \<noteq> 0 \<or>
                      and (fe_conflict_mask t) (not valid_mask) \<noteq> 0
                then Inl (ValueError ''evidence mask refers outside the finite universe'')
              else Inr t)"

lemma sum_powers_bit: "finite A \<Longrightarrow> bit (\<Sum>a \<in> A. 2 ^ a :: int) k \<longleftrightarrow> k \<in> A"
proof (induction A arbitrary: k rule: finite_induct)
  case empty
  show ?case by simp
next
  case (insert a A)
  have "2 ^ a + (\<Sum>a \<in> A. 2 ^ a :: int) = or (2 ^ a) (\<Sum>a \<in> A. 2 ^ a)"
    using insert by (intro disjunctive_add) (auto simp: bit_exp_iff)
  with insert show ?case by (auto simp: bit_or_iff bit_exp_iff)
qed

lemma old_to_new_nth: "distinct order \<Longrightarrow> j < length order \<Longrightarrow> old_to_new order (order ! j) = j"
proof -
  assume d: "distinct order" and j: "j < length order"
  have "takeWhile (\<lambda>x. x \<noteq> order ! j) order = take j order"
    using d j by (intro takeWhile_eq_take_P_nth) (auto simp: nth_eq_iff_index_eq)
  with j show ?thesis by (simp add: old_to_new_def)
qed

lemma sort_order_perm [simp]:
  "distinct (sort_order atoms)" "set (sort_order atoms) = {..<length atoms}"
  "length (sort_order atoms) = length atoms"
  by (auto simp: sort_order_def distinct_map)

text \<open>Remapping moves bit \<open>order ! j\<close> to bit \<open>j\<close> and keeps no other bit, sign included.\<close>

lemma remap_mask_sum:
  assumes "distinct order" and "set order = {..<length order}"
  shows "remap_mask order m = (\<Sum>j | j < length order \<and> bit m (order ! j). 2 ^ j)"
proof -
  have "remap_mask order m = (\<Sum>i | i < length order \<and> bit m i. 2 ^ old_to_new order i)"
    by (simp add: remap_mask_def sum_list_distinct_conv_sum_set)
  also have "\<dots> = (\<Sum>j | j < length order \<and> bit m (order ! j). 2 ^ j)"
  proof (rule sum.reindex_bij_witness [where i = "\<lambda>j. order ! j" and j = "old_to_new order"])
    fix i assume i: "i \<in> {i. i < length order \<and> bit m i}"
    then have "i \<in> set order" using assms(2) by simp
    then obtain j where j: "j < length order" "order ! j = i" by (auto simp: in_set_conv_nth)
    then have o: "old_to_new order i = j" using old_to_new_nth assms(1) by auto
    show "order ! old_to_new order i = i" using o j by simp
    show "old_to_new order i \<in> {j. j < length order \<and> bit m (order ! j)}" using o j i by simp
    show "2 ^ old_to_new order i = (2::int) ^ old_to_new order i" by simp
  next
    fix j assume j: "j \<in> {j. j < length order \<and> bit m (order ! j)}"
    then show "old_to_new order (order ! j) = j" using assms(1) by (simp add: old_to_new_nth)
    from j assms(2) have "order ! j \<in> {..<length order}" using nth_mem by blast
    with j show "order ! j \<in> {i. i < length order \<and> bit m i}" by simp
  qed
  finally show ?thesis .
qed

lemma bit_remap_mask:
  "bit (remap_mask (sort_order atoms) m) j \<longleftrightarrow> j < length atoms \<and> bit m (sort_order atoms ! j)"
  by (simp add: remap_mask_sum sum_powers_bit)

lemma remap_mask_nonneg: "0 \<le> remap_mask order m"
  by (auto simp: remap_mask_def intro!: sum_list_nonneg)

lemma remap_mask_inside:
  "and (remap_mask (sort_order atoms) m) (not (2 ^ length atoms - 1)) = 0"
  by (rule bit_eqI) (simp add: bit_and_iff bit_not_iff bit_remap_mask bit_mask_iff flip: mask_eq_exp_minus_1)

lemma sort_order_sorted: "sorted atoms \<Longrightarrow> sort_order atoms = [0..<length atoms]"
  unfolding sort_order_def by (rule sort_key_id_if_sorted) (simp add: map_nth)

text \<open>
  The invariant of a constructed evidence state: the arrays align with a sorted universe of
  distinct non-empty atoms, the qualities are in scale and the masks lie inside the universe.
\<close>

definition evidence_state_ok :: "finite_evidence \<Rightarrow> bool" where
  "evidence_state_ok s \<longleftrightarrow>
     sorted (fe_atoms s) \<and> distinct (fe_atoms s) \<and> [] \<notin> set (fe_atoms s) \<and>
     length (fe_quality_bp s) = length (fe_atoms s) \<and>
     length (fe_representative_ids s) = length (fe_atoms s) \<and>
     (\<forall>q \<in> set (fe_quality_bp s). in_scale q) \<and>
     0 \<le> fe_present_mask s \<and> 0 \<le> fe_conflict_mask s \<and>
     (\<forall>j. bit (fe_present_mask s) j \<or> bit (fe_conflict_mask s) j \<longrightarrow> j < length (fe_atoms s))"

lemma map_nth_sort_order: "map ((!) atoms) (sort_order atoms) = sort atoms"
proof (rule properties_for_sort [symmetric])
  show "mset (map ((!) atoms) (sort_order atoms)) = mset atoms"
    by (metis mset_map mset_sort map_nth sort_order_def)
  show "sorted (map ((!) atoms) (sort_order atoms))" by (simp add: sort_order_def)
qed

text \<open>
  The mask checks of the constructor are made on the remapped masks, which are never
  negative and never leave the universe: construction succeeds exactly when the arrays align,
  the atoms are distinct and non-empty and the qualities are in scale, whatever the masks.
\<close>

lemma evidence_state_post_init_eq:
  "evidence_state_post_init s =
     (if length (fe_quality_bp s) \<noteq> length (fe_atoms s) \<or>
         length (fe_representative_ids s) \<noteq> length (fe_atoms s)
        then Inl (ValueError ''finite evidence arrays must align with the atom universe'')
      else if [] \<in> set (fe_atoms s) \<or> \<not> distinct (fe_atoms s)
        then Inl (ValueError ''finite evidence atoms must be unique and non-empty'')
      else if list_ex (\<lambda>v. \<not> in_scale v) (fe_quality_bp s)
        then Inl (ValueError ''evidence quality must be 0..10000'')
      else Inr (s\<lparr>fe_atoms := sort (fe_atoms s),
             fe_quality_bp := map (\<lambda>i. fe_quality_bp s ! i) (sort_order (fe_atoms s)),
             fe_representative_ids := map (\<lambda>i. fe_representative_ids s ! i) (sort_order (fe_atoms s)),
             fe_present_mask := remap_mask (sort_order (fe_atoms s)) (fe_present_mask s),
             fe_conflict_mask := remap_mask (sort_order (fe_atoms s)) (fe_conflict_mask s)\<rparr>))"
proof -
  have neg: "\<not> remap_mask order m < 0" for order m
    using remap_mask_nonneg [of order m] by simp
  have empty: "remap_mask (sort_order as) m = 0" if "sort as = []" for as m
  proof -
    from that have "as = []" by (metis length_0_conv length_sort)
    then show ?thesis by (simp add: remap_mask_def sort_order_def)
  qed
  show ?thesis
  proof (cases "length (fe_quality_bp s) = length (fe_atoms s)")
    case True
    then have q: "list_ex (\<lambda>v. 0 \<le> v \<longrightarrow> \<not> v \<le> SCORE_SCALE)
          (map ((!) (fe_quality_bp s)) (sort_order (fe_atoms s))) \<longleftrightarrow>
        list_ex (\<lambda>v. 0 \<le> v \<longrightarrow> \<not> v \<le> SCORE_SCALE) (fe_quality_bp s)"
      by (simp add: list_ex_iff) (metis in_set_conv_nth lessThan_iff)
    from True show ?thesis
      unfolding evidence_state_post_init_def Let_def
      by (simp add: map_nth_sort_order neg q remap_mask_inside empty)
  next
    case False
    then show ?thesis by (simp add: evidence_state_post_init_def)
  qed
qed

lemma evidence_state_post_init_ok:
  assumes "evidence_state_post_init s = Inr t"
  shows "evidence_state_ok t"
proof -
  from assms have a: "length (fe_quality_bp s) = length (fe_atoms s)"
      "length (fe_representative_ids s) = length (fe_atoms s)"
      "[] \<notin> set (fe_atoms s)" "distinct (fe_atoms s)" "\<forall>q \<in> set (fe_quality_bp s). in_scale q"
    by (auto simp: evidence_state_post_init_eq list_ex_iff split: if_splits)
  from a(1,5) have "\<forall>i < length (fe_atoms s). in_scale (fe_quality_bp s ! i)" by simp
  with assms a show ?thesis
    by (auto simp: evidence_state_post_init_eq evidence_state_ok_def remap_mask_nonneg
        bit_remap_mask list_ex_iff split: if_splits)
qed

text \<open>On a state that already satisfies the invariant, construction changes nothing.\<close>

lemma remap_mask_id:
  assumes "\<forall>j. bit m j \<longrightarrow> j < length atoms" and "sorted atoms"
  shows "remap_mask (sort_order atoms) m = m"
proof (rule bit_eqI)
  fix j
  have "sort_order atoms ! j = j" if "j < length atoms"
    using that assms(2) by (simp add: sort_order_sorted)
  then show "bit (remap_mask (sort_order atoms) m) j = bit m j"
    using assms(1) by (auto simp: bit_remap_mask)
qed

lemma evidence_state_post_init_id:
  assumes "evidence_state_ok s"
  shows "evidence_state_post_init s = Inr s"
proof -
  have "map ((!) (fe_quality_bp s)) (sort_order (fe_atoms s)) = fe_quality_bp s"
      "map ((!) (fe_representative_ids s)) (sort_order (fe_atoms s)) = fe_representative_ids s"
    using assms by (simp_all add: evidence_state_ok_def sort_order_sorted) (metis map_nth)+
  moreover have "remap_mask (sort_order (fe_atoms s)) (fe_present_mask s) = fe_present_mask s"
      "remap_mask (sort_order (fe_atoms s)) (fe_conflict_mask s) = fe_conflict_mask s"
    using assms by (intro remap_mask_id; simp add: evidence_state_ok_def)+
  ultimately show ?thesis
    using assms by (auto simp: evidence_state_post_init_eq evidence_state_ok_def sorted_sort_id list_ex_iff)
qed

section \<open>Hypotheses, attempts and progress\<close>

definition LINKED_HYPOTHESIS_STATUSES :: "string list" where
  "LINKED_HYPOTHESIS_STATUSES = [''ACTIVE'', ''SUPPORTED_BY_LINKED_EVIDENCE'',
     ''WEAKENED_BY_LINKED_EVIDENCE'', ''FALSIFIED_BY_LINKED_EVIDENCE'', ''UNRESOLVED'']"

definition HYPOTHESIS_RELATIONS :: "string list" where
  "HYPOTHESIS_RELATIONS = [''supports'', ''conflicts'', ''falsifies'']"

record evidence_link =
  hl_evidence_id :: string
  hl_evidence_fingerprint :: string
  hl_relation :: string
  hl_quality_bp :: int
  hl_source_snapshot_hash :: string
  hl_relation_epistemic_status :: string
  hl_signature :: string

definition link_post_init :: "evidence_link \<Rightarrow> evidence_link res" where
  "link_post_init l =
     (if hl_evidence_id l = [] \<or> hl_evidence_fingerprint l = []
        then Inl (ValueError ''hypothesis evidence link requires evidence identity and fingerprint'')
      else if hl_relation l \<notin> set HYPOTHESIS_RELATIONS
        then Inl (ValueError ''unsupported hypothesis evidence relation'')
      else if \<not> in_scale (hl_quality_bp l)
        then Inl (ValueError ''hypothesis evidence link quality must be 0..10000'')
      else if hl_relation_epistemic_status l \<noteq> ''MODEL_PROPOSED_RELATION_TO_VERIFIED_EVIDENCE''
        then Inl (ValueError ''hypothesis evidence relation must remain explicitly model-proposed'')
      else Inr l)"

record hypothesis =
  oh_hypothesis_id :: string
  oh_proposition :: string
  oh_model_prior_bp :: int
  oh_assumptions :: "string list"
  oh_predictions :: "string list"
  oh_falsifiers :: "string list"
  oh_evidence_links :: "evidence_link list"
  oh_evidence_support_bp :: int
  oh_evidence_conflict_bp :: int
  oh_evidence_balance_bp :: int
  oh_status :: string
  oh_verification_status :: string
  oh_signature :: string

definition link_sort_key :: "evidence_link \<Rightarrow> string" where
  "link_sort_key l = (if hl_signature l \<noteq> [] then hl_signature l else hl_evidence_fingerprint l)"

definition hypothesis_post_init :: "hypothesis \<Rightarrow> hypothesis res" where
  "hypothesis_post_init h =
     (if oh_hypothesis_id h = [] \<or> strip (oh_proposition h) = []
        then Inl (ValueError ''hypothesis requires non-empty identity and proposition'')
      else if \<not> in_scale (oh_model_prior_bp h)
        then Inl (ValueError ''model hypothesis prior must be 0..10000'')
      else let links = sort_key link_sort_key (oh_evidence_links h)
        in if \<not> distinct (map (\<lambda>l. (hl_evidence_fingerprint l, hl_relation l)) links)
             then Inl (ValueError ''hypothesis evidence links must be unique by evidence content and relation'')
           else if \<not> in_scale (oh_evidence_support_bp h)
             then Inl (ValueError ''hypothesis support score must be 0..10000'')
           else if \<not> in_scale (oh_evidence_conflict_bp h)
             then Inl (ValueError ''hypothesis conflict score must be 0..10000'')
           else if \<not> (- SCORE_SCALE \<le> oh_evidence_balance_bp h \<and> oh_evidence_balance_bp h \<le> SCORE_SCALE)
             then Inl (ValueError ''hypothesis evidence balance must be -10000..10000'')
           else if oh_status h \<notin> set LINKED_HYPOTHESIS_STATUSES
             then Inl (ValueError ''unsupported hypothesis status'')
           else if oh_verification_status h \<noteq> ''UNVERIFIED_PROPOSITION''
             then Inl (ValueError ''hypothesis proposition cannot be promoted by model bookkeeping'')
           else Inr (h\<lparr>oh_assumptions := canonical_strings (oh_assumptions h),
                       oh_predictions := canonical_strings (oh_predictions h),
                       oh_falsifiers := canonical_strings (oh_falsifiers h),
                       oh_evidence_links := links\<rparr>))"

record hypothesis_set =
  os_max_hypotheses :: int
  os_hypotheses :: "hypothesis list"
  os_signature :: string

definition set_post_init :: "hypothesis_set \<Rightarrow> hypothesis_set res" where
  "set_post_init s =
     (if os_max_hypotheses s < 1 then Inl (ValueError ''hypothesis bound must be positive'')
      else let ordered = sort_key oh_hypothesis_id (os_hypotheses s)
        in if int (length ordered) > os_max_hypotheses s
             then Inl (ValueError ''hypothesis set exceeds configured bound'')
           else if \<not> distinct (map oh_hypothesis_id ordered)
             then Inl (ValueError ''hypothesis IDs must be unique'')
           else Inr (s\<lparr>os_hypotheses := ordered\<rparr>))"

record attempt_key =
  ak_source_snapshot_hash :: string
  ak_action_id :: string
  ak_evidence_signature :: string
  ak_boundary_signature :: string
  ak_dimension_signature :: string
  ak_digest :: string

record progress_certificate =
  pc_schema_version :: int
  pc_evidence_gain_bp :: int
  pc_uncertainty_reduction_bp :: int
  pc_goal_improvement_bp :: int
  pc_residual_risk_reduction_bp :: int
  pc_boundary_uncertainty_reduction_bp :: int
  pc_expected_information_gain_bp :: int
  pc_hypothesis_resolution_bp :: int
  pc_novel_evidence :: bool
  pc_novel_experiment :: bool
  pc_terminal :: bool
  pc_accepted :: bool
  pc_reasons :: "string list"
  pc_signature :: string

definition progress_post_init :: "progress_certificate \<Rightarrow> progress_certificate res" where
  "progress_post_init p =
     (if list_ex (\<lambda>v. \<not> in_scale v)
           [pc_evidence_gain_bp p, pc_expected_information_gain_bp p, pc_hypothesis_resolution_bp p]
        then Inl (ValueError ''must be 0..10000'')
      else if list_ex (\<lambda>v. \<not> (- SCORE_SCALE \<le> v \<and> v \<le> SCORE_SCALE))
           [pc_uncertainty_reduction_bp p, pc_goal_improvement_bp p, pc_residual_risk_reduction_bp p,
            pc_boundary_uncertainty_reduction_bp p]
        then Inl (ValueError ''must be -10000..10000'')
      else Inr (p\<lparr>pc_reasons := canonical_strings (pc_reasons p)\<rparr>))"

section \<open>Runtime state\<close>

record runtime_state =
  rs_schema_version :: int
  rs_authority :: authority_manifest
  rs_governance :: governance_record
  rs_pending_action :: "eon_action option"
  rs_last_gate :: "gate_decision option"
  rs_changed_files :: "string list"
  rs_evidence_registry :: "(string, evidence_artifact) dict"
  rs_transactions :: "(string, transaction_record) dict"
  rs_collisions :: "collision_record list"
  rs_failed_attempts :: "(string, int) dict"
  rs_boundary_state :: "boundary_state option"
  rs_dimension_budget :: "dimension_budget option"
  rs_finite_evidence :: "finite_evidence option"
  rs_hypothesis_state :: "hypothesis_set option"
  rs_last_progress :: "progress_certificate option"
  rs_transition_index :: int
  rs_control_only_progress_streak :: int
  rs_reasoning_problem :: "reasoning_problem option"
  rs_reasoning_budget :: "json option"
  rs_reasoning_hypothesis_state :: "reasoning_hypothesis_set option"
  rs_reasoning_hypothesis_updates :: "hypothesis_update list"
  rs_reasoning_hypothesis_pool :: "(string, reasoning_hypothesis) dict"
  rs_reasoning_topology :: "json option"
  rs_reasoning_candidates :: "json option"
  rs_reasoning_context :: "json option"
  rs_reasoning_contradictions :: "json list"
  rs_last_synthesis :: "json option"
  rs_next_reasoning_operation :: "json option"
  rs_last_reasoning_certificate :: "json option"
  rs_reasoning_transition_index :: int
  rs_active_transaction_id :: string
  rs_event_head :: string

definition new_runtime_state :: runtime_state where
  "new_runtime_state = \<lparr> rs_schema_version = 6, rs_authority = default_authority,
     rs_governance = default_governance, rs_pending_action = None, rs_last_gate = None,
     rs_changed_files = [], rs_evidence_registry = [], rs_transactions = [], rs_collisions = [],
     rs_failed_attempts = [], rs_boundary_state = None, rs_dimension_budget = None,
     rs_finite_evidence = None, rs_hypothesis_state = None, rs_last_progress = None,
     rs_transition_index = 0, rs_control_only_progress_streak = 0, rs_reasoning_problem = None,
     rs_reasoning_budget = None, rs_reasoning_hypothesis_state = None,
     rs_reasoning_hypothesis_updates = [], rs_reasoning_hypothesis_pool = [],
     rs_reasoning_topology = None, rs_reasoning_candidates = None, rs_reasoning_context = None,
     rs_reasoning_contradictions = [], rs_last_synthesis = None, rs_next_reasoning_operation = None,
     rs_last_reasoning_certificate = None, rs_reasoning_transition_index = 0,
     rs_active_transaction_id = [], rs_event_head = [] \<rparr>"

definition state_post_init :: "runtime_state \<Rightarrow> runtime_state res" where
  "state_post_init s =
     (if rs_control_only_progress_streak s < 0
        then Inl (ValueError ''control-only progress streak cannot be negative'')
      else if rs_reasoning_transition_index s < 0
        then Inl (ValueError ''reasoning transition index cannot be negative'')
      else Inr s)"

text \<open>\<open>{h.hypothesis_id: h for h in state.hypotheses}\<close>: a later entry replaces an earlier one.\<close>

definition hypothesis_pool :: "reasoning_hypothesis_set \<Rightarrow> (string, reasoning_hypothesis) dict" where
  "hypothesis_pool hs = foldl (\<lambda>d h. dict_set (rh_hypothesis_id h) h d) [] (hs_hypotheses hs)"

definition set_reasoning_hypothesis_state ::
  "reasoning_hypothesis_set option \<Rightarrow> runtime_state \<Rightarrow> runtime_state" where
  "set_reasoning_hypothesis_state h s =
     s\<lparr>rs_reasoning_hypothesis_state := h,
       rs_reasoning_hypothesis_pool := (case h of None \<Rightarrow> [] | Some hs \<Rightarrow> hypothesis_pool hs)\<rparr>"

definition validate_reasoning_hypothesis_projection :: "runtime_state \<Rightarrow> unit res" where
  "validate_reasoning_hypothesis_projection s =
     (case rs_reasoning_hypothesis_state s of
        None \<Rightarrow> if rs_reasoning_hypothesis_pool s \<noteq> []
                  then Inl (ValueError ''reasoning hypothesis pool exists without authoritative state'')
                else Inr ()
      | Some hs \<Rightarrow>
          if \<not> dict_eq (rs_reasoning_hypothesis_pool s) (hypothesis_pool hs)
            then Inl (ValueError ''reasoning hypothesis pool conflicts with authoritative state'')
          else let ids = map hu_update_id (rs_reasoning_hypothesis_updates s)
            in if \<not> distinct ids then Inl (ValueError ''reasoning hypothesis update IDs must be unique'')
               else if \<not> set (hs_update_ids hs) \<subseteq> set ids
                 then Inl (ValueError ''reasoning hypothesis state references a missing update record'')
               else Inr ())"

text \<open>Installing a hypothesis state re-establishes the projection, whatever pool was there.\<close>

lemma set_state_projection:
  "distinct (map hu_update_id (rs_reasoning_hypothesis_updates s)) \<Longrightarrow>
   (\<And>hs. h = Some hs \<Longrightarrow>
      set (hs_update_ids hs) \<subseteq> set (map hu_update_id (rs_reasoning_hypothesis_updates s))) \<Longrightarrow>
   validate_reasoning_hypothesis_projection (set_reasoning_hypothesis_state h s) = Inr ()"
  by (cases h) (simp_all add: validate_reasoning_hypothesis_projection_def
      set_reasoning_hypothesis_state_def Let_def dict_eq_iff)

section \<open>Properties\<close>

text \<open>C7. Every finite evidence state that its constructor returns satisfies the invariant:
  sorted distinct non-empty atoms, arrays aligned with them, qualities in scale, and masks
  inside the universe.\<close>

theorem evidence_state_constructed:
  assumes "evidence_state_post_init s = Inr t"
  shows "evidence_state_ok t \<and> set (fe_atoms t) = set (fe_atoms s)"
  using evidence_state_post_init_ok [OF assms] assms
  by (auto simp: evidence_state_post_init_eq split: if_splits)

definition sample_evidence :: "int \<Rightarrow> int \<Rightarrow> finite_evidence" where
  "sample_evidence present conflict = \<lparr> fe_schema_version = 1, fe_atoms = [''tests'', ''scope''],
     fe_present_mask = present, fe_conflict_mask = conflict, fe_quality_bp = [9000, 4000],
     fe_representative_ids = [''e1'', ''e2''], fe_signature = [] \<rparr>"

lemma sample_evidence_constructed:
  "evidence_state_post_init (sample_evidence (- 1) 12) = Inr \<lparr> fe_schema_version = 1,
     fe_atoms = [''scope'', ''tests''], fe_present_mask = 3, fe_conflict_mask = 0,
     fe_quality_bp = [4000, 9000], fe_representative_ids = [''e2'', ''e1''], fe_signature = [] \<rparr>"
  by code_simp

theorem evidence_state_constructed_witness:
  "evidence_state_ok \<lparr> fe_schema_version = 1,
     fe_atoms = [''scope'', ''tests''], fe_present_mask = 3, fe_conflict_mask = 0,
     fe_quality_bp = [4000, 9000], fe_representative_ids = [''e2'', ''e1''], fe_signature = [] \<rparr>"
  using evidence_state_constructed [OF sample_evidence_constructed] by blast

text \<open>The mask checks of \<open>FiniteEvidenceState.__post_init__\<close> never act: the constructor
  remaps both masks before it checks them, which drops the sign and every bit outside the
  universe, so neither error is ever raised and a state with the masks -1 and 12 over two
  atoms is accepted with the masks 3 and 0.\<close>

lemma evidence_mask_checks_dead:
  "evidence_state_post_init s \<noteq> Inl (ValueError ''evidence masks cannot be negative'') \<and>
   evidence_state_post_init s \<noteq> Inl (ValueError ''evidence mask refers outside the finite universe'') \<and>
   (\<exists>t. evidence_state_post_init (sample_evidence (- 1) 12) = Inr t \<and>
      fe_present_mask t = 3 \<and> fe_conflict_mask t = 0)"
  by (simp add: evidence_state_post_init_eq [of s] sample_evidence_constructed)

end
