(* ===== verification/Workspace.thy ===== *)
theory Workspace
  imports Models
begin

text \<open>
  \<open>ourd/workspace.py\<close>: canonical workspace paths (\<open>Workspace.canonical\<close>, \<open>resolve\<close>), path
  patterns (\<open>matches\<close>, with the standard library's \<open>fnmatch.fnmatchcase\<close>), scope checks
  (\<open>require_scope\<close>) and snapshots of the file tree (\<open>snapshot\<close>, \<open>snapshot_hash\<close>,
  \<open>file_hash_or_none\<close>). The file tree is a dict from canonical paths to nodes; symbolic links
  are a function from absolute component lists to their targets and are followed by
  \<open>Path.resolve\<close> as \<open>os.path.realpath\<close> does, with a bound on the number of links followed,
  past which resolution is the loop error.
\<close>

section \<open>Resolution\<close>

type_synonym path = "string list"

record workspace =
  ws_root :: path
  ws_links :: "path \<Rightarrow> string option"
  ws_fuel :: nat

definition is_absolute :: "string \<Rightarrow> bool" where
  "is_absolute s = starts_with s ''/''"

abbreviation path_parts :: "string \<Rightarrow> path" where
  "path_parts s \<equiv> split_on (CHR ''/'') s"

function walk :: "(path \<Rightarrow> string option) \<Rightarrow> nat \<Rightarrow> path \<Rightarrow> path \<Rightarrow> path res" where
  "walk links fuel at [] = Inr at"
| "walk links fuel at (p # rest) =
     (if p = [] \<or> p = ''.'' then walk links fuel at rest
      else if p = ''..'' then walk links fuel (butlast at) rest
      else (case links (at @ [p]) of
          None \<Rightarrow> walk links fuel (at @ [p]) rest
        | Some target \<Rightarrow> (case fuel of
              0 \<Rightarrow> Inl (OSError ''Symlink loop'')
            | Suc n \<Rightarrow> walk links n (if is_absolute target then [] else at) (path_parts target @ rest))))"
  by pat_completeness auto
termination
  by (relation "measures [\<lambda>(links, fuel, at, rest). fuel, \<lambda>(links, fuel, at, rest). length rest]") auto

definition internal_name :: string where
  "internal_name = ''.ourd-agent''"

definition canonical :: "workspace \<Rightarrow> string \<Rightarrow> bool \<Rightarrow> string res" where
  "canonical ws relative allow_internal =
     (if strip relative = [] then Inl (PolicyError ''path must be a non-empty string'')
      else if CHR 0x00 \<in> set relative then Inl (PolicyError ''path contains a NUL byte'')
      else if is_absolute relative then Inl (PolicyError ''absolute path is not allowed'')
      else bindR (walk (ws_links ws) (ws_fuel ws) (ws_root ws) (path_parts relative)) (\<lambda>resolved.
        if take (length (ws_root ws)) resolved \<noteq> ws_root ws
          then Inl (PolicyError ''path escapes workspace'')
        else let joined = join ''/'' (drop (length (ws_root ws)) resolved);
                 c = (if joined = [] then ''.'' else joined)
          in if \<not> allow_internal \<and> (c = internal_name \<or> starts_with c (internal_name @ ''/''))
               then Inl (PolicyError ''internal OURD agent state is not accessible to model tools'')
             else Inr c))"

text \<open>
  A component is normal when it names an entry of a directory; the root directory is given by
  normal components and reached through no link (\<open>root.resolve()\<close>), and link targets contain
  no NUL.
\<close>

definition name_ok :: "string \<Rightarrow> bool" where
  "name_ok c \<longleftrightarrow> c \<noteq> [] \<and> c \<noteq> ''.'' \<and> c \<noteq> ''..'' \<and> CHR ''/'' \<notin> set c \<and> CHR 0x00 \<notin> set c"

definition link_free :: "(path \<Rightarrow> string option) \<Rightarrow> path \<Rightarrow> bool" where
  "link_free links p \<longleftrightarrow> (\<forall>i < length p. links (take (Suc i) p) = None)"

definition workspace_ok :: "workspace \<Rightarrow> bool" where
  "workspace_ok ws \<longleftrightarrow> list_all name_ok (ws_root ws) \<and> link_free (ws_links ws) (ws_root ws) \<and>
     (\<forall>p t. ws_links ws p = Some t \<longrightarrow> CHR 0x00 \<notin> set t)"

lemma link_free_Nil [simp]: "link_free links []"
  by (simp add: link_free_def)

lemma link_free_snoc: "link_free links (p @ [c]) \<longleftrightarrow> link_free links p \<and> links (p @ [c]) = None"
  by (auto simp: link_free_def less_Suc_eq)

lemma link_free_butlast: "link_free links p \<Longrightarrow> link_free links (butlast p)"
  by (cases p rule: rev_cases) (simp_all add: link_free_snoc)

lemma butlast_all: "list_all P p \<Longrightarrow> list_all P (butlast p)"
  by (simp add: list_all_iff in_set_butlastD)

text \<open>One step of a walk, by the case the code is in.\<close>

lemma walk_steps:
  "p = [] \<or> p = ''.'' \<Longrightarrow> walk links n at (p # rest) = walk links n at rest"
  "walk links n at (''..'' # rest) = walk links n (butlast at) rest"
  "p \<notin> {[], ''.'', ''..''} \<Longrightarrow> links (at @ [p]) = None \<Longrightarrow>
     walk links n at (p # rest) = walk links n (at @ [p]) rest"
  "p \<notin> {[], ''.'', ''..''} \<Longrightarrow> links (at @ [p]) = Some t \<Longrightarrow>
     walk links 0 at (p # rest) = Inl (OSError ''Symlink loop'')"
  "p \<notin> {[], ''.'', ''..''} \<Longrightarrow> links (at @ [p]) = Some t \<Longrightarrow>
     walk links (Suc m) at (p # rest) =
       walk links m (if is_absolute t then [] else at) (path_parts t @ rest)"
  by auto

declare walk.simps(2) [simp del]

lemma walk_rule [consumes 1, case_names finished skip up name link]:
  assumes "walk links n at rest = Inr q"
    and "\<And>n. P n q []"
    and "\<And>n at p rest. p = [] \<or> p = ''.'' \<Longrightarrow> walk links n at rest = Inr q \<Longrightarrow>
           P n at rest \<Longrightarrow> P n at (p # rest)"
    and "\<And>n at rest. walk links n (butlast at) rest = Inr q \<Longrightarrow>
           P n (butlast at) rest \<Longrightarrow> P n at (''..'' # rest)"
    and "\<And>n at p rest. p \<notin> {[], ''.'', ''..''} \<Longrightarrow> links (at @ [p]) = None \<Longrightarrow>
           walk links n (at @ [p]) rest = Inr q \<Longrightarrow> P n (at @ [p]) rest \<Longrightarrow> P n at (p # rest)"
    and "\<And>n at p t rest. p \<notin> {[], ''.'', ''..''} \<Longrightarrow> links (at @ [p]) = Some t \<Longrightarrow>
           walk links n (if is_absolute t then [] else at) (path_parts t @ rest) = Inr q \<Longrightarrow>
           P n (if is_absolute t then [] else at) (path_parts t @ rest) \<Longrightarrow> P (Suc n) at (p # rest)"
  shows "P n at rest"
  using assms(1)
proof (induction links\<equiv>links n at rest rule: walk.induct)
  case (1 fuel at)
  then show ?case using assms(2) by simp
next
  case (2 fuel at p rest)
  consider (skip) "p = [] \<or> p = ''.''" | (up) "p = ''..''"
    | (name) "p \<notin> {[], ''.'', ''..''}" "links (at @ [p]) = None"
    | (link) t m where "p \<notin> {[], ''.'', ''..''}" "links (at @ [p]) = Some t" "fuel = Suc m"
    using "2.prems" walk_steps(4) [of p links at _ rest]
    by (cases "links (at @ [p])"; cases fuel) auto
  then show ?case
  proof cases
    case skip
    with "2.prems" have w: "walk links fuel at rest = Inr q" using walk_steps(1) [of p] by auto
    from assms(3) [OF skip w "2.hyps"(1) [OF skip w]] show ?thesis .
  next
    case up
    with "2.prems" have w: "walk links fuel (butlast at) rest = Inr q" using walk_steps(2) by simp
    have "P fuel (butlast at) rest" using "2.hyps"(2) [OF _ _ w] up by simp
    from assms(4) [OF w this] up show ?thesis by simp
  next
    case name
    with "2.prems" have w: "walk links fuel (at @ [p]) rest = Inr q" using walk_steps(3) [of p] by simp
    have "P fuel (at @ [p]) rest" using "2.hyps"(3) [OF _ _ _ w] name by simp
    from assms(5) [OF name w this] show ?thesis .
  next
    case link
    let ?at = "if is_absolute t then [] else at"
    from link "2.prems" have w: "walk links m ?at (path_parts t @ rest) = Inr q"
      using walk_steps(5) [of p] by simp
    have "P m ?at (path_parts t @ rest)" using "2.hyps"(4) [OF _ _ link(2,3) w] link by simp
    from assms(6) [OF link(1,2) w this] link(3) show ?thesis by simp
  qed
qed

text \<open>What a walk returns is a place reached through no link, by normal components only.\<close>

lemma walk_normal:
  assumes "walk links n at rest = Inr q"
    and "link_free links at" and "list_all name_ok at"
    and "\<forall>c \<in> set rest. CHR ''/'' \<notin> set c \<and> CHR 0x00 \<notin> set c"
    and nul: "\<forall>p t. links p = Some t \<longrightarrow> CHR 0x00 \<notin> set t"
  shows "link_free links q \<and> list_all name_ok q"
  using assms(1-4)
proof (induction rule: walk_rule)
  case (finished n)
  then show ?case by simp
next
  case (skip n at p rest)
  then show ?case by simp
next
  case (up n at rest)
  then show ?case by (simp add: link_free_butlast butlast_all)
next
  case (name n at p rest)
  then show ?case by (simp add: link_free_snoc name_ok_def)
next
  case (link n at p t rest)
  have "\<forall>c \<in> set (path_parts t). CHR ''/'' \<notin> set c \<and> CHR 0x00 \<notin> set c"
    using split_on_parts split_on_chars nul link(2) by blast
  then have "\<forall>c \<in> set (path_parts t @ rest). CHR ''/'' \<notin> set c \<and> CHR 0x00 \<notin> set c"
    using link.prems(3) by auto
  moreover have "link_free links (if is_absolute t then [] else at)"
      "list_all name_ok (if is_absolute t then [] else at)"
    using link.prems by auto
  ultimately show ?case by (rule link(4) [rotated 2])
qed

lemma walk_id:
  "link_free links (at @ rest) \<Longrightarrow> list_all name_ok rest \<Longrightarrow> walk links n at rest = Inr (at @ rest)"
proof (induction rest arbitrary: at)
  case Nil
  then show ?case by simp
next
  case (Cons c rest)
  have "links (at @ [c]) = None"
    using Cons.prems(1) by (auto simp: link_free_def dest: spec [of _ "length at"])
  moreover have "walk links n (at @ [c]) rest = Inr (at @ c # rest)"
    using Cons.IH [of "at @ [c]"] Cons.prems by simp
  ultimately show ?case using Cons.prems(2) by (simp add: name_ok_def walk_steps)
qed

text \<open>Following more links than the bound needs changes nothing.\<close>

lemma walk_more_fuel: "walk links n at rest = Inr q \<Longrightarrow> n \<le> m \<Longrightarrow> walk links m at rest = Inr q"
proof (induction arbitrary: m rule: walk_rule)
  case (finished n)
  then show ?case by simp
next
  case (link n at p t rest)
  then obtain l where "m = Suc l" "n \<le> l" by (cases m) simp_all
  with link show ?case by (simp add: walk_steps)
qed (simp_all add: walk_steps)

section \<open>Canonical paths\<close>

text \<open>The canonical text of a place below the root, and its components back.\<close>

definition rel_text :: "path \<Rightarrow> string" where
  "rel_text cs = (if cs = [] then ''.'' else join ''/'' cs)"

lemma join_empty: "\<forall>c \<in> set cs. c \<noteq> [] \<Longrightarrow> join sep cs = [] \<longleftrightarrow> cs = []"
  by (induction sep cs rule: join.induct) auto

lemma rel_text_parts:
  "list_all name_ok cs \<Longrightarrow> cs \<noteq> [] \<Longrightarrow> path_parts (rel_text cs) = cs"
  by (auto simp: rel_text_def list_all_iff name_ok_def intro!: split_on_join)

lemma join_chars: "set (join sep cs) \<subseteq> set sep \<union> (\<Union>c \<in> set cs. set c)"
  by (induction sep cs rule: join.induct) auto

lemma join_first: "starts_with (join ''/'' (c # cs)) (n @ ''/'') \<or> join ''/'' (c # cs) = n \<longleftrightarrow> c = n"
  if "CHR ''/'' \<notin> set c" "CHR ''/'' \<notin> set n" "\<forall>d \<in> set cs. CHR ''/'' \<notin> set d"
proof -
  have eq: "path_parts (join ''/'' (c # cs)) = c # cs" using that by (intro split_on_join) auto
  show ?thesis
  proof
    assume "starts_with (join ''/'' (c # cs)) (n @ ''/'') \<or> join ''/'' (c # cs) = n"
    then show "c = n"
    proof
      assume "starts_with (join ''/'' (c # cs)) (n @ ''/'')"
      then obtain r where "join ''/'' (c # cs) = n @ CHR ''/'' # r" by (auto dest!: starts_withE)
      moreover have "path_parts (n @ CHR ''/'' # r) = n # path_parts r"
        using that(2) by (induction n) auto
      ultimately show ?thesis using eq by simp
    next
      assume "join ''/'' (c # cs) = n"
      moreover have "path_parts n = [n]" using that(2) by (induction n) auto
      ultimately show ?thesis using eq by simp
    qed
  next
    assume "c = n"
    then show "starts_with (join ''/'' (c # cs)) (n @ ''/'') \<or> join ''/'' (c # cs) = n"
      by (cases cs) (simp_all add: starts_with_def)
  qed
qed

lemma internal_first:
  assumes "list_all name_ok cs"
  shows "rel_text cs = internal_name \<or> starts_with (rel_text cs) (internal_name @ ''/'') \<longleftrightarrow>
    (\<exists>ds. cs = internal_name # ds)"
proof (cases cs)
  case Nil
  then show ?thesis by (simp add: rel_text_def internal_name_def starts_with_def)
next
  case (Cons c ds)
  have "CHR ''/'' \<notin> set internal_name" by (simp add: internal_name_def)
  with join_first [of c internal_name ds] assms Cons show ?thesis
    by (auto simp: rel_text_def list_all_iff name_ok_def)
qed

text \<open>
  A canonical path names a place below the root that is reached through no link; unless it
  was asked for, that place is outside the agent's own directory.
\<close>

lemma canonical_Inr:
  assumes "canonical ws r internal = Inr q" and "workspace_ok ws"
  obtains cs where "q = rel_text cs" "list_all name_ok cs" "link_free (ws_links ws) (ws_root ws @ cs)"
    "internal \<or> (\<forall>ds. cs \<noteq> internal_name # ds)"
proof -
  from assms(1) obtain p where nul: "CHR 0x00 \<notin> set r"
    and walk: "walk (ws_links ws) (ws_fuel ws) (ws_root ws) (path_parts r) = Inr p"
    and root: "take (length (ws_root ws)) p = ws_root ws"
    and q: "q = (if join ''/'' (drop (length (ws_root ws)) p) = [] then ''.''
                 else join ''/'' (drop (length (ws_root ws)) p))"
    and int: "internal \<or> \<not> (q = internal_name \<or> starts_with q (internal_name @ ''/''))"
    by (auto simp: canonical_def bindR_Inr Let_def split: if_splits)
  have "\<forall>c \<in> set (path_parts r). CHR ''/'' \<notin> set c \<and> CHR 0x00 \<notin> set c"
    using split_on_parts split_on_chars nul by blast
  with walk_normal [OF walk] assms(2) have p: "link_free (ws_links ws) p" "list_all name_ok p"
    by (auto simp: workspace_ok_def)
  let ?cs = "drop (length (ws_root ws)) p"
  have cs: "p = ws_root ws @ ?cs" using root by (metis append_take_drop_id)
  then have ok: "list_all name_ok ?cs" using p(2) by (metis list_all_append)
  have "q = rel_text ?cs" using q ok join_empty [of ?cs "''/''"]
    by (auto simp: rel_text_def list_all_iff name_ok_def)
  moreover have "link_free (ws_links ws) (ws_root ws @ ?cs)" using p(1) cs by simp
  moreover have "internal \<or> (\<forall>ds. ?cs \<noteq> internal_name # ds)"
    using int internal_first [OF ok] calculation(1) by auto
  ultimately show ?thesis using ok that by blast
qed

lemma canonical_rel_text:
  assumes "workspace_ok ws" "list_all name_ok cs" "link_free (ws_links ws) (ws_root ws @ cs)"
    and "internal \<or> (\<forall>ds. cs \<noteq> internal_name # ds)" and "strip (rel_text cs) \<noteq> []"
  shows "canonical ws (rel_text cs) internal = Inr (rel_text cs)"
proof -
  have nul: "CHR 0x00 \<notin> set (rel_text cs)"
    using join_chars [of "''/''" cs] assms(2) by (auto simp: rel_text_def list_all_iff name_ok_def)
  have rel: "\<not> is_absolute (rel_text cs)"
  proof (cases cs)
    case Nil
    then show ?thesis by (simp add: rel_text_def is_absolute_def starts_with_def)
  next
    case (Cons c ds)
    with assms(2) show ?thesis
      by (cases c; cases ds) (auto simp: rel_text_def is_absolute_def starts_with_def name_ok_def)
  qed
  have walk: "walk (ws_links ws) (ws_fuel ws) (ws_root ws) (path_parts (rel_text cs)) = Inr (ws_root ws @ cs)"
  proof (cases "cs = []")
    case True
    then show ?thesis by (simp add: rel_text_def walk_steps)
  next
    case False
    with assms show ?thesis by (simp add: rel_text_parts walk_id)
  qed
  have je: "join ''/'' cs = [] \<longleftrightarrow> cs = []"
    using assms(2) by (intro join_empty) (auto simp: list_all_iff name_ok_def)
  have "internal \<or> \<not> (rel_text cs = internal_name \<or> starts_with (rel_text cs) (internal_name @ ''/''))"
    using internal_first [OF assms(2)] assms(4) by auto
  then show ?thesis
    using nul rel walk je assms(5) unfolding canonical_def
    by (auto simp: Let_def rel_text_def)
qed

theorem canonical_idem:
  assumes "workspace_ok ws" and "canonical ws r internal = Inr q" and "strip q \<noteq> []"
  shows "canonical ws q internal = Inr q"
  using canonical_Inr [OF assms(2,1)] canonical_rel_text [OF assms(1)] assms(3) by metis

definition resolve_path :: "workspace \<Rightarrow> string \<Rightarrow> bool \<Rightarrow> string res" where
  "resolve_path ws relative allow_internal = canonical ws relative allow_internal"

section \<open>Patterns\<close>

text \<open>
  \<open>fnmatch.fnmatchcase\<close>: a bracket opens a class when a closing bracket follows it (a first
  \<open>!\<close> and a first \<open>]\<close> after it belong to the class) and stands for itself otherwise. In a
  class a hyphen between two characters is a range; ranges that are empty match nothing, and
  a class that starts with \<open>!\<close> once its leading empty ranges are gone is negated.
\<close>

fun class_items :: "string \<Rightarrow> (char \<times> char) list" where
  "class_items [] = []"
| "class_items (c # r) =
     (if length r \<ge> 2 \<and> hd r = CHR ''-'' then (c, r ! 1) # class_items (drop 2 r)
      else (c, c) # class_items r)"

function drop_empty_ranges :: "string \<Rightarrow> string" where
  "drop_empty_ranges s =
     (if length s \<ge> 3 \<and> s ! 1 = CHR ''-'' \<and> s ! 0 > s ! 2 then drop_empty_ranges (drop 3 s) else s)"
  by pat_completeness auto
termination by (relation "measure length") auto

definition class_hit :: "string \<Rightarrow> char \<Rightarrow> bool" where
  "class_hit body x =
     (let inside = (\<lambda>s. list_ex (\<lambda>(lo, hi). lo \<le> x \<and> x \<le> hi) (class_items s));
          b = (if starts_with body ''!'' then body else drop_empty_ranges body)
      in if starts_with b ''!'' then \<not> inside (tl b) else inside b)"

definition class_split :: "string \<Rightarrow> (string \<times> string) option" where
  "class_split p =
     (let k0 = (if starts_with p ''!'' then 1 else 0);
          k1 = (if starts_with (drop k0 p) '']'' then Suc k0 else k0);
          body = takeWhile (\<lambda>c. c \<noteq> CHR '']'') (drop k1 p)
      in if length body = length (drop k1 p) then None
         else Some (take k1 p @ body, drop (k1 + Suc (length body)) p))"

lemma class_split_shorter: "class_split p = Some (b, r) \<Longrightarrow> length r < length p"
proof -
  assume "class_split p = Some (b, r)"
  then obtain k where r: "r = drop (Suc k) p" and "p \<noteq> []"
    by (cases "p = []") (auto simp: class_split_def Let_def split: if_splits)
  then show ?thesis by simp
qed

lemma glob_shorter: "s \<noteq> [] \<Longrightarrow> (n :: nat) \<le> m \<Longrightarrow> n + (length s - Suc 0) < m + length s"
  by (cases s) simp_all

function glob :: "string \<Rightarrow> string \<Rightarrow> bool" where
  "glob [] s = (s = [])"
| "glob (c # p) s =
     (if c = CHR ''*'' then glob p s \<or> (if s = [] then False else glob (c # p) (tl s))
      else if c = CHR ''?'' then s \<noteq> [] \<and> glob p (tl s)
      else if c = CHR ''['' then
        (case class_split p of
           None \<Rightarrow> s \<noteq> [] \<and> hd s = c \<and> glob p (tl s)
         | Some (body, rest) \<Rightarrow> s \<noteq> [] \<and> class_hit body (hd s) \<and> glob rest (tl s))
      else s \<noteq> [] \<and> hd s = c \<and> glob p (tl s))"
  by pat_completeness auto
termination
  by (relation "measure (\<lambda>(p, s). length p + length s)")
     (auto dest!: class_split_shorter intro: glob_shorter simp: less_Suc_eq_le)

declare glob.simps [simp del] class_items.simps [simp del] drop_empty_ranges.simps [simp del]

definition pattern_hit :: "string \<Rightarrow> string \<Rightarrow> bool" where
  "pattern_hit normalized pattern =
     (let np = strip (replace_char CHR 0x5C (CHR ''/'') pattern)
      in np \<in> {''*'', ''**'', ''.''} \<or> glob np normalized \<or>
         (ends_with np ''/**'' \<and>
           normalized = rstrip_char (CHR ''/'') (take (length np - 3) np)) \<or>
         normalized = rstrip_char (CHR ''/'') np)"

definition path_matches :: "string \<Rightarrow> string list \<Rightarrow> bool" where
  "path_matches p patterns = list_ex (pattern_hit (replace_char CHR 0x5C (CHR ''/'') p)) patterns"

definition require_scope :: "workspace \<Rightarrow> string \<Rightarrow> string list \<Rightarrow> string list \<Rightarrow> string res" where
  "require_scope ws relative allowed forbidden =
     bindR (canonical ws relative False) (\<lambda>c.
       if \<not> path_matches c allowed then Inl (PolicyError ''outside allowed paths'')
       else if forbidden \<noteq> [] \<and> path_matches c forbidden then Inl (PolicyError ''intersects forbidden paths'')
       else Inr c)"

lemma path_matches_Nil [simp]: "\<not> path_matches p []"
  by (simp add: path_matches_def)

lemma require_scope_Inr:
  "require_scope ws r allowed forbidden = Inr q \<longleftrightarrow>
     canonical ws r False = Inr q \<and> path_matches q allowed \<and> \<not> path_matches q forbidden"
  by (auto simp: require_scope_def bindR_Inr)

lemma path_matches_mono: "set ps \<subseteq> set qs \<Longrightarrow> path_matches p ps \<Longrightarrow> path_matches p qs"
  by (auto simp: path_matches_def list_ex_iff)

text \<open>A star matches everything, and a pattern of ordinary characters only itself.\<close>

lemma glob_steps [simp]:
  "glob [] s \<longleftrightarrow> s = []"
  "glob (CHR ''*'' # p) [] \<longleftrightarrow> glob p []"
  "glob (CHR ''*'' # p) (x # s) \<longleftrightarrow> glob p (x # s) \<or> glob (CHR ''*'' # p) s"
  "glob (CHR ''?'' # p) s \<longleftrightarrow> s \<noteq> [] \<and> glob p (tl s)"
  by (subst glob.simps, simp)+

definition plain_text :: "string \<Rightarrow> bool" where
  "plain_text p = list_all (\<lambda>c. c \<notin> {CHR ''*'', CHR ''?'', CHR ''[''}) p"

lemma glob_plain_step:
  "plain_text (c # p) \<Longrightarrow> glob (c # q) s \<longleftrightarrow> (case s of [] \<Rightarrow> False | x # t \<Rightarrow> x = c \<and> glob q t)"
  by (subst glob.simps) (simp add: plain_text_def split: list.split)

lemma plain_text_tl: "plain_text (c # p) \<Longrightarrow> plain_text p"
  by (simp add: plain_text_def)

lemma glob_star: "glob ''*'' s"
  by (induction s) simp_all

lemma glob_star_suffix: "glob p s \<Longrightarrow> glob (CHR ''*'' # p) (u @ s)"
proof (induction u)
  case Nil
  then show ?case by (cases s) simp_all
next
  case (Cons x u)
  then show ?case by simp
qed

lemma glob_literal: "plain_text p \<Longrightarrow> glob p s \<longleftrightarrow> s = p"
proof (induction p arbitrary: s)
  case Nil
  show ?case by simp
next
  case (Cons c p)
  then show ?case by (cases s) (simp_all only: glob_plain_step plain_text_tl list.simps)
qed

lemma glob_literal_prefix: "plain_text u \<Longrightarrow> glob (u @ p) (u @ s) = glob p s"
proof (induction u)
  case Nil
  show ?case by simp
next
  case (Cons c u)
  then show ?case using plain_text_tl [OF Cons.prems] by (simp only: append_Cons glob_plain_step list.simps Cons.IH simp_thms)
qed

lemma glob_subtree:
  assumes "plain_text d"
  shows "glob (d @ ''/**'') (d @ ''/'' @ s)"
proof -
  have "glob ''**'' s" using glob_star_suffix [of "''*''" "[]" s] by simp
  moreover have "plain_text (d @ ''/'')" using assms by (simp add: plain_text_def)
  ultimately show ?thesis using glob_literal_prefix [of "d @ ''/''" "''**''" s] by simp
qed

section \<open>The scope interface\<close>

text \<open>
  What the callers of \<open>require_scope\<close> rely on: it accepts a request exactly when the
  canonical path exists, is matched by an allowed pattern and by no forbidden one, and a path
  it returned canonicalises to itself if at all. A check in two stages, the second on the path
  the first returned, is then one check against both pairs of lists.
\<close>

locale scope_interface =
  fixes ok :: "'w \<Rightarrow> bool"
    and canon :: "'w \<Rightarrow> string \<Rightarrow> string res"
    and hit :: "string \<Rightarrow> string list \<Rightarrow> bool"
    and scoped :: "'w \<Rightarrow> string \<Rightarrow> string list \<Rightarrow> string list \<Rightarrow> string res"
  assumes canon_stable: "ok w \<Longrightarrow> canon w r = Inr q \<Longrightarrow> canon w q = Inr p \<Longrightarrow> p = q"
    and scoped_iff: "scoped w r allowed forbidden = Inr q \<longleftrightarrow>
      canon w r = Inr q \<and> hit q allowed \<and> \<not> hit q forbidden"
    and hit_mono: "set ps \<subseteq> set qs \<Longrightarrow> hit p ps \<Longrightarrow> hit p qs"
begin

lemma two_stage:
  assumes "ok w"
    and "bindR (scoped w r allowed forbidden) (\<lambda>q. scoped w q allowed' forbidden') = Inr p"
  shows "scoped w r allowed forbidden = Inr p \<and> scoped w r allowed' forbidden' = Inr p"
proof -
  from assms(2) obtain q where q: "scoped w r allowed forbidden = Inr q"
    and p: "scoped w q allowed' forbidden' = Inr p" by (auto simp: bindR_Inr)
  then have "p = q" using canon_stable [OF assms(1)] by (auto simp: scoped_iff)
  with q p show ?thesis by (auto simp: scoped_iff)
qed

lemma narrower:
  "set allowed \<subseteq> set allowed' \<Longrightarrow> set forbidden' \<subseteq> set forbidden \<Longrightarrow>
   scoped w r allowed forbidden = Inr p \<Longrightarrow> scoped w r allowed' forbidden' = Inr p"
  by (auto simp: scoped_iff intro: hit_mono)

end

lemma canonical_stable:
  "workspace_ok ws \<Longrightarrow> canonical ws r i = Inr q \<Longrightarrow> canonical ws q i = Inr p \<Longrightarrow> p = q"
proof -
  assume ok: "workspace_ok ws" and q: "canonical ws r i = Inr q" and p: "canonical ws q i = Inr p"
  from p have "strip q \<noteq> []" by (auto simp: canonical_def)
  from canonical_idem [OF ok q this] p show ?thesis by simp
qed

interpretation ws_scope: scope_interface workspace_ok "\<lambda>ws r. canonical ws r False" path_matches require_scope
  by unfold_locales (auto simp: require_scope_Inr intro: canonical_stable path_matches_mono)

section \<open>File trees and snapshots\<close>

datatype node = FileN (content: string) (mode: int) | DirN

type_synonym files = "(string, node) dict"

text \<open>SHA-256 of a byte string as hexadecimal text is the parameter \<open>B\<close>.\<close>

type_synonym byte_digest = "string \<Rightarrow> string"

definition text_digest :: "byte_digest \<Rightarrow> digest" where
  "text_digest B s = B (utf8 s)"

definition DEFAULT_IGNORES :: "string list" where
  "DEFAULT_IGNORES = [''.git'', ''.hg'', ''.svn'', ''.idea'', ''.vscode'', ''.ourd-agent'',
     ''__pycache__'', ''.pytest_cache'', ''.mypy_cache'', ''node_modules'', ''dist'', ''build'',
     ''.venv'', ''venv'']"

definition ignored_parts :: "string list \<Rightarrow> bool" where
  "ignored_parts parts =
     list_ex (\<lambda>part. part \<in> set DEFAULT_IGNORES \<or> ends_with part ''.egg-info'') parts"

definition file_hash_or_none :: "byte_digest \<Rightarrow> files \<Rightarrow> string \<Rightarrow> string option" where
  "file_hash_or_none B fs p =
     (case dict_get fs p of Some (FileN bytes m) \<Rightarrow> Some (B bytes) | _ \<Rightarrow> None)"

text \<open>\<open>iter_files\<close> from the root: the regular files whose path has no ignored component.\<close>

definition iter_files :: "files \<Rightarrow> string list" where
  "iter_files fs = filter (\<lambda>p. (case dict_get fs p of Some (FileN bytes m) \<Rightarrow> True | _ \<Rightarrow> False)
     \<and> \<not> ignored_parts (path_parts p)) (map fst fs)"

definition snapshot :: "byte_digest \<Rightarrow> files \<Rightarrow> (string \<times> string) list" where
  "snapshot B fs = map (\<lambda>p. (p, case file_hash_or_none B fs p of Some h \<Rightarrow> h | None \<Rightarrow> []))
     (sorted_set (iter_files fs))"

fun oct_digits :: "nat \<Rightarrow> string" where
  "oct_digits n = (if n < 8 then [char_of (48 + n)] else oct_digits (n div 8) @ [char_of (48 + n mod 8)])"

declare oct_digits.simps [simp del]

definition oct_mode :: "int \<Rightarrow> string" where
  "oct_mode m = ''0o'' @ oct_digits (nat m)"

definition file_mode :: "files \<Rightarrow> string \<Rightarrow> int" where
  "file_mode fs p = (case dict_get fs p of Some (FileN bytes m) \<Rightarrow> m | _ \<Rightarrow> 0)"

definition snapshot_material :: "byte_digest \<Rightarrow> files \<Rightarrow> string" where
  "snapshot_material B fs = concat (map (\<lambda>(p, h).
     utf8 p @ [CHR 0x00] @ h @ [CHR 0x00] @ oct_mode (file_mode fs p) @ [CHR 0x00]) (snapshot B fs))"

definition snapshot_hash :: "byte_digest \<Rightarrow> files \<Rightarrow> string" where
  "snapshot_hash B fs = B (snapshot_material B fs)"

text \<open>
  The hashed text of a snapshot is uniquely readable: paths, hashes and modes contain no NUL.
  Two trees with the same snapshot hash therefore agree on every file that is not ignored,
  contents and permissions, as long as the digest does not collide on the texts hashed.
\<close>

lemma nul_reads: "z \<notin> set a \<Longrightarrow> z \<notin> set b \<Longrightarrow> a @ z # x = b @ z # y \<Longrightarrow> a = b \<and> x = y"
proof (induction a arbitrary: b)
  case Nil
  then show ?case by (cases b) auto
next
  case (Cons c a)
  then show ?case by (cases b) auto
qed

primrec oct_val :: "nat \<Rightarrow> string \<Rightarrow> nat" where
  "oct_val a [] = a"
| "oct_val a (c # cs) = oct_val (8 * a + (of_char c - 48)) cs"

lemma oct_val_append: "oct_val a (s @ t) = oct_val (oct_val a s) t"
  by (induction s arbitrary: a) simp_all

lemma oct_val_digits: "oct_val 0 (oct_digits n) = n \<and> CHR 0x00 \<notin> set (oct_digits n)"
proof (induction n rule: oct_digits.induct)
  case (1 n)
  have d: "char_of (48 + k) \<noteq> CHR 0x00" if "k < 8" for k :: nat
  proof
    assume "char_of (48 + k) = CHR 0x00"
    then have "(of_char (char_of (48 + k)) :: nat) = of_char (CHR 0x00)" by (simp only:)
    with that show False by simp
  qed
  have z: "char_of (48 :: nat) \<noteq> CHR 0x00" using d [of 0] by simp
  show ?case
  proof (cases "n < 8")
    case True
    then show ?thesis using d [of n] by (simp add: oct_digits.simps [of n] eq_commute)
  next
    case False
    have "n mod 8 < 8" by simp
    with False 1 d [of "n mod 8"] show ?thesis
      by (simp add: oct_digits.simps [of n] oct_val_append eq_commute)
  qed
qed

lemma oct_mode_inj: "0 \<le> m \<Longrightarrow> 0 \<le> n \<Longrightarrow> oct_mode m = oct_mode n \<longleftrightarrow> m = n"
  unfolding oct_mode_def by (metis append_eq_append_conv int_nat_eq oct_val_digits)

definition tree_ok :: "files \<Rightarrow> bool" where
  "tree_ok fs \<longleftrightarrow> (\<forall>(p, nd) \<in> set fs. CHR 0x00 \<notin> set p \<and> 0 \<le> (case nd of FileN b m \<Rightarrow> m | DirN \<Rightarrow> 0))"

definition tracked :: "files \<Rightarrow> string \<Rightarrow> node option" where
  "tracked fs p = (if p \<in> set (iter_files fs) then dict_get fs p else None)"

definition hashed_texts :: "byte_digest \<Rightarrow> files \<Rightarrow> string set" where
  "hashed_texts B fs = insert (snapshot_material B fs)
     {b. \<exists>p m. dict_get fs p = Some (FileN b m)}"

lemma utf8_no_nul: "CHR 0x00 \<notin> set s \<Longrightarrow> CHR 0x00 \<notin> set (utf8 s)"
proof -
  assume "CHR 0x00 \<notin> set s"
  have "CHR 0x00 \<notin> set (utf8_char c)" if "c \<noteq> CHR 0x00" for c
  proof
    assume *: "CHR 0x00 \<in> set (utf8_char c)"
    have b: "(of_char c :: nat) < 256" by simp
    from * that consider "CHR 0x00 = char_of (192 + of_char c div 64 :: nat)"
      | "CHR 0x00 = char_of (128 + of_char c mod 64 :: nat)"
      by (auto simp: utf8_char_def Let_def split: if_splits)
    then show False
    proof cases
      case 1
      then have "(of_char (CHR 0x00) :: nat) = of_char (char_of (192 + of_char c div 64 :: nat) :: char)"
        by (simp only:)
      then have "0 = (192 + of_char c div 64) mod (256 :: nat)" by simp
      moreover from b have "(of_char c :: nat) div 64 < 64" by linarith
      ultimately show False by simp
    next
      case 2
      then have "(of_char (CHR 0x00) :: nat) = of_char (char_of (128 + of_char c mod 64 :: nat) :: char)"
        by (simp only:)
      then have "0 = (128 + of_char c mod 64) mod (256 :: nat)" by simp
      moreover have "(of_char c :: nat) mod 64 < 64" by simp
      ultimately show False by simp
    qed
  qed
  moreover have "c \<noteq> CHR 0x00" if "c \<in> set s" for c using that \<open>CHR 0x00 \<notin> set s\<close> by metis
  ultimately show ?thesis unfolding utf8_def by fastforce
qed

lemma snapshot_entries_read:
  fixes ps qs :: "(string \<times> string) list"
  assumes "\<And>p h. (p, h) \<in> set ps \<union> set qs \<Longrightarrow> CHR 0x00 \<notin> set p \<and> CHR 0x00 \<notin> set h"
    and "\<And>x. 0 \<le> f x \<and> 0 \<le> g x"
    and "concat (map (\<lambda>(p, h). utf8 p @ [CHR 0x00] @ h @ [CHR 0x00] @ oct_mode (f p) @ [CHR 0x00]) ps) =
         concat (map (\<lambda>(p, h). utf8 p @ [CHR 0x00] @ h @ [CHR 0x00] @ oct_mode (g p) @ [CHR 0x00]) qs)"
  shows "ps = qs \<and> (\<forall>(p, h) \<in> set ps. f p = g p)"
  using assms(1,3)
proof (induction ps arbitrary: qs)
  case Nil
  then show ?case by (cases qs) auto
next
  case (Cons x ps)
  obtain p h where x: "x = (p, h)" by (cases x)
  from Cons.prems(2) x obtain p' h' qs' where qs: "qs = (p', h') # qs'" by (cases qs) auto
  let ?F = "\<lambda>f ps. concat (map (\<lambda>(p, h). utf8 p @ [CHR 0x00] @ h @ [CHR 0x00] @ oct_mode (f p) @ [CHR 0x00]) ps)"
  have n: "CHR 0x00 \<notin> set (utf8 p)" "CHR 0x00 \<notin> set (utf8 p')" "CHR 0x00 \<notin> set h" "CHR 0x00 \<notin> set h'"
    using Cons.prems(1) x qs utf8_no_nul by auto
  have m: "CHR 0x00 \<notin> set (oct_mode k)" for k by (simp add: oct_mode_def oct_val_digits)
  from Cons.prems(2) x qs
  have "utf8 p @ CHR 0x00 # (h @ CHR 0x00 # (oct_mode (f p) @ CHR 0x00 # ?F f ps)) =
        utf8 p' @ CHR 0x00 # (h' @ CHR 0x00 # (oct_mode (g p') @ CHR 0x00 # ?F g qs'))" by simp
  from nul_reads [OF n(1,2) this] have u: "utf8 p = utf8 p'" and
    r1: "h @ CHR 0x00 # (oct_mode (f p) @ CHR 0x00 # ?F f ps) = h' @ CHR 0x00 # (oct_mode (g p') @ CHR 0x00 # ?F g qs')"
    by blast+
  from u have 1: "p = p'" by (simp add: utf8_inj)
  from nul_reads [OF n(3,4) r1] have 2: "h = h'" and
    r2: "oct_mode (f p) @ CHR 0x00 # ?F f ps = oct_mode (g p') @ CHR 0x00 # ?F g qs'" by simp_all
  from nul_reads [OF m m r2] have 3: "oct_mode (f p) = oct_mode (g p')" "?F f ps = ?F g qs'" by simp_all
  have "ps = qs' \<and> (\<forall>(p, h) \<in> set ps. f p = g p)"
    using Cons.prems(1) x qs 3 by (intro Cons.IH) auto
  with 1 2 3 x qs oct_mode_inj assms(2) show ?case by auto
qed

lemma iter_files_dict: "p \<in> set (iter_files fs) \<longleftrightarrow>
    (\<exists>b m. dict_get fs p = Some (FileN b m)) \<and> \<not> ignored_parts (path_parts p)"
  by (force simp: iter_files_def split: option.splits node.splits dest: map_of_SomeD)

lemma snapshot_hash_binds:
  assumes "\<And>x. CHR 0x00 \<notin> set (B x)" and "tree_ok fs" and "tree_ok gs"
    and "inj_on B (hashed_texts B fs \<union> hashed_texts B gs)"
    and "snapshot_hash B fs = snapshot_hash B gs"
  shows "tracked fs = tracked gs"
proof -
  have files: "\<exists>b m. dict_get ds p = Some (FileN b m) \<and> CHR 0x00 \<notin> set p \<and> 0 \<le> m"
    if "tree_ok ds" "p \<in> set (iter_files ds)" for ds p
    using that by (fastforce simp: iter_files_dict tree_ok_def dest: map_of_SomeD)
  have snap: "CHR 0x00 \<notin> set p \<and> CHR 0x00 \<notin> set h" if "tree_ok ds" "(p, h) \<in> set (snapshot B ds)" for ds p h
    using files [OF that(1)] that(2) assms(1) by (fastforce simp: snapshot_def file_hash_or_none_def)
  have pos: "0 \<le> file_mode ds p" if "tree_ok ds" for ds p
  proof (cases "dict_get ds p")
    case (Some nd)
    then show ?thesis using that map_of_SomeD [OF Some]
      by (fastforce simp: file_mode_def tree_ok_def split: node.splits)
  qed (simp add: file_mode_def)
  have "snapshot_material B fs = snapshot_material B gs"
  proof (rule inj_onD [OF assms(4)])
    show "B (snapshot_material B fs) = B (snapshot_material B gs)"
      using assms(5) by (simp only: snapshot_hash_def)
  qed (simp_all add: hashed_texts_def)
  then have "snapshot B fs = snapshot B gs \<and> (\<forall>(p, h) \<in> set (snapshot B fs). file_mode fs p = file_mode gs p)"
    unfolding snapshot_material_def using snap pos assms(2,3) by (intro snapshot_entries_read) auto
  then have eq: "snapshot B fs = snapshot B gs"
    and mode: "\<And>p. p \<in> set (iter_files fs) \<Longrightarrow> file_mode fs p = file_mode gs p"
    by (auto simp: snapshot_def)
  have names: "sorted_set (iter_files fs) = sorted_set (iter_files gs)"
    using arg_cong [OF eq, of "map fst"] by (simp add: snapshot_def comp_def)
  then have iter: "set (iter_files fs) = set (iter_files gs)" by (metis sorted_set_simps(3))
  show ?thesis
  proof
    fix p
    show "tracked fs p = tracked gs p"
    proof (cases "p \<in> set (iter_files fs)")
      case True
      then obtain b m c n where fg: "dict_get fs p = Some (FileN b m)" "dict_get gs p = Some (FileN c n)"
        using iter files assms(2,3) by metis
      have "file_hash_or_none B fs p = file_hash_or_none B gs p"
        using eq True [unfolded iter] names fg by (fastforce simp: snapshot_def file_hash_or_none_def)
      then have "B b = B c" using fg by (simp add: file_hash_or_none_def)
      moreover have "b \<in> hashed_texts B fs" "c \<in> hashed_texts B gs"
        using fg by (auto simp: hashed_texts_def)
      ultimately have "b = c" using assms(4) by (meson UnI1 UnI2 inj_onD)
      moreover have "m = n" using mode [OF True] fg by (simp add: file_mode_def)
      ultimately show ?thesis using fg True iter by (simp add: tracked_def)
    next
      case False
      then show ?thesis using iter by (simp add: tracked_def)
    qed
  qed
qed

section \<open>Properties\<close>

definition sample_workspace :: workspace where
  "sample_workspace = \<lparr> ws_root = [''srv'', ''repo''],
     ws_links = (\<lambda>p. if p = [''srv'', ''repo'', ''docs''] then Some ''notes/../manual'' else None),
     ws_fuel = 4 \<rparr>"

lemma sample_workspace_ok: "workspace_ok sample_workspace"
  by (auto simp: workspace_ok_def sample_workspace_def name_ok_def link_free_def less_Suc_eq)

text \<open>C2. Confinement: a path that \<open>Workspace.canonical\<close> accepts names a place below the
  workspace root that is reached by ordinary names through no symbolic link, and, unless the
  caller asked for internal paths, outside the agent's own state directory.\<close>

theorem canonical_confined:
  assumes "workspace_ok ws" and "canonical ws r internal = Inr q"
  shows "\<exists>cs. q = rel_text cs \<and> list_all name_ok cs \<and> link_free (ws_links ws) (ws_root ws @ cs) \<and>
    (internal \<or> (\<forall>ds. cs \<noteq> internal_name # ds))"
  using canonical_Inr [OF assms(2,1)] by metis

lemma canonical_sample: "canonical sample_workspace ''docs/./a.txt'' False = Inr ''manual/a.txt''"
  by code_simp

theorem canonical_confined_witness:
  "\<exists>cs. ''manual/a.txt'' = rel_text cs \<and> list_all name_ok cs \<and>
     link_free (ws_links sample_workspace) (ws_root sample_workspace @ cs) \<and>
     (False \<or> (\<forall>ds. cs \<noteq> internal_name # ds))"
  by (rule canonical_confined [OF sample_workspace_ok canonical_sample])

text \<open>Canonicalisation is idempotent: a canonical path, unless it is made of white space
  only, canonicalises to itself, so a path may be checked again at every later stage.\<close>

lemma canonical_path_stable:
  assumes "workspace_ok ws" and "canonical ws r internal = Inr q" and "strip q \<noteq> []"
  shows "canonical ws q internal = Inr q"
  using assms by (rule canonical_idem)

text \<open>The snapshot hash detects source drift: two file trees with the same snapshot hash
  agree on every file that is not ignored, contents and permissions, as long as the digest
  does not collide on the texts hashed for them.\<close>

lemma snapshot_detects_drift:
  assumes "\<And>x. CHR 0x00 \<notin> set (B x)" and "tree_ok fs" and "tree_ok gs"
    and "inj_on B (hashed_texts B fs \<union> hashed_texts B gs)"
    and "snapshot_hash B fs = snapshot_hash B gs"
  shows "tracked fs = tracked gs"
  using assms by (rule snapshot_hash_binds)

text \<open>The digest of the witness writes each byte as two letters.\<close>

definition letters :: "string \<Rightarrow> string" where
  "letters s = concat (map (\<lambda>c. [char_of (65 + (of_char c :: nat) div 16), char_of (65 + (of_char c :: nat) mod 16)]) s)"

lemma letters_no_nul: "CHR 0x00 \<notin> set (letters s)"
proof -
  have "CHR 0x00 \<noteq> char_of (65 + n :: nat)" if "n < 16" for n
  proof
    assume "CHR 0x00 = char_of (65 + n :: nat)"
    then have "(of_char (CHR 0x00) :: nat) = of_char (char_of (65 + n :: nat) :: char)" by (simp only:)
    with that show False by simp
  qed
  moreover have "(of_char c :: nat) div 16 < 16" for c
  proof -
    have "(of_char c :: nat) < 256" by simp
    then show ?thesis by linarith
  qed
  moreover have "(of_char c :: nat) mod 16 < 16" for c by simp
  ultimately show ?thesis unfolding letters_def by fastforce
qed

lemma letters_inj: "inj letters"
proof (rule injI)
  have nib: "char_of (65 + m :: nat) = (char_of (65 + n :: nat) :: char) \<Longrightarrow> m = n" if "m < 16" "n < 16" for m n
  proof -
    assume "char_of (65 + m :: nat) = (char_of (65 + n :: nat) :: char)"
    then have "(of_char (char_of (65 + m :: nat) :: char) :: nat) = of_char (char_of (65 + n :: nat) :: char)"
      by (simp only:)
    with that show "m = n" by simp
  qed
  have lt: "(of_char c :: nat) div 16 < 16" "(of_char c :: nat) mod 16 < 16" for c
  proof -
    have "(of_char c :: nat) < 256" by simp
    then show "(of_char c :: nat) div 16 < 16" by linarith
  qed simp
  show "s = t" if "letters s = letters t" for s t
    using that
  proof (induction s arbitrary: t)
    case Nil
    then show ?case by (cases t) (simp_all add: letters_def)
  next
    case (Cons c s)
    then obtain d u where t: "t = d # u" by (cases t) (auto simp: letters_def)
    with Cons.prems have "char_of (65 + of_char c div 16 :: nat) = (char_of (65 + of_char d div 16 :: nat) :: char)"
        "char_of (65 + of_char c mod 16 :: nat) = (char_of (65 + of_char d mod 16 :: nat) :: char)"
        "letters s = letters u"
      by (simp_all add: letters_def)
    moreover from this nib lt have "(of_char c :: nat) div 16 = of_char d div 16" "(of_char c :: nat) mod 16 = of_char d mod 16"
      by blast+
    then have "(of_char c :: nat) = of_char d" by (metis div_mult_mod_eq)
    ultimately show ?case using Cons.IH t by simp
  qed
qed

definition sample_tree :: "string \<Rightarrow> files" where
  "sample_tree log = [(''a'', FileN ''x'' 420), (''build/log'', FileN log 420), (''lib'', DirN)]"

end
