(* ===== verification/Policy.thy ===== *)
theory Policy
  imports Workspace
begin

text \<open>
  \<open>ourd/policy.py\<close>: the deterministic risk floor, the permission decision, the command parser
  and the classifier that maps a command line to a capability, its risk and the workspace
  paths it refers to. \<open>shlex.split\<close> (POSIX mode, no comments) is written out as the state
  machine of the standard library. A capability decision carries only canonical paths.
\<close>

section \<open>Risk\<close>

definition MUTATION_OPERATIONS :: "string list" where
  "MUTATION_OPERATIONS = [''write_file'', ''replace_text'', ''apply_transaction'', ''run_command'']"

definition STRUCTURAL_TERMS :: "string list" where
  "STRUCTURAL_TERMS = [''dependency'', ''package'', ''architecture'', ''schema'', ''migration'',
     ''build system'', ''configuration'', ''refactor'', ''rename'', ''delete'', ''remove'']"

definition minimum_risk :: "string \<Rightarrow> string \<Rightarrow> string list \<Rightarrow> string list \<Rightarrow> string" where
  "minimum_risk operation summary targets command_capabilities =
     (let normalized = lower (strip operation)
      in if normalized \<in> {''read'', ''list_files'', ''read_file'', ''search_text'', ''git_status'', ''git_diff''}
           then ''L0''
         else let risk = (if normalized \<in> set MUTATION_OPERATIONS then ''L1'' else ''L1'');
                  combined = lower (summary @ '' '' @ operation @ '' '' @ join '' '' targets);
                  risk = (if length (remdups targets) > 3 \<or> list_ex (\<lambda>t. contains t combined) STRUCTURAL_TERMS
                          then ''L2'' else risk)
           in if list_ex (\<lambda>c. c \<in> {''cmake.build'', ''package.install''}) command_capabilities
                then ''L2'' else risk)"

definition effective_risk :: "string \<Rightarrow> string \<Rightarrow> string \<Rightarrow> string list \<Rightarrow> string list \<Rightarrow> string res" where
  "effective_risk model_risk operation summary targets command_capabilities =
     (if \<not> is_risk model_risk then Inl (PolicyError ''risk must be L0, L1, or L2'')
      else max_risk [model_risk, minimum_risk operation summary targets command_capabilities])"

definition require_mutation_authority :: "authority_manifest \<Rightarrow> unit res" where
  "require_mutation_authority a =
     (if am_read_only a then Inl (PolicyError ''current authority is read-only'') else Inr ())"

definition require_action_available :: "eon_action \<Rightarrow> unit res" where
  "require_action_available a =
     (if ac_use_count a \<ge> ac_use_limit a then Inl (PolicyError ''EON action use limit is exhausted'')
      else Inr ())"

definition require_permission :: "authority_manifest \<Rightarrow> string \<Rightarrow> bool \<Rightarrow> string res" where
  "require_permission authority risk yolo =
     (if risk = ''L0'' then Inr ''automatic''
      else bindR (if risk = ''L1'' \<and> am_allow_l1_auto_apply authority
                  then bindR (risk_index (am_max_automatic_risk authority)) (\<lambda>n. Inr (n \<ge> risk_rank ''L1''))
                  else Inr False) (\<lambda>auto.
        if auto then Inr ''automatic''
        else if risk = ''L2'' \<and> \<not> am_allow_interactive_l2 authority
          then Inl (PolicyError ''authority does not permit interactive L2 application'')
        else if yolo
          then if \<not> am_allow_yolo authority
                 then Inl (PolicyError ''--yolo is not authorized by the authority manifest'')
               else Inr ''preauthorized''
        else Inr ''interactive''))"

lemma minimum_risk_is [simp]: "is_risk (minimum_risk operation summary targets caps)"
  by (simp add: minimum_risk_def is_risk_iff Let_def)

lemma effective_risk_Inr:
  assumes "effective_risk m operation summary targets caps = Inr r"
  shows "is_risk r" and "risk_rank m \<le> risk_rank r"
    and "risk_rank (minimum_risk operation summary targets caps) \<le> risk_rank r"
    and "r = m \<or> r = minimum_risk operation summary targets caps"
  using assms max_risk_Inr [of "[m, minimum_risk operation summary targets caps]" r]
  by (auto simp: effective_risk_def split: if_splits)

lemma effective_risk_total:
  "is_risk m \<Longrightarrow> \<exists>r. effective_risk m operation summary targets caps = Inr r"
  by (simp add: effective_risk_def max_risk_two)

section \<open>Command lines\<close>

datatype shlex_state = Blank | Word | Quoted char | Escaped bool

definition shlex_space :: "char \<Rightarrow> bool" where
  "shlex_space c = (c = CHR '' '' \<or> (of_char c :: nat) \<in> {9, 10, 13})"

abbreviation squote :: char where "squote \<equiv> CHR 0x27"
abbreviation dquote :: char where "dquote \<equiv> CHR 0x22"
abbreviation backslash :: char where "backslash \<equiv> CHR 0x5C"

text \<open>
  \<open>Escaped d\<close> is the state after a backslash, read outside quotes (\<open>d\<close> false) or between
  double quotes; inside single quotes a backslash is an ordinary character. The second
  argument is the token read so far and the third tells that part of it was quoted.
\<close>

fun shlex :: "shlex_state \<Rightarrow> string \<Rightarrow> bool \<Rightarrow> string \<Rightarrow> string list res" where
  "shlex st tok quoted [] = (case st of
      Blank \<Rightarrow> Inr []
    | Word \<Rightarrow> Inr (if tok \<noteq> [] \<or> quoted then [tok] else [])
    | Quoted q \<Rightarrow> Inl (ValueError ''No closing quotation'')
    | Escaped d \<Rightarrow> Inl (ValueError ''No escaped character''))"
| "shlex st tok quoted (c # cs) = (case st of
      Blank \<Rightarrow>
        if shlex_space c then shlex Blank tok quoted cs
        else if c = backslash then shlex (Escaped False) tok quoted cs
        else if c = squote \<or> c = dquote then shlex (Quoted c) tok quoted cs
        else shlex Word [c] quoted cs
    | Word \<Rightarrow>
        if shlex_space c
          then if tok \<noteq> [] \<or> quoted
                 then bindR (shlex Blank [] False cs) (\<lambda>ts. Inr (tok # ts))
               else shlex Blank tok quoted cs
        else if c = squote \<or> c = dquote then shlex (Quoted c) tok quoted cs
        else if c = backslash then shlex (Escaped False) tok quoted cs
        else shlex Word (tok @ [c]) quoted cs
    | Quoted q \<Rightarrow>
        if c = q then shlex Word tok True cs
        else if c = backslash \<and> q = dquote then shlex (Escaped True) tok True cs
        else shlex (Quoted q) (tok @ [c]) True cs
    | Escaped d \<Rightarrow>
        shlex (if d then Quoted dquote else Word)
          (if d \<and> c \<noteq> backslash \<and> c \<noteq> dquote then tok @ [backslash, c] else tok @ [c]) quoted cs)"

definition shlex_split :: "string \<Rightarrow> string list res" where
  "shlex_split s = shlex Blank [] False s"

definition SHELL_TOKENS :: "string list" where
  "SHELL_TOKENS = ['';'', ''&&'', ''||'', ''|'', ''>'', ''>>'', ''<'', ''2>'', ''2>>'']"

definition parse_command :: "string \<Rightarrow> string list res" where
  "parse_command command =
     (case shlex_split command of
        Inl e \<Rightarrow> Inl (PolicyError ''invalid command syntax'')
      | Inr argv \<Rightarrow>
          if argv = [] then Inl (PolicyError ''empty command'')
          else if is_absolute (hd argv) \<or> CHR ''='' \<in> set (hd argv)
            then Inl (PolicyError ''absolute executables and environment assignments are not allowed'')
          else if list_ex (\<lambda>a. a \<in> set SHELL_TOKENS) argv
            then Inl (PolicyError ''shell chaining and redirection tokens are not allowed'')
          else Inr argv)"

text \<open>\<open>Path(s).name\<close>.\<close>

definition path_name :: "string \<Rightarrow> string" where
  "path_name s = (let ps = filter (\<lambda>p. p \<noteq> [] \<and> p \<noteq> ''.'') (path_parts s)
     in if ps = [] then [] else last ps)"

record command_decision =
  cd_argv :: "string list"
  cd_capability :: string
  cd_minimum_risk :: string
  cd_referenced_paths :: "string list"

definition path_exists :: "files \<Rightarrow> string \<Rightarrow> bool" where
  "path_exists fs p = (p = ''.'' \<or> dict_get fs p \<noteq> None)"

definition unittest_flags :: "string list" where
  "unittest_flags = [''discover'', ''-v'', ''--verbose'', ''-q'', ''--quiet'', ''-f'', ''--failfast'', ''-b'', ''--buffer'']"

definition unittest_path_options :: "string list" where
  "unittest_path_options = [''-s'', ''--start-directory'', ''-t'', ''--top-level-directory'', ''-p'', ''--pattern'']"

function python_test_args :: "workspace \<Rightarrow> files \<Rightarrow> string list \<Rightarrow> string list \<Rightarrow> string list res" where
  "python_test_args ws fs [] paths = Inr (from_keys paths)"
| "python_test_args ws fs (a # args) paths =
     (if a \<in> set unittest_flags then python_test_args ws fs args paths
      else if a \<in> set unittest_path_options then
        if args = [] then Inl (PolicyError ''missing value for unittest option'')
        else if a \<notin> {''-p'', ''--pattern''}
          then bindR (canonical ws (hd args) False) (\<lambda>p. python_test_args ws fs (tl args) (paths @ [p]))
        else python_test_args ws fs (tl args) paths
      else if starts_with a ''-'' then Inl (PolicyError ''unsupported unittest option'')
      else if CHR ''/'' \<in> set a \<or> ends_with a ''.py'' \<or> starts_with a ''.''
        then bindR (canonical ws a False) (\<lambda>p. python_test_args ws fs args (paths @ [p]))
      else if a \<notin> {''discover''}
        then let module_path = replace_char (CHR ''.'') (CHR ''/'') a @ ''.py''
          in bindR (resolve_path ws module_path False) (\<lambda>r.
               if path_exists fs r
                 then bindR (canonical ws module_path False) (\<lambda>p. python_test_args ws fs args (paths @ [p]))
               else python_test_args ws fs args paths)
      else python_test_args ws fs args paths)"
  by pat_completeness auto
termination by (relation "measure (\<lambda>(ws, fs, args, paths). length args)") (auto simp: neq_Nil_conv)

fun py_compile_args :: "workspace \<Rightarrow> string list \<Rightarrow> string list \<Rightarrow> string list res" where
  "py_compile_args ws [] paths = Inr paths"
| "py_compile_args ws (a # args) paths =
     (if starts_with a ''-'' then Inl (PolicyError ''unsupported py_compile option'')
      else bindR (canonical ws a False) (\<lambda>p. py_compile_args ws args (paths @ [p])))"

definition ctest_standalone :: "string list" where
  "ctest_standalone = [''-N'', ''-V'', ''-VV'', ''--output-on-failure'', ''--stop-on-failure'']"

definition ctest_valued :: "string list" where
  "ctest_valued = [''-R'', ''-E'', ''-j'', ''--parallel'', ''--timeout'', ''--repeat'']"

function ctest_args :: "workspace \<Rightarrow> string list \<Rightarrow> string list \<Rightarrow> string list res" where
  "ctest_args ws [] paths = Inr paths"
| "ctest_args ws (a # args) paths =
     (if starts_with a ''@'' \<or> a = ''--''
        then Inl (PolicyError ''response files and native argument forwarding are not allowed'')
      else if a \<in> set ctest_standalone then ctest_args ws args paths
      else if a \<in> set ctest_valued \<or> a = ''--test-dir'' then
        if args = [] then Inl (PolicyError ''missing value for ctest option'')
        else if a = ''--test-dir''
          then bindR (canonical ws (hd args) False) (\<lambda>p. ctest_args ws (tl args) (paths @ [p]))
        else ctest_args ws (tl args) paths
      else Inl (PolicyError ''unsupported ctest option''))"
  by pat_completeness auto
termination by (relation "measure (\<lambda>(ws, args, paths). length args)") (auto simp: neq_Nil_conv)

function cmake_build_args :: "string list \<Rightarrow> unit res" where
  "cmake_build_args [] = Inr ()"
| "cmake_build_args (a # args) =
     (if starts_with a ''@'' \<or> a = ''--''
        then Inl (PolicyError ''response files and native build arguments are not allowed'')
      else if a \<in> {''--clean-first'', ''--verbose''} then cmake_build_args args
      else if a \<in> {''--parallel'', ''-j'', ''--target'', ''-t'', ''--config''} then
        if args = [] then Inl (PolicyError ''missing value for cmake build option'')
        else cmake_build_args (tl args)
      else Inl (PolicyError ''unsupported cmake build option''))"
  by pat_completeness auto
termination by (relation "measure length") (auto simp: neq_Nil_conv)

function compiler_args :: "workspace \<Rightarrow> string list \<Rightarrow> string list \<Rightarrow> string list res" where
  "compiler_args ws [] paths = Inr (from_keys paths)"
| "compiler_args ws (a # args) paths =
     (if starts_with a ''@'' then Inl (PolicyError ''response files are not allowed'')
      else if a = ''-fsyntax-only'' \<or> list_ex (starts_with a) [''-D'', ''-U'', ''-std='', ''-W'']
        then compiler_args ws args paths
      else if a \<in> {''-I'', ''-isystem'', ''-include''} then
        if args = [] then Inl (PolicyError ''missing value for compiler option'')
        else bindR (canonical ws (hd args) False) (\<lambda>p. compiler_args ws (tl args) (paths @ [p]))
      else if starts_with a ''-I'' \<and> length a > 2
        then bindR (canonical ws (drop 2 a) False) (\<lambda>p. compiler_args ws args (paths @ [p]))
      else if a = ''-x'' then
        if args = [] then Inl (PolicyError ''missing language for compiler -x'')
        else compiler_args ws (tl args) paths
      else if starts_with a ''-'' then Inl (PolicyError ''unsupported compiler option'')
      else bindR (canonical ws a False) (\<lambda>p. compiler_args ws args (paths @ [p])))"
  by pat_completeness auto
termination by (relation "measure (\<lambda>(ws, args, paths). length args)") (auto simp: neq_Nil_conv)

definition decide :: "string list \<Rightarrow> string \<Rightarrow> string \<Rightarrow> string list \<Rightarrow> command_decision" where
  "decide argv capability risk paths = \<lparr> cd_argv = argv, cd_capability = capability,
     cd_minimum_risk = risk, cd_referenced_paths = paths \<rparr>"

definition classify_command :: "workspace \<Rightarrow> files \<Rightarrow> string \<Rightarrow> command_decision res" where
  "classify_command ws fs command =
     bindR (parse_command command) (\<lambda>argv.
       let executable = path_name (hd argv); args = tl argv;
           python = executable \<in> {''python'', ''python3''} \<and> length argv \<ge> 3
       in if executable = ''git'' \<and> args \<in> {[''status'', ''--short''], [''status'']}
            then Inr (decide argv ''git.status'' ''L0'' [])
          else if executable = ''git'' \<and> args \<in> {[''diff''], [''diff'', ''--'', ''.'']}
            then Inr (decide argv ''git.diff'' ''L0'' [])
          else if python \<and> take 2 args = [''-m'', ''unittest'']
            then bindR (python_test_args ws fs (drop 2 args) []) (\<lambda>paths.
                   Inr (decide argv ''python.unittest'' ''L1'' paths))
          else if python \<and> take 2 args = [''-m'', ''py_compile'']
            then if length argv = 3 then Inl (PolicyError ''py_compile requires at least one workspace file'')
                 else bindR (py_compile_args ws (drop 2 args) []) (\<lambda>paths.
                   Inr (decide argv ''python.py_compile'' ''L1'' paths))
          else if executable = ''ctest''
            then bindR (ctest_args ws args []) (\<lambda>paths. Inr (decide argv ''ctest.run'' ''L1'' paths))
          else if executable = ''cmake'' \<and> length argv \<ge> 3 \<and> hd args = ''--build''
            then bindR (canonical ws (args ! 1) False) (\<lambda>p.
                   bindR (cmake_build_args (drop 2 args)) (\<lambda>_.
                     Inr (decide argv ''cmake.build'' ''L2'' [p])))
          else if executable \<in> {''gcc'', ''g++'', ''clang'', ''clang++''} \<and> ''-fsyntax-only'' \<in> set args
            then bindR (compiler_args ws args []) (\<lambda>paths.
                   Inr (decide argv ''compiler.syntax_check'' ''L1'' paths))
          else Inl (PolicyError ''command is not represented by an approved capability''))"

definition require_command_authority :: "command_decision \<Rightarrow> authority_manifest \<Rightarrow> unit res" where
  "require_command_authority d a =
     (let capabilities = (if cd_minimum_risk d = ''L0'' then am_read_capabilities a else am_command_capabilities a)
      in if cd_capability d \<notin> set capabilities then Inl (PolicyError ''command capability is not authorized'')
         else Inr ())"

definition require_command_scope :: "command_decision \<Rightarrow> authority_manifest \<Rightarrow> workspace \<Rightarrow> unit res" where
  "require_command_scope d a ws =
     eachR (\<lambda>p. bindR (require_scope ws p (am_allowed_paths a) (am_forbidden_paths a)) (\<lambda>_. Inr ()))
       (cd_referenced_paths d)"

section \<open>Soundness of the classifier\<close>

definition canonical_in :: "workspace \<Rightarrow> string \<Rightarrow> bool" where
  "canonical_in ws p = (\<exists>r. canonical ws r False = Inr p)"

named_theorems args_canonical \<open>the paths an argument validator collects are canonical\<close>

lemma python_test_args_canonical [args_canonical]:
  "\<forall>p \<in> set paths. canonical_in ws p \<Longrightarrow>
     yields (python_test_args ws fs args paths) (\<lambda>ps. \<forall>p \<in> set ps. canonical_in ws p)"
proof (induction ws fs args paths rule: python_test_args.induct)
  case 1
  then show ?case by (simp add: yields_Inr)
next
  case (2 ws fs a args paths)
  have new: "canonical ws r False = Inr p \<Longrightarrow> \<forall>q \<in> set (paths @ [p]). canonical_in ws q" for r p
    using "2.prems" by (auto simp: canonical_in_def)
  show ?case
    unfolding python_test_args.simps Let_def
    by (intro yields_intro; (rule "2.IH"; (assumption | rule refl | rule new "2.prems"; assumption?)))
qed

lemma py_compile_args_canonical [args_canonical]:
  "\<forall>p \<in> set paths. canonical_in ws p \<Longrightarrow>
     yields (py_compile_args ws args paths) (\<lambda>ps. \<forall>p \<in> set ps. canonical_in ws p)"
proof (induction ws args paths rule: py_compile_args.induct)
  case 1
  then show ?case by (simp add: yields_Inr)
next
  case (2 ws a args paths)
  have new: "canonical ws r False = Inr p \<Longrightarrow> \<forall>q \<in> set (paths @ [p]). canonical_in ws q" for r p
    using "2.prems" by (auto simp: canonical_in_def)
  show ?case
    unfolding py_compile_args.simps Let_def
    by (intro yields_intro; (rule "2.IH"; (assumption | rule refl | rule new "2.prems"; assumption?)))
qed

lemma ctest_args_canonical [args_canonical]:
  "\<forall>p \<in> set paths. canonical_in ws p \<Longrightarrow>
     yields (ctest_args ws args paths) (\<lambda>ps. \<forall>p \<in> set ps. canonical_in ws p)"
proof (induction ws args paths rule: ctest_args.induct)
  case 1
  then show ?case by (simp add: yields_Inr)
next
  case (2 ws a args paths)
  have new: "canonical ws r False = Inr p \<Longrightarrow> \<forall>q \<in> set (paths @ [p]). canonical_in ws q" for r p
    using "2.prems" by (auto simp: canonical_in_def)
  show ?case
    unfolding ctest_args.simps Let_def
    by (intro yields_intro; (rule "2.IH"; (assumption | rule refl | rule new "2.prems"; assumption?)))
qed

lemma compiler_args_canonical [args_canonical]:
  "\<forall>p \<in> set paths. canonical_in ws p \<Longrightarrow>
     yields (compiler_args ws args paths) (\<lambda>ps. \<forall>p \<in> set ps. canonical_in ws p)"
proof (induction ws args paths rule: compiler_args.induct)
  case 1
  then show ?case by (simp add: yields_Inr)
next
  case (2 ws a args paths)
  have new: "canonical ws r False = Inr p \<Longrightarrow> \<forall>q \<in> set (paths @ [p]). canonical_in ws q" for r p
    using "2.prems" by (auto simp: canonical_in_def)
  show ?case
    unfolding compiler_args.simps Let_def
    by (intro yields_intro; (rule "2.IH"; (assumption | rule refl | rule new "2.prems"; assumption?)))
qed

definition capability_risk :: "(string, string) dict" where
  "capability_risk = [(''git.status'', ''L0''), (''git.diff'', ''L0''), (''python.unittest'', ''L1''),
     (''python.py_compile'', ''L1''), (''ctest.run'', ''L1''), (''cmake.build'', ''L2''),
     (''compiler.syntax_check'', ''L1'')]"

definition decision_ok :: "workspace \<Rightarrow> string list \<Rightarrow> command_decision \<Rightarrow> bool" where
  "decision_ok ws argv d \<longleftrightarrow> cd_argv d = argv \<and>
     dict_get capability_risk (cd_capability d) = Some (cd_minimum_risk d) \<and>
     (\<forall>p \<in> set (cd_referenced_paths d). canonical_in ws p)"

lemma decision_ok_decide:
  "dict_get capability_risk c = Some r \<Longrightarrow> \<forall>p \<in> set ps. canonical_in ws p \<Longrightarrow>
     decision_ok ws argv (decide argv c r ps)"
  by (simp add: decision_ok_def decide_def)

lemma capability_risk_simps [simp]:
  "dict_get capability_risk ''git.status'' = Some ''L0''"
  "dict_get capability_risk ''git.diff'' = Some ''L0''"
  "dict_get capability_risk ''python.unittest'' = Some ''L1''"
  "dict_get capability_risk ''python.py_compile'' = Some ''L1''"
  "dict_get capability_risk ''ctest.run'' = Some ''L1''"
  "dict_get capability_risk ''cmake.build'' = Some ''L2''"
  "dict_get capability_risk ''compiler.syntax_check'' = Some ''L1''"
  by (simp_all add: capability_risk_def)

lemma classify_command_cases:
  "yields (classify_command ws fs command)
     (\<lambda>d. \<exists>argv. parse_command command = Inr argv \<and> decision_ok ws argv d)"
proof -
  have nil: "\<forall>p \<in> set []. canonical_in ws p" by simp
  have one: "canonical ws r False = Inr p \<Longrightarrow> \<forall>q \<in> set [p]. canonical_in ws q" for r p
    by (auto simp: canonical_in_def)
  show ?thesis
    unfolding classify_command_def Let_def
    by (intro yields_intro exI conjI; (assumption | rule decision_ok_decide;
        (simp only: capability_risk_simps; fail
        | erule one nil yieldsD [OF python_test_args_canonical [OF nil]]
            yieldsD [OF py_compile_args_canonical [OF nil]] yieldsD [OF ctest_args_canonical [OF nil]]
            yieldsD [OF compiler_args_canonical [OF nil]]
        | rule nil)))
qed

section \<open>Risk levels as an order\<close>

text \<open>The abstract view of a risk name: one of three ordered levels.\<close>

datatype risk_level = Low | Medium | High

instantiation risk_level :: linorder
begin

definition level_rank :: "risk_level \<Rightarrow> nat" where
  "level_rank l = (case l of Low \<Rightarrow> 0 | Medium \<Rightarrow> 1 | High \<Rightarrow> 2)"

definition less_eq_risk_level :: "risk_level \<Rightarrow> risk_level \<Rightarrow> bool" where
  "less_eq_risk_level a b = (level_rank a \<le> level_rank b)"

definition less_risk_level :: "risk_level \<Rightarrow> risk_level \<Rightarrow> bool" where
  "less_risk_level a b = (level_rank a < level_rank b)"

instance
  by intro_classes (auto simp: less_eq_risk_level_def less_risk_level_def level_rank_def split: risk_level.splits)

end

definition risk_level_of :: "string \<Rightarrow> risk_level" where
  "risk_level_of r = (if r = ''L0'' then Low else if r = ''L1'' then Medium else High)"

lemma risk_level_of_rank: "is_risk r \<Longrightarrow> level_rank (risk_level_of r) = risk_rank r"
  by (auto simp: is_risk_iff risk_level_of_def level_rank_def)

lemma max_risk_level:
  "is_risk a \<Longrightarrow> is_risk b \<Longrightarrow> max_risk [a, b] = Inr r \<Longrightarrow>
     risk_level_of r = max (risk_level_of a) (risk_level_of b)"
  by (auto simp: max_risk_two max_def less_eq_risk_level_def risk_level_of_rank split: if_splits)
     (auto simp: is_risk_iff)

section \<open>Properties\<close>

text \<open>The effective risk of an action refines the maximum of levels: it is the larger of the
  risk the model declared and the policy's floor, so a model can raise but never lower it; it
  is defined for every declared risk of the vocabulary and raises for any other.\<close>

lemma effective_risk_is_max:
  "(is_risk m \<longrightarrow> (\<exists>r. effective_risk m operation summary targets caps = Inr r \<and> is_risk r \<and>
      risk_level_of r = max (risk_level_of m) (risk_level_of (minimum_risk operation summary targets caps)))) \<and>
   (\<not> is_risk m \<longrightarrow> effective_risk m operation summary targets caps =
      Inl (PolicyError ''risk must be L0, L1, or L2''))"
proof (intro conjI impI)
  assume m: "is_risk m"
  then obtain r where r: "effective_risk m operation summary targets caps = Inr r"
    using effective_risk_total by blast
  then have "max_risk [m, minimum_risk operation summary targets caps] = Inr r"
    using m by (simp add: effective_risk_def)
  from max_risk_level [OF m minimum_risk_is this] r effective_risk_Inr(1) [OF r]
  show "\<exists>r. effective_risk m operation summary targets caps = Inr r \<and> is_risk r \<and>
      risk_level_of r = max (risk_level_of m) (risk_level_of (minimum_risk operation summary targets caps))"
    by blast
qed (simp add: effective_risk_def)


definition sample_decision :: command_decision where
  "sample_decision = decide [''python3'', ''-m'', ''unittest'', ''discover'', ''-s'', ''my tests''] ''python.unittest'' ''L1'' [''my tests'']"

lemma classify_sample:
  "classify_command sample_workspace [] ''python3 -m unittest discover -s \"my tests\"'' = Inr sample_decision"
  by code_simp


text \<open>The permission decision: only a risk below L2 is ever applied automatically, L1 only
  when the manifest both allows automatic application and its ceiling reaches L1; an L2
  application needs the manifest's leave, and \<open>--yolo\<close> pre-authorises only where the manifest
  allows it.\<close>

lemma permission_sound:
  assumes "is_risk risk" and "require_permission a risk yolo = Inr answer"
  shows "(answer = ''automatic'' \<longrightarrow> risk = ''L0'' \<or> (risk = ''L1'' \<and> am_allow_l1_auto_apply a \<and>
        1 \<le> risk_rank (am_max_automatic_risk a))) \<and>
    (answer = ''preauthorized'' \<longrightarrow> yolo \<and> am_allow_yolo a) \<and>
    (risk = ''L2'' \<longrightarrow> am_allow_interactive_l2 a \<and> answer \<noteq> ''automatic'') \<and>
    answer \<in> {''automatic'', ''interactive'', ''preauthorized''}"
  using assms
  by (auto simp: require_permission_def is_risk_iff bindR_Inr risk_index_def risk_rank_def dict_getd_def
      RISK_ORDER_def split: if_splits option.splits)

end
