(* ===== verification/Authority.thy ===== *)
theory Authority
  imports Workspace
begin

text \<open>
  \<open>ourd/authority.py\<close>: the authority manifest's content address, the validation every loaded
  or built manifest passes, and the manifests the agent builds itself (read-only and scoped
  write). The clock and the ISO-8601 reader of \<open>datetime.fromisoformat\<close> are parameters
  (\<open>now\<close> and \<open>read_time\<close>, seconds since the epoch with a missing zone read as UTC); the text of a
  manifest file has already been read into the record.
\<close>

definition authority_fields :: "authority_manifest \<Rightarrow> (string \<times> json) list" where
  "authority_fields m = [
     (''schema_version'', JInt (am_schema_version m)), (''task_id'', JStr (am_task_id m)),
     (''goal'', JStr (am_goal m)), (''source_snapshot_hash'', JStr (am_source_snapshot_hash m)),
     (''allowed_paths'', jstrs (am_allowed_paths m)), (''forbidden_paths'', jstrs (am_forbidden_paths m)),
     (''read_capabilities'', jstrs (am_read_capabilities m)),
     (''command_capabilities'', jstrs (am_command_capabilities m)),
     (''semantic_capability_ceiling'', JStr (am_semantic_capability_ceiling m)),
     (''semantic_capabilities'', jstrs (am_semantic_capabilities m)),
     (''max_retries_per_action'', JInt (am_max_retries_per_action m)),
     (''max_automatic_risk'', JStr (am_max_automatic_risk m)),
     (''allow_l1_auto_apply'', JBool (am_allow_l1_auto_apply m)),
     (''allow_interactive_l2'', JBool (am_allow_interactive_l2 m)),
     (''allow_yolo'', JBool (am_allow_yolo m)), (''mandatory_tests'', jstrs (am_mandatory_tests m)),
     (''mandatory_evidence'', jstrs (am_mandatory_evidence m)), (''expires_at'', JStr (am_expires_at m)),
     (''operator'', JStr (am_operator m)), (''read_only'', JBool (am_read_only m))]"

definition authority_payload :: "authority_manifest \<Rightarrow> json" where
  "authority_payload m = JObj (authority_fields m)"

definition finalize_authority :: "digest \<Rightarrow> authority_manifest \<Rightarrow> authority_manifest" where
  "finalize_authority H m = m\<lparr>am_authority_hash := stable_hash H (authority_payload m)\<rparr>"

definition read_only_authority :: "digest \<Rightarrow> string \<Rightarrow> authority_manifest" where
  "read_only_authority H snap =
     finalize_authority H (default_authority\<lparr>am_source_snapshot_hash := snap, am_read_only := True\<rparr>)"

definition validate_authority ::
  "(string \<Rightarrow> int option) \<Rightarrow> int \<Rightarrow> string \<Rightarrow> bool \<Rightarrow> authority_manifest \<Rightarrow> unit res" where
  "validate_authority read_time now snap check_snapshot m =
     (if am_schema_version m \<noteq> 1 then Inl (PolicyError ''unsupported authority schema'')
      else if \<not> is_risk (am_max_automatic_risk m)
        then Inl (PolicyError ''max_automatic_risk must be L0, L1, or L2'')
      else if am_semantic_capability_ceiling m \<notin> {''C0'', ''C1'', ''C2'', ''C3'', ''C4'', ''C5''}
        then Inl (PolicyError ''semantic_capability_ceiling must be C0, C1, C2, C3, C4, or C5'')
      else if \<not> (0 \<le> am_max_retries_per_action m \<and> am_max_retries_per_action m \<le> 10)
        then Inl (PolicyError ''max_retries_per_action must be between 0 and 10'')
      else if strip (am_task_id m) = [] \<or> strip (am_goal m) = []
        then Inl (PolicyError ''authority task_id and goal are required'')
      else if am_allowed_paths m = [] then Inl (PolicyError ''authority allowed_paths cannot be empty'')
      else if list_ex (\<lambda>p. is_absolute p \<or> CHR 0x00 \<in> set p) (am_allowed_paths m @ am_forbidden_paths m)
        then Inl (PolicyError ''invalid authority path pattern'')
      else bindR (if am_expires_at m \<noteq> []
          then (case read_time (am_expires_at m) of
                 None \<Rightarrow> Inl (PolicyError ''authority expires_at must be ISO-8601'')
               | Some expiry \<Rightarrow>
                   if expiry \<le> now then Inl (PolicyError ''authority manifest has expired'') else Inr ())
          else Inr ()) (\<lambda>_.
        if check_snapshot \<and> am_source_snapshot_hash m \<noteq> [] \<and> am_source_snapshot_hash m \<noteq> snap
          then Inl (PolicyError ''authority source snapshot mismatch'')
        else if \<not> am_read_only m \<and> am_source_snapshot_hash m = []
          then Inl (PolicyError ''mutation authority requires source_snapshot_hash'')
        else if am_read_only m \<and> (am_allow_l1_auto_apply m \<or> am_allow_interactive_l2 m \<or>
            am_allow_yolo m \<or> am_command_capabilities m \<noteq> [])
          then Inl (PolicyError ''read-only authority cannot grant mutation capabilities'')
        else if am_read_only m \<and> am_semantic_capability_ceiling m \<in> {''C3'', ''C4'', ''C5''}
          then Inl (PolicyError ''read-only authority cannot grant C3-C5 semantic capabilities'')
        else Inr ()))"

definition scoped_write_authority ::
  "digest \<Rightarrow> (string \<Rightarrow> int option) \<Rightarrow> int \<Rightarrow> string \<Rightarrow> string list \<Rightarrow> string \<Rightarrow> string \<Rightarrow> string list \<Rightarrow>
   string list \<Rightarrow> bool \<Rightarrow> int \<Rightarrow> authority_manifest res" where
  "scoped_write_authority H read_time now snap allowed_paths goal operator command_capabilities
       mandatory_tests allow_interactive_l2 max_retries =
     bindR (foldR (\<lambda>raw acc.
         let path = strip raw
         in if path = [] then Inr acc
            else if is_absolute path \<or> CHR 0x00 \<in> set path then Inl (PolicyError ''invalid write path pattern'')
            else Inr (acc @ [replace_char CHR 0x5C (CHR ''/'') path])) allowed_paths []) (\<lambda>paths.
       let paths = from_keys paths
       in if paths = [] then Inl (PolicyError ''bounded write authority requires at least one allowed path'')
          else let manifest = default_authority\<lparr>
              am_task_id := ''cli-write'',
              am_goal := (if strip goal \<noteq> [] then strip goal else ''Human-authorized bounded writing session''),
              am_source_snapshot_hash := snap,
              am_allowed_paths := paths,
              am_forbidden_paths := [''.ourd-agent/**''],
              am_command_capabilities := from_keys (filter (\<lambda>v. v \<noteq> []) command_capabilities),
              am_semantic_capability_ceiling := ''C3'',
              am_semantic_capabilities := [''filesystem.write''],
              am_max_retries_per_action := max 0 (min max_retries 10),
              am_max_automatic_risk := ''L0'',
              am_allow_l1_auto_apply := False,
              am_allow_interactive_l2 := allow_interactive_l2,
              am_allow_yolo := False,
              am_mandatory_tests := from_keys (filter (\<lambda>v. v \<noteq> []) mandatory_tests),
              am_mandatory_evidence := [],
              am_operator := (if strip operator \<noteq> [] then strip operator else ''cli-user''),
              am_read_only := False\<rparr>
            in bindR (validate_authority read_time now snap True manifest) (\<lambda>_.
                 Inr (finalize_authority H manifest)))"

text \<open>\<open>load_authority\<close> once the file has been parsed into a manifest.\<close>

definition load_authority ::
  "digest \<Rightarrow> (string \<Rightarrow> int option) \<Rightarrow> int \<Rightarrow> string \<Rightarrow> bool \<Rightarrow> authority_manifest \<Rightarrow> authority_manifest res" where
  "load_authority H read_time now snap allow_snapshot_mismatch m =
     bindR (validate_authority read_time now snap (\<not> allow_snapshot_mismatch) m) (\<lambda>_.
       Inr (finalize_authority H m))"

section \<open>What validation guarantees\<close>

definition authority_ok :: "authority_manifest \<Rightarrow> bool" where
  "authority_ok m \<longleftrightarrow>
     is_risk (am_max_automatic_risk m) \<and> 0 \<le> am_max_retries_per_action m \<and>
     am_max_retries_per_action m \<le> 10 \<and> am_allowed_paths m \<noteq> [] \<and>
     (\<forall>p \<in> set (am_allowed_paths m @ am_forbidden_paths m). \<not> is_absolute p \<and> CHR 0x00 \<notin> set p) \<and>
     (am_read_only m \<longrightarrow> \<not> am_allow_l1_auto_apply m \<and> \<not> am_allow_interactive_l2 m \<and>
        \<not> am_allow_yolo m \<and> am_command_capabilities m = [] \<and>
        am_semantic_capability_ceiling m \<notin> {''C3'', ''C4'', ''C5''}) \<and>
     (\<not> am_read_only m \<longrightarrow> am_source_snapshot_hash m \<noteq> [])"

lemma validate_authority_ok:
  "yields (validate_authority read_time now snap check m) (\<lambda>_. authority_ok m \<and>
     (check \<longrightarrow> am_source_snapshot_hash m = [] \<or> am_source_snapshot_hash m = snap) \<and>
     (am_expires_at m \<noteq> [] \<longrightarrow> (\<exists>t. read_time (am_expires_at m) = Some t \<and> now < t)))"
  unfolding validate_authority_def
  by (intro yields_intro) (auto simp: authority_ok_def list_ex_iff split: if_splits option.splits)

lemma authority_payload_hash [simp]: "authority_payload (m\<lparr>am_authority_hash := h\<rparr>) = authority_payload m"
  by (simp add: authority_payload_def authority_fields_def)

lemma authority_ok_finalize [simp]: "authority_ok (finalize_authority H m) = authority_ok m"
  by (simp add: authority_ok_def finalize_authority_def)

lemma finalize_authority_hash:
  "am_authority_hash (finalize_authority H m) = stable_hash H (authority_payload (finalize_authority H m))"
  by (simp add: finalize_authority_def)

lemma finalize_authority_idem: "finalize_authority H (finalize_authority H m) = finalize_authority H m"
  by (simp add: finalize_authority_def)

text \<open>The address of a manifest binds every field but itself.\<close>

lemma authority_faithful:
  "norm_json (authority_payload m) = norm_json (authority_payload n) \<Longrightarrow>
   m\<lparr>am_authority_hash := []\<rparr> = n\<lparr>am_authority_hash := []\<rparr>"
  unfolding authority_payload_def
  by (subst (asm) norm_obj_eq) (auto simp: authority_fields_def intro: authority_manifest.equality)

interpretation authority_address: content_address authority_payload "\<lambda>m. m\<lparr>am_authority_hash := []\<rparr>" "\<lambda>_. True"
  by unfold_locales (rule authority_faithful)

lemma finalized_eq:
  assumes "inj_on H {canonical_json (authority_payload m), canonical_json (authority_payload n)}"
    and "am_authority_hash (finalize_authority H m) = am_authority_hash (finalize_authority H n)"
  shows "finalize_authority H m = finalize_authority H n"
proof -
  have "m\<lparr>am_authority_hash := []\<rparr> = n\<lparr>am_authority_hash := []\<rparr>"
    using assms authority_address.address_binds [where x = m and y = n and H = H] by (simp add: finalize_authority_def)
  then have "(m\<lparr>am_authority_hash := []\<rparr>)\<lparr>am_authority_hash := h\<rparr> = (n\<lparr>am_authority_hash := []\<rparr>)\<lparr>am_authority_hash := h\<rparr>" for h
    by simp
  with assms(2) show ?thesis by (simp add: finalize_authority_def)
qed

section \<open>Scoped write authority\<close>

lemma write_paths_from:
  "yields (foldR (\<lambda>raw acc.
         let path = strip raw
         in if path = [] then Inr acc
            else if is_absolute path \<or> CHR 0x00 \<in> set path then Inl (PolicyError ''invalid write path pattern'')
            else Inr (acc @ [replace_char CHR 0x5C (CHR ''/'') path])) raws [])
     (\<lambda>ps. \<forall>p \<in> set ps. \<exists>r \<in> set raws. p = replace_char CHR 0x5C (CHR ''/'') (strip r))"
  by (rule yields_foldR) (auto simp: Let_def intro!: yields_intro)

lemma scoped_write_authority_cases:
  "yields (scoped_write_authority H read_time now snap raws goal operator caps tests l2 retries) (\<lambda>m.
     authority_ok m \<and> am_read_only m = False \<and> am_allow_yolo m = False \<and> am_allow_l1_auto_apply m = False \<and>
     am_max_automatic_risk m = ''L0'' \<and> am_allow_interactive_l2 m = l2 \<and>
     am_forbidden_paths m = [''.ourd-agent/**''] \<and> am_source_snapshot_hash m = snap \<and>
     am_authority_hash m = stable_hash H (authority_payload m) \<and>
     (\<forall>p \<in> set (am_allowed_paths m). \<exists>r \<in> set raws. p = replace_char CHR 0x5C (CHR ''/'') (strip r)))"
proof -
  have ok: "authority_ok m" if "validate_authority read_time now snap True m = Inr u" for m u
    using yieldsD [OF validate_authority_ok that] by simp
  show ?thesis
    unfolding scoped_write_authority_def Let_def
    by (intro yields_intro conjI; (rule finalize_authority_hash
        | (simp only: authority_ok_finalize, erule ok)
        | (simp add: finalize_authority_def; fail)
        | (simp add: finalize_authority_def, erule yieldsD [OF write_paths_from [unfolded Let_def]])))
qed

section \<open>Properties\<close>

text \<open>C5. Least privilege of the write authority the CLI builds: it has passed validation, never
  grants \<open>--yolo\<close> or automatic L1 application, keeps the automatic ceiling at L0, allows L2
  only on request, excludes the agent's directory, is tied to the current snapshot, carries
  its own content address, and allows no path pattern the caller did not supply.\<close>

theorem scoped_write_least_privilege:
  assumes "scoped_write_authority H read_time now snap raws goal operator caps tests l2 retries = Inr m"
  shows "authority_ok m \<and> \<not> am_read_only m \<and> \<not> am_allow_yolo m \<and> \<not> am_allow_l1_auto_apply m \<and>
    am_max_automatic_risk m = ''L0'' \<and> am_allow_interactive_l2 m = l2 \<and>
    am_forbidden_paths m = [''.ourd-agent/**''] \<and> am_source_snapshot_hash m = snap \<and>
    am_authority_hash m = stable_hash H (authority_payload m) \<and>
    (\<forall>p \<in> set (am_allowed_paths m). \<exists>r \<in> set raws. p = replace_char CHR 0x5C (CHR ''/'') (strip r))"
  using yieldsD [OF scoped_write_authority_cases assms] by blast

theorem scoped_write_least_privilege_witness:
  "\<exists>m. scoped_write_authority (\<lambda>s. s) (\<lambda>_. None) 0 ''snap'' [''src/**''] ''goal'' [] [] [] False 3 = Inr m \<and>
     authority_ok m \<and> \<not> am_allow_yolo m"
proof -
  have "\<exists>m. scoped_write_authority (\<lambda>s. s) (\<lambda>_. None) 0 ''snap'' [''src/**''] ''goal'' [] [] [] False 3 = Inr m"
    by (simp add: scoped_write_authority_def validate_authority_def default_authority_def is_risk_iff
        strip_def lstrip_def rstrip_def is_space_def is_absolute_def starts_with_def replace_char_def
        from_keys_def Let_def)
  with scoped_write_least_privilege show ?thesis by blast
qed

text \<open>Every manifest that loading returns has passed validation: a known risk ceiling, at
  most ten retries, relative path patterns, no mutation grant on a read-only manifest, a
  source snapshot on a mutating one that is the current snapshot unless the caller asked for
  a mismatch to be ignored, and an expiry in the future.\<close>

lemma load_authority_validated:
  assumes "load_authority H read_time now snap ignore m = Inr a"
  shows "authority_ok a \<and> a = finalize_authority H m \<and>
    (\<not> ignore \<longrightarrow> am_source_snapshot_hash a = [] \<or> am_source_snapshot_hash a = snap) \<and>
    (am_expires_at a \<noteq> [] \<longrightarrow> (\<exists>t. read_time (am_expires_at a) = Some t \<and> now < t))"
proof -
  from assms obtain u where v: "validate_authority read_time now snap (\<not> ignore) m = Inr u"
    and a: "a = finalize_authority H m" by (auto simp: load_authority_def bindR_Inr)
  from yieldsD [OF validate_authority_ok v] a show ?thesis by (simp add: finalize_authority_def authority_ok_def)
qed

text \<open>The authority hash binds the manifest: two finalised manifests with the same hash are
  the same manifest, as long as the digest does not collide on their two serialisations.\<close>

lemma authority_hash_binds:
  assumes "inj_on H {canonical_json (authority_payload m), canonical_json (authority_payload n)}"
    and "am_authority_hash (finalize_authority H m) = am_authority_hash (finalize_authority H n)"
  shows "finalize_authority H m = finalize_authority H n"
  using assms by (rule finalized_eq)

end
