(* ===== verification/Oiec.thy ===== *)
theory Oiec
  imports Policy Authority
begin

text \<open>
  \<open>ourd/oiec.py\<close>: the operational boundary, the dimension budget, the finite evidence lattice,
  progress certificates, collision severity and the bounded transition kernel that prepares
  an action and accepts its observation. All scores are integers; the float helpers
  (\<open>binary_entropy\<close>, \<open>collision_severity\<close>, \<open>quantize_continuous\<close>) are left out. The state
  of the workspace enters as its snapshot hash and its path layout.
\<close>

section \<open>Scores\<close>

definition oiec_score :: "int \<Rightarrow> string \<Rightarrow> bool \<Rightarrow> int res" where
  "oiec_score v label signed =
     (if (if signed then - SCORE_SCALE else 0) \<le> v \<and> v \<le> SCORE_SCALE then Inr v
      else Inl (PolicyError label))"

lemma oiec_score_Inr [res_simps]:
  "oiec_score v l s = Inr w \<longleftrightarrow> w = v \<and> (if s then - SCORE_SCALE else 0) \<le> v \<and> v \<le> SCORE_SCALE"
  by (auto simp: oiec_score_def)

definition membership_uncertainty_bp :: "int \<Rightarrow> int res" where
  "membership_uncertainty_bp p =
     bindR (oiec_score p ''boundary membership'' False) (\<lambda>p. Inr (SCORE_SCALE - \<bar>2 * p - SCORE_SCALE\<bar>))"

definition dimension_utility :: "int \<Rightarrow> int \<Rightarrow> int \<Rightarrow> int \<Rightarrow> int \<Rightarrow> int res" where
  "dimension_utility information goal orthogonality cost risk =
     bindR (oiec_score information ''dimension information'' False) (\<lambda>information.
     bindR (oiec_score goal ''dimension goal contribution'' False) (\<lambda>goal.
     bindR (oiec_score orthogonality ''dimension orthogonality'' False) (\<lambda>orthogonality.
     bindR (oiec_score cost ''dimension cost'' False) (\<lambda>cost.
     bindR (oiec_score risk ''dimension risk'' False) (\<lambda>risk.
       Inr ((35 * information + 30 * goal + 20 * orthogonality - 8 * cost - 7 * risk) div 100))))))"

definition collision_severity_bp ::
  "int \<Rightarrow> int \<Rightarrow> int \<Rightarrow> int \<Rightarrow> int \<Rightarrow> int \<Rightarrow> bool \<Rightarrow> bool \<Rightarrow> int res" where
  "collision_severity_bp surprise invariant boundary dimension repeat conflict
       critical_boundary critical_invariant =
     (if critical_boundary \<or> critical_invariant then Inr SCORE_SCALE
      else bindR (oiec_score surprise ''collision surprise'' False) (\<lambda>surprise.
           bindR (oiec_score invariant ''collision invariant violation'' False) (\<lambda>invariant.
           bindR (oiec_score boundary ''collision boundary violation'' False) (\<lambda>boundary.
           bindR (oiec_score dimension ''collision dimension leakage'' False) (\<lambda>dimension.
           bindR (oiec_score repeat ''collision repeat pressure'' False) (\<lambda>repeat.
           bindR (oiec_score conflict ''collision evidence conflict'' False) (\<lambda>conflict.
             let v = (20 * surprise + 25 * invariant + 25 * boundary + 10 * dimension
                      + 10 * repeat + 10 * conflict) div 100
             in Inr (min SCORE_SCALE (max 0 v)))))))))"

definition boundary_proximity_risk :: "int \<Rightarrow> int res" where
  "boundary_proximity_risk p = membership_uncertainty_bp p"

definition dimension_leakage :: "string list \<Rightarrow> string list \<Rightarrow> string list" where
  "dimension_leakage expected observed = sorted_set (filter (\<lambda>d. d \<notin> set expected) observed)"

definition convergence_score :: "int \<Rightarrow> int \<Rightarrow> int \<Rightarrow> int res" where
  "convergence_score goal_loss uncertainty risk =
     bindR (oiec_score goal_loss ''goal loss'' False) (\<lambda>g.
     bindR (oiec_score uncertainty ''unresolved uncertainty'' False) (\<lambda>u.
     bindR (oiec_score risk ''residual risk'' False) (\<lambda>r.
       Inr (SCORE_SCALE - (g + u + r) div 3))))"

lemma membership_uncertainty_scale:
  "yields (membership_uncertainty_bp p) in_scale"
  unfolding membership_uncertainty_bp_def by (intro yields_intro) (auto simp: oiec_score_Inr)

lemma collision_severity_scale:
  "yields (collision_severity_bp s i b d r c cb ci) in_scale"
  unfolding collision_severity_bp_def Let_def by (intro yields_intro) auto

lemma convergence_score_scale: "yields (convergence_score g u r) in_scale"
  unfolding convergence_score_def by (intro yields_intro) (auto simp: oiec_score_Inr)

lemma dimension_utility_range:
  "yields (dimension_utility i g w c r) (\<lambda>u. - 1500 \<le> u \<and> u \<le> 8500)"
  unfolding dimension_utility_def by (intro yields_intro) (auto simp: oiec_score_Inr)

text \<open>The clamp in the severity never acts: the weights sum to one hundred.\<close>

lemma collision_severity_exact:
  assumes "in_scale s" "in_scale i" "in_scale b" "in_scale d" "in_scale r" "in_scale c"
  shows "collision_severity_bp s i b d r c False False =
    Inr ((20 * s + 25 * i + 25 * b + 10 * d + 10 * r + 10 * c) div 100)"
proof -
  let ?x = "20 * s + 25 * i + 25 * b + 10 * d + 10 * r + 10 * c"
  have "0 \<le> ?x" "?x \<le> 1000000" using assms by linarith+
  then have "0 \<le> ?x div 100" "?x div 100 \<le> SCORE_SCALE" by simp_all
  then show ?thesis using assms by (simp add: collision_severity_bp_def oiec_score_def Let_def)
qed

section \<open>Boundary\<close>

definition boundary_payload ::
  "authority_manifest \<Rightarrow> governance_record \<Rightarrow> string \<Rightarrow> (string \<times> int) list \<Rightarrow> int \<Rightarrow> json" where
  "boundary_payload a g snap members uncertainty = JObj [
     (''authority_hash'', JStr (am_authority_hash a)), (''source_snapshot_hash'', JStr snap),
     (''semantic_objects'', jstrs (canonical_strings (gv_objects g))),
     (''semantic_relations'', jstrs (canonical_strings (gv_relations g))),
     (''authority_allowed'', jstrs (canonical_strings (am_allowed_paths a))),
     (''authority_forbidden'', jstrs (canonical_strings (am_forbidden_paths a))),
     (''governance_allowed'', jstrs (canonical_strings (gv_allowed_paths g))),
     (''governance_excluded'', jstrs (canonical_strings (gv_excluded_scope g))),
     (''dimensions'', jstrs (canonical_strings (gv_dimensions g))),
     (''membership'', JList (map (\<lambda>(n, p). JList [JStr n, JInt p]) members)),
     (''uncertainty'', JInt uncertainty)]"

definition build_boundary ::
  "digest \<Rightarrow> governance_record \<Rightarrow> authority_manifest \<Rightarrow> string \<Rightarrow> (string, int) dict \<Rightarrow> boundary_state res" where
  "build_boundary H g a snap memberships =
     (if \<not> gv_established g then Inl (PolicyError ''established mutation governance is required'')
      else if gv_authority_hash g \<noteq> am_authority_hash a then Inl (PolicyError ''governance authority hash mismatch'')
      else let objects = canonical_strings (gv_objects g); relations = canonical_strings (gv_relations g)
        in bindR (mapR (\<lambda>item. bindR (oiec_score (dict_getd memberships item SCORE_SCALE) ''boundary membership'' False)
                   (\<lambda>p. Inr (item, p))) (objects @ relations)) (\<lambda>items.
           bindR (mapR (\<lambda>(_, p). membership_uncertainty_bp p) items) (\<lambda>us.
             let uncertainty = (if items \<noteq> [] then sum_list us div int (length items) else 0)
             in boundary_post_init \<lparr>
                  bs_schema_version = 1, bs_authority_hash = am_authority_hash a,
                  bs_source_snapshot_hash = snap, bs_semantic_objects = objects,
                  bs_semantic_relations = relations,
                  bs_authority_allowed_patterns = canonical_strings (am_allowed_paths a),
                  bs_authority_forbidden_patterns = canonical_strings (am_forbidden_paths a),
                  bs_governance_allowed_patterns = canonical_strings (gv_allowed_paths g),
                  bs_governance_excluded_patterns = canonical_strings (gv_excluded_scope g),
                  bs_experimental_dimensions = canonical_strings (gv_dimensions g),
                  bs_semantic_membership_bp = items, bs_boundary_uncertainty_bp = uncertainty,
                  bs_signature = stable_hash H (boundary_payload a g snap items uncertainty) \<rparr>)))"

definition require_boundary_target :: "workspace \<Rightarrow> boundary_state \<Rightarrow> string \<Rightarrow> string res" where
  "require_boundary_target ws b target =
     bindR (require_scope ws target (bs_authority_allowed_patterns b) (bs_authority_forbidden_patterns b)) (\<lambda>t.
       if bs_governance_allowed_patterns b = []
         then Inl (PolicyError ''established mutation governance has no operational boundary'')
       else require_scope ws t (bs_governance_allowed_patterns b) (bs_governance_excluded_patterns b))"

definition require_dimension_action :: "dimension_budget \<Rightarrow> string list \<Rightarrow> unit res" where
  "require_dimension_action d varied_dimensions =
     (let varied = canonical_strings varied_dimensions
      in if int (length varied) > db_max_interaction_order d
           then Inl (PolicyError ''IURM interaction-order limit exceeded'')
         else if \<not> set varied \<subseteq> set (db_selected_dimensions d)
           then Inl (PolicyError ''action varies non-admitted dimensions'')
         else Inr ())"

text \<open>
  A target inside the boundary is inside both the authority and the governance scope, and
  outside everything either excludes.
\<close>

lemma require_boundary_target_Inr:
  assumes "workspace_ok ws" and "require_boundary_target ws b target = Inr p"
  shows "require_scope ws target (bs_authority_allowed_patterns b) (bs_authority_forbidden_patterns b) = Inr p \<and>
    require_scope ws target (bs_governance_allowed_patterns b) (bs_governance_excluded_patterns b) = Inr p"
proof -
  from assms(2) have "bindR (require_scope ws target (bs_authority_allowed_patterns b) (bs_authority_forbidden_patterns b))
      (\<lambda>t. require_scope ws t (bs_governance_allowed_patterns b) (bs_governance_excluded_patterns b)) = Inr p"
    by (auto simp: require_boundary_target_def bindR_Inr split: if_splits)
  with ws_scope.two_stage [OF assms(1)] show ?thesis by blast
qed

lemma boundary_post_init_fields:
  "yields (boundary_post_init b) (\<lambda>c.
     bs_authority_hash c = bs_authority_hash b \<and> bs_source_snapshot_hash c = bs_source_snapshot_hash b \<and>
     bs_semantic_objects c = canonical_strings (bs_semantic_objects b) \<and>
     bs_semantic_relations c = canonical_strings (bs_semantic_relations b) \<and>
     bs_authority_allowed_patterns c = canonical_strings (bs_authority_allowed_patterns b) \<and>
     bs_authority_forbidden_patterns c = canonical_strings (bs_authority_forbidden_patterns b) \<and>
     bs_governance_allowed_patterns c = canonical_strings (bs_governance_allowed_patterns b) \<and>
     bs_governance_excluded_patterns c = canonical_strings (bs_governance_excluded_patterns b) \<and>
     bs_experimental_dimensions c = canonical_strings (bs_experimental_dimensions b) \<and>
     in_scale (bs_boundary_uncertainty_bp c))"
  unfolding boundary_post_init_def by (intro yields_intro) auto

lemma build_boundary_fields:
  "yields (build_boundary H g a snap ms) (\<lambda>b.
     gv_established g \<and> gv_authority_hash g = am_authority_hash a \<and>
     bs_authority_hash b = am_authority_hash a \<and> bs_source_snapshot_hash b = snap \<and>
     set (bs_authority_allowed_patterns b) = set (am_allowed_paths a) - {[]} \<and>
     set (bs_authority_forbidden_patterns b) = set (am_forbidden_paths a) - {[]} \<and>
     set (bs_governance_allowed_patterns b) = set (gv_allowed_paths g) - {[]} \<and>
     set (bs_governance_excluded_patterns b) = set (gv_excluded_scope g) - {[]} \<and>
     in_scale (bs_boundary_uncertainty_bp b))"
  unfolding build_boundary_def Let_def
  by (intro yields_intro yields_mono [OF boundary_post_init_fields]) auto

section \<open>Finite evidence\<close>

definition evidence_payload :: "string list \<Rightarrow> int \<Rightarrow> int \<Rightarrow> int list \<Rightarrow> string list \<Rightarrow> json" where
  "evidence_payload atoms present conflict qualities representatives = JObj [
     (''atoms'', jstrs atoms), (''present_mask'', JInt present), (''conflict_mask'', JInt conflict),
     (''quality_bp'', JList (map JInt qualities)), (''representative_ids'', jstrs representatives)]"

definition make_evidence ::
  "digest \<Rightarrow> string list \<Rightarrow> int \<Rightarrow> int \<Rightarrow> int list \<Rightarrow> string list \<Rightarrow> finite_evidence" where
  "make_evidence H atoms present conflict qualities representatives = \<lparr>
     fe_schema_version = 1, fe_atoms = atoms, fe_present_mask = present, fe_conflict_mask = conflict,
     fe_quality_bp = qualities, fe_representative_ids = representatives,
     fe_signature = stable_hash H (evidence_payload atoms present conflict qualities representatives) \<rparr>"

definition empty_evidence_state :: "digest \<Rightarrow> string list \<Rightarrow> finite_evidence res" where
  "empty_evidence_state H atoms =
     (let as = canonical_strings atoms
      in evidence_state_post_init
           (make_evidence H as 0 0 (replicate (length as) 0) (replicate (length as) [])))"

definition index_of :: "string \<Rightarrow> string list \<Rightarrow> nat" where
  "index_of x xs = length (takeWhile (\<lambda>y. y \<noteq> x) xs)"

definition update_evidence ::
  "digest \<Rightarrow> finite_evidence \<Rightarrow> string \<Rightarrow> string \<Rightarrow> int \<Rightarrow> bool \<Rightarrow> finite_evidence res" where
  "update_evidence H s atom artifact quality conflict =
     (if atom \<notin> set (fe_atoms s) then Inl (PolicyError ''evidence atom outside finite universe'')
      else bindR (oiec_score quality ''evidence quality'' False) (\<lambda>quality.
        let index = index_of atom (fe_atoms s);
            old_quality = fe_quality_bp s ! index;
            old_representative = fe_representative_ids s ! index;
            (q, r) = (if quality > old_quality then (quality, artifact)
                      else if quality = old_quality \<and> artifact \<noteq> [] \<and>
                              (old_representative = [] \<or> artifact < old_representative)
                        then (old_quality, artifact)
                      else (old_quality, old_representative));
            present = or (fe_present_mask s) (2 ^ index);
            conflicted = or (fe_conflict_mask s) (if conflict then 2 ^ index else 0)
        in evidence_state_post_init (make_evidence H (fe_atoms s) present conflicted
             ((fe_quality_bp s)[index := q]) ((fe_representative_ids s)[index := r]))))"

definition evidence_mass :: "finite_evidence \<Rightarrow> int" where
  "evidence_mass s = sum_list (map snd (filter (\<lambda>(i, q). bit (fe_present_mask s) i)
     (enumerate 0 (fe_quality_bp s))))"

text \<open>
  What an update does to a cell (best quality, representative): the join of two cells, the
  better quality winning and the smaller non-empty representative on a tie.
\<close>

definition cell_join :: "int \<times> string \<Rightarrow> int \<times> string \<Rightarrow> int \<times> string" where
  "cell_join old new =
     (if fst new > fst old then new
      else if fst new = fst old \<and> snd new \<noteq> [] \<and> (snd old = [] \<or> snd new < snd old) then (fst old, snd new)
      else old)"

text \<open>
  A join of a bounded evidence store: with the three laws below, absorbing a list of
  observations into a cell does not depend on their order or multiplicity.
\<close>

locale evidence_join =
  fixes join :: "'c \<Rightarrow> 'c \<Rightarrow> 'c"
  assumes join_comm: "join x y = join y x"
    and join_assoc: "join (join x y) z = join x (join y z)"
    and join_idem: "join x x = x"
begin

lemma absorb_swap: "join (join x a) b = join (join x b) a"
  by (metis join_assoc join_comm)

lemma absorb_again: "join (join x a) a = join x a"
  by (simp add: join_assoc join_idem)

end

interpretation cell: evidence_join cell_join
proof
  show "cell_join x y = cell_join y x" for x y
    by (cases x; cases y) (auto simp: cell_join_def)
  show "cell_join (cell_join x y) z = cell_join x (cell_join y z)" for x y z
    by (cases x; cases y; cases z) (auto simp: cell_join_def)
  show "cell_join x x = x" for x
    by (cases x) (auto simp: cell_join_def)
qed

text \<open>One observation: atom, artifact, quality, conflict. Its effect as a total function.\<close>

type_synonym observation = "string \<times> string \<times> int \<times> bool"

definition put_evidence :: "digest \<Rightarrow> observation \<Rightarrow> finite_evidence \<Rightarrow> finite_evidence" where
  "put_evidence H ob s = (case ob of (atom, artifact, quality, conflict) \<Rightarrow>
     let i = index_of atom (fe_atoms s);
         cell = cell_join (fe_quality_bp s ! i, fe_representative_ids s ! i) (quality, artifact)
     in make_evidence H (fe_atoms s) (or (fe_present_mask s) (2 ^ i))
          (or (fe_conflict_mask s) (if conflict then 2 ^ i else 0))
          ((fe_quality_bp s)[i := fst cell]) ((fe_representative_ids s)[i := snd cell]))"

definition observation_ok :: "string list \<Rightarrow> observation \<Rightarrow> bool" where
  "observation_ok atoms ob = (case ob of (atom, artifact, quality, conflict) \<Rightarrow>
     atom \<in> set atoms \<and> in_scale quality)"

lemma index_of_less: "x \<in> set xs \<Longrightarrow> index_of x xs < length xs"
  unfolding index_of_def by (induction xs) auto

lemma index_of_nth: "x \<in> set xs \<Longrightarrow> xs ! index_of x xs = x"
  unfolding index_of_def by (induction xs) auto

lemma index_of_eq: "x \<in> set xs \<Longrightarrow> y \<in> set xs \<Longrightarrow> index_of x xs = index_of y xs \<longleftrightarrow> x = y"
  by (metis index_of_nth)

lemma put_evidence_atoms [simp]: "fe_atoms (put_evidence H ob s) = fe_atoms s"
  by (cases ob) (simp add: put_evidence_def make_evidence_def Let_def)

lemma cell_join_scale: "in_scale (fst a) \<Longrightarrow> in_scale (fst b) \<Longrightarrow> in_scale (fst (cell_join a b))"
  by (auto simp: cell_join_def)

lemma put_evidence_ok:
  assumes s: "evidence_state_ok s" and ob: "observation_ok (fe_atoms s) ob"
  shows "evidence_state_ok (put_evidence H ob s)"
proof -
  obtain atom artifact quality conflict where o: "ob = (atom, artifact, quality, conflict)" by (cases ob)
  let ?i = "index_of atom (fe_atoms s)"
  have i: "?i < length (fe_atoms s)" and q: "in_scale quality"
    using ob o index_of_less by (auto simp: observation_ok_def)
  let ?c = "cell_join (fe_quality_bp s ! ?i, fe_representative_ids s ! ?i) (quality, artifact)"
  have "in_scale (fe_quality_bp s ! ?i)" using s i by (auto simp: evidence_state_ok_def)
  then have c: "in_scale (fst ?c)" using q by (intro cell_join_scale) simp_all
  have all: "in_scale x" if "x \<in> set ((fe_quality_bp s)[?i := fst ?c])" for x
    using that set_update_subset_insert [of "fe_quality_bp s" ?i "fst ?c"] c s
    by (auto simp: evidence_state_ok_def)
  have bits: "j < length (fe_atoms s)" if "bit (or m (if b then 2 ^ ?i else 0 :: int)) j" "bit m j \<longrightarrow> j < length (fe_atoms s)" for m b j
    using that i by (auto simp: bit_or_iff bit_exp_iff split: if_splits)
  have b1: "\<forall>j. bit (or (fe_present_mask s) (2 ^ ?i)) j \<longrightarrow> j < length (fe_atoms s)"
    using bits [of "fe_present_mask s" True] s by (auto simp: evidence_state_ok_def)
  have b2: "\<forall>j. bit (or (fe_conflict_mask s) (if conflict then 2 ^ ?i else 0)) j \<longrightarrow> j < length (fe_atoms s)"
    using bits [of "fe_conflict_mask s" conflict] s by (auto simp: evidence_state_ok_def)
  from s all b1 b2 show ?thesis
    unfolding evidence_state_ok_def o put_evidence_def Let_def make_evidence_def
    by (auto simp: or_nonnegative_int_iff)
qed

lemma update_evidence_put:
  assumes s: "evidence_state_ok s" and ob: "observation_ok (fe_atoms s) (atom, artifact, quality, conflict)"
  shows "update_evidence H s atom artifact quality conflict =
    Inr (put_evidence H (atom, artifact, quality, conflict) s)"
proof -
  have cell: "(if q > q0 then (q, a) else if q = q0 \<and> a \<noteq> [] \<and> (r0 = [] \<or> a < r0) then (q0, a) else (q0, r0)) =
      cell_join (q0, r0) (q, a)" for q q0 a r0
    by (auto simp: cell_join_def)
  have "update_evidence H s atom artifact quality conflict =
      evidence_state_post_init (put_evidence H (atom, artifact, quality, conflict) s)"
    using ob unfolding update_evidence_def put_evidence_def Let_def cell case_prod_beta
    by (simp add: observation_ok_def oiec_score_def)
  then show ?thesis by (simp add: evidence_state_post_init_id put_evidence_ok [OF s ob])
qed

lemma update_evidence_iff:
  "evidence_state_ok s \<Longrightarrow> (\<exists>t. update_evidence H s atom artifact quality conflict = Inr t) \<longleftrightarrow>
     observation_ok (fe_atoms s) (atom, artifact, quality, conflict)"
  using update_evidence_put [of s atom artifact quality conflict H]
  by (auto simp: update_evidence_def observation_ok_def bindR_Inr oiec_score_Inr)

text \<open>
  Observations commute and repeat without effect, so the evidence state a set of observations
  leads to does not depend on the order in which the registry lists them.
\<close>

lemma put_evidence_parts:
  "fe_present_mask (put_evidence H (atom, a, q, c) s) = or (fe_present_mask s) (2 ^ index_of atom (fe_atoms s))"
  "fe_conflict_mask (put_evidence H (atom, a, q, c) s) =
     or (fe_conflict_mask s) (if c then 2 ^ index_of atom (fe_atoms s) else 0)"
  "fe_quality_bp (put_evidence H (atom, a, q, c) s) = (fe_quality_bp s)[index_of atom (fe_atoms s) :=
     fst (cell_join (fe_quality_bp s ! index_of atom (fe_atoms s),
       fe_representative_ids s ! index_of atom (fe_atoms s)) (q, a))]"
  "fe_representative_ids (put_evidence H (atom, a, q, c) s) = (fe_representative_ids s)[index_of atom (fe_atoms s) :=
     snd (cell_join (fe_quality_bp s ! index_of atom (fe_atoms s),
       fe_representative_ids s ! index_of atom (fe_atoms s)) (q, a))]"
  by (simp_all add: put_evidence_def make_evidence_def Let_def)

lemma put_evidence_eqI:
  assumes "fe_atoms s = fe_atoms t" "fe_present_mask (put_evidence H x s) = fe_present_mask (put_evidence H y t)"
    "fe_conflict_mask (put_evidence H x s) = fe_conflict_mask (put_evidence H y t)"
    "fe_quality_bp (put_evidence H x s) = fe_quality_bp (put_evidence H y t)"
    "fe_representative_ids (put_evidence H x s) = fe_representative_ids (put_evidence H y t)"
  shows "put_evidence H x s = put_evidence H y t"
proof -
  have "\<exists>a p c q r. put_evidence H x s = make_evidence H a p c q r" for x s
    by (cases x) (simp add: put_evidence_def Let_def, blast)
  then obtain a p c q r a' p' c' q' r' where
    "put_evidence H x s = make_evidence H a p c q r" "put_evidence H y t = make_evidence H a' p' c' q' r'"
    by metis
  moreover from this assms put_evidence_atoms [of H x s] put_evidence_atoms [of H y t]
  have "a = a'" "p = p'" "c = c'" "q = q'" "r = r'" by (simp_all add: make_evidence_def)
  ultimately show ?thesis by simp
qed

definition cells_ok :: "finite_evidence \<Rightarrow> bool" where
  "cells_ok s \<longleftrightarrow> length (fe_quality_bp s) = length (fe_atoms s) \<and>
     length (fe_representative_ids s) = length (fe_atoms s)"

lemma cells_update:
  fixes qs :: "int list" and rs :: "string list"
  assumes "length qs = n" "length rs = n" "i < n" "j < n"
  defines "up \<equiv> \<lambda>k v (qs, rs). (qs[k := fst (cell_join (qs ! k, rs ! k) v)], rs[k := snd (cell_join (qs ! k, rs ! k) v)])"
  shows "up j w (up i v (qs, rs)) = up i v (up j w (qs, rs))"
proof (cases "i = j")
  case True
  then show ?thesis using assms(1-4) cell.absorb_swap [of "(qs ! i, rs ! i)" v w] by (simp add: up_def)
next
  case False
  then show ?thesis using assms(1-4) by (simp add: up_def list_update_swap)
qed

lemma put_evidence_swap:
  assumes "cells_ok s" "observation_ok (fe_atoms s) x" "observation_ok (fe_atoms s) y"
  shows "put_evidence H y (put_evidence H x s) = put_evidence H x (put_evidence H y s)"
proof -
  obtain at aa aq ac where x: "x = (at, aa, aq, ac)" by (cases x)
  obtain bt ba bq bc where y: "y = (bt, ba, bq, bc)" by (cases y)
  let ?i = "index_of at (fe_atoms s)" and ?j = "index_of bt (fe_atoms s)"
  have ij: "?i < length (fe_atoms s)" "?j < length (fe_atoms s)"
    using assms x y index_of_less by (auto simp: observation_ok_def)
  have cells: "length (fe_quality_bp s) = length (fe_atoms s)" "length (fe_representative_ids s) = length (fe_atoms s)"
    using assms(1) by (simp_all add: cells_ok_def)
  note c = cells_update [OF cells ij, of "(bq, ba)" "(aq, aa)"]
  have "or (or m a) b = or (or m b) a" for m a b :: int by (simp add: ac_simps)
  with c show ?thesis
    by (intro put_evidence_eqI) (simp_all add: x y put_evidence_parts)
qed

lemma put_evidence_again:
  assumes "cells_ok s" "observation_ok (fe_atoms s) x"
  shows "put_evidence H x (put_evidence H x s) = put_evidence H x s"
proof -
  obtain at aa aq ac where x: "x = (at, aa, aq, ac)" by (cases x)
  have "index_of at (fe_atoms s) < length (fe_atoms s)"
    using assms x index_of_less by (auto simp: observation_ok_def)
  with assms(1) x cell.absorb_again show ?thesis
    by (intro put_evidence_eqI) (simp_all add: put_evidence_parts cells_ok_def or.assoc)
qed

definition observe_all :: "digest \<Rightarrow> observation list \<Rightarrow> finite_evidence \<Rightarrow> finite_evidence res" where
  "observe_all H obs s = foldR (\<lambda>(atom, artifact, quality, conflict) t.
     update_evidence H t atom artifact quality conflict) obs s"

lemma cells_ok_put: "cells_ok s \<Longrightarrow> cells_ok (put_evidence H x s)"
  by (cases x) (simp add: cells_ok_def put_evidence_parts)

lemma evidence_cells: "evidence_state_ok s \<Longrightarrow> cells_ok s"
  by (simp add: evidence_state_ok_def cells_ok_def)

lemma observe_all_puts:
  assumes "evidence_state_ok s" "list_all (observation_ok (fe_atoms s)) obs"
  shows "observe_all H obs s = Inr (fold (put_evidence H) obs s)"
  using assms
proof (induction obs arbitrary: s)
  case Nil
  then show ?case by (simp add: observe_all_def)
next
  case (Cons x obs)
  obtain at aa aq ac where x: "x = (at, aa, aq, ac)" by (cases x)
  from Cons.prems x have "update_evidence H s at aa aq ac = Inr (put_evidence H x s)"
    by (simp add: update_evidence_put)
  moreover have "observe_all H obs (put_evidence H x s) = Inr (fold (put_evidence H) obs (put_evidence H x s))"
    using Cons.prems by (intro Cons.IH) (simp_all add: put_evidence_ok)
  ultimately show ?case by (simp add: observe_all_def x)
qed

lemma fold_put_atoms [simp]: "fe_atoms (fold (put_evidence H) obs s) = fe_atoms s"
  by (induction obs arbitrary: s) simp_all

lemma fold_put_cells: "cells_ok s \<Longrightarrow> cells_ok (fold (put_evidence H) obs s)"
  by (induction obs arbitrary: s) (simp_all add: cells_ok_put)

lemma fold_put_move:
  assumes "cells_ok s" "list_all (observation_ok (fe_atoms s)) obs" "observation_ok (fe_atoms s) x"
  shows "fold (put_evidence H) obs (put_evidence H x s) = put_evidence H x (fold (put_evidence H) obs s)"
  using assms
proof (induction obs arbitrary: s)
  case (Cons y obs)
  have "fold (put_evidence H) obs (put_evidence H y (put_evidence H x s)) =
      fold (put_evidence H) obs (put_evidence H x (put_evidence H y s))"
    using Cons.prems by (simp add: put_evidence_swap)
  also have "\<dots> = put_evidence H x (fold (put_evidence H) obs (put_evidence H y s))"
    using Cons.prems by (intro Cons.IH) (simp_all add: cells_ok_put)
  finally show ?case by simp
qed simp

lemma fold_put_perm:
  assumes "cells_ok s" "list_all (observation_ok (fe_atoms s)) obs" "mset obs = mset obs'"
  shows "fold (put_evidence H) obs s = fold (put_evidence H) obs' s"
  using assms
proof (induction obs arbitrary: obs' s)
  case Nil
  then show ?case by simp
next
  case (Cons x obs)
  from Cons.prems(3) have "x \<in> set obs'" by (metis list.set_intros(1) set_mset_mset)
  then obtain us vs where o: "obs' = us @ x # vs" by (meson split_list)
  with Cons.prems(3) have m: "mset obs = mset (us @ vs)" by simp
  then have all: "list_all (observation_ok (fe_atoms s)) (us @ vs)"
    using Cons.prems(2) mset_eq_setD [OF m] by (auto simp: list_all_iff)
  have "fold (put_evidence H) obs (put_evidence H x s) = fold (put_evidence H) (us @ vs) (put_evidence H x s)"
    using Cons.prems m by (intro Cons.IH) (simp_all add: cells_ok_put)
  also have "\<dots> = fold (put_evidence H) vs (put_evidence H x (fold (put_evidence H) us s))"
    using Cons.prems all by (simp add: fold_put_move)
  finally show ?case by (simp add: o)
qed

lemma observe_all_perm:
  assumes "evidence_state_ok s" "list_all (observation_ok (fe_atoms s)) obs" "mset obs = mset obs'"
  shows "observe_all H obs s = observe_all H obs' s"
proof -
  have "list_all (observation_ok (fe_atoms s)) obs'"
    using assms(2) mset_eq_setD [OF assms(3)] by (simp add: list_all_iff)
  then show ?thesis
    using observe_all_puts [OF assms(1)] assms(2) fold_put_perm [OF evidence_cells [OF assms(1)] assms(2,3)]
    by metis
qed

text \<open>The mass of an evidence state never falls.\<close>

lemma evidence_mass_cells:
  "evidence_mass s = (\<Sum>i<length (fe_quality_bp s). if bit (fe_present_mask s) i then fe_quality_bp s ! i else 0)"
proof -
  have "sum_list (map snd (filter (\<lambda>(i, q). bit m i) (enumerate k qs))) =
      (\<Sum>i<length qs. if bit m (k + i) then qs ! i else 0)" for m k and qs :: "int list"
  proof (induction qs arbitrary: k)
    case Nil
    show ?case by simp
  next
    case (Cons q qs)
    have "(\<Sum>i<Suc (length qs). if bit m (k + i) then (q # qs) ! i else 0) =
        (if bit m k then q else 0) + (\<Sum>i<length qs. if bit m (Suc k + i) then qs ! i else 0)"
      by (subst sum.lessThan_Suc_shift) (simp cong: if_cong)
    with Cons show ?case by simp
  qed
  from this [of "fe_present_mask s" 0 "fe_quality_bp s"] show ?thesis by (simp add: evidence_mass_def)
qed

lemma evidence_mass_put:
  assumes "evidence_state_ok s" "observation_ok (fe_atoms s) x"
  shows "evidence_mass s \<le> evidence_mass (put_evidence H x s)"
proof -
  obtain at a q c where x: "x = (at, a, q, c)" by (cases x)
  let ?i = "index_of at (fe_atoms s)"
  have len: "length (fe_quality_bp s) = length (fe_atoms s)" using assms(1) by (simp add: evidence_state_ok_def)
  have scale: "j < length (fe_quality_bp s) \<Longrightarrow> 0 \<le> fe_quality_bp s ! j" for j
    using assms(1) by (auto simp: evidence_state_ok_def)
  have up: "fst (cell_join (u, r) (q, a)) \<ge> u" for u r by (auto simp: cell_join_def)
  let ?qs = "(fe_quality_bp s)[?i := fst (cell_join (fe_quality_bp s ! ?i, fe_representative_ids s ! ?i) (q, a))]"
  have after: "evidence_mass (put_evidence H x s) =
      (\<Sum>j<length (fe_quality_bp s). if bit (or (fe_present_mask s) (2 ^ ?i)) j then ?qs ! j else 0)"
    by (simp add: evidence_mass_cells x put_evidence_parts cong: if_cong)
  show ?thesis
    unfolding evidence_mass_cells [of s] after
  proof (rule sum_mono)
    fix j assume "j \<in> {..<length (fe_quality_bp s)}"
    then have j: "j < length (fe_quality_bp s)" by simp
    show "(if bit (fe_present_mask s) j then fe_quality_bp s ! j else 0)
        \<le> (if bit (or (fe_present_mask s) (2 ^ ?i)) j
           then ?qs ! j else 0)"
      using j scale [OF j] up [of "fe_quality_bp s ! j" "fe_representative_ids s ! j"]
      by (cases "j = ?i") (auto simp: bit_or_iff)
  qed
qed

section \<open>Attempts and progress\<close>

definition make_attempt_key :: "digest \<Rightarrow> string \<Rightarrow> string \<Rightarrow> string \<Rightarrow> string \<Rightarrow> string \<Rightarrow> attempt_key" where
  "make_attempt_key H snap action evidence_sig boundary_sig dimension_sig = \<lparr>
     ak_source_snapshot_hash = snap, ak_action_id = action, ak_evidence_signature = evidence_sig,
     ak_boundary_signature = boundary_sig, ak_dimension_signature = dimension_sig,
     ak_digest = stable_hash H (JObj [
       (''source_snapshot_hash'', JStr snap), (''action_id'', JStr action),
       (''evidence_signature'', JStr evidence_sig), (''boundary_signature'', JStr boundary_sig),
       (''dimension_signature'', JStr dimension_sig)]) \<rparr>"

definition progress_reasons :: "int \<Rightarrow> int \<Rightarrow> int \<Rightarrow> int \<Rightarrow> int \<Rightarrow> bool \<Rightarrow> bool \<Rightarrow> bool \<Rightarrow> string list" where
  "progress_reasons evidence_gain goal_improvement risk_reduction boundary_reduction information_gain
       novel_evidence novel_experiment terminal = sort (
     (if novel_evidence \<and> evidence_gain > 0 then [''novel_evidence''] else []) @
     (if goal_improvement \<ge> 100 then [''goal_improvement''] else []) @
     (if risk_reduction \<ge> 100 then [''risk_reduction''] else []) @
     (if boundary_reduction \<ge> 100 then [''boundary_resolution''] else []) @
     (if novel_experiment \<and> information_gain \<ge> 100 then [''discriminating_experiment''] else []) @
     (if terminal then [''terminal''] else []))"

definition certify_progress ::
  "digest \<Rightarrow> int \<Rightarrow> int \<Rightarrow> int \<Rightarrow> int \<Rightarrow> int \<Rightarrow> int \<Rightarrow> bool \<Rightarrow> bool \<Rightarrow> bool \<Rightarrow> progress_certificate res" where
  "certify_progress H evidence_gain uncertainty_reduction goal_improvement risk_reduction
       boundary_reduction information_gain novel_evidence novel_experiment terminal =
     bindR (oiec_score evidence_gain ''evidence gain'' False) (\<lambda>evidence_gain.
     bindR (oiec_score uncertainty_reduction ''uncertainty reduction'' True) (\<lambda>uncertainty_reduction.
     bindR (oiec_score goal_improvement ''goal improvement'' True) (\<lambda>goal_improvement.
     bindR (oiec_score risk_reduction ''residual risk reduction'' True) (\<lambda>risk_reduction.
     bindR (oiec_score boundary_reduction ''boundary uncertainty reduction'' True) (\<lambda>boundary_reduction.
     bindR (oiec_score information_gain ''expected information gain'' False) (\<lambda>information_gain.
       let reasons = progress_reasons evidence_gain goal_improvement risk_reduction boundary_reduction
             information_gain novel_evidence novel_experiment terminal
       in progress_post_init \<lparr>
            pc_schema_version = 2, pc_evidence_gain_bp = evidence_gain,
            pc_uncertainty_reduction_bp = uncertainty_reduction,
            pc_goal_improvement_bp = goal_improvement, pc_residual_risk_reduction_bp = risk_reduction,
            pc_boundary_uncertainty_reduction_bp = boundary_reduction,
            pc_expected_information_gain_bp = information_gain, pc_hypothesis_resolution_bp = 0,
            pc_novel_evidence = novel_evidence, pc_novel_experiment = novel_experiment,
            pc_terminal = terminal, pc_accepted = (reasons \<noteq> []), pc_reasons = reasons,
            pc_signature = stable_hash H (JObj [
              (''evidence_gain_bp'', JInt evidence_gain),
              (''uncertainty_reduction_bp'', JInt uncertainty_reduction),
              (''goal_improvement_bp'', JInt goal_improvement),
              (''residual_risk_reduction_bp'', JInt risk_reduction),
              (''boundary_uncertainty_reduction_bp'', JInt boundary_reduction),
              (''expected_information_gain_bp'', JInt information_gain),
              (''novel_evidence'', JBool novel_evidence), (''novel_experiment'', JBool novel_experiment),
              (''terminal'', JBool terminal), (''accepted'', JBool (reasons \<noteq> [])),
              (''reasons'', jstrs reasons)]) \<rparr>))))))"

lemma progress_reasons_simps:
  "progress_reasons eg gi rr br ig ne nx tm \<noteq> [] \<longleftrightarrow>
     (ne \<and> 0 < eg) \<or> 100 \<le> gi \<or> 100 \<le> rr \<or> 100 \<le> br \<or> (nx \<and> 100 \<le> ig) \<or> tm"
  "[] \<notin> set (progress_reasons eg gi rr br ig ne nx tm)"
proof -
  have ne: "sort xs = [] \<longleftrightarrow> xs = []" for xs :: "string list"
    by (metis length_0_conv length_sort)
  have one: "(if b then [x] else []) = [] \<longleftrightarrow> \<not> b" for b and x :: string by simp
  show "progress_reasons eg gi rr br ig ne nx tm \<noteq> [] \<longleftrightarrow>
     (ne \<and> 0 < eg) \<or> 100 \<le> gi \<or> 100 \<le> rr \<or> 100 \<le> br \<or> (nx \<and> 100 \<le> ig) \<or> tm"
    unfolding progress_reasons_def ne append_is_Nil_conv one by blast
  show "[] \<notin> set (progress_reasons eg gi rr br ig ne nx tm)"
    by (simp add: progress_reasons_def)
qed

lemma canonical_strings_empty: "canonical_strings xs = [] \<longleftrightarrow> (\<forall>x \<in> set xs. x = [])"
  using canonical_strings_simps(3) [of xs] by (metis (mono_tags, lifting) empty_Collect_eq set_empty)

lemma canonical_reasons:
  "canonical_strings (progress_reasons eg gi rr br ig ne nx tm) = [] \<longleftrightarrow>
     progress_reasons eg gi rr br ig ne nx tm = []"
proof -
  have "(\<forall>x \<in> set rs. x = []) \<longleftrightarrow> rs = []" if "[] \<notin> set rs" for rs :: "string list"
    using that by (cases rs) auto
  from this [OF progress_reasons_simps(2)] show ?thesis by (simp only: canonical_strings_empty)
qed

lemma progress_post_init_fields:
  "yields (progress_post_init p) (\<lambda>q. pc_accepted q = pc_accepted p \<and>
     pc_reasons q = canonical_strings (pc_reasons p))"
  unfolding progress_post_init_def by (intro yields_intro) simp

lemma certify_progress_cases:
  "yields (certify_progress H eg ur gi rr br ig ne nx tm) (\<lambda>p.
     (pc_accepted p \<longleftrightarrow> pc_reasons p \<noteq> []) \<and>
     (pc_accepted p \<longleftrightarrow> (ne \<and> 0 < eg) \<or> 100 \<le> gi \<or> 100 \<le> rr \<or> 100 \<le> br \<or> (nx \<and> 100 \<le> ig) \<or> tm))"
  unfolding certify_progress_def Let_def
  by (intro yields_intro yields_mono [OF progress_post_init_fields];
      simp only: oiec_score_Inr progress_certificate.simps canonical_reasons progress_reasons_simps(1))

section \<open>The bounded transition kernel\<close>

record kernel =
  ke_max_active_objects :: int
  ke_max_active_relations :: int
  ke_max_active_dimensions :: int
  ke_max_active_hypotheses :: int
  ke_max_active_evidence_atoms :: int
  ke_max_quantization_levels :: int
  ke_max_interaction_order :: int
  ke_max_candidate_actions :: int
  ke_max_decomposition_depth :: int
  ke_max_branch_factor :: int
  ke_max_retries :: int
  ke_collision_threshold_bp :: int

text \<open>\<open>__init__\<close>: the limits must form a dimension budget, whose retries are clamped at zero.\<close>

definition kernel_budget :: "kernel \<Rightarrow> int \<Rightarrow> string list \<Rightarrow> (string \<times> int) list \<Rightarrow> string \<Rightarrow> dimension_budget" where
  "kernel_budget k retries selected utility sig = \<lparr>
     db_schema_version = 1, db_max_active_objects = ke_max_active_objects k,
     db_max_active_relations = ke_max_active_relations k,
     db_max_active_dimensions = ke_max_active_dimensions k,
     db_max_active_hypotheses = ke_max_active_hypotheses k,
     db_max_quantization_levels = ke_max_quantization_levels k,
     db_max_interaction_order = ke_max_interaction_order k,
     db_max_candidate_actions = ke_max_candidate_actions k,
     db_max_active_evidence_atoms = ke_max_active_evidence_atoms k,
     db_max_decomposition_depth = ke_max_decomposition_depth k,
     db_max_branch_factor = ke_max_branch_factor k, db_max_retries_per_attempt = retries,
     db_selected_dimensions = selected, db_dimension_utility_bp = utility, db_signature = sig \<rparr>"

definition kernel_init :: "kernel \<Rightarrow> kernel res" where
  "kernel_init k =
     bindR (oiec_score (ke_collision_threshold_bp k) ''collision threshold'' False) (\<lambda>_.
     bindR (budget_post_init (kernel_budget k (max 0 (ke_max_retries k)) [] [] [])) (\<lambda>_. Inr k))"

definition budget_payload :: "kernel \<Rightarrow> int \<Rightarrow> string list \<Rightarrow> (string \<times> int) list \<Rightarrow> json" where
  "budget_payload k retries selected ranked = JObj [
     (''selected_dimensions'', jstrs selected),
     (''dimension_utility_bp'', JList (map (\<lambda>(n, u). JList [JStr n, JInt u]) ranked)),
     (''max_active_objects'', JInt (ke_max_active_objects k)),
     (''max_active_relations'', JInt (ke_max_active_relations k)),
     (''max_active_dimensions'', JInt (ke_max_active_dimensions k)),
     (''max_active_hypotheses'', JInt (ke_max_active_hypotheses k)),
     (''max_quantization_levels'', JInt (ke_max_quantization_levels k)),
     (''max_active_evidence_atoms'', JInt (ke_max_active_evidence_atoms k)),
     (''max_interaction_order'', JInt (ke_max_interaction_order k)),
     (''max_candidate_actions'', JInt (ke_max_candidate_actions k)),
     (''max_decomposition_depth'', JInt (ke_max_decomposition_depth k)),
     (''max_branch_factor'', JInt (ke_max_branch_factor k)),
     (''max_retries_per_attempt'', JInt retries)]"

text \<open>\<open>sorted(candidates, key=lambda item: (-item[1], item[0]))\<close>.\<close>

definition rank_dimensions :: "(string \<times> int) list \<Rightarrow> (string \<times> int) list" where
  "rank_dimensions cs = sort_key (\<lambda>c. - snd c) (sort_key fst cs)"

definition derive_dimension_budget ::
  "digest \<Rightarrow> kernel \<Rightarrow> boundary_state \<Rightarrow> authority_manifest \<Rightarrow> (string, int) dict \<Rightarrow> dimension_budget res" where
  "derive_dimension_budget H k b a scores =
     bindR (mapR (\<lambda>dimension. let score = dict_getd scores dimension 0
              in if \<not> (- SCORE_SCALE \<le> score \<and> score \<le> SCORE_SCALE)
                   then Inl (PolicyError ''invalid dimension utility'')
                 else Inr (dimension, score)) (bs_experimental_dimensions b)) (\<lambda>candidates.
       let ranked = rank_dimensions candidates;
           selected = map fst (take (nat (ke_max_active_dimensions k)) ranked);
           retry_limit = min (ke_max_retries k) (max 0 (am_max_retries_per_action a))
       in budget_post_init (kernel_budget k retry_limit selected ranked
            (stable_hash H (budget_payload k retry_limit selected ranked))))"

definition action_atoms :: "eon_action \<Rightarrow> string list" where
  "action_atoms a = canonical_strings (ac_evidence a @ ac_required_tests a)"

definition belongs_to :: "eon_action \<Rightarrow> evidence_artifact \<Rightarrow> bool" where
  "belongs_to a e \<longleftrightarrow> ev_action_id e = ac_action_id a \<and>
     ev_source_snapshot_hash e = ac_source_snapshot_hash a"

definition project_artifact ::
  "digest \<Rightarrow> string list \<Rightarrow> evidence_artifact \<Rightarrow> finite_evidence \<Rightarrow> finite_evidence res" where
  "project_artifact H atoms e s =
     (if ev_polarity e \<notin> {''support'', ''counterexample'', ''conflict''}
        then Inl (PolicyError ''invalid evidence polarity'')
      else let requirements = ev_requirement_ids e @
             (if ev_description e \<in> set atoms then [ev_description e] else []) @
             (if ev_kind e \<in> set atoms then [ev_kind e] else [])
        in foldR (\<lambda>atom t. update_evidence H t atom (ev_artifact_id e) (ev_quality_bp e)
               (ev_polarity e = ''conflict''))
             (sorted_set (filter (\<lambda>r. r \<in> set atoms) requirements)) s)"

definition project_gate ::
  "digest \<Rightarrow> (string, evidence_artifact) dict \<Rightarrow> eon_action \<Rightarrow> string list \<Rightarrow> gate_decision \<Rightarrow>
   finite_evidence \<Rightarrow> finite_evidence res" where
  "project_gate H registry a atoms g s =
     (let gate_artifacts = map (\<lambda>i. the (dict_get registry i))
            (filter (\<lambda>i. dict_get registry i \<noteq> None) (sort (gd_evidence_ids g)));
          candidates = filter (belongs_to a) gate_artifacts
      in foldR (\<lambda>atom t.
           if candidates \<noteq> []
             then let best = Max (set (map ev_quality_bp candidates));
                      representative = Min (set (map ev_artifact_id
                        (filter (\<lambda>e. ev_quality_bp e = best) candidates)))
               in update_evidence H t atom representative best
                    (list_ex (\<lambda>e. ev_polarity e = ''conflict'') candidates)
           else Inr t)
         (sorted_set (filter (\<lambda>r. r \<in> set atoms) (gd_satisfied_requirements g))) s)"

definition project_evidence ::
  "digest \<Rightarrow> runtime_state \<Rightarrow> eon_action \<Rightarrow> dimension_budget \<Rightarrow> (string, evidence_artifact) dict option \<Rightarrow>
   gate_decision option \<Rightarrow> finite_evidence res" where
  "project_evidence H rs a d evidence gate =
     (let atoms = action_atoms a
      in if int (length atoms) > db_max_active_evidence_atoms d
           then Inl (PolicyError ''evidence universe exceeds the finite OIEC cap'')
         else bindR (empty_evidence_state H atoms) (\<lambda>projected.
           let artifacts = (case evidence of Some e \<Rightarrow> e | None \<Rightarrow> rs_evidence_registry rs);
               eligible = filter (belongs_to a) (map snd (sort_key fst artifacts))
           in bindR (foldR (project_artifact H atoms) eligible projected) (\<lambda>projected.
                case gate of
                  None \<Rightarrow> Inr projected
                | Some g \<Rightarrow> if gd_action_id g = ac_action_id a
                             then project_gate H (rs_evidence_registry rs) a atoms g projected
                           else Inr projected)))"

definition validate_action ::
  "workspace \<Rightarrow> boundary_state \<Rightarrow> dimension_budget \<Rightarrow> eon_action \<Rightarrow> string list \<Rightarrow> string res" where
  "validate_action ws b d a varied =
     bindR (eachR (\<lambda>t. bindR (require_boundary_target ws b t) (\<lambda>_. Inr ())) (ac_targets a)) (\<lambda>_.
     bindR (require_dimension_action d varied) (\<lambda>_.
     bindR (effective_risk (ac_model_risk a) (ac_operation a) (ac_summary a) (ac_targets a)
              (ac_command_capabilities a)) (\<lambda>risk.
     bindR (risk_index (ac_effective_risk a)) (\<lambda>held.
       if held < risk_rank risk then Inl (PolicyError ''OIEC cannot lower the PolicyEngine effective risk floor'')
       else Inr risk))))"

record prepared_transition =
  pt_boundary :: boundary_state
  pt_budget :: dimension_budget
  pt_evidence :: finite_evidence
  pt_attempt :: attempt_key
  pt_effective_risk :: string
  pt_gate_decision_id :: string

definition prepare_transition ::
  "digest \<Rightarrow> kernel \<Rightarrow> workspace \<Rightarrow> string \<Rightarrow> runtime_state \<Rightarrow> eon_action \<Rightarrow> string list \<Rightarrow>
   (string, evidence_artifact) dict option \<Rightarrow> (string, int) dict \<Rightarrow> (string, int) dict \<Rightarrow>
   gate_decision option \<Rightarrow> string \<Rightarrow> prepared_transition res" where
  "prepare_transition H k ws current rs a varied evidence scores memberships gate expected =
     (if current \<noteq> (if expected \<noteq> [] then expected else ac_source_snapshot_hash a)
        then Inl (PolicyError ''OIEC source snapshot mismatch'')
      else if ac_authority_hash a \<noteq> am_authority_hash (rs_authority rs)
        then Inl (PolicyError ''OIEC action authority hash mismatch'')
      else bindR (build_boundary H (rs_governance rs) (rs_authority rs) current memberships) (\<lambda>boundary.
        bindR (derive_dimension_budget H k boundary (rs_authority rs) scores) (\<lambda>budget.
        if int (length (bs_semantic_objects boundary)) > db_max_active_objects budget
          then Inl (PolicyError ''semantic object count exceeds the OIEC active-state cap'')
        else if int (length (bs_semantic_relations boundary)) > db_max_active_relations budget
          then Inl (PolicyError ''semantic relation count exceeds the OIEC active-state cap'')
        else bindR (validate_action ws boundary budget a varied) (\<lambda>risk.
        bindR (if ac_effective_risk a \<noteq> ''L0''
               then (case gate of
                       None \<Rightarrow> Inl (PolicyError ''OIEC requires the existing action evidence gate'')
                     | Some g \<Rightarrow>
                         if gd_action_id g \<noteq> ac_action_id a
                           then Inl (PolicyError ''OIEC requires the existing action evidence gate'')
                         else if gd_verdict g \<notin> {''APPROVE'', ''APPROVE_WITH_LIMITS''}
                           then Inl (PolicyError ''OIEC evidence gate is not approving'')
                         else Inr ())
               else Inr ()) (\<lambda>_.
        bindR (project_evidence H rs a budget evidence gate) (\<lambda>finite.
        let attempt = make_attempt_key H current (ac_action_id a) (fe_signature finite)
              (bs_signature boundary) (db_signature budget)
        in if dict_getd (rs_failed_attempts rs) (ak_digest attempt) 0 > db_max_retries_per_attempt budget
             then Inl (PolicyError ''OIEC no-blind-retry gate blocked attempt'')
           else Inr \<lparr> pt_boundary = boundary, pt_budget = budget, pt_evidence = finite,
                  pt_attempt = attempt, pt_effective_risk = risk,
                  pt_gate_decision_id = (case gate of Some g \<Rightarrow> gd_decision_id g | None \<Rightarrow> []) \<rparr>))))))"

record transition_metrics =
  tm_uncertainty_bp :: int
  tm_goal_loss_bp :: int
  tm_residual_risk_bp :: int
  tm_boundary_uncertainty_bp :: int
  tm_expected_information_gain_bp :: int
  tm_novel_experiment :: bool

definition metrics_post_init :: "transition_metrics \<Rightarrow> transition_metrics res" where
  "metrics_post_init m =
     bindR (eachR (\<lambda>v. bindR (oiec_score v ''metric'' False) (\<lambda>_. Inr ()))
       [tm_uncertainty_bp m, tm_goal_loss_bp m, tm_residual_risk_bp m, tm_boundary_uncertainty_bp m,
        tm_expected_information_gain_bp m]) (\<lambda>_. Inr m)"

text \<open>
  Accepting an observation changes the runtime state before it can raise: a collision at or
  above the threshold counts against the attempt whether or not progress is certified. The
  state is returned next to the result.
\<close>

definition count_failure :: "string \<Rightarrow> runtime_state \<Rightarrow> runtime_state" where
  "count_failure digest rs =
     rs\<lparr>rs_failed_attempts := dict_set digest (dict_getd (rs_failed_attempts rs) digest 0 + 1) (rs_failed_attempts rs)\<rparr>"

definition accept_observation ::
  "digest \<Rightarrow> kernel \<Rightarrow> runtime_state \<Rightarrow> prepared_transition \<Rightarrow> finite_evidence \<Rightarrow> int \<Rightarrow>
   transition_metrics \<Rightarrow> transition_metrics \<Rightarrow> (string, int) dict \<Rightarrow> (string, int) dict \<Rightarrow> bool \<Rightarrow>
   runtime_state \<times> progress_certificate res" where
  "accept_observation H k rs p after collision before metrics scores memberships terminal =
     (case oiec_score collision ''collision severity'' False of
        Inl e \<Rightarrow> (rs, Inl e)
      | Inr severity \<Rightarrow>
          let gain = max 0 (evidence_mass after - evidence_mass (pt_evidence p));
              rs = (if severity \<ge> ke_collision_threshold_bp k
                    then count_failure (ak_digest (pt_attempt p)) rs else rs)
          in (case bindR (certify_progress H (min SCORE_SCALE gain)
                  (tm_uncertainty_bp before - tm_uncertainty_bp metrics)
                  (tm_goal_loss_bp before - tm_goal_loss_bp metrics)
                  (tm_residual_risk_bp before - tm_residual_risk_bp metrics)
                  (bs_boundary_uncertainty_bp (pt_boundary p) - tm_boundary_uncertainty_bp metrics)
                  (tm_expected_information_gain_bp metrics)
                  (fe_signature after \<noteq> fe_signature (pt_evidence p))
                  (tm_novel_experiment metrics) terminal) (\<lambda>certificate.
                if \<not> pc_accepted certificate
                  then Inl (PolicyError ''OIEC transition has no progress certificate'')
                else bindR (build_boundary H (rs_governance rs) (rs_authority rs)
                       (ak_source_snapshot_hash (pt_attempt p)) memberships) (\<lambda>next_boundary.
                     bindR (derive_dimension_budget H k next_boundary (rs_authority rs) scores) (\<lambda>next_budget.
                       Inr (certificate, next_boundary, next_budget)))) of
              Inl e \<Rightarrow> (rs, Inl e)
            | Inr (certificate, next_boundary, next_budget) \<Rightarrow>
                (rs\<lparr>rs_boundary_state := Some next_boundary, rs_dimension_budget := Some next_budget,
                    rs_finite_evidence := Some after, rs_last_progress := Some certificate,
                    rs_transition_index := rs_transition_index rs + 1\<rparr>, Inr certificate)))"

subsection \<open>What a prepared transition guarantees\<close>

text \<open>Dropping empty patterns and duplicates does not change what a list of patterns matches.\<close>

lemma canonical_nonempty: "canonical ws r i = Inr q \<Longrightarrow> q \<noteq> []"
  by (auto simp: canonical_def bindR_Inr Let_def split: if_splits)

lemma pattern_hit_empty: "q \<noteq> [] \<Longrightarrow> \<not> pattern_hit q []"
  by (simp add: pattern_hit_def replace_char_def strip_def lstrip_def rstrip_def Let_def
      ends_with_def starts_with_def rstrip_char_def)

lemma path_matches_canonical:
  assumes "q \<noteq> []"
  shows "path_matches q (canonical_strings ps) = path_matches q ps"
proof -
  have "replace_char CHR 0x5C (CHR ''/'') q \<noteq> []" using assms by (simp add: replace_char_def)
  from pattern_hit_empty [OF this] show ?thesis
    by (auto simp: path_matches_def list_ex_iff)
qed

lemma require_scope_canonical:
  "require_scope ws r (canonical_strings ps) (canonical_strings qs) = Inr q \<longleftrightarrow> require_scope ws r ps qs = Inr q"
  using canonical_nonempty [of ws r False q] path_matches_canonical [of q]
  by (auto simp: require_scope_Inr)

lemma build_boundary_patterns:
  "yields (build_boundary H g a snap ms) (\<lambda>b.
     bs_authority_allowed_patterns b = canonical_strings (am_allowed_paths a) \<and>
     bs_authority_forbidden_patterns b = canonical_strings (am_forbidden_paths a) \<and>
     bs_governance_allowed_patterns b = canonical_strings (gv_allowed_paths g) \<and>
     bs_governance_excluded_patterns b = canonical_strings (gv_excluded_scope g))"
  unfolding build_boundary_def Let_def
  by (intro yields_intro yields_mono [OF boundary_post_init_fields]) simp

definition target_in_scope :: "workspace \<Rightarrow> authority_manifest \<Rightarrow> governance_record \<Rightarrow> string \<Rightarrow> bool" where
  "target_in_scope ws a g t \<longleftrightarrow> (\<exists>p. require_scope ws t (am_allowed_paths a) (am_forbidden_paths a) = Inr p \<and>
     require_scope ws t (gv_allowed_paths g) (gv_excluded_scope g) = Inr p)"

lemma boundary_target_in_scope:
  assumes "workspace_ok ws" "build_boundary H g a snap ms = Inr b" "require_boundary_target ws b t = Inr p"
  shows "target_in_scope ws a g t"
  using require_boundary_target_Inr [OF assms(1,3)] yieldsD [OF build_boundary_patterns assms(2)]
  by (auto simp: target_in_scope_def require_scope_canonical)

lemma validate_action_cases:
  "yields (validate_action ws b d a varied) (\<lambda>risk.
     (\<forall>t \<in> set (ac_targets a). \<exists>p. require_boundary_target ws b t = Inr p) \<and>
     set varied - {[]} \<subseteq> set (db_selected_dimensions d) \<and>
     int (length (canonical_strings varied)) \<le> db_max_interaction_order d \<and>
     effective_risk (ac_model_risk a) (ac_operation a) (ac_summary a) (ac_targets a)
       (ac_command_capabilities a) = Inr risk \<and>
     risk_rank risk \<le> risk_rank (ac_effective_risk a))"
  unfolding validate_action_def
  by (intro yields_intro)
     (auto simp: eachR_Inr bindR_Inr require_dimension_action_def Let_def risk_index_def
        risk_rank_def dict_getd_def split: if_splits option.splits)

lemma prepare_transition_cases:
  assumes "workspace_ok ws"
  shows "yields (prepare_transition H k ws current rs a varied evidence scores memberships gate expected) (\<lambda>p.
     current = (if expected \<noteq> [] then expected else ac_source_snapshot_hash a) \<and>
     ac_authority_hash a = am_authority_hash (rs_authority rs) \<and>
     gv_established (rs_governance rs) \<and>
     gv_authority_hash (rs_governance rs) = am_authority_hash (rs_authority rs) \<and>
     (\<forall>t \<in> set (ac_targets a). target_in_scope ws (rs_authority rs) (rs_governance rs) t) \<and>
     set varied - {[]} \<subseteq> set (db_selected_dimensions (pt_budget p)) \<and>
     effective_risk (ac_model_risk a) (ac_operation a) (ac_summary a) (ac_targets a)
       (ac_command_capabilities a) = Inr (pt_effective_risk p) \<and>
     risk_rank (pt_effective_risk p) \<le> risk_rank (ac_effective_risk a) \<and>
     (ac_effective_risk a \<noteq> ''L0'' \<longrightarrow> (\<exists>g. gate = Some g \<and> gd_action_id g = ac_action_id a \<and>
        gd_verdict g \<in> {''APPROVE'', ''APPROVE_WITH_LIMITS''} \<and> pt_gate_decision_id p = gd_decision_id g)) \<and>
     dict_getd (rs_failed_attempts rs) (ak_digest (pt_attempt p)) 0 \<le> db_max_retries_per_attempt (pt_budget p))"
proof -
  have gate: "\<exists>g. gate = Some g \<and> gd_action_id g = ac_action_id a \<and>
      gd_verdict g \<in> {''APPROVE'', ''APPROVE_WITH_LIMITS''}"
    if "(if ac_effective_risk a \<noteq> ''L0''
         then (case gate of None \<Rightarrow> Inl e1 | Some g \<Rightarrow> if gd_action_id g \<noteq> ac_action_id a then Inl e1
               else if gd_verdict g \<notin> {''APPROVE'', ''APPROVE_WITH_LIMITS''} then Inl e2 else Inr ())
         else Inr ()) = Inr u" "ac_effective_risk a \<noteq> ''L0''" for e1 e2 u
    using that by (auto split: if_splits option.splits)
  show ?thesis
    unfolding prepare_transition_def Let_def
  proof (intro yields_intro, goal_cases)
    case (1 b d risk u fin)
    note v = yieldsD [OF validate_action_cases 1(7)]
    have t: "\<forall>t \<in> set (ac_targets a). target_in_scope ws (rs_authority rs) (rs_governance rs) t"
      using v boundary_target_in_scope [OF assms 1(3)] by blast
    have g: "gv_established (rs_governance rs)" "gv_authority_hash (rs_governance rs) = am_authority_hash (rs_authority rs)"
      using yieldsD [OF build_boundary_fields 1(3)] by simp_all
    have gt: "ac_effective_risk a \<noteq> ''L0'' \<longrightarrow> (\<exists>g. gate = Some g \<and> gd_action_id g = ac_action_id a \<and>
        gd_verdict g \<in> {''APPROVE'', ''APPROVE_WITH_LIMITS''})"
      using gate [OF 1(8)] by blast
    show ?case using v t g gt 1(1,2,10) by (auto simp: not_less)
  qed
qed

text \<open>Failures of an attempt add up, and past the retry limit the attempt cannot be prepared.\<close>

lemma count_failure_get:
  "dict_getd (rs_failed_attempts (count_failure d rs)) e 0 =
     dict_getd (rs_failed_attempts rs) e 0 + (if e = d then 1 else 0)"
  by (simp add: count_failure_def dict_getd_def)

lemma accept_observation_counts:
  assumes "accept_observation H k rs p after severity before metrics scores ms terminal = (rs', r)"
    and "in_scale severity"
  shows "dict_getd (rs_failed_attempts rs') e 0 = dict_getd (rs_failed_attempts rs) e 0 +
    (if severity \<ge> ke_collision_threshold_bp k \<and> e = ak_digest (pt_attempt p) then 1 else 0)"
  using assms
  by (auto simp: accept_observation_def oiec_score_def Let_def count_failure_get
      split: sum.splits prod.splits if_splits)

lemma accept_observation_progress:
  assumes "accept_observation H k rs p after severity before metrics scores ms terminal = (rs', Inr c)"
  shows "pc_accepted c" and "rs_last_progress rs' = Some c" and "rs_finite_evidence rs' = Some after"
    and "rs_transition_index rs' = rs_transition_index rs + 1"
  using assms
  by (auto simp: accept_observation_def Let_def bindR_Inr count_failure_def
      split: sum.splits prod.splits if_splits)

section \<open>Properties\<close>


definition sample_kernel :: kernel where
  "sample_kernel = \<lparr> ke_max_active_objects = 64, ke_max_active_relations = 256,
     ke_max_active_dimensions = 16, ke_max_active_hypotheses = 16, ke_max_active_evidence_atoms = 128,
     ke_max_quantization_levels = 17, ke_max_interaction_order = 1, ke_max_candidate_actions = 16,
     ke_max_decomposition_depth = 8, ke_max_branch_factor = 16, ke_max_retries = 1,
     ke_collision_threshold_bp = 5000 \<rparr>"

definition sample_action :: eon_action where
  "sample_action = \<lparr> ac_action_id = ''a1'', ac_summary = ''fix'', ac_operation = ''write_file'',
     ac_targets = [''src/m.py''], ac_preconditions = [], ac_postconditions = [], ac_preserve = [],
     ac_evidence = [''unit tests''], ac_model_risk = ''L1'', ac_effective_risk = ''L1'',
     ac_authority_hash = ''h'', ac_source_snapshot_hash = ''s'', ac_transaction_id = [],
     ac_candidate_hash = [], ac_command_capabilities = [], ac_commands = [], ac_required_tests = [],
     ac_expires_at = [], ac_use_limit = 1, ac_use_count = 0, ac_varied_dimensions = [''timing''],
     ac_reasoning_certificate_signature = [], ac_reasoning_winning_path_id = [] \<rparr>"

definition sample_gate :: gate_decision where
  "sample_gate = \<lparr> gd_decision_id = ''g1'', gd_action_id = ''a1'', gd_proposed_verdict = ''APPROVE'',
     gd_verdict = ''APPROVE'', gd_evidence_ids = [], gd_evidence_categories = [],
     gd_satisfied_requirements = [], gd_uncovered = [], gd_limits = [], gd_reason = [] \<rparr>"

definition sample_state :: runtime_state where
  "sample_state = new_runtime_state\<lparr>
     rs_authority := default_authority\<lparr>am_authority_hash := ''h'', am_allowed_paths := [''src/**''], am_read_only := False\<rparr>,
     rs_governance := default_governance\<lparr>gv_authority_hash := ''h'', gv_established := True,
       gv_objects := [''parser''], gv_allowed_paths := [''src/*''], gv_dimensions := [''timing'']\<rparr>\<rparr>"

definition sample_prepared :: "digest \<Rightarrow> prepared_transition res" where
  "sample_prepared H = prepare_transition H sample_kernel sample_workspace ''s'' sample_state
     sample_action [''timing''] None [(''timing'', 100)] [] (Some sample_gate) []"

lemma sample_boundary:
  "\<exists>b. build_boundary H (rs_governance sample_state) (rs_authority sample_state) ''s'' [] = Inr b \<and>
     bs_authority_allowed_patterns b = [''src/**''] \<and> bs_authority_forbidden_patterns b = [''.ourd-agent/**''] \<and>
     bs_governance_allowed_patterns b = [''src/*''] \<and> bs_governance_excluded_patterns b = [] \<and>
     bs_semantic_objects b = [''parser''] \<and> bs_semantic_relations b = [] \<and> bs_experimental_dimensions b = [''timing'']"
  by (simp add: build_boundary_def sample_state_def new_runtime_state_def default_governance_def default_authority_def
      canonical_strings_def sorted_set_def oiec_score_def dict_getd_def membership_uncertainty_bp_def
      boundary_post_init_def oiec_score_pairs_def Let_def)

lemma sample_target: "require_scope sample_workspace ''src/m.py'' [''src/**''] [''.ourd-agent/**''] = Inr ''src/m.py''"
    "require_scope sample_workspace ''src/m.py'' [''src/*''] [] = Inr ''src/m.py''"
  by code_simp+

lemma sample_risk: "effective_risk ''L1'' ''write_file'' ''fix'' [''src/m.py''] [] = Inr ''L1''"
  by code_simp

lemma sample_prepared_Inr: "\<exists>p. sample_prepared H = Inr p"
proof -
  obtain b where b: "build_boundary H (rs_governance sample_state) (rs_authority sample_state) ''s'' [] = Inr b"
     "bs_authority_allowed_patterns b = [''src/**'']" "bs_authority_forbidden_patterns b = [''.ourd-agent/**'']"
     "bs_governance_allowed_patterns b = [''src/*'']" "bs_governance_excluded_patterns b = []"
     "bs_semantic_objects b = [''parser'']" "bs_semantic_relations b = []" "bs_experimental_dimensions b = [''timing'']"
    using sample_boundary by blast
  obtain d where d: "derive_dimension_budget H sample_kernel b (rs_authority sample_state) [(''timing'', 100)] = Inr d"
     "db_selected_dimensions d = [''timing'']" "db_max_interaction_order d = 1" "db_max_active_objects d = 64"
     "db_max_active_relations d = 256" "db_max_active_evidence_atoms d = 128" "db_max_retries_per_attempt d = 1"
    by (simp add: derive_dimension_budget_def b dict_getd_def rank_dimensions_def budget_post_init_def kernel_budget_def
        sample_kernel_def sample_state_def new_runtime_state_def default_authority_def stable_strings_def
        from_keys_def oiec_score_pairs_def Let_def)
  have v: "validate_action sample_workspace b d sample_action [''timing''] = Inr ''L1''"
    by (simp add: validate_action_def require_boundary_target_def sample_action_def b d sample_target sample_risk
        require_dimension_action_def canonical_strings_def sorted_set_def risk_index_def RISK_ORDER_def Let_def)
  obtain f where f: "empty_evidence_state H [''unit tests''] = Inr f"
    by (simp add: empty_evidence_state_def canonical_strings_def sorted_set_def make_evidence_def
        evidence_state_post_init_eq Let_def)
  have p: "project_evidence H sample_state sample_action d None (Some sample_gate) = Inr f"
    by (simp add: project_evidence_def action_atoms_def canonical_strings_def sorted_set_def sample_action_def d f
        sample_state_def new_runtime_state_def sample_gate_def project_gate_def Let_def)
  have a: "ac_source_snapshot_hash sample_action = ''s''" "ac_effective_risk sample_action = ''L1''"
      "ac_action_id sample_action = gd_action_id sample_gate" "gd_verdict sample_gate = ''APPROVE''"
      "ac_authority_hash sample_action = am_authority_hash (rs_authority sample_state)"
      "rs_failed_attempts sample_state = []"
    by (simp_all add: sample_action_def sample_gate_def sample_state_def new_runtime_state_def)
  show ?thesis
    unfolding sample_prepared_def prepare_transition_def Let_def
    by (simp add: a b d v p dict_getd_def)
qed


text \<open>C6. The evidence state is independent of the order of observations: absorbing a list of
  admissible observations into a well-formed state succeeds, and any permutation of the list
  leads to the same state, representatives and signature included.\<close>

theorem evidence_order_independent:
  assumes "evidence_state_ok s" and "list_all (observation_ok (fe_atoms s)) obs" and "mset obs = mset obs'"
  shows "\<exists>t. observe_all H obs s = Inr t \<and> observe_all H obs' s = Inr t \<and> evidence_state_ok t"
proof -
  have "evidence_state_ok (fold (put_evidence H) os u)"
    if "evidence_state_ok u" "list_all (observation_ok (fe_atoms u)) os" for os u
    using that by (induction os arbitrary: u) (simp_all add: put_evidence_ok)
  with assms observe_all_perm [OF assms, of H] observe_all_puts [OF assms(1,2), of H] show ?thesis by metis
qed

definition sample_universe :: finite_evidence where
  "sample_universe = make_evidence (\<lambda>s. take 1 s) [''scope'', ''tests''] 0 0 [0, 0] [[], []]"

theorem evidence_order_independent_witness:
  "\<exists>t. observe_all (\<lambda>s. take 1 s) [(''tests'', ''e2'', 9000, False), (''tests'', ''e1'', 9000, True)] sample_universe = Inr t \<and>
     observe_all (\<lambda>s. take 1 s) [(''tests'', ''e1'', 9000, True), (''tests'', ''e2'', 9000, False)] sample_universe = Inr t"
proof -
  have "evidence_state_ok sample_universe"
    by (simp add: evidence_state_ok_def sample_universe_def make_evidence_def)
  moreover have "list_all (observation_ok (fe_atoms sample_universe))
      [(''tests'', ''e2'', 9000, False), (''tests'', ''e1'', 9000, True)]"
    by (simp add: observation_ok_def sample_universe_def make_evidence_def)
  moreover have "mset [(''tests'', ''e2'', 9000, False), (''tests'', ''e1'', 9000, True)] =
      mset [(''tests'', ''e1'', 9000 :: int, True), (''tests'', ''e2'', 9000, False)]"
    by (simp add: add_mset_commute)
  ultimately have "\<exists>t. observe_all (\<lambda>s. take 1 s) [(''tests'', ''e2'', 9000, False), (''tests'', ''e1'', 9000, True)] sample_universe = Inr t \<and>
     observe_all (\<lambda>s. take 1 s) [(''tests'', ''e1'', 9000, True), (''tests'', ''e2'', 9000, False)] sample_universe = Inr t \<and>
     evidence_state_ok t"
    by (rule evidence_order_independent)
  then show ?thesis by blast
qed

text \<open>An update of the evidence state succeeds exactly on an atom of the universe with a
  quality in scale, keeps the invariant and the universe, and never lowers the evidence mass
  that progress is measured by.\<close>

lemma update_evidence_monotone:
  assumes "evidence_state_ok s"
  shows "((\<exists>t. update_evidence H s atom artifact quality conflict = Inr t) \<longleftrightarrow>
        atom \<in> set (fe_atoms s) \<and> in_scale quality) \<and>
    (\<forall>t. update_evidence H s atom artifact quality conflict = Inr t \<longrightarrow>
        evidence_state_ok t \<and> fe_atoms t = fe_atoms s \<and> evidence_mass s \<le> evidence_mass t)"
proof (intro conjI allI impI)
  show "(\<exists>t. update_evidence H s atom artifact quality conflict = Inr t) \<longleftrightarrow> atom \<in> set (fe_atoms s) \<and> in_scale quality"
    using update_evidence_iff [OF assms] by (simp add: observation_ok_def)
next
  fix t assume t: "update_evidence H s atom artifact quality conflict = Inr t"
  then have ob: "observation_ok (fe_atoms s) (atom, artifact, quality, conflict)"
    using update_evidence_iff [OF assms] by blast
  with t update_evidence_put [OF assms ob, of H] have "t = put_evidence H (atom, artifact, quality, conflict) s"
    by simp
  with put_evidence_ok [OF assms ob, of H] evidence_mass_put [OF assms ob, of H]
  show "evidence_state_ok t" "fe_atoms t = fe_atoms s" "evidence_mass s \<le> evidence_mass t"
    by simp_all
qed

text \<open>A progress certificate is accepted exactly when one of the six criteria holds: novel
  evidence with a gain, a goal, risk or boundary improvement of at least one percent, a novel
  experiment of at least one percent expected information, or a terminal transition; and it
  is accepted exactly when it lists a reason.\<close>

lemma progress_accepted_iff:
  assumes "certify_progress H eg ur gi rr br ig ne nx tm = Inr p"
  shows "(pc_accepted p \<longleftrightarrow> (ne \<and> 0 < eg) \<or> 100 \<le> gi \<or> 100 \<le> rr \<or> 100 \<le> br \<or> (nx \<and> 100 \<le> ig) \<or> tm) \<and>
    (pc_accepted p \<longleftrightarrow> pc_reasons p \<noteq> [])"
  using yieldsD [OF certify_progress_cases assms] by blast

text \<open>
  Repeated collisions of one prepared transition: \<open>collided H k p n rs rs'\<close> holds when \<open>n\<close>
  observations of \<open>p\<close> at or above the collision threshold lead from \<open>rs\<close> to \<open>rs'\<close>,
  whether or not the kernel accepted them.
\<close>

inductive collided :: "digest \<Rightarrow> kernel \<Rightarrow> prepared_transition \<Rightarrow> nat \<Rightarrow> runtime_state \<Rightarrow> runtime_state \<Rightarrow> bool"
  for H k p where
  none: "collided H k p 0 rs rs"
| again: "collided H k p n rs rs' \<Longrightarrow> in_scale severity \<Longrightarrow> ke_collision_threshold_bp k \<le> severity \<Longrightarrow>
    accept_observation H k rs' p after severity before metrics scores ms terminal = (rs'', r) \<Longrightarrow>
    collided H k p (Suc n) rs rs''"

lemma collided_count:
  "collided H k p n rs rs' \<Longrightarrow>
   dict_getd (rs_failed_attempts rs') (ak_digest (pt_attempt p)) 0 =
   dict_getd (rs_failed_attempts rs) (ak_digest (pt_attempt p)) 0 + int n"
proof (induction rule: collided.induct)
  case (none rs)
  show ?case by simp
next
  case (again n rs rs' severity after before metrics scores ms terminal rs'' r)
  from accept_observation_counts [OF again(4,2)] again(3,5) show ?case by simp
qed

text \<open>C4. No blind retry: once a prepared attempt has collided more often than the retry limit,
  no transition with that attempt key can be prepared, however the other inputs change;
  collisions count even when the observation itself is refused.\<close>

theorem no_blind_retry:
  assumes "workspace_ok ws" and "collided H k p n rs rs'"
    and "0 \<le> dict_getd (rs_failed_attempts rs) (ak_digest (pt_attempt p)) 0"
  shows "\<not> (\<exists>current a varied evidence scores memberships gate expected q.
     prepare_transition H k ws current rs' a varied evidence scores memberships gate expected = Inr q \<and>
     ak_digest (pt_attempt q) = ak_digest (pt_attempt p) \<and> db_max_retries_per_attempt (pt_budget q) < int n)"
  using collided_count [OF assms(2)] yieldsD [OF prepare_transition_cases [OF assms(1)]] assms(3)
  by fastforce

lemma failed_twice:
  assumes "in_scale (7000 :: int)"
  shows "\<exists>rs'. collided H sample_kernel p 2 rs rs' \<and> rs_governance rs' = rs_governance rs \<and>
    rs_authority rs' = rs_authority rs"
proof -
  have step: "\<exists>rs'' r. accept_observation H sample_kernel rs' p (pt_evidence p) 7000 m m [] [] False = (rs'', r) \<and>
      rs_governance rs'' = rs_governance rs' \<and> rs_authority rs'' = rs_authority rs'" for rs' m
    by (auto simp: accept_observation_def oiec_score_def count_failure_def Let_def split: sum.split prod.split)
  have th: "ke_collision_threshold_bp sample_kernel \<le> 7000" by (simp add: sample_kernel_def)
  obtain m :: transition_metrics where True by simp
  obtain rs1 r1 where 1: "accept_observation H sample_kernel rs p (pt_evidence p) 7000 m m [] [] False = (rs1, r1)"
      "rs_governance rs1 = rs_governance rs" "rs_authority rs1 = rs_authority rs" using step by blast
  obtain rs2 r2 where 2: "accept_observation H sample_kernel rs1 p (pt_evidence p) 7000 m m [] [] False = (rs2, r2)"
      "rs_governance rs2 = rs_governance rs1" "rs_authority rs2 = rs_authority rs1" using step by blast
  have "collided H sample_kernel p (Suc (Suc 0)) rs rs2"
    by (rule collided.again [OF collided.again [OF collided.none assms th 1(1)] assms th 2(1)])
  with 1 2 show ?thesis by (auto simp: numeral_2_eq_2)
qed

theorem no_blind_retry_witness:
  "\<exists>p rs'. sample_prepared id = Inr p \<and> collided id sample_kernel p 2 sample_state rs' \<and>
     \<not> (\<exists>current a varied evidence scores memberships gate expected q.
       prepare_transition id sample_kernel sample_workspace current rs' a varied evidence scores memberships
         gate expected = Inr q \<and>
       ak_digest (pt_attempt q) = ak_digest (pt_attempt p) \<and> db_max_retries_per_attempt (pt_budget q) < int 2)"
proof -
  obtain p where p: "sample_prepared id = Inr p" using sample_prepared_Inr by blast
  obtain rs' where c: "collided id sample_kernel p 2 sample_state rs'" using failed_twice by fastforce
  have "0 \<le> dict_getd (rs_failed_attempts sample_state) (ak_digest (pt_attempt p)) 0"
    by (simp add: sample_state_def new_runtime_state_def dict_getd_def)
  from no_blind_retry [OF sample_workspace_ok c this] p c show ?thesis by blast
qed

end
