(* ===== verification/Transactions.thy ===== *)
theory Transactions
  imports Oiec "HOL-Library.Sublist"
begin

text \<open>
  \<open>ourd/transactions.py\<close>: the transaction manager. A transaction is prepared (candidate bytes
  stored under the state directory, identified by content), applied (targets backed up and
  replaced one by one, everything undone when a step fails), verified, finalised, rolled back
  or discarded. The world is the workspace tree and the files below the state directory; the
  operating system may fail at any of the calls that touch a file, which the parameter \<open>F\<close>
  decides. Unified diffs (\<open>D\<close>) and UTF-8 decoding with replacement (\<open>dec\<close>) are parameters:
  the first is only stored, the second can leave the code points of the model.
\<close>

section \<open>The world\<close>

record world =
  wd_files :: files
  wd_store :: "(string, string \<times> int) dict"

datatype io_event = Backup string | Mkdir string | Temp string | Swap string | Copyback string

type_synonym faults = "io_event \<Rightarrow> bool"

definition node_at :: "files \<Rightarrow> string \<Rightarrow> node option" where
  "node_at fs p = (if p = ''.'' then Some DirN else dict_get fs p)"

definition file_view :: "files \<Rightarrow> string \<Rightarrow> (string \<times> int) option" where
  "file_view fs p = (case node_at fs p of Some (FileN b m) \<Rightarrow> Some (b, m) | _ \<Rightarrow> None)"

text \<open>The proper ancestors of a path below the root.\<close>

definition ancestors :: "string \<Rightarrow> string list" where
  "ancestors p = (let cs = path_parts p in map (\<lambda>i. join ''/'' (take i cs)) [1..<length cs])"

text \<open>\<open>target.parent.mkdir(parents=True, exist_ok=True)\<close>.\<close>

definition make_parents :: "string \<Rightarrow> files \<Rightarrow> files res" where
  "make_parents p fs =
     (if list_ex (\<lambda>q. file_view fs q \<noteq> None) (ancestors p) then Inl (OSError ''not a directory'')
      else Inr (foldl (\<lambda>d q. if node_at d q = None then dict_set q DirN d else d) fs (ancestors p)))"

definition parent_of :: "string \<Rightarrow> string" where
  "parent_of p = (let as = ancestors p in if as = [] then ''.'' else last as)"

section \<open>Texts\<close>

text \<open>\<open>json.dumps(v, indent=2)\<close>; with \<open>ensure_ascii\<close> on, what is not printable ASCII is escaped.\<close>

definition ascii_escape :: "string \<Rightarrow> string" where
  "ascii_escape s = concat (map (\<lambda>c. let n = (of_char c :: nat) in
     if 32 \<le> n \<and> n < 127 \<or> n = 10 then [c]
     else [CHR 0x5C, CHR ''u'', CHR ''0'', CHR ''0'', hex_digit (n div 16), hex_digit (n mod 16)]) s)"

definition newline_indent :: "nat \<Rightarrow> string" where
  "newline_indent k = char_of (10 :: nat) # replicate (2 * k) (CHR '' '')"

fun pretty :: "nat \<Rightarrow> json \<Rightarrow> string" where
  "pretty k (JList vs) =
     (if vs = [] then ''[]''
      else ''['' @ newline_indent (Suc k) @ join ('','' @ newline_indent (Suc k)) (map (pretty (Suc k)) vs)
           @ newline_indent k @ '']'')"
| "pretty k (JObj kvs) =
     (if kvs = [] then ''{}''
      else ''{'' @ newline_indent (Suc k) @ join ('','' @ newline_indent (Suc k))
             (map (\<lambda>kv. enc_str (fst kv) @ '': '' @ pretty (Suc k) (snd kv)) kvs)
           @ newline_indent k @ ''}'')"
| "pretty k v = default_json v"

definition json_opt :: "('a \<Rightarrow> json) \<Rightarrow> 'a option \<Rightarrow> json" where
  "json_opt f x = (case x of None \<Rightarrow> JNull | Some y \<Rightarrow> f y)"

definition backup_json :: "backup_entry \<Rightarrow> json" where
  "backup_json m = JObj [(''existed'', JBool (bk_existed m)), (''mode'', json_opt JInt (bk_mode m)),
     (''sha256'', json_opt JStr (bk_sha256 m)), (''backup'', JStr (bk_backup m))]"

definition transaction_json :: "transaction_record \<Rightarrow> json" where
  "transaction_json r = JObj [
     (''transaction_id'', JStr (tx_transaction_id r)), (''operation'', JStr (tx_operation r)),
     (''targets'', jstrs (tx_targets r)), (''source_snapshot_hash'', JStr (tx_source_snapshot_hash r)),
     (''candidate_hash'', JStr (tx_candidate_hash r)),
     (''candidate_files'', JObj (map (\<lambda>(k, v). (k, JStr v)) (tx_candidate_files r))),
     (''original_hashes'', JObj (map (\<lambda>(k, v). (k, json_opt JStr v)) (tx_original_hashes r))),
     (''diff'', JStr (tx_diff r)), (''authority_hash'', JStr (tx_authority_hash r)),
     (''status'', JStr (tx_status r)), (''action_id'', JStr (tx_action_id r)),
     (''applied_hashes'', JObj (map (\<lambda>(k, v). (k, JStr v)) (tx_applied_hashes r))),
     (''applied_snapshot_hash'', JStr (tx_applied_snapshot_hash r)),
     (''backup_manifest'', JObj (map (\<lambda>(k, v). (k, backup_json v)) (tx_backup_manifest r))),
     (''verification_evidence_ids'', jstrs (tx_verification_evidence_ids r))]"

section \<open>Preparing\<close>

definition transaction_dir :: "string \<Rightarrow> string" where
  "transaction_dir i = ''transactions/'' @ i @ ''/''"

definition candidate_path :: "byte_digest \<Rightarrow> string \<Rightarrow> string \<Rightarrow> string" where
  "candidate_path B i target = transaction_dir i @ ''candidate/'' @ text_digest B target"

definition backup_path :: "byte_digest \<Rightarrow> string \<Rightarrow> string \<Rightarrow> string" where
  "backup_path B i target = transaction_dir i @ ''original/'' @ text_digest B target"

definition record_path :: "string \<Rightarrow> string" where
  "record_path i = transaction_dir i @ ''transaction.json''"

definition write_record :: "transaction_record \<Rightarrow> world \<Rightarrow> world" where
  "write_record r w = w\<lparr>wd_store := dict_set (record_path (tx_transaction_id r))
     (pretty 0 (transaction_json r) @ [char_of (10 :: nat)], 384) (wd_store w)\<rparr>"

text \<open>\<open>target.read_bytes() if target.exists() else None\<close>.\<close>

definition read_original :: "files \<Rightarrow> string \<Rightarrow> string option res" where
  "read_original fs p = (case node_at fs p of None \<Rightarrow> Inr None | Some DirN \<Rightarrow> Inl (OSError ''is a directory'')
     | Some (FileN b m) \<Rightarrow> Inr (Some b))"

definition hashes_json :: "(string, string) dict \<Rightarrow> json" where
  "hashes_json d = JObj (map (\<lambda>(k, v). (k, JStr v)) d)"

definition transaction_material :: "string \<Rightarrow> string list \<Rightarrow> string \<Rightarrow> string \<Rightarrow> json" where
  "transaction_material operation targets snap candidate_hash = JObj [
     (''operation'', JStr operation), (''targets'', jstrs targets),
     (''source_snapshot_hash'', JStr snap), (''candidate_hash'', JStr candidate_hash)]"

type_synonym differ = "(string \<times> string option \<times> string) list \<Rightarrow> string"

definition prepare_candidates ::
  "byte_digest \<Rightarrow> differ \<Rightarrow> string \<Rightarrow> (string, string) dict \<Rightarrow> (string, string option) dict \<Rightarrow>
   world \<Rightarrow> runtime_state \<Rightarrow> world \<times> runtime_state \<times> transaction_record" where
  "prepare_candidates B D operation candidates originals w rs =
     (let snap = snapshot_hash B (wd_files w);
          candidate_hash = stable_hash (text_digest B) (hashes_json (map (\<lambda>(p, c). (p, B c)) candidates));
          targets = sort (map fst candidates);
          i = stable_hash (text_digest B) (transaction_material operation targets snap candidate_hash);
          r = \<lparr> tx_transaction_id = i, tx_operation = operation, tx_targets = targets,
                tx_source_snapshot_hash = snap, tx_candidate_hash = candidate_hash,
                tx_candidate_files = map (\<lambda>(p, c). (p, candidate_path B i p)) candidates,
                tx_original_hashes = map (\<lambda>(p, c). (p, map_option B c)) originals,
                tx_diff = D (map (\<lambda>(p, c). (p, dict_getd originals p None, c)) candidates),
                tx_authority_hash = am_authority_hash (rs_authority rs), tx_status = ''PREPARED'',
                tx_action_id = [], tx_applied_hashes = [], tx_applied_snapshot_hash = [],
                tx_backup_manifest = [], tx_verification_evidence_ids = [] \<rparr>;
          w1 = w\<lparr>wd_store := foldl (\<lambda>d (p, c). dict_set (candidate_path B i p) (c, 420) d) (wd_store w) candidates\<rparr>
      in (write_record r w1, rs\<lparr>rs_transactions := dict_set i r (rs_transactions rs)\<rparr>, r))"

definition prepare_write ::
  "workspace \<Rightarrow> byte_digest \<Rightarrow> differ \<Rightarrow> string \<Rightarrow> string \<Rightarrow> world \<Rightarrow> runtime_state \<Rightarrow>
   (world \<times> runtime_state \<times> transaction_record) res" where
  "prepare_write ws B D path new_text w rs =
     bindR (canonical ws path False) (\<lambda>c.
     bindR (resolve_path ws c False) (\<lambda>t.
     bindR (read_original (wd_files w) t) (\<lambda>original.
       Inr (prepare_candidates B D ''write_file'' [(c, utf8 new_text)] [(c, original)] w rs))))"

text \<open>
  \<open>Path.read_text\<close> opens in text mode, which reads every line ending as a line feed;
  \<open>bytes.decode\<close>, which \<open>prepare_changes\<close> uses, leaves them alone.
\<close>

fun universal_newlines :: "string \<Rightarrow> string" where
  "universal_newlines [] = []"
| "universal_newlines (c # cs) =
     (if c = CHR 0x0D then CHR 0x0A # (case cs of [] \<Rightarrow> [] | d # ds \<Rightarrow>
        if d = CHR 0x0A then universal_newlines ds else universal_newlines cs)
      else c # universal_newlines cs)"

definition prepare_replace ::
  "workspace \<Rightarrow> byte_digest \<Rightarrow> differ \<Rightarrow> (string \<Rightarrow> string) \<Rightarrow> string \<Rightarrow> string \<Rightarrow> string \<Rightarrow> int \<Rightarrow> world \<Rightarrow>
   runtime_state \<Rightarrow> (world \<times> runtime_state \<times> transaction_record) res" where
  "prepare_replace ws B D dec path old new limit w rs =
     bindR (canonical ws path False) (\<lambda>c.
     bindR (resolve_path ws c False) (\<lambda>t.
       case node_at (wd_files w) t of
         Some (FileN b m) \<Rightarrow>
           let original = universal_newlines (dec b)
           in if \<not> contains old original then Inl (PolicyError ''old text not found'')
              else let text = replace_text old new (if limit < 0 then None else Some (nat limit)) original
                in Inr (prepare_candidates B D ''replace_text'' [(c, utf8 text)] [(c, Some b)] w rs)
       | _ \<Rightarrow> Inl (PolicyError ''replace target does not exist'')))"

text \<open>A requested change: a write, a replacement (with its count), or an unknown type.\<close>

datatype change = WriteC string string | ReplaceC string string string int | OtherC string string

fun change_path :: "change \<Rightarrow> string" where
  "change_path (WriteC p new_text) = p"
| "change_path (ReplaceC p old new limit) = p"
| "change_path (OtherC type p) = p"

fun change_type :: "change \<Rightarrow> string" where
  "change_type (WriteC p new_text) = ''write''"
| "change_type (ReplaceC p old new limit) = ''replace''"
| "change_type (OtherC type p) = type"

fun candidate_bytes :: "(string \<Rightarrow> string) \<Rightarrow> change \<Rightarrow> string option \<Rightarrow> string res" where
  "candidate_bytes dec (WriteC p new_text) original = Inr (utf8 new_text)"
| "candidate_bytes dec (ReplaceC p old new limit) original =
     (case original of
        None \<Rightarrow> Inl (PolicyError ''replace target does not exist'')
      | Some b \<Rightarrow>
          if old = [] \<or> \<not> contains old (dec b) then Inl (PolicyError ''old text not found'')
          else Inr (utf8 (replace_text old new (if limit < 0 then None else Some (nat limit)) (dec b))))"
| "candidate_bytes dec (OtherC type p) original = Inl (PolicyError ''unsupported transaction change type'')"

definition collect_change ::
  "workspace \<Rightarrow> (string \<Rightarrow> string) \<Rightarrow> files \<Rightarrow> change \<Rightarrow>
   (string, string) dict \<times> (string, string option) dict \<times> string list \<Rightarrow>
   ((string, string) dict \<times> (string, string option) dict \<times> string list) res" where
  "collect_change ws dec fs c acc = (case acc of (candidates, originals, operations) \<Rightarrow>
     bindR (canonical ws (change_path c) False) (\<lambda>p.
       if dict_get candidates p \<noteq> None then Inl (PolicyError ''duplicate transaction target'')
       else bindR (resolve_path ws p False) (\<lambda>t.
            bindR (read_original fs t) (\<lambda>original.
            bindR (candidate_bytes dec c original) (\<lambda>candidate.
              Inr (dict_set p candidate candidates, dict_set p original originals,
                   operations @ [change_type c]))))))"

definition prepare_changes ::
  "workspace \<Rightarrow> byte_digest \<Rightarrow> differ \<Rightarrow> (string \<Rightarrow> string) \<Rightarrow> change list \<Rightarrow> world \<Rightarrow> runtime_state \<Rightarrow>
   (world \<times> runtime_state \<times> transaction_record) res" where
  "prepare_changes ws B D dec changes w rs =
     (if changes = [] then Inl (PolicyError ''multi-file transaction requires at least one change'')
      else bindR (foldR (collect_change ws dec (wd_files w)) changes ([], [], [])) (\<lambda>(candidates, originals, operations).
        let operation = (if length candidates > 1 then ''multi_file''
                         else if length (remdups operations) = 1 then hd operations else ''multi_file'')
        in Inr (prepare_candidates B D operation candidates originals w rs)))"

section \<open>Applying and undoing\<close>

definition verify_candidate :: "byte_digest \<Rightarrow> world \<Rightarrow> transaction_record \<Rightarrow> unit res" where
  "verify_candidate B w r =
     bindR (mapR (\<lambda>(t, stored). case dict_get (wd_store w) stored of
              None \<Rightarrow> Inl (PolicyError ''candidate artifact missing'')
            | Some (b, m) \<Rightarrow> Inr (t, B b)) (tx_candidate_files r)) (\<lambda>observed.
       if stable_hash (text_digest B) (hashes_json observed) \<noteq> tx_candidate_hash r
         then Inl (PolicyError ''candidate hash mismatch'')
       else Inr ())"

text \<open>
  One round of \<open>_restore\<close>. A target without an entry in the manifest is treated as one that
  did not exist. Copying over a directory copies into it, as \<open>shutil.copy2\<close> does.
\<close>

definition restore_one ::
  "workspace \<Rightarrow> byte_digest \<Rightarrow> faults \<Rightarrow> transaction_record \<Rightarrow> string \<Rightarrow> world \<Rightarrow> world \<times> unit res" where
  "restore_one ws B F r name w =
     (case resolve_path ws name False of
        Inl e \<Rightarrow> (w, Inl e)
      | Inr t \<Rightarrow>
        let meta = dict_get (tx_backup_manifest r) name;
            existed = (case meta of Some m \<Rightarrow> bk_existed m | None \<Rightarrow> False);
            step = (if existed then
                let m = the meta in
                (case dict_get (wd_store w) (bk_backup m) of
                   None \<Rightarrow> (w, Inl (PolicyError ''rollback backup missing''))
                 | Some (bytes, saved_mode) \<Rightarrow>
                   (case make_parents t (wd_files w) of
                      Inl e \<Rightarrow> (w, Inl e)
                    | Inr fs \<Rightarrow>
                        if F (Copyback name) then (w\<lparr>wd_files := fs\<rparr>, Inl (OSError ''copy failed''))
                        else if node_at fs t = Some DirN
                          then (w\<lparr>wd_files := dict_set (t @ ''/'' @ last (path_parts (bk_backup m))) (FileN bytes saved_mode) fs\<rparr>, Inr ())
                        else (w\<lparr>wd_files := dict_set t (FileN bytes (case bk_mode m of Some md \<Rightarrow> md | None \<Rightarrow> saved_mode)) fs\<rparr>, Inr ())))
              else (case node_at (wd_files w) t of
                   None \<Rightarrow> (w, Inr ())
                 | Some DirN \<Rightarrow> (w, Inl (OSError ''is a directory''))
                 | Some (FileN b md) \<Rightarrow>
                     if F (Copyback name) then (w, Inl (OSError ''unlink failed''))
                     else (w\<lparr>wd_files := dict_pop t (wd_files w)\<rparr>, Inr ())))
        in (case step of
              (w', Inl e) \<Rightarrow> (w', Inl e)
            | (w', Inr _) \<Rightarrow>
                if (case meta of Some m \<Rightarrow> bk_sha256 m | None \<Rightarrow> None) \<noteq> file_hash_or_none B (wd_files w') t
                  then (w', Inl (PolicyError ''rollback hash mismatch''))
                else (w', Inr ())))"

primrec restore_all ::
  "workspace \<Rightarrow> byte_digest \<Rightarrow> faults \<Rightarrow> transaction_record \<Rightarrow> string list \<Rightarrow> world \<Rightarrow> world \<times> unit res" where
  "restore_all ws B F r [] w = (w, Inr ())"
| "restore_all ws B F r (t # ts) w =
     (case restore_one ws B F r t w of (w', Inl e) \<Rightarrow> (w', Inl e) | (w', Inr _) \<Rightarrow> restore_all ws B F r ts w')"

definition restore :: "workspace \<Rightarrow> byte_digest \<Rightarrow> faults \<Rightarrow> transaction_record \<Rightarrow> string list \<Rightarrow> world \<Rightarrow> world \<times> unit res" where
  "restore ws B F r applied w = restore_all ws B F r (rev applied) w"

text \<open>
  The loop of \<open>apply\<close>. The state is the world, the record (a Python object, so what the loop
  wrote into it stays when the loop fails) and the targets replaced so far. The temporary file
  is removed on every path, so it never shows in the tree; a new file gets the permissions of
  \<open>mkstemp\<close> (0600).
\<close>

record apply_state =
  ap_world :: world
  ap_record :: transaction_record
  ap_applied :: "string list"

definition backup_target ::
  "byte_digest \<Rightarrow> faults \<Rightarrow> string \<Rightarrow> string \<Rightarrow> apply_state \<Rightarrow> apply_state \<times> int option res" where
  "backup_target B F name t s =
     (let w = ap_world s; r = ap_record s; place = backup_path B (tx_transaction_id r) name;
          manifest = (\<lambda>e. r\<lparr>tx_backup_manifest := dict_set name e (tx_backup_manifest r)\<rparr>)
      in case node_at (wd_files w) t of
           Some DirN \<Rightarrow> (s, Inl (OSError ''is a directory''))
         | Some (FileN b m) \<Rightarrow>
             if F (Backup name) then (s, Inl (OSError ''backup failed''))
             else (s\<lparr>ap_world := w\<lparr>wd_store := dict_set place (b, m) (wd_store w)\<rparr>,
                     ap_record := manifest \<lparr> bk_existed = True, bk_mode = Some m, bk_sha256 = Some (B b), bk_backup = place \<rparr>\<rparr>,
                   Inr (Some m))
         | None \<Rightarrow>
             (s\<lparr>ap_record := manifest \<lparr> bk_existed = False, bk_mode = None, bk_sha256 = None, bk_backup = [] \<rparr>\<rparr>, Inr None))"

definition replace_target ::
  "byte_digest \<Rightarrow> faults \<Rightarrow> string \<Rightarrow> string \<Rightarrow> string \<Rightarrow> int option \<Rightarrow> apply_state \<Rightarrow> apply_state \<times> unit res" where
  "replace_target B F name t stored old_mode s =
     (let w = ap_world s; r = ap_record s in
      if F (Mkdir name) then (s, Inl (OSError ''mkdir failed''))
      else case make_parents t (wd_files w) of Inl e \<Rightarrow> (s, Inl e) | Inr fs \<Rightarrow>
        if F (Temp name) then (s\<lparr>ap_world := w\<lparr>wd_files := fs\<rparr>\<rparr>, Inl (OSError ''temporary file failed''))
        else case dict_get (wd_store w) stored of
            None \<Rightarrow> (s\<lparr>ap_world := w\<lparr>wd_files := fs\<rparr>\<rparr>, Inl (OSError ''candidate missing''))
          | Some (bytes, m) \<Rightarrow>
              if F (Swap name) then (s\<lparr>ap_world := w\<lparr>wd_files := fs\<rparr>\<rparr>, Inl (OSError ''replace failed''))
              else
                let fs' = dict_set t (FileN bytes (case old_mode of Some md \<Rightarrow> md | None \<Rightarrow> 384)) fs;
                    s' = s\<lparr>ap_world := w\<lparr>wd_files := fs'\<rparr>, ap_applied := ap_applied s @ [name]\<rparr>
                in if file_hash_or_none B fs' t \<noteq> Some (B bytes) then (s', Inl (PolicyError ''post-write hash mismatch''))
                   else (s'\<lparr>ap_record := r\<lparr>tx_applied_hashes := dict_set name (B bytes) (tx_applied_hashes r)\<rparr>\<rparr>, Inr ()))"

definition apply_one ::
  "workspace \<Rightarrow> byte_digest \<Rightarrow> faults \<Rightarrow> string \<Rightarrow> apply_state \<Rightarrow> apply_state \<times> unit res" where
  "apply_one ws B F name s =
     (case resolve_path ws name False of Inl e \<Rightarrow> (s, Inl e) | Inr t \<Rightarrow>
      case dict_get (tx_candidate_files (ap_record s)) name of None \<Rightarrow> (s, Inl (KeyError ''target'')) | Some stored \<Rightarrow>
      case backup_target B F name t s of (s1, Inl e) \<Rightarrow> (s1, Inl e) | (s1, Inr m) \<Rightarrow> replace_target B F name t stored m s1)"

primrec apply_targets ::
  "workspace \<Rightarrow> byte_digest \<Rightarrow> faults \<Rightarrow> string list \<Rightarrow> apply_state \<Rightarrow> apply_state \<times> unit res" where
  "apply_targets ws B F [] s = (s, Inr ())"
| "apply_targets ws B F (t # ts) s =
     (case apply_one ws B F t s of (s', Inl e) \<Rightarrow> (s', Inl e) | (s', Inr _) \<Rightarrow> apply_targets ws B F ts s')"

type_synonym tx_result = "world \<times> transaction_record \<times> unit res"

definition apply_transaction ::
  "workspace \<Rightarrow> byte_digest \<Rightarrow> faults \<Rightarrow> world \<Rightarrow> transaction_record \<Rightarrow> tx_result" where
  "apply_transaction ws B F w r =
     (if tx_status r \<noteq> ''PREPARED'' then (w, r, Inl (PolicyError ''transaction is not prepared''))
      else if snapshot_hash B (wd_files w) \<noteq> tx_source_snapshot_hash r
        then (w, r, Inl (PolicyError ''source drift blocks transaction apply''))
      else case verify_candidate B w r of Inl e \<Rightarrow> (w, r, Inl e) | Inr _ \<Rightarrow>
        (case apply_targets ws B F (tx_targets r) \<lparr> ap_world = w, ap_record = r, ap_applied = [] \<rparr> of
           (s, Inl e) \<Rightarrow>
             (case restore ws B F (ap_record s) (ap_applied s) (ap_world s) of
                (w', Inl e') \<Rightarrow> (w', ap_record s, Inl e')
              | (w', Inr _) \<Rightarrow> (w', ap_record s, Inl e))
         | (s, Inr _) \<Rightarrow>
             let r' = (ap_record s)\<lparr>tx_applied_snapshot_hash := snapshot_hash B (wd_files (ap_world s)),
                       tx_status := ''APPLIED''\<rparr>
             in (write_record r' (ap_world s), r', Inr ())))"

definition verify_applied :: "workspace \<Rightarrow> byte_digest \<Rightarrow> world \<Rightarrow> transaction_record \<Rightarrow> unit res" where
  "verify_applied ws B w r =
     (if tx_status r \<notin> {''APPLIED'', ''VERIFIED''} then Inl (PolicyError ''transaction is not applied'')
      else bindR (eachR (\<lambda>(name, expected). bindR (resolve_path ws name False) (\<lambda>t.
             if file_hash_or_none B (wd_files w) t \<noteq> Some expected
               then Inl (PolicyError ''applied target hash mismatch'') else Inr ())) (tx_applied_hashes r)) (\<lambda>_.
        if tx_applied_snapshot_hash r \<noteq> [] \<and> snapshot_hash B (wd_files w) \<noteq> tx_applied_snapshot_hash r
          then Inl (PolicyError ''workspace changed after transaction apply'')
        else Inr ()))"

definition finalize_transaction :: "string list \<Rightarrow> world \<Rightarrow> transaction_record \<Rightarrow> tx_result" where
  "finalize_transaction evidence_ids w r =
     (if tx_status r \<noteq> ''APPLIED'' then (w, r, Inl (PolicyError ''only an applied transaction can be finalized''))
      else let r' = r\<lparr>tx_verification_evidence_ids := from_keys evidence_ids, tx_status := ''VERIFIED''\<rparr>
           in (write_record r' w, r', Inr ()))"

definition rollback_transaction ::
  "workspace \<Rightarrow> byte_digest \<Rightarrow> faults \<Rightarrow> world \<Rightarrow> transaction_record \<Rightarrow> tx_result" where
  "rollback_transaction ws B F w r =
     (if tx_status r \<notin> {''APPLIED'', ''VERIFIED''} then (w, r, Inl (PolicyError ''transaction cannot be rolled back''))
      else case restore ws B F r (tx_targets r) w of
        (w', Inl e) \<Rightarrow> (w', r, Inl e)
      | (w', Inr _) \<Rightarrow> let r' = r\<lparr>tx_status := ''ROLLED_BACK''\<rparr> in (write_record r' w', r', Inr ()))"

definition discard_transaction :: "world \<Rightarrow> transaction_record \<Rightarrow> tx_result" where
  "discard_transaction w r =
     (if tx_status r \<noteq> ''PREPARED'' then (w, r, Inl (PolicyError ''only a prepared transaction can be discarded''))
      else let r' = r\<lparr>tx_status := ''DISCARDED''\<rparr> in (write_record r' w, r', Inr ()))"

section \<open>Undoing is exact\<close>

text \<open>A tree as the file system has it: what lies above a file is a directory.\<close>

definition tree_closed :: "files \<Rightarrow> bool" where
  "tree_closed fs \<longleftrightarrow> dict_get fs ''.'' = None \<and>
     (\<forall>(p, nd) \<in> set fs. (case nd of FileN b m \<Rightarrow> list_all (\<lambda>q. node_at fs q = Some DirN) (ancestors p) | DirN \<Rightarrow> True))"

lemma tree_closed_ancestors: "tree_closed fs \<Longrightarrow> file_view fs p \<noteq> None \<Longrightarrow> q \<in> set (ancestors p) \<Longrightarrow> node_at fs q = Some DirN"
  by (auto simp: tree_closed_def file_view_def node_at_def list_all_iff split: option.splits node.splits if_splits dest!: map_of_SomeD)

lemma file_view_Some: "file_view fs p = Some (b, m) \<longleftrightarrow> node_at fs p = Some (FileN b m)"
  by (auto simp: file_view_def split: option.splits node.splits)

lemma file_view_None: "file_view fs p = None \<longleftrightarrow> node_at fs p = None \<or> node_at fs p = Some DirN"
  by (auto simp: file_view_def split: option.splits node.splits)

lemma node_at_set: "t \<noteq> ''.'' \<Longrightarrow> node_at (dict_set t nd fs) p = (if p = t then Some nd else node_at fs p)"
  by (simp add: node_at_def)

lemma node_at_pop: "t \<noteq> ''.'' \<Longrightarrow> node_at (dict_pop t fs) p = (if p = t then None else node_at fs p)"
  by (simp add: node_at_def)

lemma mkdirs_node_at:
  "node_at (foldl (\<lambda>d q. if node_at d q = None then dict_set q DirN d else d) fs qs) p =
     (if node_at fs p = None \<and> p \<in> set qs then Some DirN else node_at fs p)"
proof (induction qs arbitrary: fs)
  case Nil
  show ?case by simp
next
  case (Cons q qs)
  have "q \<noteq> ''.''" if "node_at fs q = None" using that by (auto simp: node_at_def)
  then show ?case using Cons.IH by (auto simp: node_at_set)
qed

lemma make_parents_node_at:
  "make_parents t fs = Inr fs' \<Longrightarrow>
     node_at fs' p = (if node_at fs p = None \<and> p \<in> set (ancestors t) then Some DirN else node_at fs p)"
  unfolding make_parents_def using mkdirs_node_at [of fs "ancestors t" p] by (metis (no_types, lifting) Inr_inject sum.simps(4))

lemma make_parents_there:
  "(\<And>q. q \<in> set (ancestors t) \<Longrightarrow> node_at fs q = Some DirN) \<Longrightarrow> make_parents t fs = Inr fs"
proof -
  assume a: "\<And>q. q \<in> set (ancestors t) \<Longrightarrow> node_at fs q = Some DirN"
  have "foldl (\<lambda>d q. if node_at d q = None then dict_set q DirN d else d) fs qs = fs"
    if "\<And>q. q \<in> set qs \<Longrightarrow> node_at fs q = Some DirN" for qs
    using that by (induction qs) simp_all
  with a show ?thesis by (auto simp: make_parents_def list_ex_iff file_view_def)
qed

text \<open>
  What the manifest must say about a target for \<open>_restore\<close> to bring back its original in the
  tree \<open>fs0\<close>, and the invariant of the loop of \<open>apply\<close> started on \<open>fs0\<close>.
\<close>

definition faithful :: "byte_digest \<Rightarrow> files \<Rightarrow> world \<Rightarrow> transaction_record \<Rightarrow> string \<Rightarrow> bool" where
  "faithful B fs0 w r t \<longleftrightarrow> (\<exists>e. dict_get (tx_backup_manifest r) t = Some e \<and>
     (case file_view fs0 t of
        None \<Rightarrow> \<not> bk_existed e \<and> bk_sha256 e = None
      | Some (b, m) \<Rightarrow> bk_existed e \<and> bk_mode e = Some m \<and> bk_sha256 e = Some (B b) \<and>
          bk_backup e = backup_path B (tx_transaction_id r) t \<and> dict_get (wd_store w) (bk_backup e) = Some (b, m)))"

definition undoable :: "byte_digest \<Rightarrow> files \<Rightarrow> string list \<Rightarrow> world \<Rightarrow> transaction_record \<Rightarrow> bool" where
  "undoable B fs0 applied w r \<longleftrightarrow>
     (\<forall>p. node_at fs0 p = Some DirN \<longrightarrow> node_at (wd_files w) p = Some DirN) \<and>
     (\<forall>p. p \<notin> set applied \<longrightarrow> file_view (wd_files w) p = file_view fs0 p) \<and>
     (\<forall>t \<in> set applied. faithful B fs0 w r t \<and> file_view (wd_files w) t \<noteq> None)"

lemma faithful_cong:
  "tx_transaction_id r' = tx_transaction_id r \<Longrightarrow>
   dict_get (tx_backup_manifest r') t = dict_get (tx_backup_manifest r) t \<Longrightarrow>
   dict_get (wd_store w') (backup_path B (tx_transaction_id r) t) = dict_get (wd_store w) (backup_path B (tx_transaction_id r) t) \<Longrightarrow>
   faithful B fs0 w' r' t = faithful B fs0 w r t"
  by (auto simp: faithful_def split: option.splits)

lemma undoable_extend:
  assumes "undoable B fs0 applied w r"
    and "\<And>p. node_at (wd_files w') p = node_at (wd_files w) p \<or>
      node_at (wd_files w) p = None \<and> node_at (wd_files w') p = Some DirN"
    and "\<And>t. t \<in> set applied \<Longrightarrow> faithful B fs0 w' r' t = faithful B fs0 w r t"
  shows "undoable B fs0 applied w' r'"
proof -
  have v: "file_view (wd_files w') p = file_view (wd_files w) p" for p
    using assms(2) [of p] by (auto simp: file_view_def)
  have "node_at (wd_files w') p = Some DirN" if "node_at (wd_files w) p = Some DirN" for p
    using assms(2) [of p] that by auto
  with assms(1,3) show ?thesis by (simp add: undoable_def v)
qed

lemma backup_target_undoable:
  assumes "undoable B fs0 (ap_applied s) (ap_world s) (ap_record s)" and "name \<notin> set (ap_applied s)"
    and "inj_on (text_digest B) (insert name (set (ap_applied s)))"
    and "backup_target B F name name s = (s1, m)"
  shows "undoable B fs0 (ap_applied s) (ap_world s1) (ap_record s1) \<and> ap_applied s1 = ap_applied s \<and>
    wd_files (ap_world s1) = wd_files (ap_world s) \<and>
    tx_transaction_id (ap_record s1) = tx_transaction_id (ap_record s) \<and>
    (case m of Inl e \<Rightarrow> True | Inr md \<Rightarrow> faithful B fs0 (ap_world s1) (ap_record s1) name \<and>
       md = map_option snd (file_view fs0 name) \<and> node_at (wd_files (ap_world s)) name \<noteq> Some DirN)"
proof -
  let ?w = "ap_world s" and ?r = "ap_record s"
  have here: "file_view (wd_files ?w) name = file_view fs0 name" using assms(1,2) by (simp add: undoable_def)
  have apart: "backup_path B i t \<noteq> backup_path B i name" if "t \<in> set (ap_applied s)" for t i
  proof
    assume "backup_path B i t = backup_path B i name"
    then have "text_digest B t = text_digest B name" by (simp add: backup_path_def)
    from inj_onD [OF assms(3) this] that have "t = name" by simp
    with that assms(2) show False by simp
  qed
  show ?thesis
  proof (cases "node_at (wd_files ?w) name")
    case None
    then have s1: "m = Inr None" "s1 = s\<lparr>ap_record := ?r\<lparr>tx_backup_manifest :=
          dict_set name \<lparr> bk_existed = False, bk_mode = None, bk_sha256 = None, bk_backup = [] \<rparr> (tx_backup_manifest ?r)\<rparr>\<rparr>"
      using assms(4) by (simp_all add: backup_target_def Let_def)
    have v: "file_view fs0 name = None" using here None by (simp add: file_view_def)
    have "undoable B fs0 (ap_applied s) ?w (ap_record s1)"
    proof (rule undoable_extend [OF assms(1)])
      show "faithful B fs0 ?w (ap_record s1) t = faithful B fs0 ?w ?r t" if "t \<in> set (ap_applied s)" for t
        using that assms(2) s1 by (intro faithful_cong) auto
    qed simp
    moreover have "faithful B fs0 ?w (ap_record s1) name" using v s1 by (simp add: faithful_def)
    ultimately show ?thesis using s1 v None by simp
  next
    case (Some nd)
    show ?thesis
    proof (cases nd)
      case DirN
      then show ?thesis using Some assms(1,4) by (auto simp: backup_target_def Let_def)
    next
      case (FileN b md)
      show ?thesis
      proof (cases "F (Backup name)")
        case True
        then show ?thesis using Some FileN assms(1,4) by (auto simp: backup_target_def Let_def)
      next
        case False
        let ?p = "backup_path B (tx_transaction_id ?r) name"
        have s1: "m = Inr (Some md)" "s1 = s\<lparr>ap_world := ?w\<lparr>wd_store := dict_set ?p (b, md) (wd_store ?w)\<rparr>,
            ap_record := ?r\<lparr>tx_backup_manifest := dict_set name
              \<lparr> bk_existed = True, bk_mode = Some md, bk_sha256 = Some (B b), bk_backup = ?p \<rparr> (tx_backup_manifest ?r)\<rparr>\<rparr>"
          using assms(4) Some FileN False by (simp_all add: backup_target_def Let_def)
        have v: "file_view fs0 name = Some (b, md)" using here Some FileN by (simp add: file_view_def)
        have "undoable B fs0 (ap_applied s) (ap_world s1) (ap_record s1)"
        proof (rule undoable_extend [OF assms(1)])
          show "faithful B fs0 (ap_world s1) (ap_record s1) t = faithful B fs0 ?w ?r t" if "t \<in> set (ap_applied s)" for t
            using that assms(2) s1 apart by (intro faithful_cong) auto
        qed (use s1 in simp)
        moreover have "faithful B fs0 (ap_world s1) (ap_record s1) name" using v s1 by (simp add: faithful_def)
        ultimately show ?thesis using s1 v Some FileN by simp
      qed
    qed
  qed
qed

definition resolvable :: "workspace \<Rightarrow> string list \<Rightarrow> bool" where
  "resolvable ws ts \<longleftrightarrow> (\<forall>t \<in> set ts. canonical ws t False = Inr t \<and> t \<noteq> ''.'')"

lemma resolvable_resolve: "resolvable ws ts \<Longrightarrow> t \<in> set ts \<Longrightarrow> resolve_path ws t False = Inr t"
  by (simp add: resolvable_def resolve_path_def)

lemma restore_one_undoes:
  assumes "tree_closed fs0" and "undoable B fs0 (applied @ [t]) w r" and "t \<notin> set applied"
    and "resolve_path ws t False = Inr t" and "t \<noteq> ''.''" and "\<not> F (Copyback t)"
  shows "\<exists>w'. restore_one ws B F r t w = (w', Inr ()) \<and> undoable B fs0 applied w' r"
proof -
  let ?fs = "wd_files w"
  from assms(2) have dirs: "\<And>p. node_at fs0 p = Some DirN \<Longrightarrow> node_at ?fs p = Some DirN"
    and same: "\<And>p. p \<notin> set (applied @ [t]) \<Longrightarrow> file_view ?fs p = file_view fs0 p"
    and app: "\<And>p. p \<in> set (applied @ [t]) \<Longrightarrow> faithful B fs0 w r p \<and> file_view ?fs p \<noteq> None"
    unfolding undoable_def by blast+
  have ft: "faithful B fs0 w r t" "file_view ?fs t \<noteq> None" using app by simp_all
  then obtain e where e: "dict_get (tx_backup_manifest r) t = Some e" unfolding faithful_def by blast
  from ft(2) obtain b1 m1 where t: "node_at ?fs t = Some (FileN b1 m1)" by (auto simp: file_view_Some)
  have keep: "undoable B fs0 applied (w\<lparr>wd_files := fs'\<rparr>) r"
    if "\<And>p. p \<noteq> t \<Longrightarrow> node_at fs' p = node_at ?fs p" "file_view fs' t = file_view fs0 t"
      "node_at fs0 t \<noteq> Some DirN" for fs'
    unfolding undoable_def
  proof (intro conjI allI impI ballI)
    show "node_at (wd_files (w\<lparr>wd_files := fs'\<rparr>)) p = Some DirN" if "node_at fs0 p = Some DirN" for p
      using that dirs \<open>node_at fs0 t \<noteq> Some DirN\<close> \<open>\<And>p. p \<noteq> t \<Longrightarrow> node_at fs' p = node_at ?fs p\<close> by (cases "p = t") simp_all
    show "file_view (wd_files (w\<lparr>wd_files := fs'\<rparr>)) p = file_view fs0 p" if "p \<notin> set applied" for p
    proof (cases "p = t")
      case False
      then have "file_view fs' p = file_view ?fs p" using \<open>\<And>p. p \<noteq> t \<Longrightarrow> node_at fs' p = node_at ?fs p\<close> by (simp add: file_view_def)
      with False that same show ?thesis by simp
    qed (use \<open>file_view fs' t = file_view fs0 t\<close> in simp)
    fix p assume p: "p \<in> set applied"
    then have "p \<noteq> t" using assms(3) by metis
    then have "file_view fs' p = file_view ?fs p" using \<open>\<And>p. p \<noteq> t \<Longrightarrow> node_at fs' p = node_at ?fs p\<close> by (simp add: file_view_def)
    then show "file_view (wd_files (w\<lparr>wd_files := fs'\<rparr>)) p \<noteq> None" using app p by simp
    have "faithful B fs0 (w\<lparr>wd_files := fs'\<rparr>) r p = faithful B fs0 w r p" by (rule faithful_cong) simp_all
    then show "faithful B fs0 (w\<lparr>wd_files := fs'\<rparr>) r p" using app p by simp
  qed
  have nodir: "node_at fs0 t \<noteq> Some DirN" using dirs t by auto
  show ?thesis
  proof (cases "file_view fs0 t")
    case None
    let ?fs' = "dict_pop t ?fs"
    have "\<not> bk_existed e" "bk_sha256 e = None" using ft(1) e None by (auto simp: faithful_def)
    moreover have "file_hash_or_none B ?fs' t = None" by (simp add: file_hash_or_none_def)
    ultimately have "restore_one ws B F r t w = (w\<lparr>wd_files := ?fs'\<rparr>, Inr ())"
      using e t assms(4,6) by (simp add: restore_one_def)
    moreover have "undoable B fs0 applied (w\<lparr>wd_files := ?fs'\<rparr>) r"
      using None nodir assms(5) by (intro keep) (simp_all add: node_at_pop file_view_def)
    ultimately show ?thesis by blast
  next
    case (Some x)
    then obtain b m where x: "file_view fs0 t = Some (b, m)" by (cases x) simp
    let ?fs' = "dict_set t (FileN b m) ?fs"
    have m: "bk_existed e" "bk_mode e = Some m" "bk_sha256 e = Some (B b)" "dict_get (wd_store w) (bk_backup e) = Some (b, m)"
      using ft(1) e x by (auto simp: faithful_def)
    have "make_parents t ?fs = Inr ?fs"
    proof (rule make_parents_there)
      fix q assume "q \<in> set (ancestors t)"
      then have "node_at fs0 q = Some DirN" using x by (intro tree_closed_ancestors [OF assms(1), of t]) simp_all
      then show "node_at ?fs q = Some DirN" by (rule dirs)
    qed
    moreover have "file_hash_or_none B ?fs' t = Some (B b)" by (simp add: file_hash_or_none_def)
    ultimately have "restore_one ws B F r t w = (w\<lparr>wd_files := ?fs'\<rparr>, Inr ())"
      using e t m assms(4,6) by (simp add: restore_one_def)
    moreover have "undoable B fs0 applied (w\<lparr>wd_files := ?fs'\<rparr>) r"
      using x nodir assms(5) by (intro keep) (simp_all add: node_at_set file_view_def)
    ultimately show ?thesis by blast
  qed
qed

lemma restore_undoes:
  assumes "tree_closed fs0" and "undoable B fs0 applied w r" and "distinct applied"
    and "resolvable ws applied" and "\<And>t. \<not> F (Copyback t)"
  shows "\<exists>w'. restore ws B F r applied w = (w', Inr ()) \<and> file_view (wd_files w') = file_view fs0"
  unfolding restore_def using assms(2-4)
proof (induction applied arbitrary: w rule: rev_induct)
  case Nil
  then show ?case by (auto simp: undoable_def)
next
  case (snoc t ts)
  have t: "resolve_path ws t False = Inr t" "t \<noteq> ''.''" "resolvable ws ts"
    using snoc.prems(3) by (auto simp: resolvable_def resolve_path_def)
  obtain w1 where w1: "restore_one ws B F r t w = (w1, Inr ())" "undoable B fs0 ts w1 r"
    using restore_one_undoes [of fs0 B ts t w r ws F] assms(1,5) snoc.prems(1,2) t(1,2) by auto
  with snoc.IH [OF w1(2) _ t(3)] snoc.prems(2) show ?case by simp
qed

text \<open>
  A round either leaves every file as it was, with perhaps some directories more, or installs
  the candidate's bytes under the target's name.
\<close>

lemma replace_target_forms:
  assumes "replace_target B F name t stored md s = (s', x)" and "t \<noteq> ''.''"
  shows "(\<exists>e fs. x = Inl e \<and> s' = s\<lparr>ap_world := (ap_world s)\<lparr>wd_files := fs\<rparr>\<rparr> \<and>
      (\<forall>p. node_at fs p = node_at (wd_files (ap_world s)) p \<or>
        node_at (wd_files (ap_world s)) p = None \<and> node_at fs p = Some DirN)) \<or>
    (\<exists>fs b m. x = Inr () \<and> dict_get (wd_store (ap_world s)) stored = Some (b, m) \<and>
      (\<forall>p. node_at fs p = node_at (wd_files (ap_world s)) p \<or>
        node_at (wd_files (ap_world s)) p = None \<and> node_at fs p = Some DirN) \<and>
      s' = \<lparr> ap_world = (ap_world s)\<lparr>wd_files := dict_set t (FileN b (case md of Some k \<Rightarrow> k | None \<Rightarrow> 384)) fs\<rparr>,
        ap_record = (ap_record s)\<lparr>tx_applied_hashes := dict_set name (B b) (tx_applied_hashes (ap_record s))\<rparr>,
        ap_applied = ap_applied s @ [name] \<rparr>)"
proof (cases "F (Mkdir name)")
  case True
  with assms(1) have "x = Inl (OSError ''mkdir failed'')" "s' = s" by (simp_all add: replace_target_def Let_def)
  then have "x = Inl (OSError ''mkdir failed'') \<and>
      s' = s\<lparr>ap_world := (ap_world s)\<lparr>wd_files := wd_files (ap_world s)\<rparr>\<rparr>" by simp
  then show ?thesis by blast
next
  case 1: False
  show ?thesis
  proof (cases "make_parents t (wd_files (ap_world s))")
    case (Inl e)
    with 1 assms(1) have "x = Inl e" "s' = s" by (simp_all add: replace_target_def Let_def)
    then have "x = Inl e \<and> s' = s\<lparr>ap_world := (ap_world s)\<lparr>wd_files := wd_files (ap_world s)\<rparr>\<rparr>" by simp
    then show ?thesis by blast
  next
    case 2: (Inr fs)
    have ext: "\<forall>p. node_at fs p = node_at (wd_files (ap_world s)) p \<or>
        node_at (wd_files (ap_world s)) p = None \<and> node_at fs p = Some DirN"
      using make_parents_node_at [OF 2] by simp
    show ?thesis
    proof (cases "F (Temp name)")
      case True
      with 1 2 assms(1) have "x = Inl (OSError ''temporary file failed'') \<and> s' = s\<lparr>ap_world := (ap_world s)\<lparr>wd_files := fs\<rparr>\<rparr>"
        by (simp add: replace_target_def Let_def)
      with ext show ?thesis by blast
    next
      case 3: False
      show ?thesis
      proof (cases "dict_get (wd_store (ap_world s)) stored")
        case None
        with 1 2 3 assms(1) have "x = Inl (OSError ''candidate missing'') \<and> s' = s\<lparr>ap_world := (ap_world s)\<lparr>wd_files := fs\<rparr>\<rparr>"
          by (simp add: replace_target_def Let_def)
        with ext show ?thesis by blast
      next
        case (Some y)
        then obtain b m where 4: "dict_get (wd_store (ap_world s)) stored = Some (b, m)" by (cases y) simp
        show ?thesis
        proof (cases "F (Swap name)")
          case True
          with 1 2 3 4 assms(1) have "x = Inl (OSError ''replace failed'') \<and> s' = s\<lparr>ap_world := (ap_world s)\<lparr>wd_files := fs\<rparr>\<rparr>"
            by (simp add: replace_target_def Let_def)
          with ext show ?thesis by blast
        next
          case False
          with 1 2 3 4 assms(1) have "x = Inr () \<and>
            s' = \<lparr> ap_world = (ap_world s)\<lparr>wd_files := dict_set t (FileN b (case md of Some k \<Rightarrow> k | None \<Rightarrow> 384)) fs\<rparr>,
              ap_record = (ap_record s)\<lparr>tx_applied_hashes := dict_set name (B b) (tx_applied_hashes (ap_record s))\<rparr>,
              ap_applied = ap_applied s @ [name] \<rparr>"
            by (auto simp: replace_target_def Let_def file_hash_or_none_def)
          with 4 ext show ?thesis by blast
        qed
      qed
    qed
  qed
qed

lemma apply_one_undoable:
  assumes "undoable B fs0 (ap_applied s) (ap_world s) (ap_record s)" and "name \<notin> set (ap_applied s)"
    and "inj_on (text_digest B) (insert name (set (ap_applied s)))"
    and "resolve_path ws name False = Inr name" and "name \<noteq> ''.''"
    and "apply_one ws B F name s = (s', x)"
  shows "undoable B fs0 (ap_applied s') (ap_world s') (ap_record s') \<and>
    ap_applied s' = ap_applied s @ (case x of Inl e \<Rightarrow> [] | Inr _ \<Rightarrow> [name])"
proof (cases "dict_get (tx_candidate_files (ap_record s)) name")
  case None
  with assms show ?thesis by (auto simp: apply_one_def)
next
  case (Some stored)
  obtain s1 m where b: "backup_target B F name name s = (s1, m)" by fastforce
  note u = backup_target_undoable [OF assms(1-3) b]
  show ?thesis
  proof (cases m)
    case (Inl e)
    with Some b u assms(4,6) show ?thesis by (auto simp: apply_one_def)
  next
    case (Inr md)
    then have r: "replace_target B F name name stored md s1 = (s', x)"
      using Some b assms(4,6) by (simp add: apply_one_def)
    let ?fs = "wd_files (ap_world s1)"
    from replace_target_forms [OF r assms(5)]
    consider (fail) e fs where "x = Inl e" "s' = s1\<lparr>ap_world := (ap_world s1)\<lparr>wd_files := fs\<rparr>\<rparr>"
        "\<And>p. node_at fs p = node_at ?fs p \<or> node_at ?fs p = None \<and> node_at fs p = Some DirN"
      | (swap) fs c k where "x = Inr ()" "\<And>p. node_at fs p = node_at ?fs p \<or> node_at ?fs p = None \<and> node_at fs p = Some DirN"
        "s' = \<lparr> ap_world = (ap_world s1)\<lparr>wd_files := dict_set name (FileN c k) fs\<rparr>,
          ap_record = (ap_record s1)\<lparr>tx_applied_hashes := dict_set name (B c) (tx_applied_hashes (ap_record s1))\<rparr>,
          ap_applied = ap_applied s1 @ [name] \<rparr>"
      by blast
    then show ?thesis
    proof cases
      case fail
      have "undoable B fs0 (ap_applied s) (ap_world s') (ap_record s1)"
        by (rule undoable_extend [OF u [THEN conjunct1]]) (use fail in \<open>simp, intro faithful_cong, simp_all\<close>)
      with fail u show ?thesis by simp
    next
      case swap
      let ?w = "(ap_world s1)\<lparr>wd_files := fs\<rparr>"
      have 0: "undoable B fs0 (ap_applied s) ?w (ap_record s1)"
        by (rule undoable_extend [OF u [THEN conjunct1]]) (use swap in \<open>simp, intro faithful_cong, simp_all\<close>)
      have f: "faithful B fs0 (ap_world s') (ap_record s') t = faithful B fs0 (ap_world s1) (ap_record s1) t" for t
        using swap by (intro faithful_cong) simp_all
      have f0: "faithful B fs0 ?w (ap_record s1) t = faithful B fs0 (ap_world s1) (ap_record s1) t" for t
        by (intro faithful_cong) simp_all
      have n: "node_at (wd_files (ap_world s')) p = (if p = name then Some (FileN c k) else node_at fs p)" for p
        using swap assms(5) by (simp add: node_at_set)
      then have v: "file_view (wd_files (ap_world s')) p = (if p = name then Some (c, k) else file_view fs p)" for p
        by (simp add: file_view_def)
      have "node_at fs0 name \<noteq> Some DirN"
        using u Inr assms(1) by (auto simp: undoable_def)
      moreover have "faithful B fs0 (ap_world s1) (ap_record s1) name" using u Inr by simp
      ultimately have "undoable B fs0 (ap_applied s @ [name]) (ap_world s') (ap_record s')"
        using 0 by (auto simp: undoable_def v n f f0)
      with swap u show ?thesis by simp
    qed
  qed
qed

lemma apply_targets_undoable:
  assumes "apply_targets ws B F ts s = (s', x)"
    and "undoable B fs0 (ap_applied s) (ap_world s) (ap_record s)"
    and "distinct (ap_applied s @ ts)" and "inj_on (text_digest B) (set (ap_applied s @ ts))" and "resolvable ws ts"
  shows "undoable B fs0 (ap_applied s') (ap_world s') (ap_record s') \<and>
    (\<exists>us. ap_applied s' = ap_applied s @ us \<and> prefix us ts \<and> (x = Inr () \<longrightarrow> us = ts))"
  using assms
proof (induction ts arbitrary: s)
  case Nil
  then show ?case by simp
next
  case (Cons t ts)
  obtain s1 y where 1: "apply_one ws B F t s = (s1, y)" by fastforce
  have t: "resolve_path ws t False = Inr t" "t \<noteq> ''.''" "resolvable ws ts"
    using Cons.prems(5) by (auto simp: resolvable_def resolve_path_def)
  have "inj_on (text_digest B) (insert t (set (ap_applied s)))"
    by (rule inj_on_subset [OF Cons.prems(4)]) auto
  note u = apply_one_undoable [OF Cons.prems(2) _ this t(1,2) 1]
  show ?case
  proof (cases y)
    case (Inl e)
    with 1 Cons.prems u show ?thesis by auto
  next
    case (Inr z)
    then have a: "ap_applied s1 = ap_applied s @ [t]" "undoable B fs0 (ap_applied s1) (ap_world s1) (ap_record s1)"
      using u Cons.prems(3) by auto
    have "undoable B fs0 (ap_applied s') (ap_world s') (ap_record s') \<and>
        (\<exists>us. ap_applied s' = ap_applied s1 @ us \<and> prefix us ts \<and> (x = Inr () \<longrightarrow> us = ts))"
      using Cons.prems 1 Inr a t(3) by (intro Cons.IH) (auto simp: insert_commute)
    then show ?thesis using a(1) by auto
  qed
qed

section \<open>What the loop leaves alone and what it installs\<close>

definition untouched :: "transaction_record \<Rightarrow> transaction_record" where
  "untouched r = r\<lparr>tx_applied_hashes := [], tx_backup_manifest := []\<rparr>"

lemma backup_target_untouched: "backup_target B F name t s = (s', x) \<Longrightarrow> untouched (ap_record s') = untouched (ap_record s)"
  by (auto simp: backup_target_def untouched_def Let_def split: option.splits node.splits if_splits)

lemma replace_target_untouched:
  "replace_target B F name t stored m s = (s', x) \<Longrightarrow> untouched (ap_record s') = untouched (ap_record s)"
  by (auto simp: replace_target_def untouched_def Let_def split: option.splits sum.splits if_splits)

lemma apply_one_untouched: "apply_one ws B F t s = (s', x) \<Longrightarrow> untouched (ap_record s') = untouched (ap_record s)"
  by (auto simp: apply_one_def split: option.splits sum.splits prod.splits
      dest!: backup_target_untouched replace_target_untouched)

lemma apply_targets_untouched: "apply_targets ws B F ts s = (s', x) \<Longrightarrow> untouched (ap_record s') = untouched (ap_record s)"
proof (induction ts arbitrary: s)
  case Nil
  then show ?case by simp
next
  case (Cons t ts)
  obtain s1 y where 1: "apply_one ws B F t s = (s1, y)" by fastforce
  with Cons apply_one_untouched [OF 1] show ?case by (cases y) auto
qed

lemma untouched_fields:
  "untouched r = untouched r' \<Longrightarrow> tx_status r = tx_status r' \<and> tx_targets r = tx_targets r' \<and>
     tx_transaction_id r = tx_transaction_id r' \<and> tx_candidate_files r = tx_candidate_files r' \<and>
     tx_verification_evidence_ids r = tx_verification_evidence_ids r'"
  by (cases r; cases r') (simp add: untouched_def)

definition new_node :: "files \<Rightarrow> (string, string \<times> int) dict \<Rightarrow> transaction_record \<Rightarrow> string \<Rightarrow> node option" where
  "new_node fs0 st r t = (case dict_get (tx_candidate_files r) t of None \<Rightarrow> None
     | Some c \<Rightarrow> map_option (\<lambda>(b, k). FileN b (case file_view fs0 t of Some (o1, m) \<Rightarrow> m | None \<Rightarrow> 384)) (dict_get st c))"

definition installed :: "byte_digest \<Rightarrow> files \<Rightarrow> world \<Rightarrow> string list \<Rightarrow> apply_state \<Rightarrow> bool" where
  "installed B fs0 w0 targets s \<longleftrightarrow>
     (\<forall>c. c \<notin> backup_path B (tx_transaction_id (ap_record s)) ` set targets \<longrightarrow>
        dict_get (wd_store (ap_world s)) c = dict_get (wd_store w0) c) \<and>
     (\<forall>t \<in> set (ap_applied s). \<exists>b m. new_node fs0 (wd_store w0) (ap_record s) t = Some (FileN b m) \<and>
        node_at (wd_files (ap_world s)) t = Some (FileN b m) \<and>
        dict_get (tx_applied_hashes (ap_record s)) t = Some (B b))"

text \<open>The candidates are stored outside the place of the backups.\<close>

definition candidates_apart :: "byte_digest \<Rightarrow> transaction_record \<Rightarrow> bool" where
  "candidates_apart B r \<longleftrightarrow>
     (\<forall>(t, c) \<in> set (tx_candidate_files r). c \<notin> backup_path B (tx_transaction_id r) ` set (tx_targets r))"

lemma backup_target_store:
  "backup_target B F name t s = (s1, m) \<Longrightarrow> c \<noteq> backup_path B (tx_transaction_id (ap_record s)) name \<Longrightarrow>
     dict_get (wd_store (ap_world s1)) c = dict_get (wd_store (ap_world s)) c"
  by (auto simp: backup_target_def Let_def split: option.splits node.splits if_splits)

lemma backup_target_hashes:
  "backup_target B F name t s = (s1, m) \<Longrightarrow> tx_applied_hashes (ap_record s1) = tx_applied_hashes (ap_record s)"
  by (auto simp: backup_target_def Let_def split: option.splits node.splits if_splits)

lemma apply_one_installed:
  assumes "undoable B fs0 (ap_applied s) (ap_world s) (ap_record s)" and "name \<notin> set (ap_applied s)"
    and "inj_on (text_digest B) (insert name (set (ap_applied s)))"
    and "resolve_path ws name False = Inr name" and "name \<noteq> ''.''" and "name \<in> set targets"
    and "candidates_apart B (ap_record s)" and "tx_targets (ap_record s) = targets"
    and "installed B fs0 w0 targets s" and "apply_one ws B F name s = (s', Inr ())"
  shows "installed B fs0 w0 targets s'"
proof -
  obtain stored where st: "dict_get (tx_candidate_files (ap_record s)) name = Some stored"
    using assms(4,10) by (auto simp: apply_one_def split: option.splits)
  obtain s1 m where b: "backup_target B F name name s = (s1, m)" by fastforce
  obtain md where m: "m = Inr md" and r: "replace_target B F name name stored md s1 = (s', Inr ())"
    using assms(4,10) st b by (auto simp: apply_one_def split: sum.splits)
  note u = backup_target_undoable [OF assms(1-3) b]
  from replace_target_forms [OF r assms(5)] obtain fs c k where
    c: "dict_get (wd_store (ap_world s1)) stored = Some (c, k)"
    and fs: "\<And>p. node_at fs p = node_at (wd_files (ap_world s1)) p \<or>
        node_at (wd_files (ap_world s1)) p = None \<and> node_at fs p = Some DirN"
    and s': "s' = \<lparr> ap_world = (ap_world s1)\<lparr>wd_files := dict_set name (FileN c (case md of Some k \<Rightarrow> k | None \<Rightarrow> 384)) fs\<rparr>,
        ap_record = (ap_record s1)\<lparr>tx_applied_hashes := dict_set name (B c) (tx_applied_hashes (ap_record s1))\<rparr>,
        ap_applied = ap_applied s1 @ [name] \<rparr>" by auto
  let ?i = "tx_transaction_id (ap_record s)"
  have store: "dict_get (wd_store (ap_world s1)) d = dict_get (wd_store w0) d"
    if "d \<notin> backup_path B ?i ` set targets" for d
  proof -
    have "d \<noteq> backup_path B ?i name" using that assms(6) by blast
    from backup_target_store [OF b this] that assms(9) show ?thesis by (simp add: installed_def)
  qed
  have "stored \<notin> backup_path B ?i ` set targets"
    using assms(7,8) map_of_SomeD [OF st] by (auto simp: candidates_apart_def)
  from store [OF this] c have c0: "dict_get (wd_store w0) stored = Some (c, k)" by simp
  have cf: "tx_candidate_files (ap_record s1) = tx_candidate_files (ap_record s)"
    "tx_transaction_id (ap_record s1) = ?i" using untouched_fields [OF backup_target_untouched [OF b]] by simp_all
  have md: "(case md of Some k \<Rightarrow> k | None \<Rightarrow> 384) = (case file_view fs0 name of Some (o1, m) \<Rightarrow> m | None \<Rightarrow> 384)"
    using u m by (simp split: option.splits prod.splits)
  have new: "new_node fs0 (wd_store w0) (ap_record s) name = Some (FileN c (case md of Some k \<Rightarrow> k | None \<Rightarrow> 384))"
    unfolding md by (simp add: new_node_def st c0)
  have rec: "new_node fs0 (wd_store w0) (ap_record s') t = new_node fs0 (wd_store w0) (ap_record s) t" for t
    by (simp add: new_node_def s' cf)
  show ?thesis
    unfolding installed_def
  proof (intro conjI allI impI ballI)
    show "dict_get (wd_store (ap_world s')) d = dict_get (wd_store w0) d"
      if "d \<notin> backup_path B (tx_transaction_id (ap_record s')) ` set targets" for d
      using that store by (simp add: s' cf)
    fix t assume "t \<in> set (ap_applied s')"
    then consider "t = name" | "t \<in> set (ap_applied s)" "t \<noteq> name" using u s' assms(2) by auto
    then show "\<exists>b m. new_node fs0 (wd_store w0) (ap_record s') t = Some (FileN b m) \<and>
        node_at (wd_files (ap_world s')) t = Some (FileN b m) \<and> dict_get (tx_applied_hashes (ap_record s')) t = Some (B b)"
    proof cases
      case 1
      have "node_at (wd_files (ap_world s')) name = Some (FileN c (case md of Some k \<Rightarrow> k | None \<Rightarrow> 384))"
        by (simp add: s' node_at_set assms(5))
      moreover have "dict_get (tx_applied_hashes (ap_record s')) name = Some (B c)" by (simp add: s')
      ultimately show ?thesis unfolding rec 1 new by blast
    next
      case 2
      from assms(9) 2 obtain b m where "new_node fs0 (wd_store w0) (ap_record s) t = Some (FileN b m)"
        and n: "node_at (wd_files (ap_world s)) t = Some (FileN b m)"
        and h: "dict_get (tx_applied_hashes (ap_record s)) t = Some (B b)" by (auto simp: installed_def)
      moreover have "node_at (wd_files (ap_world s')) t = Some (FileN b m)"
        using fs [of t] n u 2 by (simp add: s' node_at_set assms(5))
      moreover have "dict_get (tx_applied_hashes (ap_record s')) t = Some (B b)"
        using h 2 backup_target_hashes [OF b] by (simp add: s')
      ultimately show ?thesis unfolding rec by blast
    qed
  qed
qed

lemma apply_targets_installed:
  assumes "apply_targets ws B F ts s = (s', Inr ())"
    and "undoable B fs0 (ap_applied s) (ap_world s) (ap_record s)"
    and "distinct (ap_applied s @ ts)" and "inj_on (text_digest B) (set (ap_applied s @ ts))" and "resolvable ws ts"
    and "set ts \<subseteq> set targets" and "candidates_apart B (ap_record s)" and "tx_targets (ap_record s) = targets"
    and "installed B fs0 w0 targets s"
  shows "installed B fs0 w0 targets s'"
  using assms
proof (induction ts arbitrary: s)
  case Nil
  then show ?case by simp
next
  case (Cons t ts)
  obtain s1 where 1: "apply_one ws B F t s = (s1, Inr ())" and ts: "apply_targets ws B F ts s1 = (s', Inr ())"
    using Cons.prems(1) by (auto split: prod.splits sum.splits)
  have t: "resolve_path ws t False = Inr t" "t \<noteq> ''.''" "resolvable ws ts"
    using Cons.prems(5) by (auto simp: resolvable_def resolve_path_def)
  have inj: "inj_on (text_digest B) (insert t (set (ap_applied s)))"
    by (rule inj_on_subset [OF Cons.prems(4)]) auto
  have new: "t \<notin> set (ap_applied s)" using Cons.prems(3) by auto
  note u = apply_one_undoable [OF Cons.prems(2) new inj t(1,2) 1]
  note i = apply_one_installed [OF Cons.prems(2) new inj t(1,2) _ Cons.prems(7,8,9) 1]
  note k = untouched_fields [OF apply_one_untouched [OF 1]]
  show ?case
  proof (rule Cons.IH [OF ts])
    show "undoable B fs0 (ap_applied s1) (ap_world s1) (ap_record s1)" by (rule u [THEN conjunct1])
    show "distinct (ap_applied s1 @ ts)" "inj_on (text_digest B) (set (ap_applied s1 @ ts))"
      using u Cons.prems(3,4) by (auto simp: insert_commute)
    show "candidates_apart B (ap_record s1)" using Cons.prems(7) k by (simp add: candidates_apart_def)
    show "installed B fs0 w0 targets s1" using i Cons.prems(6) by simp
  qed (use t Cons.prems(6,8) k in auto)
qed

section \<open>Life cycle\<close>

text \<open>What a record is about: everything but its progress.\<close>

definition tx_core :: "transaction_record \<Rightarrow> transaction_record" where
  "tx_core r = r\<lparr>tx_status := [], tx_applied_hashes := [], tx_applied_snapshot_hash := [],
     tx_backup_manifest := [], tx_verification_evidence_ids := []\<rparr>"

lemma untouched_core: "untouched r = untouched r' \<Longrightarrow> tx_core r = tx_core r'"
  by (cases r; cases r') (simp add: untouched_def tx_core_def)

definition tx_rank :: "string \<Rightarrow> nat" where
  "tx_rank st = (if st = ''PREPARED'' then 0 else if st = ''APPLIED'' then 1 else if st = ''VERIFIED'' then 2 else 3)"

definition transaction_ok :: "transaction_record \<Rightarrow> bool" where
  "transaction_ok r \<longleftrightarrow>
     tx_status r \<in> {''PREPARED'', ''APPLIED'', ''VERIFIED'', ''ROLLED_BACK'', ''DISCARDED''} \<and>
     (tx_status r \<in> {''APPLIED'', ''VERIFIED''} \<longrightarrow> set (tx_targets r) \<subseteq> dom (dict_get (tx_applied_hashes r)))"

text \<open>
  One transaction in its world: the operations of the manager, under whatever faults, and
  changes somebody else makes to the files.
\<close>

inductive tx_step :: "workspace \<Rightarrow> byte_digest \<Rightarrow> world \<times> transaction_record \<Rightarrow> world \<times> transaction_record \<Rightarrow> bool"
  for ws :: workspace and B :: byte_digest where
  applying: "apply_transaction ws B F w r = (w', r', x) \<Longrightarrow> tx_step ws B (w, r) (w', r')"
| finalizing: "finalize_transaction ids w r = (w', r', x) \<Longrightarrow> tx_step ws B (w, r) (w', r')"
| undoing: "rollback_transaction ws B F w r = (w', r', x) \<Longrightarrow> tx_step ws B (w, r) (w', r')"
| discarding: "discard_transaction w r = (w', r', x) \<Longrightarrow> tx_step ws B (w, r) (w', r')"
| editing: "tx_step ws B (w, r) (w\<lparr>wd_files := fs\<rparr>, r)"

inductive_cases tx_stepE [elim]: "tx_step ws B (w, r) (w', r')"

lemma apply_one_hashes:
  assumes "apply_one ws B F t s = (s', x)"
  shows "dom (dict_get (tx_applied_hashes (ap_record s'))) =
    dom (dict_get (tx_applied_hashes (ap_record s))) \<union> (case x of Inl e \<Rightarrow> {} | Inr _ \<Rightarrow> {t})"
  using assms
  by (auto simp: apply_one_def replace_target_def Let_def split: option.splits sum.splits prod.splits if_splits
      dest!: backup_target_hashes)

lemma apply_targets_hashes:
  "apply_targets ws B F ts s = (s', Inr ()) \<Longrightarrow> set ts \<union> dom (dict_get (tx_applied_hashes (ap_record s))) \<subseteq>
     dom (dict_get (tx_applied_hashes (ap_record s')))"
proof (induction ts arbitrary: s)
  case Nil
  then show ?case by simp
next
  case (Cons t ts)
  obtain s1 where 1: "apply_one ws B F t s = (s1, Inr ())" "apply_targets ws B F ts s1 = (s', Inr ())"
    using Cons.prems by (auto split: prod.splits sum.splits)
  with Cons.IH [OF 1(2)] apply_one_hashes [OF 1(1)] show ?case by auto
qed

lemma apply_transaction_forms:
  assumes "apply_transaction ws B F w r = (w', r', x)"
  shows "(\<exists>e. x = Inl e \<and> untouched r' = untouched r) \<or>
    (\<exists>s. x = Inr () \<and> tx_status r = ''PREPARED'' \<and> snapshot_hash B (wd_files w) = tx_source_snapshot_hash r \<and>
      verify_candidate B w r = Inr () \<and>
      apply_targets ws B F (tx_targets r) \<lparr> ap_world = w, ap_record = r, ap_applied = [] \<rparr> = (s, Inr ()) \<and>
      r' = (ap_record s)\<lparr>tx_applied_snapshot_hash := snapshot_hash B (wd_files (ap_world s)), tx_status := ''APPLIED''\<rparr> \<and>
      w' = write_record r' (ap_world s))"
proof (cases "tx_status r = ''PREPARED'' \<and> snapshot_hash B (wd_files w) = tx_source_snapshot_hash r")
  case False
  with assms show ?thesis by (auto simp: apply_transaction_def split: if_splits)
next
  case guards: True
  show ?thesis
  proof (cases "verify_candidate B w r")
    case (Inl e)
    with guards assms have "x = Inl e \<and> r' = r" by (simp add: apply_transaction_def)
    then show ?thesis by simp
  next
    case (Inr u)
    obtain s y where s: "apply_targets ws B F (tx_targets r) \<lparr> ap_world = w, ap_record = r, ap_applied = [] \<rparr> = (s, y)"
      by fastforce
    show ?thesis
    proof (cases y)
      case (Inl e)
      have "r' = ap_record s" "\<exists>e. x = Inl e"
        using assms guards Inr s Inl by (auto simp: apply_transaction_def split: prod.splits sum.splits)
      with apply_targets_untouched [OF s] show ?thesis by auto
    next
      case y: (Inr z)
      have "r' = (ap_record s)\<lparr>tx_applied_snapshot_hash := snapshot_hash B (wd_files (ap_world s)), tx_status := ''APPLIED''\<rparr>"
        "w' = write_record r' (ap_world s)" "x = Inr ()"
        using assms guards Inr s y by (auto simp: apply_transaction_def Let_def)
      with guards Inr s y show ?thesis by auto
    qed
  qed
qed

text \<open>The forms of a step: what it does to the record.\<close>

lemma tx_step_record:
  assumes "tx_step ws B (w, r) (w', r')"
  shows "r' = r \<or> tx_status r = ''PREPARED'' \<and> untouched r' = untouched r \<or>
    tx_core r' = tx_core r \<and>
      (tx_status r = ''PREPARED'' \<and> tx_status r' = ''APPLIED'' \<and> set (tx_targets r) \<subseteq> dom (dict_get (tx_applied_hashes r')) \<or>
       tx_status r = ''PREPARED'' \<and> tx_status r' = ''DISCARDED'' \<or>
       tx_status r = ''APPLIED'' \<and> tx_status r' = ''VERIFIED'' \<and> tx_applied_hashes r' = tx_applied_hashes r \<or>
       tx_status r \<in> {''APPLIED'', ''VERIFIED''} \<and> tx_status r' = ''ROLLED_BACK'')"
  using assms
proof cases
  case (applying F x)
  show ?thesis
  proof (cases "tx_status r = ''PREPARED''")
    case False
    with applying show ?thesis by (simp add: apply_transaction_def)
  next
    case True
    from apply_transaction_forms [OF applying] show ?thesis
    proof (elim disjE exE conjE)
      fix s assume *: "apply_targets ws B F (tx_targets r) \<lparr> ap_world = w, ap_record = r, ap_applied = [] \<rparr> = (s, Inr ())"
        "r' = (ap_record s)\<lparr>tx_applied_snapshot_hash := snapshot_hash B (wd_files (ap_world s)), tx_status := ''APPLIED''\<rparr>"
      have "tx_core r' = tx_core (ap_record s)" by (simp add: * tx_core_def)
      also have "\<dots> = tx_core r" using apply_targets_untouched [OF *(1)] by (intro untouched_core) simp
      finally have "tx_core r' = tx_core r" .
      moreover have "set (tx_targets r) \<subseteq> dom (dict_get (tx_applied_hashes r'))"
        using apply_targets_hashes [OF *(1)] by (simp add: *(2))
      moreover have "tx_status r' = ''APPLIED''" by (simp add: *(2))
      ultimately show ?thesis using True by simp
    qed (use True in simp)
  qed
next
  case (finalizing ids x)
  then have "r' = r \<or> tx_status r = ''APPLIED'' \<and>
      r' = r\<lparr>tx_verification_evidence_ids := from_keys ids, tx_status := ''VERIFIED''\<rparr>"
    unfolding finalize_transaction_def Let_def by (simp split: if_split_asm)
  then show ?thesis by (elim disjE conjE) (simp_all add: tx_core_def)
next
  case (undoing F x)
  then have "r' = r \<or> tx_status r \<in> {''APPLIED'', ''VERIFIED''} \<and> r' = r\<lparr>tx_status := ''ROLLED_BACK''\<rparr>"
    unfolding rollback_transaction_def Let_def
    by (simp split: if_split_asm prod.split_asm sum.split_asm)
  then show ?thesis by (elim disjE conjE) (simp_all add: tx_core_def)
next
  case (discarding x)
  then have "r' = r \<or> tx_status r = ''PREPARED'' \<and> r' = r\<lparr>tx_status := ''DISCARDED''\<rparr>"
    unfolding discard_transaction_def Let_def by (simp split: if_split_asm)
  then show ?thesis by (elim disjE conjE) (simp_all add: tx_core_def)
qed simp

lemma tx_core_targets: "tx_core r' = tx_core r \<Longrightarrow> tx_targets r' = tx_targets r"
  by (cases r; cases r') (simp add: tx_core_def)

interpretation tx: life_cycle "tx_step ws B" "transaction_ok \<circ> snd" "tx_core \<circ> snd" "tx_status \<circ> snd" tx_rank
  for ws :: workspace and B :: byte_digest
proof unfold_locales
  fix s t assume good: "(transaction_ok \<circ> snd) s" and step: "tx_step ws B s t"
  obtain w r w' r' where st: "s = (w, r)" "t = (w', r')" by (cases s; cases t) simp
  note forms = tx_step_record [OF step [unfolded st]]
  show "(transaction_ok \<circ> snd) t"
    using forms good untouched_fields [of r' r] tx_core_targets [of r' r] unfolding st transaction_ok_def by auto
  show "(tx_core \<circ> snd) t = (tx_core \<circ> snd) s"
    using forms untouched_core [of r' r] unfolding st by auto
  show "(tx_status \<circ> snd) t = (tx_status \<circ> snd) s \<or> tx_rank ((tx_status \<circ> snd) s) < tx_rank ((tx_status \<circ> snd) t)"
    using forms untouched_fields [of r' r] unfolding st by (auto simp: tx_rank_def)
qed

section \<open>Prepared transactions apply\<close>

lemma snapshot_hash_write: "wd_files (write_record r w) = wd_files w"
  by (simp add: write_record_def)

text \<open>A snapshot depends on the files only, not on the directories between them.\<close>

lemma snapshot_hash_view:
  assumes "dict_get fs ''.'' = None" and "dict_get gs ''.'' = None" and "file_view fs = file_view gs"
  shows "snapshot_hash B fs = snapshot_hash B gs"
proof -
  have v: "dict_get fs p = Some (FileN b m) \<longleftrightarrow> dict_get gs p = Some (FileN b m)" for p b m
    using assms(1,2) fun_cong [OF assms(3), of p] file_view_Some [of fs p] file_view_Some [of gs p]
    by (cases "p = ''.''") (auto simp: node_at_def)
  then have i: "set (iter_files fs) = set (iter_files gs)" by (auto simp: iter_files_dict)
  have h: "file_hash_or_none B fs p = file_hash_or_none B gs p \<and> file_mode fs p = file_mode gs p" for p
  proof (cases "\<exists>b m. dict_get fs p = Some (FileN b m)")
    case True
    then obtain b m where "dict_get fs p = Some (FileN b m)" "dict_get gs p = Some (FileN b m)" using v by auto
    then show ?thesis by (simp add: file_hash_or_none_def file_mode_def)
  next
    case False
    then have "file_hash_or_none B fs p = None" "file_mode fs p = 0"
      by (auto simp: file_hash_or_none_def file_mode_def split: option.splits node.splits)
    moreover from False v have "file_hash_or_none B gs p = None" "file_mode gs p = 0"
      by (auto simp: file_hash_or_none_def file_mode_def split: option.splits node.splits)
    ultimately show ?thesis by simp
  qed
  have "snapshot B fs = snapshot B gs" by (simp add: snapshot_def h sorted_set_eqI [OF i])
  then show ?thesis by (simp add: snapshot_hash_def snapshot_material_def h)
qed

lemma undoable_start: "undoable B (wd_files w) [] w r"
  by (simp add: undoable_def)

text \<open>The hypotheses a transaction is run under: targets canonical, distinct and kept apart in the store.\<close>

definition tx_wellformed :: "workspace \<Rightarrow> byte_digest \<Rightarrow> transaction_record \<Rightarrow> bool" where
  "tx_wellformed ws B r \<longleftrightarrow> distinct (tx_targets r) \<and> resolvable ws (tx_targets r) \<and>
     inj_on (text_digest B) (set (tx_targets r)) \<and> candidates_apart B r"

lemma apply_start:
  assumes "tx_wellformed ws B r"
    and "apply_targets ws B F (tx_targets r) \<lparr> ap_world = w, ap_record = r, ap_applied = [] \<rparr> = (s, x)"
  shows "undoable B (wd_files w) (ap_applied s) (ap_world s) (ap_record s) \<and>
    prefix (ap_applied s) (tx_targets r) \<and> (x = Inr () \<longrightarrow> ap_applied s = tx_targets r \<and> installed B (wd_files w) w (tx_targets r) s)"
proof -
  let ?s0 = "\<lparr> ap_world = w, ap_record = r, ap_applied = [] \<rparr>"
  have u: "undoable B (wd_files w) (ap_applied ?s0) (ap_world ?s0) (ap_record ?s0)" by (simp add: undoable_start)
  have "undoable B (wd_files w) (ap_applied s) (ap_world s) (ap_record s) \<and>
    (\<exists>us. ap_applied s = ap_applied ?s0 @ us \<and> prefix us (tx_targets r) \<and> (x = Inr () \<longrightarrow> us = tx_targets r))"
    using assms(1) by (intro apply_targets_undoable [OF assms(2) u]) (simp_all add: tx_wellformed_def)
  moreover have "installed B (wd_files w) w (tx_targets r) s" if "x = Inr ()"
    using assms(1) u assms(2) [unfolded that]
    by (rule_tac apply_targets_installed) (auto simp: tx_wellformed_def installed_def)
  ultimately show ?thesis by auto
qed

lemma apply_failed:
  assumes "tree_closed (wd_files w)" and "tx_wellformed ws B r" and "\<And>t. \<not> F (Copyback t)"
    and "apply_transaction ws B F w r = (w', r', Inl e)"
  shows "file_view (wd_files w') = file_view (wd_files w) \<and> untouched r' = untouched r"
proof -
  have "file_view (wd_files w') = file_view (wd_files w)"
  proof (cases "w' = w")
    case False
    obtain s y where s: "apply_targets ws B F (tx_targets r) \<lparr> ap_world = w, ap_record = r, ap_applied = [] \<rparr> = (s, y)"
      by fastforce
    note u = apply_start [OF assms(2) s]
    from u obtain us where us: "tx_targets r = ap_applied s @ us" unfolding prefix_def by blast
    have "distinct (ap_applied s)" "resolvable ws (ap_applied s)"
      using assms(2) us by (auto simp: tx_wellformed_def resolvable_def)
    with restore_undoes [OF assms(1) u [THEN conjunct1]] assms(3) obtain w2 where
      w2: "restore ws B F (ap_record s) (ap_applied s) (ap_world s) = (w2, Inr ())" "file_view (wd_files w2) = file_view (wd_files w)"
      by metis
    have "w' = w2"
      using assms(4) False s w2(1) by (auto simp: apply_transaction_def Let_def split: if_splits sum.splits)
    with w2 show ?thesis by simp
  qed simp
  moreover have "untouched r' = untouched r" using apply_transaction_forms [OF assms(4)] by auto
  ultimately show ?thesis by simp
qed

lemma apply_succeeded:
  assumes "tx_wellformed ws B r" and "apply_transaction ws B F w r = (w', r', Inr ())"
  shows "undoable B (wd_files w) (tx_targets r) w' r' \<and> tx_status r' = ''APPLIED'' \<and>
    tx_applied_snapshot_hash r' = snapshot_hash B (wd_files w') \<and>
    (\<forall>t \<in> set (tx_targets r). \<exists>b m. new_node (wd_files w) (wd_store w) r t = Some (FileN b m) \<and>
        file_view (wd_files w') t = Some (b, m) \<and> dict_get (tx_applied_hashes r') t = Some (B b))"
proof -
  from apply_transaction_forms [OF assms(2)] obtain s where
    s: "apply_targets ws B F (tx_targets r) \<lparr> ap_world = w, ap_record = r, ap_applied = [] \<rparr> = (s, Inr ())"
    and r': "r' = (ap_record s)\<lparr>tx_applied_snapshot_hash := snapshot_hash B (wd_files (ap_world s)), tx_status := ''APPLIED''\<rparr>"
    and w': "w' = write_record r' (ap_world s)" by auto
  note u = apply_start [OF assms(1) s]
  note k = untouched_fields [OF apply_targets_untouched [OF s], simplified]
  have f: "wd_files w' = wd_files (ap_world s)" by (simp add: w' write_record_def)
  have "undoable B (wd_files w) (tx_targets r) w' r'"
  proof (rule undoable_extend)
    have "ap_applied s = tx_targets r" using u by simp
    then show "undoable B (wd_files w) (tx_targets r) (ap_world s) (ap_record s)" using u by metis
    fix t
    have "backup_path B i t \<noteq> record_path i" for i by (simp add: record_path_def backup_path_def)
    then show "faithful B (wd_files w) w' r' t = faithful B (wd_files w) (ap_world s) (ap_record s) t"
      by (intro faithful_cong) (simp_all add: r' w' write_record_def)
  qed (simp add: f)
  moreover have "\<exists>b m. new_node (wd_files w) (wd_store w) r t = Some (FileN b m) \<and>
        file_view (wd_files w') t = Some (b, m) \<and> dict_get (tx_applied_hashes r') t = Some (B b)" if "t \<in> set (tx_targets r)" for t
  proof -
    have "new_node (wd_files w) (wd_store w) (ap_record s) t = new_node (wd_files w) (wd_store w) r t"
      by (simp add: new_node_def k)
    moreover have "installed B (wd_files w) w (tx_targets r) s" "t \<in> set (ap_applied s)" using u that by simp_all
    ultimately show ?thesis by (force simp: installed_def f file_view_Some r')
  qed
  ultimately show ?thesis using f r' by simp
qed

text \<open>A transaction \<open>prepare_write\<close> made, and what applying it does when nothing fails.\<close>

lemma prepare_write_record:
  assumes "workspace_ok ws" and "strip c \<noteq> []" and "canonical ws path False = Inr c"
    and "prepare_write ws B D path txt w rs = Inr (w1, rs1, r)"
  shows "resolve_path ws c False = Inr c \<and> node_at (wd_files w) c \<noteq> Some DirN \<and> tx_targets r = [c] \<and>
    tx_status r = ''PREPARED'' \<and> tx_source_snapshot_hash r = snapshot_hash B (wd_files w) \<and>
    tx_candidate_files r = [(c, candidate_path B (tx_transaction_id r) c)] \<and>
    tx_candidate_hash r = stable_hash (text_digest B) (hashes_json [(c, B (utf8 txt))]) \<and>
    wd_files w1 = wd_files w \<and> dict_get (wd_store w1) (candidate_path B (tx_transaction_id r) c) = Some (utf8 txt, 420)"
proof -
  have res: "resolve_path ws c False = Inr c"
    using canonical_idem [OF assms(1,3,2)] by (simp add: resolve_path_def)
  with assms(3,4) obtain original where o1: "read_original (wd_files w) c = Inr original"
    and p: "prepare_candidates B D ''write_file'' [(c, utf8 txt)] [(c, original)] w rs = (w1, rs1, r)"
    by (auto simp: prepare_write_def bindR_Inr)
  from o1 have "node_at (wd_files w) c \<noteq> Some DirN" by (auto simp: read_original_def)
  moreover have "record_path i \<noteq> candidate_path B i c" "candidate_path B i c \<noteq> record_path i" for i
    by (simp_all add: record_path_def candidate_path_def)
  ultimately show ?thesis
    using res p unfolding prepare_candidates_def Let_def
    by (elim Pair_inject, hypsubst) (simp add: write_record_def)
qed

lemma prepared_write_verifies:
  assumes "tx_candidate_files r = [(c, candidate_path B (tx_transaction_id r) c)]"
    and "tx_candidate_hash r = stable_hash (text_digest B) (hashes_json [(c, B b)])"
    and "dict_get (wd_store w) (candidate_path B (tx_transaction_id r) c) = Some (b, m)"
  shows "verify_candidate B w r = Inr ()"
  using assms by (simp add: verify_candidate_def)

lemma single_target_applies:
  assumes "resolve_path ws c False = Inr c" and "node_at (wd_files w) c \<noteq> Some DirN" and "c \<noteq> ''.''"
    and "dict_get (tx_candidate_files r) c = Some stored" and "dict_get (wd_store w) stored = Some (b, k)"
    and "stored \<noteq> backup_path B (tx_transaction_id r) c" and "\<And>e. \<not> F e"
    and "\<And>q. q \<in> set (ancestors c) \<Longrightarrow> file_view (wd_files w) q = None"
  shows "\<exists>s. apply_one ws B F c \<lparr> ap_world = w, ap_record = r, ap_applied = [] \<rparr> = (s, Inr ())"
proof -
  have "\<exists>s1 md. backup_target B F c c \<lparr> ap_world = w, ap_record = r, ap_applied = [] \<rparr> = (s1, Inr md)"
  proof (cases "node_at (wd_files w) c")
    case None
    then show ?thesis by (simp add: backup_target_def Let_def)
  next
    case (Some nd)
    with assms(2,7) show ?thesis by (cases nd) (simp_all add: backup_target_def Let_def)
  qed
  then obtain s1 md where s1: "backup_target B F c c \<lparr> ap_world = w, ap_record = r, ap_applied = [] \<rparr> = (s1, Inr md)"
    by blast
  have f: "wd_files (ap_world s1) = wd_files w"
    using s1 assms(2) by (auto simp: backup_target_def Let_def split: option.splits node.splits if_splits)
  have "dict_get (wd_store (ap_world s1)) stored = Some (b, k)"
    using backup_target_store [OF s1] assms(5,6) by simp
  moreover have "make_parents c (wd_files w) =
      Inr (foldl (\<lambda>d q. if node_at d q = None then dict_set q DirN d else d) (wd_files w) (ancestors c))"
    using assms(8) by (auto simp: make_parents_def list_ex_iff)
  ultimately have "\<exists>s. replace_target B F c c stored md s1 = (s, Inr ())"
    using f assms(7) by (auto simp: replace_target_def Let_def file_hash_or_none_def)
  with s1 assms(1,4) show ?thesis by (simp add: apply_one_def)
qed

text \<open>Line endings: what \<open>prepare_replace\<close> stores has no carriage return left but those of the new text.\<close>

lemma universal_newlines_no_cr: "CHR 0x0D \<notin> set (universal_newlines s)"
  by (induction s rule: universal_newlines.induct) (auto split: list.splits)

lemma replace_text_chars: "x \<in> set (replace_text old new limit s) \<Longrightarrow> x \<in> set new \<or> x \<in> set s"
proof (induction old new limit s rule: replace_text.induct)
  case (1 old new limit s)
  note u = 1(4) [unfolded replace_text.simps [of old new limit s]]
  show ?case
  proof (cases s)
    case Nil
    with 1 u show ?thesis by (auto simp: starts_with_def split: if_splits)
  next
    case (Cons c cs)
    moreover have "x \<in> set s" if "x \<in> set (drop (length old) s)" using that by (rule in_set_dropD)
    ultimately show ?thesis using 1 u by (auto split: if_splits)
  qed
qed

lemma utf8_ascii_char: "c \<in> set (utf8 s) \<Longrightarrow> (of_char c :: nat) < 128 \<Longrightarrow> c \<in> set s"
proof -
  assume c: "c \<in> set (utf8 s)" "(of_char c :: nat) < 128"
  then obtain d where d: "d \<in> set s" "c \<in> set (utf8_char d)" by (auto simp: utf8_def)
  have byte: "(of_char d :: nat) < 256" by simp
  then have "(of_char d :: nat) div 64 < 4" "(of_char d :: nat) mod 64 < 64" by linarith+
  then have "(of_char (char_of (192 + of_char d div 64 :: nat) :: char) :: nat) = 192 + of_char d div 64"
    "(of_char (char_of (128 + of_char d mod 64 :: nat) :: char) :: nat) = 128 + of_char d mod 64"
    by (simp_all add: of_char_of)
  with d c(2) show "c \<in> set s" by (auto simp: utf8_char_def Let_def split: if_splits)
qed

section \<open>Properties\<close>

text \<open>The transaction of the witnesses: it replaces one file and creates another.\<close>

definition sample_world :: world where
  "sample_world = \<lparr> wd_files = [(''a'', FileN ''old'' 420)], wd_store = [(''c1'', (''new'', 420)), (''c2'', (''two'', 420))] \<rparr>"

definition sample_tx :: transaction_record where
  "sample_tx = \<lparr> tx_transaction_id = ''t'', tx_operation = ''multi_file'', tx_targets = [''a'', ''lib/b''],
     tx_source_snapshot_hash = snapshot_hash letters (wd_files sample_world),
     tx_candidate_hash = stable_hash (text_digest letters) (hashes_json [(''a'', letters ''new''), (''lib/b'', letters ''two'')]),
     tx_candidate_files = [(''a'', ''c1''), (''lib/b'', ''c2'')], tx_original_hashes = [], tx_diff = [],
     tx_authority_hash = ''h'', tx_status = ''PREPARED'', tx_action_id = [], tx_applied_hashes = [],
     tx_applied_snapshot_hash = [], tx_backup_manifest = [], tx_verification_evidence_ids = [] \<rparr>"

lemma sample_paths: "canonical sample_workspace ''a'' False = Inr ''a''" "canonical sample_workspace ''lib/b'' False = Inr ''lib/b''"
  "ancestors ''a'' = []" "ancestors ''lib/b'' = [''lib'']"
  by code_simp+

lemma sample_tx_wellformed: "tx_wellformed sample_workspace letters sample_tx"
proof -
  have "inj (text_digest letters)"
    using letters_inj utf8_inj by (metis (no_types, lifting) injI injD text_digest_def)
  then have "inj_on (text_digest letters) (set (tx_targets sample_tx))" by (rule inj_on_subset) simp
  moreover have "distinct (tx_targets sample_tx)" "resolvable sample_workspace (tx_targets sample_tx)"
    "candidates_apart letters sample_tx"
    by (simp_all add: sample_tx_def resolvable_def sample_paths candidates_apart_def backup_path_def transaction_dir_def)
  ultimately show ?thesis by (simp only: tx_wellformed_def simp_thms)
qed

lemma sample_verifies: "verify_candidate letters sample_world sample_tx = Inr ()"
  by (simp add: verify_candidate_def sample_world_def sample_tx_def)

lemma sample_guards: "tx_status sample_tx = ''PREPARED''"
  "tx_source_snapshot_hash sample_tx = snapshot_hash letters (wd_files sample_world)"
  by (simp_all add: sample_tx_def)

lemma sample_tree_closed: "tree_closed (wd_files sample_world)"
  by (simp add: tree_closed_def sample_world_def sample_paths)

lemmas run_sample = apply_one_def backup_target_def replace_target_def resolve_path_def sample_paths make_parents_def
  node_at_def file_view_def file_hash_or_none_def backup_path_def transaction_dir_def Let_def

lemma sample_apply_fails:
  "\<exists>w' r' e. apply_transaction sample_workspace letters (\<lambda>e. e = Swap ''lib/b'') sample_world sample_tx = (w', r', Inl e)"
proof -
  have "\<exists>s e. apply_targets sample_workspace letters (\<lambda>e. e = Swap ''lib/b'') (tx_targets sample_tx)
      \<lparr> ap_world = sample_world, ap_record = sample_tx, ap_applied = [] \<rparr> = (s, Inl e)"
    by (simp add: sample_tx_def sample_world_def run_sample)
  then obtain s e where s: "apply_targets sample_workspace letters (\<lambda>e. e = Swap ''lib/b'') (tx_targets sample_tx)
      \<lparr> ap_world = sample_world, ap_record = sample_tx, ap_applied = [] \<rparr> = (s, Inl e)" by blast
  show ?thesis
    by (simp add: apply_transaction_def sample_guards sample_verifies s split: prod.split sum.split)
qed

lemma sample_apply_succeeds:
  "\<exists>w' r'. apply_transaction sample_workspace letters (\<lambda>_. False) sample_world sample_tx = (w', r', Inr ())"
proof -
  have "\<exists>s. apply_targets sample_workspace letters (\<lambda>_. False) (tx_targets sample_tx)
      \<lparr> ap_world = sample_world, ap_record = sample_tx, ap_applied = [] \<rparr> = (s, Inr ())"
    by (simp add: sample_tx_def sample_world_def run_sample)
  then obtain s where s: "apply_targets sample_workspace letters (\<lambda>_. False) (tx_targets sample_tx)
      \<lparr> ap_world = sample_world, ap_record = sample_tx, ap_applied = [] \<rparr> = (s, Inr ())" by blast
  show ?thesis
    by (simp add: apply_transaction_def sample_guards sample_verifies s Let_def)
qed



text \<open>C9. A successful apply happened on exactly the source snapshot and the candidate bytes the
  record was prepared with; every target then holds its candidate's bytes under its old
  permissions (0600 if it is new), every other file is unchanged, and the record lists the
  hashes of what was written.\<close>

theorem apply_success_installs:
  assumes "tx_wellformed ws B r" and "apply_transaction ws B F w r = (w', r', Inr ())"
  shows "tx_status r = ''PREPARED'' \<and> tx_status r' = ''APPLIED'' \<and>
    snapshot_hash B (wd_files w) = tx_source_snapshot_hash r \<and> verify_candidate B w r = Inr () \<and>
    (\<forall>p. if p \<in> set (tx_targets r)
         then (\<exists>b m. new_node (wd_files w) (wd_store w) r p = Some (FileN b m) \<and>
                 file_view (wd_files w') p = Some (b, m) \<and> dict_get (tx_applied_hashes r') p = Some (B b))
         else file_view (wd_files w') p = file_view (wd_files w) p)"
  using apply_succeeded [OF assms] apply_transaction_forms [OF assms(2)]
  by (auto simp: undoable_def)

theorem apply_success_installs_witness:
  "\<exists>w' r'. apply_transaction sample_workspace letters (\<lambda>_. False) sample_world sample_tx = (w', r', Inr ()) \<and>
     file_view (wd_files w') ''a'' = Some (''new'', 420) \<and> file_view (wd_files w') ''lib/b'' = Some (''two'', 384) \<and>
     file_view (wd_files w') ''c'' = None"
proof -
  obtain w' r' where a: "apply_transaction sample_workspace letters (\<lambda>_. False) sample_world sample_tx = (w', r', Inr ())"
    using sample_apply_succeeds by blast
  have n: "new_node (wd_files sample_world) (wd_store sample_world) sample_tx ''a'' = Some (FileN ''new'' 420)"
    "new_node (wd_files sample_world) (wd_store sample_world) sample_tx ''lib/b'' = Some (FileN ''two'' 384)"
    "tx_targets sample_tx = [''a'', ''lib/b'']" "file_view (wd_files sample_world) ''c'' = None"
    by (simp_all add: new_node_def sample_world_def sample_tx_def file_view_def node_at_def)
  have f: "(if p \<in> set (tx_targets sample_tx)
         then (\<exists>b m. new_node (wd_files sample_world) (wd_store sample_world) sample_tx p = Some (FileN b m) \<and>
                 file_view (wd_files w') p = Some (b, m) \<and> dict_get (tx_applied_hashes r') p = Some (letters b))
         else file_view (wd_files w') p = file_view (wd_files sample_world) p)" for p
    using apply_success_installs [OF sample_tx_wellformed a] by blast
  show ?thesis using a f [of "''a''"] f [of "''lib/b''"] f [of "''c''"] n by simp
qed



text \<open>C11. Liveness of a write: a transaction that \<open>prepare_write\<close> just made applies, when no file
  operation fails and no file stands where a directory is needed, and the target then holds
  exactly the UTF-8 bytes of the text.\<close>

theorem prepared_write_applies:
  assumes "workspace_ok ws" and "canonical ws path False = Inr c" and "strip c \<noteq> []" and "c \<noteq> ''.''"
    and "prepare_write ws B D path txt w rs = Inr (w1, rs1, r)" and "\<And>e. \<not> F e"
    and "\<And>q. q \<in> set (ancestors c) \<Longrightarrow> file_view (wd_files w) q = None"
  shows "\<exists>w2 r2. apply_transaction ws B F w1 r = (w2, r2, Inr ()) \<and>
    (\<forall>p. map_option fst (file_view (wd_files w2) p) =
      (if p = c then Some (utf8 txt) else map_option fst (file_view (wd_files w) p)))"
proof -
  note p = prepare_write_record [OF assms(1,3,2,5)]
  have apart: "candidate_path B i c \<noteq> backup_path B j d" if "i = j" for i j d
    using that by (simp add: candidate_path_def backup_path_def)
  obtain s where s: "apply_one ws B F c \<lparr> ap_world = w1, ap_record = r, ap_applied = [] \<rparr> = (s, Inr ())"
    using single_target_applies [of ws c w1 r "candidate_path B (tx_transaction_id r) c" "utf8 txt" 420 B F]
      p apart assms(4,6,7) by auto
  have "verify_candidate B w1 r = Inr ()"
    using p by (intro prepared_write_verifies [of r c B "utf8 txt" w1 420]) simp_all
  with s p obtain w2 r2 where a: "apply_transaction ws B F w1 r = (w2, r2, Inr ())"
    by (simp add: apply_transaction_def Let_def)
  have wf: "tx_wellformed ws B r"
    using p assms(4) apart by (auto simp: tx_wellformed_def resolvable_def resolve_path_def candidates_apart_def)
  note fin = apply_succeeded [OF wf a]
  have "\<exists>m. new_node (wd_files w1) (wd_store w1) r c = Some (FileN (utf8 txt) m)"
    using p by (simp add: new_node_def)
  then have "map_option fst (file_view (wd_files w2) c) = Some (utf8 txt)" using fin p by force
  moreover have "file_view (wd_files w2) q = file_view (wd_files w) q" if "q \<noteq> c" for q
    using fin that p by (simp add: undoable_def)
  ultimately show ?thesis using a by auto
qed

theorem prepared_write_applies_witness:
  "\<exists>w1 rs1 r w2 r2. prepare_write sample_workspace letters (\<lambda>_. []) ''lib/b'' ''hi'' sample_world
       new_runtime_state = Inr (w1, rs1, r) \<and>
     apply_transaction sample_workspace letters (\<lambda>_. False) w1 r = (w2, r2, Inr ()) \<and>
     map_option fst (file_view (wd_files w2) ''lib/b'') = Some (utf8 ''hi'')"
proof -
  have "\<exists>w1 rs1 r. prepare_write sample_workspace letters (\<lambda>_. []) ''lib/b'' ''hi'' sample_world
       new_runtime_state = Inr (w1, rs1, r)"
    by (simp add: prepare_write_def sample_paths resolve_path_def read_original_def node_at_def sample_world_def
        prepare_candidates_def Let_def)
  then obtain w1 rs1 r where p: "prepare_write sample_workspace letters (\<lambda>_. []) ''lib/b'' ''hi'' sample_world
       new_runtime_state = Inr (w1, rs1, r)" by blast
  have "strip ''lib/b'' \<noteq> []" by code_simp
  moreover have "file_view (wd_files sample_world) q = None" if "q \<in> set (ancestors ''lib/b'')" for q
    using that by (simp add: sample_paths sample_world_def file_view_def node_at_def)
  ultimately obtain w2 r2 where "apply_transaction sample_workspace letters (\<lambda>_. False) w1 r = (w2, r2, Inr ())"
    "\<And>q. map_option fst (file_view (wd_files w2) q) =
      (if q = ''lib/b'' then Some (utf8 ''hi'') else map_option fst (file_view (wd_files sample_world) q))"
    using prepared_write_applies [OF sample_workspace_ok sample_paths(2) _ _ p, of "\<lambda>_. False"] by auto
  with p show ?thesis by metis
qed

text \<open>C12. Life cycle: whatever sequence of operations, failures and foreign edits follows, a
  record keeps what it is about (targets, candidates, hashes, authority), its status only
  moves forward, and it is applied or verified only with a hash for every target.\<close>

theorem transaction_lifecycle:
  assumes "(tx_step ws B)\<^sup>*\<^sup>* (w, r) (w', r')" and "transaction_ok r"
  shows "tx_core r' = tx_core r \<and> transaction_ok r' \<and>
    (tx_status r' = tx_status r \<or> tx_rank (tx_status r) < tx_rank (tx_status r'))"
  using tx.run_good [OF assms(1)] tx.run_identity [OF assms(1)] tx.run_phase [OF assms(1)] assms(2)
  by simp

theorem transaction_lifecycle_witness:
  "\<exists>w' r'. (tx_step sample_workspace letters)\<^sup>*\<^sup>* (sample_world, sample_tx) (w', r') \<and> tx_status r' = ''DISCARDED'' \<and>
     tx_core r' = tx_core sample_tx \<and> transaction_ok r'"
proof -
  obtain w' r' x where d: "discard_transaction sample_world sample_tx = (w', r', x)" by (metis prod.exhaust)
  then have "tx_status r' = ''DISCARDED''"
    by (auto simp: discard_transaction_def sample_guards Let_def)
  moreover have run: "(tx_step sample_workspace letters)\<^sup>*\<^sup>* (sample_world, sample_tx) (w', r')"
    using discarding [OF d] by blast
  moreover have "transaction_ok sample_tx" by (simp add: transaction_ok_def sample_guards)
  ultimately show ?thesis using transaction_lifecycle [OF run] by blast
qed

text \<open>A rolled back or discarded transaction is over: no later operation changes its record.\<close>

lemma finished_transaction_frozen:
  assumes "(tx_step ws B)\<^sup>*\<^sup>* (w, r) (w', r')" and "tx_status r \<in> {''ROLLED_BACK'', ''DISCARDED''}"
  shows "r' = r"
  using assms
proof (induction "(w', r')" arbitrary: w' r' rule: rtranclp_induct)
  case (step y)
  then obtain w1 r1 where y: "y = (w1, r1)" by (cases y)
  with step have "r1 = r" "tx_step ws B (w1, r1) (w', r')" by auto
  from tx_step_record [OF this(2)] this(1) assms(2) show ?case by auto
qed simp

text \<open>\<open>prepare_replace\<close> rewrites every line ending of the file: whatever is replaced, the stored
  candidate has no carriage return unless the new text has one, so a file with CRLF line
  endings loses them all, outside the match as well.\<close>

lemma replace_drops_carriage_returns:
  assumes "prepare_replace ws B D dec path old new limit w rs = Inr (w1, rs1, r)" and "CHR 0x0D \<notin> set new"
  shows "\<exists>c stored b m. tx_candidate_files r = [(c, stored)] \<and> dict_get (wd_store w1) stored = Some (b, m) \<and>
    CHR 0x0D \<notin> set b"
proof -
  have "\<exists>c b body. prepare_candidates B D ''replace_text'' [(c, utf8 body)] [(c, Some b)] w rs = (w1, rs1, r) \<and>
      body = replace_text old new (if limit < 0 then None else Some (nat limit)) (universal_newlines (dec b))"
  proof -
    from assms(1) obtain c t where *: "(case node_at (wd_files w) t of
         Some (FileN b m) \<Rightarrow>
           let original = universal_newlines (dec b)
           in if \<not> contains old original then Inl (PolicyError ''old text not found'')
              else let text = replace_text old new (if limit < 0 then None else Some (nat limit)) original
                in Inr (prepare_candidates B D ''replace_text'' [(c, utf8 text)] [(c, Some b)] w rs)
       | _ \<Rightarrow> Inl (PolicyError ''replace target does not exist'')) = Inr (w1, rs1, r)"
      unfolding prepare_replace_def bindR_Inr by blast
    then obtain nd where nd: "node_at (wd_files w) t = Some nd" by (cases "node_at (wd_files w) t") auto
    with * obtain b m where b: "nd = FileN b m" by (cases nd) auto
    from * show ?thesis unfolding nd b Let_def option.case node.case guard_Inr by blast
  qed
  then obtain c b body where
    p: "prepare_candidates B D ''replace_text'' [(c, utf8 body)] [(c, Some b)] w rs = (w1, rs1, r)"
    and t: "body = replace_text old new (if limit < 0 then None else Some (nat limit)) (universal_newlines (dec b))"
    by blast
  have "CHR 0x0D \<notin> set body"
    using replace_text_chars [of "CHR 0x0D" old new "if limit < 0 then None else Some (nat limit)" "universal_newlines (dec b)"]
      universal_newlines_no_cr [of "dec b"] assms(2) unfolding t by blast
  then have "CHR 0x0D \<notin> set (utf8 body)" using utf8_ascii_char [of "CHR 0x0D" body] by fastforce
  moreover have "candidate_path B i c \<noteq> record_path i" for i by (simp add: record_path_def candidate_path_def)
  ultimately show ?thesis
    using p unfolding prepare_candidates_def Let_def by (elim Pair_inject, hypsubst) (simp add: write_record_def)
qed

definition crlf_world :: world where
  "crlf_world = \<lparr> wd_files = [(''a'', FileN [CHR ''x'', CHR 0x0D, CHR 0x0A, CHR ''y''] 420)], wd_store = [] \<rparr>"

end
