(* ===== verification/RRecords.thy ===== *)
theory RRecords
  imports RModels
begin

text \<open>
  The records of \<open>ourd/reasoning/models.py\<close> that the topology, the scoring, the search budget
  and the certificates work on, each with the checks and the canonical form of its
  \<open>__post_init__\<close>. \<open>RModels\<close> holds the shared checks and the hypothesis records.
\<close>

section \<open>Vocabularies\<close>

definition VERIFIER_VERDICTS :: "string list" where
  "VERIFIER_VERDICTS = [''ACCEPT'', ''REVISE'', ''REJECT'']"

definition FALSIFIER_VERDICTS :: "string list" where
  "FALSIFIER_VERDICTS = [''SURVIVES'', ''REVISE'', ''REJECT'']"

definition REASONING_DECISIONS :: "string list" where
  "REASONING_DECISIONS = [''ACCEPT'', ''REVISE'', ''REGENERATE'', ''STOP_UNRESOLVED'', ''STOP_NO_VALUE'']"

definition REASONING_TERMINAL_STATES :: "string list" where
  "REASONING_TERMINAL_STATES = [''SOLUTION'', ''EPISTEMIC_STOP'', ''INSUFFICIENT_EVIDENCE'',
     ''GOVERNANCE_STOP'', ''COMPUTE_BUDGET_EXHAUSTED'', ''NO_SURVIVING_HYPOTHESIS'']"

definition REASONING_OPERATIONS :: "string list" where
  "REASONING_OPERATIONS = [''GENERATE_HYPOTHESIS'', ''RETRIEVE_EVIDENCE'', ''RUN_READ_ONLY_EXPERIMENT'',
     ''VERIFY_AGAIN'', ''SEARCH_COUNTEREXAMPLE'', ''REFINE_DIMENSION'', ''STOP'']"

definition CONTRADICTION_TYPES :: "string list" where
  "CONTRADICTION_TYPES = [''logical'', ''empirical'', ''causal'', ''scope'', ''temporal'', ''definition'', ''measurement'']"

definition CONTRADICTION_RESOLUTION_STATUSES :: "string list" where
  "CONTRADICTION_RESOLUTION_STATUSES = [''UNRESOLVED'', ''QUALIFIED'', ''RESOLVED'', ''SUPERSEDED'']"

text \<open>The signature check of the records that sign themselves.\<close>

definition sign_with :: "string \<Rightarrow> string \<Rightarrow> string res" where
  "sign_with given expected =
     (if given \<noteq> [] \<and> given \<noteq> expected then Inl (ValueError ''signature mismatch'') else Inr expected)"

lemma sign_with_Inr [res_simps]: "sign_with given expected = Inr y \<longleftrightarrow> y = expected \<and> (given = [] \<or> given = expected)"
  by (auto simp: sign_with_def)

section \<open>Topology\<close>

record reasoning_node =
  rn_node_id :: string
  rn_kind :: string
  rn_content :: string
  rn_evidence_ids :: "string list"
  rn_confidence_bp :: int
  rn_path_id :: string
  rn_validated :: bool
  rn_hypothetical :: bool
  rn_material :: bool
  rn_signature :: string

definition node_fields :: "reasoning_node \<Rightarrow> (string \<times> json) list" where
  "node_fields x = [
     (''node_id'', JStr (rn_node_id x)), (''kind'', JStr (rn_kind x)),
     (''content'', JStr (rn_content x)), (''evidence_ids'', jstrs (rn_evidence_ids x)),
     (''confidence_bp'', JInt (rn_confidence_bp x)), (''path_id'', JStr (rn_path_id x)),
     (''validated'', JBool (rn_validated x)), (''hypothetical'', JBool (rn_hypothetical x)),
     (''material'', JBool (rn_material x))]"

definition node_post_init :: "reasoning_node \<Rightarrow> reasoning_node res" where
  "node_post_init n =
     (if rn_node_id n = [] then Inl (ValueError ''reasoning node ID must be non-empty'')
      else if rn_kind n \<notin> set NODE_KINDS then Inl (ValueError ''invalid reasoning node kind'')
      else if strip (rn_content n) = [] then Inl (ValueError ''reasoning node content must be non-empty'')
      else bindR (bounded_score (rn_confidence_bp n) ''reasoning node confidence'' False) (\<lambda>_.
        if rn_validated n \<and> rn_kind n \<noteq> ''premise'' then Inl (ValueError ''only premise nodes may be marked validated'')
        else if rn_material n \<and> rn_kind n \<notin> {''conclusion'', ''decision''}
          then Inl (ValueError ''only conclusion or decision nodes may be material'')
        else Inr (n\<lparr>rn_evidence_ids := canonical_strings (rn_evidence_ids n)\<rparr>)))"

record reasoning_edge =
  re_edge_id :: string
  re_source_id :: string
  re_target_id :: string
  re_relation :: string
  re_inference_id :: string
  re_inference_mode :: string
  re_signature :: string

definition edge_fields :: "reasoning_edge \<Rightarrow> (string \<times> json) list" where
  "edge_fields x = [
     (''source_id'', JStr (re_source_id x)), (''target_id'', JStr (re_target_id x)),
     (''relation'', JStr (re_relation x)), (''inference_id'', JStr (re_inference_id x)),
     (''inference_mode'', JStr (re_inference_mode x))]"

definition edge_post_init :: "reasoning_edge \<Rightarrow> reasoning_edge res" where
  "edge_post_init e =
     (if re_edge_id e = [] \<or> re_source_id e = [] \<or> re_target_id e = []
        then Inl (ValueError ''reasoning edge IDs must be non-empty'')
      else if re_relation e \<notin> set EDGE_RELATIONS then Inl (ValueError ''invalid reasoning edge relation'')
      else bindR (canonical_inference_mode (re_inference_mode e) True) (\<lambda>m. Inr (e\<lparr>re_inference_mode := m\<rparr>)))"

record reasoning_topology =
  rt_schema_version :: int
  rt_problem_id :: string
  rt_nodes :: "reasoning_node list"
  rt_edges :: "reasoning_edge list"
  rt_signature :: string

definition topology_post_init :: "reasoning_topology \<Rightarrow> reasoning_topology" where
  "topology_post_init t = t\<lparr>rt_nodes := sort_key rn_node_id (rt_nodes t), rt_edges := sort_key re_edge_id (rt_edges t)\<rparr>"

section \<open>Paths and their reports\<close>

record reasoning_step =
  st_step_id :: string
  st_claim :: string
  st_premises :: "string list"
  st_evidence_ids :: "string list"
  st_inference :: string
  st_confidence_bp :: int
  st_assumptions :: "string list"
  st_falsifier :: string
  st_signature :: string

definition step_post_init :: "reasoning_step \<Rightarrow> reasoning_step res" where
  "step_post_init s =
     (if st_step_id s = [] then Inl (ValueError ''reasoning step ID must be non-empty'')
      else if strip (st_claim s) = [] then Inl (ValueError ''reasoning step claim must be non-empty'')
      else bindR (canonical_inference_mode (st_inference s) False) (\<lambda>m.
           bindR (bounded_score (st_confidence_bp s) ''reasoning step confidence'' False) (\<lambda>_.
        Inr (s\<lparr>st_inference := m, st_premises := stable_strings (st_premises s),
               st_evidence_ids := canonical_strings (st_evidence_ids s),
               st_assumptions := canonical_strings (st_assumptions s)\<rparr>))))"

record reasoning_path =
  pa_path_id :: string
  pa_perspective :: string
  pa_hypothesis_ids :: "string list"
  pa_steps :: "reasoning_step list"
  pa_conclusion :: string
  pa_provider_confidence_bp :: int
  pa_estimated_cost_bp :: int
  pa_goal_relevance_bp :: int
  pa_risk_bp :: int
  pa_topology_node_ids :: "string list"
  pa_topology_edge_ids :: "string list"
  pa_structure_signature :: string
  pa_diversity_bp :: int
  pa_signature :: string

definition path_post_init :: "reasoning_path \<Rightarrow> reasoning_path res" where
  "path_post_init p =
     (if pa_path_id p = [] \<or> pa_perspective p = [] then Inl (ValueError ''reasoning path identity must be non-empty'')
      else if pa_steps p = [] then Inl (ValueError ''reasoning path must contain at least one step'')
      else if strip (pa_conclusion p) = [] then Inl (ValueError ''reasoning path conclusion must be non-empty'')
      else bindR (check_scores [
          (''provider_confidence_bp'', pa_provider_confidence_bp p), (''estimated_cost_bp'', pa_estimated_cost_bp p),
          (''goal_relevance_bp'', pa_goal_relevance_bp p), (''risk_bp'', pa_risk_bp p), (''diversity_bp'', pa_diversity_bp p)])
        (\<lambda>_. let q = p\<lparr>pa_hypothesis_ids := canonical_strings (pa_hypothesis_ids p),
                       pa_topology_node_ids := canonical_strings (pa_topology_node_ids p),
                       pa_topology_edge_ids := canonical_strings (pa_topology_edge_ids p)\<rparr>
          in if \<not> distinct (map st_step_id (pa_steps p)) then Inl (ValueError ''reasoning path step IDs must be unique'')
             else Inr q))"

record verifier_report =
  vr_report_id :: string
  vr_path_id :: string
  vr_step_scores :: "(string \<times> int) list"
  vr_failures :: "string list"
  vr_contradictions :: "string list"
  vr_unsupported_nodes :: "string list"
  vr_missing_assumptions :: "string list"
  vr_premise_validity_bp :: int
  vr_evidence_support_bp :: int
  vr_inference_quality_bp :: int
  vr_consistency_bp :: int
  vr_completeness_bp :: int
  vr_weakest_step_bp :: int
  vr_score_bp :: int
  vr_verdict :: string
  vr_signature :: string

definition verifier_post_init :: "verifier_report \<Rightarrow> verifier_report res" where
  "verifier_post_init r =
     (if vr_report_id r = [] \<or> vr_path_id r = [] then Inl (ValueError ''verifier report identity must be non-empty'')
      else bindR (check_scores [
          (''verifier score'', vr_score_bp r), (''premise_validity_bp'', vr_premise_validity_bp r),
          (''evidence_support_bp'', vr_evidence_support_bp r), (''inference_quality_bp'', vr_inference_quality_bp r),
          (''consistency_bp'', vr_consistency_bp r), (''completeness_bp'', vr_completeness_bp r),
          (''weakest_step_bp'', vr_weakest_step_bp r)]) (\<lambda>_.
        if vr_verdict r \<notin> set VERIFIER_VERDICTS then Inl (ValueError ''invalid verifier verdict'')
        else bindR (canonical_score_pairs (vr_step_scores r)) (\<lambda>pairs.
          if list_ex (\<lambda>(k, v). \<not> in_scale v) pairs then Inl (ValueError ''verifier step scores must be 0..10000'')
          else Inr (r\<lparr>vr_step_scores := pairs, vr_failures := canonical_strings (vr_failures r),
                 vr_contradictions := canonical_strings (vr_contradictions r),
                 vr_unsupported_nodes := canonical_strings (vr_unsupported_nodes r),
                 vr_missing_assumptions := canonical_strings (vr_missing_assumptions r)\<rparr>))))"

record falsifier_report =
  fr_report_id :: string
  fr_path_id :: string
  fr_searched_falsifiers :: "string list"
  fr_counterexamples :: "string list"
  fr_contradicted_step_ids :: "string list"
  fr_unresolved_defeat_conditions :: "string list"
  fr_unresolved_defeat_evidence_ids :: "string list"
  fr_alternative_explanations :: "string list"
  fr_boundary_cases :: "string list"
  fr_reversed_causal_directions :: "string list"
  fr_invalid_invariants :: "string list"
  fr_evidence_reversal_conditions :: "string list"
  fr_severity_bp :: int
  fr_survival_bp :: int
  fr_residual_uncertainty_bp :: int
  fr_verdict :: string
  fr_signature :: string

definition falsifier_post_init :: "falsifier_report \<Rightarrow> falsifier_report res" where
  "falsifier_post_init r =
     (if fr_report_id r = [] \<or> fr_path_id r = [] then Inl (ValueError ''falsifier report identity must be non-empty'')
      else bindR (check_scores [(''falsifier survival'', fr_survival_bp r), (''falsifier severity'', fr_severity_bp r),
          (''falsifier residual uncertainty'', fr_residual_uncertainty_bp r)]) (\<lambda>_.
        if fr_verdict r \<notin> set FALSIFIER_VERDICTS then Inl (ValueError ''invalid falsifier verdict'')
        else Inr (r\<lparr>fr_searched_falsifiers := canonical_strings (fr_searched_falsifiers r),
               fr_counterexamples := canonical_strings (fr_counterexamples r),
               fr_contradicted_step_ids := canonical_strings (fr_contradicted_step_ids r),
               fr_unresolved_defeat_conditions := canonical_strings (fr_unresolved_defeat_conditions r),
               fr_unresolved_defeat_evidence_ids := canonical_strings (fr_unresolved_defeat_evidence_ids r),
               fr_alternative_explanations := canonical_strings (fr_alternative_explanations r),
               fr_boundary_cases := canonical_strings (fr_boundary_cases r),
               fr_reversed_causal_directions := canonical_strings (fr_reversed_causal_directions r),
               fr_invalid_invariants := canonical_strings (fr_invalid_invariants r),
               fr_evidence_reversal_conditions := canonical_strings (fr_evidence_reversal_conditions r)\<rparr>)))"

section \<open>Configurations\<close>

record diversity_configuration =
  dc_schema_version :: int
  dc_config_id :: string
  dc_hypothesis_weight :: int
  dc_evidence_weight :: int
  dc_inference_weight :: int
  dc_assumption_weight :: int
  dc_falsifier_weight :: int
  dc_conclusion_weight :: int
  dc_duplicate_threshold_bp :: int
  dc_signature :: string

definition diversity_fields :: "diversity_configuration \<Rightarrow> (string \<times> json) list" where
  "diversity_fields x = [
     (''schema_version'', JInt (dc_schema_version x)), (''config_id'', JStr (dc_config_id x)),
     (''hypothesis_weight'', JInt (dc_hypothesis_weight x)),
     (''evidence_weight'', JInt (dc_evidence_weight x)),
     (''inference_weight'', JInt (dc_inference_weight x)),
     (''assumption_weight'', JInt (dc_assumption_weight x)),
     (''falsifier_weight'', JInt (dc_falsifier_weight x)),
     (''conclusion_weight'', JInt (dc_conclusion_weight x)),
     (''duplicate_threshold_bp'', JInt (dc_duplicate_threshold_bp x))]"

definition diversity_post_init :: "digest \<Rightarrow> diversity_configuration \<Rightarrow> diversity_configuration res" where
  "diversity_post_init H c =
     (let weights = [dc_hypothesis_weight c, dc_evidence_weight c, dc_inference_weight c, dc_assumption_weight c,
        dc_falsifier_weight c, dc_conclusion_weight c] in
      if dc_schema_version c \<noteq> 1 then Inl (ValueError ''diversity configuration schema_version must be 1'')
      else if strip (dc_config_id c) = [] then Inl (ValueError ''diversity configuration ID must be non-empty'')
      else if list_ex (\<lambda>w. \<not> (0 \<le> w \<and> w \<le> 100)) weights then Inl (ValueError ''diversity weights must be 0..100'')
      else if sum_list weights \<noteq> 100 then Inl (ValueError ''diversity weights must sum to 100'')
      else bindR (bounded_score (dc_duplicate_threshold_bp c) ''diversity duplicate threshold'' False) (\<lambda>_.
           bindR (sign_with (dc_signature c) (stable_hash H (JObj (diversity_fields c)))) (\<lambda>sig.
           Inr (c\<lparr>dc_signature := sig\<rparr>))))"

record score_configuration =
  sc_schema_version :: int
  sc_config_id :: string
  sc_verifier_weight :: int
  sc_evidence_weight :: int
  sc_consistency_weight :: int
  sc_falsifier_weight :: int
  sc_goal_weight :: int
  sc_diversity_weight :: int
  sc_uncertainty_penalty :: int
  sc_compute_penalty :: int
  sc_minimum_survivor_bp :: int
  sc_signature :: string

definition score_config_fields :: "score_configuration \<Rightarrow> (string \<times> json) list" where
  "score_config_fields x = [
     (''schema_version'', JInt (sc_schema_version x)), (''config_id'', JStr (sc_config_id x)),
     (''verifier_weight'', JInt (sc_verifier_weight x)),
     (''evidence_weight'', JInt (sc_evidence_weight x)),
     (''consistency_weight'', JInt (sc_consistency_weight x)),
     (''falsifier_weight'', JInt (sc_falsifier_weight x)), (''goal_weight'', JInt (sc_goal_weight x)),
     (''diversity_weight'', JInt (sc_diversity_weight x)),
     (''uncertainty_penalty'', JInt (sc_uncertainty_penalty x)),
     (''compute_penalty'', JInt (sc_compute_penalty x)),
     (''minimum_survivor_bp'', JInt (sc_minimum_survivor_bp x))]"

definition score_config_post_init :: "digest \<Rightarrow> score_configuration \<Rightarrow> score_configuration res" where
  "score_config_post_init H c =
     (let weights = [sc_verifier_weight c, sc_evidence_weight c, sc_consistency_weight c, sc_falsifier_weight c,
        sc_goal_weight c, sc_diversity_weight c] in
      if sc_schema_version c \<noteq> 1 then Inl (ValueError ''score configuration schema_version must be 1'')
      else if strip (sc_config_id c) = [] then Inl (ValueError ''score configuration ID must be non-empty'')
      else if list_ex (\<lambda>w. \<not> (0 \<le> w \<and> w \<le> 100)) weights then Inl (ValueError ''score configuration weights must be 0..100'')
      else if sum_list weights \<noteq> 100 then Inl (ValueError ''positive score configuration weights must sum to 100'')
      else if list_ex (\<lambda>w. \<not> (0 \<le> w \<and> w \<le> 100)) [sc_uncertainty_penalty c, sc_compute_penalty c]
        then Inl (ValueError ''score configuration penalties must be 0..100'')
      else bindR (bounded_score (sc_minimum_survivor_bp c) ''minimum survivor score'' False) (\<lambda>_.
           bindR (sign_with (sc_signature c) (stable_hash H (JObj (score_config_fields c)))) (\<lambda>sig.
           Inr (c\<lparr>sc_signature := sig\<rparr>))))"

text \<open>The default configurations, before they are signed.\<close>

definition default_diversity :: diversity_configuration where
  "default_diversity = \<lparr> dc_schema_version = 1, dc_config_id = ''oiec-sr-diversity-v1'', dc_hypothesis_weight = 25,
     dc_evidence_weight = 25, dc_inference_weight = 20, dc_assumption_weight = 10, dc_falsifier_weight = 10,
     dc_conclusion_weight = 10, dc_duplicate_threshold_bp = 9001, dc_signature = [] \<rparr>"

definition default_score_config :: score_configuration where
  "default_score_config = \<lparr> sc_schema_version = 1, sc_config_id = ''oiec-sr-score-v1'', sc_verifier_weight = 30,
     sc_evidence_weight = 25, sc_consistency_weight = 15, sc_falsifier_weight = 15, sc_goal_weight = 10,
     sc_diversity_weight = 5, sc_uncertainty_penalty = 15, sc_compute_penalty = 5, sc_minimum_survivor_bp = 5000,
     sc_signature = [] \<rparr>"

section \<open>Synthesis, contradictions, context, operations\<close>

record synthesis_result =
  sy_schema_version :: int
  sy_winning_path_id :: string
  sy_synthesized_path_id :: string
  sy_source_path_ids :: "string list"
  sy_accepted_node_ids :: "string list"
  sy_rejected_node_ids :: "string list"
  sy_merged_conclusion :: string
  sy_remaining_uncertainties :: "string list"
  sy_confidence_bp :: int
  sy_verifier_report_id :: string
  sy_topology_signature :: string
  sy_verified :: bool
  sy_fallback_used :: bool
  sy_failure_reasons :: "string list"
  sy_signature :: string

definition synthesis_fields :: "synthesis_result \<Rightarrow> (string \<times> json) list" where
  "synthesis_fields x = [
     (''schema_version'', JInt (sy_schema_version x)),
     (''winning_path_id'', JStr (sy_winning_path_id x)),
     (''synthesized_path_id'', JStr (sy_synthesized_path_id x)),
     (''source_path_ids'', jstrs (sy_source_path_ids x)),
     (''accepted_node_ids'', jstrs (sy_accepted_node_ids x)),
     (''rejected_node_ids'', jstrs (sy_rejected_node_ids x)),
     (''merged_conclusion'', JStr (sy_merged_conclusion x)),
     (''remaining_uncertainties'', jstrs (sy_remaining_uncertainties x)),
     (''confidence_bp'', JInt (sy_confidence_bp x)),
     (''verifier_report_id'', JStr (sy_verifier_report_id x)),
     (''topology_signature'', JStr (sy_topology_signature x)), (''verified'', JBool (sy_verified x)),
     (''fallback_used'', JBool (sy_fallback_used x)),
     (''failure_reasons'', jstrs (sy_failure_reasons x))]"

definition synthesis_post_init :: "digest \<Rightarrow> synthesis_result \<Rightarrow> synthesis_result res" where
  "synthesis_post_init H s =
     (if sy_schema_version s \<noteq> 1 then Inl (ValueError ''synthesis schema_version must be 1'')
      else bindR (bounded_score (sy_confidence_bp s) ''synthesis confidence'' False) (\<lambda>_.
        let t = s\<lparr>sy_source_path_ids := canonical_strings (sy_source_path_ids s),
                  sy_accepted_node_ids := canonical_strings (sy_accepted_node_ids s),
                  sy_rejected_node_ids := canonical_strings (sy_rejected_node_ids s),
                  sy_remaining_uncertainties := canonical_strings (sy_remaining_uncertainties s),
                  sy_failure_reasons := canonical_strings (sy_failure_reasons s)\<rparr>
        in if sy_merged_conclusion t \<noteq> [] \<and> sy_winning_path_id t = []
             then Inl (ValueError ''synthesis conclusion requires a winning path'')
           else if sy_winning_path_id t \<noteq> [] \<and> sy_winning_path_id t \<notin> set (sy_source_path_ids t)
             then Inl (ValueError ''synthesis winning path must be a source path'')
           else if sy_verified t \<and> sy_verifier_report_id t = []
             then Inl (ValueError ''verified synthesis requires a verifier report'')
           else if sy_verified t \<and> sy_synthesized_path_id t = []
             then Inl (ValueError ''verified synthesis requires a synthesized path ID'')
           else bindR (sign_with (sy_signature t) (stable_hash H (JObj (synthesis_fields t)))) (\<lambda>sig.
             Inr (t\<lparr>sy_signature := sig\<rparr>))))"

record contradiction_record =
  cr_schema_version :: int
  cr_contradiction_id :: string
  cr_left_claim_id :: string
  cr_right_claim_id :: string
  cr_evidence_left :: "string list"
  cr_evidence_right :: "string list"
  cr_conflict_type :: string
  cr_severity_bp :: int
  cr_resolution_status :: string
  cr_resolution_evidence_ids :: "string list"
  cr_signature :: string

definition contradiction_fields :: "contradiction_record \<Rightarrow> (string \<times> json) list" where
  "contradiction_fields x = [
     (''schema_version'', JInt (cr_schema_version x)), (''left_claim_id'', JStr (cr_left_claim_id x)),
     (''right_claim_id'', JStr (cr_right_claim_id x)), (''evidence_left'', jstrs (cr_evidence_left x)),
     (''evidence_right'', jstrs (cr_evidence_right x)), (''conflict_type'', JStr (cr_conflict_type x)),
     (''severity_bp'', JInt (cr_severity_bp x)), (''resolution_status'', JStr (cr_resolution_status x)),
     (''resolution_evidence_ids'', jstrs (cr_resolution_evidence_ids x))]"

definition contradiction_identity :: "contradiction_record \<Rightarrow> (string \<times> json) list" where
  "contradiction_identity x = [
     (''schema_version'', JInt (cr_schema_version x)), (''left_claim_id'', JStr (cr_left_claim_id x)),
     (''right_claim_id'', JStr (cr_right_claim_id x)), (''evidence_left'', jstrs (cr_evidence_left x)),
     (''evidence_right'', jstrs (cr_evidence_right x)), (''conflict_type'', JStr (cr_conflict_type x)),
     (''severity_bp'', JInt (cr_severity_bp x))]"

definition contradiction_post_init :: "digest \<Rightarrow> contradiction_record \<Rightarrow> contradiction_record res" where
  "contradiction_post_init H c =
     (if cr_conflict_type c \<notin> set CONTRADICTION_TYPES then Inl (ValueError ''invalid contradiction type'')
      else if cr_resolution_status c \<notin> set CONTRADICTION_RESOLUTION_STATUSES
        then Inl (ValueError ''invalid contradiction resolution status'')
      else if cr_left_claim_id c = [] \<or> cr_right_claim_id c = []
        then Inl (ValueError ''contradiction claim IDs must be non-empty'')
      else bindR (bounded_score (cr_severity_bp c) ''contradiction severity'' False) (\<lambda>_.
        let d = c\<lparr>cr_evidence_left := canonical_strings (cr_evidence_left c),
                  cr_evidence_right := canonical_strings (cr_evidence_right c),
                  cr_resolution_evidence_ids := canonical_strings (cr_resolution_evidence_ids c)\<rparr>;
            expected_id = ''contradiction:'' @ stable_hash H (JObj (contradiction_identity d))
        in if cr_contradiction_id c \<noteq> [] \<and> cr_contradiction_id c \<noteq> expected_id
             then Inl (ValueError ''contradiction ID mismatch'')
           else bindR (sign_with (cr_signature c) (stable_hash H
               (JObj (contradiction_fields d @ [(''contradiction_id'', JStr expected_id)])))) (\<lambda>sig.
             Inr (d\<lparr>cr_contradiction_id := expected_id, cr_signature := sig\<rparr>))))"

record reasoning_context =
  cx_schema_version :: int
  cx_problem_hash :: string
  cx_constraints :: "string list"
  cx_hypothesis_ids :: "string list"
  cx_evidence_ids :: "string list"
  cx_topology_node_ids :: "string list"
  cx_collision_ids :: "string list"
  cx_unresolved_questions :: "string list"
  cx_candidate_summaries :: "(string \<times> string) list"
  cx_max_items :: int
  cx_max_chars_per_item :: int
  cx_max_total_chars :: int
  cx_signature :: string

definition context_fields :: "reasoning_context \<Rightarrow> (string \<times> json) list" where
  "context_fields x = [
     (''schema_version'', JInt (cx_schema_version x)), (''problem_hash'', JStr (cx_problem_hash x)),
     (''constraints'', jstrs (cx_constraints x)), (''hypothesis_ids'', jstrs (cx_hypothesis_ids x)),
     (''evidence_ids'', jstrs (cx_evidence_ids x)),
     (''topology_node_ids'', jstrs (cx_topology_node_ids x)),
     (''collision_ids'', jstrs (cx_collision_ids x)),
     (''unresolved_questions'', jstrs (cx_unresolved_questions x)),
     (''candidate_summaries'', JList (map (\<lambda>(p, s). jstrs [p, s]) (cx_candidate_summaries x))),
     (''max_items'', JInt (cx_max_items x)), (''max_chars_per_item'', JInt (cx_max_chars_per_item x)),
     (''max_total_chars'', JInt (cx_max_total_chars x))]"

definition bounded_items :: "reasoning_context \<Rightarrow> string list \<Rightarrow> string list res" where
  "bounded_items c vs =
     (let values = canonical_strings vs in
      if int (length values) > cx_max_items c then Inl (ValueError ''reasoning context exceeds the item bound'')
      else if list_ex (\<lambda>v. int (length v) > cx_max_chars_per_item c) values
        then Inl (ValueError ''reasoning context exceeds the character bound'')
      else Inr values)"

definition total_chars :: "reasoning_context \<Rightarrow> nat" where
  "total_chars c =
     sum_list (map length (concat [cx_constraints c, cx_hypothesis_ids c, cx_evidence_ids c, cx_topology_node_ids c,
       cx_collision_ids c, cx_unresolved_questions c]))
     + sum_list (map (\<lambda>(p, s). length p + length s) (cx_candidate_summaries c))"

definition context_post_init :: "digest \<Rightarrow> reasoning_context \<Rightarrow> reasoning_context res" where
  "context_post_init H c =
     (if cx_max_items c < 1 then Inl (ValueError ''reasoning context max_items must be positive'')
      else if cx_max_chars_per_item c < 1 \<or> cx_max_total_chars c < 1
        then Inl (ValueError ''reasoning context character bounds must be positive'')
      else bindR (bounded_items c (cx_constraints c)) (\<lambda>constraints.
           bindR (bounded_items c (cx_hypothesis_ids c)) (\<lambda>hypotheses.
           bindR (bounded_items c (cx_evidence_ids c)) (\<lambda>evidence.
           bindR (bounded_items c (cx_topology_node_ids c)) (\<lambda>nodes.
           bindR (bounded_items c (cx_collision_ids c)) (\<lambda>collisions.
           bindR (bounded_items c (cx_unresolved_questions c)) (\<lambda>questions.
        let summaries = sort_key (\<lambda>(p, s). [p, s]) (remdups (filter (\<lambda>(p, s). p \<noteq> [] \<and> s \<noteq> []) (cx_candidate_summaries c)))
        in if int (length summaries) > cx_max_items c
             then Inl (ValueError ''reasoning context candidate summaries exceed the item bound'')
           else if list_ex (\<lambda>(p, s). int (length p) > cx_max_chars_per_item c \<or> int (length s) > cx_max_chars_per_item c) summaries
             then Inl (ValueError ''reasoning context candidate summary exceeds the character bound'')
           else let d = c\<lparr>cx_constraints := constraints, cx_hypothesis_ids := hypotheses, cx_evidence_ids := evidence,
                       cx_topology_node_ids := nodes, cx_collision_ids := collisions,
                       cx_unresolved_questions := questions, cx_candidate_summaries := summaries\<rparr>
             in if int (total_chars d) > cx_max_total_chars d
                  then Inl (ValueError ''reasoning context exceeds the total character bound'')
                else bindR (sign_with (cx_signature d) (stable_hash H (JObj (context_fields d)))) (\<lambda>sig.
                  Inr (d\<lparr>cx_signature := sig\<rparr>)))))))))"

record operation_choice =
  oc_schema_version :: int
  oc_operation :: string
  oc_expected_quality_gain_bp :: int
  oc_cost_bp :: int
  oc_value_bp :: int
  oc_requires_iurm :: bool
  oc_read_only :: bool
  oc_signature :: string

definition operation_fields :: "operation_choice \<Rightarrow> (string \<times> json) list" where
  "operation_fields x = [
     (''schema_version'', JInt (oc_schema_version x)), (''operation'', JStr (oc_operation x)),
     (''expected_quality_gain_bp'', JInt (oc_expected_quality_gain_bp x)),
     (''cost_bp'', JInt (oc_cost_bp x)), (''value_bp'', JInt (oc_value_bp x)),
     (''requires_iurm'', JBool (oc_requires_iurm x)), (''read_only'', JBool (oc_read_only x))]"

definition operation_post_init :: "digest \<Rightarrow> operation_choice \<Rightarrow> operation_choice res" where
  "operation_post_init H c =
     (if oc_operation c \<notin> set REASONING_OPERATIONS then Inl (ValueError ''invalid reasoning operation'')
      else bindR (check_scores [(''operation expected gain'', oc_expected_quality_gain_bp c), (''operation cost'', oc_cost_bp c)]) (\<lambda>_.
        if \<not> (- SCORE_SCALE \<le> oc_value_bp c \<and> oc_value_bp c \<le> SCORE_SCALE)
          then Inl (ValueError ''operation value must be -10000..10000'')
        else if oc_operation c = ''RUN_READ_ONLY_EXPERIMENT'' \<and> \<not> oc_read_only c
          then Inl (ValueError ''SR experiments must remain read-only'')
        else if oc_operation c = ''REFINE_DIMENSION'' \<and> \<not> oc_requires_iurm c
          then Inl (ValueError ''dimension refinement must require IURM'')
        else bindR (sign_with (oc_signature c) (stable_hash H (JObj (operation_fields c)))) (\<lambda>sig.
          Inr (c\<lparr>oc_signature := sig\<rparr>))))"

section \<open>Metrics, candidate sets, budgets, certificates\<close>

record reasoning_metrics =
  mt_path_id :: string
  mt_evidence_support_bp :: int
  mt_verifier_bp :: int
  mt_consistency_bp :: int
  mt_falsifier_bp :: int
  mt_goal_relevance_bp :: int
  mt_diversity_bp :: int
  mt_uncertainty_bp :: int
  mt_risk_bp :: int
  mt_cost_bp :: int
  mt_total_score_bp :: int
  mt_score_config_id :: string
  mt_score_config_hash :: string
  mt_signature :: string

definition metrics_fields :: "reasoning_metrics \<Rightarrow> (string \<times> json) list" where
  "metrics_fields x = [
     (''path_id'', JStr (mt_path_id x)), (''evidence_support_bp'', JInt (mt_evidence_support_bp x)),
     (''verifier_bp'', JInt (mt_verifier_bp x)), (''consistency_bp'', JInt (mt_consistency_bp x)),
     (''falsifier_bp'', JInt (mt_falsifier_bp x)),
     (''goal_relevance_bp'', JInt (mt_goal_relevance_bp x)),
     (''diversity_bp'', JInt (mt_diversity_bp x)), (''uncertainty_bp'', JInt (mt_uncertainty_bp x)),
     (''risk_bp'', JInt (mt_risk_bp x)), (''cost_bp'', JInt (mt_cost_bp x)),
     (''total_score_bp'', JInt (mt_total_score_bp x)),
     (''score_config_id'', JStr (mt_score_config_id x)),
     (''score_config_hash'', JStr (mt_score_config_hash x))]"

definition reasoning_metrics_post_init :: "reasoning_metrics \<Rightarrow> reasoning_metrics res" where
  "reasoning_metrics_post_init m =
     (if mt_path_id m = [] then Inl (ValueError ''reasoning metrics path_id must be non-empty'')
      else bindR (check_scores [
          (''evidence_support_bp'', mt_evidence_support_bp m), (''verifier_bp'', mt_verifier_bp m),
          (''consistency_bp'', mt_consistency_bp m), (''falsifier_bp'', mt_falsifier_bp m),
          (''goal_relevance_bp'', mt_goal_relevance_bp m), (''diversity_bp'', mt_diversity_bp m),
          (''uncertainty_bp'', mt_uncertainty_bp m), (''risk_bp'', mt_risk_bp m), (''cost_bp'', mt_cost_bp m)]) (\<lambda>_.
        bindR (bounded_score (mt_total_score_bp m) ''reasoning total score'' True) (\<lambda>_. Inr m)))"

record candidate_set =
  cs_schema_version :: int
  cs_problem_id :: string
  cs_paths :: "reasoning_path list"
  cs_verifier_reports :: "verifier_report list"
  cs_falsifier_reports :: "falsifier_report list"
  cs_metrics :: "reasoning_metrics list"
  cs_selected_path_id :: string
  cs_surviving_path_ids :: "string list"
  cs_rejected_path_ids :: "string list"
  cs_synthesized_conclusion :: string
  cs_synthesis_source_path_ids :: "string list"
  cs_synthesis :: "synthesis_result option"
  cs_score_config_id :: string
  cs_score_config_hash :: string
  cs_diversity_config_hash :: string
  cs_ablation_id :: string
  cs_ablation_config_hash :: string
  cs_contradiction_ids :: "string list"
  cs_hypothesis_updates :: "hypothesis_update list"
  cs_signature :: string

definition candidate_post_init :: "candidate_set \<Rightarrow> candidate_set res" where
  "candidate_post_init c =
     (let d = c\<lparr>cs_paths := sort_key pa_path_id (cs_paths c),
                cs_verifier_reports := sort_key vr_path_id (cs_verifier_reports c),
                cs_falsifier_reports := sort_key fr_path_id (cs_falsifier_reports c),
                cs_metrics := sort_key mt_path_id (cs_metrics c),
                cs_surviving_path_ids := canonical_strings (cs_surviving_path_ids c),
                cs_rejected_path_ids := canonical_strings (cs_rejected_path_ids c),
                cs_synthesis_source_path_ids := canonical_strings (cs_synthesis_source_path_ids c),
                cs_contradiction_ids := canonical_strings (cs_contradiction_ids c),
                cs_hypothesis_updates := sort_key hu_update_id (cs_hypothesis_updates c)\<rparr>
      in case cs_synthesis c of
           None \<Rightarrow> Inr d
         | Some s \<Rightarrow>
             if cs_synthesized_conclusion c \<noteq> [] \<and> cs_synthesized_conclusion c \<noteq> sy_merged_conclusion s
               then Inl (ValueError ''candidate synthesis projection mismatch'')
             else Inr (d\<lparr>cs_synthesized_conclusion := sy_merged_conclusion s,
                        cs_synthesis_source_path_ids := sy_source_path_ids s\<rparr>))"

record reasoning_budget =
  bu_schema_version :: int
  bu_max_hypotheses :: int
  bu_minimum_candidates :: int
  bu_maximum_candidates :: int
  bu_candidate_count :: int
  bu_max_steps_per_path :: int
  bu_max_branch_factor :: int
  bu_max_topology_nodes :: int
  bu_max_topology_edges :: int
  bu_max_provider_calls :: int
  bu_max_generation_attempts :: int
  bu_verifier_count :: int
  bu_falsifier_count :: int
  bu_max_verifier_passes :: int
  bu_max_falsifier_passes :: int
  bu_max_tokens :: int
  bu_max_tool_calls :: int
  bu_max_context_items :: int
  bu_operation_costs_bp :: "(string \<times> int) list"
  bu_max_compute_bp :: int
  bu_minimum_voi_bp :: int
  bu_signature :: string

definition reasoning_budget_post_init :: "reasoning_budget \<Rightarrow> reasoning_budget res" where
  "reasoning_budget_post_init b =
     (if list_ex (\<lambda>v. v < 1) [bu_max_hypotheses b, bu_minimum_candidates b, bu_maximum_candidates b, bu_candidate_count b,
          bu_max_steps_per_path b, bu_max_branch_factor b, bu_max_topology_nodes b, bu_max_topology_edges b,
          bu_max_provider_calls b, bu_max_generation_attempts b, bu_verifier_count b, bu_max_verifier_passes b,
          bu_max_falsifier_passes b, bu_max_tokens b, bu_max_tool_calls b, bu_max_context_items b]
        then Inl (ValueError ''reasoning budget limits must be positive'')
      else if \<not> (bu_minimum_candidates b \<le> bu_candidate_count b \<and> bu_candidate_count b \<le> bu_maximum_candidates b)
        then Inl (ValueError ''candidate count must fit the reasoning budget'')
      else if bu_verifier_count b > bu_candidate_count b then Inl (ValueError ''verifier count cannot exceed candidate count'')
      else if bu_max_generation_attempts b < bu_candidate_count b
        then Inl (ValueError ''generation attempts cannot be below candidate count'')
      else if \<not> (0 \<le> bu_falsifier_count b \<and> bu_falsifier_count b \<le> bu_verifier_count b)
        then Inl (ValueError ''falsifier count must fit verified candidates'')
      else bindR (check_scores [(''maximum reasoning compute'', bu_max_compute_bp b),
             (''minimum value of information'', bu_minimum_voi_bp b)]) (\<lambda>_.
           bindR (canonical_score_pairs (bu_operation_costs_bp b)) (\<lambda>costs.
        if list_ex (\<lambda>(k, v). k \<notin> set REASONING_OPERATIONS) costs
          then Inl (ValueError ''reasoning budget contains an unknown operation cost'')
        else if list_ex (\<lambda>(k, v). \<not> in_scale v) costs then Inl (ValueError ''reasoning operation costs must be 0..10000'')
        else Inr (b\<lparr>bu_operation_costs_bp := costs\<rparr>))))"

record reasoning_certificate =
  ce_schema_version :: int
  ce_problem_hash :: string
  ce_boundary_signature :: string
  ce_dimension_signature :: string
  ce_hypothesis_signature :: string
  ce_topology_signature :: string
  ce_candidate_set_signature :: string
  ce_synthesis_signature :: string
  ce_score_config_id :: string
  ce_score_config_hash :: string
  ce_ablation_id :: string
  ce_ablation_config_hash :: string
  ce_active_hypothesis_ids :: "string list"
  ce_candidate_count :: int
  ce_surviving_candidate_count :: int
  ce_winning_candidate_id :: string
  ce_winning_path_id :: string
  ce_verifier_report_ids :: "string list"
  ce_falsifier_report_ids :: "string list"
  ce_evidence_coverage_bp :: int
  ce_verifier_score_bp :: int
  ce_falsification_score_bp :: int
  ce_contradiction_count :: int
  ce_unresolved_contradiction_ids :: "string list"
  ce_uncertainty_before_bp :: int
  ce_uncertainty_after_bp :: int
  ce_disagreement_bp :: int
  ce_residual_risk_bp :: int
  ce_compute_spent_bp :: int
  ce_unresolved_assumptions :: "string list"
  ce_reasoning_topology_hash :: string
  ce_derived_confidence_bp :: int
  ce_decision :: string
  ce_terminal_state :: string
  ce_reasons :: "string list"
  ce_signature :: string

definition certificate_post_init :: "reasoning_certificate \<Rightarrow> reasoning_certificate res" where
  "certificate_post_init c =
     (if ce_decision c \<notin> set REASONING_DECISIONS then Inl (ValueError ''invalid reasoning decision'')
      else if ce_terminal_state c \<notin> set REASONING_TERMINAL_STATES then Inl (ValueError ''invalid reasoning terminal state'')
      else if ce_candidate_count c < 0 \<or> ce_surviving_candidate_count c < 0 \<or> ce_contradiction_count c < 0
        then Inl (ValueError ''reasoning certificate counts cannot be negative'')
      else if ce_surviving_candidate_count c > ce_candidate_count c
        then Inl (ValueError ''surviving candidate count cannot exceed candidate count'')
      else bindR (check_scores [
          (''evidence_coverage_bp'', ce_evidence_coverage_bp c), (''verifier_score_bp'', ce_verifier_score_bp c),
          (''falsification_score_bp'', ce_falsification_score_bp c), (''uncertainty_before_bp'', ce_uncertainty_before_bp c),
          (''uncertainty_after_bp'', ce_uncertainty_after_bp c), (''disagreement_bp'', ce_disagreement_bp c),
          (''residual_risk_bp'', ce_residual_risk_bp c), (''compute_spent_bp'', ce_compute_spent_bp c),
          (''derived_confidence_bp'', ce_derived_confidence_bp c)]) (\<lambda>_.
        if ce_winning_candidate_id c \<noteq> [] \<and> ce_winning_path_id c \<noteq> [] \<and> ce_winning_candidate_id c \<noteq> ce_winning_path_id c
          then Inl (ValueError ''reasoning certificate winning path projections conflict'')
        else if ce_reasoning_topology_hash c \<noteq> [] \<and> ce_topology_signature c \<noteq> []
            \<and> ce_reasoning_topology_hash c \<noteq> ce_topology_signature c
          then Inl (ValueError ''reasoning certificate topology projections conflict'')
        else
          let winning = (if ce_winning_path_id c \<noteq> [] then ce_winning_path_id c else ce_winning_candidate_id c);
              topology = (if ce_topology_signature c \<noteq> [] then ce_topology_signature c else ce_reasoning_topology_hash c)
          in Inr (c\<lparr>ce_active_hypothesis_ids := canonical_strings (ce_active_hypothesis_ids c),
                ce_verifier_report_ids := canonical_strings (ce_verifier_report_ids c),
                ce_falsifier_report_ids := canonical_strings (ce_falsifier_report_ids c),
                ce_unresolved_assumptions := canonical_strings (ce_unresolved_assumptions c),
                ce_unresolved_contradiction_ids := canonical_strings (ce_unresolved_contradiction_ids c),
                ce_reasons := canonical_strings (ce_reasons c),
                ce_winning_candidate_id := winning, ce_winning_path_id := winning,
                ce_reasoning_topology_hash := topology, ce_topology_signature := topology\<rparr>)))"

end
