(* ===== verification/RTopology.thy ===== *)
theory RTopology
  imports RRecords
begin

text \<open>
  \<open>ourd/reasoning/topology.py\<close>: the graph of one reasoning run. Nodes and edges are content
  addressed; building collects them from the problem, the hypotheses and the surviving paths,
  and validation checks budgets, references, acyclicity of the positive relations, grounding of
  every material conclusion and connectedness. The two recursive walks take the depth of the
  call stack as a parameter and raise \<open>RecursionError\<close> when it is used up.
\<close>

section \<open>Relations\<close>

definition POSITIVE_RELATIONS :: "string list" where
  "POSITIVE_RELATIONS = [''supports'', ''requires'', ''entails'', ''predicts'', ''tests'', ''explains'', ''causes'', ''depends_on'']"

definition ATTACK_RELATIONS :: "string list" where
  "ATTACK_RELATIONS = [''contradicts'', ''falsifies'', ''undercuts'', ''rebuts'']"

definition BRANCH_RELATIONS :: "string list" where
  "BRANCH_RELATIONS = [''entails'', ''predicts'', ''tests'', ''causes'', ''depends_on'']"

definition GROUNDING_KINDS :: "string list" where
  "GROUNDING_KINDS = [''evidence'', ''observation'', ''assumption'']"

definition CONTRIBUTION_KINDS :: "string list" where
  "CONTRIBUTION_KINDS = [''hypothesis'', ''conclusion'', ''counterexample'', ''decision'']"

section \<open>Nodes and edges\<close>

definition plain_node :: "string \<Rightarrow> string \<Rightarrow> string \<Rightarrow> reasoning_node" where
  "plain_node i kind text = \<lparr> rn_node_id = i, rn_kind = kind, rn_content = text, rn_evidence_ids = [],
     rn_confidence_bp = 0, rn_path_id = [], rn_validated = False, rn_hypothetical = False, rn_material = False,
     rn_signature = [] \<rparr>"

definition make_reasoning_node :: "digest \<Rightarrow> reasoning_node \<Rightarrow> reasoning_node res" where
  "make_reasoning_node H n = node_post_init (n\<lparr>rn_signature := stable_hash H (JObj (node_fields n))\<rparr>)"

definition inference_identity :: "digest \<Rightarrow> string \<Rightarrow> string \<Rightarrow> string \<Rightarrow> string \<Rightarrow> string res" where
  "inference_identity H source target relation inference =
     bindR (canonical_inference_mode inference False) (\<lambda>m.
       Inr (''inference:'' @ stable_hash H (JObj [(''source_id'', JStr source), (''target_id'', JStr target),
              (''relation'', JStr relation), (''inference_mode'', JStr m)])))"

definition make_reasoning_edge :: "digest \<Rightarrow> string \<Rightarrow> string \<Rightarrow> string \<Rightarrow> string \<Rightarrow> reasoning_edge res" where
  "make_reasoning_edge H source target relation inference =
     bindR (canonical_inference_mode inference False) (\<lambda>m.
     bindR (inference_identity H source target relation m) (\<lambda>i.
       let e = \<lparr> re_edge_id = [], re_source_id = source, re_target_id = target, re_relation = relation,
                 re_inference_id = i, re_inference_mode = m, re_signature = [] \<rparr>;
           edge_id = ''edge:'' @ stable_hash H (JObj (edge_fields e))
       in edge_post_init (e\<lparr>re_edge_id := edge_id,
            re_signature := stable_hash H (JObj (edge_fields e @ [(''edge_id'', JStr edge_id)]))\<rparr>)))"

definition node_json :: "reasoning_node \<Rightarrow> json" where
  "node_json n = JObj (node_fields n @ [(''signature'', JStr (rn_signature n))])"

definition edge_json :: "reasoning_edge \<Rightarrow> json" where
  "edge_json e = JObj (edge_fields e @ [(''edge_id'', JStr (re_edge_id e)), (''signature'', JStr (re_signature e))])"

definition reasoning_topology_payload :: "reasoning_topology \<Rightarrow> json" where
  "reasoning_topology_payload t = JObj [(''problem_id'', JStr (rt_problem_id t)),
     (''nodes'', JList (map node_json (rt_nodes t))), (''edges'', JList (map edge_json (rt_edges t)))]"

text \<open>The payload of schema version 1, without the keys version 2 added.\<close>

definition without_keys :: "string list \<Rightarrow> json \<Rightarrow> json" where
  "without_keys ks v = (case v of JObj kvs \<Rightarrow> JObj (filter (\<lambda>kv. fst kv \<notin> set ks) kvs) | _ \<Rightarrow> v)"

definition legacy_reasoning_topology_payload :: "reasoning_topology \<Rightarrow> json" where
  "legacy_reasoning_topology_payload t = JObj [(''problem_id'', JStr (rt_problem_id t)),
     (''nodes'', JList (map (without_keys [''validated'', ''hypothetical'', ''material''] \<circ> node_json) (rt_nodes t))),
     (''edges'', JList (map (without_keys [''inference_id'', ''inference_mode''] \<circ> edge_json) (rt_edges t)))]"

definition assumption_node_id :: "digest \<Rightarrow> string \<Rightarrow> string \<Rightarrow> string" where
  "assumption_node_id H owner text =
     ''assumption:'' @ stable_hash H (JObj [(''owner_id'', JStr owner), (''content'', JStr text)])"

text \<open>The dicts a topology is built in.\<close>

record graph =
  gr_nodes :: "(string, reasoning_node) dict"
  gr_edges :: "(string, reasoning_edge) dict"

definition add_node :: "digest \<Rightarrow> reasoning_node \<Rightarrow> graph \<Rightarrow> graph res" where
  "add_node H n g = bindR (make_reasoning_node H n) (\<lambda>m.
     if dict_get (gr_nodes g) (rn_node_id m) \<notin> {None, Some m}
       then Inl (PolicyError ''reasoning node identity collision'')
     else Inr (g\<lparr>gr_nodes := dict_set (rn_node_id m) m (gr_nodes g)\<rparr>))"

definition add_edge :: "digest \<Rightarrow> string \<Rightarrow> string \<Rightarrow> string \<Rightarrow> string \<Rightarrow> graph \<Rightarrow> graph res" where
  "add_edge H source target relation inference g = bindR (make_reasoning_edge H source target relation inference) (\<lambda>e.
     if dict_get (gr_edges g) (re_edge_id e) \<notin> {None, Some e}
       then Inl (PolicyError ''reasoning edge identity collision'')
     else Inr (g\<lparr>gr_edges := dict_set (re_edge_id e) e (gr_edges g)\<rparr>))"

definition evidence_node_id :: "string \<Rightarrow> string" where
  "evidence_node_id i = ''evidence:'' @ i"

definition add_evidence_node :: "digest \<Rightarrow> string \<Rightarrow> graph \<Rightarrow> graph res" where
  "add_evidence_node H i = add_node H
     ((plain_node (evidence_node_id i) ''evidence'' (''Evidence artifact '' @ i))\<lparr>rn_evidence_ids := [i]\<rparr>)"

section \<open>Grounding\<close>

definition own_roots :: "reasoning_node \<Rightarrow> string set" where
  "own_roots n = (if rn_kind n \<in> set GROUNDING_KINDS then {rn_kind n} else {})
     \<union> (if rn_kind n = ''premise'' \<and> rn_validated n then {''validated_premise''} else {})"

primrec grounding_kinds ::
  "nat \<Rightarrow> (string, reasoning_node) dict \<Rightarrow> (string \<Rightarrow> string list) \<Rightarrow> string \<Rightarrow> (string, string set) dict \<Rightarrow>
   (string set \<times> (string, string set) dict) res" where
  "grounding_kinds 0 nodes incoming i memo = Inl (RecursionError ''maximum recursion depth exceeded'')"
| "grounding_kinds (Suc d) nodes incoming i memo =
     (case dict_get memo i of Some roots \<Rightarrow> Inr (roots, memo) | None \<Rightarrow>
      case dict_get nodes i of None \<Rightarrow> Inl (KeyError ''node'') | Some n \<Rightarrow>
        bindR (foldR (\<lambda>s (roots, m). bindR (grounding_kinds d nodes incoming s m) (\<lambda>(r, m'). Inr (roots \<union> r, m')))
                 (incoming i) (own_roots n, memo)) (\<lambda>(roots, m).
        Inr (roots, dict_set i roots m)))"

text \<open>Sources of the positive edges into a node, and targets of those out of it.\<close>

definition positive_incoming :: "reasoning_edge list \<Rightarrow> string \<Rightarrow> string list" where
  "positive_incoming es i = map re_source_id (filter (\<lambda>e. re_target_id e = i \<and> re_relation e \<in> set POSITIVE_RELATIONS) es)"

definition positive_adjacency :: "reasoning_edge list \<Rightarrow> string \<Rightarrow> string list" where
  "positive_adjacency es i = map re_target_id (filter (\<lambda>e. re_source_id e = i \<and> re_relation e \<in> set POSITIVE_RELATIONS) es)"

definition mark_hypothetical :: "digest \<Rightarrow> nat \<Rightarrow> graph \<Rightarrow> graph res" where
  "mark_hypothetical H depth g =
     (let es = map snd (gr_edges g); incoming = positive_incoming es in
      if list_ex (\<lambda>e. re_relation e \<in> set POSITIVE_RELATIONS \<and> dict_get (gr_nodes g) (re_target_id e) = None) es
        then Inl (KeyError ''target'')
      else bindR (foldR (\<lambda>(i, n) (nodes, memo).
          if \<not> rn_material n then Inr (nodes, memo)
          else bindR (grounding_kinds depth nodes incoming i memo) (\<lambda>(roots, memo').
            if roots = {''assumption''} \<and> \<not> rn_hypothetical n
              then bindR (make_reasoning_node H (n\<lparr>rn_hypothetical := True\<rparr>)) (\<lambda>m. Inr (dict_set i m nodes, memo'))
            else Inr (nodes, memo')))
          (gr_nodes g) (gr_nodes g, [])) (\<lambda>(nodes, memo). Inr (g\<lparr>gr_nodes := nodes\<rparr>)))"

section \<open>Walks of the validation\<close>

text \<open>Depth-first search with markers 1 (on the stack) and 2 (finished).\<close>

primrec visit :: "nat \<Rightarrow> (string \<Rightarrow> string list) \<Rightarrow> string \<Rightarrow> (string, nat) dict \<Rightarrow> (string, nat) dict res" where
  "visit 0 adj i state = Inl (RecursionError ''maximum recursion depth exceeded'')"
| "visit (Suc d) adj i state =
     (let marker = dict_getd state i 0 in
      if marker = 1 then Inl (PolicyError ''positive reasoning topology contains a cycle'')
      else if marker = 2 then Inr state
      else bindR (foldR (visit d adj) (adj i) (dict_set i 1 state)) (\<lambda>s. Inr (dict_set i 2 s)))"

definition neighbours :: "reasoning_edge list \<Rightarrow> string \<Rightarrow> string list" where
  "neighbours es i = remdups (concat (map (\<lambda>e. (if re_source_id e = i then [re_target_id e] else [])
     @ (if re_target_id e = i then [re_source_id e] else [])) es))"

text \<open>The search for an anchor: \<open>frontier\<close> is a stack, its top the last element.\<close>

definition endpoints :: "reasoning_edge list \<Rightarrow> string set" where
  "endpoints es = re_source_id ` set es \<union> re_target_id ` set es"

lemma neighbours_endpoints: "set (neighbours es i) \<subseteq> endpoints es"
  by (auto simp: neighbours_def endpoints_def split: if_splits)

function contributes :: "reasoning_edge list \<Rightarrow> string list \<Rightarrow> string list \<Rightarrow> string list \<Rightarrow> bool" where
  "contributes es anchors seen [] = False"
| "contributes es anchors seen (current # frontier) =
     (if current \<in> set anchors then True
      else let new = filter (\<lambda>a. a \<notin> set seen) (neighbours es current)
        in contributes es anchors (new @ seen) (rev new @ frontier))"
  by pat_completeness auto
termination
proof (relation "measure (\<lambda>(es, anchors, seen, frontier). length frontier + card (endpoints es - set seen))", goal_cases)
  case 1
  show ?case by simp
next
  case (2 es anchors seen current frontier new)
  have fin: "finite (endpoints es)" by (simp add: endpoints_def)
  have new: "distinct new" "set new \<subseteq> endpoints es - set seen"
    using 2 neighbours_endpoints [of es current] by (auto simp: neighbours_def)
  have "endpoints es - set (new @ seen) = endpoints es - set seen - set new" by auto
  then have "card (endpoints es - set (new @ seen)) = card (endpoints es - set seen) - length new"
    using new fin by (simp add: card_Diff_subset distinct_card)
  moreover have "length new \<le> card (endpoints es - set seen)"
    using new fin by (metis card_mono distinct_card finite_Diff)
  ultimately show ?case by simp
qed

section \<open>Validation\<close>

definition check_edge :: "digest \<Rightarrow> reasoning_topology \<Rightarrow> reasoning_edge \<Rightarrow> unit res" where
  "check_edge H t e =
     (let known = map rn_node_id (rt_nodes t) in
      if re_source_id e \<notin> set known \<or> re_target_id e \<notin> set known
        then Inl (PolicyError ''reasoning topology edge references an unknown node'')
      else if rt_schema_version t \<ge> 2 then
        (if re_inference_mode e = ''unspecified'' \<or> re_inference_id e = []
           then Inl (PolicyError ''reasoning topology edge lacks explicit inference metadata'')
         else bindR (inference_identity H (re_source_id e) (re_target_id e) (re_relation e) (re_inference_mode e)) (\<lambda>i.
           if re_inference_id e \<noteq> i then Inl (PolicyError ''reasoning topology inference identity mismatch'')
           else bindR (make_reasoning_edge H (re_source_id e) (re_target_id e) (re_relation e) (re_inference_mode e)) (\<lambda>x.
             if re_edge_id e \<noteq> re_edge_id x \<or> re_signature e \<noteq> re_signature x
               then Inl (PolicyError ''reasoning topology edge content address mismatch'')
             else Inr ())))
      else Inr ())"

definition branch_count :: "reasoning_edge list \<Rightarrow> string \<Rightarrow> int" where
  "branch_count es i = int (length (filter (\<lambda>e. re_source_id e = i \<and> re_relation e \<in> set BRANCH_RELATIONS) es))"

definition node_dict :: "reasoning_topology \<Rightarrow> (string, reasoning_node) dict" where
  "node_dict t = map (\<lambda>n. (rn_node_id n, n)) (rt_nodes t)"

definition check_node :: "string list \<Rightarrow> reasoning_topology \<Rightarrow> reasoning_node \<Rightarrow> unit res" where
  "check_node declared t n =
     (if \<not> set (rn_evidence_ids n) \<subseteq> set declared then Inl (PolicyError ''reasoning topology references undeclared evidence'')
      else if rn_kind n = ''evidence'' \<and> length (rn_evidence_ids n) \<noteq> 1
        then Inl (PolicyError ''reasoning evidence node must bind exactly one artifact'')
      else if rn_kind n = ''evidence'' \<and>
          (hd (rn_evidence_ids n) \<notin> set declared \<or> rn_node_id n \<noteq> evidence_node_id (hd (rn_evidence_ids n)))
        then Inl (PolicyError ''reasoning evidence node lies outside the finite universe'')
      else if rn_kind n = ''decision'' \<and> rn_path_id n = [] then Inl (PolicyError ''reasoning decision lacks a candidate path'')
      else if rn_kind n = ''decision'' \<and>
          (let conclusion = ''conclusion:'' @ rn_path_id n in
           conclusion \<notin> rn_node_id ` set (rt_nodes t) \<or>
           \<not> list_ex (\<lambda>e. re_source_id e = conclusion \<and> re_target_id e = rn_node_id n \<and> re_relation e = ''supports'') (rt_edges t))
        then Inl (PolicyError ''reasoning decision lacks a traceable candidate conclusion'')
      else if rn_kind n = ''counterexample'' \<and>
          (let attacks = filter (\<lambda>e. re_source_id e = rn_node_id n \<and> re_relation e \<in> set ATTACK_RELATIONS) (rt_edges t) in
           attacks = [] \<or> list_ex (\<lambda>e. case dict_get (node_dict t) (re_target_id e) of
             None \<Rightarrow> True | Some m \<Rightarrow> rn_kind m \<notin> {''hypothesis'', ''claim''}) attacks)
        then Inl (PolicyError ''counterexample is not bound to a hypothesis or reasoning step'')
      else Inr ())"

definition check_grounding ::
  "nat \<Rightarrow> reasoning_topology \<Rightarrow> reasoning_node \<Rightarrow> (string, string set) dict \<Rightarrow> (string, string set) dict res" where
  "check_grounding depth t n memo =
     (if \<not> rn_material n then Inr memo
      else bindR (grounding_kinds depth (node_dict t) (positive_incoming (rt_edges t)) (rn_node_id n) memo) (\<lambda>(roots, memo').
        if roots = {} then Inl (PolicyError ''material reasoning conclusion lacks a grounding trace'')
        else if roots = {''assumption''} \<and> \<not> rn_hypothetical n
          then Inl (PolicyError ''assumption-only conclusion must remain hypothetical'')
        else Inr memo'))"

definition check_connected :: "reasoning_topology \<Rightarrow> unit res" where
  "check_connected t =
     (let anchors = map rn_node_id (filter (\<lambda>n. rn_kind n \<in> set CONTRIBUTION_KINDS) (rt_nodes t)) in
      eachR (\<lambda>i. if i \<in> set anchors \<or> contributes (rt_edges t) anchors [i] [i] then Inr ()
          else Inl (PolicyError ''reasoning topology contains an unconnected branch''))
        (sorted_set (map rn_node_id (rt_nodes t))))"

definition validate_reasoning_topology ::
  "digest \<Rightarrow> nat \<Rightarrow> reasoning_budget \<Rightarrow> string list \<Rightarrow> reasoning_topology \<Rightarrow> unit res" where
  "validate_reasoning_topology H depth b declared_ids t =
     (let declared = filter (\<lambda>v. v \<noteq> []) declared_ids; ids = map rn_node_id (rt_nodes t) in
      if int (length (rt_nodes t)) > bu_max_topology_nodes b then Inl (PolicyError ''reasoning topology node budget exceeded'')
      else if int (length (rt_edges t)) > bu_max_topology_edges b then Inl (PolicyError ''reasoning topology edge budget exceeded'')
      else if \<not> distinct ids then Inl (PolicyError ''reasoning topology contains duplicate node IDs'')
      else if \<not> distinct (map re_edge_id (rt_edges t)) then Inl (PolicyError ''reasoning topology contains duplicate edge IDs'')
      else if set POSITIVE_RELATIONS \<inter> set ATTACK_RELATIONS \<noteq> {}
        then Inl (PolicyError ''attack relations overlap positive reasoning relations'')
      else bindR (eachR (check_edge H t) (rt_edges t)) (\<lambda>_.
        if list_ex (\<lambda>i. branch_count (rt_edges t) i > bu_max_branch_factor b) ids
          then Inl (PolicyError ''reasoning topology branch factor exceeded'')
        else bindR (eachR (check_node declared t) (rt_nodes t)) (\<lambda>_.
             bindR (foldR (visit depth (positive_adjacency (rt_edges t))) (sorted_set ids) []) (\<lambda>_.
             bindR (foldR (check_grounding depth t) (rt_nodes t) []) (\<lambda>_.
             check_connected t)))))"

section \<open>Building\<close>

definition hypothesis_node_id :: "string \<Rightarrow> string" where
  "hypothesis_node_id i = ''hypothesis:'' @ i"

definition add_hypothesis :: "digest \<Rightarrow> string \<Rightarrow> reasoning_hypothesis \<Rightarrow> graph \<Rightarrow> graph res" where
  "add_hypothesis H question h g0 =
     (let hid = hypothesis_node_id (rh_hypothesis_id h) in
      bindR (add_node H ((plain_node hid ''hypothesis'' (rh_proposition h))\<lparr>
          rn_evidence_ids := rh_supporting_evidence h @ rh_conflicting_evidence h,
          rn_confidence_bp := rh_posterior_bp h, rn_hypothetical := True\<rparr>) g0) (\<lambda>g1.
      bindR (add_edge H hid question ''explains'' ''abductive'' g1) (\<lambda>g2.
      bindR (foldR (\<lambda>i g. bindR (add_evidence_node H i g) (add_edge H (evidence_node_id i) hid ''supports'' ''inductive''))
               (rh_supporting_evidence h) g2) (\<lambda>g3.
      bindR (foldR (\<lambda>i g. bindR (add_evidence_node H i g) (add_edge H (evidence_node_id i) hid ''contradicts'' ''defeasible''))
               (rh_conflicting_evidence h) g3) (\<lambda>g4.
      bindR (foldR (\<lambda>a g. let aid = assumption_node_id H hid a in
               bindR (add_node H (plain_node aid ''assumption'' a) g) (add_edge H aid hid ''requires'' ''constraint''))
               (rh_assumptions h) g4) (\<lambda>g5.
      foldR (\<lambda>p g. let pid = ''prediction:'' @ stable_hash H (JObj [(''hypothesis_id'', JStr (rh_hypothesis_id h)),
                       (''prediction'', JStr p)]) in
               bindR (add_node H (plain_node pid ''prediction'' p) g) (add_edge H hid pid ''predicts'' ''probabilistic''))
               (rh_predictions h) g5))))))"

text \<open>\<open>step_node_ids\<close> maps a path and a step to the step's node once the step has been reached.\<close>

type_synonym step_index = "(string \<times> string, string) dict"

definition step_node_id :: "string \<Rightarrow> string \<Rightarrow> string" where
  "step_node_id path step = ''step:'' @ path @ '':'' @ step"

definition premise_source ::
  "string \<Rightarrow> reasoning_hypothesis list \<Rightarrow> step_index \<Rightarrow> string \<Rightarrow> string \<Rightarrow> string \<times> string" where
  "premise_source premise_id hypotheses index path premise =
     (if premise = ''problem'' then (premise_id, ''requires'')
      else if premise \<in> rh_hypothesis_id ` set hypotheses then (hypothesis_node_id premise, ''supports'')
      else (dict_getd index (path, premise) [], ''entails''))"

definition add_step ::
  "digest \<Rightarrow> string \<Rightarrow> reasoning_hypothesis list \<Rightarrow> string \<Rightarrow> reasoning_step \<Rightarrow> graph \<times> step_index \<Rightarrow> (graph \<times> step_index) res" where
  "add_step H premise_id hypotheses path s gi =
     (let nid = step_node_id path (st_step_id s); index = dict_set (path, st_step_id s) nid (snd gi) in
      bindR (add_node H ((plain_node nid ''claim'' (st_claim s))\<lparr>rn_evidence_ids := st_evidence_ids s,
          rn_confidence_bp := st_confidence_bp s, rn_path_id := path, rn_hypothetical := (st_assumptions s \<noteq> [])\<rparr>) (fst gi)) (\<lambda>g1.
      bindR (foldR (\<lambda>p g. case premise_source premise_id hypotheses index path p of (source, relation) \<Rightarrow>
               if source = [] then Inr g else add_edge H source nid relation (st_inference s) g) (st_premises s) g1) (\<lambda>g2.
      bindR (foldR (\<lambda>i g. bindR (add_evidence_node H i g) (add_edge H (evidence_node_id i) nid ''supports'' (st_inference s)))
               (st_evidence_ids s) g2) (\<lambda>g3.
      bindR (foldR (\<lambda>a g. let aid = assumption_node_id H nid a in
               bindR (add_node H (plain_node aid ''assumption'' a) g) (add_edge H aid nid ''requires'' (st_inference s)))
               (st_assumptions s) g3) (\<lambda>g4.
      Inr (g4, index))))))"

definition conclusion_node_id :: "string \<Rightarrow> string" where
  "conclusion_node_id path = ''conclusion:'' @ path"

definition step_of :: "step_index \<Rightarrow> string \<Rightarrow> string \<Rightarrow> string res" where
  "step_of index path step = (case dict_get index (path, step) of None \<Rightarrow> Inl (KeyError ''step'') | Some i \<Rightarrow> Inr i)"

definition last_by :: "('a \<Rightarrow> string) \<Rightarrow> 'a list \<Rightarrow> string \<Rightarrow> 'a option" where
  "last_by key xs k = find (\<lambda>x. key x = k) (rev xs)"

definition add_path ::
  "digest \<Rightarrow> string \<Rightarrow> reasoning_hypothesis list \<Rightarrow> candidate_set \<Rightarrow> reasoning_path \<Rightarrow> graph \<times> step_index \<Rightarrow>
   (graph \<times> step_index) res" where
  "add_path H premise_id hypotheses c p gi =
     (if pa_path_id p \<notin> set (cs_surviving_path_ids c) then Inr gi
      else bindR (foldR (add_step H premise_id hypotheses (pa_path_id p)) (pa_steps p) gi) (\<lambda>(g1, index).
        let cid = conclusion_node_id (pa_path_id p);
            report = last_by vr_path_id (cs_verifier_reports c) (pa_path_id p);
            material = ((case report of None \<Rightarrow> False | Some r \<Rightarrow> vr_verdict r \<noteq> ''REJECT'') \<or> pa_path_id p = cs_selected_path_id c)
        in bindR (add_node H ((plain_node cid ''conclusion'' (pa_conclusion p))\<lparr>rn_confidence_bp := pa_provider_confidence_bp p,
               rn_path_id := pa_path_id p, rn_material := material\<rparr>) g1) (\<lambda>g2.
           bindR (step_of index (pa_path_id p) (st_step_id (last (pa_steps p)))) (\<lambda>final.
           bindR (add_edge H final cid ''entails'' (st_inference (last (pa_steps p))) g2) (\<lambda>g3.
           Inr (g3, index))))))"

definition number2 :: "nat \<Rightarrow> string" where
  "number2 n = (if n < 10 then CHR ''0'' # nat_str n else nat_str n)"

definition numbered :: "string \<Rightarrow> string \<Rightarrow> string list \<Rightarrow> (string \<times> string) list" where
  "numbered prefix report items = map (\<lambda>(n, x). (prefix @ report @ '':'' @ number2 n, x)) (enumerate 1 items)"

definition find_path :: "candidate_set \<Rightarrow> string \<Rightarrow> reasoning_path res" where
  "find_path c i = (case last_by pa_path_id (cs_paths c) i of None \<Rightarrow> Inl (KeyError ''path'') | Some p \<Rightarrow> Inr p)"

definition add_verifier_report ::
  "digest \<Rightarrow> candidate_set \<Rightarrow> step_index \<Rightarrow> verifier_report \<Rightarrow> graph \<Rightarrow> graph res" where
  "add_verifier_report H c index r g0 =
     (if vr_path_id r \<notin> set (cs_surviving_path_ids c) then Inr g0
      else bindR (find_path c (vr_path_id r)) (\<lambda>p.
           bindR (step_of index (pa_path_id p) (st_step_id (last (pa_steps p)))) (\<lambda>target.
           foldR (\<lambda>(i, x) g. bindR (add_node H ((plain_node i ''counterexample'' x)\<lparr>rn_path_id := vr_path_id r\<rparr>) g)
               (add_edge H i target ''rebuts'' ''defeasible''))
             (numbered ''counterexample:'' (vr_report_id r) (vr_contradictions r)) g0)))"

definition falsified_targets :: "step_index \<Rightarrow> reasoning_path \<Rightarrow> falsifier_report \<Rightarrow> string list res" where
  "falsified_targets index p r =
     (if fr_contradicted_step_ids r \<noteq> [] then mapR (step_of index (fr_path_id r)) (fr_contradicted_step_ids r)
      else if pa_hypothesis_ids p \<noteq> [] then Inr (map hypothesis_node_id (pa_hypothesis_ids p))
      else bindR (step_of index (pa_path_id p) (st_step_id (last (pa_steps p)))) (\<lambda>t. Inr [t]))"

definition add_falsifier_report ::
  "digest \<Rightarrow> candidate_set \<Rightarrow> step_index \<Rightarrow> falsifier_report \<Rightarrow> graph \<Rightarrow> graph res" where
  "add_falsifier_report H c index r g0 =
     (if fr_path_id r \<notin> set (cs_surviving_path_ids c) then Inr g0
      else bindR (find_path c (fr_path_id r)) (\<lambda>p.
        bindR (foldR (\<lambda>(i, x) g. bindR (add_node H ((plain_node i ''counterexample'' x)\<lparr>rn_path_id := fr_path_id r\<rparr>) g) (\<lambda>g'.
                 bindR (falsified_targets index p r) (\<lambda>ts.
                 foldR (\<lambda>t. add_edge H i t ''falsifies'' ''defeasible'') ts g')))
               (numbered ''counterexample:'' (fr_report_id r) (fr_counterexamples r)) g0) (\<lambda>g1.
        foldR (\<lambda>(i, x) g. bindR (add_node H ((plain_node i ''constraint'' x)\<lparr>rn_path_id := fr_path_id r\<rparr>) g)
            (add_edge H i (conclusion_node_id (fr_path_id r)) ''qualifies'' ''defeasible''))
          (numbered ''constraint:'' (fr_report_id r) (fr_unresolved_defeat_conditions r)) g1)))"

definition add_decision :: "digest \<Rightarrow> reasoning_problem \<Rightarrow> candidate_set \<Rightarrow> graph \<Rightarrow> graph res" where
  "add_decision H problem c g =
     (if cs_selected_path_id c = [] then Inr g
      else bindR (find_path c (cs_selected_path_id c)) (\<lambda>p.
        let did = ''decision:'' @ rp_problem_id problem;
            text = (if cs_synthesized_conclusion c \<noteq> [] then cs_synthesized_conclusion c else pa_conclusion p)
        in bindR (add_node H ((plain_node did ''decision'' text)\<lparr>rn_path_id := pa_path_id p, rn_material := True\<rparr>) g)
             (add_edge H (conclusion_node_id (pa_path_id p)) did ''supports'' ''constraint'')))"

definition build_reasoning_topology ::
  "digest \<Rightarrow> nat \<Rightarrow> reasoning_problem \<Rightarrow> reasoning_hypothesis list \<Rightarrow> candidate_set \<Rightarrow> reasoning_topology res" where
  "build_reasoning_topology H depth problem hypotheses c =
     (let question = ''question:'' @ rp_problem_id problem; premise_id = ''premise:'' @ rp_problem_id problem in
      bindR (add_node H (plain_node question ''question'' (rp_goal problem)) \<lparr> gr_nodes = [], gr_edges = [] \<rparr>) (\<lambda>g1.
      bindR (add_node H ((plain_node premise_id ''premise'' (rp_statement problem))\<lparr>rn_validated := True\<rparr>) g1) (\<lambda>g2.
      bindR (add_edge H premise_id question ''requires'' ''constraint'' g2) (\<lambda>g3.
      bindR (foldR (add_hypothesis H question) (sort_key rh_hypothesis_id hypotheses) g3) (\<lambda>g4.
      bindR (foldR (add_path H premise_id hypotheses c) (cs_paths c) (g4, [])) (\<lambda>(g5, index).
      bindR (foldR (add_verifier_report H c index) (cs_verifier_reports c) g5) (\<lambda>g6.
      bindR (foldR (add_falsifier_report H c index) (cs_falsifier_reports c) g6) (\<lambda>g7.
      bindR (add_decision H problem c g7) (\<lambda>g8.
      bindR (mark_hypothetical H depth g8) (\<lambda>g9.
        let t = topology_post_init \<lparr> rt_schema_version = 2, rt_problem_id = rp_problem_id problem,
              rt_nodes = map snd (gr_nodes g9), rt_edges = map snd (gr_edges g9), rt_signature = [] \<rparr>
        in Inr (t\<lparr>rt_signature := stable_hash H (reasoning_topology_payload t)\<rparr>)))))))))))"

section \<open>The depth-first search decides acyclicity\<close>

definition edge_rel :: "(string \<Rightarrow> string list) \<Rightarrow> (string \<times> string) set" where
  "edge_rel adj = {(x, y). y \<in> set (adj x)}"

definition marked :: "(string, nat) dict \<Rightarrow> nat \<Rightarrow> string set" where
  "marked st m = {i. dict_getd st i 0 = m}"

lemma marked_set: "m \<noteq> 0 \<Longrightarrow> marked (dict_set i k st) m = (if k = m then insert i (marked st m) else marked st m - {i})"
  by (auto simp: marked_def dict_getd_def split: if_splits)

lemma marked_iff: "i \<in> marked st m \<longleftrightarrow> dict_getd st i 0 = m"
  by (simp add: marked_def)

definition search_inv :: "(string \<Rightarrow> string list) \<Rightarrow> (string, nat) dict \<Rightarrow> bool" where
  "search_inv adj st \<longleftrightarrow> (\<forall>x \<in> marked st 2. set (adj x) \<subseteq> marked st 2 \<and> (x, x) \<notin> (edge_rel adj)\<^sup>+)"

definition search_step :: "(string \<Rightarrow> string list) \<Rightarrow> (string, nat) dict \<Rightarrow> string set \<Rightarrow> (string, nat) dict \<Rightarrow> bool" where
  "search_step adj st xs st' \<longleftrightarrow> search_inv adj st' \<and> xs \<subseteq> marked st' 2 \<and> marked st' 1 = marked st 1 \<and>
     marked st 2 \<subseteq> marked st' 2"

lemma closed_reaches: "(x, y) \<in> (edge_rel adj)\<^sup>* \<Longrightarrow> x \<in> S \<Longrightarrow> (\<And>z. z \<in> S \<Longrightarrow> set (adj z) \<subseteq> S) \<Longrightarrow> y \<in> S"
  by (induction rule: rtrancl_induct) (auto simp: edge_rel_def)

lemma visits_step:
  assumes "\<And>i st st'. visit d adj i st = Inr st' \<Longrightarrow> search_inv adj st \<Longrightarrow> search_step adj st {i} st'"
    and "foldR (visit d adj) xs st = Inr st'" and "search_inv adj st"
  shows "search_step adj st (set xs) st'"
  using assms(2,3)
proof (induction xs arbitrary: st)
  case Nil
  then show ?case by (simp add: search_step_def)
next
  case (Cons x xs)
  then obtain s where s: "visit d adj x st = Inr s" "foldR (visit d adj) xs s = Inr st'" by (auto simp: bindR_Inr)
  have a: "search_step adj st {x} s" using assms(1) [OF s(1) Cons.prems(2)] .
  then have "search_step adj s (set xs) st'" using Cons.IH [OF s(2)] by (simp add: search_step_def)
  with a show ?case by (auto simp: search_step_def)
qed

lemma visit_step: "visit d adj i st = Inr st' \<Longrightarrow> search_inv adj st \<Longrightarrow> search_step adj st {i} st'"
proof (induction d arbitrary: i st st')
  case 0
  then show ?case by simp
next
  case (Suc d)
  show ?case
  proof (cases "dict_getd st i 0 = 2")
    case True
    with Suc.prems show ?thesis by (auto simp: Let_def search_step_def marked_iff)
  next
    case two: False
    with Suc.prems(1) have one: "dict_getd st i 0 \<noteq> 1" by (auto simp: Let_def split: if_splits)
    with two Suc.prems(1) obtain t where t: "foldR (visit d adj) (adj i) (dict_set i 1 st) = Inr t" "st' = dict_set i 2 t"
      by (auto simp: Let_def bindR_Inr)
    have m: "marked (dict_set i 1 st) 2 = marked st 2" "marked (dict_set i 1 st) 1 = insert i (marked st 1)"
      using two by (auto simp: marked_set marked_iff)
    have "search_inv adj (dict_set i 1 st)" using Suc.prems(2) unfolding search_inv_def m .
    then have "search_step adj (dict_set i 1 st) (set (adj i)) t"
      using visits_step [OF _ t(1)] Suc.IH by blast
    then have r: "search_inv adj t" "set (adj i) \<subseteq> marked t 2" "marked t 1 = insert i (marked st 1)" "marked st 2 \<subseteq> marked t 2"
      unfolding search_step_def m by blast+
    have m': "marked st' 2 = insert i (marked t 2)" "marked st' 1 = marked t 1 - {i}" by (simp_all add: t(2) marked_set)
    have "i \<in> marked t 1" using r(3) by blast
    then have "i \<notin> marked t 2" by (simp add: marked_iff)
    have "(i, i) \<notin> (edge_rel adj)\<^sup>+"
    proof
      assume "(i, i) \<in> (edge_rel adj)\<^sup>+"
      then obtain y where "(i, y) \<in> edge_rel adj" "(y, i) \<in> (edge_rel adj)\<^sup>*" by (metis tranclD)
      then have "i \<in> marked t 2" using r(1,2) by (intro closed_reaches [of y i adj "marked t 2"]) (auto simp: edge_rel_def search_inv_def)
      with \<open>i \<notin> marked t 2\<close> show False ..
    qed
    moreover have "i \<notin> marked st 1" using one by (simp add: marked_iff)
    ultimately show ?thesis using r unfolding search_step_def search_inv_def m' by auto
  qed
qed

lemma marked_start [simp]: "m \<noteq> 0 \<Longrightarrow> marked [] m = {}"
  by (simp add: marked_def dict_getd_def)

lemma search_acyclic:
  assumes "foldR (visit d adj) xs [] = Inr st" and "\<And>x. adj x \<noteq> [] \<Longrightarrow> x \<in> set xs"
  shows "acyclic (edge_rel adj)"
proof -
  have "search_inv adj []" by (simp add: search_inv_def)
  then have s: "search_step adj [] (set xs) st" using visits_step [OF _ assms(1)] visit_step by blast
  show ?thesis
    unfolding acyclic_def
  proof (intro allI notI)
    fix x assume *: "(x, x) \<in> (edge_rel adj)\<^sup>+"
    then obtain y where "(x, y) \<in> edge_rel adj" by (metis tranclD)
    then have "adj x \<noteq> []" by (auto simp: edge_rel_def)
    then have "x \<in> set xs" by (rule assms(2))
    with s * show False by (auto simp: search_step_def search_inv_def)
  qed
qed

text \<open>
  Conversely, a stack deeper than the number of nodes is never used up, and the only error left
  is the report of a cycle that is there.
\<close>

lemma visits_complete:
  assumes "\<And>i st e. i \<in> set xs \<Longrightarrow> marked st 1 = G \<Longrightarrow> visit d adj i st = Inl e \<Longrightarrow> P e"
    and "\<And>i st st'. visit d adj i st = Inr st' \<Longrightarrow> marked st' 1 = marked st 1"
    and "foldR (visit d adj) xs st = Inl e" and "marked st 1 = G"
  shows "P e"
  using assms
proof (induction xs arbitrary: st)
  case Nil
  then show ?case by simp
next
  case (Cons x xs)
  show ?case
  proof (cases "visit d adj x st")
    case (Inl e')
    with Cons.prems(1) [of x st e'] Cons.prems(3,4) show ?thesis by simp
  next
    case (Inr s)
    with Cons.prems(2) [OF Inr] have "foldR (visit d adj) xs s = Inl e" "marked s 1 = G" using Cons.prems(3,4) by simp_all
    then show ?thesis using Cons.IH [of s] Cons.prems(1,2) by (metis list.set_intros(2))
  qed
qed

lemma visit_grey: "visit d adj i st = Inr st' \<Longrightarrow> marked st' 1 = marked st 1"
proof (induction d arbitrary: i st st')
  case 0
  then show ?case by simp
next
  case (Suc d)
  have fold: "foldR (visit d adj) xs s = Inr t \<Longrightarrow> marked t 1 = marked s 1" for xs s t
    using Suc.IH by (induction xs arbitrary: s) (auto simp: bindR_Inr)
  show ?case
  proof (cases "dict_getd st i 0 \<in> {1, 2}")
    case True
    with Suc.prems show ?thesis by (auto simp: Let_def split: if_splits)
  next
    case False
    then have "i \<notin> marked st 1" by (simp add: marked_iff)
    with False Suc.prems fold show ?thesis by (auto simp: Let_def bindR_Inr marked_set split: if_splits)
  qed
qed

lemma visit_error:
  assumes "finite N" and "\<And>x. x \<in> N \<Longrightarrow> set (adj x) \<subseteq> N" and "visit d adj i st = Inl e" and "i \<in> N"
    and "marked st 1 \<subseteq> N" and "\<And>g. g \<in> marked st 1 \<Longrightarrow> (g, i) \<in> (edge_rel adj)\<^sup>+"
    and "card N < card (marked st 1) + d"
  shows "e = PolicyError ''positive reasoning topology contains a cycle'' \<and> \<not> acyclic (edge_rel adj)"
  using assms(3-)
proof (induction d arbitrary: i st e)
  case 0
  then have "card (marked st 1) \<le> card N" using assms(1) by (intro card_mono) simp_all
  with 0 show ?case by simp
next
  case (Suc d)
  show ?case
  proof (cases "dict_getd st i 0 = 1")
    case True
    then have "(i, i) \<in> (edge_rel adj)\<^sup>+" using Suc.prems(4) by (simp add: marked_iff)
    with True Suc.prems(1) show ?thesis by (auto simp: Let_def acyclic_def)
  next
    case False
    with Suc.prems(1) have f: "foldR (visit d adj) (adj i) (dict_set i 1 st) = Inl e"
      by (auto simp: Let_def bindR_Inl split: if_splits)
    have m: "marked (dict_set i 1 st) 1 = insert i (marked st 1)" by (simp add: marked_set)
    show ?thesis
    proof (rule visits_complete [OF _ visit_grey f m])
      fix y s e' assume y: "y \<in> set (adj i)" and s: "marked s 1 = insert i (marked st 1)" and e: "visit d adj y s = Inl e'"
      have edge: "(i, y) \<in> edge_rel adj" using y by (simp add: edge_rel_def)
      have "i \<notin> marked st 1" "finite (marked st 1)"
        using False Suc.prems(3) assms(1) by (auto simp: marked_iff intro: finite_subset)
      then have "card (marked s 1) = Suc (card (marked st 1))" using s by simp
      then show "e' = PolicyError ''positive reasoning topology contains a cycle'' \<and> \<not> acyclic (edge_rel adj)"
        using Suc.prems edge y assms(2) s by (intro Suc.IH [OF e]) (auto intro: trancl_into_trancl)
    qed
  qed
qed

lemma search_error:
  assumes "finite N" and "\<And>x. x \<in> N \<Longrightarrow> set (adj x) \<subseteq> N" and "set xs \<subseteq> N" and "card N < d"
    and "foldR (visit d adj) xs [] = Inl e"
  shows "e = PolicyError ''positive reasoning topology contains a cycle'' \<and> \<not> acyclic (edge_rel adj)"
proof (rule visits_complete [OF _ visit_grey assms(5)])
  show "marked [] 1 = {}" by (simp add: marked_def dict_getd_def)
  fix i st e' assume "i \<in> set xs" "marked st 1 = {}" "visit d adj i st = Inl e'"
  then show "e' = PolicyError ''positive reasoning topology contains a cycle'' \<and> \<not> acyclic (edge_rel adj)"
    using assms(1-4) by (intro visit_error [of N adj d i st e']) auto
qed

section \<open>Grounding collects the roots\<close>

definition roots_of :: "(string, reasoning_node) dict \<Rightarrow> (string \<Rightarrow> string list) \<Rightarrow> string \<Rightarrow> string set" where
  "roots_of nodes incoming i = (\<Union>z \<in> {z. (i, z) \<in> (edge_rel incoming)\<^sup>*}.
     case dict_get nodes z of None \<Rightarrow> {} | Some n \<Rightarrow> own_roots n)"

lemma roots_of_unfold:
  "roots_of nodes incoming i =
     (case dict_get nodes i of None \<Rightarrow> {} | Some n \<Rightarrow> own_roots n) \<union> (\<Union>s \<in> set (incoming i). roots_of nodes incoming s)"
proof -
  have "{z. (i, z) \<in> (edge_rel incoming)\<^sup>*} = insert i (\<Union>s \<in> set (incoming i). {z. (s, z) \<in> (edge_rel incoming)\<^sup>*})"
    by (auto simp: edge_rel_def elim: converse_rtranclE intro: converse_rtrancl_into_rtrancl)
  then show ?thesis by (simp add: roots_of_def)
qed

definition memo_ok :: "(string, reasoning_node) dict \<Rightarrow> (string \<Rightarrow> string list) \<Rightarrow> (string, string set) dict \<Rightarrow> bool" where
  "memo_ok nodes incoming memo \<longleftrightarrow> (\<forall>i r. dict_get memo i = Some r \<longrightarrow> r = roots_of nodes incoming i)"

lemma grounding_kinds_roots:
  "grounding_kinds d nodes incoming i memo = Inr (r, memo') \<Longrightarrow> memo_ok nodes incoming memo \<Longrightarrow>
     r = roots_of nodes incoming i \<and> memo_ok nodes incoming memo'"
proof (induction d arbitrary: i memo r memo')
  case 0
  then show ?case by simp
next
  case (Suc d)
  let ?f = "\<lambda>s (roots, m). bindR (grounding_kinds d nodes incoming s m) (\<lambda>(r, m'). Inr (roots \<union> r, m'))"
  have fold: "foldR ?f xs (q, m) = Inr (q', m') \<Longrightarrow> memo_ok nodes incoming m \<Longrightarrow>
      q' = q \<union> (\<Union>s \<in> set xs. roots_of nodes incoming s) \<and> memo_ok nodes incoming m'" for xs q m q' m'
  proof (induction xs arbitrary: q m)
    case Nil
    then show ?case by simp
  next
    case (Cons x xs)
    then obtain r1 m1 where 1: "grounding_kinds d nodes incoming x m = Inr (r1, m1)" "foldR ?f xs (q \<union> r1, m1) = Inr (q', m')"
      by (auto simp: bindR_Inr)
    from Suc.IH [OF 1(1) Cons.prems(2)] Cons.IH [OF 1(2)] show ?case by auto
  qed
  show ?case
  proof (cases "dict_get memo i")
    case (Some q)
    with Suc.prems show ?thesis by (simp add: memo_ok_def)
  next
    case None
    with Suc.prems(1) obtain n where n: "dict_get nodes i = Some n" by (auto split: option.splits)
    with None Suc.prems(1) obtain m where
      f: "foldR ?f (incoming i) (own_roots n, memo) = Inr (r, m)" and m: "memo' = dict_set i r m"
      by (auto simp: bindR_Inr)
    have "r = roots_of nodes incoming i" "memo_ok nodes incoming m"
      using fold [OF f Suc.prems(2)] n by (simp_all add: roots_of_unfold [of nodes incoming i])
    then show ?thesis by (simp add: m memo_ok_def)
  qed
qed

lemma grounding_kinds_total:
  assumes "finite N" and "N \<subseteq> dom (dict_get nodes)" and "\<And>x. x \<in> N \<Longrightarrow> set (incoming x) \<subseteq> N"
    and "acyclic (edge_rel incoming)"
    and "i \<in> N" and "G \<subseteq> N" and "\<And>g. g \<in> G \<Longrightarrow> (g, i) \<in> (edge_rel incoming)\<^sup>+" and "card N < card G + d"
  shows "\<exists>r memo'. grounding_kinds d nodes incoming i memo = Inr (r, memo')"
  using assms(5-)
proof (induction d arbitrary: i G memo)
  case 0
  then have "card G \<le> card N" using assms(1) by (intro card_mono) simp_all
  with 0 show ?case by simp
next
  case (Suc d)
  let ?f = "\<lambda>s (roots, m). bindR (grounding_kinds d nodes incoming s m) (\<lambda>(r, m'). Inr (roots \<union> r, m'))"
  have "i \<notin> G" using Suc.prems(3) assms(4) by (auto simp: acyclic_def)
  moreover have "finite G" using Suc.prems(2) assms(1) by (rule finite_subset)
  ultimately have card: "card N < card (insert i G) + d" using Suc.prems(4) by simp
  have step: "\<exists>r m'. grounding_kinds d nodes incoming s m = Inr (r, m')" if "s \<in> set (incoming i)" for s m
  proof (rule Suc.IH [of s "insert i G"])
    have edge: "(i, s) \<in> edge_rel incoming" using that by (simp add: edge_rel_def)
    show "s \<in> N" "insert i G \<subseteq> N" using that assms(3) Suc.prems(1,2) by auto
    show "(g, s) \<in> (edge_rel incoming)\<^sup>+" if "g \<in> insert i G" for g
      using that edge Suc.prems(3) by (auto intro: trancl_into_trancl)
  qed (rule card)
  have fold: "\<exists>q' m'. foldR ?f xs (q, m) = Inr (q', m')" if "set xs \<subseteq> set (incoming i)" for xs q m
    using that
  proof (induction xs arbitrary: q m)
    case (Cons x xs)
    then obtain r1 m1 where "grounding_kinds d nodes incoming x m = Inr (r1, m1)" using step by fastforce
    with Cons show ?case by simp
  qed simp
  obtain n where n: "dict_get nodes i = Some n" using Suc.prems(1) assms(2) by blast
  obtain q m where q: "foldR ?f (incoming i) (own_roots n, memo) = Inr (q, m)" using fold [of "incoming i"] by blast
  show ?case
  proof (cases "dict_get memo i")
    case None
    with n q show ?thesis by simp
  qed simp
qed

section \<open>The stack search decides reachability of an anchor\<close>

lemma contributes_sound:
  "contributes es anchors seen frontier \<Longrightarrow> \<exists>f \<in> set frontier. \<exists>a \<in> set anchors. (f, a) \<in> (edge_rel (neighbours es))\<^sup>*"
proof (induction es anchors seen frontier rule: contributes.induct)
  case (1 es anchors seen)
  then show ?case by simp
next
  case (2 es anchors seen current frontier)
  show ?case
  proof (cases "current \<in> set anchors")
    case True
    then show ?thesis by auto
  next
    case False
    let ?new = "filter (\<lambda>a. a \<notin> set seen) (neighbours es current)"
    have "contributes es anchors (?new @ seen) (rev ?new @ frontier)" using 2(2) False by (simp add: Let_def)
    with 2(1) False obtain f a where f: "f \<in> set (rev ?new @ frontier)" and a: "a \<in> set anchors"
      "(f, a) \<in> (edge_rel (neighbours es))\<^sup>*" by blast
    show ?thesis
    proof (cases "f \<in> set frontier")
      case True
      with a show ?thesis by auto
    next
      case False
      with f have "(current, f) \<in> edge_rel (neighbours es)" by (auto simp: edge_rel_def)
      from this a(2) have "(current, a) \<in> (edge_rel (neighbours es))\<^sup>*" by (rule converse_rtrancl_into_rtrancl)
      with a show ?thesis by auto
    qed
  qed
qed

lemma contributes_complete:
  "\<not> contributes es anchors seen frontier \<Longrightarrow> set frontier \<subseteq> set seen \<Longrightarrow>
   (\<And>x. x \<in> set seen - set frontier \<Longrightarrow> x \<notin> set anchors \<and> set (neighbours es x) \<subseteq> set seen) \<Longrightarrow>
   \<exists>S. set seen \<subseteq> S \<and> S \<inter> set anchors = {} \<and> (\<forall>x \<in> S. set (neighbours es x) \<subseteq> S)"
proof (induction es anchors seen frontier rule: contributes.induct)
  case (1 es anchors seen)
  then show ?case by auto
next
  case (2 es anchors seen current frontier)
  let ?new = "filter (\<lambda>a. a \<notin> set seen) (neighbours es current)"
  have no: "current \<notin> set anchors" "\<not> contributes es anchors (?new @ seen) (rev ?new @ frontier)"
    using 2(2) by (auto simp: Let_def split: if_splits)
  have "\<exists>S. set (?new @ seen) \<subseteq> S \<and> S \<inter> set anchors = {} \<and> (\<forall>x \<in> S. set (neighbours es x) \<subseteq> S)"
  proof (rule 2(1) [OF no(1) refl no(2)])
    show "set (rev ?new @ frontier) \<subseteq> set (?new @ seen)" using 2(3) by auto
    fix x assume x: "x \<in> set (?new @ seen) - set (rev ?new @ frontier)"
    show "x \<notin> set anchors \<and> set (neighbours es x) \<subseteq> set (?new @ seen)"
    proof (cases "x = current")
      case True
      then show ?thesis using no(1) by auto
    next
      case False
      with x have "x \<in> set seen - set (current # frontier)" by auto
      with 2(4) show ?thesis by fastforce
    qed
  qed
  then show ?case by auto
qed

lemma contributes_iff:
  "contributes es anchors [i] [i] \<longleftrightarrow> (\<exists>a \<in> set anchors. (i, a) \<in> (edge_rel (neighbours es))\<^sup>*)"
proof
  assume "contributes es anchors [i] [i]"
  from contributes_sound [OF this] show "\<exists>a \<in> set anchors. (i, a) \<in> (edge_rel (neighbours es))\<^sup>*" by simp
next
  assume "\<exists>a \<in> set anchors. (i, a) \<in> (edge_rel (neighbours es))\<^sup>*"
  then obtain a where a: "a \<in> set anchors" "(i, a) \<in> (edge_rel (neighbours es))\<^sup>*" by blast
  show "contributes es anchors [i] [i]"
  proof (rule ccontr)
    assume "\<not> contributes es anchors [i] [i]"
    then obtain S where S: "set [i] \<subseteq> S" "S \<inter> set anchors = {}" "\<forall>x \<in> S. set (neighbours es x) \<subseteq> S"
      using contributes_complete [of es anchors "[i]" "[i]"] by auto
    then have "a \<in> S" using closed_reaches [OF a(2), of S] by auto
    with S(2) a(1) show False by auto
  qed
qed

section \<open>What validation means\<close>

text \<open>The graph as relations, without the walks.\<close>

definition positive_edges :: "reasoning_topology \<Rightarrow> (string \<times> string) set" where
  "positive_edges t = {(x, y). \<exists>e \<in> set (rt_edges t). re_source_id e = x \<and> re_target_id e = y \<and> re_relation e \<in> set POSITIVE_RELATIONS}"

definition linked :: "reasoning_topology \<Rightarrow> (string \<times> string) set" where
  "linked t = {(x, y). \<exists>e \<in> set (rt_edges t). re_source_id e = x \<and> re_target_id e = y \<or> re_source_id e = y \<and> re_target_id e = x}"

definition edges_known :: "reasoning_topology \<Rightarrow> bool" where
  "edges_known t \<longleftrightarrow> (\<forall>e \<in> set (rt_edges t). re_source_id e \<in> rn_node_id ` set (rt_nodes t) \<and> re_target_id e \<in> rn_node_id ` set (rt_nodes t))"

lemma edge_rel_adjacency: "edge_rel (positive_adjacency (rt_edges t)) = positive_edges t"
  by (auto simp: edge_rel_def positive_adjacency_def positive_edges_def)

lemma edge_rel_incoming: "edge_rel (positive_incoming (rt_edges t)) = (positive_edges t)\<inverse>"
  by (auto simp: edge_rel_def positive_incoming_def positive_edges_def)

lemma edge_rel_neighbours: "edge_rel (neighbours (rt_edges t)) = linked t"
  by (auto simp: edge_rel_def neighbours_def linked_def split: if_splits)

lemma adjacency_known:
  "edges_known t \<Longrightarrow> set (positive_adjacency (rt_edges t) x) \<subseteq> rn_node_id ` set (rt_nodes t)"
  "edges_known t \<Longrightarrow> set (positive_incoming (rt_edges t) x) \<subseteq> rn_node_id ` set (rt_nodes t)"
  by (auto simp: edges_known_def positive_adjacency_def positive_incoming_def)

lemma adjacency_source: "edges_known t \<Longrightarrow> positive_adjacency (rt_edges t) x \<noteq> [] \<Longrightarrow> x \<in> rn_node_id ` set (rt_nodes t)"
  by (auto simp: edges_known_def positive_adjacency_def filter_empty_conv)

lemma node_dict_get: "distinct (map rn_node_id (rt_nodes t)) \<Longrightarrow> dict_get (node_dict t) i = Some n \<longleftrightarrow> n \<in> set (rt_nodes t) \<and> rn_node_id n = i"
  by (auto simp: node_dict_def comp_def intro!: map_of_is_SomeI dest!: map_of_SomeD)

lemma node_dict_dom: "rn_node_id ` set (rt_nodes t) \<subseteq> dom (dict_get (node_dict t))"
  by (simp add: node_dict_def dom_map_of_conv_image_fst image_image)

lemma eachR_Inl: "eachR f xs = Inl e \<Longrightarrow> \<exists>x \<in> set xs. f x = Inl e"
  by (induction xs) (auto simp: bindR_Inl)

lemma validate_cases:
  assumes "validate_reasoning_topology H depth b declared t = Inr ()"
  shows "distinct (map rn_node_id (rt_nodes t)) \<and> distinct (map re_edge_id (rt_edges t)) \<and>
    int (length (rt_nodes t)) \<le> bu_max_topology_nodes b \<and> int (length (rt_edges t)) \<le> bu_max_topology_edges b \<and>
    (\<forall>e \<in> set (rt_edges t). check_edge H t e = Inr ()) \<and>
    (\<forall>n \<in> set (rt_nodes t). check_node (filter (\<lambda>v. v \<noteq> []) declared) t n = Inr ()) \<and>
    (\<exists>st. foldR (visit depth (positive_adjacency (rt_edges t))) (sorted_set (map rn_node_id (rt_nodes t))) [] = Inr st) \<and>
    (\<exists>memo. foldR (check_grounding depth t) (rt_nodes t) [] = Inr memo) \<and> check_connected t = Inr ()"
  using assms unfolding validate_reasoning_topology_def Let_def guard_Inr bindR_Inr eachR_Inr
  by (auto simp: not_less)

lemma check_edge_known:
  "check_edge H t e = Inr () \<Longrightarrow>
     re_source_id e \<in> rn_node_id ` set (rt_nodes t) \<and> re_target_id e \<in> rn_node_id ` set (rt_nodes t)"
  by (rule ccontr) (simp add: check_edge_def)

lemma checked_edges_known: "(\<And>e. e \<in> set (rt_edges t) \<Longrightarrow> check_edge H t e = Inr ()) \<Longrightarrow> edges_known t"
  unfolding edges_known_def using check_edge_known by metis

definition grounded :: "reasoning_topology \<Rightarrow> reasoning_node \<Rightarrow> bool" where
  "grounded t n \<longleftrightarrow> (\<exists>z \<in> set (rt_nodes t). (rn_node_id z, rn_node_id n) \<in> (positive_edges t)\<^sup>* \<and> own_roots z \<noteq> {} \<and>
     (rn_hypothetical n \<or> own_roots z \<noteq> {''assumption''} \<or>
      (\<exists>y \<in> set (rt_nodes t). (rn_node_id y, rn_node_id n) \<in> (positive_edges t)\<^sup>* \<and> \<not> own_roots y \<subseteq> {''assumption''})))"

lemma roots_in_topology:
  assumes "distinct (map rn_node_id (rt_nodes t))"
  shows "r \<in> roots_of (node_dict t) (positive_incoming (rt_edges t)) i \<longleftrightarrow>
    (\<exists>z \<in> set (rt_nodes t). (rn_node_id z, i) \<in> (positive_edges t)\<^sup>* \<and> r \<in> own_roots z)"
proof -
  have "(i, z) \<in> (edge_rel (positive_incoming (rt_edges t)))\<^sup>* \<longleftrightarrow> (z, i) \<in> (positive_edges t)\<^sup>*" for z
    by (simp add: edge_rel_incoming rtrancl_converse)
  then have "r \<in> roots_of (node_dict t) (positive_incoming (rt_edges t)) i \<longleftrightarrow>
      (\<exists>z. (z, i) \<in> (positive_edges t)\<^sup>* \<and> r \<in> (case dict_get (node_dict t) z of None \<Rightarrow> {} | Some n \<Rightarrow> own_roots n))"
    by (simp add: roots_of_def)
  also have "\<dots> \<longleftrightarrow> (\<exists>z n. (z, i) \<in> (positive_edges t)\<^sup>* \<and> dict_get (node_dict t) z = Some n \<and> r \<in> own_roots n)"
    by (simp split: option.split) (metis not_None_eq option.inject)
  also have "\<dots> \<longleftrightarrow> (\<exists>z \<in> set (rt_nodes t). (rn_node_id z, i) \<in> (positive_edges t)\<^sup>* \<and> r \<in> own_roots z)"
    unfolding node_dict_get [OF assms] by blast
  finally show ?thesis .
qed

lemma check_grounding_grounded:
  assumes "distinct (map rn_node_id (rt_nodes t))" and "rn_material n"
    and "memo_ok (node_dict t) (positive_incoming (rt_edges t)) memo" and "check_grounding depth t n memo = Inr memo'"
  shows "grounded t n"
proof -
  let ?R = "roots_of (node_dict t) (positive_incoming (rt_edges t)) (rn_node_id n)"
  from assms(2,4) obtain r m where
    r: "grounding_kinds depth (node_dict t) (positive_incoming (rt_edges t)) (rn_node_id n) memo = Inr (r, m)"
    and c: "r \<noteq> {}" "r \<noteq> {''assumption''} \<or> rn_hypothetical n"
    by (auto simp: check_grounding_def bindR_Inr split: if_splits)
  have R: "r = ?R" using grounding_kinds_roots [OF r assms(3)] ..
  note mem = roots_in_topology [OF assms(1), of _ "rn_node_id n"]
  from c(1) obtain z where z: "z \<in> set (rt_nodes t)" "(rn_node_id z, rn_node_id n) \<in> (positive_edges t)\<^sup>*" "own_roots z \<noteq> {}"
    unfolding R using mem by blast
  from c(2) show ?thesis
  proof
    assume "rn_hypothetical n"
    with z show ?thesis by (auto simp: grounded_def)
  next
    assume "r \<noteq> {''assumption''}"
    then obtain q where "q \<in> ?R" "q \<noteq> ''assumption''" using c(1) unfolding R by blast
    then obtain y where "y \<in> set (rt_nodes t)" "(rn_node_id y, rn_node_id n) \<in> (positive_edges t)\<^sup>*" "\<not> own_roots y \<subseteq> {''assumption''}"
      using mem by blast
    with z show ?thesis unfolding grounded_def by blast
  qed
qed

lemma check_grounding_memo:
  "check_grounding depth t n memo = Inr memo' \<Longrightarrow> memo_ok (node_dict t) (positive_incoming (rt_edges t)) memo \<Longrightarrow>
     memo_ok (node_dict t) (positive_incoming (rt_edges t)) memo'"
  using grounding_kinds_roots by (fastforce simp: check_grounding_def bindR_Inr split: if_splits)

lemma groundings_grounded:
  assumes "foldR (check_grounding depth t) ns memo = Inr memo'" and "distinct (map rn_node_id (rt_nodes t))"
    and "memo_ok (node_dict t) (positive_incoming (rt_edges t)) memo" and "n \<in> set ns" and "rn_material n"
  shows "grounded t n"
  using assms
proof (induction ns arbitrary: memo)
  case (Cons x xs)
  then obtain m where m: "check_grounding depth t x memo = Inr m" "foldR (check_grounding depth t) xs m = Inr memo'"
    by (auto simp: bindR_Inr)
  show ?case
  proof (cases "n = x")
    case True
    with m check_grounding_grounded [OF Cons.prems(2) _ Cons.prems(3)] Cons.prems(5) show ?thesis by blast
  next
    case False
    with Cons.prems m check_grounding_memo [OF m(1) Cons.prems(3)] show ?thesis by (intro Cons.IH [OF m(2)]) simp_all
  qed
qed simp

section \<open>The stack is deep enough\<close>

text \<open>Everything but the two walks fails, if at all, with a policy or a value error.\<close>

definition ordinary :: "exn \<Rightarrow> bool" where
  "ordinary e \<longleftrightarrow> (case e of RecursionError m \<Rightarrow> False | _ \<Rightarrow> True)"

lemma ordinary_simps [simp]: "ordinary (PolicyError m)" "ordinary (ValueError m)" "\<not> ordinary (RecursionError m)"
  by (simp_all add: ordinary_def)

lemma inference_mode_ordinary: "canonical_inference_mode v u = Inl e \<Longrightarrow> ordinary e"
  by (auto simp: canonical_inference_mode_def Let_def split: if_splits)

lemma identity_ordinary: "inference_identity H a b r i = Inl e \<Longrightarrow> ordinary e"
  by (auto simp: inference_identity_def bindR_Inl dest: inference_mode_ordinary)

lemma edge_ordinary: "make_reasoning_edge H a b r i = Inl e \<Longrightarrow> ordinary e"
  by (auto simp: make_reasoning_edge_def edge_post_init_def bindR_Inl Let_def split: if_splits
      dest: inference_mode_ordinary identity_ordinary)

lemma check_edge_ordinary: "check_edge H t e = Inl x \<Longrightarrow> ordinary x"
  by (auto simp: check_edge_def bindR_Inl Let_def split: if_splits dest: identity_ordinary edge_ordinary)

lemma check_node_ordinary: "check_node d t n = Inl x \<Longrightarrow> ordinary x"
  unfolding check_node_def by (simp split: if_split_asm) (auto split: if_split_asm)

lemma check_connected_ordinary: "check_connected t = Inl x \<Longrightarrow> ordinary x"
  by (auto simp: check_connected_def Let_def dest!: eachR_Inl split: if_splits)

lemma search_ordinary:
  assumes "edges_known t" and "length (rt_nodes t) < depth"
    and "foldR (visit depth (positive_adjacency (rt_edges t))) (sorted_set (map rn_node_id (rt_nodes t))) [] = Inl e"
  shows "e = PolicyError ''positive reasoning topology contains a cycle'' \<and> \<not> acyclic (positive_edges t)"
proof -
  let ?N = "rn_node_id ` set (rt_nodes t)"
  have "card ?N < depth" using assms(2) card_length [of "map rn_node_id (rt_nodes t)"] by simp
  then show ?thesis
    using search_error [of ?N "positive_adjacency (rt_edges t)", OF _ _ _ _ assms(3)] adjacency_known(1) [OF assms(1)]
    by (simp add: edge_rel_adjacency)
qed

lemma cycle_check:
  assumes "edges_known t" and "length (rt_nodes t) < depth"
  shows "(\<exists>st. foldR (visit depth (positive_adjacency (rt_edges t))) (sorted_set (map rn_node_id (rt_nodes t))) [] = Inr st) \<longleftrightarrow>
    acyclic (positive_edges t)"
proof
  assume "\<exists>st. foldR (visit depth (positive_adjacency (rt_edges t))) (sorted_set (map rn_node_id (rt_nodes t))) [] = Inr st"
  then obtain st where st: "foldR (visit depth (positive_adjacency (rt_edges t))) (sorted_set (map rn_node_id (rt_nodes t))) [] = Inr st" ..
  have "acyclic (edge_rel (positive_adjacency (rt_edges t)))"
    using adjacency_source [OF assms(1)] by (intro search_acyclic [OF st]) auto
  then show "acyclic (positive_edges t)" by (simp only: edge_rel_adjacency)
next
  assume "acyclic (positive_edges t)"
  then show "\<exists>st. foldR (visit depth (positive_adjacency (rt_edges t))) (sorted_set (map rn_node_id (rt_nodes t))) [] = Inr st"
    using search_ordinary [OF assms] by (metis sum.exhaust)
qed

lemma check_grounding_ordinary:
  assumes "edges_known t" and "acyclic (positive_edges t)" and "length (rt_nodes t) < depth"
    and "n \<in> set (rt_nodes t)" and "check_grounding depth t n memo = Inl e"
  shows "ordinary e"
proof -
  let ?N = "rn_node_id ` set (rt_nodes t)"
  have "card ?N < depth" using assms(3) card_length [of "map rn_node_id (rt_nodes t)"] by simp
  then have "\<exists>r m. grounding_kinds depth (node_dict t) (positive_incoming (rt_edges t)) (rn_node_id n) memo = Inr (r, m)"
    using assms(4) node_dict_dom adjacency_known(2) [OF assms(1)] assms(2)
    by (intro grounding_kinds_total [of ?N _ _ _ "{}"]) (simp_all add: edge_rel_incoming acyclic_converse)
  with assms(5) show ?thesis by (auto simp: check_grounding_def split: if_splits)
qed

lemma groundings_ordinary:
  assumes "edges_known t" and "acyclic (positive_edges t)" and "length (rt_nodes t) < depth"
    and "set ns \<subseteq> set (rt_nodes t)" and "foldR (check_grounding depth t) ns memo = Inl e"
  shows "ordinary e"
  using assms(4,5)
proof (induction ns arbitrary: memo)
  case (Cons n ns)
  show ?case
  proof (cases "check_grounding depth t n memo")
    case (Inl e')
    with Cons.prems check_grounding_ordinary [OF assms(1-3) _ Inl] show ?thesis by simp
  next
    case (Inr m)
    with Cons show ?thesis by simp
  qed
qed simp

section \<open>Built topologies are content addressed\<close>

definition self_addressed :: "digest \<Rightarrow> reasoning_edge \<Rightarrow> bool" where
  "self_addressed H e \<longleftrightarrow>
     make_reasoning_edge H (re_source_id e) (re_target_id e) (re_relation e) (re_inference_mode e) = Inr e"

definition graph_ok :: "digest \<Rightarrow> graph \<Rightarrow> bool" where
  "graph_ok H g \<longleftrightarrow> distinct (map fst (gr_nodes g)) \<and> (\<forall>(k, n) \<in> set (gr_nodes g). k = rn_node_id n) \<and>
     distinct (map fst (gr_edges g)) \<and> (\<forall>(k, e) \<in> set (gr_edges g). k = re_edge_id e \<and> self_addressed H e)"

lemma dict_set_elem: "kv \<in> set (dict_set k v d) \<Longrightarrow> kv = (k, v) \<or> kv \<in> set d"
  by (induction d) (auto split: if_splits)

lemma inference_mode_idem: "canonical_inference_mode v False = Inr m \<Longrightarrow> canonical_inference_mode m u = Inr m"
proof -
  assume "canonical_inference_mode v False = Inr m"
  then have "m \<in> set INFERENCE_MODES" "m \<noteq> ''unspecified''"
    by (auto simp: canonical_inference_mode_def Let_def split: if_splits)
  moreover have "list_all (\<lambda>m. m = ''unspecified'' \<or>
      canonical_inference_mode m True = Inr m \<and> canonical_inference_mode m False = Inr m) INFERENCE_MODES" by code_simp
  ultimately show ?thesis by (cases u) (auto simp: list_all_iff)
qed

lemma distinct_map_sort: "distinct (map f (sort_key k xs)) \<longleftrightarrow> distinct (map f xs)"
  by (metis mset_eq_imp_distinct_iff mset_map mset_sort)

lemma make_edge_addressed:
  assumes "make_reasoning_edge H a b r i = Inr e"
  shows "self_addressed H e"
proof -
  from assms obtain m where m: "canonical_inference_mode i False = Inr m"
    by (auto simp: make_reasoning_edge_def bindR_Inr)
  note idem = inference_mode_idem [OF m]
  have f: "re_source_id e = a \<and> re_target_id e = b \<and> re_relation e = r \<and> re_inference_mode e = m"
    using assms m idem by (auto simp: make_reasoning_edge_def edge_post_init_def inference_identity_def Let_def split: if_splits)
  have "make_reasoning_edge H a b r m = make_reasoning_edge H a b r i"
    by (simp add: make_reasoning_edge_def m idem)
  with assms f show ?thesis by (simp add: self_addressed_def)
qed

lemma add_node_ok: "graph_ok H g \<Longrightarrow> yields (add_node H n g) (graph_ok H)"
  unfolding add_node_def
  by (intro yields_intro) (auto simp: graph_ok_def distinct_update dest: dict_set_elem)

lemma add_edge_ok: "graph_ok H g \<Longrightarrow> yields (add_edge H a b r i g) (graph_ok H)"
  unfolding add_edge_def
  by (intro yields_intro) (auto simp: graph_ok_def distinct_update dest: dict_set_elem make_edge_addressed)

lemma yields_then: "yields m P \<Longrightarrow> (\<And>x. P x \<Longrightarrow> yields (f x) Q) \<Longrightarrow> yields (bindR m f) Q"
  by (cases m) (simp_all add: yields_def)

lemma yields_pair_fun:
  "(\<And>a b. x = (a, b) \<Longrightarrow> yields (f a b s) Q) \<Longrightarrow> yields ((case x of (a, b) \<Rightarrow> f a b) s) Q"
  by (cases x) simp

lemma add_hypothesis_ok: "graph_ok H g \<Longrightarrow> yields (add_hypothesis H q h g) (graph_ok H)"
  unfolding add_hypothesis_def add_evidence_node_def Let_def
  by (intro yields_then [where P = "graph_ok H"] yields_foldR add_node_ok add_edge_ok)

definition pair_ok :: "digest \<Rightarrow> graph \<times> step_index \<Rightarrow> bool" where
  "pair_ok H gi \<longleftrightarrow> graph_ok H (fst gi)"

lemma yields_premise:
  "graph_ok H g \<Longrightarrow> yields (case sr of (source, relation) \<Rightarrow>
     if source = [] then Inr g else add_edge H source n relation i g) (graph_ok H)"
  by (cases sr) (auto intro: yields_Inr add_edge_ok)

lemma add_step_ok: "pair_ok H gi \<Longrightarrow> yields (add_step H q hs path s gi) (pair_ok H)"
  unfolding add_step_def add_evidence_node_def Let_def pair_ok_def
  by (intro yields_then [where P = "graph_ok H"] yields_foldR add_node_ok add_edge_ok yields_premise yields_Inr) simp_all

lemma add_path_ok: "pair_ok H gi \<Longrightarrow> yields (add_path H q hs c p gi) (pair_ok H)"
  unfolding add_path_def Let_def
proof (intro yields_if yields_Inr yields_then [where P = "pair_ok H"])
  assume "pair_ok H gi"
  then show "yields (foldR (add_step H q hs (pa_path_id p)) (pa_steps p) gi) (pair_ok H)"
    by (intro yields_foldR add_step_ok)
  fix x assume "pair_ok H x"
  then show "yields (case x of (g1, index) \<Rightarrow>
      bindR (add_node H ((plain_node (conclusion_node_id (pa_path_id p)) ''conclusion'' (pa_conclusion p))
        \<lparr>rn_confidence_bp := pa_provider_confidence_bp p, rn_path_id := pa_path_id p,
         rn_material := (case last_by vr_path_id (cs_verifier_reports c) (pa_path_id p) of None \<Rightarrow> False
           | Some r \<Rightarrow> vr_verdict r \<noteq> ''REJECT'') \<or> pa_path_id p = cs_selected_path_id c\<rparr>) g1) (\<lambda>g2.
      bindR (step_of index (pa_path_id p) (st_step_id (last (pa_steps p)))) (\<lambda>final.
      bindR (add_edge H final (conclusion_node_id (pa_path_id p)) ''entails'' (st_inference (last (pa_steps p))) g2) (\<lambda>g3.
      Inr (g3, index))))) (pair_ok H)"
    unfolding pair_ok_def
    by (intro yields_pair yields_then [where P = "graph_ok H"] yields_bind [where m = "step_of index a b" for index a b]
        add_node_ok add_edge_ok yields_Inr) simp_all
qed

lemma add_verifier_report_ok: "graph_ok H g \<Longrightarrow> yields (add_verifier_report H c index r g) (graph_ok H)"
  unfolding add_verifier_report_def
  by (intro yields_if yields_Inr yields_bind [where m = "find_path a b" for a b] yields_bind [where m = "step_of a b d" for a b d]
      yields_foldR yields_pair_fun yields_then [where P = "graph_ok H"] add_node_ok add_edge_ok)

lemma add_falsifier_report_ok: "graph_ok H g \<Longrightarrow> yields (add_falsifier_report H c index r g) (graph_ok H)"
  unfolding add_falsifier_report_def
  by (intro yields_if yields_Inr yields_bind [where m = "find_path a b" for a b] yields_bind [where m = "falsified_targets a b d" for a b d]
      yields_foldR yields_pair_fun yields_then [where P = "graph_ok H"] add_node_ok add_edge_ok)

lemma add_decision_ok: "graph_ok H g \<Longrightarrow> yields (add_decision H problem c g) (graph_ok H)"
  unfolding add_decision_def Let_def
  by (intro yields_if yields_Inr yields_bind [where m = "find_path a b" for a b] yields_then [where P = "graph_ok H"]
      add_node_ok add_edge_ok)

lemma make_node_id: "make_reasoning_node H n = Inr m \<Longrightarrow> rn_node_id m = rn_node_id n"
  by (auto simp: make_reasoning_node_def node_post_init_def bindR_Inr split: if_splits)

lemma mark_hypothetical_ok:
  assumes "graph_ok H g"
  shows "yields (mark_hypothetical H depth g) (graph_ok H)"
proof -
  have ids: "rn_node_id n = i" if "(i, n) \<in> set (gr_nodes g)" for i n using assms that by (auto simp: graph_ok_def)
  define P where "P = (\<lambda>(nodes, memo :: (string, string set) dict). graph_ok H (g\<lparr>gr_nodes := nodes\<rparr>))"
  have start: "P (gr_nodes g, [])" using assms by (simp add: P_def)
  have step: "graph_ok H (g\<lparr>gr_nodes := dict_set i m nodes\<rparr>)"
    if "graph_ok H (g\<lparr>gr_nodes := nodes\<rparr>)" "rn_node_id m = i" for nodes m i
    using that by (auto simp: graph_ok_def distinct_update dest: dict_set_elem)
  show ?thesis
    unfolding mark_hypothetical_def Let_def
  proof (intro yields_if yields_Inl yields_then [where P = P] yields_foldR)
    show "P (gr_nodes g, [])" by (rule start)
    show "yields (case x of (nodes, memo) \<Rightarrow> Inr (g\<lparr>gr_nodes := nodes\<rparr>)) (graph_ok H)" if "P x" for x
      using that by (cases x) (simp add: P_def yields_Inr)
    fix x s assume x: "x \<in> set (gr_nodes g)" and s: "P s"
    obtain i n nodes memo where xs: "x = (i, n)" "s = (nodes, memo)" by (cases x; cases s) simp
    show "yields ((case x of (i, n) \<Rightarrow> \<lambda>(nodes, memo). if \<not> rn_material n then Inr (nodes, memo)
        else bindR (grounding_kinds depth nodes (positive_incoming (map snd (gr_edges g))) i memo) (\<lambda>(roots, memo').
          if roots = {''assumption''} \<and> \<not> rn_hypothetical n
            then bindR (make_reasoning_node H (n\<lparr>rn_hypothetical := True\<rparr>)) (\<lambda>m. Inr (dict_set i m nodes, memo'))
          else Inr (nodes, memo'))) s) P"
      using x s unfolding xs prod.case
      by (intro yields_intro) (auto simp: P_def ids dest!: make_node_id intro!: step)
  qed
qed

lemma build_topology_ok:
  "yields (build_reasoning_topology H depth problem hypotheses c) (\<lambda>t. \<exists>g. graph_ok H g \<and> rt_schema_version t = 2 \<and>
     rt_nodes t = sort_key rn_node_id (map snd (gr_nodes g)) \<and> rt_edges t = sort_key re_edge_id (map snd (gr_edges g)))"
proof -
  have start: "graph_ok H \<lparr> gr_nodes = [], gr_edges = [] \<rparr>" by (simp add: graph_ok_def)
  have pair: "pair_ok H (g, [])" if "graph_ok H g" for g using that by (simp add: pair_ok_def)
  show ?thesis
    unfolding build_reasoning_topology_def Let_def
    apply (rule yields_then [where P = "graph_ok H"], rule add_node_ok [OF start])
    apply (rule yields_then [where P = "graph_ok H"], erule add_node_ok)
    apply (rule yields_then [where P = "graph_ok H"], erule add_edge_ok)
    apply (rule yields_then [where P = "graph_ok H"], erule yields_foldR, erule add_hypothesis_ok)
    apply (rule yields_then [where P = "pair_ok H"], rule yields_foldR, erule pair, erule add_path_ok)
    apply (rule yields_pair)
    apply (rule yields_then [where P = "graph_ok H"], rule yields_foldR, simp add: pair_ok_def, erule add_verifier_report_ok)
    apply (rule yields_then [where P = "graph_ok H"], erule yields_foldR, erule add_falsifier_report_ok)
    apply (rule yields_then [where P = "graph_ok H"], erule add_decision_ok)
    apply (rule yields_then [where P = "graph_ok H"], erule mark_hypothetical_ok)
    apply (rule yields_Inr)
    apply (auto simp: topology_post_init_def)
    done
qed

lemma self_addressed_identity:
  assumes "self_addressed H e"
  shows "inference_identity H (re_source_id e) (re_target_id e) (re_relation e) (re_inference_mode e) = Inr (re_inference_id e)"
proof -
  have *: "\<exists>m. canonical_inference_mode i False = Inr m \<and> inference_identity H a b r m = Inr (re_inference_id x)"
    if "make_reasoning_edge H a b r i = Inr x" for a b r i x
    using that by (auto simp: make_reasoning_edge_def edge_post_init_def bindR_Inr Let_def split: if_splits)
  from * [OF assms [unfolded self_addressed_def]] obtain m where m: "canonical_inference_mode (re_inference_mode e) False = Inr m"
    and i: "inference_identity H (re_source_id e) (re_target_id e) (re_relation e) m = Inr (re_inference_id e)" by blast
  have "inference_identity H a b r m = inference_identity H a b r (re_inference_mode e)" for a b r
    using inference_mode_idem [OF m, of False] m by (simp add: inference_identity_def)
  with i show ?thesis by simp
qed

section \<open>Properties\<close>

text \<open>C13. What a validated topology is: identities are unique, every edge joins known nodes, the
  positive relations have no cycle, every node refers to declared evidence only and is linked to
  a hypothesis, conclusion, counterexample or decision, and every material conclusion traces
  back through positive edges to a ground, one that is more than an assumption unless it is
  marked hypothetical.\<close>

theorem validated_topology_sound:
  assumes "validate_reasoning_topology H depth b declared t = Inr ()"
  shows "distinct (map rn_node_id (rt_nodes t)) \<and> edges_known t \<and> acyclic (positive_edges t) \<and>
    (\<forall>n \<in> set (rt_nodes t). set (rn_evidence_ids n) \<subseteq> set declared \<and> (rn_material n \<longrightarrow> grounded t n) \<and>
       (\<exists>a \<in> set (rt_nodes t). rn_kind a \<in> set CONTRIBUTION_KINDS \<and> (rn_node_id n, rn_node_id a) \<in> (linked t)\<^sup>*))"
proof -
  note v = validate_cases [OF assms]
  then have known: "edges_known t" by (intro checked_edges_known) blast
  obtain st where st: "foldR (visit depth (positive_adjacency (rt_edges t))) (sorted_set (map rn_node_id (rt_nodes t))) [] = Inr st"
    using v by blast
  have "acyclic (edge_rel (positive_adjacency (rt_edges t)))"
    using adjacency_source [OF known] by (intro search_acyclic [OF st]) auto
  then have "acyclic (positive_edges t)" by (simp only: edge_rel_adjacency)
  moreover have "grounded t n" if "n \<in> set (rt_nodes t)" "rn_material n" for n
  proof -
    obtain memo where "foldR (check_grounding depth t) (rt_nodes t) [] = Inr memo" using v by blast
    moreover have "memo_ok (node_dict t) (positive_incoming (rt_edges t)) []" by (simp add: memo_ok_def)
    ultimately show ?thesis using that v by (intro groundings_grounded) simp_all
  qed
  moreover have "set (rn_evidence_ids n) \<subseteq> set declared" if "n \<in> set (rt_nodes t)" for n
  proof -
    have "check_node (filter (\<lambda>v. v \<noteq> []) declared) t n = Inr ()" using v that by blast
    then have "set (rn_evidence_ids n) \<subseteq> set (filter (\<lambda>v. v \<noteq> []) declared)" by (rule_tac ccontr) (simp add: check_node_def)
    then show ?thesis by auto
  qed
  moreover have "\<exists>a \<in> set (rt_nodes t). rn_kind a \<in> set CONTRIBUTION_KINDS \<and> (rn_node_id n, rn_node_id a) \<in> (linked t)\<^sup>*"
    if "n \<in> set (rt_nodes t)" for n
  proof -
    let ?anchors = "map rn_node_id (filter (\<lambda>n. rn_kind n \<in> set CONTRIBUTION_KINDS) (rt_nodes t))"
    have "check_connected t = Inr ()" using v by blast
    then have "rn_node_id n \<in> set ?anchors \<or> contributes (rt_edges t) ?anchors [rn_node_id n] [rn_node_id n]"
      using that unfolding check_connected_def Let_def eachR_Inr by (force split: if_splits)
    then have "\<exists>a \<in> set ?anchors. (rn_node_id n, a) \<in> (linked t)\<^sup>*"
      unfolding contributes_iff edge_rel_neighbours by blast
    then show ?thesis by auto
  qed
  ultimately show ?thesis using v known by blast
qed

definition sample_budget :: reasoning_budget where
  "sample_budget = \<lparr> bu_schema_version = 1, bu_max_hypotheses = 16, bu_minimum_candidates = 1, bu_maximum_candidates = 16,
     bu_candidate_count = 4, bu_max_steps_per_path = 8, bu_max_branch_factor = 16, bu_max_topology_nodes = 256,
     bu_max_topology_edges = 512, bu_max_provider_calls = 16, bu_max_generation_attempts = 8, bu_verifier_count = 4,
     bu_falsifier_count = 2, bu_max_verifier_passes = 2, bu_max_falsifier_passes = 2, bu_max_tokens = 12000,
     bu_max_tool_calls = 20, bu_max_context_items = 128, bu_operation_costs_bp = [], bu_max_compute_bp = 10000,
     bu_minimum_voi_bp = 100, bu_signature = [] \<rparr>"

definition sample_edge :: "string \<Rightarrow> string \<Rightarrow> string \<Rightarrow> reasoning_edge" where
  "sample_edge a b r = \<lparr> re_edge_id = a @ b, re_source_id = a, re_target_id = b, re_relation = r,
     re_inference_id = [], re_inference_mode = ''unspecified'', re_signature = [] \<rparr>"

definition sample_topology :: reasoning_topology where
  "sample_topology = \<lparr> rt_schema_version = 1, rt_problem_id = ''p'',
     rt_nodes = [(plain_node ''c'' ''conclusion'' ''so'')\<lparr>rn_material := True\<rparr>,
       (plain_node ''evidence:e'' ''evidence'' ''log'')\<lparr>rn_evidence_ids := [''e'']\<rparr>, plain_node ''s'' ''claim'' ''thus''],
     rt_edges = [sample_edge ''evidence:e'' ''s'' ''supports'', sample_edge ''s'' ''c'' ''entails''], rt_signature = [] \<rparr>"

lemma sample_topology_valid: "validate_reasoning_topology (\<lambda>s. s) 4 sample_budget [''e''] sample_topology = Inr ()"
  by code_simp

theorem validated_topology_sound_witness:
  "acyclic (positive_edges sample_topology) \<and> grounded sample_topology ((plain_node ''c'' ''conclusion'' ''so'')\<lparr>rn_material := True\<rparr>)"
  using validated_topology_sound [OF sample_topology_valid] by (simp add: sample_topology_def)

text \<open>C14. The cycle check is exact: with a stack deeper than the number of nodes, the depth-first
  search over the positive relations succeeds exactly on the graphs without a cycle.\<close>

theorem cycle_check_exact:
  assumes "edges_known t" and "length (rt_nodes t) < depth"
  shows "(\<exists>st. foldR (visit depth (positive_adjacency (rt_edges t))) (sorted_set (map rn_node_id (rt_nodes t))) [] = Inr st) \<longleftrightarrow>
    acyclic (positive_edges t)"
  using assms by (rule cycle_check)

theorem cycle_check_exact_witness:
  "(\<exists>st. foldR (visit 4 (positive_adjacency (rt_edges sample_topology))) (sorted_set (map rn_node_id (rt_nodes sample_topology))) [] = Inr st)
     \<longleftrightarrow> acyclic (positive_edges sample_topology)"
  by (rule cycle_check_exact) (simp_all add: sample_topology_def edges_known_def sample_edge_def plain_node_def)

text \<open>C15. Termination within the stack: validation, with its two recursive walks, never overflows a
  stack deeper than the number of nodes, whatever the graph, cyclic or not.\<close>

theorem validation_stack_suffices:
  assumes "length (rt_nodes t) < depth"
  shows "validate_reasoning_topology H depth b declared t \<noteq> Inl (RecursionError m)"
proof
  assume v: "validate_reasoning_topology H depth b declared t = Inl (RecursionError m)"
  let ?ids = "map rn_node_id (rt_nodes t)"
  consider (edge) "eachR (check_edge H t) (rt_edges t) = Inl (RecursionError m)"
    | (rest) "eachR (check_edge H t) (rt_edges t) = Inr ()"
      "eachR (check_node (filter (\<lambda>v. v \<noteq> []) declared) t) (rt_nodes t) = Inl (RecursionError m) \<or>
       foldR (visit depth (positive_adjacency (rt_edges t))) (sorted_set ?ids) [] = Inl (RecursionError m) \<or>
       (\<exists>st. foldR (visit depth (positive_adjacency (rt_edges t))) (sorted_set ?ids) [] = Inr st) \<and>
         (foldR (check_grounding depth t) (rt_nodes t) [] = Inl (RecursionError m) \<or> check_connected t = Inl (RecursionError m))"
    using v unfolding validate_reasoning_topology_def Let_def
    by (auto simp: bindR_Inl split: if_split_asm)
  then show False
  proof cases
    case edge
    with eachR_Inl [OF edge] show ?thesis by (auto dest: check_edge_ordinary)
  next
    case rest
    then have known: "edges_known t" by (intro checked_edges_known [of t H]) (simp add: eachR_Inr)
    show ?thesis
      using rest(2)
    proof (elim disjE conjE)
      assume "eachR (check_node (filter (\<lambda>v. v \<noteq> []) declared) t) (rt_nodes t) = Inl (RecursionError m)"
      from eachR_Inl [OF this] show False by (auto dest: check_node_ordinary)
    next
      assume "foldR (visit depth (positive_adjacency (rt_edges t))) (sorted_set ?ids) [] = Inl (RecursionError m)"
      from search_ordinary [OF known assms this] show False by simp
    next
      assume "\<exists>st. foldR (visit depth (positive_adjacency (rt_edges t))) (sorted_set ?ids) [] = Inr st"
        "foldR (check_grounding depth t) (rt_nodes t) [] = Inl (RecursionError m)"
      with groundings_ordinary [OF known _ assms subset_refl this(2)] cycle_check [OF known assms] show False by auto
    next
      assume "check_connected t = Inl (RecursionError m)"
      then show False by (auto dest: check_connected_ordinary)
    qed
  qed
qed

theorem validation_stack_suffices_witness:
  "validate_reasoning_topology (\<lambda>s. s) 3 sample_budget []
     (sample_topology\<lparr>rt_nodes := [plain_node ''a'' ''claim'' ''x'', plain_node ''b'' ''claim'' ''y''],
        rt_edges := [sample_edge ''a'' ''b'' ''entails'', sample_edge ''b'' ''a'' ''entails'']\<rparr>) \<noteq> Inl (RecursionError ''maximum recursion depth exceeded'')"
  by (rule validation_stack_suffices) simp

text \<open>What building produces: whatever the problem, hypotheses and candidates, a topology that is
  built has its nodes and edges in order under unique identities, and every edge is the one its
  content addresses, with the matching inference identity, so validation can never report a
  duplicate or a content address mismatch on it.\<close>

lemma built_topology_addressed:
  assumes "build_reasoning_topology H depth problem hypotheses c = Inr t"
  shows "rt_schema_version t = 2 \<and>
    sorted (map rn_node_id (rt_nodes t)) \<and> distinct (map rn_node_id (rt_nodes t)) \<and>
    sorted (map re_edge_id (rt_edges t)) \<and> distinct (map re_edge_id (rt_edges t)) \<and>
    (\<forall>e \<in> set (rt_edges t). self_addressed H e \<and>
       inference_identity H (re_source_id e) (re_target_id e) (re_relation e) (re_inference_mode e) = Inr (re_inference_id e))"
proof -
  from yieldsD [OF build_topology_ok assms] obtain g where g: "graph_ok H g" "rt_schema_version t = 2"
    "rt_nodes t = sort_key rn_node_id (map snd (gr_nodes g))" "rt_edges t = sort_key re_edge_id (map snd (gr_edges g))" by blast
  have keys: "map rn_node_id (map snd (gr_nodes g)) = map fst (gr_nodes g)" "map re_edge_id (map snd (gr_edges g)) = map fst (gr_edges g)"
    using g(1) by (auto simp: graph_ok_def)
  have "distinct (map rn_node_id (rt_nodes t))" "distinct (map re_edge_id (rt_edges t))"
    using g(1) unfolding g(3,4) distinct_map_sort keys by (simp_all add: graph_ok_def)
  moreover have "self_addressed H e \<and>
      inference_identity H (re_source_id e) (re_target_id e) (re_relation e) (re_inference_mode e) = Inr (re_inference_id e)"
    if "e \<in> set (rt_edges t)" for e
  proof -
    have a: "self_addressed H e" using that g(1) by (auto simp: g(4) graph_ok_def)
    with self_addressed_identity show ?thesis by blast
  qed
  ultimately show ?thesis using g by simp
qed

definition sample_problem :: reasoning_problem where
  "sample_problem = \<lparr> rp_schema_version = 1, rp_problem_id = ''p'', rp_statement = ''given'', rp_goal = ''find'',
     rp_source_snapshot_hash = [], rp_boundary_signature = [], rp_dimension_signature = [], rp_evidence_ids = [],
     rp_uncertainty_bp = 0, rp_difficulty_bp = 0, rp_mutually_exclusive_hypotheses = False, rp_signature = [] \<rparr>"

definition no_candidates :: candidate_set where
  "no_candidates = \<lparr> cs_schema_version = 1, cs_problem_id = ''p'', cs_paths = [], cs_verifier_reports = [],
     cs_falsifier_reports = [], cs_metrics = [], cs_selected_path_id = [], cs_surviving_path_ids = [],
     cs_rejected_path_ids = [], cs_synthesized_conclusion = [], cs_synthesis_source_path_ids = [], cs_synthesis = None,
     cs_score_config_id = [], cs_score_config_hash = [], cs_diversity_config_hash = [], cs_ablation_id = ''full_sr'',
     cs_ablation_config_hash = [], cs_contradiction_ids = [], cs_hypothesis_updates = [], cs_signature = [] \<rparr>"

lemma sample_builds: "\<exists>t. build_reasoning_topology H depth sample_problem [] no_candidates = Inr t \<and> length (rt_edges t) = 1"
proof -
  have m: "canonical_inference_mode ''constraint'' False = Inr ''constraint''" "canonical_inference_mode ''constraint'' True = Inr ''constraint''"
    "strip ''given'' \<noteq> []" "strip ''find'' \<noteq> []" by code_simp+
  show ?thesis
    by (simp add: build_reasoning_topology_def sample_problem_def no_candidates_def add_node_def add_edge_def
        make_reasoning_node_def node_post_init_def plain_node_def bounded_score_def NODE_KINDS_def m
        make_reasoning_edge_def edge_post_init_def inference_identity_def EDGE_RELATIONS_def add_decision_def
        mark_hypothetical_def topology_post_init_def Let_def)
qed

end
