(* ===== verification/RBudget.thy ===== *)
theory RBudget
  imports RRecords Models
begin

text \<open>
  \<open>ourd/reasoning/budget.py\<close>: the compute budget of one reasoning run, derived from the
  dimension budget of the kernel and the measured uncertainty, and the value-of-information
  test that ends the run.
\<close>

definition DEFAULT_BASE_CANDIDATES :: int where
  "DEFAULT_BASE_CANDIDATES = 2"

text \<open>What a number of candidates asks for: generation attempts, and provider calls in all.\<close>

definition generation_attempts :: "int \<Rightarrow> int \<Rightarrow> int" where
  "generation_attempts max_calls c = min max_calls (max c (c * 2))"

definition required_calls :: "int \<Rightarrow> int \<Rightarrow> int" where
  "required_calls max_calls c = generation_attempts max_calls c + c + min 2 c + 2"

text \<open>The loop that drops candidates until the calls suffice or one candidate is left.\<close>

function shrink_candidates :: "int \<Rightarrow> int \<Rightarrow> int" where
  "shrink_candidates max_calls c =
     (if c > 1 then
        (let c' = c - 1 in if required_calls max_calls c' \<le> max_calls then c' else shrink_candidates max_calls c')
      else c)"
  by pat_completeness auto
termination by (relation "measure (\<lambda>(m, c). nat c)") auto

declare shrink_candidates.simps [simp del]

definition operation_costs :: "(string \<times> int) list" where
  "operation_costs = [(''GENERATE_HYPOTHESIS'', 1500), (''REFINE_DIMENSION'', 2000), (''RETRIEVE_EVIDENCE'', 1000),
     (''RUN_READ_ONLY_EXPERIMENT'', 2500), (''SEARCH_COUNTEREXAMPLE'', 1500), (''STOP'', 0), (''VERIFY_AGAIN'', 1000)]"

definition budget_json :: "reasoning_budget \<Rightarrow> json" where
  "budget_json b = JObj [
     (''max_hypotheses'', JInt (bu_max_hypotheses b)), (''minimum_candidates'', JInt (bu_minimum_candidates b)),
     (''maximum_candidates'', JInt (bu_maximum_candidates b)), (''candidate_count'', JInt (bu_candidate_count b)),
     (''max_steps_per_path'', JInt (bu_max_steps_per_path b)), (''max_branch_factor'', JInt (bu_max_branch_factor b)),
     (''max_topology_nodes'', JInt (bu_max_topology_nodes b)), (''max_topology_edges'', JInt (bu_max_topology_edges b)),
     (''max_provider_calls'', JInt (bu_max_provider_calls b)),
     (''max_generation_attempts'', JInt (bu_max_generation_attempts b)),
     (''verifier_count'', JInt (bu_verifier_count b)), (''falsifier_count'', JInt (bu_falsifier_count b)),
     (''max_verifier_passes'', JInt (bu_max_verifier_passes b)),
     (''max_falsifier_passes'', JInt (bu_max_falsifier_passes b)), (''max_tokens'', JInt (bu_max_tokens b)),
     (''max_tool_calls'', JInt (bu_max_tool_calls b)), (''max_context_items'', JInt (bu_max_context_items b)),
     (''operation_costs_bp'', JList (map (\<lambda>(k, v). JList [JStr k, JInt v]) (bu_operation_costs_bp b))),
     (''max_compute_bp'', JInt (bu_max_compute_bp b)), (''minimum_voi_bp'', JInt (bu_minimum_voi_bp b))]"

text \<open>The parameters of a run, with the defaults of the code.\<close>

record budget_request =
  bq_uncertainty_bp :: int
  bq_difficulty_bp :: int
  bq_disagreement_bp :: int
  bq_max_candidates :: int
  bq_max_provider_calls :: int
  bq_minimum_voi_bp :: int

definition default_request :: "int \<Rightarrow> int \<Rightarrow> budget_request" where
  "default_request uncertainty difficulty = \<lparr> bq_uncertainty_bp = uncertainty, bq_difficulty_bp = difficulty,
     bq_disagreement_bp = 0, bq_max_candidates = 16, bq_max_provider_calls = 64, bq_minimum_voi_bp = 100 \<rparr>"

definition candidate_limit :: "dimension_budget \<Rightarrow> budget_request \<Rightarrow> int" where
  "candidate_limit d q = min (max 1 (bq_max_candidates q)) (max 1 (db_max_candidate_actions d))"

definition wanted_candidates :: "dimension_budget \<Rightarrow> budget_request \<Rightarrow> int" where
  "wanted_candidates d q = min (candidate_limit d q) (max 1 (DEFAULT_BASE_CANDIDATES + bq_uncertainty_bp q div 2500
     + bq_difficulty_bp q div 2500 + bq_disagreement_bp q div 2500))"

definition provider_limit :: "budget_request \<Rightarrow> int" where
  "provider_limit q = max 1 (bq_max_provider_calls q)"

definition chosen_candidates :: "dimension_budget \<Rightarrow> budget_request \<Rightarrow> int" where
  "chosen_candidates d q = (let m = provider_limit q; w = wanted_candidates d q in
     if required_calls m w > m then shrink_candidates m w else w)"

definition derive_reasoning_budget :: "digest \<Rightarrow> dimension_budget \<Rightarrow> budget_request \<Rightarrow> reasoning_budget res" where
  "derive_reasoning_budget H d q =
     bindR (bounded_score (bq_uncertainty_bp q) ''reasoning uncertainty'' False) (\<lambda>_.
     bindR (bounded_score (bq_difficulty_bp q) ''reasoning difficulty'' False) (\<lambda>_.
     bindR (bounded_score (bq_disagreement_bp q) ''verifier disagreement'' False) (\<lambda>_.
       let max_calls = provider_limit q; c = chosen_candidates d q
       in if required_calls max_calls c > max_calls
            then Inl (PolicyError ''provider-call budget cannot support one reasoning candidate'')
          else bindR (bounded_score (bq_minimum_voi_bp q) ''minimum value of information'' False) (\<lambda>_.
            let b = \<lparr> bu_schema_version = 1, bu_max_hypotheses = db_max_active_hypotheses d, bu_minimum_candidates = 1,
                  bu_maximum_candidates = candidate_limit d q, bu_candidate_count = c,
                  bu_max_steps_per_path = db_max_decomposition_depth d, bu_max_branch_factor = db_max_branch_factor d,
                  bu_max_topology_nodes = max 16 (db_max_active_relations d),
                  bu_max_topology_edges = max 32 (db_max_active_relations d * 2), bu_max_provider_calls = max_calls,
                  bu_max_generation_attempts = generation_attempts max_calls c, bu_verifier_count = c,
                  bu_falsifier_count = min 2 c, bu_max_verifier_passes = 2, bu_max_falsifier_passes = 2,
                  bu_max_tokens = 12000, bu_max_tool_calls = 20, bu_max_context_items = 128,
                  bu_operation_costs_bp = operation_costs, bu_max_compute_bp = SCORE_SCALE,
                  bu_minimum_voi_bp = bq_minimum_voi_bp q, bu_signature = [] \<rparr>
            in reasoning_budget_post_init (b\<lparr>bu_signature := stable_hash H (budget_json b)\<rparr>)))))"

definition expected_value_of_information_bp :: "int \<Rightarrow> int \<Rightarrow> int \<Rightarrow> int res" where
  "expected_value_of_information_bp gain cost weight =
     bindR (bounded_score gain ''expected quality gain'' False) (\<lambda>_.
     bindR (bounded_score cost ''reasoning operation cost'' False) (\<lambda>_.
       if \<not> (0 \<le> weight \<and> weight \<le> 1000) then Inl (PolicyError ''value-of-information cost weight must be 0..1000'')
       else Inr (gain - cost * weight div 100)))"

definition should_continue_reasoning :: "reasoning_budget \<Rightarrow> int \<Rightarrow> int \<Rightarrow> int \<Rightarrow> bool res" where
  "should_continue_reasoning b gain cost weight =
     bindR (expected_value_of_information_bp gain cost weight) (\<lambda>v. Inr (v \<ge> bu_minimum_voi_bp b))"

section \<open>The loop finds the largest number of candidates the calls allow\<close>

lemma required_calls_one: "1 \<le> m \<Longrightarrow> required_calls m 1 \<le> m \<longleftrightarrow> 6 \<le> m"
  by (auto simp: required_calls_def generation_attempts_def)

lemma required_calls_mono: "1 \<le> c \<Longrightarrow> c \<le> c' \<Longrightarrow> required_calls m c \<le> required_calls m c'"
  by (simp add: required_calls_def generation_attempts_def min_def max_def)

lemma shrink_candidates_spec:
  assumes "1 \<le> c"
  shows "1 \<le> shrink_candidates m c \<and> shrink_candidates m c \<le> c \<and>
    (\<forall>k. shrink_candidates m c < k \<and> k < c \<longrightarrow> required_calls m k > m) \<and>
    (shrink_candidates m c = c \<longrightarrow> c = 1) \<and>
    (required_calls m (shrink_candidates m c) \<le> m \<or> shrink_candidates m c = 1)"
  using assms
proof (induction m c rule: shrink_candidates.induct)
  case (1 m c)
  show ?case
  proof (cases "c > 1")
    case False
    then have "shrink_candidates m c = c" by (simp add: shrink_candidates.simps [of m c])
    with False 1(2) show ?thesis by auto
  next
    case True
    show ?thesis
    proof (cases "required_calls m (c - 1) \<le> m")
      case fits: True
      with True have s: "shrink_candidates m c = c - 1" by (simp add: shrink_candidates.simps [of m c])
      show ?thesis unfolding s using fits True by auto
    next
      case False
      with True have s: "shrink_candidates m c = shrink_candidates m (c - 1)" by (simp add: shrink_candidates.simps [of m c])
      note ih = 1(1) [OF True refl False]
      have "required_calls m k > m" if "shrink_candidates m (c - 1) < k" "k < c" for k
        using that ih True False by (cases "k = c - 1") auto
      then show ?thesis unfolding s using ih True by auto
    qed
  qed
qed

lemma chosen_candidates_spec:
  fixes d q
  defines "m \<equiv> provider_limit q"
  shows "1 \<le> chosen_candidates d q \<and> chosen_candidates d q \<le> wanted_candidates d q \<and>
    (\<forall>k. chosen_candidates d q < k \<and> k \<le> wanted_candidates d q \<longrightarrow> required_calls m k > m) \<and>
    (required_calls m (chosen_candidates d q) \<le> m \<or> chosen_candidates d q = 1)"
proof -
  have w: "1 \<le> wanted_candidates d q" by (simp add: wanted_candidates_def candidate_limit_def)
  show ?thesis
  proof (cases "required_calls m (wanted_candidates d q) > m")
    case True
    then have c: "chosen_candidates d q = shrink_candidates m (wanted_candidates d q)"
      by (simp add: chosen_candidates_def m_def)
    have "required_calls m k > m" if "chosen_candidates d q < k" "k \<le> wanted_candidates d q" for k
      using that True shrink_candidates_spec [OF w, of m] unfolding c by (cases "k = wanted_candidates d q") auto
    with shrink_candidates_spec [OF w, of m] show ?thesis unfolding c by auto
  next
    case False
    then have "chosen_candidates d q = wanted_candidates d q" by (simp add: chosen_candidates_def m_def)
    with False w show ?thesis by auto
  qed
qed

lemma operation_costs_canonical: "canonical_score_pairs operation_costs = Inr operation_costs"
  by code_simp

lemma derive_budget_cases:
  assumes "in_scale (bq_uncertainty_bp q)" and "in_scale (bq_difficulty_bp q)" and "in_scale (bq_disagreement_bp q)"
    and "in_scale (bq_minimum_voi_bp q)" and "budget_post_init d0 = Inr d"
  shows "case derive_reasoning_budget H d q of
      Inl e \<Rightarrow> e = PolicyError ''provider-call budget cannot support one reasoning candidate'' \<and> bq_max_provider_calls q < 6
    | Inr b \<Rightarrow> bu_candidate_count b = chosen_candidates d q \<and> bu_max_provider_calls b = provider_limit q \<and>
        bu_max_generation_attempts b = generation_attempts (bu_max_provider_calls b) (bu_candidate_count b) \<and>
        bu_verifier_count b = bu_candidate_count b \<and> bu_falsifier_count b = min 2 (bu_candidate_count b) \<and>
        bu_max_topology_nodes b = max 16 (db_max_active_relations d) \<and>
        required_calls (bu_max_provider_calls b) (bu_candidate_count b) \<le> bu_max_provider_calls b"
proof -
  let ?m = "provider_limit q" and ?c = "chosen_candidates d q"
  note c = chosen_candidates_spec [of d q]
  have pos: "1 \<le> db_max_active_hypotheses d" "1 \<le> db_max_decomposition_depth d" "1 \<le> db_max_branch_factor d"
    using assms(5) by (auto simp: budget_post_init_def Let_def bindR_Inr split: if_splits)
  have le: "?c \<le> candidate_limit d q" "1 \<le> candidate_limit d q"
    using c by (auto simp: wanted_candidates_def candidate_limit_def)
  have gen: "?c \<le> generation_attempts ?m ?c" if "required_calls ?m ?c \<le> ?m"
    using that c by (auto simp: generation_attempts_def required_calls_def min_def max_def split: if_splits)
  have lim: "1 \<le> provider_limit q" by (simp add: provider_limit_def)
  have costs: "\<not> list_ex (\<lambda>(k, v). k \<notin> set REASONING_OPERATIONS) operation_costs" "\<not> list_ex (\<lambda>(k, v). \<not> in_scale v) operation_costs"
    by code_simp+
  show ?thesis
  proof (cases "required_calls ?m ?c \<le> ?m")
    case False
    then have "?c = 1" using c by auto
    with False have "bq_max_provider_calls q < 6" using required_calls_one [of ?m] by (auto simp: provider_limit_def)
    moreover have "derive_reasoning_budget H d q = Inl (PolicyError ''provider-call budget cannot support one reasoning candidate'')"
      using assms(1-3) False by (simp add: derive_reasoning_budget_def bounded_score_def Let_def)
    ultimately show ?thesis by simp
  next
    case True
    with assms(1-4) pos le gen c costs lim show ?thesis
      by (simp add: derive_reasoning_budget_def bounded_score_def reasoning_budget_post_init_def check_scores_def
          operation_costs_canonical Let_def)
  qed
qed

section \<open>Properties\<close>


definition sample_dimension_budget :: dimension_budget where
  "sample_dimension_budget = \<lparr> db_schema_version = 1, db_max_active_objects = 8, db_max_active_relations = 40,
     db_max_active_dimensions = 4, db_max_active_hypotheses = 3, db_max_quantization_levels = 4,
     db_max_interaction_order = 2, db_max_candidate_actions = 12, db_max_active_evidence_atoms = 9,
     db_max_decomposition_depth = 5, db_max_branch_factor = 3, db_max_retries_per_attempt = 1,
     db_selected_dimensions = [''d''], db_dimension_utility_bp = [(''d'', 100)], db_signature = [] \<rparr>"


end
