(* ===== verification/RScoring.thy ===== *)
theory RScoring
  imports RRecords "HOL-Library.Product_Lexorder"
begin

text \<open>
  Scores of reasoning paths: \<open>ourd/reasoning/scoring.py\<close> (coverage, uncertainty, the weighted
  score, ranking, agreement and confidence), \<open>ourd/reasoning/diversity.py\<close> (structural
  similarity) and \<open>ourd/reasoning/contradictions.py\<close> (contradiction records and the cap they
  put on confidence). All arithmetic is on integers with floor division.
\<close>

section \<open>Scoring\<close>

definition path_evidence :: "reasoning_path \<Rightarrow> string list" where
  "path_evidence p = concat (map st_evidence_ids (pa_steps p))"

definition evidence_coverage_bp :: "reasoning_path \<Rightarrow> string list \<Rightarrow> int" where
  "evidence_coverage_bp p declared_ids =
     (let declared = remdups declared_ids; referenced = path_evidence p in
      if declared = [] then (if referenced = [] then SCORE_SCALE else 0)
      else min SCORE_SCALE (int (length (filter (\<lambda>e. e \<in> set referenced) declared)) * SCORE_SCALE div int (length declared)))"

text \<open>A path has at least one step, so its least confidence exists.\<close>

definition path_uncertainty_bp :: "reasoning_path \<Rightarrow> int \<Rightarrow> int" where
  "path_uncertainty_bp p unresolved =
     (let confidence = fold min (map st_confidence_bp (tl (pa_steps p))) (st_confidence_bp (hd (pa_steps p)));
          penalty = min SCORE_SCALE (max 0 unresolved * 500)
      in min SCORE_SCALE ((SCORE_SCALE - confidence) + penalty))"

definition positive_score :: "score_configuration \<Rightarrow> reasoning_path \<Rightarrow> verifier_report \<Rightarrow> falsifier_report \<Rightarrow> int \<Rightarrow> int \<Rightarrow> int" where
  "positive_score c p v f coverage consistency =
     (sc_verifier_weight c * vr_score_bp v + sc_evidence_weight c * coverage + sc_consistency_weight c * consistency
      + sc_falsifier_weight c * fr_survival_bp f + sc_goal_weight c * pa_goal_relevance_bp p
      + sc_diversity_weight c * pa_diversity_bp p) div 100"

definition consistency_score :: "verifier_report \<Rightarrow> int" where
  "consistency_score v = min (vr_consistency_bp v) (max 0 (SCORE_SCALE - int (length (vr_contradictions v)) * 2000))"

definition unresolved_assumptions :: "reasoning_path \<Rightarrow> verifier_report \<Rightarrow> int" where
  "unresolved_assumptions p v = int (length (vr_missing_assumptions v)) + sum_list (map (int \<circ> length \<circ> st_assumptions) (pa_steps p))"

definition score_reasoning_path ::
  "digest \<Rightarrow> score_configuration \<Rightarrow> reasoning_path \<Rightarrow> verifier_report \<Rightarrow> falsifier_report \<Rightarrow> string list \<Rightarrow> reasoning_metrics res" where
  "score_reasoning_path H c p v f declared_ids =
     (let coverage = evidence_coverage_bp p declared_ids;
          consistency = consistency_score v;
          uncertainty = path_uncertainty_bp p (unresolved_assumptions p v);
          positive = positive_score c p v f coverage consistency;
          penalties = (sc_uncertainty_penalty c * uncertainty + sc_compute_penalty c * pa_estimated_cost_bp p) div 100;
          total = max (- SCORE_SCALE) (min SCORE_SCALE (positive - penalties));
          m = \<lparr> mt_path_id = pa_path_id p, mt_evidence_support_bp = coverage, mt_verifier_bp = vr_score_bp v,
                mt_consistency_bp = consistency, mt_falsifier_bp = fr_survival_bp f,
                mt_goal_relevance_bp = pa_goal_relevance_bp p, mt_diversity_bp = pa_diversity_bp p,
                mt_uncertainty_bp = uncertainty, mt_risk_bp = pa_risk_bp p, mt_cost_bp = pa_estimated_cost_bp p,
                mt_total_score_bp = total, mt_score_config_id = sc_config_id c, mt_score_config_hash = sc_signature c,
                mt_signature = [] \<rparr>
      in reasoning_metrics_post_init (m\<lparr>mt_signature := stable_hash H (JObj (metrics_fields m))\<rparr>))"

text \<open>\<open>{item.path_id: item for item in items}\<close>: the last one with a key wins.\<close>

definition by_path :: "('a \<Rightarrow> string) \<Rightarrow> 'a list \<Rightarrow> string \<Rightarrow> 'a option" where
  "by_path key items i = find (\<lambda>x. key x = i) (rev items)"

definition rank_key ::
  "reasoning_metrics list \<Rightarrow> verifier_report list \<Rightarrow> falsifier_report list \<Rightarrow> reasoning_path \<Rightarrow> (int \<times> int \<times> int \<times> int \<times> string) option" where
  "rank_key ms vs fs p = (case (by_path mt_path_id ms (pa_path_id p), by_path vr_path_id vs (pa_path_id p), by_path fr_path_id fs (pa_path_id p)) of
     (Some m, Some v, Some f) \<Rightarrow>
       Some (- mt_total_score_bp m, - vr_score_bp v, - fr_survival_bp f, pa_estimated_cost_bp p, pa_path_id p)
   | _ \<Rightarrow> None)"

definition rank_reasoning_paths ::
  "reasoning_path list \<Rightarrow> reasoning_metrics list \<Rightarrow> verifier_report list \<Rightarrow> falsifier_report list \<Rightarrow> reasoning_path list res" where
  "rank_reasoning_paths ps ms vs fs =
     (if list_ex (\<lambda>p. rank_key ms vs fs p = None) ps then Inl (KeyError ''path_id'')
      else Inr (sort_key (\<lambda>p. the (rank_key ms vs fs p)) ps))"

text \<open>\<open>s.split()\<close>: the runs of characters between white space.\<close>

fun split_runs :: "(char \<Rightarrow> bool) \<Rightarrow> string \<Rightarrow> string \<Rightarrow> string list" where
  "split_runs sep run [] = (if run = [] then [] else [rev run])"
| "split_runs sep run (c # cs) =
     (if sep c then (if run = [] then [] else [rev run]) @ split_runs sep [] cs else split_runs sep (c # run) cs)"

definition words :: "string \<Rightarrow> string list" where
  "words s = split_runs is_space [] s"

definition conclusion_key :: "string \<Rightarrow> string" where
  "conclusion_key s = join '' '' (words (casefold s))"

definition find_candidate :: "candidate_set \<Rightarrow> reasoning_path res" where
  "find_candidate c = (case find (\<lambda>p. pa_path_id p = cs_selected_path_id c) (cs_paths c) of
     None \<Rightarrow> Inl (StopIteration ''next'') | Some p \<Rightarrow> Inr p)"

definition conclusion_agreement_bp :: "candidate_set \<Rightarrow> int res" where
  "conclusion_agreement_bp c =
     (if cs_paths c = [] \<or> cs_selected_path_id c = [] then Inr 0
      else bindR (find_candidate c) (\<lambda>selected.
        let matching = length (filter (\<lambda>p. conclusion_key (pa_conclusion p) = conclusion_key (pa_conclusion selected)) (cs_paths c))
        in Inr (int matching * SCORE_SCALE div int (length (cs_paths c)))))"

definition derive_reasoning_confidence_bp :: "candidate_set \<Rightarrow> int res" where
  "derive_reasoning_confidence_bp c =
     (if cs_selected_path_id c = [] then Inr 0
      else case find (\<lambda>m. mt_path_id m = cs_selected_path_id c) (cs_metrics c) of
        None \<Rightarrow> Inl (StopIteration ''next'')
      | Some m \<Rightarrow> bindR (conclusion_agreement_bp c) (\<lambda>agreement.
          bounded_score ((30 * mt_verifier_bp m + 20 * agreement + 20 * mt_evidence_support_bp m
            + 20 * mt_falsifier_bp m + 10 * (SCORE_SCALE - mt_uncertainty_bp m)) div 100) ''derived reasoning confidence'' False))"

section \<open>Structural diversity\<close>

definition is_token_char :: "char \<Rightarrow> bool" where
  "is_token_char c = (let n = (of_char c :: nat) in (97 \<le> n \<and> n \<le> 122) \<or> (48 \<le> n \<and> n \<le> 57))"

definition tokens :: "string \<Rightarrow> string list" where
  "tokens s = split_runs (\<lambda>c. \<not> is_token_char c) [] s"

definition normalize_claim :: "string \<Rightarrow> string" where
  "normalize_claim s = join '' '' (sort (tokens (casefold s)))"

definition normalized_strings :: "string list \<Rightarrow> string list" where
  "normalized_strings vs = sorted_set (filter (\<lambda>v. v \<noteq> []) (map normalize_claim vs))"

record path_structure =
  sm_strategy :: string
  sm_hypothesis_ids :: "string list"
  sm_evidence_ids :: "string list"
  sm_inference_modes :: "string list"
  sm_assumptions :: "string list"
  sm_falsifiers :: "string list"
  sm_conclusion :: string

definition path_structure_material :: "reasoning_path \<Rightarrow> path_structure" where
  "path_structure_material p = \<lparr> sm_strategy = pa_perspective p,
     sm_hypothesis_ids = canonical_strings (pa_hypothesis_ids p),
     sm_evidence_ids = canonical_strings (path_evidence p),
     sm_inference_modes = map st_inference (pa_steps p),
     sm_assumptions = normalized_strings (concat (map st_assumptions (pa_steps p))),
     sm_falsifiers = normalized_strings (filter (\<lambda>f. f \<noteq> []) (map st_falsifier (pa_steps p))),
     sm_conclusion = normalize_claim (pa_conclusion p) \<rparr>"

definition path_structure_signature :: "digest \<Rightarrow> reasoning_path \<Rightarrow> string" where
  "path_structure_signature H p = (let s = path_structure_material p in
     stable_hash H (JObj [(''strategy'', JStr (sm_strategy s)), (''hypothesis_ids'', jstrs (sm_hypothesis_ids s)),
       (''evidence_ids'', jstrs (sm_evidence_ids s)), (''inference_modes'', jstrs (sm_inference_modes s)),
       (''assumptions'', jstrs (sm_assumptions s)), (''falsifiers'', jstrs (sm_falsifiers s)),
       (''conclusion'', JStr (sm_conclusion s))]))"

definition jaccard_bp :: "string list \<Rightarrow> string list \<Rightarrow> int" where
  "jaccard_bp left right =
     (let union = remdups (left @ right) in
      if union = [] then SCORE_SCALE
      else int (length (filter (\<lambda>x. x \<in> set left \<and> x \<in> set right) union)) * SCORE_SCALE div int (length union))"

definition structural_similarity_bp :: "diversity_configuration \<Rightarrow> reasoning_path \<Rightarrow> reasoning_path \<Rightarrow> int" where
  "structural_similarity_bp c left right =
     (let l = path_structure_material left; r = path_structure_material right;
          inference = (if sm_inference_modes l = sm_inference_modes r then SCORE_SCALE
                       else jaccard_bp (sm_inference_modes l) (sm_inference_modes r));
          value = (dc_hypothesis_weight c * jaccard_bp (sm_hypothesis_ids l) (sm_hypothesis_ids r)
            + dc_evidence_weight c * jaccard_bp (sm_evidence_ids l) (sm_evidence_ids r)
            + dc_inference_weight c * inference
            + dc_assumption_weight c * jaccard_bp (sm_assumptions l) (sm_assumptions r)
            + dc_falsifier_weight c * jaccard_bp (sm_falsifiers l) (sm_falsifiers r)
            + dc_conclusion_weight c * jaccard_bp (words (sm_conclusion l)) (words (sm_conclusion r))) div 100
      in max 0 (min SCORE_SCALE value))"

definition is_structural_duplicate :: "diversity_configuration \<Rightarrow> reasoning_path \<Rightarrow> reasoning_path list \<Rightarrow> bool" where
  "is_structural_duplicate c candidate accepted =
     list_ex (\<lambda>other. structural_similarity_bp c candidate other \<ge> dc_duplicate_threshold_bp c) accepted"

text \<open>\<open>max\<close> of an empty generator raises: that happens when all paths share one identity.\<close>

definition bind_diversity_scores :: "diversity_configuration \<Rightarrow> reasoning_path list \<Rightarrow> reasoning_path list res" where
  "bind_diversity_scores c paths =
     (if length paths < 2 then mapR (\<lambda>p. path_post_init (p\<lparr>pa_diversity_bp := 0\<rparr>)) paths
      else mapR (\<lambda>p. case map (structural_similarity_bp c p) (filter (\<lambda>q. pa_path_id q \<noteq> pa_path_id p) paths) of
          [] \<Rightarrow> Inl (ValueError ''max() arg is an empty sequence'')
        | x # xs \<Rightarrow> path_post_init (p\<lparr>pa_diversity_bp := SCORE_SCALE - fold max xs x\<rparr>)) paths)"

section \<open>Contradictions\<close>

definition CRITICAL_CONTRADICTION_BP :: int where
  "CRITICAL_CONTRADICTION_BP = 7500"

definition new_contradiction :: "string \<Rightarrow> string \<Rightarrow> string list \<Rightarrow> string \<Rightarrow> int \<Rightarrow> contradiction_record" where
  "new_contradiction left right evidence kind severity = \<lparr> cr_schema_version = 1, cr_contradiction_id = [],
     cr_left_claim_id = left, cr_right_claim_id = right, cr_evidence_left = evidence, cr_evidence_right = [],
     cr_conflict_type = kind, cr_severity_bp = severity, cr_resolution_status = ''UNRESOLVED'',
     cr_resolution_evidence_ids = [], cr_signature = [] \<rparr>"

definition records_for :: "digest \<Rightarrow> reasoning_path \<Rightarrow> string \<Rightarrow> string \<Rightarrow> string list \<Rightarrow> string \<Rightarrow> int \<Rightarrow> contradiction_record list res" where
  "records_for H p report suffix items kind severity =
     mapR (\<lambda>n. contradiction_post_init H (new_contradiction (pa_path_id p @ '':conclusion'') (report @ suffix @ nat_str n)
       (sorted_set (path_evidence p)) kind severity)) [0..<length items]"

definition verifier_contradictions :: "digest \<Rightarrow> candidate_set \<Rightarrow> verifier_report \<Rightarrow> contradiction_record list res" where
  "verifier_contradictions H c r =
     (case by_path pa_path_id (cs_paths c) (vr_path_id r) of None \<Rightarrow> Inl (KeyError ''path'')
      | Some p \<Rightarrow> records_for H p (vr_report_id r) '':contradiction:'' (vr_contradictions r) ''logical'' 8000)"

definition falsifier_contradictions :: "digest \<Rightarrow> candidate_set \<Rightarrow> falsifier_report \<Rightarrow> contradiction_record list res" where
  "falsifier_contradictions H c r =
     (case by_path pa_path_id (cs_paths c) (fr_path_id r) of None \<Rightarrow> Inl (KeyError ''path'')
      | Some p \<Rightarrow>
          bindR (records_for H p (fr_report_id r) '':counterexample:'' (fr_counterexamples r) ''empirical'' (max 6000 (fr_severity_bp r))) (\<lambda>xs.
          bindR (records_for H p (fr_report_id r) '':alternative:'' (fr_alternative_explanations r) ''causal'' (max 5000 (fr_severity_bp r))) (\<lambda>ys.
          bindR (records_for H p (fr_report_id r) '':causal-direction:'' (fr_reversed_causal_directions r) ''causal'' (max 7000 (fr_severity_bp r))) (\<lambda>zs.
          Inr (xs @ ys @ zs)))))"

definition build_contradiction_records :: "digest \<Rightarrow> candidate_set \<Rightarrow> contradiction_record list res" where
  "build_contradiction_records H c =
     bindR (mapR (verifier_contradictions H c) (cs_verifier_reports c)) (\<lambda>xss.
     bindR (mapR (falsifier_contradictions H c) (cs_falsifier_reports c)) (\<lambda>yss.
     Inr (sort_key cr_contradiction_id (concat xss @ concat yss))))"

definition resolve_contradiction :: "digest \<Rightarrow> contradiction_record \<Rightarrow> string list \<Rightarrow> string \<Rightarrow> contradiction_record res" where
  "resolve_contradiction H r evidence status =
     contradiction_post_init H (r\<lparr>cr_contradiction_id := [], cr_resolution_status := status,
       cr_resolution_evidence_ids := evidence, cr_signature := []\<rparr>)"

definition unresolved_critical :: "contradiction_record list \<Rightarrow> contradiction_record list" where
  "unresolved_critical rs =
     filter (\<lambda>r. cr_resolution_status r = ''UNRESOLVED'' \<and> cr_severity_bp r \<ge> CRITICAL_CONTRADICTION_BP) rs"

definition cap_confidence_for_contradictions :: "int \<Rightarrow> contradiction_record list \<Rightarrow> int" where
  "cap_confidence_for_contradictions confidence rs =
     (if unresolved_critical rs \<noteq> [] then min confidence 4999
      else max 0 (min SCORE_SCALE
        (confidence - int (length (filter (\<lambda>r. cr_resolution_status r = ''UNRESOLVED'') rs)) * 500)))"

section \<open>Bounds\<close>

lemma ratio_scale: "0 \<le> a \<Longrightarrow> a \<le> b \<Longrightarrow> 0 < b \<Longrightarrow> in_scale (a * SCORE_SCALE div b)" for a b :: int
proof -
  assume *: "0 \<le> a" "a \<le> b" "0 < b"
  have "a * SCORE_SCALE div b \<le> b * SCORE_SCALE div b" using * by (intro zdiv_mono1 mult_right_mono) simp_all
  moreover have "0 \<le> a * SCORE_SCALE div b" using * by (simp add: pos_imp_zdiv_nonneg_iff)
  ultimately show ?thesis using * by simp
qed

lemma evidence_coverage_scale: "in_scale (evidence_coverage_bp p declared)"
proof (cases "remdups declared = []")
  case True
  then show ?thesis by (simp add: evidence_coverage_bp_def)
next
  case False
  have "in_scale (int (length (filter (\<lambda>e. e \<in> set (path_evidence p)) (remdups declared))) * SCORE_SCALE div int (length (remdups declared)))"
    using False by (intro ratio_scale) auto
  with False show ?thesis by (simp add: evidence_coverage_bp_def Let_def)
qed

lemma fold_min_bounds:
  fixes x :: int
  shows "lo \<le> x \<Longrightarrow> (\<And>y. y \<in> set xs \<Longrightarrow> lo \<le> y) \<Longrightarrow> lo \<le> fold min xs x"
    and "fold min xs x \<le> x"
proof (induction xs arbitrary: x)
  case (Cons y ys)
  {
    case 1
    then show ?case using Cons.IH(1) [of "min y x"] by simp
  next
    case 2
    then show ?case using Cons.IH(2) [of "min y x"] by simp
  }
qed simp_all

text \<open>The inputs of scoring as their constructors leave them.\<close>

definition path_ok :: "reasoning_path \<Rightarrow> bool" where
  "path_ok p \<longleftrightarrow> pa_path_id p \<noteq> [] \<and> pa_steps p \<noteq> [] \<and> in_scale (pa_estimated_cost_bp p) \<and> in_scale (pa_goal_relevance_bp p) \<and>
     in_scale (pa_risk_bp p) \<and> in_scale (pa_diversity_bp p) \<and> (\<forall>s \<in> set (pa_steps p). in_scale (st_confidence_bp s))"

lemma path_post_init_ok:
  "path_post_init p0 = Inr p \<Longrightarrow> (\<And>s. s \<in> set (pa_steps p) \<Longrightarrow> in_scale (st_confidence_bp s)) \<Longrightarrow> path_ok p"
  by (auto simp: path_post_init_def path_ok_def bindR_Inr check_scores_Inr Let_def split: if_splits)

definition score_config_ok :: "score_configuration \<Rightarrow> bool" where
  "score_config_ok c \<longleftrightarrow> list_all (\<lambda>w. 0 \<le> w) [sc_verifier_weight c, sc_evidence_weight c, sc_consistency_weight c,
       sc_falsifier_weight c, sc_goal_weight c, sc_diversity_weight c, sc_uncertainty_penalty c, sc_compute_penalty c] \<and>
     sc_verifier_weight c + sc_evidence_weight c + sc_consistency_weight c + sc_falsifier_weight c + sc_goal_weight c
       + sc_diversity_weight c = 100"

lemma score_config_post_init_ok: "score_config_post_init H c0 = Inr c \<Longrightarrow> score_config_ok c"
  unfolding score_config_post_init_def Let_def guard_Inr bindR_Inr by (auto simp: score_config_ok_def)

lemma path_uncertainty_scale: "path_ok p \<Longrightarrow> in_scale (path_uncertainty_bp p n)"
proof -
  assume p: "path_ok p"
  then obtain s ss where s: "pa_steps p = s # ss" by (cases "pa_steps p") (auto simp: path_ok_def)
  have "0 \<le> fold min (map st_confidence_bp ss) (st_confidence_bp s)"
    using p s by (intro fold_min_bounds) (auto simp: path_ok_def)
  moreover have "fold min (map st_confidence_bp ss) (st_confidence_bp s) \<le> SCORE_SCALE"
    using p s fold_min_bounds(2) [of "map st_confidence_bp ss" "st_confidence_bp s"] by (auto simp: path_ok_def)
  ultimately show ?thesis by (simp add: path_uncertainty_bp_def s Let_def)
qed

lemma consistency_scale: "in_scale (vr_consistency_bp v) \<Longrightarrow> in_scale (consistency_score v)"
  by (auto simp: consistency_score_def)

lemma positive_score_bounds:
  assumes "score_config_ok c" and "path_ok p" and "in_scale (vr_score_bp v)" and "in_scale (fr_survival_bp f)"
    and "in_scale coverage" and "in_scale consistency"
  shows "in_scale (positive_score c p v f coverage consistency)"
proof -
  let ?ws = "[(sc_verifier_weight c, vr_score_bp v), (sc_evidence_weight c, coverage), (sc_consistency_weight c, consistency),
    (sc_falsifier_weight c, fr_survival_bp f), (sc_goal_weight c, pa_goal_relevance_bp p), (sc_diversity_weight c, pa_diversity_bp p)]"
  have "0 \<le> (\<Sum>(w, x) \<leftarrow> ?ws. w * x) \<and> (\<Sum>(w, x) \<leftarrow> ?ws. w * x) \<le> (\<Sum>(w, x) \<leftarrow> ?ws. w) * SCORE_SCALE"
    using assms by (intro weighted_sum_bound) (auto simp: score_config_ok_def path_ok_def)
  moreover have "(\<Sum>(w, x) \<leftarrow> ?ws. w) = 100" using assms(1) by (simp add: score_config_ok_def)
  ultimately have "0 \<le> (\<Sum>(w, x) \<leftarrow> ?ws. w * x)" "(\<Sum>(w, x) \<leftarrow> ?ws. w * x) \<le> 100 * SCORE_SCALE" by simp_all
  moreover have "in_scale (x div 100)" if "0 \<le> x" "x \<le> 100 * SCORE_SCALE" for x :: int using that by linarith
  ultimately have "in_scale ((\<Sum>(w, x) \<leftarrow> ?ws. w * x) div 100)" by blast
  then show ?thesis by (simp only: positive_score_def add.assoc list.map sum_list.Cons sum_list.Nil prod.case add_0_right)
qed

section \<open>Ranking\<close>

lemma sort_key_unique: "mset xs = mset ys \<Longrightarrow> inj_on k (set xs) \<Longrightarrow> sort_key k xs = sort_key k ys"
  by (rule sort_key_inj_key_eq) simp_all

lemma find_SomeD: "find P xs = Some y \<Longrightarrow> y \<in> set xs \<and> P y"
  by (induction xs) (auto split: if_splits)

lemma by_path_mset:
  assumes "mset xs = mset ys" and "distinct (map key xs)"
  shows "by_path key xs = by_path key ys"
proof
  fix i
  have d: "distinct (map key ys)" using assms by (metis mset_eq_imp_distinct_iff mset_map)
  have iff: "by_path key zs i = Some z \<longleftrightarrow> z \<in> set zs \<and> key z = i" if "distinct (map key zs)" for zs z
  proof
    assume "by_path key zs i = Some z"
    then show "z \<in> set zs \<and> key z = i" by (auto simp: by_path_def dest!: find_SomeD)
  next
    assume z: "z \<in> set zs \<and> key z = i"
    then have "by_path key zs i \<noteq> None" by (auto simp: by_path_def find_None_iff)
    then obtain y where y: "by_path key zs i = Some y" by blast
    then have "y \<in> set zs \<and> key y = i" by (auto simp: by_path_def dest!: find_SomeD)
    with z that have "y = z" by (metis distinct_map inj_onD)
    with y show "by_path key zs i = Some z" by simp
  qed
  show "by_path key xs i = by_path key ys i"
    using iff [OF assms(2)] iff [OF d] mset_eq_setD [OF assms(1)] by (metis option.exhaust)
qed

lemma rank_key_inj:
  assumes "distinct (map pa_path_id ps)" and "\<not> list_ex (\<lambda>p. rank_key ms vs fs p = None) ps"
  shows "inj_on (\<lambda>p. the (rank_key ms vs fs p)) (set ps)"
proof (rule inj_onI)
  fix p q assume p: "p \<in> set ps" and q: "q \<in> set ps" and eq: "the (rank_key ms vs fs p) = the (rank_key ms vs fs q)"
  have id: "snd (snd (snd (snd (the (rank_key ms vs fs r))))) = pa_path_id r" if "r \<in> set ps" for r
    using assms(2) that by (auto simp: list_ex_iff rank_key_def split: option.splits)
  have "pa_path_id p = pa_path_id q" using id [OF p] id [OF q] eq by simp
  with assms(1) p q show "p = q" by (metis distinct_map inj_onD)
qed

section \<open>Similarity\<close>

lemma jaccard_commute: "jaccard_bp xs ys = jaccard_bp ys xs"
proof -
  have "length (remdups (xs @ ys)) = length (remdups (ys @ xs))"
    by (simp add: length_remdups_card_conv Un_commute)
  moreover have "length (filter P (remdups (xs @ ys))) = length (filter P (remdups (ys @ xs)))" for P
  proof -
    have "set (filter P (remdups (xs @ ys))) = set (filter P (remdups (ys @ xs)))" by auto
    then show ?thesis by (metis distinct_card distinct_filter distinct_remdups)
  qed
  moreover have "remdups (xs @ ys) = [] \<longleftrightarrow> remdups (ys @ xs) = []" by auto
  ultimately show ?thesis unfolding jaccard_bp_def Let_def by (metis (no_types, lifting) filter_cong)
qed

lemma jaccard_self: "jaccard_bp xs xs = SCORE_SCALE"
proof -
  have "filter (\<lambda>x. x \<in> set xs \<and> x \<in> set xs) (remdups (xs @ xs)) = remdups (xs @ xs)" by (rule filter_True) simp
  then show ?thesis by (simp add: jaccard_bp_def Let_def)
qed

lemma jaccard_scale: "in_scale (jaccard_bp xs ys)"
proof (cases "remdups (xs @ ys) = []")
  case False
  then have "in_scale (int (length (filter (\<lambda>x. x \<in> set xs \<and> x \<in> set ys) (remdups (xs @ ys)))) * SCORE_SCALE div int (length (remdups (xs @ ys))))"
    by (intro ratio_scale) auto
  with False show ?thesis by (simp add: jaccard_bp_def Let_def)
qed (simp add: jaccard_bp_def)

definition diversity_ok :: "diversity_configuration \<Rightarrow> bool" where
  "diversity_ok c \<longleftrightarrow> dc_hypothesis_weight c + dc_evidence_weight c + dc_inference_weight c + dc_assumption_weight c
     + dc_falsifier_weight c + dc_conclusion_weight c = 100 \<and> in_scale (dc_duplicate_threshold_bp c)"

lemma diversity_post_init_ok: "diversity_post_init H c0 = Inr c \<Longrightarrow> diversity_ok c"
  unfolding diversity_post_init_def Let_def guard_Inr bindR_Inr bounded_score_Inr by (auto simp: diversity_ok_def)

lemma similarity_self:
  assumes "diversity_ok c" and "path_structure_material p = path_structure_material q"
  shows "structural_similarity_bp c p q = SCORE_SCALE"
proof -
  have "dc_hypothesis_weight c * SCORE_SCALE + dc_evidence_weight c * SCORE_SCALE + dc_inference_weight c * SCORE_SCALE
      + dc_assumption_weight c * SCORE_SCALE + dc_falsifier_weight c * SCORE_SCALE + dc_conclusion_weight c * SCORE_SCALE
      = 100 * SCORE_SCALE"
    using assms(1) by (simp add: diversity_ok_def algebra_simps)
  then show ?thesis by (simp add: structural_similarity_bp_def Let_def assms(2) jaccard_self)
qed

section \<open>Properties\<close>

lemma verifier_scales: "verifier_post_init v0 = Inr v \<Longrightarrow> in_scale (vr_score_bp v) \<and> in_scale (vr_consistency_bp v)"
  unfolding verifier_post_init_def guard_Inr bindR_Inr check_scores_Inr by auto

lemma falsifier_scales: "falsifier_post_init f0 = Inr f \<Longrightarrow> in_scale (fr_survival_bp f)"
  unfolding falsifier_post_init_def guard_Inr bindR_Inr check_scores_Inr by auto

text \<open>Scoring never fails on what the constructors produce, and every component of the metrics
  is within 0..10000, the total within -10000..10000: the weighted sum of a configuration whose
  weights sum to 100 cannot leave the scale.\<close>

lemma path_score_bounds:
  assumes "path_ok p" and "verifier_post_init v0 = Inr v" and "falsifier_post_init f0 = Inr f"
    and "score_config_post_init H c0 = Inr c"
  shows "\<exists>m. score_reasoning_path H c p v f declared = Inr m \<and> mt_path_id m = pa_path_id p \<and>
    in_scale (mt_evidence_support_bp m) \<and> in_scale (mt_consistency_bp m) \<and> in_scale (mt_uncertainty_bp m) \<and>
    - SCORE_SCALE \<le> mt_total_score_bp m \<and> mt_total_score_bp m \<le> positive_score c p v f (mt_evidence_support_bp m) (mt_consistency_bp m) \<and>
    positive_score c p v f (mt_evidence_support_bp m) (mt_consistency_bp m) \<le> SCORE_SCALE"
proof -
  let ?cov = "evidence_coverage_bp p declared" and ?con = "consistency_score v" and ?u = "path_uncertainty_bp p (unresolved_assumptions p v)"
  note v = verifier_scales [OF assms(2)] and f = falsifier_scales [OF assms(3)] and c = score_config_post_init_ok [OF assms(4)]
  have scales: "in_scale ?cov" "in_scale ?con" "in_scale ?u"
    using evidence_coverage_scale consistency_scale path_uncertainty_scale [OF assms(1)] v by simp_all
  have pos: "in_scale (positive_score c p v f ?cov ?con)"
    using c assms(1) v f scales by (intro positive_score_bounds) simp_all
  have "0 \<le> sc_uncertainty_penalty c * ?u + sc_compute_penalty c * pa_estimated_cost_bp p"
    using c scales assms(1) by (intro add_nonneg_nonneg mult_nonneg_nonneg) (simp_all add: score_config_ok_def path_ok_def)
  then have pen: "0 \<le> (sc_uncertainty_penalty c * ?u + sc_compute_penalty c * pa_estimated_cost_bp p) div 100"
    by (simp add: pos_imp_zdiv_nonneg_iff)
  have p: "pa_path_id p \<noteq> []" "in_scale (pa_goal_relevance_bp p)" "in_scale (pa_diversity_bp p)" "in_scale (pa_risk_bp p)"
    "in_scale (pa_estimated_cost_bp p)" using assms(1) by (simp_all add: path_ok_def)
  show ?thesis
    unfolding score_reasoning_path_def Let_def
    using scales pos pen p v f
    by (auto simp: reasoning_metrics_post_init_def check_scores_def bounded_score_def)
qed

definition sample_path :: "string \<Rightarrow> string \<Rightarrow> reasoning_path" where
  "sample_path i text = \<lparr> pa_path_id = i, pa_perspective = ''direct'', pa_hypothesis_ids = [''h''],
     pa_steps = [\<lparr> st_step_id = ''s1'', st_claim = text, st_premises = [''problem''], st_evidence_ids = [''e''],
       st_inference = ''deductive'', st_confidence_bp = 8000, st_assumptions = [], st_falsifier = [], st_signature = [] \<rparr>],
     pa_conclusion = text, pa_provider_confidence_bp = 7000, pa_estimated_cost_bp = 1000, pa_goal_relevance_bp = 9000,
     pa_risk_bp = 500, pa_topology_node_ids = [], pa_topology_edge_ids = [], pa_structure_signature = [],
     pa_diversity_bp = 2000, pa_signature = [] \<rparr>"

definition sample_verifier :: "string \<Rightarrow> verifier_report" where
  "sample_verifier i = \<lparr> vr_report_id = ''v'' @ i, vr_path_id = i, vr_step_scores = [(''s1'', 9000)], vr_failures = [],
     vr_contradictions = [], vr_unsupported_nodes = [], vr_missing_assumptions = [], vr_premise_validity_bp = 10000,
     vr_evidence_support_bp = 9000, vr_inference_quality_bp = 9000, vr_consistency_bp = 10000,
     vr_completeness_bp = 9000, vr_weakest_step_bp = 9000, vr_score_bp = 9000, vr_verdict = ''ACCEPT'', vr_signature = [] \<rparr>"

definition sample_falsifier :: "string \<Rightarrow> falsifier_report" where
  "sample_falsifier i = \<lparr> fr_report_id = ''f'' @ i, fr_path_id = i, fr_searched_falsifiers = [], fr_counterexamples = [],
     fr_contradicted_step_ids = [], fr_unresolved_defeat_conditions = [], fr_unresolved_defeat_evidence_ids = [],
     fr_alternative_explanations = [], fr_boundary_cases = [], fr_reversed_causal_directions = [], fr_invalid_invariants = [],
     fr_evidence_reversal_conditions = [], fr_severity_bp = 0, fr_survival_bp = 8000, fr_residual_uncertainty_bp = 0,
     fr_verdict = ''SURVIVES'', fr_signature = [] \<rparr>"

lemma sample_score_inputs:
  "path_ok (sample_path i text)" if "i \<noteq> []"
  using that by (simp add: sample_path_def path_ok_def)

text \<open>The ranking depends on the candidates, not on the order they came in: permuting the paths
  and the reports does not change it, and its result is the given paths sorted by score, then
  verifier, falsifier, cost and identity.\<close>

lemma ranking_order_independent:
  assumes "mset ps' = mset ps" and "mset ms' = mset ms" and "mset vs' = mset vs" and "mset fs' = mset fs"
    and "distinct (map pa_path_id ps)" and "distinct (map mt_path_id ms)" and "distinct (map vr_path_id vs)"
    and "distinct (map fr_path_id fs)"
  shows "rank_reasoning_paths ps' ms' vs' fs' = rank_reasoning_paths ps ms vs fs \<and>
    (case rank_reasoning_paths ps ms vs fs of Inl e \<Rightarrow> e = KeyError ''path_id''
     | Inr out \<Rightarrow> mset out = mset ps \<and> sorted (map (\<lambda>p. the (rank_key ms vs fs p)) out))"
proof -
  have k: "rank_key ms' vs' fs' = rank_key ms vs fs"
    using by_path_mset [OF assms(2) [symmetric] assms(6)] by_path_mset [OF assms(3) [symmetric] assms(7)]
      by_path_mset [OF assms(4) [symmetric] assms(8)] by (simp add: rank_key_def fun_eq_iff)
  have l: "list_ex P ps' = list_ex P ps" for P using mset_eq_setD [OF assms(1)] by (simp add: list_ex_iff)
  have "rank_reasoning_paths ps' ms' vs' fs' = rank_reasoning_paths ps ms vs fs"
    using sort_key_unique [OF assms(1) [symmetric] rank_key_inj [OF assms(5)]]
    by (auto simp: rank_reasoning_paths_def k l)
  then show ?thesis by (simp add: rank_reasoning_paths_def)
qed

text \<open>The confidence cap is not monotone: where unresolved minor contradictions have already
  brought a confidence below 4999, one more contradiction, a critical one, lifts it to 4999,
  because the critical branch forgets the deductions.\<close>

lemma critical_contradiction_raises_cap:
  assumes "4999 \<le> confidence" and "confidence \<le> SCORE_SCALE" and "unresolved_critical rs = []"
    and "confidence - int (length (filter (\<lambda>r. cr_resolution_status r = ''UNRESOLVED'') rs)) * 500 < 4999"
    and "cr_resolution_status r = ''UNRESOLVED''" and "CRITICAL_CONTRADICTION_BP \<le> cr_severity_bp r"
  shows "cap_confidence_for_contradictions confidence rs < cap_confidence_for_contradictions confidence (r # rs)"
  using assms by (auto simp: cap_confidence_for_contradictions_def unresolved_critical_def)

text \<open>Structural similarity is symmetric and within 0..10000, and two paths of the same structure
  (strategy aside) are duplicates of each other under every configuration that can be built.\<close>

lemma similarity_laws:
  assumes "diversity_post_init H c0 = Inr c"
  shows "structural_similarity_bp c p q = structural_similarity_bp c q p \<and> in_scale (structural_similarity_bp c p q) \<and>
    (path_structure_material p = path_structure_material q \<longrightarrow> is_structural_duplicate c p [q])"
proof -
  have "structural_similarity_bp c p q = structural_similarity_bp c q p"
    unfolding structural_similarity_bp_def Let_def
    by (simp add: jaccard_commute eq_commute [of "sm_inference_modes (path_structure_material p)"])
  moreover have "in_scale (structural_similarity_bp c p q)" unfolding structural_similarity_bp_def Let_def by simp
  moreover have "is_structural_duplicate c p [q]" if "path_structure_material p = path_structure_material q"
    using similarity_self [OF diversity_post_init_ok [OF assms] that] diversity_post_init_ok [OF assms]
    by (simp add: is_structural_duplicate_def diversity_ok_def)
  ultimately show ?thesis by blast
qed

end
