(* ===== verification/LoopControl.thy ===== *)
theory LoopControl
  imports Oiec "HOL-Library.Product_Lexorder"
begin

text \<open>
  \<open>ourd/loop_control.py\<close>: the controller that decides after every autonomous step whether the
  agent may go on. It compares projections of the verified state before and after the step,
  allows a bounded number of steps that only change control state, and stops on a step without
  progress, on a return to a recent state and on a repeated pattern of tool calls. The lemmas
  bound the length of a run it allows.
\<close>

section \<open>Semantic identities\<close>

definition VOLATILE_KEYS :: "string list" where
  "VOLATILE_KEYS = [''action_id'', ''artifact_id'', ''call_id'', ''collision_id'', ''decision_id'', ''event_id'',
     ''evidence_ids'', ''reference_message_id'', ''run_id'', ''source_event_id'', ''transaction_id'']"

definition is_volatile :: "string \<Rightarrow> bool" where
  "is_volatile key \<longleftrightarrow> key \<in> set VOLATILE_KEYS \<or> ends_with key ''_id''"

text \<open>\<open>re.sub(r"\s+", " ", s)\<close>: each run of white space becomes one blank.\<close>

fun collapse_ws :: "bool \<Rightarrow> string \<Rightarrow> string" where
  "collapse_ws in_run [] = []"
| "collapse_ws in_run (c # cs) =
     (if is_space c then (if in_run then [] else '' '') @ collapse_ws True cs else c # collapse_ws False cs)"

definition semantic_text :: "digest \<Rightarrow> string \<Rightarrow> json" where
  "semantic_text H s = (let t = strip (collapse_ws False s) in
     if length t > 1024 then JObj [(''sha256'', JStr (H t)), (''length'', JInt (int (length t)))] else JStr t)"

fun semantic_value :: "digest \<Rightarrow> string \<Rightarrow> json \<Rightarrow> json" where
  "semantic_value H key (JObj kvs) = (if is_volatile key then JStr ''<identity>''
     else JObj (sort_key fst (map (\<lambda>kv. (fst kv, semantic_value H (fst kv) (snd kv))) kvs)))"
| "semantic_value H key (JList vs) = (if is_volatile key then JStr ''<identity>'' else JList (map (semantic_value H key) vs))"
| "semantic_value H key (JStr s) = (if is_volatile key then JStr ''<identity>'' else semantic_text H s)"
| "semantic_value H key v = (if is_volatile key then JStr ''<identity>'' else v)"

definition semantic_step_signature :: "digest \<Rightarrow> (string \<times> (string \<times> json) list) list \<Rightarrow> string" where
  "semantic_step_signature H calls = stable_hash H (JList (map (\<lambda>(name, arguments).
     JObj [(''name'', JStr name), (''args'', semantic_value H [] (JObj arguments))]) calls))"

section \<open>Atoms of the verified state\<close>

definition jset :: "string list \<Rightarrow> json" where
  "jset xs = jstrs (sorted_set xs)"

definition evidence_atom :: "digest \<Rightarrow> evidence_artifact \<Rightarrow> string" where
  "evidence_atom H e = stable_hash H (JObj [
     (''kind'', JStr (ev_kind e)), (''description'', JStr (ev_description e)), (''sha256'', JStr (ev_sha256 e)),
     (''source_snapshot_hash'', JStr (ev_source_snapshot_hash e)), (''path'', JStr (ev_path e)),
     (''command_capability'', JStr (ev_command_capability e)),
     (''success'', (case ev_success e of None \<Rightarrow> JNull | Some b \<Rightarrow> JBool b)),
     (''requirement_ids'', jset (ev_requirement_ids e)), (''quality_bp'', JInt (ev_quality_bp e)),
     (''polarity'', JStr (ev_polarity e))])"

definition collision_atom :: "digest \<Rightarrow> collision_record \<Rightarrow> string" where
  "collision_atom H c = stable_hash H (JObj [
     (''expected'', semantic_value H [] (JStr (co_expected c))), (''observed'', semantic_value H [] (JStr (co_observed c))),
     (''objects'', jset (co_objects c)), (''boundary'', JStr (co_boundary c)),
     (''active_dimension'', JStr (co_active_dimension c)), (''frozen_dimensions'', jset (co_frozen_dimensions c)),
     (''severity_bp'', JInt (co_severity_bp c))])"

definition stable_evidence_refs :: "digest \<Rightarrow> runtime_state \<Rightarrow> string list \<Rightarrow> string list" where
  "stable_evidence_refs H rs ids =
     sort (map (evidence_atom H) (List.map_filter (dict_get (rs_evidence_registry rs)) ids))"

definition governance_atom :: "digest \<Rightarrow> governance_record \<Rightarrow> string" where
  "governance_atom H g = ''governance:'' @ stable_hash H (JObj [
     (''goal'', JStr (gv_goal g)), (''constraints'', jset (gv_constraints g)), (''assumptions'', jset (gv_assumptions g)),
     (''uncertainties'', jset (gv_uncertainties g)), (''objects'', jset (gv_objects g)),
     (''relations'', jset (gv_relations g)), (''boundaries'', jset (gv_boundaries g)),
     (''excluded_scope'', jset (gv_excluded_scope g)), (''allowed_paths'', jset (gv_allowed_paths g)),
     (''dimensions'', jset (gv_dimensions g)), (''invariants'', jset (gv_invariants g)),
     (''authority_hash'', JStr (gv_authority_hash g))])"

definition action_atom :: "digest \<Rightarrow> eon_action \<Rightarrow> string" where
  "action_atom H a = ''action:'' @ stable_hash H (JObj [
     (''summary'', JStr (ac_summary a)), (''operation'', JStr (ac_operation a)), (''targets'', jset (ac_targets a)),
     (''preconditions'', jset (ac_preconditions a)), (''postconditions'', jset (ac_postconditions a)),
     (''preserve'', jset (ac_preserve a)), (''evidence'', jset (ac_evidence a)), (''model_risk'', JStr (ac_model_risk a)),
     (''effective_risk'', JStr (ac_effective_risk a)), (''authority_hash'', JStr (ac_authority_hash a)),
     (''source_snapshot_hash'', JStr (ac_source_snapshot_hash a)), (''candidate_hash'', JStr (ac_candidate_hash a)),
     (''command_capabilities'', jset (ac_command_capabilities a)), (''commands'', jstrs (ac_commands a)),
     (''required_tests'', jset (ac_required_tests a)), (''varied_dimensions'', jset (ac_varied_dimensions a)),
     (''use_limit'', JInt (ac_use_limit a))])"

definition gate_atom :: "digest \<Rightarrow> runtime_state \<Rightarrow> gate_decision \<Rightarrow> string" where
  "gate_atom H rs g = ''gate:'' @ stable_hash H (JObj [
     (''proposed_verdict'', JStr (gd_proposed_verdict g)), (''verdict'', JStr (gd_verdict g)),
     (''evidence_categories'', JObj (map (\<lambda>kv. (fst kv, jstrs (stable_evidence_refs H rs (snd kv))))
        (sort_key fst (gd_evidence_categories g)))),
     (''satisfied_requirements'', jset (gd_satisfied_requirements g)), (''uncovered'', jset (gd_uncovered g)),
     (''limits'', semantic_value H [] (JObj (gd_limits g))), (''reason'', JStr (gd_reason g))])"

definition transaction_rank :: "(string, int) dict" where
  "transaction_rank = [(''PREPARED'', 1), (''APPLIED'', 2), (''VERIFIED'', 3), (''FINALIZED'', 4), (''ROLLED_BACK'', 4),
     (''DISCARDED'', 4), (''FAILED'', 4)]"

definition transaction_atom :: "digest \<Rightarrow> runtime_state \<Rightarrow> transaction_record \<Rightarrow> string" where
  "transaction_atom H rs t = ''transaction:'' @ stable_hash H (JObj [
     (''operation'', JStr (tx_operation t)), (''targets'', jset (tx_targets t)),
     (''source_snapshot_hash'', JStr (tx_source_snapshot_hash t)), (''candidate_hash'', JStr (tx_candidate_hash t)),
     (''status'', JStr (tx_status t)), (''status_rank'', JInt (dict_getd transaction_rank (tx_status t) 0)),
     (''applied_snapshot_hash'', JStr (tx_applied_snapshot_hash t)),
     (''verification_evidence'', jstrs (stable_evidence_refs H rs (tx_verification_evidence_ids t)))])"

definition control_atoms :: "digest \<Rightarrow> runtime_state \<Rightarrow> string list" where
  "control_atoms H rs =
     (let ordered = sort_key (\<lambda>t. (tx_candidate_hash t, tx_operation t, sort (tx_targets t), tx_status t)) (map snd (rs_transactions rs))
      in sorted_set (
       (if gv_established (rs_governance rs) then [governance_atom H (rs_governance rs)] else []) @
       (case rs_pending_action rs of None \<Rightarrow> [] | Some a \<Rightarrow> [action_atom H a]) @
       (case rs_last_gate rs of None \<Rightarrow> [] | Some g \<Rightarrow> [gate_atom H rs g]) @
       map (transaction_atom H rs) ordered @
       (case rs_boundary_state rs of None \<Rightarrow> [] | Some b \<Rightarrow> [''boundary:'' @ bs_signature b]) @
       (case rs_dimension_budget rs of None \<Rightarrow> [] | Some d \<Rightarrow> [''dimensions:'' @ db_signature d]) @
       (if rs_changed_files rs \<noteq> [] then [''changed-files:'' @ stable_hash H (jset (rs_changed_files rs))] else [])))"

definition definition_atom :: "digest \<Rightarrow> hypothesis \<Rightarrow> string" where
  "definition_atom H h = stable_hash H (JObj [
     (''hypothesis_id'', JStr (oh_hypothesis_id h)), (''proposition'', JStr (oh_proposition h)),
     (''assumptions'', jstrs (oh_assumptions h)), (''predictions'', jstrs (oh_predictions h)),
     (''falsifiers'', jstrs (oh_falsifiers h)), (''verification_status'', JStr (oh_verification_status h))])"

definition link_atom :: "digest \<Rightarrow> hypothesis \<Rightarrow> evidence_link \<Rightarrow> string" where
  "link_atom H h l = stable_hash H (JObj [
     (''hypothesis_id'', JStr (oh_hypothesis_id h)), (''evidence_fingerprint'', JStr (hl_evidence_fingerprint l)),
     (''relation'', JStr (hl_relation l)), (''quality_bp'', JInt (hl_quality_bp l)),
     (''source_snapshot_hash'', JStr (hl_source_snapshot_hash l)),
     (''relation_epistemic_status'', JStr (hl_relation_epistemic_status l))])"

definition hypothesis_atoms :: "digest \<Rightarrow> runtime_state \<Rightarrow> string list \<times> string list" where
  "hypothesis_atoms H rs = (case rs_hypothesis_state rs of
     None \<Rightarrow> ([], [])
   | Some s \<Rightarrow> (sorted_set (map (definition_atom H) (os_hypotheses s)),
       sorted_set (concat (map (\<lambda>h. map (link_atom H h) (oh_evidence_links h)) (os_hypotheses s)))))"

record projection =
  vp_workspace_snapshot_hash :: string
  vp_evidence_atoms :: "string list"
  vp_collision_atoms :: "string list"
  vp_control_atoms :: "string list"
  vp_hypothesis_definition_atoms :: "string list"
  vp_hypothesis_evidence_atoms :: "string list"
  vp_active_evidence_atoms :: "string list"
  vp_boundary_uncertainty_bp :: int
  vp_signature :: string

definition projection_json :: "projection \<Rightarrow> json" where
  "projection_json p = JObj [
     (''workspace_snapshot_hash'', JStr (vp_workspace_snapshot_hash p)), (''evidence_atoms'', jstrs (vp_evidence_atoms p)),
     (''collision_atoms'', jstrs (vp_collision_atoms p)), (''control_atoms'', jstrs (vp_control_atoms p)),
     (''hypothesis_definition_atoms'', jstrs (vp_hypothesis_definition_atoms p)),
     (''hypothesis_evidence_atoms'', jstrs (vp_hypothesis_evidence_atoms p)),
     (''active_evidence_atoms'', jstrs (vp_active_evidence_atoms p)),
     (''boundary_uncertainty_bp'', JInt (vp_boundary_uncertainty_bp p))]"

definition verified_projection :: "digest \<Rightarrow> runtime_state \<Rightarrow> string \<Rightarrow> string list \<Rightarrow> projection" where
  "verified_projection H rs workspace_hash active_ids =
     (let (definitions, links) = hypothesis_atoms H rs;
          p = \<lparr> vp_workspace_snapshot_hash = workspace_hash,
                vp_evidence_atoms = sorted_set (map (evidence_atom H \<circ> snd) (rs_evidence_registry rs)),
                vp_collision_atoms = sorted_set (map (collision_atom H) (rs_collisions rs)),
                vp_control_atoms = control_atoms H rs, vp_hypothesis_definition_atoms = definitions,
                vp_hypothesis_evidence_atoms = links,
                vp_active_evidence_atoms = sorted_set (stable_evidence_refs H rs active_ids),
                vp_boundary_uncertainty_bp = (case rs_boundary_state rs of None \<Rightarrow> 0 | Some b \<Rightarrow> bs_boundary_uncertainty_bp b),
                vp_signature = [] \<rparr>
      in p\<lparr>vp_signature := stable_hash H (projection_json p)\<rparr>)"

section \<open>The controller\<close>

record assessment =
  ta_certificate :: progress_certificate
  ta_allowed :: bool
  ta_terminal_state :: string
  ta_reason :: string
  ta_cycle_kind :: string
  ta_period :: int
  ta_step_signature :: string
  ta_before_signature :: string
  ta_after_signature :: string
  ta_new_evidence_count :: int
  ta_new_collision_count :: int
  ta_new_control_count :: int
  ta_new_hypothesis_definition_count :: int
  ta_new_hypothesis_evidence_count :: int
  ta_control_only :: bool
  ta_control_only_streak :: int
  ta_max_control_only_progress :: int

record controller =
  lc_window :: nat
  lc_max_period :: nat
  lc_max_control :: int
  lc_streak :: int
  lc_steps :: "string list"
  lc_states :: "string list"
  lc_assessments :: "assessment list"

definition new_controller :: "int \<Rightarrow> int \<Rightarrow> int \<Rightarrow> int \<Rightarrow> controller" where
  "new_controller window max_period max_control streak =
     (let w = max 4 (min window 64) in
      \<lparr> lc_window = nat w, lc_max_period = nat (max 1 (min max_period (w div 2))),
        lc_max_control = max 0 (min max_control 16), lc_streak = max 0 streak,
        lc_steps = [], lc_states = [], lc_assessments = [] \<rparr>)"

text \<open>\<open>xs[-n:]\<close> for a positive \<open>n\<close>, and \<open>set(after) - set(before)\<close>.\<close>

definition last_n :: "nat \<Rightarrow> 'a list \<Rightarrow> 'a list" where
  "last_n n xs = drop (length xs - n) xs"

definition new_atoms :: "string list \<Rightarrow> string list \<Rightarrow> string list" where
  "new_atoms before after = remdups (filter (\<lambda>a. a \<notin> set before) after)"

text \<open>What a step changed.\<close>

record step_delta =
  sd_evidence :: int
  sd_collisions :: int
  sd_control :: int
  sd_definitions :: int
  sd_links :: int
  sd_boundary :: int

definition step_delta_of :: "projection \<Rightarrow> projection \<Rightarrow> step_delta" where
  "step_delta_of b a = \<lparr>
     sd_evidence = int (length (remdups (new_atoms (vp_evidence_atoms b) (vp_evidence_atoms a) @
        new_atoms (vp_active_evidence_atoms b) (vp_active_evidence_atoms a)))),
     sd_collisions = int (length (new_atoms (vp_collision_atoms b) (vp_collision_atoms a))),
     sd_control = int (length (new_atoms (vp_control_atoms b) (vp_control_atoms a))),
     sd_definitions = int (length (new_atoms (vp_hypothesis_definition_atoms b) (vp_hypothesis_definition_atoms a))),
     sd_links = int (length (new_atoms (vp_hypothesis_evidence_atoms b) (vp_hypothesis_evidence_atoms a))),
     sd_boundary = vp_boundary_uncertainty_bp b - vp_boundary_uncertainty_bp a \<rparr>"

definition epistemic :: "step_delta \<Rightarrow> bool" where
  "epistemic d \<longleftrightarrow> sd_evidence d \<noteq> 0 \<or> sd_collisions d \<noteq> 0 \<or> sd_boundary d \<ge> 100"

definition control_only :: "step_delta \<Rightarrow> bool" where
  "control_only d \<longleftrightarrow> (sd_control d \<noteq> 0 \<or> sd_definitions d \<noteq> 0 \<or> sd_links d \<noteq> 0) \<and> \<not> epistemic d"

definition base_certificate :: "digest \<Rightarrow> step_delta \<Rightarrow> bool \<Rightarrow> progress_certificate res" where
  "base_certificate H d terminal =
     certify_progress H (min SCORE_SCALE (sd_evidence d * 1000 + sd_collisions d * 500)) 0 0 0 (sd_boundary d) 0
       (sd_evidence d \<noteq> 0 \<or> sd_collisions d \<noteq> 0) False terminal"

definition next_streak :: "controller \<Rightarrow> step_delta \<Rightarrow> bool \<Rightarrow> int" where
  "next_streak c d terminal =
     (if terminal then 0 else if control_only d then lc_streak c + 1 else if epistemic d then 0 else lc_streak c)"

definition certificate_json :: "progress_certificate \<Rightarrow> json" where
  "certificate_json p = JObj [
     (''schema_version'', JInt (pc_schema_version p)), (''evidence_gain_bp'', JInt (pc_evidence_gain_bp p)),
     (''uncertainty_reduction_bp'', JInt (pc_uncertainty_reduction_bp p)),
     (''goal_improvement_bp'', JInt (pc_goal_improvement_bp p)),
     (''residual_risk_reduction_bp'', JInt (pc_residual_risk_reduction_bp p)),
     (''boundary_uncertainty_reduction_bp'', JInt (pc_boundary_uncertainty_reduction_bp p)),
     (''expected_information_gain_bp'', JInt (pc_expected_information_gain_bp p)),
     (''hypothesis_resolution_bp'', JInt (pc_hypothesis_resolution_bp p)),
     (''novel_evidence'', JBool (pc_novel_evidence p)), (''novel_experiment'', JBool (pc_novel_experiment p)),
     (''terminal'', JBool (pc_terminal p)), (''accepted'', JBool (pc_accepted p)), (''reasons'', jstrs (pc_reasons p))]"

text \<open>The certificate of the step: the base one, with the control-only budget applied, signed.\<close>

definition final_certificate ::
  "digest \<Rightarrow> controller \<Rightarrow> int \<Rightarrow> step_delta \<Rightarrow> projection \<Rightarrow> projection \<Rightarrow> string \<Rightarrow> progress_certificate \<Rightarrow> progress_certificate res" where
  "final_certificate H c streak d b a step base =
     (let resolution = min SCORE_SCALE (sd_links d * 1000);
          granted = control_only d \<and> streak \<le> lc_max_control c;
          reasons = sorted_set (pc_reasons base @ (if resolution > 0 then [''hypothesis_bookkeeping''] else []) @
            (if granted then [''bounded_control_progress''] else []));
          ok = (if control_only d then granted else pc_accepted base)
      in bindR (progress_post_init (base\<lparr>pc_hypothesis_resolution_bp := resolution, pc_accepted := ok,
             pc_reasons := reasons, pc_signature := []\<rparr>)) (\<lambda>p.
         progress_post_init (p\<lparr>pc_signature := stable_hash H (JObj [
           (''certificate'', certificate_json p), (''before'', JStr (vp_signature b)), (''after'', JStr (vp_signature a)),
           (''step'', JStr step), (''control_only_streak'', JInt streak),
           (''max_control_only_progress'', JInt (lc_max_control c))])\<rparr>)))"

text \<open>The last \<open>2 * n\<close> steps repeat a pattern of length \<open>n\<close>, and none of them found anything.\<close>

definition repeats :: "controller \<Rightarrow> step_delta \<Rightarrow> string \<Rightarrow> nat \<Rightarrow> bool" where
  "repeats c d step n =
     (let steps = last_n (lc_window c) (lc_steps c) @ [step];
          past = last_n (2 * n - 1) (last_n (lc_window c) (lc_assessments c))
      in 2 * n \<le> length steps \<and> last_n n steps = take n (last_n (2 * n) steps) \<and>
         sd_evidence d + sd_collisions d + sum_list (map (\<lambda>t. ta_new_evidence_count t + ta_new_collision_count t) past) = 0)"

datatype verdict = Final | ControlExhausted | NoProgress | StateCycle | Periodic nat | Continue

definition step_verdict ::
  "controller \<Rightarrow> int \<Rightarrow> step_delta \<Rightarrow> projection \<Rightarrow> projection \<Rightarrow> string \<Rightarrow> bool \<Rightarrow> progress_certificate \<Rightarrow> verdict" where
  "step_verdict c streak d b a step terminal certificate =
     (if terminal then Final
      else if control_only d \<and> streak > lc_max_control c then ControlExhausted
      else if \<not> pc_accepted certificate then NoProgress
      else if vp_signature a \<in> set (last_n (lc_window c) (lc_states c)) \<and> vp_signature a \<noteq> vp_signature b then StateCycle
      else case find (repeats c d step) [1..<lc_max_period c + 1] of Some n \<Rightarrow> Periodic n | None \<Rightarrow> Continue)"

text \<open>Allowed, cycle kind, period, terminal state and reason of each verdict.\<close>

fun describe :: "controller \<Rightarrow> int \<Rightarrow> verdict \<Rightarrow> bool \<times> string \<times> int \<times> string \<times> string" where
  "describe c streak Final = (True, [], 0, ''SOLUTION_OR_MODEL_FINAL'',
     ''terminal response recorded; model output remains unverified unless evidence supports it'')"
| "describe c streak ControlExhausted = (False, ''CONTROL_ONLY_BUDGET_EXHAUSTED'', 0, ''CYCLE_STOP'',
     ''control-only progress streak '' @ int_str streak @ '' exceeded bounded allowance '' @ int_str (lc_max_control c) @
     ''; new verified evidence is required'')"
| "describe c streak NoProgress = (False, ''NO_VERIFIED_PROGRESS'', 0, ''CYCLE_STOP'',
     ''nonterminal autonomous step produced no verified epistemic or bounded control progress'')"
| "describe c streak StateCycle = (False, ''VERIFIED_STATE_CYCLE'', 0, ''CYCLE_STOP'',
     ''verified system state returned to a previously observed state'')"
| "describe c streak (Periodic n) = (False, ''SEMANTIC_PERIODIC_CYCLE'', int n, ''CYCLE_STOP'',
     ''semantic tool/action pattern repeated without new positive verified epistemic evidence'')"
| "describe c streak Continue = (True, [], 0, ''CONTINUE'', ''verified progress accepted'')"

definition remember :: "string \<Rightarrow> string \<Rightarrow> assessment \<Rightarrow> controller \<Rightarrow> controller" where
  "remember step state t c = c\<lparr>
     lc_steps := last_n (lc_window c) (lc_steps c @ [step]),
     lc_states := last_n (lc_window c) (lc_states c @ [state]),
     lc_assessments := last_n (lc_window c) (lc_assessments c @ [t])\<rparr>"

definition assess :: "digest \<Rightarrow> controller \<Rightarrow> projection \<Rightarrow> projection \<Rightarrow> string \<Rightarrow> bool \<Rightarrow> (controller \<times> assessment) res" where
  "assess H c b a step terminal =
     (let d = step_delta_of b a; streak = next_streak c d terminal in
      bindR (base_certificate H d terminal) (\<lambda>base.
      bindR (final_certificate H c streak d b a step base) (\<lambda>certificate.
        let (allowed, kind, period, terminal_state, reason) =
              describe c streak (step_verdict c streak d b a step terminal certificate);
            t = \<lparr> ta_certificate = certificate, ta_allowed = allowed, ta_terminal_state = terminal_state,
                  ta_reason = reason, ta_cycle_kind = kind, ta_period = period, ta_step_signature = step,
                  ta_before_signature = vp_signature b, ta_after_signature = vp_signature a,
                  ta_new_evidence_count = sd_evidence d, ta_new_collision_count = sd_collisions d,
                  ta_new_control_count = sd_control d, ta_new_hypothesis_definition_count = sd_definitions d,
                  ta_new_hypothesis_evidence_count = sd_links d, ta_control_only = control_only d,
                  ta_control_only_streak = streak, ta_max_control_only_progress = lc_max_control c \<rparr>
        in Inr (remember step (vp_signature a) t (c\<lparr>lc_streak := streak\<rparr>), t))))"

definition exhaust_budget :: "digest \<Rightarrow> controller \<Rightarrow> projection \<Rightarrow> string \<Rightarrow> int \<Rightarrow> (controller \<times> assessment) res" where
  "exhaust_budget H c p step maximum_steps =
     bindR (assess H c p p step False) (\<lambda>(c', t).
       let stopped = t\<lparr>ta_allowed := False, ta_terminal_state := ''CYCLE_STOP'',
             ta_reason := ''bounded autonomous step budget exhausted after '' @ int_str maximum_steps @
               '' steps; synthesize the verified observations without further tool use'',
             ta_cycle_kind := ''COMPUTE_BUDGET_EXHAUSTED'', ta_period := 0\<rparr>
       in Inr (c'\<lparr>lc_assessments := (lc_assessments c')[length (lc_assessments c') - 1 := stopped]\<rparr>, stopped))"

definition model_belief_record :: "digest \<Rightarrow> int \<Rightarrow> string \<Rightarrow> (string \<times> (string \<times> json) list) list \<Rightarrow> json" where
  "model_belief_record H step output_text calls = JObj [
     (''step'', JInt step), (''epistemic_status'', JStr ''UNVERIFIED_MODEL_BELIEF''),
     (''output_text_sha256'', JStr (H output_text)), (''output_text_length'', JInt (int (length output_text))),
     (''proposed_tool_names'', jstrs (map fst calls)),
     (''semantic_step_signature'', JStr (semantic_step_signature H calls)),
     (''note'', JStr ''model prose, confidence, assumptions, hypotheses and tool proposals are not verified system facts'')]"

section \<open>What an allowed step did\<close>

lemma new_atoms_empty: "new_atoms b a = [] \<longleftrightarrow> set a \<subseteq> set b"
  by (auto simp: new_atoms_def filter_empty_conv)

lemma new_atoms_set [simp]: "set (new_atoms b a) = set a - set b"
  by (auto simp: new_atoms_def)

lemma new_atoms_card: "length (new_atoms b a) = card (set a - set b)"
  by (metis distinct_card distinct_remdups new_atoms_def new_atoms_set)

lemma step_delta_nonneg [simp]: "0 \<le> sd_evidence (step_delta_of b a)" "0 \<le> sd_collisions (step_delta_of b a)"
  "0 \<le> sd_links (step_delta_of b a)"
  by (simp_all add: step_delta_of_def)

lemma base_certificate_accepted:
  assumes "base_certificate H (step_delta_of b a) False = Inr p" "pc_accepted p"
  shows "epistemic (step_delta_of b a)"
  using yieldsD [OF certify_progress_cases assms(1) [unfolded base_certificate_def]] assms(2)
  by (auto simp: epistemic_def)

lemma final_certificate_accepted:
  assumes "final_certificate H c streak d b a step base = Inr p"
  shows "pc_accepted p \<longleftrightarrow> (if control_only d then streak \<le> lc_max_control c else pc_accepted base)"
  using assms yieldsD [OF progress_post_init_fields] unfolding final_certificate_def Let_def
  by (auto simp: bindR_Inr)

lemma describe_allowed: "fst (describe c streak v) \<longleftrightarrow> v = Final \<or> v = Continue"
  by (cases v) simp_all

lemma step_verdict_allowed:
  "fst (describe c streak (step_verdict c streak d b a step False p)) \<Longrightarrow>
     \<not> (control_only d \<and> streak > lc_max_control c) \<and> pc_accepted p \<and>
     \<not> (vp_signature a \<in> set (last_n (lc_window c) (lc_states c)) \<and> vp_signature a \<noteq> vp_signature b) \<and>
     (\<forall>n. 1 \<le> n \<and> n \<le> lc_max_period c \<longrightarrow> \<not> repeats c d step n)"
  by (auto simp: describe_allowed step_verdict_def find_None_iff split: if_splits option.splits)

lemma remember_simps [simp]: "lc_streak (remember s x t c) = lc_streak c" "lc_max_control (remember s x t c) = lc_max_control c"
  "lc_window (remember s x t c) = lc_window c" "lc_max_period (remember s x t c) = lc_max_period c"
  by (simp_all add: remember_def)

lemma assess_cases:
  fixes b a defines "d \<equiv> step_delta_of b a"
  assumes "assess H c b a step terminal = Inr (c', t)"
  shows "\<exists>base p. base_certificate H d terminal = Inr base \<and>
    final_certificate H c (next_streak c d terminal) d b a step base = Inr p \<and>
    ta_allowed t = fst (describe c (next_streak c d terminal) (step_verdict c (next_streak c d terminal) d b a step terminal p)) \<and>
    c' = remember step (vp_signature a) t (c\<lparr>lc_streak := next_streak c d terminal\<rparr>) \<and>
    ta_new_evidence_count t = sd_evidence d \<and> ta_new_collision_count t = sd_collisions d"
proof -
  obtain base p where "base_certificate H d terminal = Inr base"
    and p: "final_certificate H c (next_streak c d terminal) d b a step base = Inr p"
    using assms(2) unfolding assess_def Let_def d_def by (auto simp: bindR_Inr)
  moreover obtain allowed kind period state reason
    where "describe c (next_streak c d terminal) (step_verdict c (next_streak c d terminal) d b a step terminal p) =
      (allowed, kind, period, state, reason)"
    by (cases "describe c (next_streak c d terminal) (step_verdict c (next_streak c d terminal) d b a step terminal p)")
  ultimately show ?thesis
    using assms(2) unfolding assess_def Let_def d_def by (simp, elim conjE) (simp add: eq_commute)
qed

lemma assess_allowed:
  assumes "assess H c b a step False = Inr (c', t)" "ta_allowed t"
  shows "lc_max_control c' = lc_max_control c \<and> lc_streak c' = next_streak c (step_delta_of b a) False \<and>
    ((control_only (step_delta_of b a) \<and> lc_streak c' \<le> lc_max_control c) \<or> epistemic (step_delta_of b a))"
proof -
  let ?d = "step_delta_of b a" and ?s = "next_streak c (step_delta_of b a) False"
  obtain base p where base: "base_certificate H ?d False = Inr base" and p: "final_certificate H c ?s ?d b a step base = Inr p"
    and t: "ta_allowed t = fst (describe c ?s (step_verdict c ?s ?d b a step False p))"
    and c': "c' = remember step (vp_signature a) t (c\<lparr>lc_streak := ?s\<rparr>)"
    using assess_cases [OF assms(1)] by metis
  have "pc_accepted p" using step_verdict_allowed assms(2) t by blast
  then show ?thesis
    using final_certificate_accepted [OF p] base_certificate_accepted [OF base] c' by (auto split: if_splits)
qed

section \<open>Runs\<close>

text \<open>
  A run is a sequence of non-terminal steps the controller allowed, each with the projections
  taken before and after it (the next \<open>before\<close> is taken afresh, as the agent does).
\<close>

type_synonym run_step = "projection \<times> string \<times> projection"

inductive allowed_run :: "digest \<Rightarrow> controller \<Rightarrow> run_step list \<Rightarrow> controller \<Rightarrow> bool" for H c where
  start: "allowed_run H c [] c"
| step: "allowed_run H c steps c' \<Longrightarrow> assess H c' b a s False = Inr (c'', t) \<Longrightarrow> ta_allowed t \<Longrightarrow>
    allowed_run H c (steps @ [(b, s, a)]) c''"

definition points :: "run_step list \<Rightarrow> projection list" where
  "points steps = concat (map (\<lambda>(b, s, a). [b, a]) steps)"

text \<open>Verified knowledge only grows: atoms stay, and the boundary uncertainty does not rise.\<close>

definition accumulates :: "projection \<Rightarrow> projection \<Rightarrow> bool" where
  "accumulates b a \<longleftrightarrow> set (vp_evidence_atoms b) \<subseteq> set (vp_evidence_atoms a) \<and>
     set (vp_active_evidence_atoms b) \<subseteq> set (vp_active_evidence_atoms a) \<and>
     set (vp_collision_atoms b) \<subseteq> set (vp_collision_atoms a) \<and>
     vp_boundary_uncertainty_bp a \<le> vp_boundary_uncertainty_bp b"

text \<open>What has been learnt, in hundredths: an atom counts 100, a point of boundary uncertainty removed counts 1.\<close>

definition knowledge :: "projection \<Rightarrow> int" where
  "knowledge p = 100 * int (card (set (vp_evidence_atoms p)) + card (set (vp_active_evidence_atoms p)) +
     card (set (vp_collision_atoms p))) - vp_boundary_uncertainty_bp p"

lemma card_new: "set b \<subseteq> set a \<Longrightarrow> card (set a) = card (set b) + length (new_atoms b a)"
  using card_mono [of "set a" "set b"] by (simp add: new_atoms_card card_Diff_subset)

lemma knowledge_step:
  assumes "accumulates b a"
  shows "knowledge a = knowledge b + 100 * int (length (new_atoms (vp_evidence_atoms b) (vp_evidence_atoms a)) +
    length (new_atoms (vp_active_evidence_atoms b) (vp_active_evidence_atoms a)) +
    length (new_atoms (vp_collision_atoms b) (vp_collision_atoms a))) + sd_boundary (step_delta_of b a)"
  using assms card_new [of "vp_evidence_atoms b" "vp_evidence_atoms a"]
    card_new [of "vp_active_evidence_atoms b" "vp_active_evidence_atoms a"]
    card_new [of "vp_collision_atoms b" "vp_collision_atoms a"]
  by (simp add: accumulates_def knowledge_def step_delta_of_def)

lemma accumulates_boundary: "accumulates b a \<Longrightarrow> 0 \<le> sd_boundary (step_delta_of b a)"
  by (simp add: accumulates_def step_delta_of_def)

lemma knowledge_mono: "accumulates b a \<Longrightarrow> knowledge b \<le> knowledge a"
  using accumulates_boundary [of b a] by (simp add: knowledge_step)

lemma epistemic_learns:
  assumes "accumulates b a" "epistemic (step_delta_of b a)"
  shows "knowledge b + 100 \<le> knowledge a"
proof -
  let ?e = "new_atoms (vp_evidence_atoms b) (vp_evidence_atoms a)"
  let ?x = "new_atoms (vp_active_evidence_atoms b) (vp_active_evidence_atoms a)"
  let ?c = "new_atoms (vp_collision_atoms b) (vp_collision_atoms a)"
  have "sd_evidence (step_delta_of b a) \<noteq> 0 \<longleftrightarrow> ?e \<noteq> [] \<or> ?x \<noteq> []" "sd_collisions (step_delta_of b a) \<noteq> 0 \<longleftrightarrow> ?c \<noteq> []"
    by (simp_all add: step_delta_of_def)
  moreover obtain n where n: "n = int (length ?e + length ?x + length ?c)" "0 \<le> n" by simp
  ultimately have "1 \<le> n \<or> 100 \<le> sd_boundary (step_delta_of b a)"
    using assms(2) by (cases ?e; cases ?x; cases ?c) (auto simp: epistemic_def)
  moreover have "knowledge a = knowledge b + 100 * n + sd_boundary (step_delta_of b a)"
    using knowledge_step [OF assms(1)] n(1) by simp
  ultimately show ?thesis using accumulates_boundary [OF assms(1)] n(2) by linarith
qed

lemma points_simps [simp]: "points [] = []" "points (steps @ [(b, s, a)]) = points steps @ [b, a]"
  by (simp_all add: points_def)

lemma allowed_run_budget:
  assumes "allowed_run H c steps c'" "sorted_wrt accumulates (p # points steps)" "0 \<le> lc_max_control c" "0 \<le> lc_streak c"
  shows "lc_max_control c' = lc_max_control c \<and> 0 \<le> lc_streak c' \<and>
    100 * int (length steps) \<le> (lc_max_control c + 1) * (knowledge (last (p # points steps)) - knowledge p) +
      100 * min (lc_streak c') (lc_max_control c)"
  using assms
proof (induction rule: allowed_run.induct)
  case start
  then show ?case by simp
next
  case (step steps c' b a s c'' t)
  let ?m = "lc_max_control c" and ?q = "last (p # points steps)" and ?d = "step_delta_of b a"
  have mono: "sorted_wrt accumulates (p # points steps)" "accumulates b a" "accumulates ?q b"
    using step.prems(1) by (auto simp: sorted_wrt_append)
  note IH = step.IH [OF mono(1) step.prems(2,3)]
  note now = assess_allowed [OF step.hyps(2,3)]
  have grow: "knowledge ?q \<le> knowledge b" "knowledge b \<le> knowledge a" using mono knowledge_mono by auto
  have scaled: "(?m + 1) * (knowledge ?q - knowledge p) \<le> (?m + 1) * (knowledge a - knowledge p)"
    using step.prems(2) grow by (intro mult_left_mono) auto
  have "100 * int (length (steps @ [(b, s, a)])) \<le> (?m + 1) * (knowledge a - knowledge p) + 100 * min (lc_streak c'') ?m"
  proof (cases "epistemic ?d")
    case True
    have "(?m + 1) * (knowledge ?q + 100 - knowledge p) \<le> (?m + 1) * (knowledge a - knowledge p)"
      using step.prems(2) grow epistemic_learns [OF mono(2) True] by (intro mult_left_mono) auto
    moreover have "lc_streak c'' = 0" using now True by (simp add: next_streak_def control_only_def)
    moreover have "(?m + 1) * (knowledge ?q + 100 - knowledge p) = (?m + 1) * (knowledge ?q - knowledge p) + 100 * ?m + 100"
      by (simp add: algebra_simps)
    moreover have "min (lc_streak c') ?m \<le> ?m" by simp
    ultimately have "100 * int (length steps) + 100 \<le> (?m + 1) * (knowledge a - knowledge p)" using IH by linarith
    then show ?thesis using \<open>lc_streak c'' = 0\<close> step.prems(2) by simp
  next
    case False
    then have "lc_streak c'' = lc_streak c' + 1" "lc_streak c'' \<le> ?m" using now IH by (auto simp: next_streak_def)
    moreover from this have "min (lc_streak c') ?m = lc_streak c'" "min (lc_streak c'') ?m = lc_streak c''" by simp_all
    ultimately have "100 * int (length steps) + 100 \<le> (?m + 1) * (knowledge a - knowledge p) + 100 * min (lc_streak c'') ?m"
      using IH scaled by linarith
    then show ?thesis by simp
  qed
  moreover have "0 \<le> lc_streak c''" using now IH by (simp add: next_streak_def)
  ultimately show ?case using now IH by simp
qed

subsection \<open>What the controller remembers\<close>

fun before_of :: "run_step \<Rightarrow> projection" where "before_of (b, s, a) = b"
fun call_of :: "run_step \<Rightarrow> string" where "call_of (b, s, a) = s"
fun after_of :: "run_step \<Rightarrow> projection" where "after_of (b, s, a) = a"

fun found :: "run_step \<Rightarrow> int" where
  "found (b, s, a) = sd_evidence (step_delta_of b a) + sd_collisions (step_delta_of b a)"

lemma last_n_snoc: "last_n n (last_n n xs @ [x]) = last_n n (xs @ [x])"
  by (cases "n \<le> length xs") (simp_all add: last_n_def Suc_diff_le)

lemma last_n_all: "length xs \<le> n \<Longrightarrow> last_n n xs = xs"
  by (simp add: last_n_def)

lemma last_n_map: "last_n n (map f xs) = map f (last_n n xs)"
  by (simp add: last_n_def drop_map)

lemma last_n_length [simp]: "length (last_n n xs) = min n (length xs)"
  by (simp add: last_n_def)

lemma last_n_nth: "k < min n (length xs) \<Longrightarrow> last_n n xs ! k = xs ! (length xs - min n (length xs) + k)"
  by (auto simp: last_n_def min_def)

lemma new_controller_simps [simp]:
  "lc_steps (new_controller w p m s) = []" "lc_states (new_controller w p m s) = []"
  "lc_assessments (new_controller w p m s) = []" "0 \<le> lc_max_control (new_controller w p m s)"
  "lc_max_control (new_controller w p m s) \<le> 16" "0 \<le> lc_streak (new_controller w p m s)"
  "2 * lc_max_period (new_controller w p m s) \<le> lc_window (new_controller w p m s)"
  by (auto simp: new_controller_def Let_def)

lemma assess_memory:
  assumes "assess H c b a s terminal = Inr (c', t)"
  shows "lc_window c' = lc_window c" "lc_max_period c' = lc_max_period c"
    "lc_steps c' = last_n (lc_window c) (lc_steps c @ [s])"
    "lc_states c' = last_n (lc_window c) (lc_states c @ [vp_signature a])"
    "lc_assessments c' = last_n (lc_window c) (lc_assessments c @ [t])"
    "ta_new_evidence_count t + ta_new_collision_count t = found (b, s, a)"
  using assess_cases [OF assms] by (auto simp: remember_def)

lemma run_memory:
  assumes "allowed_run H c steps c'" "lc_steps c = []" "lc_states c = []" "lc_assessments c = []"
  shows "lc_window c' = lc_window c \<and> lc_max_period c' = lc_max_period c \<and>
    lc_steps c' = last_n (lc_window c) (map call_of steps) \<and>
    lc_states c' = last_n (lc_window c) (map (vp_signature \<circ> after_of) steps) \<and>
    map (\<lambda>t. ta_new_evidence_count t + ta_new_collision_count t) (lc_assessments c') = last_n (lc_window c) (map found steps)"
  using assms
proof (induction rule: allowed_run.induct)
  case start
  then show ?case by (simp add: last_n_def)
next
  case (step steps c' b a s c'' t)
  note IH = step.IH [OF step.prems]
  show ?case
    using IH assess_memory [OF step.hyps(2)]
    by (simp add: last_n_snoc last_n_map [symmetric])
qed

lemma run_at:
  "allowed_run H c steps c' \<Longrightarrow> j < length steps \<Longrightarrow>
     \<exists>cj cj' t. allowed_run H c (take j steps) cj \<and> ta_allowed t \<and>
       assess H cj (before_of (steps ! j)) (after_of (steps ! j)) (call_of (steps ! j)) False = Inr (cj', t)"
proof (induction rule: allowed_run.induct)
  case (step steps c' b a s c'' t)
  then show ?case by (cases "j < length steps") (auto simp: nth_append less_Suc_eq)
qed simp

lemma allowed_verdict:
  assumes "assess H c b a s False = Inr (c', t)" "ta_allowed t"
  shows "\<not> (vp_signature a \<in> set (last_n (lc_window c) (lc_states c)) \<and> vp_signature a \<noteq> vp_signature b)"
    and "1 \<le> n \<Longrightarrow> n \<le> lc_max_period c \<Longrightarrow> \<not> repeats c (step_delta_of b a) s n"
  using assess_cases [OF assms(1)] step_verdict_allowed assms(2) by metis+

section \<open>Properties\<close>

text \<open>C18. An autonomous run ends. While verified knowledge only grows (evidence, active evidence and
  collision atoms are kept and the boundary uncertainty does not rise), the number of steps the
  controller allows is bounded by what was learnt: each allowed step brings a new atom, takes at least
  100 points off the boundary uncertainty, or spends one of at most 16 control-only steps, which only
  such learning gives back.\<close>

theorem allowed_run_bounded:
  assumes "allowed_run H (new_controller window max_period max_control streak) steps c"
    and "sorted_wrt accumulates (points steps)" and "steps \<noteq> []"
  shows "100 * int (length steps) \<le>
      (lc_max_control c + 1) * (knowledge (last (points steps)) - knowledge (hd (points steps))) + 100 * lc_max_control c \<and>
    lc_max_control c \<le> 16"
proof -
  let ?c = "new_controller window max_period max_control streak" and ?p = "hd (points steps)"
  have some: "points steps \<noteq> []" using assms(3) by (cases steps) (auto simp: points_def)
  have refl: "accumulates p p" for p by (simp add: accumulates_def)
  have "\<forall>q \<in> set (points steps). accumulates ?p q"
    using assms(2) some refl by (cases "points steps") auto
  then have "sorted_wrt accumulates (?p # points steps)" using assms(2) by simp
  from allowed_run_budget [OF assms(1) this] have budget: "lc_max_control c = lc_max_control ?c"
    "100 * int (length steps) \<le> (lc_max_control ?c + 1) * (knowledge (last (?p # points steps)) - knowledge ?p) +
      100 * min (lc_streak c) (lc_max_control ?c)"
    by simp_all
  have "min (lc_streak c) (lc_max_control ?c) \<le> lc_max_control ?c" by simp
  moreover have "last (?p # points steps) = last (points steps)" using some by simp
  ultimately have "100 * int (length steps) \<le>
      (lc_max_control ?c + 1) * (knowledge (last (points steps)) - knowledge ?p) + 100 * lc_max_control ?c"
    using budget(2) by simp
  then show ?thesis using budget(1) by simp
qed

lemma recent_in_window:
  assumes "i < j" "j \<le> i + w" "j \<le> length xs"
  shows "f (xs ! i) \<in> set (last_n w (last_n w (map f (take j xs))))"
proof -
  have "last_n w (last_n w ys) = last_n w ys" for ys :: "'b list" by (simp add: last_n_def)
  moreover have "f (xs ! i) \<in> set (last_n w (map f (take j xs)))"
  proof -
    have "last_n w (map f (take j xs)) ! (i - (j - min w j)) = f (xs ! i)"
      using assms by (subst last_n_nth) (auto simp: min_def)
    moreover have "i - (j - min w j) < length (last_n w (map f (take j xs)))" using assms by (auto simp: min_def)
    ultimately show ?thesis by (metis nth_mem)
  qed
  ultimately show ?thesis by simp
qed

lemma window_nth:
  assumes "m \<le> min w j" "j < length xs"
  shows "(last_n w (map f (take j xs)) @ [f (xs ! j)]) ! (min w j - m) = f (xs ! (j - m))"
proof (cases m)
  case 0
  then show ?thesis using assms(2) by (simp add: nth_append)
next
  case (Suc k)
  then have "j - Suc k < j" "Suc k \<le> min w j" using assms by auto
  then show ?thesis using Suc assms(2) by (simp add: nth_append last_n_nth) (auto simp: min_def split: if_splits)
qed

lemma last_n_idem: "last_n w (last_n w ys) = last_n w ys"
  by (simp add: last_n_def)

lemma repeats_pattern:
  assumes "2 * n \<le> w" "2 * n \<le> j + 1" "1 \<le> n" "j < length xs"
    and pattern: "\<And>k. k < n \<Longrightarrow> f (xs ! (j - k)) = f (xs ! (j - k - n))"
  defines "window \<equiv> last_n w (map f (take j xs)) @ [f (xs ! j)]"
  shows "last_n n window = take n (last_n (2 * n) window)"
proof (rule nth_equalityI)
  let ?l = "min w j"
  have len: "length window = ?l + 1" and fit: "2 * n \<le> ?l + 1" using assms(1-4) by (auto simp: window_def)
  show "length (last_n n window) = length (take n (last_n (2 * n) window))" using fit len by simp
  fix k assume "k < length (last_n n window)"
  then have k: "k < n" by simp
  have "last_n n window ! k = window ! (?l - (n - 1 - k))"
    using k fit len by (subst last_n_nth) (auto intro: arg_cong [where f = "(!) window"])
  also have "\<dots> = f (xs ! (j - (n - 1 - k)))" unfolding window_def using fit assms(4) by (intro window_nth) auto
  also have "\<dots> = f (xs ! (j - (n - 1 - k) - n))" using k by (intro pattern) auto
  also have "j - (n - 1 - k) - n = j - (2 * n - 1 - k)" using k by simp
  also have "f (xs ! (j - (2 * n - 1 - k))) = window ! (?l - (2 * n - 1 - k))"
    unfolding window_def using fit assms(4) by (intro window_nth [symmetric]) auto
  also have "\<dots> = take n (last_n (2 * n) window) ! k"
    using k fit len by (auto simp: last_n_nth intro: arg_cong [where f = "(!) window"])
  finally show "last_n n window ! k = take n (last_n (2 * n) window) ! k" .
qed

lemma quiet_window:
  assumes "\<And>k. 1 \<le> k \<Longrightarrow> k < m \<Longrightarrow> k \<le> j \<Longrightarrow> f (xs ! (j - k)) = (0 :: int)" "j < length xs"
  shows "sum_list (last_n (m - 1) (last_n w (map f (take j xs)))) = 0"
proof -
  let ?ys = "last_n w (map f (take j xs))"
  have "x = 0" if x: "x \<in> set (last_n (m - 1) ?ys)" for x
  proof -
    let ?l = "min w j" and ?r = "min (m - 1) (min w j)"
    have len: "length ?ys = ?l" using assms(2) by simp
    obtain k where k: "k < ?r" "x = last_n (m - 1) ?ys ! k"
      using x len by (metis in_set_conv_nth last_n_length)
    have "k \<le> r \<Longrightarrow> r \<le> l \<Longrightarrow> l - r + k = l - (r - k)" for l r :: nat by simp
    from this [of ?r ?l] have index: "?l - ?r + k = ?l - (?r - k)" using k(1) by (simp only: less_imp_le min.cobounded2)
    have "k < min (m - 1) (length ?ys)" using k(1) by (simp only: len)
    from last_n_nth [OF this] have "x = ?ys ! (?l - (?r - k))" by (simp only: k(2) len index)
    also have "k < r \<Longrightarrow> r \<le> l \<Longrightarrow> l - (r - k) < l" for l r :: nat by simp
    from this [of ?r ?l] have "?l - (?r - k) < length ?ys" using k(1) by (simp only: len min.cobounded2)
    then have "?ys ! (?l - (?r - k)) = (?ys @ [f (xs ! j)]) ! (?l - (?r - k))" by (simp only: nth_append if_True)
    also have "\<dots> = f (xs ! (j - (?r - k)))" using k(1) assms(2) by (intro window_nth) auto
    also have "\<dots> = 0" using k(1) by (intro assms(1)) auto
    finally show ?thesis .
  qed
  then have "last_n (m - 1) ?ys = map (\<lambda>_. 0) (last_n (m - 1) ?ys)" by (simp add: map_idI)
  then show ?thesis by (metis sum_list_0)
qed

text \<open>C19. A run the controller allows does not cycle. A step that changes the verified state never
  leads back to a state that one of the last \<open>window\<close> steps led to. And a pattern of tool calls of at
  most \<open>max_period\<close> steps is never repeated unless one of the repeating steps found new evidence or a
  new collision.\<close>

theorem allowed_run_acyclic:
  assumes "allowed_run H (new_controller window max_period max_control streak) steps c" and "j < length steps"
  shows "(\<forall>i < j. j \<le> i + lc_window c \<longrightarrow> vp_signature (after_of (steps ! i)) = vp_signature (after_of (steps ! j)) \<longrightarrow>
      vp_signature (before_of (steps ! j)) = vp_signature (after_of (steps ! j))) \<and>
    (\<forall>n. 1 \<le> n \<longrightarrow> n \<le> lc_max_period c \<longrightarrow> 2 * n \<le> j + 1 \<longrightarrow>
      (\<forall>k < n. call_of (steps ! (j - k)) = call_of (steps ! (j - k - n))) \<longrightarrow>
      (\<exists>k < 2 * n. found (steps ! (j - k)) \<noteq> 0))"
proof -
  let ?c = "new_controller window max_period max_control streak"
  note memory = run_memory [of H ?c, OF _ new_controller_simps(1-3)]
  obtain cj cj' t where prefix: "allowed_run H ?c (take j steps) cj" and t: "ta_allowed t" and
    now: "assess H cj (before_of (steps ! j)) (after_of (steps ! j)) (call_of (steps ! j)) False = Inr (cj', t)"
    using run_at [OF assms] by metis
  have limits: "lc_window c = lc_window ?c" "lc_max_period c = lc_max_period ?c" using memory [OF assms(1)] by simp_all
  note mem = memory [OF prefix]
  have "vp_signature (before_of (steps ! j)) = vp_signature (after_of (steps ! j))"
    if "i < j" "j \<le> i + lc_window c" "vp_signature (after_of (steps ! i)) = vp_signature (after_of (steps ! j))" for i
    using allowed_verdict(1) [OF now t] recent_in_window [OF that(1), of "lc_window ?c" steps "vp_signature \<circ> after_of"]
      that assms(2) mem limits by auto
  moreover have "\<exists>k < 2 * n. found (steps ! (j - k)) \<noteq> 0"
    if n: "1 \<le> n" "n \<le> lc_max_period c" "2 * n \<le> j + 1" and
      pattern: "\<forall>k < n. call_of (steps ! (j - k)) = call_of (steps ! (j - k - n))" for n
  proof (rule ccontr)
    assume "\<not> (\<exists>k < 2 * n. found (steps ! (j - k)) \<noteq> 0)"
    then have quiet: "found (steps ! (j - k)) = 0" if "k < 2 * n" for k using that by blast
    let ?w = "lc_window ?c"
    let ?d = "step_delta_of (before_of (steps ! j)) (after_of (steps ! j))"
    have fits: "2 * n \<le> ?w" using n(2) new_controller_simps(7) [of window max_period max_control streak] limits by linarith
    have "sd_evidence ?d + sd_collisions ?d = 0"
      using quiet [of 0] n(1) by (cases "steps ! j") simp
    moreover have "sum_list (map (\<lambda>t. ta_new_evidence_count t + ta_new_collision_count t)
        (last_n (2 * n - 1) (last_n ?w (lc_assessments cj)))) = 0"
      using quiet_window [of "2 * n" j found steps ?w] quiet assms(2) mem by (simp add: last_n_map [symmetric] last_n_idem)
    moreover have "last_n n (last_n ?w (lc_steps cj) @ [call_of (steps ! j)]) =
        take n (last_n (2 * n) (last_n ?w (lc_steps cj) @ [call_of (steps ! j)]))"
      using repeats_pattern [OF fits n(3,1) assms(2), of call_of] pattern mem by (simp add: last_n_idem)
    moreover have "2 * n \<le> length (last_n ?w (lc_steps cj) @ [call_of (steps ! j)])"
      using fits n(3) assms(2) mem by simp
    ultimately have "repeats cj ?d (call_of (steps ! j)) n" using mem by (simp add: repeats_def)
    then show False using allowed_verdict(2) [OF now t n(1)] n(2) mem limits by simp
  qed
  ultimately show ?thesis by blast
qed

definition sample_projection :: "string list \<Rightarrow> string list \<Rightarrow> string \<Rightarrow> projection" where
  "sample_projection evidence control signature = \<lparr> vp_workspace_snapshot_hash = [], vp_evidence_atoms = evidence,
     vp_collision_atoms = [], vp_control_atoms = control, vp_hypothesis_definition_atoms = [],
     vp_hypothesis_evidence_atoms = [], vp_active_evidence_atoms = [], vp_boundary_uncertainty_bp = 0, vp_signature = signature \<rparr>"

lemma certify_progress_total:
  "in_scale eg \<Longrightarrow> in_scale ig \<Longrightarrow> \<forall>v \<in> {ur, gi, rr, br}. - SCORE_SCALE \<le> v \<and> v \<le> SCORE_SCALE \<Longrightarrow>
     \<exists>p. certify_progress H eg ur gi rr br ig ne nx tm = Inr p \<and> (\<forall>v \<in> {pc_evidence_gain_bp p, pc_expected_information_gain_bp p}. in_scale v) \<and>
       (\<forall>v \<in> {pc_uncertainty_reduction_bp p, pc_goal_improvement_bp p, pc_residual_risk_reduction_bp p,
          pc_boundary_uncertainty_reduction_bp p}. - SCORE_SCALE \<le> v \<and> v \<le> SCORE_SCALE)"
  unfolding certify_progress_def Let_def
  by (simp add: oiec_score_def progress_post_init_def del: One_nat_def)

lemma final_certificate_total:
  "0 \<le> sd_links d \<Longrightarrow> (\<forall>v \<in> {pc_evidence_gain_bp p, pc_expected_information_gain_bp p}. in_scale v) \<Longrightarrow>
       (\<forall>v \<in> {pc_uncertainty_reduction_bp p, pc_goal_improvement_bp p, pc_residual_risk_reduction_bp p,
          pc_boundary_uncertainty_reduction_bp p}. - SCORE_SCALE \<le> v \<and> v \<le> SCORE_SCALE) \<Longrightarrow>
     \<exists>q. final_certificate H c streak d b a s p = Inr q"
  unfolding final_certificate_def Let_def progress_post_init_def by simp

lemma assess_total:
  assumes "- SCORE_SCALE \<le> sd_boundary (step_delta_of b a)" "sd_boundary (step_delta_of b a) \<le> SCORE_SCALE"
  shows "\<exists>c' t. assess H c b a s terminal = Inr (c', t)"
proof -
  let ?d = "step_delta_of b a"
  have "in_scale (min SCORE_SCALE (sd_evidence ?d * 1000 + sd_collisions ?d * 500))" by (simp add: min_def)
  then obtain base where base: "base_certificate H ?d terminal = Inr base"
    "\<forall>v \<in> {pc_evidence_gain_bp base, pc_expected_information_gain_bp base}. in_scale v"
    "\<forall>v \<in> {pc_uncertainty_reduction_bp base, pc_goal_improvement_bp base, pc_residual_risk_reduction_bp base,
          pc_boundary_uncertainty_reduction_bp base}. - SCORE_SCALE \<le> v \<and> v \<le> SCORE_SCALE"
    using certify_progress_total [of "min SCORE_SCALE (sd_evidence ?d * 1000 + sd_collisions ?d * 500)" 0 0 0 0 "sd_boundary ?d" H] assms
    unfolding base_certificate_def by fastforce
  obtain p where "final_certificate H c (next_streak c ?d terminal) ?d b a s base = Inr p"
    using final_certificate_total [OF step_delta_nonneg(3) base(2,3)] by blast
  with base(1) show ?thesis
    unfolding assess_def Let_def by (simp split: prod.split)
qed

text \<open>The controller never stops a step that found evidence and led to a state it does not remember.\<close>

lemma evidence_step_allowed:
  assumes "- SCORE_SCALE \<le> sd_boundary (step_delta_of b a)" "sd_boundary (step_delta_of b a) \<le> SCORE_SCALE"
    and "sd_evidence (step_delta_of b a) \<noteq> 0" "vp_signature a \<notin> set (last_n (lc_window c) (lc_states c))"
    and "\<And>t. t \<in> set (lc_assessments c) \<Longrightarrow> 0 \<le> ta_new_evidence_count t + ta_new_collision_count t"
  shows "\<exists>c' t. assess H c b a s False = Inr (c', t) \<and> ta_allowed t"
proof -
  let ?d = "step_delta_of b a" and ?s = "next_streak c (step_delta_of b a) False"
  have d: "0 < sd_evidence ?d" "0 \<le> sd_collisions ?d" "\<not> control_only ?d"
    using assms(3) step_delta_nonneg(1) [of b a] by (linarith, simp, simp add: control_only_def epistemic_def)
  obtain c' t where t: "assess H c b a s False = Inr (c', t)" using assess_total [OF assms(1,2)] by blast
  obtain base p where base: "base_certificate H ?d False = Inr base"
    and p: "final_certificate H c ?s ?d b a s base = Inr p"
    and allowed: "ta_allowed t = fst (describe c ?s (step_verdict c ?s ?d b a s False p))"
    using assess_cases [OF t] by metis
  have "pc_accepted base"
    using yieldsD [OF certify_progress_cases base [unfolded base_certificate_def]] d by auto
  then have "pc_accepted p" using final_certificate_accepted [OF p] d(3) by simp
  moreover have "\<not> repeats c ?d s n" for n
  proof -
    have "set (last_n (2 * n - 1) (last_n (lc_window c) (lc_assessments c))) \<subseteq> set (lc_assessments c)"
      by (auto simp: last_n_def dest: in_set_dropD)
    then have "0 \<le> sum_list (map (\<lambda>t. ta_new_evidence_count t + ta_new_collision_count t)
        (last_n (2 * n - 1) (last_n (lc_window c) (lc_assessments c))))"
      using assms(5) by (intro sum_list_nonneg) auto
    then have "sd_evidence ?d + sd_collisions ?d + sum_list (map (\<lambda>t. ta_new_evidence_count t + ta_new_collision_count t)
        (last_n (2 * n - 1) (last_n (lc_window c) (lc_assessments c)))) \<noteq> 0" using d(1,2) by linarith
    then show ?thesis by (simp add: repeats_def Let_def)
  qed
  ultimately have "ta_allowed t"
    unfolding allowed describe_allowed step_verdict_def using d(3) assms(4) by (auto simp: find_Some_iff split: option.splits)
  with t show ?thesis by blast
qed

abbreviation sample_run :: "run_step list" where
  "sample_run \<equiv> [(sample_projection [] [] ''x'', ''s'', sample_projection [''e''] [] ''y''),
     (sample_projection [''e''] [] ''y'', ''s'', sample_projection [''e'', ''f''] [] ''z'')]"

lemma sample_run: "\<exists>c. allowed_run H (new_controller 12 4 2 0) sample_run c"
proof -
  let ?x = "sample_projection [] [] ''x''" and ?y = "sample_projection [''e''] [] ''y''"
  let ?z = "sample_projection [''e'', ''f''] [] ''z''" and ?c = "new_controller 12 4 2 0"
  have deltas: "sd_evidence (step_delta_of ?x ?y) = 1" "sd_boundary (step_delta_of ?x ?y) = 0"
    "sd_evidence (step_delta_of ?y ?z) = 1" "sd_boundary (step_delta_of ?y ?z) = 0"
    by (simp_all add: step_delta_of_def sample_projection_def new_atoms_def)
  have "\<exists>c' t. assess H ?c ?x ?y ''s'' False = Inr (c', t) \<and> ta_allowed t"
    by (rule evidence_step_allowed) (simp_all add: deltas last_n_def)
  then obtain c1 t1 where one: "assess H ?c ?x ?y ''s'' False = Inr (c1, t1)" "ta_allowed t1" by blast
  note memory = assess_memory [OF one(1)]
  have "\<exists>c' t. assess H c1 ?y ?z ''s'' False = Inr (c', t) \<and> ta_allowed t"
    by (rule evidence_step_allowed) (use memory deltas in \<open>auto simp: last_n_def sample_projection_def new_controller_def dest!: in_set_dropD\<close>)
  then obtain c2 t2 where two: "assess H c1 ?y ?z ''s'' False = Inr (c2, t2)" "ta_allowed t2" by blast
  have "allowed_run H ?c ([] @ [(?x, ''s'', ?y)]) c1" by (rule allowed_run.step [OF allowed_run.start one])
  from allowed_run.step [OF this two] show ?thesis by auto
qed

theorem allowed_run_bounded_witness:
  "\<exists>c. allowed_run (\<lambda>_. ''h'') (new_controller 12 4 2 0) sample_run c \<and>
     (200 :: int) \<le> (lc_max_control c + 1) * 200 + 100 * lc_max_control c"
proof -
  let ?x = "sample_projection [] [] ''x''" and ?z = "sample_projection [''e'', ''f''] [] ''z''"
  obtain c where run: "allowed_run (\<lambda>_. ''h'') (new_controller 12 4 2 0) sample_run c" using sample_run by blast
  have points: "hd (points sample_run) = ?x" "last (points sample_run) = ?z" by (simp_all add: points_def)
  have "sorted_wrt accumulates (points sample_run)" by (simp add: points_def accumulates_def sample_projection_def)
  from allowed_run_bounded [OF run this] have "100 * int (length sample_run) \<le>
      (lc_max_control c + 1) * (knowledge ?z - knowledge ?x) + 100 * lc_max_control c" by (simp only: points) simp
  moreover have "knowledge ?z - knowledge ?x = 200" by (simp add: knowledge_def sample_projection_def)
  ultimately show ?thesis using run by auto
qed

theorem allowed_run_acyclic_witness:
  "\<exists>c. allowed_run (\<lambda>_. ''h'') (new_controller 12 4 2 0) sample_run c \<and> (\<exists>k < 2. found (sample_run ! (1 - k)) \<noteq> 0)"
proof -
  obtain c where run: "allowed_run (\<lambda>_. ''h'') (new_controller 12 4 2 0) sample_run c" using sample_run by blast
  have "lc_max_period c = 4" using run_memory [OF run] by (simp add: new_controller_def)
  moreover have "1 < length sample_run" by simp
  ultimately have "(\<forall>k < 1. call_of (sample_run ! (1 - k)) = call_of (sample_run ! (1 - k - 1))) \<longrightarrow>
      (\<exists>k < 2 * 1. found (sample_run ! (1 - k)) \<noteq> 0)"
    using allowed_run_acyclic [OF run, of 1] by fastforce
  then show ?thesis using run by auto
qed

end
