(* ===== verification/RHypotheses.thy ===== *)
theory RHypotheses
  imports RRecords "HOL-Library.Product_Lexorder"
begin

text \<open>
  \<open>ourd/reasoning/hypotheses.py\<close>: hypothesis sets under evidence. Posteriors are integers in
  basis points; a mutually exclusive set shares exactly 10000 of them, distributed by largest
  remainders. An update is a Bayes step per hypothesis with an audit record for each change.
\<close>

section \<open>Normalisation\<close>

definition sign_hypothesis :: "digest \<Rightarrow> reasoning_hypothesis \<Rightarrow> reasoning_hypothesis res" where
  "sign_hypothesis H h = rhypothesis_post_init (h\<lparr>rh_signature := stable_hash H (JObj (rhypothesis_fields h))\<rparr>)"

definition even_shares :: "string list \<Rightarrow> (string, int) dict" where
  "even_shares ids = (let q = SCORE_SCALE div int (length ids); r = SCORE_SCALE mod int (length ids) in
     map (\<lambda>(k, i). (i, q + (if int k < r then 1 else 0))) (enumerate 0 ids))"

definition bumped :: "(string \<Rightarrow> int) \<Rightarrow> int \<Rightarrow> string list \<Rightarrow> string list" where
  "bumped score mass ids =
     (let missing = SCORE_SCALE - sum_list (map (\<lambda>i. score i * SCORE_SCALE div mass) ids) in
      take (nat missing) (map snd (sort_key (\<lambda>(r, i). (- r, i)) (map (\<lambda>i. (score i * SCORE_SCALE mod mass, i)) ids))))"

definition normalize_values :: "(string \<Rightarrow> int) \<Rightarrow> string list \<Rightarrow> (string, int) dict res" where
  "normalize_values values ids =
     (let score = (\<lambda>i. max 0 (values i)); mass = sum_list (map score ids) in
      if ids = [] then Inl (PolicyError ''mutually exclusive hypothesis state has no surviving hypothesis'')
      else if mass \<le> 0 then Inr (even_shares ids)
      else Inr (map (\<lambda>i. (i, score i * SCORE_SCALE div mass + (if i \<in> set (bumped score mass ids) then 1 else 0))) ids))"

datatype score_field = PriorBp | PosteriorBp

fun field_of :: "score_field \<Rightarrow> reasoning_hypothesis \<Rightarrow> int" where
  "field_of PriorBp h = rh_prior_bp h"
| "field_of PosteriorBp h = rh_posterior_bp h"

definition lookup_field :: "(reasoning_hypothesis \<Rightarrow> int) \<Rightarrow> reasoning_hypothesis list \<Rightarrow> string \<Rightarrow> int" where
  "lookup_field f hs i = dict_getd (map (\<lambda>h. (rh_hypothesis_id h, f h)) hs) i 0"

definition normalize_scores :: "reasoning_hypothesis list \<Rightarrow> score_field \<Rightarrow> (string, int) dict res" where
  "normalize_scores hs f =
     (let eligible = filter (\<lambda>h. f = PriorBp \<or> rh_status h \<noteq> ''FALSIFIED'') hs in
      if eligible = [] \<and> f = PosteriorBp then Inr (map (\<lambda>h. (rh_hypothesis_id h, 0)) hs)
      else bindR (normalize_values (lookup_field (field_of f) eligible) (map rh_hypothesis_id eligible)) (\<lambda>d.
        Inr (map (\<lambda>h. (rh_hypothesis_id h, dict_getd d (rh_hypothesis_id h) 0)) hs)))"

definition hypothesis_uncertainty_bp :: "reasoning_hypothesis list \<Rightarrow> bool \<Rightarrow> int" where
  "hypothesis_uncertainty_bp hs exclusive =
     (if exclusive then SCORE_SCALE - fold max (map rh_posterior_bp (tl hs)) (rh_posterior_bp (hd hs))
      else sum_list (map (\<lambda>h. SCORE_SCALE - \<bar>2 * rh_posterior_bp h - SCORE_SCALE\<bar>) hs) div int (length hs))"

section \<open>Building a set\<close>

text \<open>
  A proposal is a hypothesis already, or a mapping: the fields it gives (absent ones at their
  defaults), and the posterior if it has one.
\<close>

datatype proposal = Ready reasoning_hypothesis | Raw reasoning_hypothesis "int option"

fun read_proposal :: "digest \<Rightarrow> proposal \<Rightarrow> reasoning_hypothesis res" where
  "read_proposal H (Ready h) = sign_hypothesis H h"
| "read_proposal H (Raw h posterior) =
     (let proposition = strip (rh_proposition h);
          given = strip (rh_hypothesis_id h);
          i = (if given = [] then ''hypothesis:'' @ stable_hash H (JObj [(''proposition'', JStr proposition)]) else given)
      in sign_hypothesis H (h\<lparr>rh_hypothesis_id := i, rh_proposition := proposition,
           rh_posterior_bp := (case posterior of None \<Rightarrow> rh_prior_bp h | Some p \<Rightarrow> p)\<rparr>))"

definition normalize_hypotheses :: "digest \<Rightarrow> reasoning_hypothesis list \<Rightarrow> reasoning_hypothesis list res" where
  "normalize_hypotheses H hs =
     bindR (normalize_scores hs PriorBp) (\<lambda>priors.
     bindR (normalize_scores hs PosteriorBp) (\<lambda>posteriors.
     mapR (\<lambda>h. sign_hypothesis H (h\<lparr>rh_prior_bp := dict_getd priors (rh_hypothesis_id h) 0,
       rh_posterior_bp := dict_getd posteriors (rh_hypothesis_id h) 0\<rparr>)) hs))"

definition set_evidence :: "reasoning_hypothesis list \<Rightarrow> string list" where
  "set_evidence hs = canonical_strings (concat (map (\<lambda>h. rh_supporting_evidence h @ rh_conflicting_evidence h) hs))"

definition build_hypothesis_set ::
  "digest \<Rightarrow> proposal list \<Rightarrow> string \<Rightarrow> int \<Rightarrow> bool \<Rightarrow> string list \<Rightarrow> reasoning_hypothesis_set res" where
  "build_hypothesis_set H proposals problem_id maximum exclusive update_ids =
     (if proposals = [] then Inl (PolicyError ''super reasoning requires at least one hypothesis'')
      else if maximum < 1 then Inl (PolicyError ''hypothesis budget must be positive'')
      else if int (length proposals) > maximum then Inl (PolicyError ''hypothesis pool exceeds the reasoning budget'')
      else bindR (mapR (read_proposal H) proposals) (\<lambda>hs.
        let ordered = sort_key rh_hypothesis_id hs in
        if \<not> distinct (map rh_hypothesis_id ordered) then Inl (PolicyError ''hypothesis IDs must be unique'')
        else bindR (if exclusive then normalize_hypotheses H ordered else Inr ordered) (\<lambda>ns.
          hypothesis_set_post_init H \<lparr> hs_schema_version = 1, hs_problem_id = problem_id, hs_hypotheses = ns,
            hs_max_hypotheses = maximum, hs_mutually_exclusive = exclusive,
            hs_uncertainty_bp = hypothesis_uncertainty_bp ns exclusive, hs_evidence_ids = set_evidence ns,
            hs_update_ids = canonical_strings update_ids, hs_signature = [] \<rparr>)))"

definition compatibility_pool :: "reasoning_hypothesis_set option \<Rightarrow> (string, reasoning_hypothesis) dict" where
  "compatibility_pool state = (case state of None \<Rightarrow> []
     | Some s \<Rightarrow> foldl (\<lambda>d h. dict_set (rh_hypothesis_id h) h d) [] (hs_hypotheses s))"

definition require_integrity :: "digest \<Rightarrow> reasoning_hypothesis_set \<Rightarrow> unit res" where
  "require_integrity H s =
     bindR (mapR rhypothesis_post_init (hs_hypotheses s)) (\<lambda>hs.
     bindR (hypothesis_set_post_init H (s\<lparr>hs_hypotheses := hs\<rparr>)) (\<lambda>_. Inr ()))"

section \<open>Updating\<close>

definition effective_prior :: "int \<Rightarrow> int" where
  "effective_prior p = min (SCORE_SCALE - 1) (max 1 p)"

definition independent_posterior :: "int \<Rightarrow> int \<times> int \<Rightarrow> int" where
  "independent_posterior posterior pair = (case pair of (if_true, if_false) \<Rightarrow>
     if if_true = if_false then posterior
     else let p = effective_prior posterior; true_mass = p * if_true; false_mass = (SCORE_SCALE - p) * if_false;
              denominator = true_mass + false_mass
          in if denominator \<le> 0 then posterior
             else min SCORE_SCALE (max 0 ((true_mass * SCORE_SCALE + denominator div 2) div denominator)))"

definition status_after_update :: "reasoning_hypothesis \<Rightarrow> int \<Rightarrow> string \<Rightarrow> bool \<Rightarrow> string res" where
  "status_after_update h updated polarity new_provenance =
     (if updated \<le> 0 then Inr ''FALSIFIED''
      else if rh_status h = ''FALSIFIED'' \<and> updated > rh_posterior_bp h
        then (if new_provenance then Inr ''WEAKENED'' else Inl (PolicyError ''falsified hypothesis recovery requires new evidence''))
      else if polarity \<in> {''counterexample'', ''conflict''} \<and> updated \<le> rh_posterior_bp h then Inr ''WEAKENED''
      else if updated > rh_posterior_bp h
        then Inr (if rh_assumptions h \<noteq> [] then ''UNRESOLVED'' else if updated \<ge> 7500 then ''SUPPORTED'' else ''ACTIVE'')
      else Inr (rh_status h))"

type_synonym likelihoods = "(string, int \<times> int) dict"

definition exclusive_scores :: "reasoning_hypothesis list \<Rightarrow> likelihoods \<Rightarrow> (string, int) dict res" where
  "exclusive_scores hs pairs =
     (let surviving = map rh_hypothesis_id (filter (\<lambda>h. rh_status h \<noteq> ''FALSIFIED'' \<and>
            fst (dict_getd pairs (rh_hypothesis_id h) (0, 0)) > 0) hs);
          weighted = lookup_field (\<lambda>h. effective_prior (rh_posterior_bp h) * fst (dict_getd pairs (rh_hypothesis_id h) (0, 0))) hs
      in bindR (if surviving \<noteq> [] then normalize_values weighted surviving else Inr []) (\<lambda>d.
         Inr (map (\<lambda>h. (rh_hypothesis_id h, dict_getd d (rh_hypothesis_id h) 0)) hs)))"

definition updated_scores :: "reasoning_hypothesis_set \<Rightarrow> likelihoods \<Rightarrow> (string, int) dict res" where
  "updated_scores s pairs =
     (if hs_mutually_exclusive s then exclusive_scores (hs_hypotheses s) pairs
      else Inr (map (\<lambda>h. (rh_hypothesis_id h, independent_posterior (rh_posterior_bp h) (dict_getd pairs (rh_hypothesis_id h) (0, 0))))
        (filter (\<lambda>h. dict_get pairs (rh_hypothesis_id h) \<noteq> None) (hs_hypotheses s))))"

record update_request =
  uq_likelihoods :: likelihoods
  uq_evidence_ids :: "string list"
  uq_collision_ids :: "string list"
  uq_polarity :: string
  uq_operation :: string
  uq_reason :: string

definition update_polarity :: "string \<Rightarrow> int \<times> int \<Rightarrow> string option" where
  "update_polarity given pair =
     (if given = ''conflict'' then Some ''conflict''
      else if fst pair > snd pair then Some ''support''
      else if fst pair < snd pair then Some ''counterexample''
      else None)"

text \<open>One round of the loop: the hypotheses so far and the records so far.\<close>

definition update_one ::
  "digest \<Rightarrow> string \<Rightarrow> update_request \<Rightarrow> (string, int) dict \<Rightarrow> reasoning_hypothesis \<Rightarrow>
   reasoning_hypothesis list \<times> hypothesis_update list \<Rightarrow> (reasoning_hypothesis list \<times> hypothesis_update list) res" where
  "update_one H problem_id q scores h acc = (case acc of (hs, records) \<Rightarrow>
     (case dict_get (uq_likelihoods q) (rh_hypothesis_id h) of
        None \<Rightarrow> Inr (hs @ [h], records)
      | Some pair \<Rightarrow>
       (case update_polarity (uq_polarity q) pair of
          None \<Rightarrow> Inr (hs @ [h], records)
        | Some polarity \<Rightarrow>
          let evidence = canonical_strings (uq_evidence_ids q); collisions = canonical_strings (uq_collision_ids q);
              new_provenance = (\<not> set evidence \<subseteq> set (rh_supporting_evidence h) \<union> set (rh_conflicting_evidence h) \<or> collisions \<noteq> [])
          in if \<not> new_provenance then Inr (hs @ [h], records)
             else let posterior = dict_getd scores (rh_hypothesis_id h) 0 in
               bindR (status_after_update h posterior polarity new_provenance) (\<lambda>status.
               let supporting = sorted_set (rh_supporting_evidence h @ (if polarity \<in> {''support'', ''conflict''} then evidence else []));
                   conflicting = sorted_set (rh_conflicting_evidence h @ (if polarity \<in> {''counterexample'', ''conflict''} then evidence else []))
               in bindR (sign_hypothesis H (h\<lparr>rh_posterior_bp := posterior, rh_supporting_evidence := supporting,
                      rh_conflicting_evidence := conflicting, rh_status := status\<rparr>)) (\<lambda>u.
                  bindR (update_post_init H \<lparr> hu_schema_version = 1, hu_update_id = [], hu_problem_id = problem_id,
                      hu_hypothesis_id = rh_hypothesis_id h, hu_operation = uq_operation q, hu_evidence_ids = evidence,
                      hu_collision_ids = collisions, hu_polarity = polarity, hu_likelihood_if_true_bp = fst pair,
                      hu_likelihood_if_false_bp = snd pair, hu_previous_posterior_bp = rh_posterior_bp h,
                      hu_updated_posterior_bp = rh_posterior_bp u, hu_previous_status = rh_status h,
                      hu_updated_status = rh_status u, hu_previous_hypothesis_signature = rh_signature h,
                      hu_updated_hypothesis_signature = rh_signature u, hu_reason = uq_reason q, hu_signature = [] \<rparr>) (\<lambda>rec.
                  Inr (hs @ [u], records @ [rec])))))))"

definition update_hypothesis_state ::
  "digest \<Rightarrow> reasoning_hypothesis_set \<Rightarrow> update_request \<Rightarrow> (reasoning_hypothesis_set \<times> hypothesis_update list) res" where
  "update_hypothesis_state H s q =
     (let declared = map rh_hypothesis_id (hs_hypotheses s); supplied = map fst (uq_likelihoods q) in
      bindR (require_integrity H s) (\<lambda>_.
      if uq_polarity q \<notin> {''support'', ''counterexample'', ''conflict''} then Inl (PolicyError ''evidence polarity is invalid'')
      else if \<not> set supplied \<subseteq> set declared then Inl (PolicyError ''likelihood update references an unknown hypothesis'')
      else if hs_mutually_exclusive s \<and> set supplied \<noteq> set declared
        then Inl (PolicyError ''mutually exclusive updates require one likelihood per hypothesis'')
      else if canonical_strings (uq_evidence_ids q) = [] \<and> canonical_strings (uq_collision_ids q) = []
        then Inl (PolicyError ''hypothesis update requires evidence or collision provenance'')
      else bindR (check_scores (concat (map (\<lambda>(i, t, f). [(''likelihood if true'', t), (''likelihood if false'', f)]) (uq_likelihoods q)))) (\<lambda>_.
           bindR (updated_scores s (uq_likelihoods q)) (\<lambda>scores.
           bindR (foldR (update_one H (hs_problem_id s) q scores) (hs_hypotheses s) ([], [])) (\<lambda>(hs, records).
        if records = [] then Inr (s, [])
        else bindR (build_hypothesis_set H (map Ready hs) (hs_problem_id s) (hs_max_hypotheses s) (hs_mutually_exclusive s)
               (hs_update_ids s @ map hu_update_id records)) (\<lambda>t.
             Inr (t, sort_key hu_update_id records)))))))"

section \<open>Collisions\<close>

definition matches_falsifier :: "string \<Rightarrow> reasoning_hypothesis \<Rightarrow> bool" where
  "matches_falsifier falsifier h = (let key = casefold (strip falsifier) in
     key \<noteq> [] \<and> list_ex (\<lambda>item. contains key (casefold item) \<or> contains (casefold item) key) (rh_falsifiers h))"

definition collision_likelihoods :: "reasoning_hypothesis_set \<Rightarrow> string list \<Rightarrow> string \<Rightarrow> int \<Rightarrow> likelihoods" where
  "collision_likelihoods s objects falsifier severity =
     concat (map (\<lambda>h. let named = casefold (rh_hypothesis_id h) \<in> set (map casefold (filter (\<lambda>v. v \<noteq> []) objects));
                        hit = matches_falsifier falsifier h
       in if named \<or> hit then [(rh_hypothesis_id h, (if hit \<and> severity \<ge> 5000 then 0 else max 1 (SCORE_SCALE - severity), SCORE_SCALE))]
          else if hs_mutually_exclusive s then [(rh_hypothesis_id h, (SCORE_SCALE, SCORE_SCALE))] else []) (hs_hypotheses s))"

definition apply_collision_update ::
  "digest \<Rightarrow> reasoning_hypothesis_set \<Rightarrow> string list \<Rightarrow> string \<Rightarrow> string list \<Rightarrow> string \<Rightarrow> int \<Rightarrow>
   (reasoning_hypothesis_set \<times> hypothesis_update list) res" where
  "apply_collision_update H s objects falsifier evidence_ids collision_id severity =
     bindR (bounded_score severity ''collision severity'' False) (\<lambda>_.
       let targeted = collision_likelihoods s objects falsifier severity in
       if targeted = [] then Inr (s, [])
       else update_hypothesis_state H s \<lparr> uq_likelihoods = targeted, uq_evidence_ids = evidence_ids,
         uq_collision_ids = [collision_id], uq_polarity = ''counterexample'', uq_operation = ''CFEL_COLLISION_UPDATE'',
         uq_reason = ''CFEL collision contradicted a hypothesis prediction or falsifier'' \<rparr>)"

section \<open>Every basis point is handed out\<close>

lemma sum_list_div_mod: "sum_list (map f xs) = m * sum_list (map (\<lambda>i. f i div m) xs) + sum_list (map (\<lambda>i. f i mod m) xs)"
  for f :: "'a \<Rightarrow> int" and m :: int
  by (induction xs) (simp_all add: algebra_simps)

lemma sum_list_indicator: "distinct xs \<Longrightarrow> distinct ys \<Longrightarrow> set ys \<subseteq> set xs \<Longrightarrow>
    sum_list (map (\<lambda>i. if i \<in> set ys then 1 else 0) xs) = int (length ys)"
  by (simp add: sum_list_distinct_conv_sum_set sum.If_cases Int_absorb1 distinct_card flip: sum.inter_restrict)

lemma rests_below:
  fixes f :: "'a \<Rightarrow> int" and m :: int
  assumes "0 < m" "xs \<noteq> []"
  shows "sum_list (map (\<lambda>i. f i mod m) xs) < m * int (length xs)"
  using assms(2)
proof (induction xs rule: list_nonempty_induct)
  case (cons x xs)
  show ?case using add_strict_mono [OF pos_mod_bound [OF assms(1), of "f x"] cons.IH] by (simp add: algebra_simps)
qed (simp add: assms(1))

lemma missing_bounds:
  assumes "0 < m" "xs \<noteq> []" "m = sum_list (map score xs)"
  defines "missing \<equiv> SCORE_SCALE - sum_list (map (\<lambda>i. score i * SCORE_SCALE div m) xs)"
  shows "0 \<le> missing" "missing < int (length xs)"
proof -
  let ?rests = "sum_list (map (\<lambda>i. score i * SCORE_SCALE mod m) xs)"
  have "m * SCORE_SCALE = sum_list (map (\<lambda>i. score i * SCORE_SCALE) xs)"
    by (simp add: assms(3) sum_list_mult_const)
  then have rests: "m * missing = ?rests"
    using sum_list_div_mod [of "\<lambda>i. score i * SCORE_SCALE" xs m] by (simp add: missing_def algebra_simps)
  have "0 \<le> ?rests" by (rule sum_list_nonneg) (auto simp: assms(1))
  then have "0 \<le> m * missing" by (simp only: rests)
  then show "0 \<le> missing" using assms(1) by (simp only: zero_le_mult_iff) linarith
  have "m * missing < m * int (length xs)" using rests_below [OF assms(1,2)] rests by simp
  then show "missing < int (length xs)" using assms(1) by simp
qed

lemma bumped_props:
  assumes "distinct ids"
  shows "distinct (bumped score mass ids)" "set (bumped score mass ids) \<subseteq> set ids"
proof -
  let ?sorted = "map snd (sort_key (\<lambda>(r, i). (- r, i)) (map (\<lambda>i. (score i * SCORE_SCALE mod mass, i)) ids))"
  have "mset ?sorted = mset (map snd (map (\<lambda>i. (score i * SCORE_SCALE mod mass, i)) ids))"
    by (simp only: mset_map mset_sort)
  then have "mset ?sorted = mset ids" by (simp only: map_map comp_def snd_conv list.map_ident)
  then have "distinct ?sorted" "set ?sorted = set ids" using assms mset_eq_imp_distinct_iff mset_eq_setD by blast+
  then show "distinct (bumped score mass ids)" "set (bumped score mass ids) \<subseteq> set ids"
    by (auto simp: bumped_def Let_def dest: in_set_takeD)
qed

lemma bumped_length:
  assumes "0 < mass" "ids \<noteq> []" "mass = sum_list (map score ids)"
  shows "int (length (bumped score mass ids)) = SCORE_SCALE - sum_list (map (\<lambda>i. score i * SCORE_SCALE div mass) ids)"
  using missing_bounds [OF assms] by (simp add: bumped_def Let_def)

lemma even_shares_fst: "map fst (even_shares ids) = ids"
  by (simp add: even_shares_def Let_def comp_def case_prod_beta')

lemma even_shares_total:
  assumes "ids \<noteq> []"
  shows "sum_list (map snd (even_shares ids)) = SCORE_SCALE"
proof -
  have count: "sum_list (map (\<lambda>(k, i). q + (if int k < r then 1 else 0)) (enumerate n xs)) =
      q * int (length xs) + max 0 (min (r - int n) (int (length xs)))" for q r n and xs :: "string list"
    by (induction xs arbitrary: n) (auto simp: algebra_simps)
  have "0 \<le> SCORE_SCALE mod int (length ids)" "SCORE_SCALE mod int (length ids) < int (length ids)"
    using assms by simp_all
  then show ?thesis
    using count [of "SCORE_SCALE div int (length ids)" "SCORE_SCALE mod int (length ids)" 0 ids]
    by (simp add: even_shares_def Let_def comp_def case_prod_beta')
qed

lemma zdiv_nonneg_aux: "0 \<le> SCORE_SCALE div int n"
  by (simp add: zdiv_int [symmetric] div_int_pos_iff)

lemma even_shares_nonneg: "x \<in> set (even_shares ids) \<Longrightarrow> 0 \<le> snd x"
  by (auto simp: even_shares_def Let_def zdiv_nonneg_aux add_nonneg_nonneg)

lemma normalize_values_props:
  assumes "ids \<noteq> []" "distinct ids"
  obtains d where "normalize_values values ids = Inr d" "map fst d = ids"
    "sum_list (map snd d) = SCORE_SCALE" "\<And>x. x \<in> set d \<Longrightarrow> 0 \<le> snd x"
proof (cases "sum_list (map (\<lambda>i. max 0 (values i)) ids) \<le> 0")
  case True
  then have "normalize_values values ids = Inr (even_shares ids)"
    using assms by (simp add: normalize_values_def Let_def)
  then show ?thesis
    by (rule that) (simp_all add: even_shares_fst even_shares_total assms even_shares_nonneg)
next
  case False
  define score mass where "score = (\<lambda>i. max 0 (values i))" and "mass = sum_list (map score ids)"
  have mass: "0 < mass" using False by (simp add: mass_def score_def)
  define d where "d = map (\<lambda>i. (i, score i * SCORE_SCALE div mass + (if i \<in> set (bumped score mass ids) then 1 else 0))) ids"
  have "normalize_values values ids = Inr d"
    using assms mass unfolding d_def mass_def score_def normalize_values_def Let_def by simp
  moreover have "map fst d = ids" by (simp add: d_def comp_def)
  moreover have "sum_list (map snd d) = sum_list (map (\<lambda>i. score i * SCORE_SCALE div mass) ids) + int (length (bumped score mass ids))"
    unfolding sum_list_indicator [OF assms(2) bumped_props [OF assms(2)], symmetric]
    by (simp add: d_def comp_def sum_list_addf)
  then have "sum_list (map snd d) = SCORE_SCALE" using bumped_length [OF mass assms(1) mass_def] by simp
  moreover have "0 \<le> snd x" if "x \<in> set d" for x
    using that mass by (auto simp: d_def score_def div_int_pos_iff)
  ultimately show ?thesis by (rule that)
qed

definition eligible :: "score_field \<Rightarrow> reasoning_hypothesis \<Rightarrow> bool" where
  "eligible f h \<longleftrightarrow> f = PriorBp \<or> rh_status h \<noteq> ''FALSIFIED''"

definition share_in :: "(string, int) dict \<Rightarrow> reasoning_hypothesis \<Rightarrow> int" where
  "share_in d h = dict_getd d (rh_hypothesis_id h) 0"

lemma dict_getd_map: "distinct (map k xs) \<Longrightarrow> x \<in> set xs \<Longrightarrow> dict_getd (map (\<lambda>x. (k x, f x)) xs) (k x) v = f x"
  by (induction xs) (auto simp: dict_getd_def rev_image_eqI)

lemma dict_getd_absent: "k \<notin> set (map fst d) \<Longrightarrow> dict_getd d k v = v"
  by (simp add: dict_getd_def map_of_eq_None_iff [THEN iffD2])

lemma sum_dict_getd: "distinct (map fst d) \<Longrightarrow> sum_list (map (\<lambda>k. dict_getd d k v) (map fst d)) = sum_list (map snd d)" for v :: int
proof (induction d)
  case (Cons x d)
  have "map (\<lambda>k. dict_getd (x # d) k v) (map fst d) = map (\<lambda>k. dict_getd d k v) (map fst d)"
    using Cons.prems by (intro map_cong refl) (auto simp: dict_getd_def rev_image_eqI)
  then have "map (\<lambda>k. dict_getd (x # d) k v) (map fst (x # d)) = snd x # map (\<lambda>k. dict_getd d k v) (map fst d)"
    by (simp only: list.map) (simp add: dict_getd_def)
  then show ?case using Cons by (simp only: sum_list.Cons list.map distinct.simps)
qed simp

lemma sum_list_filter_zero: "(\<And>x. x \<in> set xs \<Longrightarrow> \<not> P x \<Longrightarrow> g x = 0) \<Longrightarrow> sum_list (map g (filter P xs)) = sum_list (map g xs)" for g :: "'a \<Rightarrow> int"
  by (induction xs) auto

lemma normalize_scores_props:
  assumes distinct: "distinct (map rh_hypothesis_id hs)" and "hs \<noteq> []"
  obtains d where "normalize_scores hs f = Inr d"
    "sum_list (map (share_in d) hs) = (if \<exists>h \<in> set hs. eligible f h then SCORE_SCALE else 0)"
    "\<And>h. h \<in> set hs \<Longrightarrow> in_scale (share_in d h) \<and> (\<not> eligible f h \<longrightarrow> share_in d h = 0)"
proof (cases "filter (eligible f) hs = []")
  case True
  then have "f = PosteriorBp" using assms(2) by (cases f; cases hs) (auto simp: eligible_def)
  then have "normalize_scores hs f = Inr (map (\<lambda>h. (rh_hypothesis_id h, 0)) hs)"
    using True by (simp add: normalize_scores_def Let_def eligible_def [abs_def])
  moreover have zero: "share_in (map (\<lambda>h. (rh_hypothesis_id h, 0)) hs) h = 0" if "h \<in> set hs" for h
    using dict_getd_map [OF distinct that] by (simp add: share_in_def)
  moreover from zero have "sum_list (map (share_in (map (\<lambda>h. (rh_hypothesis_id h, 0)) hs)) hs) = sum_list (map (\<lambda>_. 0) hs)"
    by (intro arg_cong [where f = sum_list] map_cong refl)
  ultimately show ?thesis
    using True by (intro that [of "map (\<lambda>h. (rh_hypothesis_id h, 0)) hs"]) (simp_all add: filter_empty_conv)
next
  case False
  let ?live = "filter (eligible f) hs"
  have ids: "distinct (map rh_hypothesis_id ?live)" using distinct by (rule distinct_map_filter)
  obtain e where e: "normalize_values (lookup_field (field_of f) ?live) (map rh_hypothesis_id ?live) = Inr e"
    "map fst e = map rh_hypothesis_id ?live" "sum_list (map snd e) = SCORE_SCALE" "\<And>x. x \<in> set e \<Longrightarrow> 0 \<le> snd x"
    using False ids by (metis normalize_values_props map_is_Nil_conv)
  define d where "d = map (\<lambda>h. (rh_hypothesis_id h, dict_getd e (rh_hypothesis_id h) 0)) hs"
  have share: "share_in d h = dict_getd e (rh_hypothesis_id h) 0" if "h \<in> set hs" for h
    using dict_getd_map [OF distinct that] by (simp add: share_in_def d_def)
  have zero: "share_in d h = 0" if "h \<in> set hs" "\<not> eligible f h" for h
  proof -
    have "rh_hypothesis_id h \<notin> set (map fst e)"
      using that distinct unfolding e(2) by (auto simp: distinct_map inj_on_def)
    then show ?thesis using share [OF that(1)] by (simp add: dict_getd_absent)
  qed
  have "in_scale (snd x)" if "x \<in> set e" for x
  proof -
    have "snd x \<le> sum_list (map snd e)" using that e(4) by (intro member_le_sum_list) auto
    then show ?thesis using that e(3,4) by simp
  qed
  then have bounds: "in_scale (dict_getd e k 0)" for k
    by (fastforce simp: dict_getd_def dest: map_of_SomeD split: option.splits)
  have "sum_list (map (share_in d) hs) = sum_list (map (share_in d) ?live)"
    using zero by (intro sum_list_filter_zero [symmetric])
  also have "\<dots> = sum_list (map (\<lambda>k. dict_getd e k 0) (map fst e))"
    unfolding e(2) by (auto simp: comp_def share intro!: arg_cong [where f = sum_list])
  finally have "sum_list (map (share_in d) hs) = SCORE_SCALE"
    using sum_dict_getd [of e 0] ids by (simp only: e)
  then show ?thesis
    using e(1) False zero share bounds
    by (intro that [of d]) (simp_all add: normalize_scores_def Let_def eligible_def [abs_def] d_def filter_empty_conv)
qed

section \<open>An exclusive set always builds\<close>

definition rhypothesis_ok :: "reasoning_hypothesis \<Rightarrow> bool" where
  "rhypothesis_ok h \<longleftrightarrow> rh_hypothesis_id h \<noteq> [] \<and> strip (rh_proposition h) \<noteq> [] \<and> in_scale (rh_prior_bp h) \<and>
     in_scale (rh_posterior_bp h) \<and> rh_status h \<in> set HYPOTHESIS_STATUSES"

definition same_scores :: "reasoning_hypothesis \<Rightarrow> reasoning_hypothesis \<Rightarrow> bool" where
  "same_scores h u \<longleftrightarrow> rh_hypothesis_id u = rh_hypothesis_id h \<and> rh_prior_bp u = rh_prior_bp h \<and>
     rh_posterior_bp u = rh_posterior_bp h \<and> rh_status u = rh_status h \<and> rh_proposition u = rh_proposition h"

lemma sign_hypothesis_Inr: "sign_hypothesis H h = Inr u \<Longrightarrow> rhypothesis_ok h \<and> same_scores h u"
  unfolding sign_hypothesis_def rhypothesis_post_init_def
  by (auto simp: rhypothesis_ok_def same_scores_def res_simps)

lemma sign_hypothesis_total: "rhypothesis_ok h \<Longrightarrow> \<exists>u. sign_hypothesis H h = Inr u \<and> same_scores h u"
  unfolding sign_hypothesis_def rhypothesis_post_init_def
  by (auto simp: rhypothesis_ok_def same_scores_def bindR_Inr check_scores_Inr)

lemma same_scores_ok: "same_scores h u \<Longrightarrow> rhypothesis_ok h \<Longrightarrow> rhypothesis_ok u"
  by (simp add: same_scores_def rhypothesis_ok_def)

lemma sign_hypothesis_ok: "sign_hypothesis H h = Inr u \<Longrightarrow> rhypothesis_ok u"
  using sign_hypothesis_Inr same_scores_ok by blast

lemma read_proposal_ok: "read_proposal H p = Inr h \<Longrightarrow> rhypothesis_ok h"
  by (cases p) (auto simp: Let_def dest: sign_hypothesis_ok)

lemma mapR_ex: "(\<And>x. x \<in> set xs \<Longrightarrow> \<exists>y. f x = Inr y \<and> R x y) \<Longrightarrow> \<exists>ys. mapR f xs = Inr ys \<and> list_all2 R xs ys"
proof (induction xs)
  case (Cons x xs)
  obtain y where "f x = Inr y" "R x y" using Cons.prems by (meson list.set_intros(1))
  moreover obtain ys where "mapR f xs = Inr ys" "list_all2 R xs ys" using Cons by (meson list.set_intros(2))
  ultimately show ?case by simp
qed simp

lemma list_all2_map_eq: "list_all2 (\<lambda>x y. f x = g y) xs ys \<Longrightarrow> map f xs = map g ys"
  by (induction rule: list_all2_induct) simp_all

lemma list_all2_right: "list_all2 R xs ys \<Longrightarrow> y \<in> set ys \<Longrightarrow> \<exists>x \<in> set xs. R x y"
  by (induction rule: list_all2_induct) auto

lemma fold_max_scale: "in_scale a \<Longrightarrow> (\<And>x. x \<in> set xs \<Longrightarrow> in_scale x) \<Longrightarrow> in_scale (fold max xs a)" for a :: int
  by (induction xs arbitrary: a) (simp_all add: max_def)

lemma exclusive_uncertainty_scale: "hs \<noteq> [] \<Longrightarrow> (\<And>h. h \<in> set hs \<Longrightarrow> in_scale (rh_posterior_bp h)) \<Longrightarrow>
    in_scale (hypothesis_uncertainty_bp hs True)"
  using fold_max_scale [of "rh_posterior_bp (hd hs)" "map rh_posterior_bp (tl hs)"]
  by (cases hs) (auto simp: hypothesis_uncertainty_bp_def)

lemma hypothesis_set_post_init_total:
  assumes "sorted (map rh_hypothesis_id (hs_hypotheses s))" "distinct (map rh_hypothesis_id (hs_hypotheses s))"
    "hs_schema_version s = 1" "strip (hs_problem_id s) \<noteq> []" "hs_hypotheses s \<noteq> []"
    "int (length (hs_hypotheses s)) \<le> hs_max_hypotheses s" "in_scale (hs_uncertainty_bp s)" "hs_signature s = []"
    "sum_list (map rh_posterior_bp (hs_hypotheses s)) = (if \<exists>h \<in> set (hs_hypotheses s). rh_status h \<noteq> ''FALSIFIED'' then SCORE_SCALE else 0)"
  shows "\<exists>t. hypothesis_set_post_init H s = Inr t \<and> hs_hypotheses t = hs_hypotheses s"
proof -
  have ordered: "sort_key rh_hypothesis_id (hs_hypotheses s) = hs_hypotheses s"
    using assms(1) by (rule sort_key_id_if_sorted)
  have "0 < hs_max_hypotheses s" using assms(5,6) by (cases "hs_hypotheses s") auto
  moreover have "check_scores [(''hypothesis set uncertainty'', hs_uncertainty_bp s)] = Inr ()"
    using assms(7) by (simp add: check_scores_Inr)
  ultimately show ?thesis
    using assms unfolding hypothesis_set_post_init_def ordered Let_def by (simp add: filter_empty_conv)
qed

lemma normalize_hypotheses_total:
  assumes "distinct (map rh_hypothesis_id hs)" "hs \<noteq> []" "\<And>h. h \<in> set hs \<Longrightarrow> rhypothesis_ok h"
  obtains ns where "normalize_hypotheses H hs = Inr ns" "map rh_hypothesis_id ns = map rh_hypothesis_id hs"
    "sum_list (map rh_prior_bp ns) = SCORE_SCALE"
    "sum_list (map rh_posterior_bp ns) = (if \<exists>h \<in> set ns. rh_status h \<noteq> ''FALSIFIED'' then SCORE_SCALE else 0)"
    "\<And>h. h \<in> set ns \<Longrightarrow> in_scale (rh_posterior_bp h) \<and> (rh_status h = ''FALSIFIED'' \<longrightarrow> rh_posterior_bp h = 0)"
proof -
  obtain d1 where d1: "normalize_scores hs PriorBp = Inr d1"
    "sum_list (map (share_in d1) hs) = (if \<exists>h \<in> set hs. eligible PriorBp h then SCORE_SCALE else 0)"
    "\<And>h. h \<in> set hs \<Longrightarrow> in_scale (share_in d1 h) \<and> (\<not> eligible PriorBp h \<longrightarrow> share_in d1 h = 0)"
    by (rule normalize_scores_props [OF assms(1,2), where f = PriorBp]) (rule that)
  obtain d2 where d2: "normalize_scores hs PosteriorBp = Inr d2"
    "sum_list (map (share_in d2) hs) = (if \<exists>h \<in> set hs. eligible PosteriorBp h then SCORE_SCALE else 0)"
    "\<And>h. h \<in> set hs \<Longrightarrow> in_scale (share_in d2 h) \<and> (\<not> eligible PosteriorBp h \<longrightarrow> share_in d2 h = 0)"
    by (rule normalize_scores_props [OF assms(1,2), where f = PosteriorBp]) (rule that)
  let ?next = "\<lambda>h. h\<lparr>rh_prior_bp := share_in d1 h, rh_posterior_bp := share_in d2 h\<rparr>"
  have "\<exists>u. sign_hypothesis H (?next h) = Inr u \<and> same_scores (?next h) u" if "h \<in> set hs" for h
    by (rule sign_hypothesis_total) (use assms(3) d1(3) d2(3) that in \<open>simp add: rhypothesis_ok_def\<close>)
  then obtain ns where ns: "mapR (\<lambda>h. sign_hypothesis H (?next h)) hs = Inr ns" "list_all2 (\<lambda>h. same_scores (?next h)) hs ns"
    using mapR_ex [of hs "\<lambda>h. sign_hypothesis H (?next h)" "\<lambda>h. same_scores (?next h)"] by blast
  have eqs: "map rh_hypothesis_id hs = map rh_hypothesis_id ns" "map (share_in d1) hs = map rh_prior_bp ns"
      "map (share_in d2) hs = map rh_posterior_bp ns" "map rh_status hs = map rh_status ns"
    by (rule list_all2_map_eq, rule list_all2_mono [OF ns(2)], simp add: same_scores_def)+
  have "(\<exists>x \<in> set (map rh_status hs). x \<noteq> ''FALSIFIED'') \<longleftrightarrow> (\<exists>x \<in> set (map rh_status ns). x \<noteq> ''FALSIFIED'')"
    by (simp only: eqs(4))
  then have "(\<exists>h \<in> set hs. rh_status h \<noteq> ''FALSIFIED'') \<longleftrightarrow> (\<exists>h \<in> set ns. rh_status h \<noteq> ''FALSIFIED'')" by simp
  then have posterior: "sum_list (map rh_posterior_bp ns) = (if \<exists>h \<in> set ns. rh_status h \<noteq> ''FALSIFIED'' then SCORE_SCALE else 0)"
    using d2(2) by (simp add: eqs(3) eligible_def)
  have prior: "sum_list (map rh_prior_bp ns) = SCORE_SCALE"
    using d1(2) assms(2) by (simp add: eqs(2) eligible_def ex_in_conv)
  have member: "in_scale (rh_posterior_bp u) \<and> (rh_status u = ''FALSIFIED'' \<longrightarrow> rh_posterior_bp u = 0)" if u: "u \<in> set ns" for u
  proof -
    obtain h where h: "h \<in> set hs" "same_scores (?next h) u" using list_all2_right [OF ns(2) u] by blast
    then show ?thesis using d2(3) [OF h(1)] by (auto simp: same_scores_def eligible_def)
  qed
  have "normalize_hypotheses H hs = Inr ns"
    using d1(1) d2(1) ns(1) by (simp add: normalize_hypotheses_def share_in_def)
  from that [OF this eqs(1) [symmetric] prior posterior member] show ?thesis .
qed

text \<open>Building a mutually exclusive hypothesis set never fails once its proposals are readable,
  have distinct identities and fit the budget, and it hands out every basis point: the priors sum to
  exactly 10000, the posteriors sum to exactly 10000 as long as one hypothesis is not falsified, and a
  falsified hypothesis keeps no mass. So the constructor's check that the posteriors sum to 10000 can
  never reject what \<open>build_hypothesis_set\<close> normalised.\<close>

lemma exclusive_set_builds:
  assumes "mapR (read_proposal H) proposals = Inr hs" "distinct (map rh_hypothesis_id hs)"
    "proposals \<noteq> []" "int (length proposals) \<le> maximum" "strip problem_id \<noteq> []"
  shows "\<exists>s. build_hypothesis_set H proposals problem_id maximum True update_ids = Inr s \<and>
      map rh_hypothesis_id (hs_hypotheses s) = sort (map rh_hypothesis_id hs) \<and>
      sum_list (map rh_prior_bp (hs_hypotheses s)) = SCORE_SCALE \<and>
      sum_list (map rh_posterior_bp (hs_hypotheses s)) =
        (if \<exists>h \<in> set (hs_hypotheses s). rh_status h \<noteq> ''FALSIFIED'' then SCORE_SCALE else 0) \<and>
      (\<forall>h \<in> set (hs_hypotheses s). rh_status h = ''FALSIFIED'' \<longrightarrow> rh_posterior_bp h = 0)"
proof -
  let ?ordered = "sort_key rh_hypothesis_id hs"
  have len: "length hs = length proposals" using assms(1) by (rule mapR_Inr_length)
  have distinct: "distinct (map rh_hypothesis_id ?ordered)" using assms(2) by (simp add: distinct_map)
  have some: "?ordered \<noteq> []" using len assms(3) by (metis length_0_conv length_sort)
  have ok: "rhypothesis_ok h" if "h \<in> set ?ordered" for h
    using mapR_Inr_set [OF assms(1), of h] that by (auto dest: read_proposal_ok)
  obtain ns where ns: "normalize_hypotheses H ?ordered = Inr ns"
    "map rh_hypothesis_id ns = map rh_hypothesis_id ?ordered" "sum_list (map rh_prior_bp ns) = SCORE_SCALE"
    "sum_list (map rh_posterior_bp ns) = (if \<exists>h \<in> set ns. rh_status h \<noteq> ''FALSIFIED'' then SCORE_SCALE else 0)"
    "\<And>h. h \<in> set ns \<Longrightarrow> in_scale (rh_posterior_bp h) \<and> (rh_status h = ''FALSIFIED'' \<longrightarrow> rh_posterior_bp h = 0)"
    by (rule normalize_hypotheses_total [OF distinct some ok, where H = H]) (assumption, rule that)
  have ids: "map rh_hypothesis_id ns = sort (map rh_hypothesis_id hs)"
    by (rule properties_for_sort [symmetric]) (simp_all add: ns(2))
  define s where "s = \<lparr> hs_schema_version = 1, hs_problem_id = problem_id, hs_hypotheses = ns, hs_max_hypotheses = maximum,
    hs_mutually_exclusive = True, hs_uncertainty_bp = hypothesis_uncertainty_bp ns True, hs_evidence_ids = set_evidence ns,
    hs_update_ids = canonical_strings update_ids, hs_signature = [] \<rparr>"
  have nonempty: "ns \<noteq> []" using ns(2) some by (metis map_is_Nil_conv)
  have "length ns = length hs" using arg_cong [OF ns(2), of length] by simp
  then obtain t where t: "hypothesis_set_post_init H s = Inr t" "hs_hypotheses t = ns"
    using hypothesis_set_post_init_total [of s H] ids ns(4,5) nonempty len assms(2,4,5) exclusive_uncertainty_scale [OF nonempty]
    by (auto simp: s_def)
  have "build_hypothesis_set H proposals problem_id maximum True update_ids = Inr t"
    using assms(1,3,4) distinct ns(1) t(1) by (cases proposals) (simp_all add: build_hypothesis_set_def s_def)
  then show ?thesis using t(2) ids ns(3,4,5) by blast
qed

definition sample_hypothesis :: "string \<Rightarrow> int \<Rightarrow> reasoning_hypothesis" where
  "sample_hypothesis i p = \<lparr> rh_hypothesis_id = i, rh_proposition = i, rh_prior_bp = p, rh_posterior_bp = p,
     rh_supporting_evidence = [], rh_conflicting_evidence = [], rh_assumptions = [], rh_predictions = [],
     rh_falsifiers = [], rh_status = ''ACTIVE'', rh_signature = [] \<rparr>"

definition signed_sample :: "digest \<Rightarrow> string \<Rightarrow> int \<Rightarrow> reasoning_hypothesis" where
  "signed_sample H i p = (sample_hypothesis i p)\<lparr>rh_signature := stable_hash H (JObj (rhypothesis_fields (sample_hypothesis i p)))\<rparr>"

lemma sign_sample: "strip i \<noteq> [] \<Longrightarrow> in_scale p \<Longrightarrow> sign_hypothesis H (sample_hypothesis i p) = Inr (signed_sample H i p)"
  by (auto simp: sign_hypothesis_def rhypothesis_post_init_def sample_hypothesis_def signed_sample_def rhypothesis_fields_def
      check_scores_def bounded_score_def HYPOTHESIS_STATUSES_def canonical_strings_def sorted_set_id strip_def rstrip_def lstrip_def)

section \<open>The audit record and the state\<close>

definition rivals :: "digest \<Rightarrow> reasoning_hypothesis list" where
  "rivals H = [signed_sample H ''a'' 5000, signed_sample H ''b'' 5000]"

definition rival_set :: "digest \<Rightarrow> reasoning_hypothesis_set" where
  "rival_set H = (let s = \<lparr> hs_schema_version = 1, hs_problem_id = ''p'', hs_hypotheses = rivals H, hs_max_hypotheses = 2,
     hs_mutually_exclusive = True, hs_uncertainty_bp = 5000, hs_evidence_ids = [], hs_update_ids = [], hs_signature = [] \<rparr>
   in s\<lparr>hs_signature := stable_hash H (hypothesis_set_material s)\<rparr>)"

lemma rival_ids: "map rh_hypothesis_id (rivals H) = [''a'', ''b'']"
  by (simp add: rivals_def signed_sample_def sample_hypothesis_def)

lemma sample_valid: "i = ''a'' \<or> i = ''b'' \<Longrightarrow> in_scale p \<Longrightarrow> rhypothesis_post_init (signed_sample H i p) = Inr (signed_sample H i p)"
  by (auto simp: rhypothesis_post_init_def sample_hypothesis_def signed_sample_def
      check_scores_def bounded_score_def HYPOTHESIS_STATUSES_def canonical_strings_def sorted_set_id strip_def rstrip_def lstrip_def is_space_def)

lemma rival_set_simps:
  "hs_hypotheses (rival_set H) = rivals H" "hs_problem_id (rival_set H) = ''p''" "hs_max_hypotheses (rival_set H) = 2"
  "hs_mutually_exclusive (rival_set H) = True" "hs_update_ids (rival_set H) = []" "hs_schema_version (rival_set H) = 1"
  "hs_uncertainty_bp (rival_set H) = 5000" "hs_evidence_ids (rival_set H) = []"
  "hs_signature (rival_set H) = stable_hash H (hypothesis_set_material (rival_set H))"
  by (simp_all add: rival_set_def Let_def hypothesis_set_material_def)

lemma rival_set_valid: "require_integrity H (rival_set H) = Inr ()"
proof -
  have posts: "mapR rhypothesis_post_init (rivals H) = Inr (rivals H)" by (simp add: rivals_def sample_valid)
  have sort: "sort_key rh_hypothesis_id (rivals H) = rivals H"
    by (rule sort_key_id_if_sorted) (simp add: rival_ids)
  have same: "rival_set H\<lparr>hs_hypotheses := rivals H, hs_evidence_ids := [], hs_update_ids := []\<rparr> = rival_set H"
      "rival_set H\<lparr>hs_hypotheses := rivals H\<rparr> = rival_set H"
      "rival_set H\<lparr>hs_evidence_ids := [], hs_update_ids := []\<rparr> = rival_set H"
      "rival_set H\<lparr>hs_evidence_ids := [], hs_update_ids := [], hs_signature := stable_hash H (hypothesis_set_material (rival_set H))\<rparr> = rival_set H"
    by (simp_all add: rival_set_def Let_def hypothesis_set_material_def)
  have mass: "sum_list (map rh_posterior_bp (rivals H)) = SCORE_SCALE" "\<exists>h \<in> set (rivals H). rh_status h \<noteq> ''FALSIFIED''" "rivals H \<noteq> []" "length (rivals H) = 2"
    by (simp_all add: rivals_def signed_sample_def sample_hypothesis_def)
  have "strip ''p'' \<noteq> []" by code_simp
  then have "hypothesis_set_post_init H (rival_set H) = Inr (rival_set H)"
    using mass
    by (simp add: hypothesis_set_post_init_def Let_def rival_set_simps sort rival_ids filter_empty_conv check_scores_def bounded_score_def
        canonical_strings_def sorted_set_id same del: rival_set_simps(9)) (simp add: rival_set_simps(9) [symmetric])
  then show ?thesis using posts by (simp add: require_integrity_def rival_set_simps same)
qed

lemma rival_targets:
  "collision_likelihoods (rival_set H) [''a''] [] 8000 = [(''a'', 2000, 10000), (''b'', 10000, 10000)]"
  by (simp add: collision_likelihoods_def rival_set_simps rivals_def signed_sample_def sample_hypothesis_def
      matches_falsifier_def casefold_def lower_def lower_char_def strip_def rstrip_def lstrip_def)

lemma rival_scores:
  "updated_scores (rival_set H) [(''a'', 2000, 10000), (''b'', 10000, 10000)] = Inr [(''a'', 1667), (''b'', 8333)]"
proof -
  let ?pairs = "[(''a'', 2000, 10000), (''b'', 10000, 10000)] :: likelihoods"
  have weighted: "lookup_field (\<lambda>h. effective_prior (rh_posterior_bp h) * fst (dict_getd ?pairs (rh_hypothesis_id h) (0, 0))) (rivals H) =
      (\<lambda>i. dict_getd [(''a'', 10000000), (''b'', 50000000)] i 0)"
    by (rule ext) (simp add: lookup_field_def rivals_def signed_sample_def sample_hypothesis_def effective_prior_def dict_getd_def)
  have live: "map rh_hypothesis_id (filter (\<lambda>h. rh_status h \<noteq> ''FALSIFIED'' \<and>
      fst (dict_getd ?pairs (rh_hypothesis_id h) (0, 0)) > 0) (rivals H)) = [''a'', ''b'']"
    by (simp add: rivals_def signed_sample_def sample_hypothesis_def dict_getd_def)
  have "normalize_values (\<lambda>i. dict_getd [(''a'', 10000000), (''b'', 50000000)] i 0) [''a'', ''b''] =
      Inr [(''a'', 1667), (''b'', 8333)]"
    by code_simp
  then have "updated_scores (rival_set H) ?pairs =
      Inr (map (\<lambda>h. (rh_hypothesis_id h, dict_getd [(''a'', 1667), (''b'', 8333)] (rh_hypothesis_id h) 0)) (rivals H))"
    unfolding updated_scores_def exclusive_scores_def rival_set_simps if_True Let_def live weighted by simp
  then show ?thesis
    by (simp add: rivals_def signed_sample_def sample_hypothesis_def dict_getd_def)
qed

definition rival :: "digest \<Rightarrow> string \<Rightarrow> int \<Rightarrow> string list \<Rightarrow> string \<Rightarrow> reasoning_hypothesis" where
  "rival H i p conflicts status = (let h = (sample_hypothesis i 5000)\<lparr>rh_posterior_bp := p, rh_conflicting_evidence := conflicts, rh_status := status\<rparr>
     in h\<lparr>rh_signature := stable_hash H (JObj (rhypothesis_fields h))\<rparr>)"

lemma rival_simps [simp]:
  "rh_hypothesis_id (rival H i p cs st) = i" "rh_prior_bp (rival H i p cs st) = 5000" "rh_posterior_bp (rival H i p cs st) = p"
  "rh_supporting_evidence (rival H i p cs st) = []" "rh_conflicting_evidence (rival H i p cs st) = cs"
  "rh_assumptions (rival H i p cs st) = []" "rh_status (rival H i p cs st) = st"
  by (simp_all add: rival_def sample_hypothesis_def Let_def)

lemma sign_rival:
  assumes "i = ''a'' \<or> i = ''b''" "in_scale p" "cs = [] \<or> cs = [''e'']" "st \<in> {''ACTIVE'', ''WEAKENED''}"
  shows "sign_hypothesis H (rival H0 i q cs0 st0\<lparr>rh_posterior_bp := p, rh_supporting_evidence := [],
    rh_conflicting_evidence := cs, rh_status := st\<rparr>) = Inr (rival H i p cs st)"
  using assms by (auto simp: sign_hypothesis_def rhypothesis_post_init_def sample_hypothesis_def rival_def rhypothesis_fields_def Let_def
      check_scores_def bounded_score_def HYPOTHESIS_STATUSES_def canonical_strings_def sorted_set_id strip_def rstrip_def lstrip_def is_space_def)

lemma rivals_eq: "rivals H = [rival H ''a'' 5000 [] ''ACTIVE'', rival H ''b'' 5000 [] ''ACTIVE'']"
  by (simp add: rivals_def signed_sample_def sample_hypothesis_def rival_def Let_def)

lemma resign_rival:
  assumes "i = ''a'' \<or> i = ''b''" "in_scale p" "cs = [] \<or> cs = [''e'']" "st \<in> {''ACTIVE'', ''WEAKENED''}"
  shows "sign_hypothesis H (rival H i p cs st) = Inr (rival H i p cs st)"
    and "in_scale q \<Longrightarrow> sign_hypothesis H (rival H i p cs st\<lparr>rh_prior_bp := 5000, rh_posterior_bp := q\<rparr>) = Inr (rival H i q cs st)"
proof -
  have "rival H i p cs st\<lparr>rh_posterior_bp := q, rh_supporting_evidence := [],
      rh_conflicting_evidence := cs, rh_status := st\<rparr> = rival H i p cs st\<lparr>rh_prior_bp := 5000, rh_posterior_bp := q\<rparr>" for q
    by (simp add: rival_def sample_hypothesis_def Let_def)
  moreover have "rival H i p cs st\<lparr>rh_prior_bp := 5000, rh_posterior_bp := p\<rparr> = rival H i p cs st"
    by (simp add: rival_def sample_hypothesis_def Let_def)
  ultimately show "sign_hypothesis H (rival H i p cs st) = Inr (rival H i p cs st)"
    "in_scale q \<Longrightarrow> sign_hypothesis H (rival H i p cs st\<lparr>rh_prior_bp := 5000, rh_posterior_bp := q\<rparr>) = Inr (rival H i q cs st)"
    using sign_rival [OF assms(1) _ assms(3,4), of _ H H p cs st] assms(2) by metis+
qed

lemma rivals_rebuilt:
  assumes "u = rival H ''a'' 1667 [''e''] ''WEAKENED''" "v = rival H ''b'' 5000 [] ''ACTIVE''"
  shows "\<exists>t. build_hypothesis_set H [Ready u, Ready v] ''p'' 2 True ids = Inr t \<and>
    map (\<lambda>h. (rh_hypothesis_id h, rh_posterior_bp h)) (hs_hypotheses t) = [(''a'', 2500), (''b'', 7500)]"
proof -
  have signed: "sign_hypothesis H u = Inr u" "sign_hypothesis H v = Inr v" by (simp_all add: assms resign_rival)
  have shares: "normalize_values (\<lambda>i. dict_getd [(''a'', 5000), (''b'', 5000)] i 0) [''a'', ''b''] = Inr [(''a'', 5000), (''b'', 5000)]"
    "normalize_values (\<lambda>i. dict_getd [(''a'', 1667), (''b'', 5000)] i 0) [''a'', ''b''] = Inr [(''a'', 2500), (''b'', 7500)]"
    by code_simp+
  have lookup: "lookup_field rh_prior_bp [u, v] = (\<lambda>i. dict_getd [(''a'', 5000), (''b'', 5000)] i 0)"
    "lookup_field rh_posterior_bp [u, v] = (\<lambda>i. dict_getd [(''a'', 1667), (''b'', 5000)] i 0)"
    by (simp_all add: lookup_field_def [abs_def] assms)
  have fields: "field_of PriorBp = rh_prior_bp" "field_of PosteriorBp = rh_posterior_bp" by auto
  have ids: "map rh_hypothesis_id [u, v] = [''a'', ''b'']" "rh_status u \<noteq> ''FALSIFIED''" "rh_status v \<noteq> ''FALSIFIED''"
    by (simp_all add: assms)
  have "normalize_scores [u, v] PriorBp = Inr [(''a'', 5000), (''b'', 5000)]"
    "normalize_scores [u, v] PosteriorBp = Inr [(''a'', 2500), (''b'', 7500)]"
    using shares lookup ids by (simp_all add: normalize_scores_def fields dict_getd_def)
  then have "normalize_hypotheses H [u, v] = Inr [rival H ''a'' 2500 [''e''] ''WEAKENED'', rival H ''b'' 7500 [] ''ACTIVE'']"
    by (simp add: normalize_hypotheses_def dict_getd_def assms resign_rival)
  moreover have "sort_key rh_hypothesis_id [u, v] = [u, v]"
    by (rule sort_key_id_if_sorted) (simp add: assms)
  moreover have "strip ''p'' \<noteq> []" by code_simp
  ultimately show ?thesis
    using signed ids(1)
    by (simp add: build_hypothesis_set_def hypothesis_set_post_init_def hypothesis_uncertainty_bp_def check_scores_def bounded_score_def Let_def)
qed

text \<open>C17. The audit record of a hypothesis update does not have to match the state the update produces.
  In a mutually exclusive set of two hypotheses at 5000 each, a collision of severity 8000 that names
  \<open>a\<close> asks for \<open>a\<close> at 1667 and \<open>b\<close> at 8333. The untargeted \<open>b\<close> comes with equal likelihoods, so the loop
  skips it and keeps its 5000; the set is then normalised again from 1667 and 5000. The record says
  1667, the returned state says 2500.\<close>

theorem exclusive_update_record_diverges:
  assumes "\<And>x. strip (H x) \<noteq> []"
  shows "\<exists>t r. apply_collision_update H (rival_set H) [''a''] [] [''e''] ''c'' 8000 = Inr (t, [r]) \<and>
    hu_hypothesis_id r = ''a'' \<and> hu_previous_posterior_bp r = 5000 \<and> hu_updated_posterior_bp r = 1667 \<and>
    map (\<lambda>h. (rh_hypothesis_id h, rh_posterior_bp h)) (hs_hypotheses t) = [(''a'', 2500), (''b'', 7500)]"
proof -
  let ?a = "rival H ''a'' 5000 [] ''ACTIVE''" and ?b = "rival H ''b'' 5000 [] ''ACTIVE''"
  let ?u = "rival H ''a'' 1667 [''e''] ''WEAKENED''"
  let ?q = "\<lparr> uq_likelihoods = [(''a'', 2000, 10000), (''b'', 10000, 10000)], uq_evidence_ids = [''e''],
         uq_collision_ids = [''c''], uq_polarity = ''counterexample'', uq_operation = ''CFEL_COLLISION_UPDATE'',
         uq_reason = ''CFEL collision contradicted a hypothesis prediction or falsifier'' \<rparr>"
  have hashes: "strip (stable_hash H j) \<noteq> []" for j by (simp add: stable_hash_def assms)
  have canon: "canonical_strings [''e''] = [''e'']" "canonical_strings [''c''] = [''c'']" "sorted_set [''e''] = [''e'']" "sorted_set [] = ([] :: string list)"
    by code_simp+
  have strips: "strip ''p'' \<noteq> []" "strip ''a'' \<noteq> []" "strip ''CFEL_COLLISION_UPDATE'' \<noteq> []" by code_simp+
  have signatures: "strip (rh_signature (rival H i p cs st)) \<noteq> []" for i p cs st by (simp add: rival_def Let_def hashes)
  have statuses: "''ACTIVE'' \<in> set HYPOTHESIS_STATUSES" "''WEAKENED'' \<in> set HYPOTHESIS_STATUSES" by code_simp+
  define raw where "raw = \<lparr> hu_schema_version = 1, hu_update_id = [], hu_problem_id = ''p'',
    hu_hypothesis_id = ''a'', hu_operation = ''CFEL_COLLISION_UPDATE'', hu_evidence_ids = [''e''],
    hu_collision_ids = [''c''], hu_polarity = ''counterexample'', hu_likelihood_if_true_bp = 2000,
    hu_likelihood_if_false_bp = 10000, hu_previous_posterior_bp = 5000, hu_updated_posterior_bp = 1667,
    hu_previous_status = ''ACTIVE'', hu_updated_status = ''WEAKENED'', hu_previous_hypothesis_signature = rh_signature ?a,
    hu_updated_hypothesis_signature = rh_signature ?u,
    hu_reason = ''CFEL collision contradicted a hypothesis prediction or falsifier'', hu_signature = [] \<rparr>"
  obtain r where r: "update_post_init H raw = Inr r"
    "hu_hypothesis_id r = ''a''" "hu_previous_posterior_bp r = 5000" "hu_updated_posterior_bp r = 1667"
    unfolding update_post_init_def Let_def
    by (simp add: raw_def strips signatures statuses check_scores_def bounded_score_def)
  have a: "update_one H ''p'' ?q [(''a'', 1667), (''b'', 8333)] ?a ([], []) = Inr ([?u], [r])"
    using r(1) by (simp add: update_one_def update_polarity_def canon Let_def dict_getd_def status_after_update_def sign_rival raw_def)
  have b: "update_one H ''p'' ?q [(''a'', 1667), (''b'', 8333)] ?b ([?u], [r]) = Inr ([?u, ?b], [r])"
    by (simp add: update_one_def update_polarity_def)
  obtain t where t: "build_hypothesis_set H [Ready ?u, Ready ?b] ''p'' 2 True [hu_update_id r] = Inr t"
    "map (\<lambda>h. (rh_hypothesis_id h, rh_posterior_bp h)) (hs_hypotheses t) = [(''a'', 2500), (''b'', 7500)]"
    using rivals_rebuilt [of ?u H ?b "[hu_update_id r]", OF refl refl] by (elim exE conjE) (rule that)
  have "update_hypothesis_state H (rival_set H) ?q = Inr (t, [r])"
    by (simp add: update_hypothesis_state_def rival_set_valid rival_set_simps rival_ids canon check_scores_def bounded_score_def
        rival_scores rivals_eq a b t(1) Let_def)
  then have "apply_collision_update H (rival_set H) [''a''] [] [''e''] ''c'' 8000 = Inr (t, [r])"
    by (simp add: apply_collision_update_def bounded_score_def rival_targets)
  then show ?thesis using r(2-4) t(2) by (intro exI conjI)
qed

theorem exclusive_update_record_diverges_witness:
  "\<exists>t r. apply_collision_update (\<lambda>_. ''d'') (rival_set (\<lambda>_. ''d'')) [''a''] [] [''e''] ''c'' 8000 = Inr (t, [r]) \<and>
    hu_updated_posterior_bp r = 1667 \<and>
    map (\<lambda>h. (rh_hypothesis_id h, rh_posterior_bp h)) (hs_hypotheses t) = [(''a'', 2500), (''b'', 7500)]"
proof -
  have "strip ''d'' \<noteq> []" by code_simp
  from exclusive_update_record_diverges [of "\<lambda>_. ''d''", OF this] show ?thesis by (elim exE conjE) (intro exI conjI)
qed

end
