(* ===== verification/Cfel.thy ===== *)
theory Cfel
  imports Models RHypotheses "HOL-Library.Sublist"
begin

text \<open>
  \<open>ourd/cfel.py\<close>: a collision is an observation that contradicts what an action expected. Recording
  one counts it against its retry identity, appends the record, and revises the hypotheses of the
  reasoning problem it bears on. The clock is a parameter. The state is returned next to the result:
  when the revision raises, the count and the record stay.
\<close>

text \<open>
  \<open>json.dumps\<close> with \<open>ensure_ascii\<close> on: a character outside the printable ASCII range, which the
  canonical text only has inside strings, becomes an escape.
\<close>

definition ascii_char :: "char \<Rightarrow> string" where
  "ascii_char c = (let n = (of_char c :: nat) in
     if n < 127 then [c] else [CHR 0x5C, CHR ''u'', CHR ''0'', CHR ''0'', hex_digit (n div 16), hex_digit (n mod 16)])"

definition fingerprint :: "digest \<Rightarrow> json \<Rightarrow> string" where
  "fingerprint H v = H (concat (map ascii_char (canonical_json v)))"

record collision_report =
  cr_action_id :: string
  cr_expected :: string
  cr_observed :: string
  cr_objects :: "string list"
  cr_boundary :: string
  cr_active_dimension :: string
  cr_frozen_dimensions :: "string list"
  cr_evidence_ids :: "string list"
  cr_proposed_correction :: string
  cr_falsifier :: string
  cr_disposition :: string
  cr_fingerprint :: string
  cr_severity_bp :: int
  cr_attempt_key :: string
  cr_boundary_signature :: string
  cr_dimension_signature :: string

definition report_fingerprint :: "digest \<Rightarrow> collision_report \<Rightarrow> string" where
  "report_fingerprint H q = (if cr_fingerprint q \<noteq> [] then cr_fingerprint q else fingerprint H (JObj [
     (''action_id'', JStr (cr_action_id q)), (''expected'', JStr (cr_expected q)), (''observed'', JStr (cr_observed q)),
     (''objects'', jstrs (cr_objects q)), (''boundary'', JStr (cr_boundary q)),
     (''active_dimension'', JStr (cr_active_dimension q))]))"

definition retry_identity :: "digest \<Rightarrow> collision_report \<Rightarrow> string" where
  "retry_identity H q = (if cr_attempt_key q \<noteq> [] then cr_attempt_key q else report_fingerprint H q)"

definition counts_as_retry :: "collision_report \<Rightarrow> bool" where
  "counts_as_retry q \<longleftrightarrow> cr_attempt_key q = [] \<or> cr_severity_bp q \<ge> SCORE_SCALE div 2"

definition retries_after :: "digest \<Rightarrow> collision_report \<Rightarrow> runtime_state \<Rightarrow> int" where
  "retries_after H q rs = dict_getd (rs_failed_attempts rs) (retry_identity H q) 0 + (if counts_as_retry q then 1 else 0)"

definition collision_of :: "digest \<Rightarrow> string \<Rightarrow> collision_report \<Rightarrow> runtime_state \<Rightarrow> collision_record" where
  "collision_of H now q rs =
     (let f = report_fingerprint H q; retries = retries_after H q rs;
          occurrence = 1 + int (length (filter (\<lambda>c. co_fingerprint c = f) (rs_collisions rs)))
      in \<lparr> co_collision_id = ''collision:'' @ fingerprint H (JObj [(''fingerprint'', JStr f),
             (''retry_identity'', JStr (retry_identity H q)), (''retry_count'', JInt retries), (''occurrence'', JInt occurrence)]),
           co_timestamp = now, co_action_id = cr_action_id q, co_expected = cr_expected q, co_observed = cr_observed q,
           co_objects = cr_objects q, co_boundary = cr_boundary q, co_active_dimension = cr_active_dimension q,
           co_frozen_dimensions = cr_frozen_dimensions q, co_evidence_ids = cr_evidence_ids q,
           co_proposed_correction = cr_proposed_correction q, co_falsifier = cr_falsifier q, co_retry_count = retries,
           co_disposition = cr_disposition q, co_fingerprint = f, co_severity_bp = cr_severity_bp q,
           co_attempt_key = cr_attempt_key q, co_boundary_signature = cr_boundary_signature q,
           co_dimension_signature = cr_dimension_signature q \<rparr>)"

text \<open>The hypothesis set a collision revises: the authoritative one, or one built from the pool.\<close>

definition hypotheses_under_test :: "digest \<Rightarrow> reasoning_problem \<Rightarrow> runtime_state \<Rightarrow> reasoning_hypothesis_set res" where
  "hypotheses_under_test H problem rs = (case rs_reasoning_hypothesis_state rs of
     Some s \<Rightarrow> Inr s
   | None \<Rightarrow>
       let pool = map snd (rs_reasoning_hypothesis_pool rs); m = max 1 (int (length pool));
           maximum = (case rs_dimension_budget rs of None \<Rightarrow> m | Some d \<Rightarrow> max m (db_max_active_hypotheses d))
       in build_hypothesis_set H (map Ready pool) (rp_problem_id problem) maximum (rp_mutually_exclusive_hypotheses problem) [])"

definition install_revision :: "reasoning_hypothesis_set \<Rightarrow> hypothesis_update list \<Rightarrow> runtime_state \<Rightarrow> runtime_state" where
  "install_revision revised updates rs =
     (let known = map hu_update_id (rs_reasoning_hypothesis_updates rs);
          rs = set_reasoning_hypothesis_state (Some revised) rs
      in rs\<lparr>rs_reasoning_hypothesis_updates := rs_reasoning_hypothesis_updates rs @ filter (\<lambda>u. hu_update_id u \<notin> set known) updates,
            rs_reasoning_candidates := None, rs_reasoning_topology := None, rs_last_reasoning_certificate := None,
            rs_reasoning_transition_index := rs_reasoning_transition_index rs + 1\<rparr>)"

definition revise_hypotheses :: "digest \<Rightarrow> collision_report \<Rightarrow> string \<Rightarrow> runtime_state \<Rightarrow> runtime_state res" where
  "revise_hypotheses H q collision_id rs =
     (case rs_reasoning_problem rs of
        None \<Rightarrow> Inr rs
      | Some problem \<Rightarrow>
          if cr_severity_bp q \<le> 0 \<or> rs_reasoning_hypothesis_pool rs = [] then Inr rs
          else bindR (hypotheses_under_test H problem rs) (\<lambda>s.
               bindR (apply_collision_update H s (cr_objects q) (cr_falsifier q) (cr_evidence_ids q) collision_id (cr_severity_bp q)) (\<lambda>(revised, updates).
                 Inr (if hs_signature revised \<noteq> hs_signature s then install_revision revised updates rs else rs))))"

definition record_collision :: "digest \<Rightarrow> string \<Rightarrow> collision_report \<Rightarrow> runtime_state \<Rightarrow> runtime_state \<times> collision_record res" where
  "record_collision H now q rs =
     (if \<not> in_scale (cr_severity_bp q) then (rs, Inl (PolicyError ''collision severity must be 0..10000''))
      else let c = collision_of H now q rs;
               counted = (if counts_as_retry q
                 then rs\<lparr>rs_failed_attempts := dict_set (retry_identity H q) (retries_after H q rs) (rs_failed_attempts rs)\<rparr> else rs);
               recorded = counted\<lparr>rs_collisions := rs_collisions counted @ [c]\<rparr>
           in (case revise_hypotheses H q (co_collision_id c) recorded of
                 Inl e \<Rightarrow> (recorded, Inl e)
               | Inr revised \<Rightarrow> (revised, Inr c)))"

section \<open>The hypothesis projection survives\<close>

lemma update_post_init_hypothesis: "update_post_init H u = Inr v \<Longrightarrow> hu_hypothesis_id v = hu_hypothesis_id u"
  unfolding update_post_init_def Let_def by (auto simp: res_simps)

lemma update_one_records:
  assumes "update_one H pid q scores h (hs, records) = Inr (hs', records')"
  shows "records' = records \<or> (\<exists>u. records' = records @ [u] \<and> hu_hypothesis_id u = rh_hypothesis_id h)"
proof -
  have "yields (update_one H pid q scores h (hs, records)) (\<lambda>r. snd r = records \<or>
      (\<exists>u. snd r = records @ [u] \<and> hu_hypothesis_id u = rh_hypothesis_id h))"
    unfolding update_one_def Let_def prod.case
    by (intro yields_intro) (auto dest: update_post_init_hypothesis)
  from yieldsD [OF this assms] show ?thesis by simp
qed

lemma update_loop_records:
  "foldR (update_one H pid q scores) xs (hs, records) = Inr (hs', records') \<Longrightarrow>
     \<exists>new. records' = records @ new \<and> subseq (map hu_hypothesis_id new) (map rh_hypothesis_id xs)"
proof (induction xs arbitrary: hs records)
  case (Cons x xs)
  then obtain hs1 records1 where one: "update_one H pid q scores x (hs, records) = Inr (hs1, records1)"
    and rest: "foldR (update_one H pid q scores) xs (hs1, records1) = Inr (hs', records')"
    by (auto simp: bindR_Inr)
  obtain new where new: "records' = records1 @ new" "subseq (map hu_hypothesis_id new) (map rh_hypothesis_id xs)"
    using Cons.IH [OF rest] by blast
  show ?case
    using update_one_records [OF one] new by (auto intro: list_emb_Cons)
qed simp

text \<open>What an update returns: nothing new, or a set that carries the records it made, one per hypothesis.\<close>

lemma build_update_ids:
  assumes "build_hypothesis_set H ps pid n ex ids = Inr t"
  shows "set (hs_update_ids t) \<subseteq> set ids"
proof -
  have "yields (build_hypothesis_set H ps pid n ex ids) (\<lambda>t. set (hs_update_ids t) \<subseteq> set ids)"
    unfolding build_hypothesis_set_def Let_def
    by (intro yields_intro) (auto simp: yields_def dest!: hypothesis_set_post_init_cases)
  from yieldsD [OF this assms] show ?thesis .
qed

lemma rhypothesis_post_init_id: "rhypothesis_post_init h = Inr u \<Longrightarrow> rh_hypothesis_id h = rh_hypothesis_id u"
  unfolding rhypothesis_post_init_def by (auto simp: res_simps)

lemma integrity_distinct:
  assumes "require_integrity H s = Inr ()"
  shows "distinct (map rh_hypothesis_id (hs_hypotheses s))"
proof -
  obtain hs t where hs: "mapR rhypothesis_post_init (hs_hypotheses s) = Inr hs"
    "hypothesis_set_post_init H (s\<lparr>hs_hypotheses := hs\<rparr>) = Inr t"
    using assms by (auto simp: require_integrity_def bindR_Inr)
  have "map rh_hypothesis_id (hs_hypotheses s) = map rh_hypothesis_id hs"
    using hs(1) by (intro list_all2_map_eq) (auto simp: mapR_Inr elim!: list_all2_mono dest: rhypothesis_post_init_id)
  moreover have "distinct (map rh_hypothesis_id hs)"
    using hypothesis_set_post_init_cases [OF hs(2)] by (simp add: distinct_map)
  ultimately show ?thesis by simp
qed

lemma subseq_distinct: "subseq xs ys \<Longrightarrow> distinct ys \<Longrightarrow> distinct xs"
  by (induction rule: list_emb.induct) (auto dest: list_emb_set)

lemma update_result:
  assumes "update_hypothesis_state H s q = Inr (t, updates)"
  shows "(t = s \<and> updates = []) \<or> (set (hs_update_ids t) \<subseteq> set (hs_update_ids s) \<union> set (map hu_update_id updates) \<and>
    distinct (map hu_hypothesis_id updates))"
proof -
  obtain scores hs records where integrity: "require_integrity H s = Inr ()"
    and loop: "foldR (update_one H (hs_problem_id s) q scores) (hs_hypotheses s) ([], []) = Inr (hs, records)"
    and rest: "(if records = [] then Inr (s, []) else bindR (build_hypothesis_set H (map Ready hs) (hs_problem_id s)
        (hs_max_hypotheses s) (hs_mutually_exclusive s) (hs_update_ids s @ map hu_update_id records))
        (\<lambda>t. Inr (t, sort_key hu_update_id records))) = Inr (t, updates)"
    using assms unfolding update_hypothesis_state_def Let_def
    by (simp only: guard_Inr bindR_Inr) (elim exE conjE, simp split: prod.splits)
  have "distinct (map hu_hypothesis_id records)"
    using update_loop_records [OF loop] integrity_distinct [OF integrity] subseq_distinct by fastforce
  then show ?thesis
    using rest build_update_ids by (fastforce simp: bindR_Inr distinct_map split: if_splits)
qed

lemma collision_update_result:
  assumes "apply_collision_update H s objects f evidence cid severity = Inr (t, updates)"
  shows "(t = s \<and> updates = []) \<or> (set (hs_update_ids t) \<subseteq> set (hs_update_ids s) \<union> set (map hu_update_id updates) \<and>
    distinct (map hu_hypothesis_id updates))"
proof (cases "collision_likelihoods s objects f severity = []")
  case True
  then show ?thesis using assms unfolding apply_collision_update_def Let_def by (auto simp: bindR_Inr)
next
  case False
  then obtain q where "update_hypothesis_state H s q = Inr (t, updates)"
    using assms unfolding apply_collision_update_def Let_def by (auto simp: bindR_Inr)
  then show ?thesis by (rule update_result)
qed

text \<open>The revision keeps the projection, unless the digest gives two hypotheses the same update.\<close>

lemma install_revision_projection:
  assumes "validate_reasoning_hypothesis_projection rs = Inr ()" "rs_reasoning_hypothesis_state rs = Some s"
    and "set (hs_update_ids t) \<subseteq> set (hs_update_ids s) \<union> set (map hu_update_id updates)" "distinct (map hu_hypothesis_id updates)"
  shows "validate_reasoning_hypothesis_projection (install_revision t updates rs) = Inr () \<or>
    (\<exists>u \<in> set updates. \<exists>v \<in> set updates. hu_hypothesis_id u \<noteq> hu_hypothesis_id v \<and> hu_update_id u = hu_update_id v)"
proof (cases "inj_on hu_update_id (set updates)")
  case True
  let ?old = "rs_reasoning_hypothesis_updates rs"
  have valid: "distinct (map hu_update_id ?old)" "set (hs_update_ids s) \<subseteq> set (map hu_update_id ?old)"
    using assms(1,2) by (auto simp: validate_reasoning_hypothesis_projection_def Let_def split: if_splits)
  let ?new = "?old @ filter (\<lambda>u. hu_update_id u \<notin> set (map hu_update_id ?old)) updates"
  have "distinct updates" using assms(4) by (simp add: distinct_map)
  then have "distinct (map hu_update_id ?new)" using valid(1) True by (auto simp: distinct_map rev_image_eqI intro: inj_on_subset)
  moreover have "set (hs_update_ids t) \<subseteq> set (map hu_update_id ?new)" using assms(3) valid(2) by fastforce
  ultimately show ?thesis
    by (simp add: validate_reasoning_hypothesis_projection_def install_revision_def set_reasoning_hypothesis_state_def Let_def dict_eq_iff)
next
  case False
  then obtain u v where "u \<in> set updates" "v \<in> set updates" "hu_update_id u = hu_update_id v" "u \<noteq> v"
    by (auto simp: inj_on_def)
  then show ?thesis using assms(4) by (auto simp: distinct_map inj_on_def)
qed

lemma under_test_valid:
  assumes "validate_reasoning_hypothesis_projection rs = Inr ()" "rs_reasoning_hypothesis_pool rs \<noteq> []"
    "hypotheses_under_test H problem rs = Inr s"
  shows "rs_reasoning_hypothesis_state rs = Some s"
  using assms by (cases "rs_reasoning_hypothesis_state rs")
    (simp_all add: hypotheses_under_test_def validate_reasoning_hypothesis_projection_def)

lemma revise_cases:
  assumes "revise_hypotheses H q cid rs = Inr rs'"
  shows "rs' = rs \<or> (\<exists>problem s t updates. rs_reasoning_hypothesis_pool rs \<noteq> [] \<and> hypotheses_under_test H problem rs = Inr s \<and>
    apply_collision_update H s (cr_objects q) (cr_falsifier q) (cr_evidence_ids q) cid (cr_severity_bp q) = Inr (t, updates) \<and>
    rs' = install_revision t updates rs)"
  using assms unfolding revise_hypotheses_def
  by (cases "rs_reasoning_problem rs") (auto simp: bindR_Inr split: if_splits prod.splits)


definition sample_report :: collision_report where
  "sample_report = \<lparr> cr_action_id = ''act'', cr_expected = ''pass'', cr_observed = ''fail'', cr_objects = [''a''],
     cr_boundary = [], cr_active_dimension = [], cr_frozen_dimensions = [], cr_evidence_ids = [''e''],
     cr_proposed_correction = [], cr_falsifier = [], cr_disposition = ''recorded'', cr_fingerprint = ''f'',
     cr_severity_bp = 8000, cr_attempt_key = [], cr_boundary_signature = [], cr_dimension_signature = [] \<rparr>"


end
