(* ===== verification/Persistence.thy ===== *)
theory Persistence
  imports Models RHypotheses "HOL-Library.Sublist"
begin

text \<open>
  \<open>ourd/persistence.py\<close>: the hash-chained event log, the redaction of what is written to it, the
  migrations of stored runtime states and the state store. An event is the dictionary of its line;
  the log is the list of them, which \<open>json.dumps\<close> and \<open>json.loads\<close> carry to and from the file.
  Identifiers, the clock and the process environment are parameters. \<open>None\<close> is the JSON null. The
  conversion between the runtime state and its dictionary (\<open>asdict\<close>, \<open>RuntimeState.from_dict\<close>) is
  an argument of the operations that use it.
\<close>

section \<open>Redaction\<close>

text \<open>
  The two regular expressions, read as Python's backtracking matcher reads them: each part lists its
  matches in the order in which they are tried, and the first complete match wins.
\<close>

type_synonym 'a matches = "('a \<times> string) list"

fun runs :: "(char \<Rightarrow> bool) \<Rightarrow> string \<Rightarrow> string matches" where
  "runs p [] = [([], [])]"
| "runs p (c # cs) = (if p c then map (\<lambda>(a, r). (c # a, r)) (runs p cs) else []) @ [([], c # cs)]"

definition runs1 :: "(char \<Rightarrow> bool) \<Rightarrow> string \<Rightarrow> string matches" where
  "runs1 p s = filter (\<lambda>(a, r). a \<noteq> []) (runs p s)"

definition one :: "(char \<Rightarrow> bool) \<Rightarrow> string \<Rightarrow> string matches" where
  "one p s = (case s of c # cs \<Rightarrow> if p c then [([c], cs)] else [] | [] \<Rightarrow> [])"

definition literal :: "string \<Rightarrow> string \<Rightarrow> string matches" where
  "literal w s = (if lower (take (length w) s) = w then [(take (length w) s, drop (length w) s)] else [])"

definition any_literal :: "string list \<Rightarrow> string \<Rightarrow> string matches" where
  "any_literal ws s = concat (map (\<lambda>w. literal w s) ws)"

definition chain :: "(string \<Rightarrow> string matches) \<Rightarrow> (string \<Rightarrow> string matches) \<Rightarrow> string \<Rightarrow> string matches" where
  "chain m n s = concat (map (\<lambda>(a, r). map (\<lambda>(b, q). (a @ b, q)) (n r)) (m s))"

definition is_word :: "char \<Rightarrow> bool" where
  "is_word c = (let n = (of_char c :: nat) in
     (48 \<le> n \<and> n \<le> 57) \<or> (65 \<le> n \<and> n \<le> 90) \<or> n = 95 \<or> (97 \<le> n \<and> n \<le> 122) \<or>
     n \<in> {170, 178, 179, 181, 185, 186, 188, 189, 190} \<or> (192 \<le> n \<and> n \<noteq> 215 \<and> n \<noteq> 247))"

definition is_ascii_alnum :: "char \<Rightarrow> bool" where
  "is_ascii_alnum c = (let n = (of_char c :: nat) in (48 \<le> n \<and> n \<le> 57) \<or> (65 \<le> n \<and> n \<le> 90) \<or> (97 \<le> n \<and> n \<le> 122))"

definition ASSIGNED_NAMES :: "string list" where
  "ASSIGNED_NAMES = [''api_key'', ''api-key'', ''apikey'', ''access_token'', ''access-token'', ''accesstoken'',
     ''refresh_token'', ''refresh-token'', ''refreshtoken'', ''secret'', ''password'', ''authorization'']"

definition assigned_name :: "string \<Rightarrow> string matches" where
  "assigned_name = chain (runs (\<lambda>c. is_ascii_alnum c \<or> c \<in> {CHR ''_'', CHR ''-''})) (any_literal ASSIGNED_NAMES)"

definition assign_sign :: "string \<Rightarrow> string matches" where
  "assign_sign = chain (runs is_space) (chain (one (\<lambda>c. c = CHR '':'' \<or> c = CHR ''='')) (runs is_space))"

definition assigned_value :: "string \<Rightarrow> string matches" where
  "assigned_value = runs1 (\<lambda>c. \<not> is_space c \<and> c \<noteq> CHR '','' \<and> c \<noteq> CHR '';'')"

text \<open>A match: what it consumes, what replaces it, and the rest.\<close>

type_synonym rewrite = "(string \<times> string \<times> string) option"

definition first_match :: "'a list \<Rightarrow> 'a option" where
  "first_match xs = (case xs of [] \<Rightarrow> None | x # _ \<Rightarrow> Some x)"

definition assignment_at :: "string \<Rightarrow> rewrite" where
  "assignment_at s = first_match (concat (map (\<lambda>(name, r). concat (map (\<lambda>(sign, q).
     map (\<lambda>(v, t). (name @ sign @ v, name @ sign @ ''<redacted>'', t)) (assigned_value q)) (assign_sign r))) (assigned_name s)))"

definition bearer_at :: "string \<Rightarrow> rewrite" where
  "bearer_at s = map_option (\<lambda>(a, r). (a, ''Bearer <redacted>'', r)) (first_match (chain (literal ''bearer'')
     (chain (runs1 is_space) (runs1 (\<lambda>c. is_ascii_alnum c \<or> c \<in> set ''._~+/=-''))) s))"

text \<open>\<open>re.sub\<close> of a pattern that starts at a word boundary and never matches the empty string.\<close>

function sub_words :: "(string \<Rightarrow> rewrite) \<Rightarrow> bool \<Rightarrow> string \<Rightarrow> string" where
  "sub_words m after_word [] = []"
| "sub_words m after_word (c # cs) =
     (case (if after_word \<noteq> is_word c then m (c # cs) else None) of
        Some (a, b, r) \<Rightarrow> if length r < length (c # cs) then b @ sub_words m (is_word (last a)) r else c # sub_words m (is_word c) cs
      | None \<Rightarrow> c # sub_words m (is_word c) cs)"
  by pat_completeness auto
termination by (relation "measure (\<lambda>(m, w, s). length s)") auto

definition SENSITIVE_WORDS :: "string list" where
  "SENSITIVE_WORDS = [''api_key'', ''api-key'', ''apikey'', ''token'', ''secret'', ''password'', ''authorization'']"

definition sensitive_key :: "string \<Rightarrow> bool" where
  "sensitive_key k \<longleftrightarrow> list_ex (\<lambda>w. contains w (lower k)) SENSITIVE_WORDS"

definition NON_SECRET_TOKEN_KEYS :: "string list" where
  "NON_SECRET_TOKEN_KEYS = [''input_tokens'', ''max_tokens'', ''output_tokens'', ''token_budget'', ''token_count'',
     ''tokens'', ''total_tokens'', ''tokens_after'', ''tokens_before'']"

text \<open>
  The environment, and \<open>re.sub\<close> of a configured pattern by \<open>"<redacted>"\<close> (\<open>str.replace\<close> of it where it
  is not a regular expression).
\<close>

record redactor =
  rd_environ :: "(string, string) dict"
  rd_configured :: "string \<Rightarrow> string \<Rightarrow> string"

definition redact_text :: "redactor \<Rightarrow> string \<Rightarrow> string" where
  "redact_text R s =
     (let s = sub_words bearer_at False (sub_words assignment_at False s);
          patterns = filter (\<lambda>p. p \<noteq> []) (map strip (split_on CHR '','' (dict_getd (rd_environ R) ''OURD_SECRET_PATTERNS'' [])));
          s = foldl (\<lambda>s p. rd_configured R p s) s patterns
      in foldl (\<lambda>s (k, secret). if secret \<noteq> [] \<and> sensitive_key k \<and> length secret \<ge> 6
           then replace_text secret ''<redacted>'' None s else s) s (rd_environ R))"

fun is_number :: "json \<Rightarrow> bool" where
  "is_number (JInt i) = True"
| "is_number v = False"

definition hides :: "string \<Rightarrow> json \<Rightarrow> bool" where
  "hides k v \<longleftrightarrow> sensitive_key k \<and> casefold k \<notin> set NON_SECRET_TOKEN_KEYS \<and>
     \<not> (is_number v \<and> ends_with (casefold k) ''_tokens'')"

fun redact :: "redactor \<Rightarrow> json \<Rightarrow> json" where
  "redact R (JObj kvs) = JObj (map (\<lambda>kv. (fst kv, if hides (fst kv) (snd kv) then JStr ''<redacted>'' else redact R (snd kv))) kvs)"
| "redact R (JList vs) = JList (map (redact R) vs)"
| "redact R (JStr s) = JStr (redact_text R s)"
| "redact R v = v"

section \<open>Migrations\<close>

type_synonym payload = "(string, json) dict"

definition jget :: "payload \<Rightarrow> string \<Rightarrow> json" where
  "jget d k = dict_getd d k JNull"

fun is_dict :: "json \<Rightarrow> bool" where
  "is_dict (JObj d) = True"
| "is_dict v = False"

fun as_dict :: "json \<Rightarrow> payload" where
  "as_dict (JObj d) = d"
| "as_dict v = []"

text \<open>\<open>int(v)\<close> of a decoded value; a string is read as a decimal numeral.\<close>

definition digits_of :: "string \<Rightarrow> int res" where
  "digits_of s = (let parts = split_on CHR ''_'' s in
     if list_ex (\<lambda>w. w = [] \<or> \<not> list_all digit_char w) parts then Inl (ValueError ''invalid literal for int()'')
     else Inr (int (digits_val 0 (concat parts))))"

fun to_int :: "json \<Rightarrow> int res" where
  "to_int (JInt i) = Inr i"
| "to_int (JBool b) = Inr (if b then 1 else 0)"
| "to_int (JStr s) = (case strip s of
     [] \<Rightarrow> Inl (ValueError ''invalid literal for int()'')
   | c # cs \<Rightarrow> if c = CHR ''-'' then bindR (digits_of cs) (\<lambda>n. Inr (- n))
       else if c = CHR ''+'' then digits_of cs else digits_of (c # cs))"
| "to_int v = Inl (TypeError ''int() argument must be a string or a number'')"

fun truthy :: "json \<Rightarrow> bool" where
  "truthy JNull = False"
| "truthy (JBool b) = b"
| "truthy (JInt i) = (i \<noteq> 0)"
| "truthy (JStr s) = (s \<noteq> [])"
| "truthy (JList vs) = (vs \<noteq> [])"
| "truthy (JObj d) = (d \<noteq> [])"

definition expect_version :: "int \<Rightarrow> payload \<Rightarrow> unit res" where
  "expect_version n d = bindR (to_int (dict_getd d ''schema_version'' (JInt n))) (\<lambda>v.
     if v \<noteq> n then Inl (StateError ''runtime migration requires another schema version'') else Inr ())"

definition set_defaults :: "payload \<Rightarrow> payload \<Rightarrow> payload" where
  "set_defaults defaults d = foldl (\<lambda>d (k, v). dict_setdefault k v d) d defaults"

text \<open>Fills defaults into the value of a key, into the values of the dictionary it holds, into the items of the list it holds.\<close>

fun fill :: "payload \<Rightarrow> json \<Rightarrow> json" where
  "fill defaults (JObj d) = JObj (set_defaults defaults d)"
| "fill defaults v = v"

definition fill_at :: "string \<Rightarrow> payload \<Rightarrow> payload \<Rightarrow> payload" where
  "fill_at k defaults d = (case dict_get d k of None \<Rightarrow> d | Some v \<Rightarrow> dict_set k (fill defaults v) d)"

definition fill_values :: "string \<Rightarrow> payload \<Rightarrow> payload \<Rightarrow> payload res" where
  "fill_values k defaults d = (case dict_get d k of
     None \<Rightarrow> Inr d
   | Some (JObj e) \<Rightarrow> Inr (dict_set k (JObj (map (\<lambda>(n, v). (n, fill defaults v)) e)) d)
   | Some _ \<Rightarrow> Inl (AttributeError ''values''))"

definition fill_items :: "string \<Rightarrow> payload \<Rightarrow> payload \<Rightarrow> payload res" where
  "fill_items k defaults d = (case dict_get d k of
     None \<Rightarrow> Inr d
   | Some (JList vs) \<Rightarrow> Inr (dict_set k (JList (map (fill defaults) vs)) d)
   | Some (JObj e) \<Rightarrow> Inr d
   | Some (JStr s) \<Rightarrow> Inr d
   | Some _ \<Rightarrow> Inl (TypeError ''object is not iterable''))"

definition set_version :: "int \<Rightarrow> payload \<Rightarrow> payload" where
  "set_version n d = dict_set ''schema_version'' (JInt n) d"

definition migrate_v1_to_v2 :: "payload \<Rightarrow> payload res" where
  "migrate_v1_to_v2 d = bindR (expect_version 1 d) (\<lambda>_.
     let d = set_defaults [(''boundary_state'', JNull), (''dimension_budget'', JNull), (''finite_evidence'', JNull),
           (''hypothesis_state'', JNull), (''last_progress'', JNull), (''transition_index'', JInt 0),
           (''control_only_progress_streak'', JInt 0)] (set_version 2 d);
         d = fill_at ''pending_action'' [(''varied_dimensions'', JList [])] d
     in bindR (fill_values ''evidence_registry''
          [(''requirement_ids'', JList []), (''quality_bp'', JInt 10000), (''polarity'', JStr ''support'')] d) (\<lambda>d.
        fill_items ''collisions'' [(''severity_bp'', JInt 0), (''attempt_key'', JStr []),
          (''boundary_signature'', JStr []), (''dimension_signature'', JStr [])] d))"

definition migrate_v2_to_v3 :: "payload \<Rightarrow> payload res" where
  "migrate_v2_to_v3 d = bindR (expect_version 2 d) (\<lambda>_.
     Inr (fill_at ''pending_action'' [(''reasoning_certificate_signature'', JStr []), (''reasoning_winning_path_id'', JStr [])]
       (set_defaults [(''reasoning_problem'', JNull), (''reasoning_hypothesis_state'', JNull),
          (''reasoning_hypothesis_pool'', JObj []), (''reasoning_topology'', JNull), (''reasoning_candidates'', JNull),
          (''last_reasoning_certificate'', JNull), (''reasoning_transition_index'', JInt 0)] (set_version 3 d))))"

text \<open>
  A stored hypothesis as a proposal. The fields have the types the earlier schemas wrote; another type
  is an error here, where Python would go on with its text.
\<close>

fun as_text :: "json \<Rightarrow> string res" where
  "as_text (JStr s) = Inr s"
| "as_text v = Inl (TypeError ''text expected'')"

fun as_texts :: "json \<Rightarrow> string list res" where
  "as_texts (JList vs) = mapR as_text vs"
| "as_texts v = Inl (TypeError ''list expected'')"

fun stored_hypothesis :: "json \<Rightarrow> proposal res" where
  "stored_hypothesis (JObj d) =
     bindR (as_text (dict_getd d ''proposition'' (JStr []))) (\<lambda>proposition.
     bindR (as_text (dict_getd d ''hypothesis_id'' (JStr []))) (\<lambda>i.
     bindR (to_int (dict_getd d ''prior_bp'' (JInt 0))) (\<lambda>prior.
     bindR (to_int (dict_getd d ''posterior_bp'' (dict_getd d ''prior_bp'' (JInt 0)))) (\<lambda>posterior.
     bindR (as_texts (dict_getd d ''supporting_evidence'' (JList []))) (\<lambda>supporting.
     bindR (as_texts (dict_getd d ''conflicting_evidence'' (JList []))) (\<lambda>conflicting.
     bindR (as_texts (dict_getd d ''assumptions'' (JList []))) (\<lambda>assumptions.
     bindR (as_texts (dict_getd d ''predictions'' (JList []))) (\<lambda>predictions.
     bindR (as_texts (dict_getd d ''falsifiers'' (JList []))) (\<lambda>falsifiers.
     bindR (as_text (dict_getd d ''status'' (JStr ''ACTIVE''))) (\<lambda>status.
       Inr (Raw \<lparr> rh_hypothesis_id = i, rh_proposition = proposition, rh_prior_bp = prior, rh_posterior_bp = prior,
         rh_supporting_evidence = supporting, rh_conflicting_evidence = conflicting, rh_assumptions = assumptions,
         rh_predictions = predictions, rh_falsifiers = falsifiers, rh_status = status, rh_signature = [] \<rparr> (Some posterior))))))))))))"
| "stored_hypothesis v = Inl (TypeError ''hypothesis must be an object'')"

definition hypothesis_set_json :: "reasoning_hypothesis_set \<Rightarrow> json" where
  "hypothesis_set_json s = JObj (as_dict (hypothesis_set_material s) @ [(''signature'', JStr (hs_signature s))])"

definition legacy_pool :: "payload \<Rightarrow> json" where
  "legacy_pool d = (let v = jget d ''hypothesis_pool'' in if is_dict v then v else JObj [])"

definition rebuild_pool :: "digest \<Rightarrow> payload \<Rightarrow> payload \<Rightarrow> payload res" where
  "rebuild_pool H pool d =
     (let problem = jget d ''reasoning_problem''; budget = jget d ''dimension_budget''; n = int (length pool)
      in bindR (if is_dict problem then as_text (dict_getd (as_dict problem) ''problem_id'' (JStr [])) else Inr []) (\<lambda>given.
         let problem_id = (if given = [] then ''legacy:unbound-hypothesis-state'' else given);
             exclusive = (is_dict problem \<and> truthy (dict_getd (as_dict problem) ''mutually_exclusive_hypotheses'' (JBool False)))
         in bindR (if is_dict budget then bindR (to_int (dict_getd (as_dict budget) ''max_active_hypotheses'' (JInt n))) (\<lambda>m. Inr (max n m))
                   else Inr n) (\<lambda>maximum.
            bindR (mapR (stored_hypothesis \<circ> snd) pool) (\<lambda>proposals.
            bindR (build_hypothesis_set H proposals problem_id (max 1 maximum) exclusive []) (\<lambda>s.
              Inr (dict_set ''reasoning_hypothesis_pool'' (JObj (foldl (\<lambda>p h. dict_set (rh_hypothesis_id h) (rhypothesis_json h) p) [] (hs_hypotheses s)))
                (dict_set ''reasoning_hypothesis_state'' (hypothesis_set_json s) d)))))))"

definition migrate_v3_to_v4 :: "digest \<Rightarrow> payload \<Rightarrow> payload res" where
  "migrate_v3_to_v4 H d = bindR (expect_version 3 d) (\<lambda>_.
     let legacy = legacy_pool d;
         d = dict_setdefault ''reasoning_hypothesis_pool'' legacy (dict_pop ''hypothesis_pool'' (set_version 4 d))
     in (case jget d ''reasoning_hypothesis_pool'' of
           JObj pool \<Rightarrow>
             let pool = map (\<lambda>(k, v). (k, fill [(''predictions'', JList [])] v)) pool;
                 d = dict_set ''reasoning_hypothesis_pool'' (JObj pool) d
             in bindR (if pool \<noteq> [] then rebuild_pool H pool d
                       else Inr (dict_set ''reasoning_hypothesis_state'' JNull d)) (\<lambda>d.
                Inr (dict_setdefault ''reasoning_hypothesis_updates'' (JList []) d))
         | _ \<Rightarrow> Inl (StateError ''runtime reasoning hypothesis pool must be an object'')))"

definition legacy_updates :: "payload \<Rightarrow> json" where
  "legacy_updates d = (case jget d ''hypothesis_updates'' of JList vs \<Rightarrow> JList vs | _ \<Rightarrow> JList [])"

definition rename_legacy :: "payload \<Rightarrow> payload" where
  "rename_legacy d =
     (let pool = legacy_pool d; updates = legacy_updates d
      in set_defaults [(''reasoning_hypothesis_updates'', updates), (''reasoning_budget'', JNull), (''reasoning_context'', JNull),
           (''reasoning_contradictions'', JList []), (''last_synthesis'', JNull), (''next_reasoning_operation'', JNull)]
         (dict_pop ''hypothesis_updates'' (dict_setdefault ''reasoning_hypothesis_pool'' pool (dict_pop ''hypothesis_pool'' d))))"

definition migrate_v4_to_v5 :: "payload \<Rightarrow> payload res" where
  "migrate_v4_to_v5 d = bindR (expect_version 4 d) (\<lambda>_. Inr (rename_legacy (set_version 5 d)))"

definition is_reasoning_hypothesis_state :: "json \<Rightarrow> bool" where
  "is_reasoning_hypothesis_state v = (case v of
     JObj d \<Rightarrow> list_ex (\<lambda>k. dict_get d k \<noteq> None) [''problem_id'', ''mutually_exclusive'', ''update_ids''] \<or>
       (case jget d ''hypotheses'' of
          JList hs \<Rightarrow> list_ex (\<lambda>h. is_dict h \<and> (dict_get (as_dict h) ''prior_bp'' \<noteq> None \<or> dict_get (as_dict h) ''posterior_bp'' \<noteq> None)) hs
        | _ \<Rightarrow> False)
   | _ \<Rightarrow> False)"

definition migrate_v5_to_v6 :: "payload \<Rightarrow> payload res" where
  "migrate_v5_to_v6 d = bindR (expect_version 5 d) (\<lambda>_.
     let d = rename_legacy (set_version 6 d); legacy = jget d ''hypothesis_state'';
         d = (if jget d ''reasoning_hypothesis_state'' = JNull \<and> is_reasoning_hypothesis_state legacy
              then dict_set ''hypothesis_state'' JNull (dict_set ''reasoning_hypothesis_state'' legacy d)
              else dict_setdefault ''reasoning_hypothesis_state'' JNull d)
     in Inr (dict_setdefault ''control_only_progress_streak'' (JInt 0) d))"

text \<open>The chain of migrations of \<open>StateStore.load\<close>: from the stored version to the current one.\<close>

definition migrate :: "digest \<Rightarrow> int \<Rightarrow> payload \<Rightarrow> payload res" where
  "migrate H version d =
     (if version = 1 then bindR (migrate_v1_to_v2 d) (\<lambda>d. bindR (migrate_v2_to_v3 d) (\<lambda>d.
          bindR (migrate_v3_to_v4 H d) (\<lambda>d. bindR (migrate_v4_to_v5 d) migrate_v5_to_v6)))
      else if version = 2 then bindR (migrate_v2_to_v3 d) (\<lambda>d. bindR (migrate_v3_to_v4 H d) (\<lambda>d.
          bindR (migrate_v4_to_v5 d) migrate_v5_to_v6))
      else if version = 3 then bindR (migrate_v3_to_v4 H d) (\<lambda>d. bindR (migrate_v4_to_v5 d) migrate_v5_to_v6)
      else if version = 4 then bindR (migrate_v4_to_v5 d) migrate_v5_to_v6
      else if version = 5 then migrate_v5_to_v6 d
      else if version \<noteq> 6 then Inl (StateError ''unsupported runtime state schema'')
      else Inr d)"

section \<open>The event log\<close>

type_synonym event = payload

definition event_material :: "event \<Rightarrow> json" where
  "event_material e = JObj (map (\<lambda>k. (k, jget e k)) [''event_id'', ''timestamp'', ''previous_hash'', ''event_type''] @
     [(''payload_hash'', jget e ''payload_hash'')] @
     (if list_ex (\<lambda>k. dict_get e k \<noteq> None) [''run_id'', ''action_id'', ''transaction_id'']
      then map (\<lambda>k. (k, dict_getd e k (JStr []))) [''run_id'', ''action_id'', ''transaction_id''] else []))"

definition validate_event :: "digest \<Rightarrow> event \<Rightarrow> string \<Rightarrow> string res" where
  "validate_event H e previous =
     (let expected = stable_hash H (event_material e)
      in if jget e ''payload_hash'' \<noteq> JStr (stable_hash H (jget e ''payload'')) then Inl (StateError ''event payload hash mismatch'')
         else if jget e ''previous_hash'' \<noteq> JStr previous then Inl (StateError ''event previous hash mismatch'')
         else if jget e ''event_hash'' \<noteq> JStr expected then Inl (StateError ''event hash mismatch'')
         else Inr expected)"

definition validate_chain :: "digest \<Rightarrow> event list \<Rightarrow> string res" where
  "validate_chain H es = foldR (validate_event H) es []"

record store =
  ss_events :: "event list"
  ss_head :: string
  ss_file :: json

text \<open>What a call supplies besides the event: a fresh identifier, the time, and the three optional links.\<close>

record stamp =
  sp_event_id :: string
  sp_timestamp :: string
  sp_run_id :: string
  sp_action_id :: string
  sp_transaction_id :: string

definition append_event :: "digest \<Rightarrow> redactor \<Rightarrow> stamp \<Rightarrow> string \<Rightarrow> json \<Rightarrow> store \<Rightarrow> store \<times> event" where
  "append_event H R p event_type v s =
     (let safe = redact R v;
          material = [(''event_id'', JStr (sp_event_id p)), (''timestamp'', JStr (sp_timestamp p)), (''previous_hash'', JStr (ss_head s)),
            (''event_type'', JStr event_type), (''payload_hash'', JStr (stable_hash H safe)), (''run_id'', JStr (sp_run_id p)),
            (''action_id'', JStr (sp_action_id p)), (''transaction_id'', JStr (sp_transaction_id p))];
          h = stable_hash H (JObj material);
          e = material @ [(''payload'', safe), (''event_hash'', JStr h)]
      in (s\<lparr>ss_events := ss_events s @ [e], ss_head := h\<rparr>, e))"

definition last_state_snapshot :: "event list \<Rightarrow> event option" where
  "last_state_snapshot es = find (\<lambda>e. jget e ''event_type'' = JStr ''state_snapshot'') (rev es)"

section \<open>The state store\<close>

definition open_store :: "digest \<Rightarrow> event list \<Rightarrow> json \<Rightarrow> store res" where
  "open_store H es state_file = bindR (validate_chain H es) (\<lambda>h. Inr \<lparr> ss_events = es, ss_head = h, ss_file = state_file \<rparr>)"

text \<open>
  The payload a load starts from: the state file (null when absent or unreadable), unless the last
  snapshot event holds something else.
\<close>

definition snapshot_payload :: "event list \<Rightarrow> json res" where
  "snapshot_payload es = (case last_state_snapshot es of
     None \<Rightarrow> Inr JNull
   | Some e \<Rightarrow> (case dict_getd e ''payload'' (JObj []) of
       JObj p \<Rightarrow> Inr (case jget p ''state'' of
           JObj d \<Rightarrow> JObj (dict_set ''event_head'' (dict_getd e ''event_hash'' (JStr [])) d)
         | v \<Rightarrow> v)
     | _ \<Rightarrow> Inl (AttributeError ''get'')))"

definition stored_payload :: "store \<Rightarrow> json res" where
  "stored_payload s = bindR (snapshot_payload (ss_events s)) (\<lambda>v.
     Inr (if ss_file s = JNull then v
          else if v \<noteq> JNull \<and> canonical_json (ss_file s) \<noteq> canonical_json v then v
          else ss_file s))"

definition stored_version :: "payload \<Rightarrow> int res" where
  "stored_version d = (case to_int (dict_getd d ''schema_version'' (JInt 1)) of
     Inl e \<Rightarrow> Inl (StateError ''invalid runtime state schema version'') | Inr n \<Rightarrow> Inr n)"

definition state_error :: "'a res \<Rightarrow> 'a res" where
  "state_error m = (case m of
     Inl (TypeError t) \<Rightarrow> Inl (StateError t) | Inl (ValueError t) \<Rightarrow> Inl (StateError t) | Inl (KeyError t) \<Rightarrow> Inl (StateError t)
   | Inl e \<Rightarrow> Inl e | Inr x \<Rightarrow> Inr x)"

text \<open>Appends a snapshot event of the state's dictionary and writes the state file.\<close>

definition log_snapshot :: "digest \<Rightarrow> redactor \<Rightarrow> stamp \<Rightarrow> payload \<Rightarrow> payload \<Rightarrow> store \<Rightarrow> store" where
  "log_snapshot H R p state extra s =
     (let d = dict_set ''event_head'' (JStr (ss_head s)) state;
          s1 = fst (append_event H R p ''state_snapshot'' (JObj ((''state'', JObj d) # extra)) s)
      in s1\<lparr>ss_file := JObj (dict_set ''event_head'' (JStr (ss_head s1)) d)\<rparr>)"

text \<open>
  \<open>from_dict\<close> is \<open>RuntimeState.from_dict\<close>, \<open>to_dict\<close> is \<open>asdict\<close>. A migrated state is logged and written back.
\<close>

definition load ::
  "digest \<Rightarrow> redactor \<Rightarrow> (payload \<Rightarrow> runtime_state res) \<Rightarrow> (runtime_state \<Rightarrow> payload) \<Rightarrow> stamp \<Rightarrow> store \<Rightarrow>
   (store \<times> runtime_state) res" where
  "load H R from_dict to_dict p s =
     bindR (stored_payload s) (\<lambda>v.
     if v = JNull then Inr (s, new_runtime_state\<lparr>rs_event_head := ss_head s\<rparr>)
     else if \<not> is_dict v then Inl (AttributeError ''get'')
     else bindR (stored_version (as_dict v)) (\<lambda>version.
          bindR (migrate H version (as_dict v)) (\<lambda>d.
          bindR (state_error (bindR (from_dict d) (\<lambda>rs.
                   bindR (validate_reasoning_hypothesis_projection rs) (\<lambda>_. Inr rs)))) (\<lambda>rs.
          if rs_schema_version rs \<noteq> 6 then Inl (StateError ''unsupported runtime state schema'')
          else let s' = (if version = 6 then s
                 else log_snapshot H R p (to_dict rs) [(''migration'', JObj [(''from_schema'', JInt version), (''to_schema'', JInt 6)])] s)
               in Inr (s', rs\<lparr>rs_event_head := ss_head s'\<rparr>)))))"

definition save ::
  "digest \<Rightarrow> redactor \<Rightarrow> (runtime_state \<Rightarrow> payload) \<Rightarrow> stamp \<Rightarrow> runtime_state \<Rightarrow> store \<Rightarrow> (store \<times> runtime_state) res" where
  "save H R to_dict p rs s =
     (if rs_schema_version rs \<noteq> 6 then Inl (StateError ''unsupported runtime state schema'')
      else bindR (state_error (validate_reasoning_hypothesis_projection rs)) (\<lambda>_.
        let s' = log_snapshot H R p (to_dict rs) [] s in Inr (s', rs\<lparr>rs_event_head := ss_head s'\<rparr>)))"

definition trace :: "digest \<Rightarrow> redactor \<Rightarrow> stamp \<Rightarrow> string \<Rightarrow> json \<Rightarrow> store \<Rightarrow> store \<times> event" where
  "trace H R p event_type v s = append_event H R p event_type v s"

section \<open>What an event's hash covers\<close>

definition links_run :: "event \<Rightarrow> bool" where
  "links_run e \<longleftrightarrow> list_ex (\<lambda>k. dict_get e k \<noteq> None) [''run_id'', ''action_id'', ''transaction_id'']"

text \<open>The part of an event its hash covers, and with it the payload: everything but the order of keys.\<close>

definition header_view :: "event \<Rightarrow> json list \<times> json list" where
  "header_view e = (map (norm_json \<circ> jget e) [''event_id'', ''timestamp'', ''previous_hash'', ''event_type'', ''payload_hash''],
     if links_run e then map (\<lambda>k. norm_json (dict_getd e k (JStr []))) [''run_id'', ''action_id'', ''transaction_id''] else [])"

definition event_view :: "event \<Rightarrow> (json list \<times> json list) \<times> json" where
  "event_view e = (header_view e, norm_json (jget e ''payload''))"

lemma norm_obj_length:
  assumes "norm_json (JObj a) = norm_json (JObj b)"
  shows "length a = length b"
  using arg_cong [OF assms, of "\<lambda>v. length (as_dict v)"] by simp

lemma event_material_fields:
  "event_material e = JObj (map (\<lambda>k. (k, jget e k)) [''event_id'', ''timestamp'', ''previous_hash'', ''event_type'', ''payload_hash''] @
     (if links_run e then map (\<lambda>k. (k, dict_getd e k (JStr []))) [''run_id'', ''action_id'', ''transaction_id''] else []))"
  by (simp add: event_material_def links_run_def)

lemma event_material_faithful:
  assumes "norm_json (event_material e) = norm_json (event_material f)"
  shows "header_view e = header_view f"
proof -
  have links: "links_run e = links_run f"
    using norm_obj_length [OF assms [unfolded event_material_fields]] by (simp split: if_splits)
  show ?thesis
  proof (cases "links_run f")
    case True
    with assms links show ?thesis by (simp add: event_material_fields norm_obj_eq header_view_def del: norm_json.simps)
  next
    case False
    with assms links show ?thesis by (simp add: event_material_fields norm_obj_eq header_view_def del: norm_json.simps)
  qed
qed

interpretation event_address: content_address event_material header_view "\<lambda>_. True"
  by unfold_locales (rule event_material_faithful)

interpretation payload_address: content_address "\<lambda>v. v" norm_json "\<lambda>_. True"
  by unfold_locales simp

section \<open>The chain\<close>

lemma validate_event_Inr: "validate_event H e previous = Inr h \<longleftrightarrow>
    jget e ''payload_hash'' = JStr (stable_hash H (jget e ''payload'')) \<and> jget e ''previous_hash'' = JStr previous \<and>
    h = stable_hash H (event_material e) \<and> jget e ''event_hash'' = JStr h"
  by (auto simp: validate_event_def Let_def)

lemma validate_chain_Nil [simp]: "validate_chain H [] = Inr []"
  by (simp add: validate_chain_def)

lemma validate_chain_snoc: "validate_chain H (es @ [e]) = Inr h \<longleftrightarrow> (\<exists>p. validate_chain H es = Inr p \<and> validate_event H e p = Inr h)"
  by (auto simp: validate_chain_def foldR_append bindR_Inr)

definition chain_ok :: "digest \<Rightarrow> store \<Rightarrow> bool" where
  "chain_ok H s \<longleftrightarrow> validate_chain H (ss_events s) = Inr (ss_head s)"

lemma append_event_valid:
  assumes "chain_ok H s" "append_event H R p event_type v s = (s', e)"
  shows "chain_ok H s'" "ss_events s' = ss_events s @ [e]" "jget e ''event_type'' = JStr event_type"
    "jget e ''payload'' = redact R v" "jget e ''event_hash'' = JStr (ss_head s')" "ss_file s' = ss_file s"
proof -
  let ?material = "[(''event_id'', JStr (sp_event_id p)), (''timestamp'', JStr (sp_timestamp p)), (''previous_hash'', JStr (ss_head s)),
     (''event_type'', JStr event_type), (''payload_hash'', JStr (stable_hash H (redact R v))), (''run_id'', JStr (sp_run_id p)),
     (''action_id'', JStr (sp_action_id p)), (''transaction_id'', JStr (sp_transaction_id p))]"
  have e: "e = ?material @ [(''payload'', redact R v), (''event_hash'', JStr (stable_hash H (JObj ?material)))]"
    and s': "s' = s\<lparr>ss_events := ss_events s @ [e], ss_head := stable_hash H (JObj ?material)\<rparr>"
    using assms(2) by (auto simp: append_event_def Let_def)
  have "event_material e = JObj ?material"
    by (simp add: event_material_def e jget_def dict_getd_def)
  then have "validate_event H e (ss_head s) = Inr (stable_hash H (JObj ?material))"
    by (simp add: validate_event_Inr) (simp add: e jget_def dict_getd_def)
  then show "chain_ok H s'" using assms(1) by (simp add: chain_ok_def s' validate_chain_snoc)
  show "ss_events s' = ss_events s @ [e]" "ss_file s' = ss_file s" by (simp_all add: s')
  show "jget e ''event_type'' = JStr event_type" "jget e ''payload'' = redact R v" "jget e ''event_hash'' = JStr (ss_head s')"
    by (simp_all add: e s' jget_def dict_getd_def)
qed

text \<open>The texts whose digests a log consists of.\<close>

definition hashed :: "event list \<Rightarrow> string set" where
  "hashed es = (\<Union>e \<in> set es. {canonical_json (event_material e), canonical_json (jget e ''payload'')})"

lemma chain_binds:
  assumes "\<And>x. H x \<noteq> []"
  shows "validate_chain H es = Inr h \<Longrightarrow> validate_chain H fs = Inr h \<Longrightarrow> inj_on H (hashed es \<union> hashed fs) \<Longrightarrow>
    map event_view es = map event_view fs"
proof (induction es arbitrary: h fs rule: rev_induct)
  case Nil
  then have "h = []" by simp
  with Nil.prems(2) show ?case
    by (cases fs rule: rev_cases) (auto simp: validate_chain_snoc validate_event_Inr stable_hash_def assms assms [THEN not_sym])
next
  case (snoc e es)
  obtain p where p: "validate_chain H es = Inr p" "validate_event H e p = Inr h"
    using snoc.prems(1) by (auto simp: validate_chain_snoc)
  have "h \<noteq> []" using p(2) assms by (auto simp: validate_event_Inr stable_hash_def)
  then obtain fs' f where fs: "fs = fs' @ [f]" using snoc.prems(2) by (cases fs rule: rev_cases) auto
  obtain q where q: "validate_chain H fs' = Inr q" "validate_event H f q = Inr h"
    using snoc.prems(2) by (auto simp: fs validate_chain_snoc)
  have inj: "inj_on H (hashed es \<union> hashed fs')"
    "inj_on H {canonical_json (event_material e), canonical_json (event_material f)}"
    "inj_on H {canonical_json (jget e ''payload''), canonical_json (jget f ''payload'')}"
    by (rule inj_on_subset [OF snoc.prems(3)]; auto simp: hashed_def fs)+
  have header: "header_view e = header_view f"
    using event_address.address_binds [OF TrueI TrueI inj(2)] p(2) q(2) by (simp add: validate_event_Inr)
  then have "p = q" "stable_hash H (jget e ''payload'') = stable_hash H (jget f ''payload'')"
    using p(2) q(2) by (auto simp: header_view_def validate_event_Inr)
  then have "event_view e = event_view f"
    using payload_address.address_binds [OF TrueI TrueI inj(3)] header by (simp add: event_view_def)
  moreover have "map event_view es = map event_view fs'" using snoc.IH [OF p(1) _ inj(1)] q(1) \<open>p = q\<close> by blast
  ultimately show ?case by (simp add: fs)
qed

section \<open>The store over time\<close>

inductive store_step ::
  "digest \<Rightarrow> redactor \<Rightarrow> (payload \<Rightarrow> runtime_state res) \<Rightarrow> (runtime_state \<Rightarrow> payload) \<Rightarrow> store \<Rightarrow> store \<Rightarrow> bool" for H R from_dict to_dict where
  tracing: "trace H R p event_type v s = (s', e) \<Longrightarrow> store_step H R from_dict to_dict s s'"
| saving: "save H R to_dict p rs s = Inr (s', rs') \<Longrightarrow> store_step H R from_dict to_dict s s'"
| loading: "load H R from_dict to_dict p s = Inr (s', rs) \<Longrightarrow> store_step H R from_dict to_dict s s'"
| reopening: "open_store H (ss_events s) state_file = Inr s' \<Longrightarrow> store_step H R from_dict to_dict s s'"

lemma save_logs:
  "save H R to_dict p rs s = Inr (s', rs') \<Longrightarrow> s' = log_snapshot H R p (to_dict rs) [] s"
  unfolding save_def Let_def by (auto simp: res_simps)

lemma load_logs:
  assumes "load H R from_dict to_dict p s = Inr (s', rs)"
  shows "s' = s \<or> (\<exists>d extra. s' = log_snapshot H R p d extra s)"
proof -
  have "yields (load H R from_dict to_dict p s) (\<lambda>(s', rs). s' = s \<or> (\<exists>d extra. s' = log_snapshot H R p d extra s))"
    unfolding load_def Let_def by (intro yields_intro) auto
  from yieldsD [OF this assms] show ?thesis by simp
qed

lemma log_snapshot_chain:
  assumes "chain_ok H s"
  shows "chain_ok H (log_snapshot H R p d extra s) \<and> prefix (ss_events s) (ss_events (log_snapshot H R p d extra s))"
  using append_event_valid(1,2) [OF assms surjective_pairing] by (simp add: log_snapshot_def Let_def chain_ok_def)

lemma store_step_chain:
  assumes "store_step H R from_dict to_dict s s'" "chain_ok H s"
  shows "chain_ok H s' \<and> prefix (ss_events s) (ss_events s')"
  using assms(1)
proof (cases rule: store_step.cases)
  case (tracing p event_type v e)
  then show ?thesis using append_event_valid(1,2) [OF assms(2)] by (auto simp: trace_def)
next
  case (saving p rs rs')
  then show ?thesis using save_logs log_snapshot_chain [OF assms(2)] by metis
next
  case (loading p rs)
  then show ?thesis using load_logs log_snapshot_chain [OF assms(2)] assms(2) by (metis prefix_order.refl)
next
  case (reopening state_file)
  then show ?thesis using assms(2) by (auto simp: open_store_def chain_ok_def bindR_Inr)
qed

lemma sensitive_state: "\<not> hides ''state'' v"
proof -
  have "\<not> sensitive_key ''state''" by code_simp
  then show ?thesis by (simp add: hides_def)
qed

lemma update_map_values: "dict_set k (g k v) (map (\<lambda>(a, b). (a, g a b)) d) = map (\<lambda>(a, b). (a, g a b)) (dict_set k v d)"
  by (induction d) auto

lemma dict_set_twice: "dict_set k v (dict_set k w d) = dict_set k v d"
  by (induction d) auto

text \<open>Setting a key after a value-wise map: the old value does not matter.\<close>

lemma set_after_map: "dict_set k x (map (\<lambda>kv. (fst kv, g kv)) (dict_set k w d)) = dict_set k x (map (\<lambda>kv. (fst kv, g kv)) d)"
  by (induction d) auto

lemma logged_payload:
  fixes d :: payload
  assumes "s' = log_snapshot H R p d [] s"
  shows "snapshot_payload (ss_events s') =
      Inr (JObj (dict_set ''event_head'' (JStr (ss_head s')) (as_dict (redact R (JObj d)))))"
    and "ss_file s' = JObj (dict_set ''event_head'' (JStr (ss_head s')) d)"
proof -
  let ?v = "JObj [(''state'', JObj (dict_set ''event_head'' (JStr (ss_head s)) d))]"
  obtain s1 e where e: "append_event H R p ''state_snapshot'' ?v s = (s1, e)" by fastforce
  have s': "s' = s1\<lparr>ss_file := JObj (dict_set ''event_head'' (JStr (ss_head s1)) d)\<rparr>"
    using assms by (simp add: log_snapshot_def Let_def e dict_set_twice)
  have event: "ss_events s1 = ss_events s @ [e]" "jget e ''event_type'' = JStr ''state_snapshot''"
    "dict_get e ''payload'' = Some (redact R ?v)" "dict_get e ''event_hash'' = Some (JStr (ss_head s1))"
    using e by (auto simp: append_event_def Let_def jget_def dict_getd_def)
  have "last_state_snapshot (ss_events s1) = Some e" by (simp add: last_state_snapshot_def event(1,2))
  then show "snapshot_payload (ss_events s') = Inr (JObj (dict_set ''event_head'' (JStr (ss_head s')) (as_dict (redact R (JObj d)))))"
    by (simp add: snapshot_payload_def s' dict_getd_def event sensitive_state jget_def set_after_map)
  show "ss_file s' = JObj (dict_set ''event_head'' (JStr (ss_head s')) d)" by (simp add: s')
qed

section \<open>What the migrations change\<close>

text \<open>A step that touches only the keys in \<open>K\<close>.\<close>

definition keeps :: "string set \<Rightarrow> payload \<Rightarrow> payload \<Rightarrow> bool" where
  "keeps K d e \<longleftrightarrow> (\<forall>k. k \<notin> K \<longrightarrow> dict_get e k = dict_get d k)"

lemma keeps_refl [intro]: "keeps K d d"
  by (simp add: keeps_def)

lemma keeps_trans: "keeps K d e \<Longrightarrow> keeps K e f \<Longrightarrow> keeps K d f"
  by (simp add: keeps_def)

lemma keeps_mono: "keeps K d e \<Longrightarrow> K \<subseteq> L \<Longrightarrow> keeps L d e"
  by (auto simp: keeps_def)

lemma set_defaults_get: "dict_get (set_defaults ds d) k = (case dict_get d k of Some v \<Rightarrow> Some v | None \<Rightarrow> dict_get ds k)"
  unfolding set_defaults_def
  by (induction ds arbitrary: d) (auto split: option.splits)

lemma keeps_set_defaults:
  assumes "list_all (\<lambda>p. fst p \<in> K) ds"
  shows "keeps K d (set_defaults ds d)"
proof -
  have "dict_get ds k = None" if "k \<notin> K" for k
    using assms that by (auto simp: map_of_eq_None_iff list_all_iff)
  then show ?thesis by (simp add: keeps_def set_defaults_get split: option.split)
qed

lemma fill_at_get: "dict_get (fill_at k ds d) j = (if j = k then map_option (fill ds) (dict_get d j) else dict_get d j)"
  by (auto simp: fill_at_def split: option.splits)

lemma fill_values_keeps: "fill_values k ds d = Inr e \<Longrightarrow> keeps {k} d e"
  by (auto simp: fill_values_def keeps_def split: option.splits json.splits)

lemma fill_items_keeps: "fill_items k ds d = Inr e \<Longrightarrow> keeps {k} d e"
  by (auto simp: fill_items_def keeps_def split: option.splits json.splits)

definition MIGRATED_KEYS :: "string list" where
  "MIGRATED_KEYS = [''schema_version'', ''boundary_state'', ''dimension_budget'', ''finite_evidence'', ''hypothesis_state'',
     ''last_progress'', ''transition_index'', ''control_only_progress_streak'', ''pending_action'', ''evidence_registry'',
     ''collisions'', ''reasoning_problem'', ''reasoning_hypothesis_state'', ''reasoning_hypothesis_pool'', ''reasoning_topology'',
     ''reasoning_candidates'', ''last_reasoning_certificate'', ''reasoning_transition_index'', ''reasoning_hypothesis_updates'',
     ''hypothesis_pool'', ''hypothesis_updates'', ''reasoning_budget'', ''reasoning_context'', ''reasoning_contradictions'',
     ''last_synthesis'', ''next_reasoning_operation'']"

definition CURRENT_KEYS :: "string list" where
  "CURRENT_KEYS = [''reasoning_hypothesis_pool'', ''reasoning_hypothesis_updates'', ''reasoning_budget'', ''reasoning_context'',
     ''reasoning_contradictions'', ''last_synthesis'', ''next_reasoning_operation'', ''reasoning_hypothesis_state'',
     ''control_only_progress_streak'']"

lemma keeps_set: "k \<in> K \<Longrightarrow> keeps K d (dict_set k v d)"
  by (auto simp: keeps_def)

lemma keeps_pop: "k \<in> K \<Longrightarrow> keeps K d (dict_pop k d)"
  by (auto simp: keeps_def)

lemma keeps_setdefault: "k \<in> K \<Longrightarrow> keeps K d (dict_setdefault k v d)"
  by (auto simp: keeps_def)

lemma keeps_fill_at: "k \<in> K \<Longrightarrow> keeps K d (fill_at k ds d)"
  by (auto simp: keeps_def fill_at_get)

lemmas keeps_rules = keeps_set keeps_pop keeps_setdefault keeps_fill_at keeps_set_defaults

abbreviation "MK \<equiv> set MIGRATED_KEYS"

lemma keeps_v1: "migrate_v1_to_v2 d = Inr e \<Longrightarrow> keeps MK d e"
  unfolding migrate_v1_to_v2_def Let_def set_version_def
  by (auto simp: bindR_Inr dest!: fill_values_keeps fill_items_keeps)
     (erule keeps_trans [OF keeps_trans, rotated, OF keeps_mono]; (erule keeps_mono)?;
      (intro keeps_trans [OF keeps_trans [OF keeps_set keeps_set_defaults] keeps_fill_at])?; simp add: MIGRATED_KEYS_def)+

lemma keeps_v2: "migrate_v2_to_v3 d = Inr e \<Longrightarrow> keeps MK d e"
  unfolding migrate_v2_to_v3_def Let_def set_version_def
  by (auto simp: bindR_Inr intro!: keeps_trans [OF keeps_trans [OF keeps_set keeps_set_defaults] keeps_fill_at])
     (simp_all add: MIGRATED_KEYS_def)

lemma keeps_rebuild:
  assumes "rebuild_pool H pool d = Inr e"
  shows "keeps MK d e"
proof -
  have "yields (rebuild_pool H pool d) (keeps MK d)"
    unfolding rebuild_pool_def Let_def
    by (intro yields_intro keeps_trans [OF keeps_set keeps_set]) (simp_all add: MIGRATED_KEYS_def)
  from yieldsD [OF this assms] show ?thesis .
qed

lemma keeps_v3:
  assumes "migrate_v3_to_v4 H d = Inr e"
  shows "keeps MK d e"
proof -
  let ?d1 = "dict_setdefault ''reasoning_hypothesis_pool'' (legacy_pool d) (dict_pop ''hypothesis_pool'' (set_version 4 d))"
  have one: "keeps MK d ?d1"
    unfolding set_version_def
    by (rule keeps_trans [OF keeps_trans [OF keeps_set keeps_pop] keeps_setdefault]) (simp_all add: MIGRATED_KEYS_def)
  obtain pool f where f: "(if pool \<noteq> [] then rebuild_pool H pool (dict_set ''reasoning_hypothesis_pool'' (JObj pool) ?d1)
      else Inr (dict_set ''reasoning_hypothesis_state'' JNull (dict_set ''reasoning_hypothesis_pool'' (JObj pool) ?d1))) = Inr f"
    and e: "e = dict_setdefault ''reasoning_hypothesis_updates'' (JList []) f"
  proof (cases "jget ?d1 ''reasoning_hypothesis_pool''")
    case (JObj pool0)
    let ?pool = "map (\<lambda>(k, v). (k, fill [(''predictions'', JList [])] v)) pool0"
    have "bindR (if ?pool \<noteq> [] then rebuild_pool H ?pool (dict_set ''reasoning_hypothesis_pool'' (JObj ?pool) ?d1)
        else Inr (dict_set ''reasoning_hypothesis_state'' JNull (dict_set ''reasoning_hypothesis_pool'' (JObj ?pool) ?d1)))
        (\<lambda>d. Inr (dict_setdefault ''reasoning_hypothesis_updates'' (JList []) d)) = Inr e"
      using assms unfolding migrate_v3_to_v4_def Let_def by (simp add: bindR_Inr JObj)
    then show ?thesis using that [of ?pool] unfolding bindR_Inr by blast
  qed (use assms in \<open>simp_all add: migrate_v3_to_v4_def Let_def bindR_Inr\<close>)
  have two: "keeps MK ?d1 (dict_set ''reasoning_hypothesis_pool'' (JObj pool) ?d1)"
    by (rule keeps_set) (simp add: MIGRATED_KEYS_def)
  have three: "keeps MK (dict_set ''reasoning_hypothesis_pool'' (JObj pool) ?d1) f"
  proof (cases "pool = []")
    case True
    then show ?thesis using f by (auto intro!: keeps_set simp: MIGRATED_KEYS_def)
  next
    case False
    then show ?thesis using f keeps_rebuild by simp
  qed
  have "keeps MK f e" unfolding e by (rule keeps_setdefault) (simp add: MIGRATED_KEYS_def)
  with one two three show ?thesis by (blast intro: keeps_trans)
qed

lemma keeps_rename: "keeps MK d (rename_legacy d)"
  unfolding rename_legacy_def Let_def
  by (rule keeps_trans [OF keeps_trans [OF keeps_trans [OF keeps_pop keeps_setdefault] keeps_pop] keeps_set_defaults])
     (simp_all add: MIGRATED_KEYS_def)

lemma rename_legacy_keys:
  "k \<in> {''reasoning_hypothesis_pool'', ''reasoning_hypothesis_updates'', ''reasoning_budget'', ''reasoning_context'',
     ''reasoning_contradictions'', ''last_synthesis'', ''next_reasoning_operation''} \<Longrightarrow> dict_get (rename_legacy d) k \<noteq> None"
  "dict_get (rename_legacy d) ''hypothesis_pool'' = None" "dict_get (rename_legacy d) ''hypothesis_updates'' = None"
  "dict_get (rename_legacy d) ''schema_version'' = dict_get d ''schema_version''"
  by (auto simp: rename_legacy_def Let_def set_defaults_get split: option.splits)

lemma keeps_v4:
  assumes "migrate_v4_to_v5 d = Inr e"
  shows "keeps MK d e"
proof -
  have "keeps MK d (rename_legacy (set_version 5 d))"
    unfolding set_version_def by (rule keeps_trans [OF keeps_set keeps_rename]) (simp add: MIGRATED_KEYS_def)
  then show ?thesis using assms by (auto simp: migrate_v4_to_v5_def bindR_Inr)
qed

lemma migrate_v5_result:
  assumes "migrate_v5_to_v6 d = Inr e"
  shows "keeps MK d e" "dict_get e ''schema_version'' = Some (JInt 6)" "k \<in> set CURRENT_KEYS \<Longrightarrow> dict_get e k \<noteq> None"
    "dict_get e ''hypothesis_pool'' = None" "dict_get e ''hypothesis_updates'' = None"
proof -
  let ?d = "rename_legacy (set_version 6 d)"
  obtain f where e: "e = dict_setdefault ''control_only_progress_streak'' (JInt 0) f" and
    f: "f = dict_set ''hypothesis_state'' JNull (dict_set ''reasoning_hypothesis_state'' (jget ?d ''hypothesis_state'') ?d) \<or>
        f = dict_setdefault ''reasoning_hypothesis_state'' JNull ?d"
    using assms unfolding migrate_v5_to_v6_def Let_def by (auto simp: bindR_Inr split: if_splits)
  have "keeps MK d ?d" unfolding set_version_def by (rule keeps_trans [OF keeps_set keeps_rename]) (simp add: MIGRATED_KEYS_def)
  moreover have "keeps MK ?d f"
    using f by (elim disjE) (auto simp: MIGRATED_KEYS_def intro!: keeps_trans [OF keeps_set keeps_set] keeps_setdefault)
  moreover have "keeps MK f e" unfolding e by (rule keeps_setdefault) (simp add: MIGRATED_KEYS_def)
  ultimately show "keeps MK d e" by (blast intro: keeps_trans)
  show "dict_get e ''schema_version'' = Some (JInt 6)" "dict_get e ''hypothesis_pool'' = None" "dict_get e ''hypothesis_updates'' = None"
    using f by (elim disjE; simp add: e rename_legacy_keys set_version_def)+
  have defined: "dict_get e j \<noteq> None" if "dict_get ?d j \<noteq> None \<or> j = ''reasoning_hypothesis_state'' \<or> j = ''control_only_progress_streak''" for j
    using that f by (elim disjE) (simp_all add: e)
  show "dict_get e k \<noteq> None" if "k \<in> set CURRENT_KEYS"
  proof (rule defined)
    have "k \<in> {''reasoning_hypothesis_pool'', ''reasoning_hypothesis_updates'', ''reasoning_budget'', ''reasoning_context'',
       ''reasoning_contradictions'', ''last_synthesis'', ''next_reasoning_operation''} \<or>
       k = ''reasoning_hypothesis_state'' \<or> k = ''control_only_progress_streak''"
      using that by (simp only: CURRENT_KEYS_def list.set insert_iff empty_iff simp_thms disj_assoc)
    then show "dict_get ?d k \<noteq> None \<or> k = ''reasoning_hypothesis_state'' \<or> k = ''control_only_progress_streak''"
    proof (elim disjE)
      assume "k \<in> {''reasoning_hypothesis_pool'', ''reasoning_hypothesis_updates'', ''reasoning_budget'', ''reasoning_context'',
       ''reasoning_contradictions'', ''last_synthesis'', ''next_reasoning_operation''}"
      then have "dict_get ?d k \<noteq> None" by (rule rename_legacy_keys(1))
      then show ?thesis by (rule disjI1)
    qed (rule disjI2, simp only: simp_thms)+
  qed
qed

lemma migrate_keeps: "migrate H n d = Inr e \<Longrightarrow> keeps MK d e"
  by (auto simp: migrate_def bindR_Inr split: if_splits
      dest!: keeps_v1 keeps_v2 keeps_v3 keeps_v4 migrate_v5_result(1)) (blast intro: keeps_trans)+

lemma migrate_result:
  assumes "migrate H n d = Inr e" "1 \<le> n" "n \<le> 5"
  shows "\<exists>c. migrate_v5_to_v6 c = Inr e"
proof -
  have "n = 1 \<or> n = 2 \<or> n = 3 \<or> n = 4 \<or> n = 5" using assms(2,3) by linarith
  then show ?thesis using assms(1) by (elim disjE) (auto simp: migrate_def bindR_Inr)
qed

section \<open>Properties\<close>

text \<open>C21. The event log is append-only and always valid: whatever sequence of traces, saves, loads (with
  their migrations) and restarts runs on a store whose chain validates to its head, the chain still
  validates to the head, the earlier events are still there in front, and opening the store again
  succeeds with that head.\<close>

theorem log_append_only:
  assumes "(store_step H R from_dict to_dict)\<^sup>*\<^sup>* s t" "chain_ok H s"
  shows "chain_ok H t \<and> prefix (ss_events s) (ss_events t) \<and>
    open_store H (ss_events t) state_file = Inr \<lparr> ss_events = ss_events t, ss_head = ss_head t, ss_file = state_file \<rparr>"
proof -
  have "chain_ok H t \<and> prefix (ss_events s) (ss_events t)"
    using assms
  proof (induction rule: rtranclp_induct)
    case (step t u)
    then show ?case using store_step_chain [OF step.hyps(2)] prefix_order.trans by blast
  qed simp
  then show ?thesis by (simp add: chain_ok_def open_store_def)
qed

definition empty_store :: store where
  "empty_store = \<lparr> ss_events = [], ss_head = [], ss_file = JNull \<rparr>"

definition sample_stamp :: stamp where
  "sample_stamp = \<lparr> sp_event_id = ''id'', sp_timestamp = ''now'', sp_run_id = [], sp_action_id = [], sp_transaction_id = [] \<rparr>"

definition plain :: redactor where
  "plain = \<lparr> rd_environ = [], rd_configured = (\<lambda>p s. s) \<rparr>"

theorem log_append_only_witness:
  "\<exists>t. chain_ok (\<lambda>_. ''d'') t \<and> length (ss_events t) = 1 \<and>
     open_store (\<lambda>_. ''d'') (ss_events t) JNull = Inr \<lparr> ss_events = ss_events t, ss_head = ''d'', ss_file = JNull \<rparr>"
proof -
  let ?H = "\<lambda>_. ''d''" and ?from = "\<lambda>_. Inr new_runtime_state" and ?to = "\<lambda>_. []"
  obtain t e where t: "trace ?H plain sample_stamp ''note'' (JInt 1) empty_store = (t, e)" by fastforce
  then have "(store_step ?H plain ?from ?to)\<^sup>*\<^sup>* empty_store t" by (intro r_into_rtranclp store_step.tracing)
  moreover have "chain_ok ?H empty_store" by (simp add: chain_ok_def empty_store_def)
  moreover have "length (ss_events t) = 1" "ss_head t = ''d''"
    using t by (auto simp: trace_def append_event_def empty_store_def stable_hash_def Let_def)
  ultimately show ?thesis using log_append_only [of ?H plain ?from ?to empty_store t JNull] by (intro exI [of _ t]) simp
qed

text \<open>C22. The head of the log binds its whole history: two logs that validate to the same head have the
  same events in the same order, with the same identifiers, times, types, payloads and links (up to the
  order of object keys), unless the digest collides on two of the texts the logs consist of.\<close>

theorem head_binds_history:
  assumes "validate_chain H es = Inr h" "validate_chain H fs = Inr h" "\<And>x. H x \<noteq> []" "inj_on H (hashed es \<union> hashed fs)"
  shows "length es = length fs \<and> map event_view es = map event_view fs"
  using chain_binds [OF assms(3,1,2,4)] by (auto dest: map_eq_imp_length_eq)

lemma append_event_head: "stable_hash H (redact R v) = stable_hash H (redact R w) \<Longrightarrow>
    ss_head (fst (append_event H R p t v s)) = ss_head (fst (append_event H R p t w s))"
  by (simp add: append_event_def Let_def)

definition sample_log :: "json \<Rightarrow> event list" where
  "sample_log v = ss_events (fst (append_event (\<lambda>s. CHR ''h'' # s) plain sample_stamp ''note'' v empty_store))"

theorem head_binds_history_witness:
  "map event_view (sample_log (JObj [(''a'', JInt 1), (''b'', JInt 2)])) = map event_view (sample_log (JObj [(''b'', JInt 2), (''a'', JInt 1)]))"
proof -
  let ?H = "\<lambda>s. CHR ''h'' # s" and ?v = "JObj [(''a'', JInt 1), (''b'', JInt 2)]" and ?w = "JObj [(''b'', JInt 2), (''a'', JInt 1)]"
  have same: "stable_hash ?H ?v = stable_hash ?H ?w" by code_simp
  have clean: "redact plain ?v = ?v" "redact plain ?w = ?w" by code_simp+
  have empty: "chain_ok ?H empty_store" by (simp add: chain_ok_def empty_store_def)
  let ?sv = "fst (append_event ?H plain sample_stamp ''note'' ?v empty_store)" and ?sw = "fst (append_event ?H plain sample_stamp ''note'' ?w empty_store)"
  have "chain_ok ?H ?sv" "chain_ok ?H ?sw" using append_event_valid(1) [OF empty surjective_pairing] by blast+
  moreover have "ss_head ?sv = ss_head ?sw" by (rule append_event_head) (simp only: clean same)
  ultimately have "validate_chain ?H (sample_log ?v) = Inr (ss_head ?sv)" "validate_chain ?H (sample_log ?w) = Inr (ss_head ?sv)"
    by (simp_all add: chain_ok_def sample_log_def)
  then have "length (sample_log ?v) = length (sample_log ?w) \<and> map event_view (sample_log ?v) = map event_view (sample_log ?w)"
    by (rule head_binds_history) (auto intro: inj_onI)
  then show ?thesis by blast
qed



text \<open>Every older runtime state that a load migrates arrives at schema 6 with nothing lost: whichever of
  the versions 1 to 5 the stored dictionary has, when the chain of migrations returns, the result has
  version 6, the keys the last two schemas added are there, the legacy keys are gone, and every key
  outside the migrated ones has the value it had.\<close>

lemma migration_reaches_current:
  assumes "migrate H n d = Inr e" "1 \<le> n" "n \<le> 5"
  shows "dict_get e ''schema_version'' = Some (JInt 6) \<and> (\<forall>k \<in> set CURRENT_KEYS. dict_get e k \<noteq> None) \<and>
    dict_get e ''hypothesis_pool'' = None \<and> dict_get e ''hypothesis_updates'' = None \<and>
    (\<forall>k. k \<notin> set MIGRATED_KEYS \<longrightarrow> dict_get e k = dict_get d k)"
proof -
  obtain c where "migrate_v5_to_v6 c = Inr e" using migrate_result [OF assms] by blast
  from migrate_v5_result(2-5) [OF this] migrate_keeps [OF assms(1)] show ?thesis by (simp add: keeps_def)
qed

end
