(* ===== verification/LinkedHypotheses.thy ===== *)
theory LinkedHypotheses
  imports LoopControl RScoring
begin

text \<open>
  \<open>ourd/hypotheses.py\<close>: the bounded set of hypotheses an agent run keeps. A model may propose
  hypotheses and may link grounded evidence to them; the scores and the status of a hypothesis
  are derived from its links, never from the prior the model gives. The lemmas show that the
  set stays well formed under every operation, that one piece of evidence counts once per
  hypothesis, that the order of linking does not matter and that restating a hypothesis is
  never progress.
\<close>

section \<open>Definitions and identities\<close>

definition MAX_EVIDENCE_LINKS_PER_HYPOTHESIS :: nat where
  "MAX_EVIDENCE_LINKS_PER_HYPOTHESIS = 64"

definition FALSIFIER_QUALITY_THRESHOLD_BP :: int where
  "FALSIFIER_QUALITY_THRESHOLD_BP = 5000"

definition STATUS_MARGIN_BP :: int where
  "STATUS_MARGIN_BP = 1000"

definition evidence_fingerprint :: "digest \<Rightarrow> evidence_artifact \<Rightarrow> string" where
  "evidence_fingerprint H e = stable_hash H (JObj [
     (''kind'', JStr (ev_kind e)), (''description'', JStr (ev_description e)), (''sha256'', JStr (ev_sha256 e)),
     (''source_snapshot_hash'', JStr (ev_source_snapshot_hash e)), (''path'', JStr (ev_path e)),
     (''command_capability'', JStr (ev_command_capability e)),
     (''success'', (case ev_success e of None \<Rightarrow> JNull | Some b \<Rightarrow> JBool b)),
     (''requirement_ids'', jstrs (sorted_set (ev_requirement_ids e))), (''quality_bp'', JInt (ev_quality_bp e)),
     (''polarity'', JStr (ev_polarity e))])"

record definition_material =
  dm_proposition :: string
  dm_model_prior_bp :: int
  dm_assumptions :: "string list"
  dm_predictions :: "string list"
  dm_falsifiers :: "string list"

definition stripped_set :: "string list \<Rightarrow> string list" where
  "stripped_set vs = sorted_set (filter (\<lambda>v. v \<noteq> []) (map strip vs))"

definition normal_proposition :: "string \<Rightarrow> string" where
  "normal_proposition s = strip (join '' '' (words s))"

definition hypothesis_definition_material ::
    "string \<Rightarrow> int \<Rightarrow> string list \<Rightarrow> string list \<Rightarrow> string list \<Rightarrow> definition_material res" where
  "hypothesis_definition_material proposition prior assumptions predictions falsifiers =
     (let proposition = normal_proposition proposition
      in if proposition = [] then Inl (PolicyError ''hypothesis proposition must be non-empty'')
         else if \<not> in_scale prior then Inl (PolicyError ''hypothesis model_prior_bp must be 0..10000'')
         else Inr \<lparr>dm_proposition = proposition, dm_model_prior_bp = prior, dm_assumptions = stripped_set assumptions,
                   dm_predictions = stripped_set predictions, dm_falsifiers = stripped_set falsifiers\<rparr>)"

definition hypothesis_identity_material :: "definition_material \<Rightarrow> json" where
  "hypothesis_identity_material m = JObj [
     (''proposition'', JStr (dm_proposition m)), (''assumptions'', jstrs (dm_assumptions m)),
     (''predictions'', jstrs (dm_predictions m)), (''falsifiers'', jstrs (dm_falsifiers m))]"

definition link_json :: "evidence_link \<Rightarrow> json" where
  "link_json l = JObj [
     (''evidence_id'', JStr (hl_evidence_id l)), (''evidence_fingerprint'', JStr (hl_evidence_fingerprint l)),
     (''relation'', JStr (hl_relation l)), (''quality_bp'', JInt (hl_quality_bp l)),
     (''source_snapshot_hash'', JStr (hl_source_snapshot_hash l)),
     (''relation_epistemic_status'', JStr (hl_relation_epistemic_status l)), (''signature'', JStr (hl_signature l))]"

text \<open>\<open>asdict(hypothesis)\<close> without its signature.\<close>

definition hypothesis_payload :: "hypothesis \<Rightarrow> json" where
  "hypothesis_payload h = JObj [
     (''hypothesis_id'', JStr (oh_hypothesis_id h)), (''proposition'', JStr (oh_proposition h)),
     (''model_prior_bp'', JInt (oh_model_prior_bp h)), (''assumptions'', jstrs (oh_assumptions h)),
     (''predictions'', jstrs (oh_predictions h)), (''falsifiers'', jstrs (oh_falsifiers h)),
     (''evidence_links'', JList (map link_json (oh_evidence_links h))),
     (''evidence_support_bp'', JInt (oh_evidence_support_bp h)),
     (''evidence_conflict_bp'', JInt (oh_evidence_conflict_bp h)),
     (''evidence_balance_bp'', JInt (oh_evidence_balance_bp h)),
     (''status'', JStr (oh_status h)), (''verification_status'', JStr (oh_verification_status h))]"

definition hypothesis_signature :: "digest \<Rightarrow> hypothesis \<Rightarrow> string" where
  "hypothesis_signature H h = stable_hash H (hypothesis_payload h)"

definition set_signature :: "digest \<Rightarrow> int \<Rightarrow> hypothesis list \<Rightarrow> string" where
  "set_signature H bound hs = stable_hash H (JObj [
     (''max_hypotheses'', JInt bound),
     (''hypotheses'', JList (map (\<lambda>h. JObj [(''hypothesis_id'', JStr (oh_hypothesis_id h)), (''signature'', JStr (oh_signature h))])
        (sort_key oh_hypothesis_id hs)))])"

text \<open>
  Each \<open>replace\<close> of a field constructs a new record, so \<open>__post_init__\<close> runs again.
\<close>

definition seal_hypothesis :: "digest \<Rightarrow> hypothesis \<Rightarrow> hypothesis res" where
  "seal_hypothesis H h = bindR (hypothesis_post_init h) (\<lambda>h.
     hypothesis_post_init (h\<lparr>oh_signature := hypothesis_signature H h\<rparr>))"

definition make_hypothesis ::
    "digest \<Rightarrow> string \<Rightarrow> int \<Rightarrow> string list \<Rightarrow> string list \<Rightarrow> string list \<Rightarrow> hypothesis res" where
  "make_hypothesis H proposition prior assumptions predictions falsifiers =
     bindR (hypothesis_definition_material proposition prior assumptions predictions falsifiers) (\<lambda>m.
       seal_hypothesis H
         \<lparr>oh_hypothesis_id = ''hypothesis:'' @ stable_hash H (hypothesis_identity_material m),
          oh_proposition = dm_proposition m, oh_model_prior_bp = dm_model_prior_bp m, oh_assumptions = dm_assumptions m,
          oh_predictions = dm_predictions m, oh_falsifiers = dm_falsifiers m, oh_evidence_links = [],
          oh_evidence_support_bp = 0, oh_evidence_conflict_bp = 0, oh_evidence_balance_bp = 0,
          oh_status = ''ACTIVE'', oh_verification_status = ''UNVERIFIED_PROPOSITION'', oh_signature = []\<rparr>)"

section \<open>Operations on the set\<close>

text \<open>
  A proposal is the mapping a model's tool call carries, with the keys it may leave out.
\<close>

record hypothesis_proposal =
  hp_proposition :: "string option"
  hp_model_prior_bp :: "int option"
  hp_assumptions :: "string list option"
  hp_predictions :: "string list option"
  hp_falsifiers :: "string list option"

definition the_default :: "'a \<Rightarrow> 'a option \<Rightarrow> 'a" where
  "the_default d x = (case x of None \<Rightarrow> d | Some v \<Rightarrow> v)"

definition proposed_hypothesis :: "digest \<Rightarrow> hypothesis_proposal \<Rightarrow> hypothesis res" where
  "proposed_hypothesis H p = make_hypothesis H (the_default [] (hp_proposition p)) (the_default 5000 (hp_model_prior_bp p))
     (the_default [] (hp_assumptions p)) (the_default [] (hp_predictions p)) (the_default [] (hp_falsifiers p))"

text \<open>\<open>{item.hypothesis_id: item for item in hypotheses}\<close>.\<close>

definition hypothesis_table :: "hypothesis list \<Rightarrow> (string, hypothesis) dict" where
  "hypothesis_table hs = fold (\<lambda>h. dict_set (oh_hypothesis_id h) h) hs []"

definition make_set :: "digest \<Rightarrow> int \<Rightarrow> (string, hypothesis) dict \<Rightarrow> hypothesis_set res" where
  "make_set H bound table = (let ordered = sort_key oh_hypothesis_id (map snd table)
     in set_post_init \<lparr>os_max_hypotheses = bound, os_hypotheses = ordered, os_signature = set_signature H bound ordered\<rparr>)"

definition add_proposal :: "digest \<Rightarrow> int \<Rightarrow> hypothesis_proposal \<Rightarrow>
    (string, hypothesis) dict \<times> string list \<Rightarrow> ((string, hypothesis) dict \<times> string list) res" where
  "add_proposal H bound p = (\<lambda>(existing, added).
     bindR (proposed_hypothesis H p) (\<lambda>h.
       if dict_get existing (oh_hypothesis_id h) \<noteq> None then Inr (existing, added)
       else if int (length existing) \<ge> bound then Inl (PolicyError ''hypothesis set exceeds active bound'')
       else Inr (dict_set (oh_hypothesis_id h) h existing, added @ [oh_hypothesis_id h])))"

definition bounded_hypothesis_set :: "digest \<Rightarrow> hypothesis_set option \<Rightarrow> hypothesis_proposal list \<Rightarrow> int \<Rightarrow>
    (hypothesis_set \<times> string list) res" where
  "bounded_hypothesis_set H current proposals max_hypotheses =
     (let bound = max 1 max_hypotheses;
          existing = hypothesis_table (case current of None \<Rightarrow> [] | Some s \<Rightarrow> os_hypotheses s)
      in if int (length existing) > bound then Inl (PolicyError ''existing hypothesis state exceeds current active bound'')
         else bindR (foldR (add_proposal H bound) proposals (existing, [])) (\<lambda>(existing, added).
           bindR (make_set H bound existing) (\<lambda>result. Inr (result, added))))"

definition relation_mass :: "string list \<Rightarrow> evidence_link list \<Rightarrow> int" where
  "relation_mass relations links = sum_list (map hl_quality_bp (filter (\<lambda>l. hl_relation l \<in> set relations) links))"

definition material_falsifier :: "evidence_link list \<Rightarrow> bool" where
  "material_falsifier links =
     list_ex (\<lambda>l. hl_relation l = ''falsifies'' \<and> hl_quality_bp l \<ge> FALSIFIER_QUALITY_THRESHOLD_BP) links"

definition derive_scores :: "evidence_link list \<Rightarrow> int \<times> int \<times> int \<times> string" where
  "derive_scores links =
     (let support = min SCORE_SCALE (relation_mass [''supports''] links);
          conflict = min SCORE_SCALE (relation_mass [''conflicts'', ''falsifies''] links);
          balance = max (- SCORE_SCALE) (min SCORE_SCALE (support - conflict));
          status = (if material_falsifier links then ''FALSIFIED_BY_LINKED_EVIDENCE''
                    else if balance \<ge> STATUS_MARGIN_BP then ''SUPPORTED_BY_LINKED_EVIDENCE''
                    else if balance \<le> - STATUS_MARGIN_BP then ''WEAKENED_BY_LINKED_EVIDENCE''
                    else ''UNRESOLVED'')
      in (support, conflict, balance, status))"

definition model_proposed :: string where
  "model_proposed = ''MODEL_PROPOSED_RELATION_TO_VERIFIED_EVIDENCE''"

definition link_material :: "string \<Rightarrow> string \<Rightarrow> string \<Rightarrow> int \<Rightarrow> string \<Rightarrow> json" where
  "link_material hypothesis_id fingerprint relation quality source_hash = JObj [
     (''hypothesis_id'', JStr hypothesis_id), (''evidence_fingerprint'', JStr fingerprint), (''relation'', JStr relation),
     (''quality_bp'', JInt quality), (''source_snapshot_hash'', JStr source_hash),
     (''relation_epistemic_status'', JStr model_proposed)]"

definition make_link :: "digest \<Rightarrow> string \<Rightarrow> evidence_artifact \<Rightarrow> string \<Rightarrow> string \<Rightarrow> evidence_link" where
  "make_link H hypothesis_id e evidence_id relation =
     (let fingerprint = evidence_fingerprint H e in
      \<lparr>hl_evidence_id = evidence_id, hl_evidence_fingerprint = fingerprint, hl_relation = relation,
       hl_quality_bp = ev_quality_bp e, hl_source_snapshot_hash = ev_source_snapshot_hash e,
       hl_relation_epistemic_status = model_proposed,
       hl_signature = stable_hash H (link_material hypothesis_id fingerprint relation (ev_quality_bp e) (ev_source_snapshot_hash e))\<rparr>)"

definition with_links :: "hypothesis \<Rightarrow> evidence_link list \<Rightarrow> hypothesis" where
  "with_links h links = (case derive_scores links of (support, conflict, balance, status) \<Rightarrow>
     h\<lparr>oh_evidence_links := links, oh_evidence_support_bp := support, oh_evidence_conflict_bp := conflict,
       oh_evidence_balance_bp := balance, oh_status := status, oh_verification_status := ''UNVERIFIED_PROPOSITION'',
       oh_signature := []\<rparr>)"

definition link_hypothesis_evidence :: "digest \<Rightarrow> hypothesis_set \<Rightarrow> (string, evidence_artifact) dict \<Rightarrow>
    string \<Rightarrow> string \<Rightarrow> string \<Rightarrow> (hypothesis_set \<times> bool) res" where
  "link_hypothesis_evidence H current registry hypothesis_id evidence_id relation =
     (if relation \<notin> {''supports'', ''conflicts'', ''falsifies''}
        then Inl (PolicyError ''hypothesis evidence relation must be supports, conflicts, or falsifies'')
      else case dict_get registry evidence_id of
        None \<Rightarrow> Inl (PolicyError ''hypothesis evidence link references unknown grounded evidence'')
      | Some e \<Rightarrow>
          if ev_quality_bp e \<le> 0
            then Inl (PolicyError ''zero-quality evidence cannot create hypothesis-resolution progress'')
          else let table = hypothesis_table (os_hypotheses current) in
            (case dict_get table hypothesis_id of
               None \<Rightarrow> Inl (PolicyError ''unknown hypothesis_id'')
             | Some h \<Rightarrow>
                 if list_ex (\<lambda>l. hl_evidence_fingerprint l = evidence_fingerprint H e) (oh_evidence_links h)
                   then Inr (current, False)
                 else if length (oh_evidence_links h) \<ge> MAX_EVIDENCE_LINKS_PER_HYPOTHESIS
                   then Inl (PolicyError ''hypothesis evidence-link bound exceeded'')
                 else bindR (link_post_init (make_link H hypothesis_id e evidence_id relation)) (\<lambda>l.
                   bindR (seal_hypothesis H (with_links h (oh_evidence_links h @ [l]))) (\<lambda>updated.
                     bindR (make_set H (os_max_hypotheses current) (dict_set hypothesis_id updated table)) (\<lambda>result.
                       Inr (result, True))))))"

definition public_hypothesis_projection :: "hypothesis_set option \<Rightarrow> json" where
  "public_hypothesis_projection state = (case state of
     None \<Rightarrow> JObj [(''max_hypotheses'', JInt 0), (''hypotheses'', JList []), (''signature'', JStr [])]
   | Some s \<Rightarrow> JObj [(''max_hypotheses'', JInt (os_max_hypotheses s)), (''signature'', JStr (os_signature s)),
       (''hypotheses'', JList (map (\<lambda>h. JObj [
          (''hypothesis_id'', JStr (oh_hypothesis_id h)), (''proposition'', JStr (oh_proposition h)),
          (''model_prior_bp'', JInt (oh_model_prior_bp h)), (''assumptions'', jstrs (oh_assumptions h)),
          (''predictions'', jstrs (oh_predictions h)), (''falsifiers'', jstrs (oh_falsifiers h)),
          (''evidence_support_bp'', JInt (oh_evidence_support_bp h)),
          (''evidence_conflict_bp'', JInt (oh_evidence_conflict_bp h)),
          (''evidence_balance_bp'', JInt (oh_evidence_balance_bp h)), (''status'', JStr (oh_status h)),
          (''verification_status'', JStr (oh_verification_status h)),
          (''evidence_links'', JList (map (\<lambda>l. JObj [
             (''evidence_id'', JStr (hl_evidence_id l)), (''relation'', JStr (hl_relation l)),
             (''quality_bp'', JInt (hl_quality_bp l)),
             (''relation_epistemic_status'', JStr (hl_relation_epistemic_status l))]) (oh_evidence_links h)))])
        (os_hypotheses s)))])"

section \<open>Well-formed sets\<close>

definition material_of :: "hypothesis \<Rightarrow> definition_material" where
  "material_of h = \<lparr>dm_proposition = oh_proposition h, dm_model_prior_bp = oh_model_prior_bp h,
     dm_assumptions = oh_assumptions h, dm_predictions = oh_predictions h, dm_falsifiers = oh_falsifiers h\<rparr>"

definition identity_of :: "digest \<Rightarrow> definition_material \<Rightarrow> string" where
  "identity_of H m = ''hypothesis:'' @ stable_hash H (hypothesis_identity_material m)"

definition good_link :: "digest \<Rightarrow> string \<Rightarrow> evidence_link \<Rightarrow> bool" where
  "good_link H i l \<longleftrightarrow> hl_evidence_id l \<noteq> [] \<and> hl_evidence_fingerprint l \<noteq> [] \<and>
     hl_relation l \<in> set HYPOTHESIS_RELATIONS \<and> 0 < hl_quality_bp l \<and> hl_quality_bp l \<le> SCORE_SCALE \<and>
     hl_relation_epistemic_status l = model_proposed \<and>
     hl_signature l = stable_hash H (link_material i (hl_evidence_fingerprint l) (hl_relation l) (hl_quality_bp l) (hl_source_snapshot_hash l))"

definition scores_of :: "evidence_link list \<Rightarrow> int \<times> int \<times> int \<times> string" where
  "scores_of links = (if links = [] then (0, 0, 0, ''ACTIVE'') else derive_scores links)"

definition good_hypothesis :: "digest \<Rightarrow> hypothesis \<Rightarrow> bool" where
  "good_hypothesis H h \<longleftrightarrow>
     oh_hypothesis_id h = identity_of H (material_of h) \<and> strip (oh_proposition h) \<noteq> [] \<and>
     in_scale (oh_model_prior_bp h) \<and>
     canonical_strings (oh_assumptions h) = oh_assumptions h \<and> canonical_strings (oh_predictions h) = oh_predictions h \<and>
     canonical_strings (oh_falsifiers h) = oh_falsifiers h \<and>
     sorted (map link_sort_key (oh_evidence_links h)) \<and> distinct (map hl_evidence_fingerprint (oh_evidence_links h)) \<and>
     length (oh_evidence_links h) \<le> MAX_EVIDENCE_LINKS_PER_HYPOTHESIS \<and>
     list_all (good_link H (oh_hypothesis_id h)) (oh_evidence_links h) \<and>
     (oh_evidence_support_bp h, oh_evidence_conflict_bp h, oh_evidence_balance_bp h, oh_status h) = scores_of (oh_evidence_links h) \<and>
     oh_verification_status h = ''UNVERIFIED_PROPOSITION'' \<and> oh_signature h = hypothesis_signature H h"

definition good_set :: "digest \<Rightarrow> hypothesis_set \<Rightarrow> bool" where
  "good_set H s \<longleftrightarrow> 1 \<le> os_max_hypotheses s \<and> int (length (os_hypotheses s)) \<le> os_max_hypotheses s \<and>
     sorted (map oh_hypothesis_id (os_hypotheses s)) \<and> distinct (map oh_hypothesis_id (os_hypotheses s)) \<and>
     list_all (good_hypothesis H) (os_hypotheses s) \<and>
     os_signature s = set_signature H (os_max_hypotheses s) (os_hypotheses s)"

subsection \<open>Scores\<close>

lemma relation_mass_mset: "mset xs = mset ys \<Longrightarrow> relation_mass rs xs = relation_mass rs ys"
proof -
  assume "mset xs = mset ys"
  then have "mset (map hl_quality_bp (filter (\<lambda>l. hl_relation l \<in> set rs) xs)) =
      mset (map hl_quality_bp (filter (\<lambda>l. hl_relation l \<in> set rs) ys))" by simp
  then show ?thesis unfolding relation_mass_def by (metis sum_mset_sum_list)
qed

lemma material_falsifier_set: "set xs = set ys \<Longrightarrow> material_falsifier xs = material_falsifier ys"
  by (simp add: material_falsifier_def list_ex_iff)

lemma derive_scores_mset: "mset xs = mset ys \<Longrightarrow> derive_scores xs = derive_scores ys"
  unfolding derive_scores_def by (simp only: relation_mass_mset [of xs ys] material_falsifier_set [OF mset_eq_setD, of xs ys])

lemma relation_mass_nonneg: "list_all (good_link H i) ls \<Longrightarrow> 0 \<le> relation_mass rs ls"
  unfolding relation_mass_def
  by (rule sum_list_nonneg) (auto simp: list_all_iff good_link_def)

lemma clamp_scale:
  "0 \<le> x \<Longrightarrow> in_scale (min SCORE_SCALE x)"
  "- SCORE_SCALE \<le> max (- SCORE_SCALE) (min SCORE_SCALE x) \<and> max (- SCORE_SCALE) (min SCORE_SCALE x) \<le> SCORE_SCALE"
  by (simp_all add: min_def max_def)

lemma derive_scores_range:
  assumes "derive_scores ls = (a, b, c, st)" and "list_all (good_link H i) ls"
  shows "in_scale a" "in_scale b" "- SCORE_SCALE \<le> c \<and> c \<le> SCORE_SCALE" "st \<in> set LINKED_HYPOTHESIS_STATUSES"
proof -
  note eq = assms(1) [unfolded derive_scores_def Let_def prod.inject]
  have a: "a = min SCORE_SCALE (relation_mass [''supports''] ls)" using eq by (elim conjE) (rule sym)
  have b: "b = min SCORE_SCALE (relation_mass [''conflicts'', ''falsifies''] ls)" using eq by (elim conjE) (rule sym)
  have c: "c = max (- SCORE_SCALE) (min SCORE_SCALE (min SCORE_SCALE (relation_mass [''supports''] ls) -
      min SCORE_SCALE (relation_mass [''conflicts'', ''falsifies''] ls)))" using eq by (elim conjE) (rule sym)
  show "in_scale a" "in_scale b" "- SCORE_SCALE \<le> c \<and> c \<le> SCORE_SCALE"
    unfolding a b c by (rule clamp_scale relation_mass_nonneg [OF assms(2)])+
  have "st = snd (snd (snd (derive_scores ls)))" using assms(1) by simp
  then show "st \<in> set LINKED_HYPOTHESIS_STATUSES"
    by (simp only: derive_scores_def Let_def snd_conv LINKED_HYPOTHESIS_STATUSES_def list.set insert_iff simp_thms split: if_split)
qed

subsection \<open>Construction and signing\<close>

definition post_ok :: "hypothesis \<Rightarrow> bool" where
  "post_ok h \<longleftrightarrow> oh_hypothesis_id h \<noteq> [] \<and> strip (oh_proposition h) \<noteq> [] \<and> in_scale (oh_model_prior_bp h) \<and>
     distinct (map (\<lambda>l. (hl_evidence_fingerprint l, hl_relation l)) (oh_evidence_links h)) \<and>
     in_scale (oh_evidence_support_bp h) \<and> in_scale (oh_evidence_conflict_bp h) \<and>
     (- SCORE_SCALE \<le> oh_evidence_balance_bp h \<and> oh_evidence_balance_bp h \<le> SCORE_SCALE) \<and>
     oh_status h \<in> set LINKED_HYPOTHESIS_STATUSES \<and> oh_verification_status h = ''UNVERIFIED_PROPOSITION''"

definition canonical_hypothesis :: "hypothesis \<Rightarrow> hypothesis" where
  "canonical_hypothesis h = h\<lparr>oh_assumptions := canonical_strings (oh_assumptions h),
     oh_predictions := canonical_strings (oh_predictions h), oh_falsifiers := canonical_strings (oh_falsifiers h),
     oh_evidence_links := sort_key link_sort_key (oh_evidence_links h)\<rparr>"

definition signed_hypothesis :: "digest \<Rightarrow> hypothesis \<Rightarrow> hypothesis" where
  "signed_hypothesis H h = (canonical_hypothesis h)\<lparr>oh_signature := hypothesis_signature H (canonical_hypothesis h)\<rparr>"

lemma distinct_sort_key_map: "distinct (map f (sort_key k xs)) = distinct (map f xs)"
  by (metis distinct_map distinct_sort set_sort)

lemma hypothesis_post_init_eq:
  "hypothesis_post_init h = Inr g \<longleftrightarrow> post_ok h \<and> g = canonical_hypothesis h"
proof (cases "post_ok h")
  case True
  then show ?thesis
    by (simp only: hypothesis_post_init_def post_ok_def Let_def distinct_sort_key_map de_Morgan_disj if_False if_True
        not_True_eq_False simp_thms canonical_hypothesis_def sum.inject) auto
next
  case False
  have "hypothesis_post_init h \<noteq> Inr g"
  proof
    assume "hypothesis_post_init h = Inr g"
    then have "post_ok h"
      unfolding hypothesis_post_init_def post_ok_def Let_def distinct_sort_key_map guard_Inr by blast
    with False show False by simp
  qed
  with False show ?thesis by simp
qed

lemma post_ok_signed [simp]: "post_ok (signed_hypothesis H h) = post_ok h"
  by (simp add: post_ok_def signed_hypothesis_def canonical_hypothesis_def distinct_sort_key_map)

lemma sort_key_idem [simp]: "sort_key k (sort_key k xs) = sort_key k xs"
  by (rule sort_key_id_if_sorted) simp

lemma canonical_signed: "canonical_hypothesis (signed_hypothesis H h) = signed_hypothesis H h"
  by (simp add: signed_hypothesis_def canonical_hypothesis_def)

lemma seal_hypothesis_eq: "seal_hypothesis H h = Inr g \<longleftrightarrow> post_ok h \<and> g = signed_hypothesis H h"
proof -
  have "seal_hypothesis H h = Inr g \<longleftrightarrow> post_ok h \<and> hypothesis_post_init (signed_hypothesis H h) = Inr g"
    by (simp only: seal_hypothesis_def bindR_Inr hypothesis_post_init_eq signed_hypothesis_def) blast
  then show ?thesis by (simp only: hypothesis_post_init_eq post_ok_signed canonical_signed conj_assoc [symmetric] simp_thms)
qed

lemma signed_fields [simp]:
  "oh_hypothesis_id (signed_hypothesis H h) = oh_hypothesis_id h"
  "oh_proposition (signed_hypothesis H h) = oh_proposition h"
  "oh_model_prior_bp (signed_hypothesis H h) = oh_model_prior_bp h"
  "oh_assumptions (signed_hypothesis H h) = canonical_strings (oh_assumptions h)"
  "oh_predictions (signed_hypothesis H h) = canonical_strings (oh_predictions h)"
  "oh_falsifiers (signed_hypothesis H h) = canonical_strings (oh_falsifiers h)"
  "oh_evidence_links (signed_hypothesis H h) = sort_key link_sort_key (oh_evidence_links h)"
  "oh_evidence_support_bp (signed_hypothesis H h) = oh_evidence_support_bp h"
  "oh_evidence_conflict_bp (signed_hypothesis H h) = oh_evidence_conflict_bp h"
  "oh_evidence_balance_bp (signed_hypothesis H h) = oh_evidence_balance_bp h"
  "oh_status (signed_hypothesis H h) = oh_status h"
  "oh_verification_status (signed_hypothesis H h) = oh_verification_status h"
  by (simp_all add: signed_hypothesis_def canonical_hypothesis_def)

lemma signature_ignored [simp]: "hypothesis_signature H (h\<lparr>oh_signature := s\<rparr>) = hypothesis_signature H h"
  by (simp add: hypothesis_signature_def hypothesis_payload_def)

lemma signed_signature [simp]: "oh_signature (signed_hypothesis H h) = hypothesis_signature H (signed_hypothesis H h)"
  by (simp add: signed_hypothesis_def)

lemma canonical_stripped [simp]: "canonical_strings (stripped_set vs) = stripped_set vs"
  by (rule canonical_strings_id) (simp_all add: stripped_set_def)

lemma identity_signed [simp]:
  "oh_assumptions h = canonical_strings (oh_assumptions h) \<Longrightarrow> oh_predictions h = canonical_strings (oh_predictions h) \<Longrightarrow>
   oh_falsifiers h = canonical_strings (oh_falsifiers h) \<Longrightarrow> material_of (signed_hypothesis H h) = material_of h"
  by (simp add: material_of_def)

lemma make_hypothesis_good:
  assumes "make_hypothesis H p b xs ys zs = Inr h"
  shows "good_hypothesis H h \<and> oh_evidence_links h = [] \<and> hypothesis_definition_material p b xs ys zs = Inr (material_of h)"
proof -
  from assms obtain m where m: "hypothesis_definition_material p b xs ys zs = Inr m"
    and s: "seal_hypothesis H \<lparr>oh_hypothesis_id = ''hypothesis:'' @ stable_hash H (hypothesis_identity_material m),
          oh_proposition = dm_proposition m, oh_model_prior_bp = dm_model_prior_bp m, oh_assumptions = dm_assumptions m,
          oh_predictions = dm_predictions m, oh_falsifiers = dm_falsifiers m, oh_evidence_links = [],
          oh_evidence_support_bp = 0, oh_evidence_conflict_bp = 0, oh_evidence_balance_bp = 0,
          oh_status = ''ACTIVE'', oh_verification_status = ''UNVERIFIED_PROPOSITION'', oh_signature = []\<rparr> = Inr h"
    (is "seal_hypothesis H ?h = Inr h")
    unfolding make_hypothesis_def bindR_Inr by (elim exE conjE) (rule that)
  from m have c: "canonical_strings (dm_assumptions m) = dm_assumptions m" "canonical_strings (dm_predictions m) = dm_predictions m"
      "canonical_strings (dm_falsifiers m) = dm_falsifiers m"
    unfolding hypothesis_definition_material_def Let_def guard_Inr sum.inject by auto
  have h: "post_ok ?h" "h = signed_hypothesis H ?h" using s unfolding seal_hypothesis_eq by simp_all
  have mat: "material_of h = m" unfolding h(2) by (simp add: material_of_def c)
  have "strip (dm_proposition m) \<noteq> [] \<and> in_scale (dm_model_prior_bp m)" using h(1) by (simp add: post_ok_def)
  then have "good_hypothesis H h"
    unfolding good_hypothesis_def mat by (simp add: h(2) c identity_of_def scores_of_def MAX_EVIDENCE_LINKS_PER_HYPOTHESIS_def)
  with m mat show ?thesis by (simp add: h(2))
qed

subsection \<open>Adding links\<close>

definition extend :: "digest \<Rightarrow> hypothesis \<Rightarrow> evidence_link list \<Rightarrow> hypothesis" where
  "extend H h ls = (if ls = [] then h else signed_hypothesis H (with_links h (oh_evidence_links h @ ls)))"

lemma with_links_fields [simp]:
  "oh_hypothesis_id (with_links h ls) = oh_hypothesis_id h" "oh_proposition (with_links h ls) = oh_proposition h"
  "oh_model_prior_bp (with_links h ls) = oh_model_prior_bp h" "oh_assumptions (with_links h ls) = oh_assumptions h"
  "oh_predictions (with_links h ls) = oh_predictions h" "oh_falsifiers (with_links h ls) = oh_falsifiers h"
  "oh_evidence_links (with_links h ls) = ls" "oh_verification_status (with_links h ls) = ''UNVERIFIED_PROPOSITION''"
  by (simp_all add: with_links_def split_beta)

lemma with_links_scores:
  "(oh_evidence_support_bp (with_links h ls), oh_evidence_conflict_bp (with_links h ls),
    oh_evidence_balance_bp (with_links h ls), oh_status (with_links h ls)) = derive_scores ls"
  by (simp add: with_links_def split_beta)

lemma extend_fields [simp]:
  "oh_hypothesis_id (extend H h ls) = oh_hypothesis_id h" "oh_proposition (extend H h ls) = oh_proposition h"
  "oh_model_prior_bp (extend H h ls) = oh_model_prior_bp h"
  by (simp_all add: extend_def)

lemma extend_links: "ls \<noteq> [] \<Longrightarrow> oh_evidence_links (extend H h ls) = sort_key link_sort_key (oh_evidence_links h @ ls)"
  by (simp add: extend_def)

lemma mset_extend_links: "mset (oh_evidence_links (extend H h ls)) = mset (oh_evidence_links h @ ls)"
  by (simp add: extend_def)

lemma list_all_mset: "mset xs = mset ys \<Longrightarrow> list_all P xs = list_all P ys"
  by (metis list_all_iff mset_eq_setD)

lemma distinct_map_mset: "mset xs = mset ys \<Longrightarrow> distinct (map f xs) = distinct (map f ys)"
  by (metis mset_eq_imp_distinct_iff mset_map)

lemma with_links_post_ok:
  assumes "good_hypothesis H h" and "list_all (good_link H (oh_hypothesis_id h)) ls" and "distinct (map hl_evidence_fingerprint ls)"
  shows "post_ok (with_links h ls)"
proof -
  obtain a b c st where d: "derive_scores ls = (a, b, c, st)" by (metis prod_cases4)
  note r = derive_scores_range [OF d assms(2)]
  have "distinct (map (\<lambda>l. (hl_evidence_fingerprint l, hl_relation l)) ls)"
    using assms(3) by (auto simp: distinct_map inj_on_def)
  moreover have "oh_hypothesis_id h \<noteq> []" "strip (oh_proposition h) \<noteq> []" "in_scale (oh_model_prior_bp h)"
    using assms(1) unfolding good_hypothesis_def identity_of_def by simp_all
  ultimately show ?thesis using r with_links_scores [of h ls] unfolding d post_ok_def prod.inject
    by (simp only: with_links_fields simp_thms)
qed

lemma good_hypothesis_links:
  assumes "good_hypothesis H h"
  shows "list_all (good_link H (oh_hypothesis_id h)) (oh_evidence_links h)"
    and "distinct (map hl_evidence_fingerprint (oh_evidence_links h))"
    and "length (oh_evidence_links h) \<le> MAX_EVIDENCE_LINKS_PER_HYPOTHESIS"
  using assms unfolding good_hypothesis_def by blast+

lemma extend_good:
  assumes "good_hypothesis H h" and "list_all (good_link H (oh_hypothesis_id h)) ls"
    and "distinct (map hl_evidence_fingerprint (oh_evidence_links h @ ls))"
    and "length (oh_evidence_links h @ ls) \<le> MAX_EVIDENCE_LINKS_PER_HYPOTHESIS"
  shows "good_hypothesis H (extend H h ls)"
proof (cases "ls = []")
  case True
  with assms(1) show ?thesis by (simp add: extend_def)
next
  case False
  let ?all = "oh_evidence_links h @ ls"
  let ?g = "extend H h ls"
  have g: "?g = signed_hypothesis H (with_links h ?all)" using False by (simp add: extend_def)
  have links: "oh_evidence_links ?g = sort_key link_sort_key ?all" using False by (rule extend_links)
  have sc: "(oh_evidence_support_bp ?g, oh_evidence_conflict_bp ?g, oh_evidence_balance_bp ?g, oh_status ?g) =
      derive_scores (oh_evidence_links ?g)"
    unfolding links using with_links_scores [of h ?all] derive_scores_mset [of "sort_key link_sort_key ?all" ?all]
    by (simp only: g signed_fields mset_sort)
  have ne: "oh_evidence_links ?g \<noteq> []" using False links mset_sort [of link_sort_key ?all]
    by (metis append_is_Nil_conv mset_zero_iff)
  have canon: "canonical_strings (oh_assumptions h) = oh_assumptions h" "canonical_strings (oh_predictions h) = oh_predictions h"
      "canonical_strings (oh_falsifiers h) = oh_falsifiers h" and i: "oh_hypothesis_id h = identity_of H (material_of h)" and p: "strip (oh_proposition h) \<noteq> []" "in_scale (oh_model_prior_bp h)"
    using assms(1) unfolding good_hypothesis_def by simp_all
  note old = good_hypothesis_links(1) [OF assms(1)]
  have mat: "material_of ?g = material_of h" by (simp add: g material_of_def canon)
  have all: "list_all (good_link H (oh_hypothesis_id h)) (sort_key link_sort_key ?all)"
    using old assms(2) list_all_mset [of "sort_key link_sort_key ?all" ?all] by (simp del: sort_append)
  show ?thesis
    unfolding good_hypothesis_def mat sc scores_of_def if_not_P [OF ne]
  proof (intro conjI)
    show "oh_hypothesis_id ?g = identity_of H (material_of h)" using i by simp
    show "strip (oh_proposition ?g) \<noteq> []" "0 \<le> oh_model_prior_bp ?g" "oh_model_prior_bp ?g \<le> SCORE_SCALE" using p by simp_all
    show "canonical_strings (oh_assumptions ?g) = oh_assumptions ?g" "canonical_strings (oh_predictions ?g) = oh_predictions ?g"
        "canonical_strings (oh_falsifiers ?g) = oh_falsifiers ?g" by (simp_all add: g)
    show "sorted (map link_sort_key (oh_evidence_links ?g))" unfolding links by (rule sorted_sort_key)
    show "distinct (map hl_evidence_fingerprint (oh_evidence_links ?g))" unfolding links distinct_sort_key_map by (rule assms(3))
    show "length (oh_evidence_links ?g) \<le> MAX_EVIDENCE_LINKS_PER_HYPOTHESIS" unfolding links length_sort by (rule assms(4))
    show "list_all (good_link H (oh_hypothesis_id ?g)) (oh_evidence_links ?g)" unfolding links extend_fields by (rule all)
    show "oh_verification_status ?g = ''UNVERIFIED_PROPOSITION''" by (simp add: g)
    show "oh_signature ?g = hypothesis_signature H ?g" unfolding g by (rule signed_signature)
  qed rule
qed

subsection \<open>Tables and sets\<close>

definition keyed :: "hypothesis list \<Rightarrow> (string, hypothesis) dict" where
  "keyed hs = map (\<lambda>h. (oh_hypothesis_id h, h)) hs"

lemma update_new: "k \<notin> fst ` set d \<Longrightarrow> dict_set k v d = d @ [(k, v)]"
  by (induction d) auto

lemma table_keyed: "distinct (map oh_hypothesis_id hs) \<Longrightarrow> hypothesis_table hs = keyed hs"
proof -
  have "distinct (map oh_hypothesis_id hs) \<Longrightarrow> fst ` set d \<inter> oh_hypothesis_id ` set hs = {} \<Longrightarrow>
      fold (\<lambda>h. dict_set (oh_hypothesis_id h) h) hs d = d @ keyed hs" for d
  proof (induction hs arbitrary: d)
    case Nil
    then show ?case by (simp add: keyed_def)
  next
    case (Cons h hs)
    then have "dict_set (oh_hypothesis_id h) h d = d @ [(oh_hypothesis_id h, h)]" by (intro update_new) auto
    with Cons show ?case by (simp add: keyed_def)
  qed
  from this [of "[]"] show "distinct (map oh_hypothesis_id hs) \<Longrightarrow> hypothesis_table hs = keyed hs"
    by (simp add: hypothesis_table_def)
qed

lemma keyed_get: "distinct (map oh_hypothesis_id hs) \<Longrightarrow>
    dict_get (keyed hs) i = Some h \<longleftrightarrow> h \<in> set hs \<and> oh_hypothesis_id h = i"
  by (auto simp: keyed_def map_of_eq_Some_iff comp_def)

lemma keyed_set: "oh_hypothesis_id g = i \<Longrightarrow> i \<in> oh_hypothesis_id ` set hs \<Longrightarrow> distinct (map oh_hypothesis_id hs) \<Longrightarrow>
    dict_set i g (keyed hs) = keyed (map (\<lambda>h. if oh_hypothesis_id h = i then g else h) hs)"
proof (induction hs)
  case (Cons h hs)
  have "map (\<lambda>h. if oh_hypothesis_id h = i then g else h) hs = hs" if "i \<notin> oh_hypothesis_id ` set hs"
    by (rule map_idI) (use that in auto)
  with Cons show ?case by (cases "oh_hypothesis_id h = i") (simp_all add: keyed_def)
qed simp

definition set_result :: "digest \<Rightarrow> int \<Rightarrow> hypothesis list \<Rightarrow> hypothesis_set" where
  "set_result H bound hs = \<lparr>os_max_hypotheses = bound, os_hypotheses = hs, os_signature = set_signature H bound hs\<rparr>"

lemma make_set_eq:
  assumes "sort_key oh_hypothesis_id (map snd d) = hs"
  shows "make_set H bound d = Inr t \<longleftrightarrow> 1 \<le> bound \<and> int (length d) \<le> bound \<and> distinct (map oh_hypothesis_id (map snd d)) \<and>
    t = set_result H bound hs"
proof -
  have len: "length hs = length d" using assms by auto
  have dist: "distinct (map oh_hypothesis_id hs) = distinct (map oh_hypothesis_id (map snd d))"
    unfolding assms [symmetric] by (rule distinct_sort_key_map)
  have sorted: "sort_key oh_hypothesis_id hs = hs" unfolding assms [symmetric] by simp
  show ?thesis
    by (simp add: make_set_def assms Let_def set_post_init_def sorted len dist set_result_def not_less eq_commute [of t])
qed

lemma make_set_keyed:
  assumes "sorted (map oh_hypothesis_id hs)" "distinct (map oh_hypothesis_id hs)" "1 \<le> bound" "int (length hs) \<le> bound"
  shows "make_set H bound (keyed hs) = Inr (set_result H bound hs)"
proof -
  have "map snd (keyed hs) = hs" by (simp add: keyed_def comp_def)
  then show ?thesis using make_set_eq [of "keyed hs" hs] assms by (simp add: keyed_def sort_key_id_if_sorted)
qed

lemma good_setE:
  assumes "good_set H s"
  shows "1 \<le> os_max_hypotheses s" "int (length (os_hypotheses s)) \<le> os_max_hypotheses s"
    "sorted (map oh_hypothesis_id (os_hypotheses s))" "distinct (map oh_hypothesis_id (os_hypotheses s))"
    "\<And>h. h \<in> set (os_hypotheses s) \<Longrightarrow> good_hypothesis H h"
    "s = set_result H (os_max_hypotheses s) (os_hypotheses s)"
  using assms by (auto simp: good_set_def list_all_iff set_result_def)

lemma good_set_result:
  "good_set H (set_result H bound hs) \<longleftrightarrow> 1 \<le> bound \<and> int (length hs) \<le> bound \<and> sorted (map oh_hypothesis_id hs) \<and>
    distinct (map oh_hypothesis_id hs) \<and> list_all (good_hypothesis H) hs"
  by (simp add: good_set_def set_result_def)

lemma set_result_fields [simp]:
  "os_hypotheses (set_result H b hs) = hs" "os_max_hypotheses (set_result H b hs) = b"
  by (simp_all add: set_result_def)

section \<open>Linking requests\<close>

text \<open>
  A linking request names a hypothesis, a piece of evidence and a relation. What a list of
  requests does to a set is written down as a whole: which lists are accepted, and the set they
  lead to.
\<close>

type_synonym link_request = "string \<times> string \<times> string"

definition valid_request :: "digest \<Rightarrow> (string, evidence_artifact) dict \<Rightarrow> link_request \<Rightarrow> bool" where
  "valid_request H registry = (\<lambda>(i, evidence_id, relation).
     relation \<in> set HYPOTHESIS_RELATIONS \<and> evidence_id \<noteq> [] \<and>
     (case dict_get registry evidence_id of None \<Rightarrow> False
      | Some e \<Rightarrow> 0 < ev_quality_bp e \<and> ev_quality_bp e \<le> SCORE_SCALE \<and> evidence_fingerprint H e \<noteq> []))"

definition new_links :: "digest \<Rightarrow> (string, evidence_artifact) dict \<Rightarrow> string \<Rightarrow> link_request list \<Rightarrow> evidence_link list" where
  "new_links H registry i requests =
     map (\<lambda>(j, evidence_id, relation). make_link H j (the (dict_get registry evidence_id)) evidence_id relation)
       (filter (\<lambda>r. fst r = i) requests)"

definition accepted :: "digest \<Rightarrow> (string, evidence_artifact) dict \<Rightarrow> hypothesis_set \<Rightarrow> link_request list \<Rightarrow> bool" where
  "accepted H registry s requests \<longleftrightarrow>
     list_all (\<lambda>r. valid_request H registry r \<and> fst r \<in> oh_hypothesis_id ` set (os_hypotheses s)) requests \<and>
     list_all (\<lambda>h. let ls = oh_evidence_links h @ new_links H registry (oh_hypothesis_id h) requests
        in distinct (map hl_evidence_fingerprint ls) \<and> length ls \<le> MAX_EVIDENCE_LINKS_PER_HYPOTHESIS) (os_hypotheses s)"

definition linked_set :: "digest \<Rightarrow> (string, evidence_artifact) dict \<Rightarrow> hypothesis_set \<Rightarrow> link_request list \<Rightarrow> hypothesis_set" where
  "linked_set H registry s requests = set_result H (os_max_hypotheses s)
     (map (\<lambda>h. extend H h (new_links H registry (oh_hypothesis_id h) requests)) (os_hypotheses s))"

lemma make_link_fields [simp]:
  "hl_evidence_id (make_link H i e j r) = j" "hl_evidence_fingerprint (make_link H i e j r) = evidence_fingerprint H e"
  "hl_relation (make_link H i e j r) = r" "hl_quality_bp (make_link H i e j r) = ev_quality_bp e"
  by (simp_all add: make_link_def Let_def)

lemma make_link_good:
  assumes "valid_request H reg (i, j, r)" and "dict_get reg j = Some e"
  shows "good_link H i (make_link H i e j r)"
  using assms by (simp add: valid_request_def good_link_def make_link_def Let_def)

lemma new_links_good:
  assumes "list_all (valid_request H reg) rs"
  shows "list_all (good_link H i) (new_links H reg i rs)"
  unfolding list_all_iff
proof
  fix l assume "l \<in> set (new_links H reg i rs)"
  then obtain j r where m: "(i, j, r) \<in> set rs" and l: "l = make_link H i (the (dict_get reg j)) j r"
    by (auto simp: new_links_def)
  from m assms have v: "valid_request H reg (i, j, r)" by (auto simp: list_all_iff)
  then obtain e where e: "dict_get reg j = Some e" by (auto simp: valid_request_def split: option.splits)
  with make_link_good [OF v e] l show "good_link H i l" by simp
qed

lemma linked_set_good:
  assumes "good_set H s" and "accepted H reg s rs"
  shows "good_set H (linked_set H reg s rs)"
proof -
  note g = good_setE [OF assms(1)]
  have "list_all (valid_request H reg) rs" using assms(2) by (auto simp: accepted_def list_all_iff)
  note ls = new_links_good [OF this]
  have "good_hypothesis H (extend H h (new_links H reg (oh_hypothesis_id h) rs))" if "h \<in> set (os_hypotheses s)" for h
    using assms(2) that by (intro extend_good g(5) ls) (simp_all add: accepted_def list_all_iff Let_def)
  then show ?thesis unfolding linked_set_def good_set_result using g by (simp add: list_all_iff comp_def)
qed

lemma link_post_init_eq: "link_post_init l = Inr k \<longleftrightarrow>
    hl_evidence_id l \<noteq> [] \<and> hl_evidence_fingerprint l \<noteq> [] \<and> hl_relation l \<in> set HYPOTHESIS_RELATIONS \<and>
    in_scale (hl_quality_bp l) \<and> hl_relation_epistemic_status l = model_proposed \<and> k = l"
  unfolding link_post_init_def guard_Inr model_proposed_def [symmetric] sum.inject not_not de_Morgan_disj by blast

lemma relations_set: "relation \<notin> {''supports'', ''conflicts'', ''falsifies''} \<longleftrightarrow> relation \<notin> set HYPOTHESIS_RELATIONS"
  by (simp add: HYPOTHESIS_RELATIONS_def)

lemma new_links_one:
  "new_links H reg i [(i, j, r)] = [make_link H i (the (dict_get reg j)) j r]"
  "i \<noteq> k \<Longrightarrow> new_links H reg k [(i, j, r)] = []"
  "new_links H reg k [] = []"
  by (simp_all add: new_links_def)

lemma linked_one:
  assumes "good_set H s" and "h \<in> set (os_hypotheses s)" and "oh_hypothesis_id h = i"
  shows "linked_set H reg s [(i, j, r)] = set_result H (os_max_hypotheses s)
    (map (\<lambda>k. if oh_hypothesis_id k = i then extend H h [make_link H i (the (dict_get reg j)) j r] else k) (os_hypotheses s))"
proof -
  have "k = h" if "k \<in> set (os_hypotheses s)" "oh_hypothesis_id k = i" for k
    using that assms(2,3) good_setE(4) [OF assms(1)] by (metis distinct_map inj_onD)
  then show ?thesis unfolding linked_set_def
    by (intro arg_cong [where f = "set_result H (os_max_hypotheses s)"] map_cong) (auto simp: new_links_one extend_def [of _ _ "[]"])
qed

lemma accepted_one:
  assumes "good_set H s" and "h \<in> set (os_hypotheses s)" and "oh_hypothesis_id h = i"
  shows "accepted H reg s [(i, j, r)] \<longleftrightarrow> valid_request H reg (i, j, r) \<and>
    evidence_fingerprint H (the (dict_get reg j)) \<notin> hl_evidence_fingerprint ` set (oh_evidence_links h) \<and>
    length (oh_evidence_links h) < MAX_EVIDENCE_LINKS_PER_HYPOTHESIS"
proof -
  note g = good_setE [OF assms(1)]
  have same: "k = h" if "k \<in> set (os_hypotheses s)" "oh_hypothesis_id k = i" for k
    using that assms(2,3) g(4) by (metis distinct_map inj_onD)
  have old: "distinct (map hl_evidence_fingerprint (oh_evidence_links k)) \<and>
      length (oh_evidence_links k) \<le> MAX_EVIDENCE_LINKS_PER_HYPOTHESIS" if "k \<in> set (os_hypotheses s)" for k
    using g(5) [OF that] by (simp add: good_hypothesis_def)
  let ?ok = "\<lambda>k. let ls = oh_evidence_links k @ new_links H reg (oh_hypothesis_id k) [(i, j, r)]
    in distinct (map hl_evidence_fingerprint ls) \<and> length ls \<le> MAX_EVIDENCE_LINKS_PER_HYPOTHESIS"
  have "list_all ?ok (os_hypotheses s) \<longleftrightarrow> ?ok h"
    unfolding list_all_iff using assms(2) same old by (metis Let_def append_Nil2 new_links_one(2))
  moreover have "?ok h \<longleftrightarrow>
    evidence_fingerprint H (the (dict_get reg j)) \<notin> hl_evidence_fingerprint ` set (oh_evidence_links h) \<and>
    length (oh_evidence_links h) < MAX_EVIDENCE_LINKS_PER_HYPOTHESIS"
    using old [OF assms(2)] by (auto simp: assms(3) new_links_one)
  ultimately show ?thesis using assms(2,3) unfolding accepted_def by auto
qed

text \<open>
  One call that answers \<open>True\<close> is one accepted request; one that answers \<open>False\<close> leaves the set
  as it is.
\<close>

lemma link_found:
  assumes s: "good_set H s" and h: "h \<in> set (os_hypotheses s)" and i: "oh_hypothesis_id h = i"
    and v: "valid_request H reg (i, j, r)" and e: "dict_get reg j = Some e"
  shows "link_hypothesis_evidence H s reg i j r =
    (if evidence_fingerprint H e \<in> hl_evidence_fingerprint ` set (oh_evidence_links h) then Inr (s, False)
     else if length (oh_evidence_links h) \<ge> MAX_EVIDENCE_LINKS_PER_HYPOTHESIS
       then Inl (PolicyError ''hypothesis evidence-link bound exceeded'')
     else Inr (linked_set H reg s [(i, j, r)], True))"
proof -
  note g = good_setE [OF s]
  have v': "r \<in> set HYPOTHESIS_RELATIONS" "j \<noteq> []" "0 < ev_quality_bp e" "ev_quality_bp e \<le> SCORE_SCALE"
      "evidence_fingerprint H e \<noteq> []" "\<not> ev_quality_bp e \<le> 0" using v e by (simp_all add: valid_request_def)
  have get: "dict_get (hypothesis_table (os_hypotheses s)) i = Some h"
    unfolding table_keyed [OF g(4)] keyed_get [OF g(4)] using h i by simp
  have mem: "list_ex (\<lambda>l. hl_evidence_fingerprint l = evidence_fingerprint H e) (oh_evidence_links h) \<longleftrightarrow>
      evidence_fingerprint H e \<in> hl_evidence_fingerprint ` set (oh_evidence_links h)"
    unfolding list_ex_iff image_iff by metis
  let ?l = "make_link H i e j r" and ?hs = "os_hypotheses s"
  have l: "good_link H i ?l" using make_link_good [OF v e] .
  have post: "link_post_init ?l = Inr ?l" unfolding link_post_init_eq using l by (simp add: good_link_def)
  have rest: "bindR (seal_hypothesis H (with_links h (oh_evidence_links h @ [?l]))) (\<lambda>updated.
        bindR (make_set H (os_max_hypotheses s) (dict_set i updated (hypothesis_table ?hs))) (\<lambda>result. Inr (result, True)))
      = Inr (linked_set H reg s [(i, j, r)], True)"
    if new: "evidence_fingerprint H e \<notin> hl_evidence_fingerprint ` set (oh_evidence_links h)"
  proof -
    have gh: "good_hypothesis H h" using g(5) h .
    have "post_ok (with_links h (oh_evidence_links h @ [?l]))"
      using good_hypothesis_links [OF gh] l new by (intro with_links_post_ok [OF gh]) (simp_all add: i)
    then have "seal_hypothesis H (with_links h (oh_evidence_links h @ [?l])) = Inr (extend H h [?l])"
      unfolding seal_hypothesis_eq by (simp add: extend_def)
    moreover have "dict_set i (extend H h [?l]) (hypothesis_table ?hs) =
        keyed (map (\<lambda>k. if oh_hypothesis_id k = i then extend H h [?l] else k) ?hs)"
      unfolding table_keyed [OF g(4)] using g(4) h i by (intro keyed_set) auto
    moreover have ids: "map oh_hypothesis_id (map (\<lambda>k. if oh_hypothesis_id k = i then extend H h [?l] else k) ?hs) =
        map oh_hypothesis_id ?hs" using i by (simp add: comp_def cong: if_cong)
    moreover have "make_set H (os_max_hypotheses s) (keyed (map (\<lambda>k. if oh_hypothesis_id k = i then extend H h [?l] else k) ?hs))
        = Inr (linked_set H reg s [(i, j, r)])"
      unfolding linked_one [OF s h i] using g(1-4) e
      by (subst make_set_keyed) (simp_all only: ids length_map option.sel)
    ultimately show ?thesis by simp
  qed
  show ?thesis
    unfolding link_hypothesis_evidence_def relations_set Let_def using v' e get
    by (simp only: mem post rest bindR_simps if_False if_True not_not option.case simp_thms cong: if_cong)
qed

text \<open>A request that is not valid, or names no hypothesis of the set, is refused.\<close>

lemma link_refused:
  assumes "good_set H s" and "\<not> valid_request H reg (i, j, r) \<or> i \<notin> oh_hypothesis_id ` set (os_hypotheses s)"
    and "link_hypothesis_evidence H s reg i j r = Inr (t, b)"
  shows "t = s \<and> \<not> b"
proof -
  note g = good_setE [OF assms(1)]
  from assms(3) obtain e h where e: "dict_get reg j = Some e" and q: "\<not> ev_quality_bp e \<le> 0"
    and rel: "r \<in> set HYPOTHESIS_RELATIONS" and h: "dict_get (hypothesis_table (os_hypotheses s)) i = Some h"
    unfolding link_hypothesis_evidence_def relations_set Let_def guard_Inr not_not
    by (cases "dict_get reg j"; simp; cases "dict_get (hypothesis_table (os_hypotheses s)) i"; simp add: guard_Inr)
  have "h \<in> set (os_hypotheses s)" "oh_hypothesis_id h = i"
    using h unfolding table_keyed [OF g(4)] keyed_get [OF g(4)] by simp_all
  with assms(2) have v: "\<not> valid_request H reg (i, j, r)" by auto
  show ?thesis
  proof (cases "list_ex (\<lambda>l. hl_evidence_fingerprint l = evidence_fingerprint H e) (oh_evidence_links h)")
    case True
    with assms(3) e h q rel show ?thesis
      unfolding link_hypothesis_evidence_def relations_set Let_def by (simp add: guard_Inr)
  next
    case False
    with assms(3) e h q rel have "\<exists>l. link_post_init (make_link H i e j r) = Inr l"
      unfolding link_hypothesis_evidence_def relations_set Let_def by (auto simp: guard_Inr bindR_Inr split: if_splits)
    with v e q rel have False unfolding link_post_init_eq by (simp add: valid_request_def)
    then show ?thesis ..
  qed
qed

lemma link_step:
  assumes "good_set H s" and "link_hypothesis_evidence H s reg i j r = Inr (t, b)"
  shows "(b \<and> accepted H reg s [(i, j, r)] \<and> t = linked_set H reg s [(i, j, r)]) \<or> (\<not> b \<and> t = s)"
proof (cases "valid_request H reg (i, j, r) \<and> i \<in> oh_hypothesis_id ` set (os_hypotheses s)")
  case True
  then obtain h where h: "h \<in> set (os_hypotheses s)" "oh_hypothesis_id h = i" by auto
  from True obtain e where e: "dict_get reg j = Some e" by (auto simp: valid_request_def split: option.splits)
  from assms(2) show ?thesis
    unfolding link_found [OF assms(1) h conjunct1 [OF True] e] accepted_one [OF assms(1) h]
    using True e by (auto split: if_splits)
next
  case False
  with link_refused [OF assms(1) _ assms(2)] show ?thesis by auto
qed

lemma link_accepted:
  assumes "good_set H s" and "accepted H reg s [(i, j, r)]"
  shows "link_hypothesis_evidence H s reg i j r = Inr (linked_set H reg s [(i, j, r)], True)"
proof -
  from assms(2) obtain h where h: "h \<in> set (os_hypotheses s)" "oh_hypothesis_id h = i" by (auto simp: accepted_def)
  from assms(2) have v: "valid_request H reg (i, j, r)" by (simp add: accepted_def)
  then obtain e where e: "dict_get reg j = Some e" by (auto simp: valid_request_def split: option.splits)
  show ?thesis using assms(2) e
    unfolding link_found [OF assms(1) h v e] accepted_one [OF assms(1) h] by simp
qed

subsection \<open>Several requests\<close>

lemma new_links_append: "new_links H reg i (xs @ ys) = new_links H reg i xs @ new_links H reg i ys"
  by (simp add: new_links_def)

lemma linked_set_ids [simp]:
  "map oh_hypothesis_id (os_hypotheses (linked_set H reg s rs)) = map oh_hypothesis_id (os_hypotheses s)"
  by (simp add: linked_set_def comp_def)

lemma sort_key_append_sorted: "sort_key k (sort_key k xs @ ys) = sort_key k (xs @ ys)"
proof (rule properties_for_sort_key)
  show "mset (sort_key k (xs @ ys)) = mset (sort_key k xs @ ys)" by simp
  fix z
  have flip: "filter (\<lambda>x. k z = k x) zs = filter (\<lambda>x. k x = k z) zs" for zs by (metis (mono_tags))
  show "filter (\<lambda>x. k z = k x) (sort_key k (xs @ ys)) = filter (\<lambda>x. k z = k x) (sort_key k xs @ ys)"
    unfolding flip filter_append sort_key_stable ..
qed (rule sorted_sort_key)

lemma signed_cong: "canonical_hypothesis g = canonical_hypothesis h \<Longrightarrow> signed_hypothesis H g = signed_hypothesis H h"
  by (simp add: signed_hypothesis_def)

lemma with_links_update:
  "with_links (signed_hypothesis H (with_links h ks)) ls =
     (with_links h ls)\<lparr>oh_assumptions := canonical_strings (oh_assumptions h),
        oh_predictions := canonical_strings (oh_predictions h), oh_falsifiers := canonical_strings (oh_falsifiers h)\<rparr>"
  by (simp add: with_links_def signed_hypothesis_def canonical_hypothesis_def split_beta)

lemma canonical_with_links:
  assumes "sort_key link_sort_key ks = sort_key link_sort_key ls"
  shows "canonical_hypothesis (with_links h ks) = canonical_hypothesis (with_links h ls)"
proof -
  have "mset ks = mset ls" using arg_cong [OF assms, of mset] by simp
  from derive_scores_mset [OF this] assms show ?thesis
    by (simp add: with_links_def canonical_hypothesis_def split_beta)
qed

lemma extend_extend: "extend H (extend H h ks) ls = extend H h (ks @ ls)"
proof (cases "ks = [] \<or> ls = []")
  case True
  then show ?thesis by (auto simp: extend_def)
next
  case False
  let ?ks = "oh_evidence_links h @ ks"
  have "signed_hypothesis H (with_links (signed_hypothesis H (with_links h ?ks)) (sort_key link_sort_key ?ks @ ls)) =
      signed_hypothesis H (with_links h (?ks @ ls))"
  proof (rule signed_cong)
    have "canonical_hypothesis (with_links (signed_hypothesis H (with_links h ?ks)) (sort_key link_sort_key ?ks @ ls)) =
        canonical_hypothesis (with_links h (sort_key link_sort_key ?ks @ ls))"
      unfolding with_links_update by (simp add: canonical_hypothesis_def)
    also have "\<dots> = canonical_hypothesis (with_links h (?ks @ ls))"
      by (rule canonical_with_links) (rule sort_key_append_sorted)
    finally show "canonical_hypothesis (with_links (signed_hypothesis H (with_links h ?ks)) (sort_key link_sort_key ?ks @ ls)) =
        canonical_hypothesis (with_links h (?ks @ ls))" .
  qed
  with False show ?thesis by (simp add: extend_def)
qed

lemma linked_set_append: "linked_set H reg (linked_set H reg s xs) ys = linked_set H reg s (xs @ ys)"
  by (simp add: linked_set_def new_links_append extend_extend comp_def)

lemma accepted_append:
  assumes "accepted H reg s (xs @ ys)"
  shows "accepted H reg s xs \<and> accepted H reg (linked_set H reg s xs) ys"
proof -
  let ?links = "\<lambda>i rs. new_links H reg i rs"
  have fits: "distinct (map hl_evidence_fingerprint (oh_evidence_links h @ ?links (oh_hypothesis_id h) (xs @ ys)))"
    "length (oh_evidence_links h @ ?links (oh_hypothesis_id h) (xs @ ys)) \<le> MAX_EVIDENCE_LINKS_PER_HYPOTHESIS"
    if "h \<in> set (os_hypotheses s)" for h
    using assms that by (simp_all add: accepted_def list_all_iff Let_def)
  have ids: "oh_hypothesis_id ` set (os_hypotheses (linked_set H reg s xs)) = oh_hypothesis_id ` set (os_hypotheses s)"
    by (simp add: linked_set_def image_image)
  have later: "mset (oh_evidence_links (extend H h (?links (oh_hypothesis_id h) xs)) @ ?links (oh_hypothesis_id h) ys)
      = mset (oh_evidence_links h @ ?links (oh_hypothesis_id h) (xs @ ys))" for h
    by (simp add: mset_extend_links new_links_append)
  have "distinct (map hl_evidence_fingerprint (oh_evidence_links g @ ?links (oh_hypothesis_id g) ys)) \<and>
      length (oh_evidence_links g @ ?links (oh_hypothesis_id g) ys) \<le> MAX_EVIDENCE_LINKS_PER_HYPOTHESIS"
    if g: "g \<in> set (os_hypotheses (linked_set H reg s xs))" for g
  proof -
    from g obtain h where h: "h \<in> set (os_hypotheses s)" "g = extend H h (?links (oh_hypothesis_id h) xs)"
      by (auto simp: linked_set_def)
    show ?thesis unfolding h(2) extend_fields mset_eq_length [OF later]
      using distinct_map_mset [THEN iffD2, OF later fits(1) [OF h(1)]] fits(2) [OF h(1)] by (intro conjI)
  qed
  moreover have "distinct (map hl_evidence_fingerprint (oh_evidence_links h @ ?links (oh_hypothesis_id h) xs)) \<and>
      length (oh_evidence_links h @ ?links (oh_hypothesis_id h) xs) \<le> MAX_EVIDENCE_LINKS_PER_HYPOTHESIS"
    if "h \<in> set (os_hypotheses s)" for h
    using fits [OF that] by (auto simp: new_links_append)
  ultimately show ?thesis using assms by (simp add: accepted_def list_all_iff ids Let_def)
qed

text \<open>
  A client that issues requests one after the other, carries on after a refusal and counts the
  calls that report progress.
\<close>

fun link_run :: "digest \<Rightarrow> (string, evidence_artifact) dict \<Rightarrow> link_request list \<Rightarrow> hypothesis_set \<Rightarrow> hypothesis_set \<times> nat" where
  "link_run H registry [] s = (s, 0)"
| "link_run H registry ((i, j, r) # requests) s = (case link_hypothesis_evidence H s registry i j r of
     Inl _ \<Rightarrow> link_run H registry requests s
   | Inr (t, progress) \<Rightarrow> (case link_run H registry requests t of (u, n) \<Rightarrow> (u, if progress then Suc n else n)))"

definition total_links :: "hypothesis_set \<Rightarrow> nat" where
  "total_links s = sum_list (map (\<lambda>h. length (oh_evidence_links h)) (os_hypotheses s))"

lemma link_run_accepted:
  "good_set H s \<Longrightarrow> accepted H reg s rs \<Longrightarrow> link_run H reg rs s = (linked_set H reg s rs, length rs)"
proof (induction rs arbitrary: s)
  case Nil
  have "extend H h [] = h" for h by (simp add: extend_def)
  with good_setE(6) [OF Nil(1)] show ?case by (simp add: linked_set_def new_links_one)
next
  case (Cons q rs)
  obtain i j r where q: "q = (i, j, r)" by (cases q)
  from Cons.prems(2) have "accepted H reg s ([q] @ rs)" by simp
  then have a: "accepted H reg s [q]" "accepted H reg (linked_set H reg s [q]) rs" using accepted_append by blast+
  have "linked_set H reg (linked_set H reg s [q]) rs = linked_set H reg s (q # rs)" by (simp add: linked_set_append)
  with Cons.IH [OF linked_set_good [OF Cons.prems(1) a(1)] a(2)] show ?case
    using link_accepted [OF Cons.prems(1) a(1) [unfolded q]] by (simp add: q)
qed

lemma new_links_perm: "mset xs = mset ys \<Longrightarrow> mset (new_links H reg i xs) = mset (new_links H reg i ys)"
  unfolding new_links_def mset_map mset_filter by simp

lemma extend_perm:
  assumes "mset ks = mset ls" and "inj_on link_sort_key (set (oh_evidence_links h @ ks))"
  shows "extend H h ks = extend H h ls"
proof (cases "ks = []")
  case True
  with assms(1) show ?thesis by simp
next
  case False
  with assms(1) have ls: "ls \<noteq> []" by auto
  have "mset (oh_evidence_links h @ ks) = mset (oh_evidence_links h @ ls)" using assms(1) by simp
  from sort_key_unique [OF this assms(2)]
  have "signed_hypothesis H (with_links h (oh_evidence_links h @ ks)) = signed_hypothesis H (with_links h (oh_evidence_links h @ ls))"
    by (intro signed_cong canonical_with_links)
  with False ls show ?thesis by (simp add: extend_def)
qed

lemma accepted_perm: "mset xs = mset ys \<Longrightarrow> accepted H reg s xs \<Longrightarrow> accepted H reg s ys"
proof -
  assume m: "mset xs = mset ys" and a: "accepted H reg s xs"
  have l: "mset (oh_evidence_links h @ new_links H reg (oh_hypothesis_id h) xs) =
      mset (oh_evidence_links h @ new_links H reg (oh_hypothesis_id h) ys)" for h
    using new_links_perm [OF m] by simp
  show "accepted H reg s ys" using a
    unfolding accepted_def Let_def list_all_mset [OF m] distinct_map_mset [OF l] mset_eq_length [OF l] .
qed

lemma total_links_linked:
  assumes "good_set H s" "accepted H reg s [r]"
  shows "total_links (linked_set H reg s [r]) = Suc (total_links s)"
proof -
  note g = good_setE [OF assms(1)]
  have len: "length (oh_evidence_links (extend H h ls)) = length (oh_evidence_links h) + length ls" for h ls
    using mset_eq_length [OF mset_extend_links [of H h ls]] by simp
  have count: "sum_list (map (\<lambda>h. length (new_links H reg (oh_hypothesis_id h) [r])) hs) =
      (if fst r \<in> oh_hypothesis_id ` set hs then 1 else 0)" if "distinct (map oh_hypothesis_id hs)" for hs
    using that by (induction hs) (auto simp: new_links_def)
  have "fst r \<in> oh_hypothesis_id ` set (os_hypotheses s)" using assms(2) by (simp add: accepted_def)
  then show ?thesis using count [OF g(4)]
    by (simp add: total_links_def linked_set_def comp_def len sum_list_addf)
qed

lemma total_links_bound: "good_set H s \<Longrightarrow> total_links s \<le> MAX_EVIDENCE_LINKS_PER_HYPOTHESIS * length (os_hypotheses s)"
proof -
  assume "good_set H s"
  then have "\<And>h. h \<in> set (os_hypotheses s) \<Longrightarrow> length (oh_evidence_links h) \<le> MAX_EVIDENCE_LINKS_PER_HYPOTHESIS"
    using good_setE(5) good_hypothesis_links(3) by blast
  then have "total_links s \<le> sum_list (map (\<lambda>_. MAX_EVIDENCE_LINKS_PER_HYPOTHESIS) (os_hypotheses s))"
    unfolding total_links_def by (rule sum_list_mono)
  then show ?thesis by (simp add: sum_list_triv mult.commute)
qed

section \<open>Proposals\<close>

definition good_table :: "digest \<Rightarrow> int \<Rightarrow> hypothesis list \<Rightarrow> (string, hypothesis) dict \<Rightarrow> bool" where
  "good_table H bound hs d \<longleftrightarrow> (\<exists>ks. d = keyed (hs @ ks)) \<and> distinct (map fst d) \<and> int (length d) \<le> bound \<and>
     list_all (good_hypothesis H \<circ> snd) d"

lemma add_proposal_cases:
  assumes "add_proposal H bound p (d, a) = Inr (e, b)"
  obtains h where "proposed_hypothesis H p = Inr h" and "oh_hypothesis_id h \<in> fst ` set d" and "e = d"
  | h where "proposed_hypothesis H p = Inr h" and "oh_hypothesis_id h \<notin> fst ` set d" and "int (length d) < bound"
      and "e = d @ [(oh_hypothesis_id h, h)]"
proof -
  from assms obtain h where h: "proposed_hypothesis H p = Inr h"
    and e: "(if dict_get d (oh_hypothesis_id h) \<noteq> None then Inr (d, a)
       else if int (length d) \<ge> bound then Inl (PolicyError ''hypothesis set exceeds active bound'')
       else Inr (dict_set (oh_hypothesis_id h) h d, a @ [oh_hypothesis_id h])) = Inr (e, b)"
    unfolding add_proposal_def prod.case bindR_Inr by (elim exE conjE) (rule that)
  show thesis
  proof (cases "oh_hypothesis_id h \<in> fst ` set d")
    case True
    then have "dict_get d (oh_hypothesis_id h) \<noteq> None" by (simp add: map_of_eq_None_iff)
    with e have "e = d" by simp
    with that(1) h True show thesis by blast
  next
    case False
    then have "dict_get d (oh_hypothesis_id h) = None" by (simp add: map_of_eq_None_iff)
    with e update_new [OF False] have "int (length d) < bound" "e = d @ [(oh_hypothesis_id h, h)]"
      by (auto split: if_splits)
    with that(2) h False show thesis by blast
  qed
qed

lemma add_proposal_good:
  assumes "good_table H bound hs d" and "add_proposal H bound p (d, a) = Inr (e, b)"
  shows "good_table H bound hs e"
  using assms(2)
proof (cases rule: add_proposal_cases)
  case (2 h)
  have good: "good_hypothesis H h"
    using make_hypothesis_good [OF 2(1) [unfolded proposed_hypothesis_def]] by simp
  obtain ks where ks: "d = keyed (hs @ ks)" using assms(1) by (auto simp: good_table_def)
  have "e = keyed (hs @ ks @ [h])" unfolding 2(4) ks by (simp add: keyed_def)
  moreover have "distinct (map fst e) \<and> int (length e) \<le> bound \<and> list_all (good_hypothesis H \<circ> snd) e"
    using assms(1) good 2(2,3) unfolding 2(4) good_table_def by auto
  ultimately show ?thesis unfolding good_table_def by blast
qed (use assms(1) in simp)

lemma add_proposals_good:
  "foldR (add_proposal H bound) ps (d, a) = Inr (e, b) \<Longrightarrow> good_table H bound hs d \<Longrightarrow> good_table H bound hs e"
proof (induction ps arbitrary: d a)
  case (Cons p ps)
  then obtain d' a' where "add_proposal H bound p (d, a) = Inr (d', a')" "foldR (add_proposal H bound) ps (d', a') = Inr (e, b)"
    by (auto simp: bindR_Inr)
  with Cons add_proposal_good show ?case by blast
qed simp

lemma keyed_fst: "map fst (keyed hs) = map oh_hypothesis_id hs" "map snd (keyed hs) = hs" "length (keyed hs) = length hs"
  by (simp_all add: keyed_def comp_def)

definition current_hypotheses :: "hypothesis_set option \<Rightarrow> hypothesis list" where
  "current_hypotheses cur = (case cur of None \<Rightarrow> [] | Some s \<Rightarrow> os_hypotheses s)"

definition good_current :: "digest \<Rightarrow> hypothesis_set option \<Rightarrow> bool" where
  "good_current H cur = (case cur of None \<Rightarrow> True | Some s \<Rightarrow> good_set H s)"

lemma good_current_table:
  "good_current H cur \<Longrightarrow> int (length (current_hypotheses cur)) \<le> bound \<Longrightarrow>
   good_table H bound (current_hypotheses cur) (keyed (current_hypotheses cur)) \<and>
   hypothesis_table (current_hypotheses cur) = keyed (current_hypotheses cur)"
proof -
  assume g: "good_current H cur" and len: "int (length (current_hypotheses cur)) \<le> bound"
  have "distinct (map oh_hypothesis_id (current_hypotheses cur)) \<and> list_all (good_hypothesis H) (current_hypotheses cur)"
    using g by (cases cur) (simp_all add: good_current_def current_hypotheses_def good_set_def)
  with len show ?thesis
    by (auto simp: good_table_def keyed_fst table_keyed list_all_iff keyed_def comp_def intro: exI [of _ "[]"])
qed

lemma bounded_unfold:
  assumes "good_current H cur" and "bounded_hypothesis_set H cur ps m = Inr (t, added)"
  obtains d hs where "foldR (add_proposal H (max 1 m)) ps (keyed (current_hypotheses cur), []) = Inr (d, added)"
    and "good_table H (max 1 m) (current_hypotheses cur) d"
    and "hs = sort_key oh_hypothesis_id (map snd d)" and "t = set_result H (max 1 m) hs" and "good_set H t"
proof -
  let ?cur = "current_hypotheses cur" and ?b = "max 1 m"
  from assms(2) have len: "int (length (hypothesis_table ?cur)) \<le> ?b"
    unfolding bounded_hypothesis_set_def current_hypotheses_def Let_def guard_Inr not_less by (elim conjE)
  have dist: "distinct (map oh_hypothesis_id ?cur)"
    using assms(1) by (cases cur) (simp_all add: good_current_def current_hypotheses_def good_set_def)
  have "int (length ?cur) \<le> ?b" using len by (simp add: table_keyed [OF dist] keyed_fst)
  from good_current_table [OF assms(1) this] have start: "good_table H ?b ?cur (keyed ?cur)" "hypothesis_table ?cur = keyed ?cur"
    by simp_all
  from assms(2) start(2) obtain d where d: "foldR (add_proposal H ?b) ps (keyed ?cur, []) = Inr (d, added)"
    and mk: "make_set H ?b d = Inr t"
    by (auto simp: bounded_hypothesis_set_def current_hypotheses_def Let_def bindR_Inr split: if_splits)
  let ?hs = "sort_key oh_hypothesis_id (map snd d)"
  note g = add_proposals_good [OF d start(1)]
  from g obtain ks where ks: "d = keyed ks" by (auto simp: good_table_def)
  have t: "t = set_result H ?b ?hs" using mk make_set_eq [OF refl, of H ?b d] by simp
  have "good_set H t" unfolding t good_set_result using g
    by (simp add: good_table_def ks keyed_fst distinct_sort_key_map list_all_iff) (auto simp: keyed_def)
  with that [OF d g refl t] show thesis .
qed

lemma bounded_keeps:
  assumes "good_current H cur" and "bounded_hypothesis_set H cur ps m = Inr (t, added)"
  shows "good_set H t \<and> set (current_hypotheses cur) \<subseteq> set (os_hypotheses t)"
proof -
  from bounded_unfold [OF assms] obtain d hs where d: "good_table H (max 1 m) (current_hypotheses cur) d"
    "hs = sort_key oh_hypothesis_id (map snd d)" "t = set_result H (max 1 m) hs" "good_set H t" .
  from d(1) obtain ks where "map snd d = current_hypotheses cur @ ks" by (auto simp: good_table_def keyed_fst)
  then have "set (os_hypotheses t) = set (current_hypotheses cur @ ks)" unfolding d(2,3) set_result_fields set_sort by simp
  with d(4) show ?thesis by simp
qed

lemma add_proposals_present:
  "foldR (add_proposal H bound) ps (d, a) = Inr (e, b) \<Longrightarrow>
   fst ` set d \<subseteq> fst ` set e \<and> (\<forall>p \<in> set ps. \<exists>h. proposed_hypothesis H p = Inr h \<and> oh_hypothesis_id h \<in> fst ` set e)"
proof (induction ps arbitrary: d a)
  case (Cons p ps)
  from Cons.prems obtain d' a' where one: "add_proposal H bound p (d, a) = Inr (d', a')"
    and rest: "foldR (add_proposal H bound) ps (d', a') = Inr (e, b)" by (auto simp: bindR_Inr)
  from one obtain h where h: "proposed_hypothesis H p = Inr h" "fst ` set d \<subseteq> fst ` set d'" "oh_hypothesis_id h \<in> fst ` set d'"
    by (cases rule: add_proposal_cases) auto
  from Cons.IH [OF rest] h show ?case by auto
qed simp

text \<open>
  Two proposals state the same hypothesis when they differ only in white space, in the order
  and repetition of their lists, and in the prior, which is to be in range.
\<close>

definition stripped_items :: "string list option \<Rightarrow> string set" where
  "stripped_items vs = set (filter (\<lambda>v. v \<noteq> []) (map strip (the_default [] vs)))"

definition restates :: "hypothesis_proposal \<Rightarrow> hypothesis_proposal \<Rightarrow> bool" where
  "restates p q \<longleftrightarrow> words (the_default [] (hp_proposition p)) = words (the_default [] (hp_proposition q)) \<and>
     in_scale (the_default 5000 (hp_model_prior_bp q)) \<and> stripped_items (hp_assumptions p) = stripped_items (hp_assumptions q) \<and>
     stripped_items (hp_predictions p) = stripped_items (hp_predictions q) \<and>
     stripped_items (hp_falsifiers p) = stripped_items (hp_falsifiers q)"

lemma stripped_set_eqI: "stripped_items xs = stripped_items ys \<Longrightarrow> stripped_set (the_default [] xs) = stripped_set (the_default [] ys)"
  unfolding stripped_set_def stripped_items_def by (rule sorted_set_eqI)

lemma restated_identity:
  assumes "restates p q" and "proposed_hypothesis H p = Inr g"
  shows "\<exists>h. proposed_hypothesis H q = Inr h \<and> oh_hypothesis_id h = oh_hypothesis_id g"
proof -
  let ?m = "\<lparr>dm_proposition = normal_proposition (the_default [] (hp_proposition p)), dm_model_prior_bp = the_default 5000 (hp_model_prior_bp q),
     dm_assumptions = stripped_set (the_default [] (hp_assumptions p)), dm_predictions = stripped_set (the_default [] (hp_predictions p)),
     dm_falsifiers = stripped_set (the_default [] (hp_falsifiers p))\<rparr>"
  note g = make_hypothesis_good [OF assms(2) [unfolded proposed_hypothesis_def]]
  have "hypothesis_definition_material (the_default [] (hp_proposition p)) (the_default 5000 (hp_model_prior_bp p))
      (the_default [] (hp_assumptions p)) (the_default [] (hp_predictions p)) (the_default [] (hp_falsifiers p)) = Inr (material_of g)"
    using g by simp
  then have ne: "normal_proposition (the_default [] (hp_proposition p)) \<noteq> []"
    and mg: "material_of g = ?m\<lparr>dm_model_prior_bp := the_default 5000 (hp_model_prior_bp p)\<rparr>"
    by (simp_all add: hypothesis_definition_material_def Let_def split: if_splits)
  have norm: "normal_proposition (the_default [] (hp_proposition q)) = normal_proposition (the_default [] (hp_proposition p))"
    using assms(1) by (simp add: normal_proposition_def restates_def)
  have sets: "stripped_set (the_default [] (hp_assumptions q)) = stripped_set (the_default [] (hp_assumptions p))"
     "stripped_set (the_default [] (hp_predictions q)) = stripped_set (the_default [] (hp_predictions p))"
     "stripped_set (the_default [] (hp_falsifiers q)) = stripped_set (the_default [] (hp_falsifiers p))"
    using assms(1) by (auto intro!: stripped_set_eqI simp: restates_def)
  have mq: "hypothesis_definition_material (the_default [] (hp_proposition q)) (the_default 5000 (hp_model_prior_bp q))
      (the_default [] (hp_assumptions q)) (the_default [] (hp_predictions q)) (the_default [] (hp_falsifiers q)) = Inr ?m"
    using assms(1) ne by (simp add: hypothesis_definition_material_def Let_def norm sets restates_def)
  have "dm_proposition (material_of g) = oh_proposition g" by (simp add: material_of_def)
  then have nonblank: "strip (normal_proposition (the_default [] (hp_proposition p))) \<noteq> []"
    using g unfolding mg good_hypothesis_def by simp
  have "oh_hypothesis_id g = identity_of H ?m"
    using g unfolding good_hypothesis_def mg by (simp add: identity_of_def hypothesis_identity_material_def)
  moreover have "in_scale (the_default 5000 (hp_model_prior_bp q))" using assms(1) by (simp add: restates_def)
  ultimately show ?thesis
    unfolding proposed_hypothesis_def make_hypothesis_def mq bindR_simps seal_hypothesis_eq
    using nonblank by (simp add: post_ok_def identity_of_def LINKED_HYPOTHESIS_STATUSES_def)
qed

lemma add_restated:
  assumes "\<And>q. q \<in> set qs \<Longrightarrow> \<exists>h. proposed_hypothesis H q = Inr h \<and> oh_hypothesis_id h \<in> fst ` set d"
  shows "foldR (add_proposal H bound) qs (d, a) = Inr (d, a)"
  using assms
proof (induction qs)
  case (Cons q qs)
  from Cons.prems [of q] obtain h where "proposed_hypothesis H q = Inr h" "oh_hypothesis_id h \<in> fst ` set d" by auto
  then have "add_proposal H bound q (d, a) = Inr (d, a)" by (simp add: add_proposal_def map_of_eq_None_iff)
  with Cons show ?case by simp
qed simp

section \<open>Histories of a set\<close>

text \<open>
  The states an agent run can bring a set through: it starts with a first list of proposals and
  goes on with proposals and links, under whatever bound and evidence registry the run has then.
\<close>

inductive hypothesis_history :: "digest \<Rightarrow> hypothesis_set \<Rightarrow> hypothesis_set \<Rightarrow> bool" for H where
  same: "hypothesis_history H s s"
| propose: "hypothesis_history H s t \<Longrightarrow> bounded_hypothesis_set H (Some t) ps m = Inr (u, added) \<Longrightarrow> hypothesis_history H s u"
| link: "hypothesis_history H s t \<Longrightarrow> link_hypothesis_evidence H t registry i j r = Inr (u, progress) \<Longrightarrow>
    hypothesis_history H s u"

lemma falsified_iff:
  assumes "good_hypothesis H h"
  shows "oh_status h = ''FALSIFIED_BY_LINKED_EVIDENCE'' \<longleftrightarrow> material_falsifier (oh_evidence_links h)"
proof -
  have st: "oh_status h = snd (snd (snd (scores_of (oh_evidence_links h))))"
    using assms unfolding good_hypothesis_def by (elim conjE) (metis snd_conv)
  show ?thesis
    unfolding st by (cases "oh_evidence_links h = []")
      (simp_all add: scores_of_def material_falsifier_def derive_scores_def Let_def)
qed

text \<open>What a later state keeps of a hypothesis: its identity, and every link it had.\<close>

definition keeps_hypothesis :: "hypothesis_set \<Rightarrow> hypothesis \<Rightarrow> bool" where
  "keeps_hypothesis t h \<longleftrightarrow> list_ex (\<lambda>g. oh_hypothesis_id g = oh_hypothesis_id h \<and>
     set (oh_evidence_links h) \<subseteq> set (oh_evidence_links g)) (os_hypotheses t)"

lemma keeps_linked: "keeps_hypothesis t h \<Longrightarrow> keeps_hypothesis (linked_set H reg t rs) h"
proof -
  assume "keeps_hypothesis t h"
  then obtain g where g: "g \<in> set (os_hypotheses t)" "oh_hypothesis_id g = oh_hypothesis_id h"
    "set (oh_evidence_links h) \<subseteq> set (oh_evidence_links g)" by (auto simp: keeps_hypothesis_def list_ex_iff)
  let ?g = "extend H g (new_links H reg (oh_hypothesis_id g) rs)"
  have "set (oh_evidence_links g) \<subseteq> set (oh_evidence_links ?g)"
    using mset_eq_setD [OF mset_extend_links] by auto
  moreover have "?g \<in> set (os_hypotheses (linked_set H reg t rs))"
    unfolding linked_set_def set_result_fields set_map using g(1) by (rule imageI)
  moreover have "oh_hypothesis_id ?g = oh_hypothesis_id h" using g(2) by simp
  ultimately show ?thesis using g(3) unfolding keeps_hypothesis_def list_ex_iff by blast
qed

lemma history_step:
  assumes "hypothesis_history H s t" and "good_set H s"
  shows "good_set H t \<and> (\<forall>h \<in> set (os_hypotheses s). keeps_hypothesis t h)"
  using assms
proof (induction rule: hypothesis_history.induct)
  case (same s)
  then show ?case by (auto simp: keeps_hypothesis_def list_ex_iff)
next
  case (propose s t ps m u added)
  then have g: "good_set H t" and k: "\<forall>h \<in> set (os_hypotheses s). keeps_hypothesis t h" by simp_all
  have "good_set H u \<and> set (os_hypotheses t) \<subseteq> set (os_hypotheses u)"
    using bounded_keeps [of H "Some t"] propose.hyps(2) g by (simp add: good_current_def current_hypotheses_def)
  with k show ?case unfolding keeps_hypothesis_def list_ex_iff by blast
next
  case (link s t registry i j r u progress)
  then have g: "good_set H t" and k: "\<forall>h \<in> set (os_hypotheses s). keeps_hypothesis t h" by simp_all
  from link_step [OF g link.hyps(2)] show ?case
    using linked_set_good [OF g] keeps_linked g k by blast
qed

text \<open>Falsification is final: a hypothesis that linked evidence has falsified keeps that
  status under every later link and proposal, however much support is linked to it.\<close>

lemma falsification_final:
  assumes "good_set H s" and "hypothesis_history H s t" and "h \<in> set (os_hypotheses s)"
    and "oh_status h = ''FALSIFIED_BY_LINKED_EVIDENCE''"
  shows "\<exists>g \<in> set (os_hypotheses t). oh_hypothesis_id g = oh_hypothesis_id h \<and> oh_status g = ''FALSIFIED_BY_LINKED_EVIDENCE''"
proof -
  note t = history_step [OF assms(2,1)]
  from t assms(3) obtain g where g: "g \<in> set (os_hypotheses t)" "oh_hypothesis_id g = oh_hypothesis_id h"
      "set (oh_evidence_links h) \<subseteq> set (oh_evidence_links g)" by (auto simp: keeps_hypothesis_def list_ex_iff)
  have "material_falsifier (oh_evidence_links h)" using falsified_iff [OF good_setE(5) [OF assms(1,3)]] assms(4) by simp
  then have "material_falsifier (oh_evidence_links g)" using g(3) by (auto simp: material_falsifier_def list_ex_iff)
  then have "oh_status g = ''FALSIFIED_BY_LINKED_EVIDENCE''" using falsified_iff [OF good_setE(5) [OF conjunct1 [OF t] g(1)]] by simp
  with g(1,2) show ?thesis by (intro bexI [of _ g] conjI)
qed

section \<open>Properties\<close>

text \<open>C24. Whatever a run proposes and links, its hypothesis set stays well formed: at most the
  bound many hypotheses in the order of distinct identities, every identity the address of its
  proposition and lists, every score and status the ones its links determine, every link the
  address of its content, at most 64 links with distinct evidence per hypothesis, every
  signature fresh; and no hypothesis and no link is ever lost.\<close>

theorem hypothesis_set_invariant:
  assumes "bounded_hypothesis_set H None ps m = Inr (s, added)" and "hypothesis_history H s t"
  shows "good_set H t \<and> (\<forall>h \<in> set (os_hypotheses s). keeps_hypothesis t h)"
proof (rule history_step [OF assms(2)])
  show "good_set H s" using bounded_keeps [OF _ assms(1)] by (simp add: good_current_def)
qed

text \<open>One piece of evidence counts once: however a model repeats, reorders or relabels its
  linking requests, the calls that report progress are as many as the links the set has gained,
  and there are never more than 64 per hypothesis.\<close>

lemma linking_progress_bounded:
  assumes "good_set H s" and "link_run H registry requests s = (t, n)"
  shows "total_links t = total_links s + n \<and> total_links t \<le> 64 * length (os_hypotheses s)"
proof -
  have "good_set H t \<and> total_links t = total_links s + n \<and> length (os_hypotheses t) = length (os_hypotheses s)"
    using assms
  proof (induction requests arbitrary: s n)
    case (Cons q requests)
    obtain i j r where q: "q = (i, j, r)" by (cases q)
    show ?case
    proof (cases "link_hypothesis_evidence H s registry i j r")
      case (Inl e)
      with Cons q show ?thesis by simp
    next
      case (Inr v)
      obtain u b where v: "v = (u, b)" by (cases v)
      have w: "\<exists>k. link_run H registry requests u = (t, k) \<and> n = (if b then Suc k else k)"
        using Cons.prems(2) unfolding q link_run.simps Inr v by (cases "link_run H registry requests u") auto
      then obtain k where w: "link_run H registry requests u = (t, k)" "n = (if b then Suc k else k)" by blast
      from link_step [OF Cons.prems(1) Inr [unfolded v]] have "good_set H u \<and>
          total_links u = total_links s + (if b then 1 else 0) \<and> length (os_hypotheses u) = length (os_hypotheses s)"
        using linked_set_good [OF Cons.prems(1)] total_links_linked [OF Cons.prems(1)] Cons.prems(1)
        by (auto simp: linked_set_def)
      with Cons.IH [OF _ w(1)] w(2) show ?thesis by (auto split: if_splits)
    qed
  qed simp
  with total_links_bound [of H t] show ?thesis by (simp add: MAX_EVIDENCE_LINKS_PER_HYPOTHESIS_def)
qed

text \<open>C25. The order of linking does not matter: a list of requests that is accepted is accepted
  in every order, each of its calls reports progress, and it leads to the same set, scores,
  statuses and signatures included, as long as no two of the links that result collide in their
  signatures.\<close>

theorem linking_order_independent:
  assumes "good_set H s" and "accepted H registry s xs" and "mset xs = mset ys"
    and "list_all (\<lambda>h. inj_on link_sort_key (set (oh_evidence_links h @ new_links H registry (oh_hypothesis_id h) xs))) (os_hypotheses s)"
  shows "link_run H registry xs s = link_run H registry ys s \<and> snd (link_run H registry xs s) = length xs"
proof -
  have "linked_set H registry s xs = linked_set H registry s ys"
    unfolding linked_set_def using assms(4) extend_perm [OF new_links_perm [OF assms(3)]]
    by (intro arg_cong [where f = "set_result H (os_max_hypotheses s)"] map_cong refl) (auto simp: list_all_iff)
  then show ?thesis
    using link_run_accepted [OF assms(1,2)] link_run_accepted [OF assms(1) accepted_perm [OF assms(3,2)]]
      mset_eq_length [OF assms(3)] by simp
qed

text \<open>Restating is not progress: once proposals are in the set, proposing them again with
  another prior, other white space or reordered lists adds nothing and changes nothing.\<close>

lemma restating_adds_nothing:
  assumes "bounded_hypothesis_set H None ps m = Inr (s, added)" and "list_all2 restates ps qs"
  shows "bounded_hypothesis_set H (Some s) qs m = Inr (s, [])"
proof -
  have none: "good_current H None" by (simp add: good_current_def)
  from bounded_unfold [OF none assms(1)] obtain d hs where
    d: "foldR (add_proposal H (max 1 m)) ps (keyed (current_hypotheses None), []) = Inr (d, added)"
    and g: "good_table H (max 1 m) (current_hypotheses None) d"
    and s: "hs = sort_key oh_hypothesis_id (map snd d)" "s = set_result H (max 1 m) hs" "good_set H s" .
  note gs = good_setE [OF s(3)]
  have hs: "os_hypotheses s = hs" "os_max_hypotheses s = max 1 m" unfolding s(2) by simp_all
  from g obtain ks where ks: "d = keyed ks" by (auto simp: good_table_def)
  have ids: "fst ` set (keyed hs) = fst ` set d" unfolding s(1) ks by (auto simp: keyed_def image_image)
  have present: "\<exists>h. proposed_hypothesis H q = Inr h \<and> oh_hypothesis_id h \<in> fst ` set (keyed hs)" if "q \<in> set qs" for q
  proof -
    from assms(2) that obtain p where p: "p \<in> set ps" "restates p q" by (metis in_set_conv_nth list_all2_conv_all_nth)
    with add_proposals_present [OF d] obtain h where "proposed_hypothesis H p = Inr h" "oh_hypothesis_id h \<in> fst ` set d" by blast
    with restated_identity [OF p(2)] ids show ?thesis by metis
  qed
  have table: "hypothesis_table hs = keyed hs" using table_keyed gs(4) hs by simp
  have mk: "make_set H (max 1 m) (keyed hs) = Inr s"
    using make_set_keyed [of hs "max 1 m" H] gs(1-4) unfolding hs s(2) by simp
  show ?thesis
    using gs(2) add_restated [of qs H "keyed hs" "max 1 m" "[]", OF present]
    unfolding bounded_hypothesis_set_def Let_def option.case hs table keyed_fst
    by (simp only: if_not_P not_less bindR_simps prod.case mk)
qed

section \<open>Concrete runs\<close>

text \<open>The properties at work on a set with one hypothesis and a registry with two pieces of evidence.\<close>

definition demo_proposal :: "string \<Rightarrow> hypothesis_proposal" where
  "demo_proposal s = \<lparr>hp_proposition = Some s, hp_model_prior_bp = None, hp_assumptions = None, hp_predictions = None,
     hp_falsifiers = None\<rparr>"

definition demo_evidence :: "string \<Rightarrow> evidence_artifact" where
  "demo_evidence s = \<lparr>ev_artifact_id = ''a'', ev_kind = ''k'', ev_description = s, ev_sha256 = ''h'', ev_action_id = [],
     ev_source_snapshot_hash = ''q'', ev_source_event_id = [], ev_path = [], ev_command_capability = [], ev_success = None,
     ev_requirement_ids = [], ev_quality_bp = 6000, ev_polarity = ''support''\<rparr>"

definition demo_registry :: "(string, evidence_artifact) dict" where
  "demo_registry = [(''e'', demo_evidence ''e''), (''f'', demo_evidence ''f'')]"

text \<open>A digest that tells nothing apart, and one that tells the two pieces of evidence apart.\<close>

definition flat_digest :: digest where
  "flat_digest = (\<lambda>s. ''d'')"

definition demo_digest :: digest where
  "demo_digest s = take 1 (drop 26 s) @ take 1 (drop 40 s)"

definition demo_hypothesis :: "string \<Rightarrow> string \<Rightarrow> hypothesis" where
  "demo_hypothesis i signature = \<lparr>oh_hypothesis_id = i, oh_proposition = ''p'', oh_model_prior_bp = 5000,
     oh_assumptions = [], oh_predictions = [], oh_falsifiers = [], oh_evidence_links = [], oh_evidence_support_bp = 0,
     oh_evidence_conflict_bp = 0, oh_evidence_balance_bp = 0, oh_status = ''ACTIVE'',
     oh_verification_status = ''UNVERIFIED_PROPOSITION'', oh_signature = signature\<rparr>"

definition demo_set :: hypothesis_set where
  "demo_set = \<lparr>os_max_hypotheses = 1, os_hypotheses = [demo_hypothesis ''hypothesis:d'' ''d''], os_signature = ''d''\<rparr>"

definition told_set :: hypothesis_set where
  "told_set = \<lparr>os_max_hypotheses = 1, os_hypotheses = [demo_hypothesis ''hypothesis:ec'' ''e0''], os_signature = ''ss''\<rparr>"

definition demo_linked :: hypothesis_set where
  "demo_linked = fst (projr (link_hypothesis_evidence flat_digest demo_set demo_registry ''hypothesis:d'' ''e'' ''falsifies''))"

lemma demo_set_made: "bounded_hypothesis_set flat_digest None [demo_proposal ''p''] 1 = Inr (demo_set, [''hypothesis:d''])"
  by code_simp

lemma demo_link_made:
  "link_hypothesis_evidence flat_digest demo_set demo_registry ''hypothesis:d'' ''e'' ''falsifies'' = Inr (demo_linked, True)"
proof -
  have "(case link_hypothesis_evidence flat_digest demo_set demo_registry ''hypothesis:d'' ''e'' ''falsifies'' of
      Inl e \<Rightarrow> False | Inr (t, b) \<Rightarrow> b)" by code_simp
  then show ?thesis unfolding demo_linked_def by (auto split: sum.splits)
qed

lemma demo_good: "good_set flat_digest demo_set"
  by code_simp

lemma demo_evidence_fields:
  "ev_quality_bp (demo_evidence s) = 6000" "ev_source_snapshot_hash (demo_evidence s) = ''q''"
  by (simp_all add: demo_evidence_def)

lemma char_zero: "char_of (48 :: nat) = CHR ''0''"
  by code_simp

lemma told_good: "good_set demo_digest told_set"
  by (simp add: good_set_def good_hypothesis_def told_set_def demo_hypothesis_def hypothesis_signature_def hypothesis_payload_def
     set_signature_def identity_of_def material_of_def hypothesis_identity_material_def scores_of_def stable_hash_def
     demo_digest_def canonical_json_def enc_str_def enc_char_def int_str_def nat_str.simps strip_def lstrip_def rstrip_def
     is_space_def MAX_EVIDENCE_LINKS_PER_HYPOTHESIS_def canonical_strings_def sorted_set_def char_zero)

lemma demo_history: "hypothesis_history flat_digest demo_set demo_linked"
  by (rule hypothesis_history.link [OF hypothesis_history.same demo_link_made])

theorem hypothesis_set_invariant_witness:
  "good_set flat_digest demo_linked \<and> total_links demo_linked = 1"
  using hypothesis_set_invariant [OF demo_set_made demo_history] by (intro conjI) (blast, code_simp)

theorem linking_order_independent_witness:
  "link_run demo_digest demo_registry [(''hypothesis:ec'', ''e'', ''supports''), (''hypothesis:ec'', ''f'', ''conflicts'')] told_set =
   link_run demo_digest demo_registry [(''hypothesis:ec'', ''f'', ''conflicts''), (''hypothesis:ec'', ''e'', ''supports'')] told_set"
proof -
  let ?xs = "[(''hypothesis:ec'', ''e'', ''supports''), (''hypothesis:ec'', ''f'', ''conflicts'')]"
  have prints: "evidence_fingerprint demo_digest (demo_evidence ''e'') = ''de''" "evidence_fingerprint demo_digest (demo_evidence ''f'') = ''df''"
    by (simp_all add: evidence_fingerprint_def demo_evidence_def stable_hash_def demo_digest_def canonical_json_def enc_str_def
       enc_char_def int_str_def nat_str.simps sorted_set_def)
  have "stable_hash demo_digest (link_material i ''de'' r q h) \<noteq> stable_hash demo_digest (link_material i ''df'' s q h)"
    "stable_hash demo_digest (link_material i ''de'' r q h) \<noteq> []" "stable_hash demo_digest (link_material i ''df'' r q h) \<noteq> []"
    for i r s q h
    by (simp_all add: link_material_def stable_hash_def demo_digest_def canonical_json_def enc_str_def enc_char_def)
  moreover have "dict_get demo_registry ''e'' = Some (demo_evidence ''e'')" "dict_get demo_registry ''f'' = Some (demo_evidence ''f'')"
    by (simp_all add: demo_registry_def)
  ultimately have "accepted demo_digest demo_registry told_set ?xs" "list_all (\<lambda>h. inj_on link_sort_key (set (oh_evidence_links h @
      new_links demo_digest demo_registry (oh_hypothesis_id h) ?xs))) (os_hypotheses told_set)"
    by (simp_all add: accepted_def told_set_def demo_hypothesis_def valid_request_def new_links_def make_link_def Let_def prints
       HYPOTHESIS_RELATIONS_def MAX_EVIDENCE_LINKS_PER_HYPOTHESIS_def link_sort_key_def demo_evidence_fields)
  then show ?thesis
    using linking_order_independent [OF told_good, of demo_registry ?xs
        "[(''hypothesis:ec'', ''f'', ''conflicts''), (''hypothesis:ec'', ''e'', ''supports'')]"] by simp
qed

end
