(* ===== verification/JsonParse.thy ===== *)
theory JsonParse
  imports Json
begin

text \<open>
  \<open>json.loads\<close> as the modelled modules use it, on the values of the model: numbers with a
  fraction or an exponent and characters above 255 have no value here, and their texts read as
  \<open>None\<close>, as texts that are no JSON do. The reader takes back what either serialisation
  writes.
\<close>

section \<open>The reader\<close>

definition ws_char :: "char \<Rightarrow> bool" where
  "ws_char c = (c \<in> {CHR '' '', CHR 0x09, CHR 0x0A, CHR 0x0D})"

definition skip_ws :: "string \<Rightarrow> string" where
  "skip_ws s = dropWhile ws_char s"

definition hex_val :: "char \<Rightarrow> nat option" where
  "hex_val c = (let n = (of_char c :: nat) in
     if 48 \<le> n \<and> n \<le> 57 then Some (n - 48) else if 97 \<le> n \<and> n \<le> 102 then Some (n - 87)
     else if 65 \<le> n \<and> n \<le> 70 then Some (n - 55) else None)"

text \<open>The four hexadecimal digits of an escape; a code point above 255 is outside the model.\<close>

definition hex_char :: "char \<Rightarrow> char \<Rightarrow> char \<Rightarrow> char \<Rightarrow> char option" where
  "hex_char a b c d = (case (hex_val a, hex_val b, hex_val c, hex_val d) of
     (Some w, Some x, Some y, Some z) \<Rightarrow> if w = 0 \<and> x = 0 then Some (char_of (16 * y + z)) else None
   | _ \<Rightarrow> None)"

definition escaped_char :: "char \<Rightarrow> char option" where
  "escaped_char e = map_of [(CHR 0x22, CHR 0x22), (CHR 0x5C, CHR 0x5C), (CHR ''/'', CHR ''/''), (CHR ''n'', CHR 0x0A),
     (CHR ''r'', CHR 0x0D), (CHR ''t'', CHR 0x09), (CHR ''f'', CHR 0x0C), (CHR ''b'', CHR 0x08)] e"

fun read_chars :: "string \<Rightarrow> (string \<times> string) option" where
  "read_chars [] = None"
| "read_chars (c # cs) =
     (if c = CHR 0x22 then Some ([], cs)
      else if (of_char c :: nat) < 32 then None
      else if c \<noteq> CHR 0x5C then map_option (apfst (Cons c)) (read_chars cs)
      else (case cs of
         CHR ''u'' # h # i # j # k # ds \<Rightarrow> (case hex_char h i j k of None \<Rightarrow> None
           | Some x \<Rightarrow> map_option (apfst (Cons x)) (read_chars ds))
       | e # ds \<Rightarrow> (case escaped_char e of None \<Rightarrow> None | Some x \<Rightarrow> map_option (apfst (Cons x)) (read_chars ds))
       | [] \<Rightarrow> None))"

definition leading_digits :: "string \<Rightarrow> string" where
  "leading_digits s = (let ds = takeWhile digit_char s in if ds \<noteq> [] \<and> hd ds = CHR ''0'' then [hd ds] else ds)"

definition read_number :: "string \<Rightarrow> (json \<times> string) option" where
  "read_number s =
     (let negative = (s \<noteq> [] \<and> hd s = CHR ''-''); t = (if negative then tl s else s);
          ds = leading_digits t; r = drop (length ds) t; i = int (digits_val 0 ds)
      in if ds = [] \<or> (r \<noteq> [] \<and> hd r \<in> {CHR ''.'', CHR ''e'', CHR ''E''}) then None
         else Some (JInt (if negative then - i else i), r))"

definition dict_of_pairs :: "('k \<times> 'v) list \<Rightarrow> ('k, 'v) dict" where
  "dict_of_pairs kvs = fold (\<lambda>(k, v). dict_set k v) kvs []"

fun read_value :: "nat \<Rightarrow> string \<Rightarrow> (json \<times> string) option"
  and read_items :: "nat \<Rightarrow> string \<Rightarrow> (json list \<times> string) option"
  and read_members :: "nat \<Rightarrow> string \<Rightarrow> ((string \<times> json) list \<times> string) option" where
  "read_value 0 s = None"
| "read_value (Suc n) s = (case s of [] \<Rightarrow> None | c # cs \<Rightarrow>
     if c = CHR 0x22 then map_option (apfst JStr) (read_chars cs)
     else if c = CHR ''['' then
       (let t = skip_ws cs in if t \<noteq> [] \<and> hd t = CHR '']'' then Some (JList [], tl t)
        else map_option (apfst JList) (read_items n t))
     else if c = CHR ''{'' then
       (let t = skip_ws cs in if t \<noteq> [] \<and> hd t = CHR ''}'' then Some (JObj [], tl t)
        else map_option (apfst (JObj \<circ> dict_of_pairs)) (read_members n t))
     else if starts_with s ''null'' then Some (JNull, drop 4 s)
     else if starts_with s ''true'' then Some (JBool True, drop 4 s)
     else if starts_with s ''false'' then Some (JBool False, drop 5 s)
     else read_number s)"
| "read_items 0 s = None"
| "read_items (Suc n) s = (case read_value n s of None \<Rightarrow> None | Some (v, r) \<Rightarrow>
     (case skip_ws r of [] \<Rightarrow> None | c # t \<Rightarrow>
        if c = CHR '']'' then Some ([v], t)
        else if c = CHR '','' then map_option (apfst (Cons v)) (read_items n (skip_ws t))
        else None))"
| "read_members 0 s = None"
| "read_members (Suc n) s = (if s = [] \<or> hd s \<noteq> CHR 0x22 then None else
     case read_chars (tl s) of None \<Rightarrow> None | Some (k, r) \<Rightarrow>
     (case skip_ws r of [] \<Rightarrow> None | d # t \<Rightarrow> if d \<noteq> CHR '':'' then None else
     (case read_value n (skip_ws t) of None \<Rightarrow> None | Some (v, u) \<Rightarrow>
     (case skip_ws u of [] \<Rightarrow> None | c # w \<Rightarrow>
        if c = CHR ''}'' then Some ([(k, v)], w)
        else if c = CHR '','' then map_option (apfst (Cons (k, v))) (read_members n (skip_ws w))
        else None))))"

text \<open>Every call reads a character or comes right before one that does: twice the length suffices.\<close>

definition loads :: "string \<Rightarrow> json option" where
  "loads s = (let t = skip_ws s in
     case read_value (Suc (2 * length t)) t of None \<Rightarrow> None
     | Some (v, r) \<Rightarrow> if skip_ws r = [] then Some v else None)"

section \<open>Reading back\<close>

lemma hex_val_digit: "n < 16 \<Longrightarrow> hex_val (hex_digit n) = Some n"
  by (auto simp: hex_val_def hex_digit_def Let_def)

lemma char_names:
  "CHR 0x0A = char_of (10 :: nat)" "CHR 0x0D = char_of (13 :: nat)" "CHR 0x09 = char_of (9 :: nat)"
  "CHR 0x0C = char_of (12 :: nat)" "CHR 0x08 = char_of (8 :: nat)"
  by code_simp+

lemma read_enc_special:
  "read_chars (enc_char (char_of (34 :: nat)) @ x) = map_option (apfst (Cons (char_of (34 :: nat)))) (read_chars x)"
  "read_chars (enc_char (char_of (92 :: nat)) @ x) = map_option (apfst (Cons (char_of (92 :: nat)))) (read_chars x)"
  "read_chars (enc_char (char_of (10 :: nat)) @ x) = map_option (apfst (Cons (char_of (10 :: nat)))) (read_chars x)"
  "read_chars (enc_char (char_of (13 :: nat)) @ x) = map_option (apfst (Cons (char_of (13 :: nat)))) (read_chars x)"
  "read_chars (enc_char (char_of (9 :: nat)) @ x) = map_option (apfst (Cons (char_of (9 :: nat)))) (read_chars x)"
  "read_chars (enc_char (char_of (12 :: nat)) @ x) = map_option (apfst (Cons (char_of (12 :: nat)))) (read_chars x)"
  "read_chars (enc_char (char_of (8 :: nat)) @ x) = map_option (apfst (Cons (char_of (8 :: nat)))) (read_chars x)"
  by (simp_all add: enc_char_def escaped_char_def char_names split: list.split)

lemma read_u_escape:
  "h < 16 \<Longrightarrow> l < 16 \<Longrightarrow> read_chars ([CHR 0x5C, CHR ''u'', CHR ''0'', CHR ''0'', hex_digit h, hex_digit l] @ x) =
     map_option (apfst (Cons (char_of (16 * h + l)))) (read_chars x)"
proof -
  assume "h < 16" "l < 16"
  then have "hex_char CHR ''0'' CHR ''0'' (hex_digit h) (hex_digit l) = Some (char_of (16 * h + l))"
    by (simp add: hex_char_def hex_val_digit) (simp add: hex_val_def)
  then show ?thesis by simp
qed

lemma read_enc_char: "read_chars (enc_char c @ x) = map_option (apfst (Cons c)) (read_chars x)"
proof -
  define n where "n = (of_char c :: nat)"
  have c: "c = char_of n" by (simp add: n_def)
  consider "n \<in> {34, 92, 10, 13, 9, 12, 8}" | "n < 32" "n \<notin> {10, 13, 9, 12, 8}"
    | "32 \<le> n" "n \<noteq> 34" "n \<noteq> 92" by fastforce
  then show ?thesis
  proof cases
    case 1
    then show ?thesis unfolding c using read_enc_special by auto
  next
    case 2
    then have "enc_char c = [CHR 0x5C, CHR ''u'', CHR ''0'', CHR ''0'', hex_digit (n div 16), hex_digit (n mod 16)]"
      by (simp add: enc_char_def Let_def flip: n_def)
    moreover have "n div 16 < 16" "n mod 16 < 16" using 2 by auto
    ultimately show ?thesis using read_u_escape [of "n div 16" "n mod 16" x] c by simp
  next
    case 3
    then have "enc_char c = [c]" "c \<noteq> CHR 0x22" "c \<noteq> CHR 0x5C" "\<not> (of_char c :: nat) < 32"
      by (auto simp: enc_char_def Let_def n_def)
    then show ?thesis by simp
  qed
qed

lemma read_enc_chars: "read_chars (concat (map enc_char s) @ CHR 0x22 # r) = Some (s, r)"
  by (induction s) (simp_all add: read_enc_char)

lemma read_enc_str: "enc_str s @ r = CHR 0x22 # t \<Longrightarrow> read_chars t = Some (s, r)"
  using read_enc_chars [of s r] by (auto simp: enc_str_def)

text \<open>What follows a value inside a list or an object, and at the end of a text.\<close>

definition closes :: "string \<Rightarrow> bool" where
  "closes r = (r = [] \<or> hd r \<in> {CHR '','', CHR '']'', CHR ''}''})"

lemma closes_delim: "closes r \<Longrightarrow> delim r"
  by (cases r) (auto simp: closes_def delim_def digit_char_def)

lemma nat_str_digit: "nat_str 0 = ''0''"
  by code_simp

lemma nat_str_zero: "hd (nat_str n) = CHR ''0'' \<longleftrightarrow> n = 0"
proof (induction n rule: nat_str.induct)
  case (1 n)
  show ?case
  proof (cases "n < 10")
    case True
    have "char_of (48 + n) = CHR ''0'' \<longleftrightarrow> n = 0"
    proof
      assume "char_of (48 + n) = CHR ''0''"
      then have "(of_char (char_of (48 + n) :: char) :: nat) = of_char CHR ''0''" by (rule arg_cong)
      then show "n = 0" using True by (simp add: of_char_of)
    qed (use nat_str_digit in \<open>simp add: nat_str.simps\<close>)
    with True show ?thesis by (simp add: nat_str.simps [of n])
  next
    case False
    with 1 show ?thesis by (simp add: nat_str.simps [of n])
  qed
qed

lemma read_nat_str: "closes r \<Longrightarrow> leading_digits (nat_str n @ r) = nat_str n"
  using takeWhile_nat_str [OF closes_delim] nat_str_zero [of n] nat_str_digit by (simp add: leading_digits_def Let_def)

lemma read_int_str:
  assumes "closes r"
  shows "read_number (int_str i @ r) = Some (JInt i, r)"
proof -
  have stop: "r = [] \<or> hd r \<notin> {CHR ''.'', CHR ''e'', CHR ''E''}" using assms by (auto simp: closes_def)
  note ds = read_nat_str [OF assms]
  have minus: "hd (nat_str n @ r) \<noteq> CHR ''-''" for n
    using nat_str_no_minus [of _ n r] by (metis append_is_Nil_conv list.collapse nat_str_ne)
  show ?thesis
  proof (cases "i < 0")
    case True
    then have "int_str i @ r = CHR ''-'' # nat_str (nat (- i)) @ r" by (simp add: int_str_def)
    then show ?thesis using True stop by (simp add: read_number_def ds Let_def digits_val_nat_str)
  next
    case False
    then have "int_str i @ r = nat_str (nat i) @ r" by (simp add: int_str_def)
    then show ?thesis using False stop minus by (simp add: read_number_def ds Let_def digits_val_nat_str)
  qed
qed


fun distinct_keys :: "json \<Rightarrow> bool" where
  "distinct_keys (JList vs) = list_all distinct_keys vs"
| "distinct_keys (JObj kvs) = (distinct (map fst kvs) \<and> list_all (\<lambda>kv. distinct_keys (snd kv)) kvs)"
| "distinct_keys v = True"

lemma dict_of_distinct: "distinct (map fst kvs) \<Longrightarrow> dict_of_pairs kvs = kvs"
proof -
  have new: "k \<notin> fst ` set d \<Longrightarrow> dict_set k v d = d @ [(k, v)]" for k v and d :: "('a \<times> 'b) list"
    by (induction d) auto
  have "distinct (map fst (d @ kvs)) \<Longrightarrow> fold (\<lambda>(k, v). dict_set k v) kvs d = d @ kvs" for d
    by (induction kvs arbitrary: d) (auto simp: new)
  from this [of "[]"] show "distinct (map fst kvs) \<Longrightarrow> dict_of_pairs kvs = kvs" by (simp add: dict_of_pairs_def)
qed

lemma skip_ws_append: "list_all ws_char u \<Longrightarrow> s \<noteq> [] \<Longrightarrow> \<not> ws_char (hd s) \<Longrightarrow> skip_ws (u @ s) = s"
  by (induction u) (auto simp: skip_ws_def neq_Nil_conv)

lemma skip_ws_id: "s \<noteq> [] \<Longrightarrow> \<not> ws_char (hd s) \<Longrightarrow> skip_ws s = s"
  by (auto simp: skip_ws_def neq_Nil_conv)

lemma not_ws: "digit_char c \<Longrightarrow> \<not> ws_char c"
  by (auto simp: ws_char_def digit_char_def)

lemma dumps_not_ws: "dumps a b v \<noteq> [] \<and> \<not> ws_char (hd (dumps a b v))"
proof -
  obtain c t where "dumps a b v = c # t" "head_kind v c" using dumps_head by blast
  then show ?thesis by (cases v) (auto simp: head_kind_def ws_char_def digit_char_def split: if_splits)
qed

lemma enc_str_hd: "enc_str k @ r = CHR 0x22 # tl (enc_str k) @ r"
  by (simp add: enc_str_def)

lemma fuel_left: "2 * (a + (b + c)) + 1 \<le> Suc m \<Longrightarrow> 0 < b \<Longrightarrow> 2 * c + 1 \<le> m" for a b c m :: nat
  by presburger

text \<open>
  The two serialisations differ in the white space after their separators, which the reader
  skips.
\<close>

locale separators =
  fixes isep ksep u w :: string
  assumes seps: "isep = CHR '','' # u" "ksep = CHR '':'' # w" "list_all ws_char u" "list_all ws_char w"
begin

lemma sep_app: "isep @ s = CHR '','' # u @ s" "ksep @ s = CHR '':'' # w @ s" "0 < length isep" "0 < length ksep"
  by (simp_all add: seps(1,2))

lemma read_items_dumps:
  assumes "\<And>v n r. v \<in> set vs \<Longrightarrow> closes r \<Longrightarrow> 2 * length (dumps isep ksep v) \<le> n \<Longrightarrow>
      read_value n (dumps isep ksep v @ r) = Some (v, r)"
    and "vs \<noteq> []" and "2 * length (join isep (map (dumps isep ksep) vs)) + 1 \<le> n"
  shows "read_items n (join isep (map (dumps isep ksep) vs) @ CHR '']'' # r) = Some (vs, r)"
  using assms
proof (induction vs arbitrary: n)
  case (Cons v vs)
  let ?d = "dumps isep ksep"
  obtain m where n: "n = Suc m" using Cons.prems(3) by (cases n) auto
  show ?case
  proof (cases "vs = []")
    case True
    then have "read_value m (?d v @ CHR '']'' # r) = Some (v, CHR '']'' # r)"
      using Cons.prems(3) by (intro Cons.prems(1)) (simp_all add: n closes_def)
    then show ?thesis by (simp add: n True skip_ws_id ws_char_def)
  next
    case False
    let ?rest = "join isep (map ?d vs) @ CHR '']'' # r"
    have txt1: "join isep (map ?d (v # vs)) = ?d v @ isep @ join isep (map ?d vs)" using False by (simp add: join_Cons)
    have "2 * length (?d v) \<le> m" using Cons.prems(3) unfolding n txt1 by simp
    then have "read_value m (?d v @ isep @ ?rest) = Some (v, isep @ ?rest)"
      by (intro Cons.prems(1)) (simp_all add: closes_def sep_app(1))
    moreover have "?rest \<noteq> []" "\<not> ws_char (hd ?rest)"
      using False dumps_not_ws by (cases vs; simp add: join_Cons hd_append)+
    then have "skip_ws (u @ ?rest) = ?rest" by (rule skip_ws_append [OF seps(3)])
    moreover have "2 * length (join isep (map ?d vs)) + 1 \<le> m"
      using Cons.prems(3) sep_app(3) unfolding n txt1 length_append by (rule fuel_left)
    then have "read_items m ?rest = Some (vs, r)" using Cons.prems(1) False by (intro Cons.IH) auto
    ultimately show ?thesis unfolding n txt1 by (simp add: sep_app(1) skip_ws_id ws_char_def)
  qed
qed simp

lemma read_members_dumps:
  assumes "\<And>k v n r. (k, v) \<in> set kvs \<Longrightarrow> closes r \<Longrightarrow> 2 * length (dumps isep ksep v) \<le> n \<Longrightarrow>
      read_value n (dumps isep ksep v @ r) = Some (v, r)"
    and "kvs \<noteq> []" and "2 * length (join isep (map (\<lambda>kv. enc_str (fst kv) @ ksep @ dumps isep ksep (snd kv)) kvs)) + 1 \<le> n"
  shows "read_members n (join isep (map (\<lambda>kv. enc_str (fst kv) @ ksep @ dumps isep ksep (snd kv)) kvs) @ CHR ''}'' # r) = Some (kvs, r)"
  using assms
proof (induction kvs arbitrary: n)
  case (Cons kv kvs)
  let ?d = "dumps isep ksep" and ?e = "\<lambda>kv. enc_str (fst kv) @ ksep @ dumps isep ksep (snd kv)"
  obtain k v where kv: "kv = (k, v)" by (cases kv)
  obtain m where n: "n = Suc m" using Cons.prems(3) by (cases n) auto
  have key: "read_chars (tl (enc_str k) @ s) = Some (k, s)" for s using read_enc_str [OF enc_str_hd] .
  have skip: "skip_ws (w @ ?d v @ s) = ?d v @ s" for s
    using dumps_not_ws by (intro skip_ws_append [OF seps(4)]) (simp_all add: hd_append)
  have colon: "skip_ws (CHR '':'' # s) = CHR '':'' # s" "skip_ws (CHR ''}'' # s) = CHR ''}'' # s" "skip_ws (CHR '','' # s) = CHR '','' # s" for s
    by (simp_all add: skip_ws_def ws_char_def)
  have len: "2 * length (?d v) \<le> m"
    using Cons.prems(3) by (cases "kvs = []") (simp_all add: n kv join_Cons)
  show ?case
  proof (cases "kvs = []")
    case True
    have "read_value m (?d v @ CHR ''}'' # r) = Some (v, CHR ''}'' # r)"
      using len by (intro Cons.prems(1) [of k]) (simp_all add: kv closes_def)
    then show ?thesis
      unfolding n read_members.simps
      by (simp add: True kv enc_str_hd [of k] key skip colon sep_app(2) del: read_chars.simps)
  next
    case False
    let ?rest = "join isep (map ?e kvs) @ CHR ''}'' # r"
    have txt1: "join isep (map ?e (kv # kvs)) = ?e kv @ isep @ join isep (map ?e kvs)" using False by (simp add: join_Cons)
    have "read_value m (?d v @ isep @ ?rest) = Some (v, isep @ ?rest)"
      using len by (intro Cons.prems(1) [of k]) (simp_all add: kv closes_def sep_app(1))
    moreover have "?rest \<noteq> []" "\<not> ws_char (hd ?rest)"
      using False by (cases kvs; simp add: join_Cons hd_append enc_str_def ws_char_def)+
    then have "skip_ws (u @ ?rest) = ?rest" by (rule skip_ws_append [OF seps(3)])
    moreover have "2 * length (join isep (map ?e kvs)) + 1 \<le> m"
      using Cons.prems(3) sep_app(3) unfolding n txt1 length_append by (rule fuel_left)
    then have "read_members m ?rest = Some (kvs, r)" using Cons.prems(1) False by (intro Cons.IH) auto
    ultimately show ?thesis
      unfolding n txt1 read_members.simps
      by (simp add: kv enc_str_hd [of k] key skip colon sep_app(1,2) del: read_chars.simps)
  qed
qed simp

lemma read_dumps:
  "distinct_keys v \<Longrightarrow> closes r \<Longrightarrow> 2 * length (dumps isep ksep v) \<le> n \<Longrightarrow> read_value n (dumps isep ksep v @ r) = Some (v, r)"
proof (induction v arbitrary: n r)
  case JNull
  then obtain m where "n = Suc m" by (cases n) auto
  then show ?case by (simp add: starts_with_def)
next
  case (JBool b)
  then obtain m where "n = Suc m" by (cases n) (auto split: if_splits)
  then show ?case by (cases b) (simp_all add: starts_with_def)
next
  case (JInt i)
  then obtain m where n: "n = Suc m" using int_str_ne [of i] by (cases n) auto
  obtain c cs where i: "int_str i = c # cs" using int_str_ne [of i] by (cases "int_str i") auto
  with int_str_hd [of i] have "c = CHR ''-'' \<or> digit_char c" by simp
  then have "c \<noteq> CHR 0x22" "c \<noteq> CHR ''[''" "c \<noteq> CHR ''{''" "c \<noteq> CHR ''n''" "c \<noteq> CHR ''t''" "c \<noteq> CHR ''f''" by auto
  then show ?case using read_int_str [OF JInt.prems(2), of i] by (simp add: n i starts_with_def)
next
  case (JStr s)
  then obtain m where n: "n = Suc m" by (cases n) (auto simp: enc_str_def)
  show ?case using read_enc_str [OF enc_str_hd, of s r] by (simp add: n enc_str_hd [of s] del: read_chars.simps)
next
  case (JList vs)
  then obtain m where n: "n = Suc m" by (cases n) auto
  show ?case
  proof (cases "vs = []")
    case True
    then show ?thesis by (simp add: n skip_ws_id ws_char_def)
  next
    case False
    let ?t = "join isep (map (dumps isep ksep) vs) @ CHR '']'' # r"
    have "read_items m ?t = Some (vs, r)"
      using JList False by (intro read_items_dumps) (auto simp: n list_all_iff)
    moreover have "?t \<noteq> []" "\<not> ws_char (hd ?t)" "hd ?t \<noteq> CHR '']''"
      using False dumps_not_ws dumps_hd by (cases vs; simp add: join_Cons hd_append)+
    ultimately show ?thesis by (simp add: n skip_ws_id)
  qed
next
  case (JObj kvs)
  then obtain m where n: "n = Suc m" by (cases n) auto
  show ?case
  proof (cases "kvs = []")
    case True
    then show ?thesis by (simp add: n skip_ws_id ws_char_def)
  next
    case False
    let ?t = "join isep (map (\<lambda>kv. enc_str (fst kv) @ ksep @ dumps isep ksep (snd kv)) kvs) @ CHR ''}'' # r"
    have "read_members m ?t = Some (kvs, r)"
    proof (rule read_members_dumps [OF _ False])
      fix k v n r
      assume "(k, v) \<in> set kvs" "closes r" "2 * length (dumps isep ksep v) \<le> n"
      with JObj.prems(1) show "read_value n (dumps isep ksep v @ r) = Some (v, r)"
        by (intro JObj.IH [of "(k, v)"]) (auto simp: list_all_iff snds.simps)
    qed (use JObj.prems(3) in \<open>simp add: n\<close>)
    moreover have "?t \<noteq> []" "\<not> ws_char (hd ?t)" "hd ?t \<noteq> CHR ''}''"
      using False by (cases kvs; simp add: join_Cons hd_append enc_str_def ws_char_def)+
    ultimately show ?thesis using JObj.prems(1) by (simp add: n skip_ws_id dict_of_distinct)
  qed
qed

lemma loads_dumps: "distinct_keys v \<Longrightarrow> loads (dumps isep ksep v) = Some v"
  using read_dumps [of v "[]" "Suc (2 * length (dumps isep ksep v))"] dumps_not_ws [of isep ksep v]
  by (simp add: loads_def skip_ws_id Let_def closes_def del: read_value.simps) (simp add: skip_ws_def)

end

interpretation canonical_text: separators "'',''" "'':''" "[]" "[]"
  by unfold_locales simp_all

interpretation default_text: separators "'', ''" "'': ''" "'' ''" "'' ''"
  by unfold_locales (simp_all add: ws_char_def)

lemma distinct_keys_norm: "distinct_keys v \<Longrightarrow> distinct_keys (norm_json v)"
proof (induction v)
  case (JObj kvs)
  have "distinct (map fst (sort_key fst (map (\<lambda>kv. (fst kv, norm_json (snd kv))) kvs)))"
    using JObj.prems by (metis (mono_tags, lifting) comp_apply distinct_keys.simps(2) distinct_map distinct_sort fst_conv
        list.map_comp map_eq_conv set_sort)
  with JObj show ?case by (auto simp: list_all_iff snds.simps)
qed (auto simp: list_all_iff)

text \<open>What is read has distinct keys.\<close>

lemma dict_of_pairs_distinct: "distinct (map fst (dict_of_pairs kvs))"
proof -
  have "distinct (map fst d) \<Longrightarrow> distinct (map fst (fold (\<lambda>(k, v). dict_set k v) kvs d))" for d
    by (induction kvs arbitrary: d) (auto simp: distinct_update)
  then show ?thesis by (simp add: dict_of_pairs_def)
qed

lemma dict_set_list_all: "list_all P d \<Longrightarrow> P (k, v) \<Longrightarrow> list_all P (dict_set k v d)"
  by (induction d) auto

lemma dict_of_pairs_all: "list_all P kvs \<Longrightarrow> list_all P (dict_of_pairs kvs)"
proof -
  have "list_all P d \<Longrightarrow> list_all P kvs \<Longrightarrow> list_all P (fold (\<lambda>(k, v). dict_set k v) kvs d)" for d
    by (induction kvs arbitrary: d) (auto simp: dict_set_list_all)
  then show "list_all P kvs \<Longrightarrow> list_all P (dict_of_pairs kvs)" by (simp add: dict_of_pairs_def)
qed

lemma read_distinct:
  "read_value n s = Some (v, r) \<Longrightarrow> distinct_keys v"
  "read_items n s = Some (vs, r) \<Longrightarrow> list_all distinct_keys vs"
  "read_members n s = Some (kvs, r) \<Longrightarrow> list_all (\<lambda>kv. distinct_keys (snd kv)) kvs"
proof (induction n s and n s and n s arbitrary: v r and vs r and kvs r
    rule: read_value_read_items_read_members.induct)
  case (2 n s)
  then show ?case
    by (auto simp: Let_def read_number_def dict_of_pairs_distinct split: list.splits if_splits) (rule dict_of_pairs_all, metis)+
next
  case (4 n s)
  then show ?case by (auto split: option.splits list.splits if_splits)
next
  case (6 n s)
  then show ?case by (auto split: option.splits list.splits if_splits)
qed auto

lemma loads_distinct: "loads s = Some v \<Longrightarrow> distinct_keys v"
  by (auto simp: loads_def Let_def simp del: read_value.simps split: option.splits if_splits dest: read_distinct(1))

section \<open>Python values\<close>

text \<open>\<open>isinstance(v, Mapping)\<close> and \<open>v.get(key)\<close> on it.\<close>

definition mapping :: "json \<Rightarrow> (string, json) dict option" where
  "mapping v = (case v of JObj d \<Rightarrow> Some d | _ \<Rightarrow> None)"

definition is_mapping :: "json \<Rightarrow> bool" where
  "is_mapping v = (mapping v \<noteq> None)"

definition jfield :: "json \<Rightarrow> string \<Rightarrow> json option" where
  "jfield v k = (case v of JObj d \<Rightarrow> dict_get d k | _ \<Rightarrow> None)"

definition jstring :: "json option \<Rightarrow> string option" where
  "jstring v = (case v of Some (JStr s) \<Rightarrow> Some s | _ \<Rightarrow> None)"

text \<open>\<open>repr\<close> of a string: the quote it does not contain, escapes, and hexadecimal escapes for what does not print.\<close>

definition repr_char :: "char \<Rightarrow> char \<Rightarrow> string" where
  "repr_char q c = (let n = (of_char c :: nat) in
     if c = q \<or> c = CHR 0x5C then [CHR 0x5C, c]
     else if n = 10 then [CHR 0x5C, CHR ''n''] else if n = 13 then [CHR 0x5C, CHR ''r''] else if n = 9 then [CHR 0x5C, CHR ''t'']
     else if n < 32 \<or> (127 \<le> n \<and> n \<le> 160) \<or> n = 173 then [CHR 0x5C, CHR ''x'', hex_digit (n div 16), hex_digit (n mod 16)]
     else [c])"

definition repr_str :: "string \<Rightarrow> string" where
  "repr_str s = (let q = (if CHR 0x27 \<in> set s \<and> CHR 0x22 \<notin> set s then CHR 0x22 else CHR 0x27)
     in q # concat (map (repr_char q) s) @ [q])"

fun py_repr :: "json \<Rightarrow> string" where
  "py_repr JNull = ''None''"
| "py_repr (JBool b) = (if b then ''True'' else ''False'')"
| "py_repr (JInt i) = int_str i"
| "py_repr (JStr s) = repr_str s"
| "py_repr (JList vs) = ''['' @ join '', '' (map py_repr vs) @ '']''"
| "py_repr (JObj kvs) = ''{'' @ join '', '' (map (\<lambda>kv. repr_str (fst kv) @ '': '' @ py_repr (snd kv)) kvs) @ ''}''"

definition py_str :: "json \<Rightarrow> string" where
  "py_str v = (case v of JStr s \<Rightarrow> s | _ \<Rightarrow> py_repr v)"

definition py_truthy :: "json \<Rightarrow> bool" where
  "py_truthy v = (case v of JNull \<Rightarrow> False | JBool b \<Rightarrow> b | JInt i \<Rightarrow> i \<noteq> 0 | JStr s \<Rightarrow> s \<noteq> [] | JList vs \<Rightarrow> vs \<noteq> [] | JObj d \<Rightarrow> d \<noteq> [])"

text \<open>\<open>int(s)\<close>: a sign, and digits with single underscores between them.\<close>

fun int_digits :: "bool \<Rightarrow> string \<Rightarrow> string option" where
  "int_digits after_digit [] = (if after_digit then Some [] else None)"
| "int_digits after_digit (c # cs) =
     (if digit_char c then map_option (Cons c) (int_digits True cs)
      else if c = CHR ''_'' \<and> after_digit then int_digits False cs else None)"

definition int_of_str :: "string \<Rightarrow> int option" where
  "int_of_str s = (let t = strip s; signed = (t \<noteq> [] \<and> hd t \<in> {CHR ''-'', CHR ''+''}) in
     map_option (\<lambda>ds. if signed \<and> hd t = CHR ''-'' then - int (digits_val 0 ds) else int (digits_val 0 ds))
       (int_digits False (if signed then tl t else t)))"

definition py_int :: "json \<Rightarrow> int res" where
  "py_int v = (case v of JInt i \<Rightarrow> Inr i | JBool b \<Rightarrow> Inr (if b then 1 else 0)
     | JStr s \<Rightarrow> (case int_of_str s of None \<Rightarrow> Inl (ValueError ''invalid literal for int() with base 10'') | Some i \<Rightarrow> Inr i)
     | _ \<Rightarrow> Inl (TypeError ''int() argument must be a string or a number''))"

definition py_len :: "json \<Rightarrow> nat res" where
  "py_len v = (case v of JStr s \<Rightarrow> Inr (length s) | JList vs \<Rightarrow> Inr (length vs) | JObj d \<Rightarrow> Inr (length d)
     | _ \<Rightarrow> Inl (TypeError ''object has no len()''))"

text \<open>\<open>str.splitlines()\<close>.\<close>

definition line_break :: "char \<Rightarrow> bool" where
  "line_break c = (let n = (of_char c :: nat) in n \<in> {10, 11, 12, 13, 28, 29, 30, 133})"

fun split_lines :: "string \<Rightarrow> string \<Rightarrow> string list" where
  "split_lines run [] = (if run = [] then [] else [rev run])"
| "split_lines run (c # cs) =
     (if c = CHR 0x0D \<and> cs \<noteq> [] \<and> hd cs = CHR 0x0A then rev run # split_lines [] (tl cs)
      else if line_break c then rev run # split_lines [] cs
      else split_lines (c # run) cs)"

section \<open>Properties\<close>

text \<open>What is written is read back: \<open>json.loads\<close> of the default serialisation of a value whose
  objects have distinct keys is that value, and of its canonical serialisation the value with
  its keys in order.\<close>

lemma loads_reads_back:
  assumes "distinct_keys v"
  shows "loads (default_json v) = Some v \<and> loads (canonical_json v) = Some (norm_json v)"
  using default_text.loads_dumps [OF assms] canonical_text.loads_dumps [OF distinct_keys_norm [OF assms]]
  by (simp add: default_json_def canonical_json_def)

end
