(* ===== verification/ContextBudget.thy ===== *)
theory ContextBudget
  imports JsonParse
begin

text \<open>
  \<open>ourd/context_budget.py\<close>: fitting a request to a model into its input budget. Tokens are
  estimated from the length of the serialised request; while the estimate is too large the
  oldest turns of the history are dropped, then completed tool outputs are compacted, then
  compacted to a minimum, then whole tool exchanges that are persisted as evidence are dropped.
  Every reduction is recorded with digests of what it removed.
\<close>

section \<open>Constants and budgets\<close>

definition FIT :: string where
  "FIT = ''FIT''"

definition INSUFFICIENT_CONTEXT_BUDGET :: string where
  "INSUFFICIENT_CONTEXT_BUDGET = ''INSUFFICIENT_CONTEXT_BUDGET''"

datatype reduction_kind = DROP_OLDEST_UNPINNED_TURN | COMPACT_COMPLETED_TOOL_OUTPUT | DROP_OLDEST_EVIDENCE_TOOL_EXCHANGE

definition kind_name :: "reduction_kind \<Rightarrow> string" where
  "kind_name k = (case k of DROP_OLDEST_UNPINNED_TURN \<Rightarrow> ''DROP_OLDEST_UNPINNED_TURN''
     | COMPACT_COMPLETED_TOOL_OUTPUT \<Rightarrow> ''COMPACT_COMPLETED_TOOL_OUTPUT''
     | DROP_OLDEST_EVIDENCE_TOOL_EXCHANGE \<Rightarrow> ''DROP_OLDEST_EVIDENCE_TOOL_EXCHANGE'')"

definition MAX_COMPACTED_TOOL_OUTPUT_CHARS :: nat where
  "MAX_COMPACTED_TOOL_OUTPUT_CHARS = 1600"

definition MAX_TOOL_OUTPUT_EXCERPT_CHARS :: nat where
  "MAX_TOOL_OUTPUT_EXCERPT_CHARS = 1000"

definition MINIMAL_TOOL_OUTPUT_EXCERPT_CHARS :: nat where
  "MINIMAL_TOOL_OUTPUT_EXCERPT_CHARS = 160"

definition serialized_count :: "json \<Rightarrow> nat" where
  "serialized_count v = length (default_json v)"

definition estimate_tokens :: "json \<Rightarrow> int" where
  "estimate_tokens v = max 1 ((int (length (default_json v)) + 3) div 4)"

definition effective_input_budget :: "int \<Rightarrow> int \<Rightarrow> int \<Rightarrow> int \<Rightarrow> int" where
  "effective_input_budget configured runtime reserved margin =
     (let configured = max 0 configured; runtime = max 0 runtime
      in if runtime = 0 then configured else min configured (max 0 (runtime - max 0 reserved - max 0 margin)))"

section \<open>Steps and reports\<close>

record reduction_step =
  ct_schema_version :: int
  ct_kind :: reduction_kind
  ct_affected_item_count :: int
  ct_original_item_signatures :: "string list"
  ct_replacement_item_signatures :: "string list"
  ct_tokens_before :: int
  ct_tokens_after :: int
  ct_signature :: string

definition step_material :: "reduction_step \<Rightarrow> json" where
  "step_material s = JObj [
     (''schema_version'', JInt (ct_schema_version s)), (''kind'', JStr (kind_name (ct_kind s))),
     (''affected_item_count'', JInt (ct_affected_item_count s)),
     (''original_item_signatures'', JList (map JStr (ct_original_item_signatures s))),
     (''replacement_item_signatures'', JList (map JStr (ct_replacement_item_signatures s))),
     (''tokens_before'', JInt (ct_tokens_before s)), (''tokens_after'', JInt (ct_tokens_after s))]"

definition reduction_post_init :: "digest \<Rightarrow> reduction_step \<Rightarrow> reduction_step res" where
  "reduction_post_init H s =
     (if ct_schema_version s \<noteq> 1 then Inl (ValueError ''context reduction step schema_version must be 1'')
      else if ct_affected_item_count s < 1 then Inl (ValueError ''context reduction must affect at least one item'')
      else if ct_affected_item_count s \<noteq> int (length (ct_original_item_signatures s))
        then Inl (ValueError ''context reduction original signature count mismatch'')
      else if ct_kind s \<in> {DROP_OLDEST_UNPINNED_TURN, DROP_OLDEST_EVIDENCE_TOOL_EXCHANGE} \<and> ct_replacement_item_signatures s \<noteq> []
        then Inl (ValueError ''dropped context items cannot have replacement signatures'')
      else if ct_kind s = COMPACT_COMPLETED_TOOL_OUTPUT \<and>
          ct_affected_item_count s \<noteq> int (length (ct_replacement_item_signatures s))
        then Inl (ValueError ''context compaction replacement signature count mismatch'')
      else if ct_tokens_before s < 0 \<or> ct_tokens_after s < 0 \<or> ct_tokens_after s > ct_tokens_before s
        then Inl (ValueError ''context reduction token counts are invalid'')
      else let expected = stable_hash H (step_material s)
        in if ct_signature s \<noteq> [] \<and> ct_signature s \<noteq> expected
             then Inl (ValueError ''context reduction step signature mismatch'')
           else Inr (s\<lparr>ct_signature := expected\<rparr>))"

record budget_report =
  cb_schema_version :: int
  cb_verdict :: string
  cb_configured_input_budget_tokens :: int
  cb_effective_input_budget_tokens :: int
  cb_runtime_context_tokens :: int
  cb_reserved_output_tokens :: int
  cb_safety_margin_tokens :: int
  cb_estimated_input_tokens :: int
  cb_overage_tokens :: int
  cb_instructions_tokens :: int
  cb_tools_tokens :: int
  cb_history_tokens :: int
  cb_active_input_tokens :: int
  cb_history_item_count :: int
  cb_active_input_item_count :: int
  cb_removed_history_item_count :: int
  cb_compacted_tool_output_count :: int
  cb_dropped_tool_exchange_count :: int
  cb_request_signature :: string
  cb_history_signature :: string
  cb_active_input_signature :: string
  cb_reduction_steps :: "reduction_step list"
  cb_signature :: string

definition report_numbers :: "budget_report \<Rightarrow> (string \<times> int) list" where
  "report_numbers r = [
     (''configured_input_budget_tokens'', cb_configured_input_budget_tokens r),
     (''effective_input_budget_tokens'', cb_effective_input_budget_tokens r),
     (''runtime_context_tokens'', cb_runtime_context_tokens r),
     (''reserved_output_tokens'', cb_reserved_output_tokens r),
     (''safety_margin_tokens'', cb_safety_margin_tokens r),
     (''estimated_input_tokens'', cb_estimated_input_tokens r),
     (''overage_tokens'', cb_overage_tokens r), (''instructions_tokens'', cb_instructions_tokens r),
     (''tools_tokens'', cb_tools_tokens r), (''history_tokens'', cb_history_tokens r),
     (''active_input_tokens'', cb_active_input_tokens r), (''history_item_count'', cb_history_item_count r),
     (''active_input_item_count'', cb_active_input_item_count r),
     (''removed_history_item_count'', cb_removed_history_item_count r),
     (''compacted_tool_output_count'', cb_compacted_tool_output_count r),
     (''dropped_tool_exchange_count'', cb_dropped_tool_exchange_count r)]"

definition report_material :: "budget_report \<Rightarrow> json" where
  "report_material r = JObj ([(''schema_version'', JInt (cb_schema_version r)), (''verdict'', JStr (cb_verdict r))] @
     map (\<lambda>(k, i). (k, JInt i)) (report_numbers r) @
     [(''request_signature'', JStr (cb_request_signature r)), (''history_signature'', JStr (cb_history_signature r)),
      (''active_input_signature'', JStr (cb_active_input_signature r)),
      (''reduction_step_signatures'', JList (map (JStr \<circ> ct_signature) (cb_reduction_steps r)))])"

definition report_post_init :: "digest \<Rightarrow> budget_report \<Rightarrow> budget_report res" where
  "report_post_init H r =
     (if cb_schema_version r \<noteq> 1 then Inl (ValueError ''context budget report schema_version must be 1'')
      else if cb_verdict r \<notin> {FIT, INSUFFICIENT_CONTEXT_BUDGET} then Inl (ValueError ''invalid context budget verdict'')
      else if list_ex (\<lambda>(k, i). i < 0) (report_numbers r) then Inl (ValueError ''report field cannot be negative'')
      else let overage = max 0 (cb_estimated_input_tokens r - cb_effective_input_budget_tokens r)
        in if cb_overage_tokens r \<noteq> overage then Inl (ValueError ''context budget overage mismatch'')
           else if cb_verdict r \<noteq> (if overage = 0 then FIT else INSUFFICIENT_CONTEXT_BUDGET)
             then Inl (ValueError ''context budget verdict does not match the overage'')
           else let expected = stable_hash H (report_material r)
             in if cb_signature r \<noteq> [] \<and> cb_signature r \<noteq> expected
                  then Inl (ValueError ''context budget report signature mismatch'')
                else Inr (r\<lparr>cb_signature := expected\<rparr>))"

section \<open>Projections of items\<close>

definition role_of :: "json \<Rightarrow> string" where
  "role_of item = (if is_mapping item then (case jfield item ''role'' of None \<Rightarrow> [] | Some v \<Rightarrow> py_str v) else [])"

definition oldest_history_turn_size :: "json list \<Rightarrow> nat" where
  "oldest_history_turn_size history = (case history of [] \<Rightarrow> 0
     | [first] \<Rightarrow> 1
     | first # second # _ \<Rightarrow> if role_of first \<noteq> ''user'' then 1 else if role_of second = ''assistant'' then 2 else 1)"

definition excerpt_marker :: string where
  "excerpt_marker = [CHR 0x0A] @ ''... OIEC CONTEXT PROJECTION OMITTED ...'' @ [CHR 0x0A]"

definition bounded_excerpt :: "string \<Rightarrow> nat \<Rightarrow> string" where
  "bounded_excerpt value limit =
     (let bounded = max 1 limit in if length value \<le> bounded then value
      else let available = max 2 (bounded - length excerpt_marker); head = available * 3 div 5; tail = available - head
        in take head value @ excerpt_marker @ drop (length value - tail) value)"

definition evidence_ids :: "json \<Rightarrow> string list" where
  "evidence_ids value =
     (if \<not> is_mapping value then []
      else let direct = (case jstring (jfield value ''evidence_id'') of Some s \<Rightarrow> if s \<noteq> [] then [s] else [] | None \<Rightarrow> []);
               multiple = (case jfield value ''evidence_ids'' of Some (JList vs) \<Rightarrow> filter (\<lambda>s. s \<noteq> []) (map py_str vs) | _ \<Rightarrow> [])
        in sorted_set (direct @ multiple))"

text \<open>\<open>re.match(r"^\s*\d+\s+\|\s?(.*)$", line)\<close>: the line without its number and bar.\<close>

definition numbered_line :: "string \<Rightarrow> string option" where
  "numbered_line line =
     (let s = dropWhile is_space line; ds = takeWhile digit_char s; t = drop (length ds) s; u = dropWhile is_space t
      in if ds = [] \<or> u = t \<or> u = [] \<or> hd u \<noteq> CHR ''|'' then None
         else Some (let r = tl u in if r \<noteq> [] \<and> is_space (hd r) then tl r else r))"

definition OUTLINE_MARKERS :: "string list" where
  "OUTLINE_MARKERS = [''status:'', ''limitation:'', ''limitations:'', ''warning:'', ''invariant:'']"

definition outline_line :: "string \<Rightarrow> string list \<times> nat \<Rightarrow> string list \<times> nat" where
  "outline_line raw = (\<lambda>(kept, body).
     let line = strip (case numbered_line raw of Some t \<Rightarrow> t | None \<Rightarrow> raw)
     in if line = [] then (kept, body)
        else if hd line = CHR ''#'' then (kept @ [line], 0)
        else if body < 2 then (kept @ [line], Suc body)
        else if list_ex (starts_with (casefold line)) OUTLINE_MARKERS then (kept @ [line], body)
        else (kept, body))"

definition markdown_semantic_outline :: "string \<Rightarrow> nat \<Rightarrow> string" where
  "markdown_semantic_outline text_value limit =
     bounded_excerpt (join [CHR 0x0A] (fst (fold outline_line (split_lines [] text_value) ([], 0)))) limit"

definition SUMMARY_KEYS :: "string list" where
  "SUMMARY_KEYS = [''summary_id'', ''manifest_id'', ''path'', ''content_sha256'', ''source_snapshot_hash'', ''summary_sha256'',
     ''source_read_evidence_ids'', ''coverage_signature'', ''coverage_complete'', ''model_identity'', ''prompt_signature'',
     ''epistemic_status'', ''signature'']"

definition preserved_summary :: "json \<Rightarrow> json" where
  "preserved_summary summary = JObj (concat (map (\<lambda>k. case jfield summary k of
       None \<Rightarrow> [] | Some v \<Rightarrow> if v = JNull \<or> v = JStr [] then [] else [(k, v)]) SUMMARY_KEYS) @
     (case jstring (jfield summary ''summary_text'') of None \<Rightarrow> []
      | Some s \<Rightarrow> [(''summary_text'', JStr (bounded_excerpt s 4000))]))"

text \<open>\<open>v.get(key, default)\<close> on a mapping, and the mapping below a key or an empty one.\<close>

definition field_or :: "json \<Rightarrow> string \<Rightarrow> json \<Rightarrow> json" where
  "field_or v k d = (case jfield v k of None \<Rightarrow> d | Some x \<Rightarrow> x)"

definition submapping :: "json \<Rightarrow> string \<Rightarrow> json" where
  "submapping v k = (case jfield v k of Some (JObj d) \<Rightarrow> JObj d | _ \<Rightarrow> JObj [])"

definition line_field :: "json \<Rightarrow> string \<Rightarrow> int res" where
  "line_field v k = (let x = field_or v k (JInt 0) in if py_truthy x then py_int x else Inr 0)"

definition sized_field :: "json \<Rightarrow> string \<Rightarrow> nat res" where
  "sized_field v k = (let x = field_or v k (JList []) in if py_truthy x then py_len x else Inr 0)"

definition document_outline :: "json \<Rightarrow> (string, json) dict res" where
  "document_outline value = (case (jstring (jfield value ''content''), jstring (jfield value ''path'')) of
     (Some doc, Some path) \<Rightarrow> if doc = [] then Inr [] else
       bindR (line_field value ''start_line'') (\<lambda>first. bindR (line_field value ''end_line'') (\<lambda>final.
         Inr [(''document_outline'', JObj [(''path'', JStr path), (''start_line'', JInt first), (''end_line'', JInt final),
           (''content_character_count'', JInt (int (length doc))), (''outline'', JStr (markdown_semantic_outline doc 1600))])]))
   | _ \<Rightarrow> Inr [])"

definition formal_writing :: "json \<Rightarrow> (string, json) dict res" where
  "formal_writing value = (case jfield value ''formal_writing_result'' of
     Some (JObj d) \<Rightarrow> (let result = JObj d; request = submapping result ''request''; plan = submapping result ''plan'';
         draft = submapping result ''draft''; report = submapping result ''integrity_report'' in
       bindR (sized_field result ''sources'') (\<lambda>sources. bindR (sized_field result ''references'') (\<lambda>references.
         Inr [(''formal_writing'', JObj [
           (''request_id'', field_or request ''request_id'' (JStr [])), (''operation'', field_or request ''operation'' (JStr [])),
           (''request_signature'', field_or request ''request_signature'' (JStr [])),
           (''plan_id'', field_or plan ''plan_id'' (JStr [])), (''plan_signature'', field_or plan ''signature'' (JStr [])),
           (''draft_id'', field_or draft ''draft_id'' (JStr [])),
           (''draft_text'', JStr (bounded_excerpt (py_str (field_or draft ''text'' (JStr []))) 6000)),
           (''integrity_report'', report), (''source_count'', JInt (int sources)),
           (''reference_count'', JInt (int references))])])))
   | _ \<Rightarrow> Inr [])"

text \<open>The part of a projection that a mapping below a key gives.\<close>

definition mapping_part :: "json \<Rightarrow> string \<Rightarrow> string \<Rightarrow> (json \<Rightarrow> json) \<Rightarrow> (string, json) dict" where
  "mapping_part value k name f = (case jfield value k of Some (JObj d) \<Rightarrow> [(name, f (JObj d))] | _ \<Rightarrow> [])"

definition semantic_artifacts :: "json \<Rightarrow> json res" where
  "semantic_artifacts value =
     bindR (document_outline value) (\<lambda>outline. bindR (formal_writing value) (\<lambda>writing.
       Inr (JObj (mapping_part value ''summary'' ''document_summary'' preserved_summary @
         mapping_part value ''report'' ''corpus_coverage'' (\<lambda>v. v) @
         mapping_part value ''coverage'' ''document_coverage'' (\<lambda>v. v) @ outline @ writing))))"

section \<open>Compaction of one tool output\<close>

definition is_tool_output :: "json \<Rightarrow> bool" where
  "is_tool_output item = (jfield item ''type'' = Some (JStr ''function_call_output''))"

definition is_tool_call :: "json \<Rightarrow> bool" where
  "is_tool_call item = (jfield item ''type'' = Some (JStr ''function_call''))"

definition set_field :: "string \<Rightarrow> json \<Rightarrow> json \<Rightarrow> json" where
  "set_field k v item = (case item of JObj d \<Rightarrow> JObj (dict_set k v d) | _ \<Rightarrow> item)"

definition projection_level :: "nat \<Rightarrow> json" where
  "projection_level excerpt_chars = JStr (if excerpt_chars \<le> MINIMAL_TOOL_OUTPUT_EXCERPT_CHARS then ''minimal'' else ''bounded'')"

definition PRESERVED_KEYS :: "string list" where
  "PRESERVED_KEYS = [''ok'', ''returncode'', ''capability'', ''collision_id'', ''truncated'', ''total_file_count'', ''returned_file_count'']"

definition preserved_fields :: "json option \<Rightarrow> json" where
  "preserved_fields decoded = JObj (case decoded of None \<Rightarrow> [] | Some v \<Rightarrow>
     concat (map (\<lambda>k. case jfield v k of Some (JBool b) \<Rightarrow> [(k, JBool b)] | Some (JInt i) \<Rightarrow> [(k, JInt i)]
        | Some (JStr s) \<Rightarrow> [(k, JStr s)] | _ \<Rightarrow> []) PRESERVED_KEYS))"

definition was_compacted :: "json option \<Rightarrow> bool" where
  "was_compacted decoded = (case decoded of None \<Rightarrow> False | Some v \<Rightarrow> jfield v ''context_budget_compacted'' = Some (JBool True))"

definition smaller :: "json \<Rightarrow> json \<Rightarrow> json option" where
  "smaller replacement item = (if serialized_count replacement \<ge> serialized_count item then None else Some replacement)"

definition output_projection :: "digest \<Rightarrow> string \<Rightarrow> json option \<Rightarrow> nat \<Rightarrow> json res" where
  "output_projection H output decoded excerpt_chars =
     (let value = (case decoded of None \<Rightarrow> JNull | Some v \<Rightarrow> v); ids = evidence_ids value in
      bindR (semantic_artifacts value) (\<lambda>artifacts. Inr (JObj [
        (''context_budget_compacted'', JBool True), (''projection_kind'', JStr ''completed_tool_output''),
        (''projection_level'', projection_level excerpt_chars), (''original_output_sha256'', JStr (H output)),
        (''original_output_character_count'', JInt (int (length output))),
        (''evidence_ids'', JList (map JStr ids)), (''full_result_persisted_as_evidence'', JBool (ids \<noteq> [])),
        (''preserved_fields'', preserved_fields decoded), (''semantic_artifacts'', artifacts),
        (''excerpt'', JStr (bounded_excerpt output excerpt_chars))])))"

definition compact_tool_output_item :: "digest \<Rightarrow> nat \<Rightarrow> bool \<Rightarrow> json \<Rightarrow> json option res" where
  "compact_tool_output_item H excerpt_chars force item =
     (if \<not> is_tool_output item then Inr None
      else case jstring (jfield item ''output'') of None \<Rightarrow> Inr None | Some output \<Rightarrow>
        let decoded = loads output in
        if was_compacted decoded then
          (let old = the decoded; current = py_str (field_or old ''excerpt'' (JStr []));
               projection = set_field ''projection_level'' (projection_level excerpt_chars)
                 (set_field ''excerpt'' (JStr (bounded_excerpt current excerpt_chars)) old)
           in Inr (smaller (set_field ''output'' (JStr (canonical_json projection)) item) item))
        else if \<not> force \<and> length output \<le> MAX_COMPACTED_TOOL_OUTPUT_CHARS then Inr None
        else bindR (output_projection H output decoded excerpt_chars) (\<lambda>projection.
          Inr (smaller (set_field ''output'' (JStr (canonical_json projection)) item) item)))"

section \<open>Tool exchanges persisted as evidence\<close>

definition call_id_of :: "json \<Rightarrow> string" where
  "call_id_of item = py_str (field_or item ''call_id'' (JStr []))"

definition keeps_context :: "json \<Rightarrow> bool" where
  "keeps_context decoded = (jfield decoded ''context_preserve'' = Some (JBool True) \<or>
     (case jfield decoded ''summary'' of Some (JObj d) \<Rightarrow> True | _ \<Rightarrow> False) \<or>
     (case jfield decoded ''report'' of Some (JObj d) \<Rightarrow> True | _ \<Rightarrow> False))"

definition droppable_output :: "json \<Rightarrow> bool" where
  "droppable_output item = (is_tool_output item \<and> call_id_of item \<noteq> [] \<and>
     (case jstring (jfield item ''output'') of None \<Rightarrow> False | Some output \<Rightarrow>
       (case loads output of None \<Rightarrow> False | Some decoded \<Rightarrow> \<not> keeps_context decoded \<and> evidence_ids decoded \<noteq> [])))"

definition droppable_outputs :: "json list \<Rightarrow> nat \<Rightarrow> (string, nat) dict" where
  "droppable_outputs items start_index =
     fold (\<lambda>i d. if droppable_output (items ! i) then dict_set (call_id_of (items ! i)) i d else d) [start_index..<length items] []"

definition exchange_candidates :: "json list \<Rightarrow> nat \<Rightarrow> (nat \<times> nat) list" where
  "exchange_candidates items start_index = (let outputs = droppable_outputs items start_index in
     concat (map (\<lambda>i. if is_tool_call (items ! i) then
         (case dict_get outputs (call_id_of (items ! i)) of None \<Rightarrow> [] | Some j \<Rightarrow> [(i, j)]) else [])
       [start_index..<length items]))"

definition oldest_evidence_tool_exchange :: "json list \<Rightarrow> nat \<Rightarrow> nat \<Rightarrow> (nat \<times> nat) option" where
  "oldest_evidence_tool_exchange items start_index retain_newest =
     (let candidates = exchange_candidates items start_index
      in if length candidates \<le> retain_newest then None else Some (hd candidates))"

section \<open>Recovery\<close>

text \<open>The request that does not change while its input is reduced.\<close>

record recovery_request =
  cq_instructions :: string
  cq_tools :: "json list"
  cq_configured :: int
  cq_runtime :: int
  cq_reserved :: int
  cq_margin :: int
  cq_initial_history :: nat

definition request_json :: "recovery_request \<Rightarrow> json list \<Rightarrow> json" where
  "request_json q items = JObj [(''instructions'', JStr (cq_instructions q)), (''input'', JList items), (''tools'', JList (cq_tools q))]"

definition list_tokens :: "json list \<Rightarrow> int" where
  "list_tokens vs = (if vs = [] then 0 else estimate_tokens (JList vs))"

definition build_report :: "digest \<Rightarrow> recovery_request \<Rightarrow> json list \<Rightarrow> nat \<Rightarrow> reduction_step list \<Rightarrow> budget_report res" where
  "build_report H q items history_count steps =
     (let history = take history_count items; active = drop history_count items;
          estimated = estimate_tokens (request_json q items);
          effective = effective_input_budget (cq_configured q) (cq_runtime q) (cq_reserved q) (cq_margin q);
          overage = max 0 (estimated - effective)
      in report_post_init H \<lparr>cb_schema_version = 1, cb_verdict = (if overage = 0 then FIT else INSUFFICIENT_CONTEXT_BUDGET),
          cb_configured_input_budget_tokens = max 0 (cq_configured q), cb_effective_input_budget_tokens = effective,
          cb_runtime_context_tokens = max 0 (cq_runtime q), cb_reserved_output_tokens = max 0 (cq_reserved q),
          cb_safety_margin_tokens = max 0 (cq_margin q), cb_estimated_input_tokens = estimated, cb_overage_tokens = overage,
          cb_instructions_tokens = estimate_tokens (JStr (cq_instructions q)), cb_tools_tokens = list_tokens (cq_tools q),
          cb_history_tokens = list_tokens history, cb_active_input_tokens = list_tokens active,
          cb_history_item_count = int (length history), cb_active_input_item_count = int (length active),
          cb_removed_history_item_count = max 0 (int (cq_initial_history q) - int history_count),
          cb_compacted_tool_output_count =
            sum_list (map ct_affected_item_count (filter (\<lambda>s. ct_kind s = COMPACT_COMPLETED_TOOL_OUTPUT) steps)),
          cb_dropped_tool_exchange_count = int (length (filter (\<lambda>s. ct_kind s = DROP_OLDEST_EVIDENCE_TOOL_EXCHANGE) steps)),
          cb_request_signature = stable_hash H (request_json q items), cb_history_signature = stable_hash H (JList history),
          cb_active_input_signature = stable_hash H (JList active), cb_reduction_steps = steps, cb_signature = []\<rparr>)"

record recovery =
  rv_items :: "json list"
  rv_history :: nat
  rv_steps :: "reduction_step list"
  rv_report :: budget_report

text \<open>
  One reduction: the request without what is removed is measured, the step is recorded, and the
  report is built again with the step in it.
\<close>

definition reduce :: "digest \<Rightarrow> recovery_request \<Rightarrow> recovery \<Rightarrow> reduction_kind \<Rightarrow> json list \<Rightarrow> json list \<Rightarrow> json list \<Rightarrow> nat \<Rightarrow> recovery res" where
  "reduce H q s kind removed replacements items history_count =
     bindR (build_report H q items history_count (rv_steps s)) (\<lambda>provisional.
     bindR (reduction_post_init H \<lparr>ct_schema_version = 1, ct_kind = kind, ct_affected_item_count = int (length removed),
         ct_original_item_signatures = map (stable_hash H) removed, ct_replacement_item_signatures = map (stable_hash H) replacements,
         ct_tokens_before = cb_estimated_input_tokens (rv_report s), ct_tokens_after = cb_estimated_input_tokens provisional,
         ct_signature = []\<rparr>) (\<lambda>step.
     bindR (build_report H q items history_count (rv_steps s @ [step])) (\<lambda>report.
       Inr \<lparr>rv_items = items, rv_history = history_count, rv_steps = rv_steps s @ [step], rv_report = report\<rparr>)))"

definition fits :: "recovery \<Rightarrow> bool" where
  "fits s = (cb_verdict (rv_report s) = FIT)"

lemma reduce_fields:
  "reduce H q s k as bs items n = Inr t \<Longrightarrow> rv_items t = items \<and> rv_history t = n"
  by (auto simp: reduce_def bindR_Inr)

lemma turn_size_positive: "history \<noteq> [] \<Longrightarrow> 1 \<le> oldest_history_turn_size history \<and> oldest_history_turn_size history \<le> length history"
  by (auto simp: oldest_history_turn_size_def neq_Nil_conv split: list.splits)

text \<open>
  The history count never exceeds the items, so that with a positive count there is an item;
  the test for it only makes the loop total on other states.
\<close>

function drop_history :: "digest \<Rightarrow> recovery_request \<Rightarrow> recovery \<Rightarrow> recovery res" where
  "drop_history H q s =
     (if fits s \<or> rv_history s = 0 \<or> rv_items s = [] then Inr s
      else let size = oldest_history_turn_size (take (rv_history s) (rv_items s))
        in bindR (reduce H q s DROP_OLDEST_UNPINNED_TURN (take size (rv_items s)) [] (drop size (rv_items s)) (rv_history s - size))
             (drop_history H q))"
  by pat_completeness auto
termination
proof (relation "measure (\<lambda>(H, q, s). rv_history s)", goal_cases)
  case (2 H q s size t)
  then have "rv_history t = rv_history s - size" by (simp add: reduce_fields)
  moreover have "1 \<le> size" using 2 turn_size_positive [of "take (rv_history s) (rv_items s)"] by auto
  ultimately show ?case using 2(1) by simp
qed auto

declare drop_history.simps [simp del]

fun find_compaction :: "digest \<Rightarrow> nat \<Rightarrow> bool \<Rightarrow> json list \<Rightarrow> (nat \<times> json) option res" where
  "find_compaction H excerpt_chars force [] = Inr None"
| "find_compaction H excerpt_chars force (item # items) =
     bindR (compact_tool_output_item H excerpt_chars force item) (\<lambda>r. case r of
       Some replacement \<Rightarrow> Inr (Some (0, replacement))
     | None \<Rightarrow> bindR (find_compaction H excerpt_chars force items) (\<lambda>later. Inr (map_option (apfst Suc) later)))"

lemma compact_smaller:
  "compact_tool_output_item H k force item = Inr (Some r) \<Longrightarrow> serialized_count r < serialized_count item"
  by (auto simp: compact_tool_output_item_def smaller_def bindR_Inr Let_def split: if_splits option.splits)

lemma find_compaction_some:
  "find_compaction H k force items = Inr (Some (i, r)) \<Longrightarrow>
     i < length items \<and> compact_tool_output_item H k force (items ! i) = Inr (Some r)"
proof (induction items arbitrary: i)
  case (Cons item items)
  from Cons.prems obtain o1 where o1: "compact_tool_output_item H k force item = Inr o1"
    and rest: "(case o1 of Some replacement \<Rightarrow> Inr (Some (0, replacement))
      | None \<Rightarrow> bindR (find_compaction H k force items) (\<lambda>later. Inr (map_option (apfst Suc) later))) = Inr (Some (i, r))"
    by (auto simp: bindR_Inr)
  show ?case
  proof (cases o1)
    case None
    with rest obtain j where "find_compaction H k force items = Inr (Some (j, r))" "i = Suc j" by (auto simp: bindR_Inr)
    with Cons.IH show ?thesis by simp
  qed (use o1 rest in auto)
qed simp

lemma sum_list_update_less:
  fixes f :: "'a \<Rightarrow> nat"
  shows "i < length xs \<Longrightarrow> f y < f (xs ! i) \<Longrightarrow> sum_list (map f (xs[i := y])) < sum_list (map f xs)"
proof (induction xs arbitrary: i)
  case (Cons x xs)
  then show ?case by (cases i) auto
qed simp

function compact_outputs :: "digest \<Rightarrow> recovery_request \<Rightarrow> nat \<Rightarrow> bool \<Rightarrow> recovery \<Rightarrow> recovery res" where
  "compact_outputs H q excerpt_chars force s =
     (if fits s then Inr s
      else bindR (find_compaction H excerpt_chars force (drop (rv_history s) (rv_items s))) (\<lambda>found. case found of
        None \<Rightarrow> Inr s
      | Some (k, replacement) \<Rightarrow>
          bindR (reduce H q s COMPACT_COMPLETED_TOOL_OUTPUT [rv_items s ! (rv_history s + k)] [replacement]
              ((rv_items s)[rv_history s + k := replacement]) (rv_history s))
            (compact_outputs H q excerpt_chars force)))"
  by pat_completeness auto
termination
proof (relation "measure (\<lambda>(H, q, k, f, s). sum_list (map serialized_count (rv_items s)))", goal_cases)
  case (2 H q excerpt_chars force s found kr k replacement t)
  from 2 have f: "k < length (drop (rv_history s) (rv_items s))"
      "compact_tool_output_item H excerpt_chars force (drop (rv_history s) (rv_items s) ! k) = Inr (Some replacement)"
    using find_compaction_some [of H excerpt_chars force "drop (rv_history s) (rv_items s)" k replacement] by auto
  then have "sum_list (map serialized_count ((rv_items s)[rv_history s + k := replacement])) < sum_list (map serialized_count (rv_items s))"
    using compact_smaller [OF f(2)] by (intro sum_list_update_less) (auto simp: nth_drop)
  then show ?case using 2 reduce_fields by fastforce
qed auto

declare compact_outputs.simps [simp del]

definition delete_at :: "nat list \<Rightarrow> 'a list \<Rightarrow> 'a list" where
  "delete_at indices xs = fold (\<lambda>i ys. take i ys @ drop (Suc i) ys) (rev indices) xs"

definition next_exchange :: "recovery \<Rightarrow> nat list option" where
  "next_exchange s = map_option (\<lambda>(i, j). sorted_set [i, j])
     (case oldest_evidence_tool_exchange (rv_items s) (rv_history s) 2 of
        None \<Rightarrow> oldest_evidence_tool_exchange (rv_items s) (rv_history s) 0 | Some c \<Rightarrow> Some c)"

lemma exchange_in_range:
  assumes "(i, j) \<in> set (exchange_candidates items n)"
  shows "n \<le> i \<and> i < length items \<and> n \<le> j \<and> j < length items \<and> is_tool_call (items ! i) \<and> droppable_output (items ! j) \<and>
    call_id_of (items ! j) = call_id_of (items ! i)"
proof -
  have outs: "dict_get (fold (\<lambda>i d. if droppable_output (items ! i) then dict_set (call_id_of (items ! i)) i d else d) is d) c = Some j \<Longrightarrow>
      dict_get d c = Some j \<or> (j \<in> set is \<and> droppable_output (items ! j) \<and> call_id_of (items ! j) = c)" for "is" d c j
    by (induction "is" arbitrary: d) (force split: if_splits)+
  from assms have i: "n \<le> i" "i < length items" "is_tool_call (items ! i)"
    and j: "dict_get (droppable_outputs items n) (call_id_of (items ! i)) = Some j"
    by (auto simp: exchange_candidates_def Let_def split: if_splits option.splits)
  from outs [OF j [unfolded droppable_outputs_def]] i show ?thesis by auto
qed

lemma oldest_exchange_some: "oldest_evidence_tool_exchange items n k = Some c \<Longrightarrow> c \<in> set (exchange_candidates items n)"
  by (cases "exchange_candidates items n") (auto simp: oldest_evidence_tool_exchange_def split: if_splits)

lemma next_exchange_some:
  assumes "next_exchange s = Some indices"
  obtains i j where "indices = sorted_set [i, j]" and "i \<noteq> j" and "(i, j) \<in> set (exchange_candidates (rv_items s) (rv_history s))"
proof -
  from assms obtain i j where ij: "indices = sorted_set [i, j]" "(i, j) \<in> set (exchange_candidates (rv_items s) (rv_history s))"
    by (auto simp: next_exchange_def split: option.splits dest: oldest_exchange_some)
  from exchange_in_range [OF ij(2)] have "i \<noteq> j"
    by (auto simp: is_tool_call_def droppable_output_def is_tool_output_def)
  with ij that show thesis by blast
qed

lemma delete_at_shorter:
  assumes "sorted indices" and "indices \<noteq> []" and "\<And>i. i \<in> set indices \<Longrightarrow> i < length xs"
  shows "length (delete_at indices xs) < length xs"
proof -
  have one: "length (take i ys @ drop (Suc i) ys) \<le> length ys" for i and ys :: "'a list" by simp
  have many: "length (fold (\<lambda>i ys. take i ys @ drop (Suc i) ys) ks ys) \<le> length ys" for ks and ys :: "'a list"
    by (induction ks arbitrary: ys) (auto intro: order_trans [OF _ one])
  obtain k ks where k: "rev indices = k # ks" using assms(2) by (cases "rev indices") auto
  then have "k < length xs" using assms(3) by (metis list.set_intros(1) set_rev)
  then have "length (take k xs @ drop (Suc k) xs) < length xs" by simp
  then show ?thesis unfolding delete_at_def k using many [of ks "take k xs @ drop (Suc k) xs"] by simp
qed

function drop_exchanges :: "digest \<Rightarrow> recovery_request \<Rightarrow> recovery \<Rightarrow> recovery res" where
  "drop_exchanges H q s =
     (if fits s then Inr s
      else case next_exchange s of None \<Rightarrow> Inr s | Some indices \<Rightarrow>
        bindR (reduce H q s DROP_OLDEST_EVIDENCE_TOOL_EXCHANGE (map ((!) (rv_items s)) indices) [] (delete_at indices (rv_items s)) (rv_history s))
          (drop_exchanges H q))"
  by pat_completeness auto
termination
proof (relation "measure (\<lambda>(H, q, s). length (rv_items s))", goal_cases)
  case (2 H q s indices t)
  from 2(2) obtain i j where ij: "indices = sorted_set [i, j]" "(i, j) \<in> set (exchange_candidates (rv_items s) (rv_history s))"
    by (rule next_exchange_some)
  have "indices \<noteq> []" unfolding ij(1) by (simp add: sorted_set_def split: if_splits)
  then have "length (delete_at indices (rv_items s)) < length (rv_items s)"
    using exchange_in_range [OF ij(2)] by (intro delete_at_shorter) (auto simp: ij(1))
  moreover have "rv_items t = delete_at indices (rv_items s)" using 2(3) by (simp add: reduce_fields)
  ultimately show ?case by simp
qed auto

declare drop_exchanges.simps [simp del]

definition recover_context_request ::
    "digest \<Rightarrow> string \<Rightarrow> json list \<Rightarrow> json list \<Rightarrow> int \<Rightarrow> int \<Rightarrow> int \<Rightarrow> int \<Rightarrow> int \<Rightarrow> recovery res" where
  "recover_context_request H instructions items tools history_item_count configured runtime reserved margin =
     (if \<not> (0 \<le> history_item_count \<and> history_item_count \<le> int (length items))
        then Inl (ValueError ''history_item_count must identify a leading input projection'')
      else let n = nat history_item_count;
               q = \<lparr>cq_instructions = instructions, cq_tools = tools, cq_configured = configured, cq_runtime = runtime,
                    cq_reserved = reserved, cq_margin = margin, cq_initial_history = n\<rparr>
        in bindR (build_report H q items n []) (\<lambda>report.
           bindR (drop_history H q \<lparr>rv_items = items, rv_history = n, rv_steps = [], rv_report = report\<rparr>) (\<lambda>s.
           bindR (compact_outputs H q MAX_TOOL_OUTPUT_EXCERPT_CHARS False s) (\<lambda>s.
           bindR (compact_outputs H q MINIMAL_TOOL_OUTPUT_EXCERPT_CHARS True s) (drop_exchanges H q)))))"

definition format_context_budget_error :: "budget_report \<Rightarrow> string" where
  "format_context_budget_error r = INSUFFICIENT_CONTEXT_BUDGET @ '': estimated_input='' @ int_str (cb_estimated_input_tokens r) @
     '', effective_input_budget='' @ int_str (cb_effective_input_budget_tokens r) @ '', overage='' @ int_str (cb_overage_tokens r) @
     ''; configured_input='' @ int_str (cb_configured_input_budget_tokens r) @ '', runtime_context='' @
     (if cb_runtime_context_tokens r \<noteq> 0 then int_str (cb_runtime_context_tokens r) else ''unknown'') @
     '', reserved_output='' @ int_str (cb_reserved_output_tokens r) @ '', safety_margin='' @ int_str (cb_safety_margin_tokens r) @
     ''; instructions='' @ int_str (cb_instructions_tokens r) @ '', tools='' @ int_str (cb_tools_tokens r) @
     '', history='' @ int_str (cb_history_tokens r) @ '', active_input='' @ int_str (cb_active_input_tokens r) @
     '', compacted_tool_outputs='' @ int_str (cb_compacted_tool_output_count r) @
     '', dropped_tool_exchanges='' @ int_str (cb_dropped_tool_exchange_count r) @ ''; report_signature='' @ cb_signature r"

section \<open>Every reduction shrinks the request\<close>

lemma length_join: "length (join sep xs) = sum_list (map length xs) + length sep * (length xs - 1)"
  by (induction sep xs rule: join.induct) auto

definition list_length :: "json list \<Rightarrow> nat" where
  "list_length vs = length (join '', '' (map (dumps '', '' '': '') vs))"

lemma list_length_eq: "list_length vs = sum_list (map serialized_count vs) + 2 * (length vs - 1)"
  by (simp add: list_length_def length_join serialized_count_def [abs_def] default_json_def comp_def)

lemma request_length:
  "length (default_json (request_json q items)) = list_length items + length (default_json (request_json q [])) "
  by (simp add: default_json_def request_json_def list_length_def)

lemma tokens_mono: "list_length items' \<le> list_length items \<Longrightarrow>
    estimate_tokens (request_json q items') \<le> estimate_tokens (request_json q items)"
  by (simp add: estimate_tokens_def request_length [of q items'] request_length [of q items] max_def)
     (auto intro: zdiv_mono1)

lemma list_length_drop: "list_length (drop k vs) \<le> list_length vs"
proof -
  have "sum_list (map f (drop k vs)) \<le> sum_list (map f vs)" for f :: "json \<Rightarrow> nat"
    by (metis append_take_drop_id le_add2 map_append sum_list_append)
  then show ?thesis by (simp add: list_length_eq add_mono diff_le_mono)
qed

lemma list_length_update: "i < length vs \<Longrightarrow> serialized_count v < serialized_count (vs ! i) \<Longrightarrow> list_length (vs[i := v]) \<le> list_length vs"
  using sum_list_update_less [of i vs serialized_count v] by (simp add: list_length_eq)

lemma list_length_delete_one: "list_length (take i vs @ drop (Suc i) vs) \<le> list_length vs"
proof (cases "i < length vs")
  case True
  then have "vs = take i vs @ vs ! i # drop (Suc i) vs" by (rule id_take_nth_drop)
  then have "sum_list (map f vs) = sum_list (map f (take i vs)) + f (vs ! i) + sum_list (map f (drop (Suc i) vs))" for f :: "json \<Rightarrow> nat"
    by (metis add.assoc list.simps(9) map_append sum_list.Cons sum_list_append)
  with True show ?thesis by (simp add: list_length_eq)
qed simp

lemma list_length_delete: "list_length (delete_at indices vs) \<le> list_length vs"
proof -
  have "list_length (fold (\<lambda>i ys. take i ys @ drop (Suc i) ys) ks vs) \<le> list_length vs" for ks
    by (induction ks arbitrary: vs) (auto intro: order_trans [OF _ list_length_delete_one])
  then show ?thesis by (simp add: delete_at_def)
qed

section \<open>Reports and steps never fail\<close>

definition steps_ok :: "reduction_step list \<Rightarrow> bool" where
  "steps_ok steps = list_all (\<lambda>s. 1 \<le> ct_affected_item_count s) steps"

definition budget_of :: "recovery_request \<Rightarrow> int" where
  "budget_of q = effective_input_budget (cq_configured q) (cq_runtime q) (cq_reserved q) (cq_margin q)"

lemma estimate_positive: "1 \<le> estimate_tokens v"
  by (simp add: estimate_tokens_def)

lemma list_tokens_nonneg: "0 \<le> list_tokens vs"
  using estimate_positive [of "JList vs"] by (simp add: list_tokens_def)

lemma budget_nonneg: "0 \<le> budget_of q"
  by (simp add: budget_of_def effective_input_budget_def Let_def)

lemma compacted_count_nonneg:
  "steps_ok steps \<Longrightarrow> 0 \<le> sum_list (map ct_affected_item_count (filter (\<lambda>s. ct_kind s = COMPACT_COMPLETED_TOOL_OUTPUT) steps))"
  by (rule sum_list_nonneg) (auto simp: steps_ok_def list_all_iff)

lemma report_total:
  assumes "steps_ok steps"
  obtains r where "build_report H q items n steps = Inr r"
    and "cb_estimated_input_tokens r = estimate_tokens (request_json q items)"
    and "cb_verdict r = (if estimate_tokens (request_json q items) \<le> budget_of q then FIT else INSUFFICIENT_CONTEXT_BUDGET)"
proof -
  note nonneg = compacted_count_nonneg [OF assms] budget_nonneg [unfolded budget_of_def] list_tokens_nonneg
  have est: "0 \<le> estimate_tokens v" for v using estimate_positive [of v] by simp
  have zero: "max 0 (x - y) = 0 \<longleftrightarrow> x \<le> y" for x y :: int by auto
  let ?e = "estimate_tokens (request_json q items)" and ?b = "budget_of q"
  have "\<exists>r. build_report H q items n steps = Inr r \<and> cb_estimated_input_tokens r = ?e \<and>
      cb_verdict r = (if ?e \<le> ?b then FIT else INSUFFICIENT_CONTEXT_BUDGET)"
    by (simp add: build_report_def Let_def report_post_init_def report_numbers_def nonneg est zero budget_of_def not_less)
  then show thesis using that by blast
qed

section \<open>The loops\<close>

text \<open>What holds of every state of a recovery.\<close>

definition consistent :: "digest \<Rightarrow> recovery_request \<Rightarrow> recovery \<Rightarrow> bool" where
  "consistent H q s \<longleftrightarrow> rv_history s \<le> length (rv_items s) \<and> steps_ok (rv_steps s) \<and>
     build_report H q (rv_items s) (rv_history s) (rv_steps s) = Inr (rv_report s)"

lemma consistent_report:
  assumes "consistent H q s"
  shows "cb_estimated_input_tokens (rv_report s) = estimate_tokens (request_json q (rv_items s))"
    and "fits s \<longleftrightarrow> estimate_tokens (request_json q (rv_items s)) \<le> budget_of q"
proof -
  have ok: "steps_ok (rv_steps s)" and b: "build_report H q (rv_items s) (rv_history s) (rv_steps s) = Inr (rv_report s)"
    using assms by (simp_all add: consistent_def)
  obtain r where "build_report H q (rv_items s) (rv_history s) (rv_steps s) = Inr r"
    and e: "cb_estimated_input_tokens r = estimate_tokens (request_json q (rv_items s))"
    and v: "cb_verdict r = (if estimate_tokens (request_json q (rv_items s)) \<le> budget_of q then FIT else INSUFFICIENT_CONTEXT_BUDGET)"
    by (rule report_total [OF ok])
  with b have r: "rv_report s = r" by simp
  show "cb_estimated_input_tokens (rv_report s) = estimate_tokens (request_json q (rv_items s))" using e r by simp
  show "fits s \<longleftrightarrow> estimate_tokens (request_json q (rv_items s)) \<le> budget_of q"
    using v r by (simp add: fits_def FIT_def INSUFFICIENT_CONTEXT_BUDGET_def)
qed

definition well_formed_reduction :: "reduction_kind \<Rightarrow> json list \<Rightarrow> json list \<Rightarrow> bool" where
  "well_formed_reduction kind removed replacements = (removed \<noteq> [] \<and>
     (if kind = COMPACT_COMPLETED_TOOL_OUTPUT then length replacements = length removed else replacements = []))"

lemma reduce_total:
  assumes "consistent H q s" and "well_formed_reduction kind removed replacements"
    and "list_length items \<le> list_length (rv_items s)" and "n \<le> length items"
  obtains t where "reduce H q s kind removed replacements items n = Inr t" and "consistent H q t"
    and "rv_items t = items" and "rv_history t = n"
proof -
  have ok: "steps_ok (rv_steps s)" using assms(1) by (simp add: consistent_def)
  obtain p where p: "build_report H q items n (rv_steps s) = Inr p"
    "cb_estimated_input_tokens p = estimate_tokens (request_json q items)"
    by (rule report_total [OF ok])
  let ?step = "\<lparr>ct_schema_version = 1, ct_kind = kind, ct_affected_item_count = int (length removed),
     ct_original_item_signatures = map (stable_hash H) removed, ct_replacement_item_signatures = map (stable_hash H) replacements,
     ct_tokens_before = cb_estimated_input_tokens (rv_report s), ct_tokens_after = cb_estimated_input_tokens p, ct_signature = []\<rparr>"
  have tokens: "0 \<le> ct_tokens_before ?step \<and> 0 \<le> ct_tokens_after ?step \<and> ct_tokens_after ?step \<le> ct_tokens_before ?step"
    using tokens_mono [OF assms(3)] estimate_positive [of "request_json q items"] estimate_positive [of "request_json q (rv_items s)"]
    by (simp add: consistent_report(1) [OF assms(1)] p(2))
  have step: "reduction_post_init H ?step = Inr (?step\<lparr>ct_signature := stable_hash H (step_material ?step)\<rparr>)" (is "_ = Inr ?signed")
    using assms(2) tokens by (cases kind) (simp_all add: reduction_post_init_def well_formed_reduction_def Suc_le_eq not_less)
  have ok': "steps_ok (rv_steps s @ [?signed])"
    using ok assms(2) by (simp add: steps_ok_def well_formed_reduction_def Suc_le_eq)
  obtain r where r: "build_report H q items n (rv_steps s @ [?signed]) = Inr r" by (rule report_total [OF ok'])
  let ?t = "\<lparr>rv_items = items, rv_history = n, rv_steps = rv_steps s @ [?signed], rv_report = r\<rparr>"
  have "reduce H q s kind removed replacements items n = Inr ?t"
    unfolding reduce_def p(1) bindR_simps step r ..
  moreover have "consistent H q ?t" using assms(4) ok' r by (simp add: consistent_def)
  ultimately show thesis using that [of ?t] by simp
qed

subsection \<open>Dropping history\<close>

lemma drop_history_result:
  "consistent H q s \<Longrightarrow> \<exists>t k. drop_history H q s = Inr t \<and> consistent H q t \<and> k \<le> rv_history s \<and>
     rv_items t = drop k (rv_items s) \<and> rv_history t = rv_history s - k \<and> (fits t \<or> rv_history t = 0) \<and> (fits s \<longrightarrow> t = s)"
proof (induction H q s rule: drop_history.induct)
  case (1 H q s)
  show ?case
  proof (cases "fits s \<or> rv_history s = 0 \<or> rv_items s = []")
    case True
    then have "drop_history H q s = Inr s" by (simp add: drop_history.simps [of H q s])
    moreover have "fits s \<or> rv_history s = 0" using True 1(2) by (auto simp: consistent_def)
    ultimately show ?thesis using 1(2) by (intro exI [of _ s] exI [of _ 0]) simp
  next
    case False
    let ?n = "oldest_history_turn_size (take (rv_history s) (rv_items s))"
    have n: "1 \<le> ?n" "?n \<le> rv_history s"
      using turn_size_positive [of "take (rv_history s) (rv_items s)"] False 1(2) by (auto simp: consistent_def)
    have h: "rv_history s \<le> length (rv_items s)" using 1(2) by (simp add: consistent_def)
    obtain t where t: "reduce H q s DROP_OLDEST_UNPINNED_TURN (take ?n (rv_items s)) [] (drop ?n (rv_items s)) (rv_history s - ?n) = Inr t"
        "consistent H q t" "rv_items t = drop ?n (rv_items s)" "rv_history t = rv_history s - ?n"
    proof (rule reduce_total [OF 1(2)])
      show "well_formed_reduction DROP_OLDEST_UNPINNED_TURN (take ?n (rv_items s)) []"
        using False n by (simp add: well_formed_reduction_def)
      show "rv_history s - ?n \<le> length (drop ?n (rv_items s))" using h by simp
    qed (rule list_length_drop)
    from 1(1) [OF False refl t(1,2)] obtain u k where u: "drop_history H q t = Inr u" "consistent H q u" "k \<le> rv_history t"
        "rv_items u = drop k (rv_items t)" "rv_history u = rv_history t - k" "fits u \<or> rv_history u = 0" by blast
    have "drop_history H q s = Inr u"
      using False t(1) u(1) by (simp add: drop_history.simps [of H q s] Let_def)
    with u t n False show ?thesis by (intro exI [of _ u] exI [of _ "k + ?n"]) auto
  qed
qed

subsection \<open>Readable outputs\<close>

text \<open>
  Compaction raises exactly where the line numbers of a document or the sizes of a formal
  writing result in a tool output are of the wrong type.
\<close>

definition readable :: "json \<Rightarrow> bool" where
  "readable item = (is_tool_output item \<longrightarrow> (case jstring (jfield item ''output'') of None \<Rightarrow> True | Some output \<Rightarrow>
     was_compacted (loads output) \<or>
     \<not> isl (semantic_artifacts (case loads output of None \<Rightarrow> JNull | Some v \<Rightarrow> v))))"

lemma readable_compacts: "readable item \<Longrightarrow> \<exists>r. compact_tool_output_item H k force item = Inr r"
proof (cases "is_tool_output item \<and> jstring (jfield item ''output'') \<noteq> None")
  case True
  then obtain out where out: "jstring (jfield item ''output'') = Some out" by blast
  assume "readable item"
  with True out have r: "was_compacted (loads out) \<or>
      \<not> isl (semantic_artifacts (case loads out of None \<Rightarrow> JNull | Some v \<Rightarrow> v))" by (simp add: readable_def)
  show ?thesis
  proof (cases "was_compacted (loads out)")
    case True
    with out show ?thesis by (simp add: compact_tool_output_item_def Let_def)
  next
    case False
    with r obtain a where "semantic_artifacts (case loads out of None \<Rightarrow> JNull | Some v \<Rightarrow> v) = Inr a"
      by (auto simp: isl_def split: sum.splits elim: sum.exhaust) (metis sum.exhaust)
    then have "\<exists>p. output_projection H out (loads out) k = Inr p" by (simp add: output_projection_def Let_def)
    with False out show ?thesis by (auto simp: compact_tool_output_item_def Let_def)
  qed
next
  case False
  then show ?thesis by (auto simp: compact_tool_output_item_def)
qed

subsection \<open>What a projection decodes to\<close>

lemma jfield_distinct: "distinct_keys v \<Longrightarrow> jfield v k = Some x \<Longrightarrow> distinct_keys x"
  by (cases v) (auto simp: jfield_def list_all_iff dest!: map_of_SomeD)

lemma field_or_distinct: "distinct_keys v \<Longrightarrow> distinct_keys d \<Longrightarrow> distinct_keys (field_or v k d)"
  by (auto simp: field_or_def dest: jfield_distinct split: option.splits)

lemma submapping_distinct: "distinct_keys v \<Longrightarrow> distinct_keys (submapping v k)"
  by (auto simp: submapping_def dest: jfield_distinct split: option.splits json.splits)

lemma set_field_distinct: "distinct_keys v \<Longrightarrow> distinct_keys x \<Longrightarrow> distinct_keys (set_field k x v)"
  by (cases v) (simp_all add: set_field_def distinct_update dict_set_list_all)

text \<open>Entries picked by key are distinct when the keys are.\<close>

lemma picked_distinct:
  assumes "distinct ks" and "\<And>k. f k = [] \<or> (\<exists>v. f k = [(k, v)] \<and> distinct_keys v)"
  shows "distinct_keys (JObj (concat (map f ks))) \<and> fst ` set (concat (map f ks)) \<subseteq> set ks"
  using assms(1)
proof (induction ks)
  case (Cons k ks)
  define c where "c = concat (map f ks)"
  have split: "concat (map f (k # ks)) = f k @ c" by (simp add: c_def)
  from Cons have "distinct_keys (JObj c)" "fst ` set c \<subseteq> set ks" "k \<notin> set ks" by (simp_all add: c_def)
  with assms(2) [of k] show ?case unfolding split by auto
qed simp

lemma preserved_summary_distinct:
  assumes "distinct_keys v"
  shows "distinct_keys (preserved_summary v)"
proof -
  define c where "c = concat (map (\<lambda>k. case jfield v k of None \<Rightarrow> [] | Some x \<Rightarrow> if x = JNull \<or> x = JStr [] then [] else [(k, x)]) SUMMARY_KEYS)"
  have "distinct_keys (JObj c) \<and> fst ` set c \<subseteq> set SUMMARY_KEYS"
    unfolding c_def
  proof (rule picked_distinct)
    show "distinct SUMMARY_KEYS" by (simp add: SUMMARY_KEYS_def)
  qed (use jfield_distinct [OF assms] in \<open>auto split: option.split\<close>)
  moreover have "''summary_text'' \<notin> set SUMMARY_KEYS" by (simp add: SUMMARY_KEYS_def)
  ultimately show ?thesis
    unfolding preserved_summary_def c_def [symmetric] by (cases "jstring (jfield v ''summary_text'')") auto
qed

lemma preserved_fields_distinct: "distinct_keys (preserved_fields decoded)"
proof (cases decoded)
  case (Some v)
  have "distinct PRESERVED_KEYS" by (simp add: PRESERVED_KEYS_def)
  then have "distinct_keys (JObj (concat (map (\<lambda>k. case jfield v k of Some (JBool b) \<Rightarrow> [(k, JBool b)]
      | Some (JInt i) \<Rightarrow> [(k, JInt i)] | Some (JStr s) \<Rightarrow> [(k, JStr s)] | _ \<Rightarrow> []) PRESERVED_KEYS)))"
    by (rule picked_distinct [THEN conjunct1]) (simp split: option.split json.split)
  then show ?thesis unfolding preserved_fields_def Some option.case .
qed (simp add: preserved_fields_def)

lemma document_outline_distinct:
  "document_outline v = Inr d \<Longrightarrow> distinct_keys (JObj d) \<and> fst ` set d \<subseteq> {''document_outline''}"
  by (auto simp: document_outline_def bindR_Inr split: option.splits if_splits)

lemma formal_writing_distinct:
  assumes "formal_writing v = Inr d" and "distinct_keys v"
  shows "distinct_keys (JObj d) \<and> fst ` set d \<subseteq> {''formal_writing''}"
proof -
  have "distinct_keys (JObj e)" if "jfield v ''formal_writing_result'' = Some (JObj e)" for e
    using jfield_distinct [OF assms(2) that] .
  with assms(1) show ?thesis
    by (auto simp: formal_writing_def bindR_Inr Let_def field_or_distinct submapping_distinct simp del: distinct_keys.simps(2)
        split: option.splits json.splits) (simp_all add: field_or_distinct submapping_distinct)
qed

text \<open>Keys of parts that have different names.\<close>

definition keyed_by :: "string list \<Rightarrow> (string, json) dict \<Rightarrow> bool" where
  "keyed_by names d = (distinct_keys (JObj d) \<and> fst ` set d \<subseteq> set names)"

lemma keyed_by_append:
  "keyed_by names d \<Longrightarrow> keyed_by names2 e \<Longrightarrow> list_all (\<lambda>n. n \<notin> set names2) names \<Longrightarrow> keyed_by (names @ names2) (d @ e)"
  unfolding keyed_by_def list_all_iff by auto

lemma mapping_part_keyed:
  assumes "distinct_keys v" and "\<And>x. distinct_keys x \<Longrightarrow> distinct_keys (f x)"
  shows "keyed_by [name] (mapping_part v k name f)"
  using jfield_distinct [OF assms(1), of k] assms(2)
  by (auto simp: mapping_part_def keyed_by_def split: option.split json.split)

lemma semantic_artifacts_distinct:
  assumes "semantic_artifacts v = Inr a" and "distinct_keys v"
  shows "distinct_keys a"
proof -
  from assms(1) obtain d w where d: "document_outline v = Inr d" and w: "formal_writing v = Inr w"
    and a: "a = JObj (mapping_part v ''summary'' ''document_summary'' preserved_summary @
       mapping_part v ''report'' ''corpus_coverage'' (\<lambda>v. v) @ mapping_part v ''coverage'' ''document_coverage'' (\<lambda>v. v) @ d @ w)"
    unfolding semantic_artifacts_def bindR_Inr sum.inject by (elim exE conjE) (rule that, assumption+, rule sym)
  have "keyed_by [''document_outline''] d" "keyed_by [''formal_writing''] w"
    using document_outline_distinct [OF d] formal_writing_distinct [OF w assms(2)] by (simp_all add: keyed_by_def)
  then have "keyed_by ([''document_summary''] @ [''corpus_coverage''] @ [''document_coverage''] @ [''document_outline''] @ [''formal_writing''])
     (mapping_part v ''summary'' ''document_summary'' preserved_summary @
      mapping_part v ''report'' ''corpus_coverage'' (\<lambda>v. v) @ mapping_part v ''coverage'' ''document_coverage'' (\<lambda>v. v) @ d @ w)"
    by (intro keyed_by_append mapping_part_keyed assms(2) preserved_summary_distinct) simp_all
  then show ?thesis unfolding a keyed_by_def by (rule conjunct1)
qed

lemma output_projection_distinct:
  assumes "output_projection H out decoded k = Inr p" and "\<And>v. decoded = Some v \<Longrightarrow> distinct_keys v"
  shows "distinct_keys p \<and> jfield p ''context_budget_compacted'' = Some (JBool True)"
proof -
  have "distinct_keys (case decoded of None \<Rightarrow> JNull | Some v \<Rightarrow> v)" using assms(2) by (simp split: option.split)
  with assms(1) show ?thesis
    by (auto simp: output_projection_def Let_def bindR_Inr jfield_def projection_level_def list_all_iff
        semantic_artifacts_distinct preserved_fields_distinct)
qed

lemma jfield_norm: "distinct_keys (JObj d) \<Longrightarrow> jfield (norm_json (JObj d)) k = map_option norm_json (jfield (JObj d) k)"
proof -
  assume "distinct_keys (JObj d)"
  then have "distinct (map fst (map (\<lambda>kv. (fst kv, norm_json (snd kv))) d))" by (simp add: comp_def)
  from map_of_sort_key_fst [OF this] show ?thesis
    by (simp add: jfield_def map_of_map [of norm_json d, unfolded comp_def case_prod_unfold] case_prod_unfold)
qed

lemma projection_reads_compacted:
  assumes "distinct_keys p" and "jfield p ''context_budget_compacted'' = Some (JBool True)"
  shows "was_compacted (loads (canonical_json p))"
proof -
  from assms(2) obtain d where p: "p = JObj d" by (cases p) (auto simp: jfield_def)
  have "distinct_keys (norm_json p)" using distinct_keys_norm [OF assms(1)] .
  then have "loads (canonical_json p) = Some (norm_json p)" using canonical_text.loads_dumps by (simp add: canonical_json_def)
  with assms jfield_norm [of d "''context_budget_compacted''"] show ?thesis by (simp add: was_compacted_def p)
qed

lemma set_field_jfield: "jfield v l \<noteq> None \<Longrightarrow> jfield (set_field k x v) j = (if j = k then Some x else jfield v j)"
  by (cases v) (simp_all add: jfield_def set_field_def)

text \<open>A compacted item is the item with another output, and stays compactable without error.\<close>

lemma compact_result:
  assumes "compact_tool_output_item H k force item = Inr (Some r)"
  shows "is_tool_output item \<and> readable r \<and> (\<exists>out. r = set_field ''output'' (JStr out) item)"
proof -
  from assms obtain out where item: "is_tool_output item" "jstring (jfield item ''output'') = Some out"
    by (auto simp: compact_tool_output_item_def split: if_splits option.splits)
  have "\<exists>p. r = set_field ''output'' (JStr (canonical_json p)) item \<and> distinct_keys p \<and>
      jfield p ''context_budget_compacted'' = Some (JBool True)"
  proof (cases "was_compacted (loads out)")
    case True
    then obtain old where old: "loads out = Some old" "jfield old ''context_budget_compacted'' = Some (JBool True)"
      by (auto simp: was_compacted_def split: option.splits)
    let ?p = "set_field ''projection_level'' (projection_level k)
      (set_field ''excerpt'' (JStr (bounded_excerpt (py_str (field_or old ''excerpt'' (JStr []))) k)) old)"
    have "r = set_field ''output'' (JStr (canonical_json ?p)) item"
      using assms item True old by (auto simp: compact_tool_output_item_def smaller_def Let_def split: if_splits)
    moreover have "distinct_keys ?p"
      by (intro set_field_distinct loads_distinct [OF old(1)]) (simp_all add: projection_level_def)
    moreover have "jfield ?p ''context_budget_compacted'' = Some (JBool True)"
      using old(2) set_field_jfield [of old "''context_budget_compacted''" "''excerpt''"]
        set_field_jfield [of "set_field ''excerpt'' (JStr (bounded_excerpt (py_str (field_or old ''excerpt'' (JStr []))) k)) old"
          "''context_budget_compacted''" "''projection_level''"] by simp
    ultimately show ?thesis by blast
  next
    case False
    with assms item obtain p where p: "output_projection H out (loads out) k = Inr p"
      "r = set_field ''output'' (JStr (canonical_json p)) item"
      by (auto simp: compact_tool_output_item_def smaller_def Let_def bindR_Inr split: if_splits)
    with output_projection_distinct [OF p(1)] loads_distinct [of out] show ?thesis by blast
  qed
  then obtain p where p: "r = set_field ''output'' (JStr (canonical_json p)) item" "was_compacted (loads (canonical_json p))"
    using projection_reads_compacted by blast
  have "jfield item ''type'' \<noteq> None" using item(1) by (auto simp: is_tool_output_def)
  then have "jfield r ''output'' = Some (JStr (canonical_json p))" unfolding p(1) by (simp add: set_field_jfield)
  with p(2) have "readable r" by (simp add: readable_def jstring_def)
  with item(1) p(1) show ?thesis by blast
qed

subsection \<open>The compaction loop\<close>

text \<open>An item without the text of its output: what compaction never changes.\<close>

definition mask_output :: "json \<Rightarrow> json" where
  "mask_output item = (if is_tool_output item then set_field ''output'' (JStr []) item else item)"

lemma mask_set_twice: "dict_set k x (dict_set k y d) = dict_set k x d"
  by (induction d) auto

lemma mask_set_output: "is_tool_output item \<Longrightarrow> mask_output (set_field ''output'' v item) = mask_output item"
proof -
  assume t: "is_tool_output item"
  then have "jfield item ''type'' \<noteq> None" by (auto simp: is_tool_output_def)
  with t have "is_tool_output (set_field ''output'' v item)" by (simp add: is_tool_output_def set_field_jfield [of item "''type''"])
  with t show ?thesis by (cases item) (simp_all add: mask_output_def set_field_def mask_set_twice)
qed

lemma find_compaction_total:
  "\<forall>item \<in> set items. readable item \<Longrightarrow> \<exists>found. find_compaction H k force items = Inr found"
proof (induction items)
  case (Cons item items)
  then obtain r found where "compact_tool_output_item H k force item = Inr r" "find_compaction H k force items = Inr found"
    using readable_compacts [of item H k force] by auto
  then show ?case by (cases r) auto
qed simp

lemma find_compaction_none:
  "find_compaction H k force items = Inr None \<longleftrightarrow> (\<forall>item \<in> set items. compact_tool_output_item H k force item = Inr None)"
  by (induction items) (auto simp: bindR_Inr split: option.splits)

lemma compact_outputs_result:
  "consistent H q s \<Longrightarrow> \<forall>item \<in> set (drop (rv_history s) (rv_items s)). readable item \<Longrightarrow>
   \<exists>t. compact_outputs H q k force s = Inr t \<and> consistent H q t \<and> rv_history t = rv_history s \<and>
     map mask_output (rv_items t) = map mask_output (rv_items s) \<and>
     take (rv_history s) (rv_items t) = take (rv_history s) (rv_items s) \<and>
     (\<forall>item \<in> set (drop (rv_history t) (rv_items t)). readable item) \<and>
     (fits t \<or> (\<forall>item \<in> set (drop (rv_history t) (rv_items t)). compact_tool_output_item H k force item = Inr None)) \<and>
     (fits s \<longrightarrow> t = s)"
proof (induction H q k force s rule: compact_outputs.induct)
  case (1 H q k force s)
  let ?n = "rv_history s" and ?active = "drop (rv_history s) (rv_items s)"
  show ?case
  proof (cases "fits s")
    case True
    then have "compact_outputs H q k force s = Inr s" by (simp add: compact_outputs.simps [of H q k force s])
    with 1(2,3) True show ?thesis by (intro exI [of _ s]) simp
  next
    case False
    obtain found where found: "find_compaction H k force ?active = Inr found" using find_compaction_total [OF 1(3)] by blast
    show ?thesis
    proof (cases found)
      case None
      then have "compact_outputs H q k force s = Inr s" using False found by (simp add: compact_outputs.simps [of H q k force s])
      with 1(2,3) found None show ?thesis by (intro exI [of _ s]) (simp add: find_compaction_none)
    next
      case (Some p)
      obtain i r where p: "p = (i, r)" by (cases p)
      note f = find_compaction_some [OF found [unfolded Some p]]
      let ?items = "(rv_items s)[?n + i := r]"
      have i: "?n + i < length (rv_items s)" and nth: "?active ! i = rv_items s ! (?n + i)" using f by (auto simp: nth_drop)
      note c = compact_result [OF conjunct2 [OF f], unfolded nth]
      obtain t where t: "reduce H q s COMPACT_COMPLETED_TOOL_OUTPUT [rv_items s ! (?n + i)] [r] ?items ?n = Inr t"
          "consistent H q t" "rv_items t = ?items" "rv_history t = ?n"
      proof (rule reduce_total [OF 1(2)])
        show "list_length ?items \<le> list_length (rv_items s)"
          using compact_smaller [OF conjunct2 [OF f]] nth by (intro list_length_update [OF i]) simp
        show "?n \<le> length ?items" using 1(2) by (simp add: consistent_def)
        show "well_formed_reduction COMPACT_COMPLETED_TOOL_OUTPUT [rv_items s ! (?n + i)] [r]"
          by (simp add: well_formed_reduction_def)
      qed
      have active: "drop ?n ?items = ?active[i := r]" by (simp add: drop_update_swap)
      have readable: "\<forall>item \<in> set (drop (rv_history t) (rv_items t)). readable item"
        unfolding t(3,4) active using 1(3) c set_update_subset_insert [of ?active i r] by blast
      have mask: "map mask_output ?items = map mask_output (rv_items s)"
      proof -
        from c obtain out where "r = set_field ''output'' (JStr out) (rv_items s ! (?n + i))" by blast
        with c have "mask_output r = map mask_output (rv_items s) ! (?n + i)" using mask_set_output i by simp
        then show ?thesis by (simp add: map_update list_update_same_conv i)
      qed
      from 1(1) [OF False found Some p [symmetric] t(1,2) readable] obtain u where u: "compact_outputs H q k force t = Inr u"
          "consistent H q u" "rv_history u = rv_history t" "map mask_output (rv_items u) = map mask_output (rv_items t)"
          "take (rv_history t) (rv_items u) = take (rv_history t) (rv_items t)"
          "\<forall>item \<in> set (drop (rv_history u) (rv_items u)). readable item"
          "fits u \<or> (\<forall>item \<in> set (drop (rv_history u) (rv_items u)). compact_tool_output_item H k force item = Inr None)"
        by blast
      have "compact_outputs H q k force s = Inr u"
        using False found Some p t(1) u(1) by (simp add: compact_outputs.simps [of H q k force s])
      with u t(3,4) mask False show ?thesis by (intro exI [of _ u]) simp
    qed
  qed
qed

subsection \<open>The exchange loop\<close>

lemma next_exchange_deletes:
  assumes "next_exchange s = Some indices" and "rv_history s \<le> length (rv_items s)"
  obtains i j where "i < j" and "j < length (rv_items s)" and "rv_history s \<le> i" and "indices = [i, j]"
    and "delete_at indices (rv_items s) = take i (rv_items s) @ drop (Suc i) (take j (rv_items s)) @ drop (Suc j) (rv_items s)"
    and "{rv_items s ! i, rv_items s ! j} \<subseteq> {x. is_tool_call x \<or> is_tool_output x}"
    and "is_tool_call (rv_items s ! i) \<and> is_tool_output (rv_items s ! j) \<or> is_tool_call (rv_items s ! j) \<and> is_tool_output (rv_items s ! i)"
    and "call_id_of (rv_items s ! i) = call_id_of (rv_items s ! j)"
proof -
  from assms(1) obtain a b where ab: "indices = sorted_set [a, b]" "a \<noteq> b"
    and c: "(a, b) \<in> set (exchange_candidates (rv_items s) (rv_history s))" by (rule next_exchange_some)
  note range = exchange_in_range [OF c]
  have out: "is_tool_output (rv_items s ! b)" using range by (simp add: droppable_output_def)
  define i j where "i = min a b" and "j = max a b"
  have ij: "i < j" "j < length (rv_items s)" "rv_history s \<le> i" using ab(2) range by (auto simp: i_def j_def min_def max_def)
  have ind: "indices = [i, j]" using ab by (auto simp: i_def j_def sorted_set_def min_def max_def)
  have del: "delete_at indices (rv_items s) = take i (rv_items s) @ drop (Suc i) (take j (rv_items s)) @ drop (Suc j) (rv_items s)"
    using ij by (simp add: ind delete_at_def drop_take)
  show thesis
    using range out by (intro that [OF ij ind del]) (auto simp: i_def j_def min_def max_def)
qed

text \<open>Items of the active input that are neither tool calls nor tool outputs, and the identities of those that are.\<close>

definition plain_item :: "json \<Rightarrow> bool" where
  "plain_item item = (\<not> is_tool_call item \<and> \<not> is_tool_output item)"

definition call_ids :: "json list \<Rightarrow> string list" where
  "call_ids items = map call_id_of (filter is_tool_call items)"

definition output_ids :: "json list \<Rightarrow> string list" where
  "output_ids items = map call_id_of (filter is_tool_output items)"

text \<open>Every tool output answers a call, and no identity is used twice.\<close>

definition paired :: "json list \<Rightarrow> bool" where
  "paired items = (distinct (call_ids items) \<and> distinct (output_ids items) \<and> set (output_ids items) \<subseteq> set (call_ids items))"

lemma split_active:
  assumes "i < j" "j < length xs" "n \<le> i"
  shows "drop n xs = drop n (take i xs) @ xs ! i # drop (Suc i) (take j xs) @ xs ! j # drop (Suc j) xs"
    and "drop n (take i xs @ drop (Suc i) (take j xs) @ drop (Suc j) xs) = drop n (take i xs) @ drop (Suc i) (take j xs) @ drop (Suc j) xs"
    and "take n (take i xs @ drop (Suc i) (take j xs) @ drop (Suc j) xs) = take n xs"
proof -
  have "xs = take i xs @ xs ! i # drop (Suc i) (take j xs) @ xs ! j # drop (Suc j) xs"
  proof -
    have "take j xs = take i (take j xs) @ take j xs ! i # drop (Suc i) (take j xs)"
      using assms by (intro id_take_nth_drop) simp
    moreover have "xs = take j xs @ xs ! j # drop (Suc j) xs" using assms(2) by (rule id_take_nth_drop)
    ultimately show ?thesis using assms by (metis append.assoc append_Cons min.absorb1 nth_take order_less_imp_le take_take)
  qed
  then have "drop n xs = drop n (take i xs @ xs ! i # drop (Suc i) (take j xs) @ xs ! j # drop (Suc j) xs)" by simp
  then show "drop n xs = drop n (take i xs) @ xs ! i # drop (Suc i) (take j xs) @ xs ! j # drop (Suc j) xs"
    using assms by simp
qed (use assms in \<open>simp_all add: take_append min_def\<close>)

lemma ids_append [simp]:
  "call_ids (xs @ ys) = call_ids xs @ call_ids ys" "output_ids (xs @ ys) = output_ids xs @ output_ids ys"
  by (simp_all add: call_ids_def output_ids_def)

lemma ids_Cons:
  "is_tool_call x \<Longrightarrow> call_ids (x # xs) = call_id_of x # call_ids xs \<and> output_ids (x # xs) = output_ids xs"
  "is_tool_output x \<Longrightarrow> output_ids (x # xs) = call_id_of x # output_ids xs \<and> call_ids (x # xs) = call_ids xs"
  by (auto simp: call_ids_def output_ids_def is_tool_call_def is_tool_output_def)

lemma remove_common:
  assumes "distinct (A @ c # B)" "distinct (P @ c # Q)" "set (P @ c # Q) \<subseteq> set (A @ c # B)"
  shows "distinct (A @ B) \<and> distinct (P @ Q) \<and> set (P @ Q) \<subseteq> set (A @ B)"
  using assms by auto

lemma paired_delete:
  assumes "paired (as @ x # bs @ y # cs)" and "call_id_of x = call_id_of y"
    and "is_tool_call x \<and> is_tool_output y \<or> is_tool_call y \<and> is_tool_output x"
  shows "paired (as @ bs @ cs)"
  using assms(3)
proof (elim disjE conjE)
  assume "is_tool_call x" "is_tool_output y"
  with assms(1,2) show ?thesis
    using remove_common [of "call_ids as" "call_id_of x" "call_ids bs @ call_ids cs" "output_ids as @ output_ids bs" "output_ids cs"]
    unfolding paired_def ids_append append_assoc by (simp only: ids_Cons ids_append append_assoc append_Cons simp_thms)
next
  assume "is_tool_call y" "is_tool_output x"
  with assms(1,2) show ?thesis
    using remove_common [of "call_ids as @ call_ids bs" "call_id_of x" "call_ids cs" "output_ids as" "output_ids bs @ output_ids cs"]
    unfolding paired_def ids_append append_assoc by (simp only: ids_Cons ids_append append_assoc append_Cons simp_thms)
qed

lemma drop_exchanges_result:
  "consistent H q s \<Longrightarrow>
   \<exists>t. drop_exchanges H q s = Inr t \<and> consistent H q t \<and> rv_history t = rv_history s \<and>
     take (rv_history s) (rv_items t) = take (rv_history s) (rv_items s) \<and>
     filter plain_item (drop (rv_history t) (rv_items t)) = filter plain_item (drop (rv_history s) (rv_items s)) \<and>
     set (drop (rv_history t) (rv_items t)) \<subseteq> set (drop (rv_history s) (rv_items s)) \<and>
     (paired (drop (rv_history s) (rv_items s)) \<longrightarrow> paired (drop (rv_history t) (rv_items t))) \<and>
     (fits t \<or> next_exchange t = None) \<and> (fits s \<longrightarrow> t = s)"
proof (induction H q s rule: drop_exchanges.induct)
  case (1 H q s)
  let ?n = "rv_history s"
  have h: "?n \<le> length (rv_items s)" using 1(2) by (simp add: consistent_def)
  show ?case
  proof (cases "fits s \<or> next_exchange s = None")
    case True
    then have "drop_exchanges H q s = Inr s" by (auto simp: drop_exchanges.simps [of H q s])
    with 1(2) True show ?thesis by (intro exI [of _ s]) simp
  next
    case False
    then obtain indices where ind: "next_exchange s = Some indices" by auto
    let ?items = "delete_at indices (rv_items s)"
    obtain i j where ij: "i < j" "j < length (rv_items s)" "?n \<le> i" "indices = [i, j]"
      and del: "?items = take i (rv_items s) @ drop (Suc i) (take j (rv_items s)) @ drop (Suc j) (rv_items s)"
      and tools: "{rv_items s ! i, rv_items s ! j} \<subseteq> {x. is_tool_call x \<or> is_tool_output x}"
      and ends: "is_tool_call (rv_items s ! i) \<and> is_tool_output (rv_items s ! j) \<or> is_tool_call (rv_items s ! j) \<and> is_tool_output (rv_items s ! i)"
      and ids: "call_id_of (rv_items s ! i) = call_id_of (rv_items s ! j)"
      by (rule next_exchange_deletes [OF ind h])
    note sp = split_active [OF ij(1,2,3), folded del]
    obtain t where t: "reduce H q s DROP_OLDEST_EVIDENCE_TOOL_EXCHANGE (map ((!) (rv_items s)) indices) [] ?items ?n = Inr t"
        "consistent H q t" "rv_items t = ?items" "rv_history t = ?n"
    proof (rule reduce_total [OF 1(2)])
      show "list_length ?items \<le> list_length (rv_items s)" by (rule list_length_delete)
      show "?n \<le> length ?items" using ij unfolding del by simp
      show "well_formed_reduction DROP_OLDEST_EVIDENCE_TOOL_EXCHANGE (map ((!) (rv_items s)) indices) []"
        by (simp add: well_formed_reduction_def ij(4))
    qed
    from False 1(1) [OF _ ind t(1,2)] obtain u where u: "drop_exchanges H q t = Inr u" "consistent H q u"
        "rv_history u = rv_history t" "take (rv_history t) (rv_items u) = take (rv_history t) (rv_items t)"
        "filter plain_item (drop (rv_history u) (rv_items u)) = filter plain_item (drop (rv_history t) (rv_items t))"
        "set (drop (rv_history u) (rv_items u)) \<subseteq> set (drop (rv_history t) (rv_items t))"
        "paired (drop (rv_history t) (rv_items t)) \<longrightarrow> paired (drop (rv_history u) (rv_items u))"
        "fits u \<or> next_exchange u = None" by blast
    have "drop_exchanges H q s = Inr u"
      using False ind t(1) u(1) by (simp add: drop_exchanges.simps [of H q s])
    moreover have "filter plain_item (drop ?n ?items) = filter plain_item (drop ?n (rv_items s))"
      unfolding sp(1,2) using tools by (simp add: plain_item_def)
    moreover have "set (drop ?n ?items) \<subseteq> set (drop ?n (rv_items s))" unfolding sp(1,2) by auto
    moreover have "paired (drop ?n (rv_items s)) \<longrightarrow> paired (drop ?n ?items)"
      unfolding sp(1,2) using paired_delete ids ends by blast
    ultimately show ?thesis using u t(3,4) sp(3) False by (intro exI [of _ u]) auto
  qed
qed

subsection \<open>The whole recovery\<close>

lemma mask_kinds: "is_tool_call (mask_output x) = is_tool_call x" "is_tool_output (mask_output x) = is_tool_output x"
    "call_id_of (mask_output x) = call_id_of x"
  by (cases x; simp add: mask_output_def is_tool_call_def is_tool_output_def call_id_of_def field_or_def jfield_def set_field_def)+

lemma masked_plain:
  assumes "map mask_output xs = map mask_output ys"
  shows "filter plain_item xs = filter plain_item ys"
  using assms
proof (induction xs arbitrary: ys)
  case (Cons x xs)
  then obtain y zs where ys: "ys = y # zs" by (cases ys) auto
  with Cons.prems have xy: "mask_output x = mask_output y" by simp
  then have "plain_item x = plain_item y" unfolding plain_item_def by (metis mask_kinds)
  moreover have "plain_item x \<Longrightarrow> plain_item y \<Longrightarrow> x = y" using xy by (simp add: mask_output_def plain_item_def)
  ultimately show ?case using Cons ys by auto
qed simp

lemma masked_paired:
  assumes "map mask_output xs = map mask_output ys"
  shows "paired xs = paired ys"
proof -
  have "call_ids xs = call_ids (map mask_output xs)" "output_ids xs = output_ids (map mask_output xs)" for xs
    by (induction xs) (simp_all add: call_ids_def output_ids_def mask_kinds)
  with assms show ?thesis unfolding paired_def by metis
qed

text \<open>The state a recovery starts from.\<close>

definition start_request :: "string \<Rightarrow> json list \<Rightarrow> nat \<Rightarrow> int \<Rightarrow> int \<Rightarrow> int \<Rightarrow> int \<Rightarrow> recovery_request" where
  "start_request instructions tools n configured runtime reserved margin =
     \<lparr>cq_instructions = instructions, cq_tools = tools, cq_configured = configured, cq_runtime = runtime,
      cq_reserved = reserved, cq_margin = margin, cq_initial_history = n\<rparr>"

definition irreducible :: "digest \<Rightarrow> recovery \<Rightarrow> bool" where
  "irreducible H t = (rv_history t = 0 \<and> next_exchange t = None \<and>
     (\<forall>item \<in> set (rv_items t). compact_tool_output_item H MINIMAL_TOOL_OUTPUT_EXCERPT_CHARS True item = Inr None))"

lemma recovery_result:
  assumes n: "n \<le> length items" and readable: "\<forall>item \<in> set (drop n items). readable item"
    and q: "q = start_request instructions tools n configured runtime reserved margin"
  shows "\<exists>t k. recover_context_request H instructions items tools (int n) configured runtime reserved margin = Inr t \<and>
    consistent H q t \<and> k \<le> n \<and> rv_history t = n - k \<and> take (n - k) (rv_items t) = drop k (take n items) \<and>
    filter plain_item (drop (n - k) (rv_items t)) = filter plain_item (drop n items) \<and>
    (paired (drop n items) \<longrightarrow> paired (drop (n - k) (rv_items t))) \<and>
    (fits t \<or> irreducible H t) \<and>
    (estimate_tokens (request_json q items) \<le> budget_of q \<longrightarrow> rv_items t = items \<and> rv_history t = n \<and> rv_steps t = [])"
proof -
  obtain r where r: "build_report H q items n [] = Inr r" by (rule report_total [of "[]"]) (simp add: steps_ok_def)
  let ?s0 = "\<lparr>rv_items = items, rv_history = n, rv_steps = [], rv_report = r\<rparr>"
  have s0: "consistent H q ?s0" using n r by (simp add: consistent_def steps_ok_def)
  from drop_history_result [OF s0] obtain s1 k where s1: "drop_history H q ?s0 = Inr s1" "consistent H q s1" "k \<le> n"
    "rv_items s1 = drop k items" "rv_history s1 = n - k" "fits s1 \<or> rv_history s1 = 0" "fits ?s0 \<longrightarrow> s1 = ?s0" unfolding recovery.simps by (elim exE conjE) (rule that)
  have active: "drop (rv_history s1) (rv_items s1) = drop n items" using s1(3-5) by simp
  from compact_outputs_result [OF s1(2), of MAX_TOOL_OUTPUT_EXCERPT_CHARS False] readable active obtain s2 where
    s2: "compact_outputs H q MAX_TOOL_OUTPUT_EXCERPT_CHARS False s1 = Inr s2" "consistent H q s2" "rv_history s2 = rv_history s1"
      "map mask_output (rv_items s2) = map mask_output (rv_items s1)"
      "take (rv_history s1) (rv_items s2) = take (rv_history s1) (rv_items s1)"
      "\<forall>item \<in> set (drop (rv_history s2) (rv_items s2)). readable item" "fits s1 \<longrightarrow> s2 = s1" by metis
  from compact_outputs_result [OF s2(2,6), of MINIMAL_TOOL_OUTPUT_EXCERPT_CHARS True] obtain s3 where
    s3: "compact_outputs H q MINIMAL_TOOL_OUTPUT_EXCERPT_CHARS True s2 = Inr s3" "consistent H q s3" "rv_history s3 = rv_history s2"
      "map mask_output (rv_items s3) = map mask_output (rv_items s2)"
      "take (rv_history s2) (rv_items s3) = take (rv_history s2) (rv_items s2)"
      "fits s3 \<or> (\<forall>item \<in> set (drop (rv_history s3) (rv_items s3)).
         compact_tool_output_item H MINIMAL_TOOL_OUTPUT_EXCERPT_CHARS True item = Inr None)" "fits s2 \<longrightarrow> s3 = s2" by metis
  from drop_exchanges_result [OF s3(2)] obtain t where
    t: "drop_exchanges H q s3 = Inr t" "consistent H q t" "rv_history t = rv_history s3"
      "take (rv_history s3) (rv_items t) = take (rv_history s3) (rv_items s3)"
      "filter plain_item (drop (rv_history t) (rv_items t)) = filter plain_item (drop (rv_history s3) (rv_items s3))"
      "set (drop (rv_history t) (rv_items t)) \<subseteq> set (drop (rv_history s3) (rv_items s3))"
      "paired (drop (rv_history s3) (rv_items s3)) \<longrightarrow> paired (drop (rv_history t) (rv_items t))"
      "fits t \<or> next_exchange t = None" "fits s3 \<longrightarrow> t = s3" by metis
  have masked: "map mask_output (drop (n - k) (rv_items s3)) = map mask_output (drop n items)"
    using s3(4) s2(4) active s1(5) by (metis drop_map)
  have run: "recover_context_request H instructions items tools (int n) configured runtime reserved margin = Inr t"
    using n r s1(1) s2(1) s3(1) t(1) unfolding recover_context_request_def Let_def
    by (simp add: q [unfolded start_request_def, symmetric])
  have front: "take (n - k) (rv_items t) = drop k (take n items)"
    using t(3,4) s3(3,5) s2(3,5) s1(3,4,5) by (simp add: drop_take)
  have finished: "fits t \<or> irreducible H t"
  proof (cases "fits t")
    case False
    then have "\<not> fits s3" "\<not> fits s2" "\<not> fits s1" using t(9) s3(7) s2(7) by auto
    with False s1(5,6) s2(3) s3(3,6) t(3,6,8) show ?thesis by (auto simp: irreducible_def)
  qed simp
  have same: "rv_items t = items \<and> rv_history t = n \<and> rv_steps t = []" if "estimate_tokens (request_json q items) \<le> budget_of q"
  proof -
    have "fits ?s0" using consistent_report(2) [OF s0] that by simp
    with s1(7) s2(7) s3(7) t(9) have "t = ?s0" by auto
    then show ?thesis by simp
  qed
  show ?thesis
  proof (intro exI conjI impI)
    show "rv_history t = n - k" using t(3) s3(3) s2(3) s1(5) by simp
    show "filter plain_item (drop (n - k) (rv_items t)) = filter plain_item (drop n items)"
      using t(3,5) s3(3) s2(3) s1(5) masked_plain [OF masked] by simp
    show "paired (drop (n - k) (rv_items t))" if "paired (drop n items)"
      using that t(3,7) s3(3) s2(3) s1(5) masked_paired [OF masked] by simp
  qed (use run t(2) s1(3) front finished same in simp_all)
qed

section \<open>Properties\<close>



section \<open>Concrete runs\<close>

definition sample_items :: "json list" where
  "sample_items = [JObj [(''role'', JStr ''user''), (''content'', JStr ''hello'')], JObj [(''role'', JStr ''user''), (''content'', JStr ''go'')],
     JObj [(''type'', JStr ''function_call''), (''call_id'', JStr ''c'')],
     JObj [(''type'', JStr ''function_call_output''), (''call_id'', JStr ''c''), (''output'', JStr ''x'')]]"

lemma sample_readable: "list_all readable (drop 1 sample_items)"
proof -
  have "loads ''x'' = None" by code_simp
  then show ?thesis
    by (simp add: sample_items_def readable_def is_tool_output_def jfield_def jstring_def was_compacted_def semantic_artifacts_def
        document_outline_def formal_writing_def)
qed



end
