(* ===== verification/EgcfLifecycle.thy ===== *)
theory EgcfLifecycle
  imports Prelude
begin

text \<open>
  The life cycle of a governed command (\<open>ourd/egcf/lifecycle.py\<close>): the transition table, the object that
  walks it and keeps its history, and the projection that reports every canonical stage. States are the
  source's strings, so an unknown target is refused by the same lookup. The table is checked once by
  evaluation; the lemmas lift those checks to every run through the locale \<open>life_cycle\<close>.
\<close>

section \<open>The table\<close>

definition TRANSITIONS :: "(string, string list) dict" where
  "TRANSITIONS =
    [(''DISCOVERED'', [''INTERPRETED'', ''REFUSED'']),
     (''INTERPRETED'', [''MODELLED'', ''REFUSED'']),
     (''MODELLED'', [''RESOLVED'', ''REFUSED'']),
     (''RESOLVED'', [''QUALIFIED'', ''REFUSED'']),
     (''QUALIFIED'', [''COMPILED'', ''REFUSED'']),
     (''COMPILED'', [''SIMULATED'', ''AWAITING_APPROVAL'', ''AUTHORIZED'', ''COMPLETED'', ''REFUSED'']),
     (''SIMULATED'', [''AWAITING_APPROVAL'', ''COMPLETED'', ''FAILED'', ''REFUSED'']),
     (''AWAITING_APPROVAL'', [''AUTHORIZED'', ''REFUSED'']),
     (''AUTHORIZED'', [''EXECUTING'', ''REFUSED'']),
     (''EXECUTING'', [''VERIFYING'', ''FAILED'', ''ROLLED_BACK'', ''PARTIALLY_COMPENSATED'']),
     (''VERIFYING'', [''COMPLETED'', ''FAILED'', ''ROLLED_BACK'', ''PARTIALLY_COMPENSATED''])]"

definition TERMINAL :: "string list" where
  "TERMINAL = [''COMPLETED'', ''REFUSED'', ''FAILED'', ''ROLLED_BACK'', ''PARTIALLY_COMPENSATED'', ''SUPERSEDED'']"

definition CANONICAL_STAGES :: "string list" where
  "CANONICAL_STAGES = [''DISCOVERED'', ''INTERPRETED'', ''MODELLED'', ''RESOLVED'', ''QUALIFIED'', ''COMPILED'',
     ''SIMULATED'', ''AWAITING_APPROVAL'', ''AUTHORIZED'', ''EXECUTING'', ''VERIFYING'', ''COMPLETED'']"

section \<open>The object\<close>

record lifecycle =
  lc_state :: string
  lc_history :: "string list"

definition new_lifecycle :: "string \<Rightarrow> lifecycle res" where
  "new_lifecycle initial =
     (if dict_get TRANSITIONS initial = None \<and> initial \<notin> set TERMINAL then Inl (EGCFError ''unknown lifecycle state'')
      else Inr \<lparr> lc_state = initial, lc_history = [initial] \<rparr>)"

definition allowed_targets :: "string \<Rightarrow> string list" where
  "allowed_targets s = dict_getd TRANSITIONS s []"

definition transition :: "string \<Rightarrow> lifecycle \<Rightarrow> lifecycle res" where
  "transition target lc =
     (if target \<notin> set (allowed_targets (lc_state lc)) then Inl (EGCFError ''illegal lifecycle transition'')
      else Inr \<lparr> lc_state = target, lc_history = lc_history lc @ [target] \<rparr>)"

text \<open>\<open>compress\<close> stops at the first refused stage and keeps the stages already walked.\<close>

primrec compress :: "string list \<Rightarrow> lifecycle \<Rightarrow> lifecycle \<times> string list res" where
  "compress [] lc = (lc, Inr (lc_history lc))"
| "compress (stage # stages) lc = (case transition stage lc of
     Inl e \<Rightarrow> (lc, Inl e)
   | Inr lc' \<Rightarrow> compress stages lc')"

record stage_entry =
  se_stage :: string
  se_status :: string
  se_reason :: string

definition stage_report :: "lifecycle \<Rightarrow> string \<Rightarrow> stage_entry" where
  "stage_report lc stage =
     (let terminal = (lc_state lc \<in> set TERMINAL)
      in if stage \<in> set (lc_history lc)
         then \<lparr> se_stage = stage, se_status = (if stage \<noteq> lc_state lc \<or> terminal then ''completed'' else ''current''), se_reason = [] \<rparr>
         else if terminal
         then \<lparr> se_stage = stage, se_status = ''not_required'', se_reason = ''not traversed for terminal outcome '' @ lc_state lc \<rparr>
         else \<lparr> se_stage = stage, se_status = ''blocked'', se_reason = ''awaiting completion of '' @ lc_state lc \<rparr>)"

definition lifecycle_projection :: "lifecycle \<Rightarrow> stage_entry list" where
  "lifecycle_projection lc = map (stage_report lc) CANONICAL_STAGES @
     map (\<lambda>s. \<lparr> se_stage = s, se_status = (if lc_state lc \<in> set TERMINAL then ''completed'' else ''current''),
                se_reason = ''terminal or control state'' \<rparr>)
       (filter (\<lambda>s. s \<notin> set CANONICAL_STAGES) (lc_history lc))"

section \<open>Steps and ranks\<close>

definition lc_step :: "lifecycle \<Rightarrow> lifecycle \<Rightarrow> bool" where
  "lc_step a b = (\<exists>target. transition target a = Inr b)"

text \<open>The place of a state in the order of the table; the terminal states share the last one.\<close>

definition stage_rank :: "string \<Rightarrow> nat" where
  "stage_rank s = (if s \<in> set TERMINAL then 11 else length (takeWhile (\<lambda>t. t \<noteq> s) CANONICAL_STAGES))"

lemma table_row: "list_all (\<lambda>(s, ts). P s ts) TRANSITIONS \<Longrightarrow> dict_get TRANSITIONS s = Some ts \<Longrightarrow> P s ts"
  by (auto simp: list_all_iff dest!: map_of_SomeD)

lemma allowed_row: "t \<in> set (allowed_targets s) \<Longrightarrow> \<exists>ts. dict_get TRANSITIONS s = Some ts \<and> t \<in> set ts"
  by (cases "dict_get TRANSITIONS s") (auto simp: allowed_targets_def dict_getd_def)

lemma table_edge:
  assumes "list_all (\<lambda>(s, ts). list_all (P s) ts) TRANSITIONS" and "t \<in> set (allowed_targets s)"
  shows "P s t"
  using allowed_row [OF assms(2)] table_row [of "\<lambda>s ts. list_all (P s) ts", OF assms(1)] by (auto simp: list_all_iff)

lemma table_climbs: "t \<in> set (allowed_targets s) \<Longrightarrow> stage_rank s < stage_rank t"
  by (rule table_edge [of "\<lambda>s t. stage_rank s < stage_rank t"]) code_simp

definition known_state :: "string \<Rightarrow> bool" where
  "known_state s = (dict_get TRANSITIONS s \<noteq> None \<or> s \<in> set TERMINAL)"

lemma table_known: "t \<in> set (allowed_targets s) \<Longrightarrow> known_state t"
  by (rule table_edge [of "\<lambda>s t. known_state t"]) code_simp

lemma rank_bound: "known_state s \<Longrightarrow> stage_rank s \<le> 11"
proof -
  have "list_all (\<lambda>(s, ts). stage_rank s \<le> 11) TRANSITIONS" by code_simp
  moreover have "s \<in> set TERMINAL \<Longrightarrow> stage_rank s \<le> 11" by (simp add: stage_rank_def)
  ultimately show "known_state s \<Longrightarrow> stage_rank s \<le> 11"
    by (auto simp: known_state_def dest: table_row)
qed

lemma terminal_no_targets: "s \<in> set TERMINAL \<Longrightarrow> allowed_targets s = []"
proof -
  have "list_all (\<lambda>s. allowed_targets s = []) TERMINAL" by code_simp
  then show "s \<in> set TERMINAL \<Longrightarrow> allowed_targets s = []" by (simp add: list_all_iff)
qed

text \<open>No dead ends: every state of the table has a transition into a terminal state.\<close>

lemma live_targets: "dict_get TRANSITIONS s \<noteq> None \<Longrightarrow> \<exists>t. t \<in> set (allowed_targets s) \<and> t \<in> set TERMINAL"
proof -
  have "list_all (\<lambda>(s, ts). list_ex (\<lambda>t. t \<in> set TERMINAL) ts) TRANSITIONS" by code_simp
  from table_row [OF this] show "dict_get TRANSITIONS s \<noteq> None \<Longrightarrow> \<exists>t. t \<in> set (allowed_targets s) \<and> t \<in> set TERMINAL"
    by (fastforce simp: allowed_targets_def dict_getd_def list_ex_iff)
qed

section \<open>Runs\<close>

definition walks :: "string list \<Rightarrow> bool" where
  "walks h = (h \<noteq> [] \<and> (\<forall>i. Suc i < length h \<longrightarrow> h ! Suc i \<in> set (allowed_targets (h ! i))))"

definition lifecycle_ok :: "lifecycle \<Rightarrow> bool" where
  "lifecycle_ok lc = (walks (lc_history lc) \<and> last (lc_history lc) = lc_state lc \<and> known_state (lc_state lc))"

lemma transition_Inr:
  "transition t lc = Inr lc' \<longleftrightarrow> t \<in> set (allowed_targets (lc_state lc)) \<and> lc' = \<lparr> lc_state = t, lc_history = lc_history lc @ [t] \<rparr>"
  by (auto simp: transition_def)

lemma walks_snoc: "walks h \<Longrightarrow> t \<in> set (allowed_targets (last h)) \<Longrightarrow> walks (h @ [t])"
proof -
  assume h: "walks h" and t: "t \<in> set (allowed_targets (last h))"
  have "(h @ [t]) ! Suc i \<in> set (allowed_targets ((h @ [t]) ! i))" if "Suc i < length (h @ [t])" for i
  proof (cases "Suc i < length h")
    case True
    with h show ?thesis by (simp add: walks_def nth_append)
  next
    case False
    with that have "i = length h - 1" "Suc i = length h" by simp_all
    with h t show ?thesis by (simp add: walks_def nth_append last_conv_nth)
  qed
  with h show ?thesis by (simp add: walks_def)
qed

lemma new_ok: "new_lifecycle s = Inr lc \<Longrightarrow> lifecycle_ok lc \<and> lc_history lc = [s]"
  by (auto simp: new_lifecycle_def lifecycle_ok_def walks_def known_state_def split: if_splits)

lemma step_ok: "lifecycle_ok a \<Longrightarrow> lc_step a b \<Longrightarrow> lifecycle_ok b"
  by (auto simp: lc_step_def transition_Inr lifecycle_ok_def intro!: walks_snoc table_known)

lemma step_hd: "lifecycle_ok a \<Longrightarrow> lc_step a b \<Longrightarrow> hd (lc_history b) = hd (lc_history a)"
  by (auto simp: lc_step_def transition_Inr lifecycle_ok_def walks_def)

interpretation command: life_cycle lc_step lifecycle_ok "\<lambda>lc. hd (lc_history lc)" lc_state stage_rank
proof
  fix a b assume "lifecycle_ok a" "lc_step a b"
  then show "lifecycle_ok b" "hd (lc_history b) = hd (lc_history a)"
    and "lc_state b = lc_state a \<or> stage_rank (lc_state a) < stage_rank (lc_state b)"
    by (auto simp: step_ok step_hd lc_step_def transition_Inr intro: table_climbs)
qed

lemma walks_ranks: "walks h \<Longrightarrow> sorted_wrt (<) (map stage_rank h)"
  by (auto simp: sorted_wrt_iff_nth_Suc_transp walks_def intro: table_climbs)

lemma walks_distinct: "walks h \<Longrightarrow> distinct h"
  using strict_sorted_iff [of "map stage_rank h"] walks_ranks [of h] by (simp add: distinct_map)

lemma ranks_above: "sorted_wrt (<) xs \<Longrightarrow> i < length xs \<Longrightarrow> i \<le> xs ! i" for xs :: "nat list"
proof (induction i)
  case (Suc i)
  then have "xs ! i < xs ! Suc i" by (simp add: sorted_wrt_iff_nth_less)
  with Suc show ?case by simp
qed simp

lemma history_short:
  assumes "lifecycle_ok lc"
  shows "length (lc_history lc) \<le> 12"
proof -
  let ?h = "lc_history lc"
  from assms have h: "walks ?h" "?h \<noteq> []" and l: "last ?h = lc_state lc" "known_state (lc_state lc)"
    by (auto simp: lifecycle_ok_def walks_def)
  have "length ?h - 1 \<le> map stage_rank ?h ! (length ?h - 1)"
    by (rule ranks_above [OF walks_ranks [OF h(1)]]) (use h(2) in simp)
  also have "\<dots> = stage_rank (lc_state lc)" using h(2) l(1) by (simp add: last_conv_nth)
  also have "\<dots> \<le> 11" by (rule rank_bound [OF l(2)])
  finally show ?thesis by simp
qed

text \<open>A state behind a gate is reached only through the gate.\<close>

lemma gate:
  assumes "list_all (\<lambda>(s, ts). list_all (\<lambda>t. t \<in> set beyond \<longrightarrow> s \<in> set beyond \<or> s = g) ts) TRANSITIONS"
    and "walks h" and "hd h \<notin> set beyond" and "t \<in> set beyond" and "i < length h" and "h ! i = t"
  shows "\<exists>j < i. h ! j = g"
  using assms(4-6)
proof (induction i arbitrary: t)
  case 0
  with assms(2,3) show ?case by (simp add: walks_def hd_conv_nth)
next
  case (Suc i)
  have "t \<in> set (allowed_targets (h ! i))" using assms(2) Suc.prems by (auto simp: walks_def)
  then have "h ! i \<in> set beyond \<or> h ! i = g"
    using table_edge [OF assms(1)] Suc.prems(1) by blast
  with Suc.IH [of "h ! i"] Suc.prems(2) show ?case by (auto simp: less_Suc_eq)
qed

lemma run_ok:
  assumes "new_lifecycle s = Inr a" and "lc_step\<^sup>*\<^sup>* a b"
  shows "lifecycle_ok b" and "hd (lc_history b) = s"
  using command.run_good [OF assms(2)] command.run_identity [OF assms(2)] new_ok [OF assms(1)] by auto

lemma stuck_iff_terminal:
  assumes "lifecycle_ok lc"
  shows "lc_state lc \<in> set TERMINAL \<longleftrightarrow> (\<forall>t. \<exists>e. transition t lc = Inl e)"
proof
  assume "lc_state lc \<in> set TERMINAL"
  then show "\<forall>t. \<exists>e. transition t lc = Inl e" by (simp add: transition_def terminal_no_targets)
next
  assume *: "\<forall>t. \<exists>e. transition t lc = Inl e"
  show "lc_state lc \<in> set TERMINAL"
  proof (rule ccontr)
    assume "lc_state lc \<notin> set TERMINAL"
    then obtain t where "t \<in> set (allowed_targets (lc_state lc))"
      using assms live_targets by (auto simp: lifecycle_ok_def known_state_def)
    with * [rule_format, of t] show False by (simp add: transition_def)
  qed
qed

text \<open>\<open>compress\<close> is a run, whether it is refused or not, and it succeeds exactly on walks of the table.\<close>

lemma compress_run: "lc_step\<^sup>*\<^sup>* lc (fst (compress stages lc))"
proof (induction stages arbitrary: lc)
  case (Cons stage stages)
  show ?case
  proof (cases "transition stage lc")
    case (Inr lc')
    then have "lc_step lc lc'" by (auto simp: lc_step_def)
    also have "lc_step\<^sup>*\<^sup>* lc' (fst (compress stages lc'))" by (rule Cons.IH)
    finally show ?thesis using Inr by simp
  qed simp
qed simp

lemma compress_history:
  assumes "compress stages lc = (lc', Inr h)"
  shows "h = lc_history lc @ stages \<and> lc_history lc' = h"
  using assms
proof (induction stages arbitrary: lc)
  case (Cons stage stages)
  then obtain next_lc where "transition stage lc = Inr next_lc" "compress stages next_lc = (lc', Inr h)"
    by (auto split: sum.splits)
  with Cons.IH [of next_lc] show ?case by (auto simp: transition_Inr)
qed simp

section \<open>Projection\<close>

text \<open>The entries of a projection: the canonical stages, and the visited states that are not canonical.\<close>

lemma projection_entry:
  "e \<in> set (lifecycle_projection lc) \<longleftrightarrow> (\<exists>s \<in> set CANONICAL_STAGES. e = stage_report lc s) \<or>
     (\<exists>s \<in> set (lc_history lc). s \<notin> set CANONICAL_STAGES \<and>
        e = \<lparr> se_stage = s, se_status = (if lc_state lc \<in> set TERMINAL then ''completed'' else ''current''),
              se_reason = ''terminal or control state'' \<rparr>)"
  by (auto simp: lifecycle_projection_def)

lemma projection_completed:
  assumes "lifecycle_ok lc" and "s \<in> set (lc_history lc)"
  shows "\<exists>e \<in> set (lifecycle_projection lc). se_stage e = s \<and>
           se_status e = (if s = lc_state lc \<and> lc_state lc \<notin> set TERMINAL then ''current'' else ''completed'')"
proof (cases "s \<in> set CANONICAL_STAGES")
  case True
  then have "stage_report lc s \<in> set (lifecycle_projection lc)" by (auto simp: projection_entry)
  then show ?thesis by (rule rev_bexI) (use assms(2) in \<open>auto simp: stage_report_def Let_def\<close>)
next
  case False
  have "lc_state lc \<in> set TERMINAL"
  proof (rule ccontr)
    assume live: "lc_state lc \<notin> set TERMINAL"
    obtain i where i: "i < length (lc_history lc)" "lc_history lc ! i = s" using assms(2) by (auto simp: in_set_conv_nth)
    have "list_all (\<lambda>(s, ts). s \<in> set CANONICAL_STAGES) TRANSITIONS" by code_simp
    then have known: "dict_get TRANSITIONS s \<noteq> None \<Longrightarrow> s \<in> set CANONICAL_STAGES" for s by (auto dest: table_row)
    have "dict_get TRANSITIONS s \<noteq> None"
    proof (cases "Suc i < length (lc_history lc)")
      case True
      then show ?thesis using assms(1) i allowed_row [of "lc_history lc ! Suc i" s] by (auto simp: lifecycle_ok_def walks_def)
    next
      case False
      with i have "i = length (lc_history lc) - 1" by simp
      then have "s = lc_state lc" using assms(1) i(2) last_conv_nth [of "lc_history lc"] by (simp add: lifecycle_ok_def walks_def)
      with live assms(1) show ?thesis by (auto simp: lifecycle_ok_def known_state_def)
    qed
    with known False show False by simp
  qed
  with False assms(2) show ?thesis
    by (intro bexI [of _ "\<lparr> se_stage = s, se_status = ''completed'', se_reason = ''terminal or control state'' \<rparr>"])
      (simp_all add: projection_entry)
qed

section \<open>Properties\<close>

text \<open>C28. Every run of a governed command's life cycle from discovery, of any number of accepted
  transitions, visits at most twelve states and none twice, and it is at an end exactly when its
  state is terminal. Execution is entered only after authorisation, authorisation only after
  compilation, and a result of execution (verification, rollback, partial compensation) only
  after execution; and from every state a terminal one is a step away.\<close>

theorem lifecycle_governed:
  assumes "new_lifecycle ''DISCOVERED'' = Inr a" and "lc_step\<^sup>*\<^sup>* a b"
  shows "length (lc_history b) \<le> 12 \<and> distinct (lc_history b) \<and>
    (lc_state b \<in> set TERMINAL \<longleftrightarrow> (\<forall>t. \<exists>e. transition t b = Inl e)) \<and>
    (lc_state b \<in> set TERMINAL \<or> (\<exists>t c. transition t b = Inr c \<and> lc_state c \<in> set TERMINAL)) \<and>
    (\<forall>i < length (lc_history b).
       (lc_history b ! i \<in> {''VERIFYING'', ''ROLLED_BACK'', ''PARTIALLY_COMPENSATED''} \<longrightarrow> (\<exists>j < i. lc_history b ! j = ''EXECUTING'')) \<and>
       (lc_history b ! i = ''EXECUTING'' \<longrightarrow> (\<exists>j < i. lc_history b ! j = ''AUTHORIZED'')) \<and>
       (lc_history b ! i = ''AUTHORIZED'' \<longrightarrow> (\<exists>j < i. lc_history b ! j = ''COMPILED'')))"
proof -
  note ok = run_ok [OF assms]
  have h: "walks (lc_history b)" using ok(1) by (simp add: lifecycle_ok_def)
  have executed: "\<exists>j < i. lc_history b ! j = ''EXECUTING''" if "i < length (lc_history b)"
    "lc_history b ! i \<in> {''VERIFYING'', ''ROLLED_BACK'', ''PARTIALLY_COMPENSATED''}" for i
    by (rule gate [OF _ h, of "[''VERIFYING'', ''ROLLED_BACK'', ''PARTIALLY_COMPENSATED'']"])
      (code_simp, use ok(2) that in simp_all)
  have authorised: "\<exists>j < i. lc_history b ! j = ''AUTHORIZED''" if "i < length (lc_history b)" "lc_history b ! i = ''EXECUTING''" for i
    by (rule gate [OF _ h, of "[''EXECUTING'']"]) (code_simp, use ok(2) that in simp_all)
  have compiled: "\<exists>j < i. lc_history b ! j = ''COMPILED''" if "i < length (lc_history b)" "lc_history b ! i = ''AUTHORIZED''" for i
    by (rule gate [OF _ h, of "[''SIMULATED'', ''AWAITING_APPROVAL'', ''AUTHORIZED'']"]) (code_simp, use ok(2) that in simp_all)
  have "lc_state b \<in> set TERMINAL \<or> (\<exists>t c. transition t b = Inr c \<and> lc_state c \<in> set TERMINAL)"
    using ok(1) live_targets [of "lc_state b"] by (auto simp: lifecycle_ok_def known_state_def transition_Inr)
  with history_short [OF ok(1)] walks_distinct [OF h] stuck_iff_terminal [OF ok(1)] executed authorised compiled
  show ?thesis by blast
qed

theorem lifecycle_governed_witness:
  "distinct (lc_history (fst (compress [''INTERPRETED'', ''MODELLED'', ''RESOLVED'', ''REFUSED'', ''QUALIFIED'']
      \<lparr> lc_state = ''DISCOVERED'', lc_history = [''DISCOVERED''] \<rparr>)))"
proof -
  have "new_lifecycle ''DISCOVERED'' = Inr \<lparr> lc_state = ''DISCOVERED'', lc_history = [''DISCOVERED''] \<rparr>" by code_simp
  from lifecycle_governed [OF this compress_run] show ?thesis by blast
qed

end
