(* ===== verification/EgcfRecords.thy ===== *)
theory EgcfRecords
  imports JsonParse
begin

text \<open>
  Records of the workflow engine: their identifiers (\<open>ourd/egcf/ids.py\<close>), the field tables of the
  record classes (\<open>ourd/egcf/models.py\<close>), and the checks of stored payloads and of values against a
  JSON schema (\<open>ourd/egcf/schemas.py\<close>). A record is its class's object type and its fields in the
  order of declaration; the classes differ only in their tables, so one representation serves the store.
\<close>

section \<open>Identifiers\<close>

definition typed_id :: "digest \<Rightarrow> string \<Rightarrow> json \<Rightarrow> string res" where
  "typed_id H object_type payload =
     (let normalized = replace_char (CHR ''_'') (CHR ''-'') (lower (strip object_type))
      in if normalized = [] \<or> CHR '':'' \<in> set normalized then Inl (ValueError ''invalid object type'')
         else Inr (normalized @ '':sha256:'' @ stable_hash H (JObj [(''object_type'', JStr normalized), (''payload'', payload)])))"

definition parse_typed_id :: "string \<Rightarrow> (string \<times> string) res" where
  "parse_typed_id object_id = (case split_on (CHR '':'') object_id of
     [kind, algorithm, h] \<Rightarrow> if algorithm \<noteq> ''sha256'' \<or> length h \<noteq> 64 then Inl (ValueError ''invalid typed object ID'') else Inr (kind, h)
   | _ \<Rightarrow> Inl (ValueError ''invalid typed object ID''))"

section \<open>Record classes\<close>

text \<open>The fields without a default, then those with one; the source declares them in this order.\<close>

type_synonym field_list = "string list \<times> (string, json) dict"

definition IntentRecord_fields :: field_list where
  "IntentRecord_fields = ([''raw_request'', ''raw_request_hash'', ''actor'', ''objective''],
     [(''assumptions'', JList []), (''ambiguities'', JList []), (''provenance'', JObj []), (''created_at'', JStr [])])"

definition CommandDefinition_fields :: field_list where
  "CommandDefinition_fields = ([''namespace'', ''name'', ''version'', ''intent_kinds'', ''input_schema'', ''output_schema'',
     ''preconditions'', ''postconditions'', ''invariants'', ''evidence_requirements'', ''capability_query'',
     ''algorithm_query'', ''risk_policy'', ''rollback_policy'', ''budget_policy'', ''approval_policy'',
     ''lifecycle_policy''],
     [(''description'', JStr []), (''aliases'', JList [])])"

definition CommandInvocation_fields :: field_list where
  "CommandInvocation_fields = ([''command_id'', ''inputs'', ''modifiers'', ''scope''],
     [(''command_definition_id'', JStr []), (''intent_id'', JStr []), (''actor'', JStr ''user''),
     (''created_at'', JStr [])])"

definition CapabilitySpec_fields :: field_list where
  "CapabilitySpec_fields = ([''name'', ''level'', ''facet'', ''description''],
     [(''resource_schema'', JObj []), (''constraints'', JObj [])])"

definition CapabilityGrant_fields :: field_list where
  "CapabilityGrant_fields = ([''subject'', ''capability_ceiling'', ''capabilities'', ''scope'', ''resources'', ''expires_at'', ''budget'',
     ''approval_modes'', ''issuer'', ''authority_hash''],
     [(''use_limit'', JInt 1), (''use_count'', JInt 0)])"

definition AlgorithmDefinition_fields :: field_list where
  "AlgorithmDefinition_fields = ([''name'', ''version'', ''implementation_kind'', ''implementation_ref'', ''implementation_digest'',
     ''command_ids'', ''input_schema'', ''output_schema'', ''applicability'', ''capability_requirements'',
     ''capability_level'', ''risk_floor'', ''rollback_class'', ''invariants'', ''evidence_requirements'',
     ''qualification_policy'', ''owner'', ''provenance''],
     [(''status'', JStr ''PROPOSED''), (''known_failures'', JList [])])"

definition QualificationRecord_fields :: field_list where
  "QualificationRecord_fields = ([''algorithm_id'', ''algorithm_digest'', ''context'', ''context_hash'', ''evidence_ids'', ''tests'',
     ''benchmarks'', ''known_failures'', ''status'', ''qualified_by'', ''created_at''],
     [(''expires_at'', JStr [])])"

definition SelectionDecision_fields :: field_list where
  "SelectionDecision_fields = ([''command_id'', ''context_hash'', ''candidates'', ''excluded'', ''selected_algorithm_id'',
     ''selected_algorithm_digest'', ''ranking'', ''tie_break'', ''evidence_ids'', ''created_at''],
     [(''score_components'', JObj [])])"

definition ClaimRecord_fields :: field_list where
  "ClaimRecord_fields = ([''subject_id'', ''statement'', ''scope'', ''falsifier'', ''confidence_policy''],
     [(''status'', JStr ''OPEN'')])"

definition EvidenceRequirement_fields :: field_list where
  "EvidenceRequirement_fields = ([''subject_id'', ''name'', ''category'', ''oracle'', ''freshness_seconds'', ''independence_group''],
     [(''mandatory'', JBool True)])"

definition EvidenceArtifact_fields :: field_list where
  "EvidenceArtifact_fields = ([''subject_id'', ''claim_ids'', ''requirement_ids'', ''category'', ''producer'', ''method'',
     ''source_snapshot_hash'', ''target'', ''oracle'', ''environment'', ''command_id'', ''algorithm_id'',
     ''created_at'', ''sha256'', ''success'', ''limitations'', ''independence_group''],
     [(''simulated'', JBool False), (''path'', JStr []), (''content'', JNull)])"

definition ConfidenceAssessment_fields :: field_list where
  "ConfidenceAssessment_fields = ([''subject_id'', ''policy'', ''dimensions'', ''blocking_gaps'', ''conflicts'', ''known_unknowns'',
     ''conclusion'', ''evidence_ids'', ''created_at''],
     [])"

definition InvariantRecord_fields :: field_list where
  "InvariantRecord_fields = ([''name'', ''statement'', ''scope'', ''status'', ''validator'', ''evidence_ids'', ''falsifier'',
     ''counterexamples'', ''authority'', ''created_at''],
     [(''supersedes'', JStr [])])"

definition DecisionRecord_fields :: field_list where
  "DecisionRecord_fields = ([''question'', ''alternatives'', ''choice'', ''rationale'', ''evidence_ids'', ''constraints'', ''owner'',
     ''scope'', ''status'', ''created_at''],
     [(''supersedes'', JStr [])])"

definition WorkflowNode_fields :: field_list where
  "WorkflowNode_fields = ([''node_id'', ''command_id'', ''inputs''],
     [(''depends_on'', JList []), (''when'', JObj []), (''retry_limit'', JInt 0), (''checkpoint'', JBool False)])"

definition WorkflowDefinition_fields :: field_list where
  "WorkflowDefinition_fields = ([''name'', ''version'', ''parameters'', ''nodes'', ''outputs''],
     [(''description'', JStr [])])"

definition CompiledWorkflow_fields :: field_list where
  "CompiledWorkflow_fields = ([''workflow_id'', ''source_snapshot_hash'', ''command_context'', ''nodes'', ''edges'', ''execution_order'',
     ''capability_level'', ''capability_requirements'', ''risk'', ''evidence_requirements'', ''approval_policy'',
     ''budget'', ''rollback_graph'', ''unresolved'', ''created_at''],
     [(''graph_hash'', JStr [])])"

definition ExecutionPlan_fields :: field_list where
  "ExecutionPlan_fields = ([''compiled_workflow_id'', ''graph_hash'', ''source_snapshot_hash'', ''node_order'', ''eon_action_ids'',
     ''algorithm_digests'', ''capability_grant_id'', ''evidence_ids'', ''budget'', ''rollback_graph'',
     ''approval_policy'', ''expires_at'', ''created_at''],
     [])"

definition ApprovalRecord_fields :: field_list where
  "ApprovalRecord_fields = ([''plan_id'', ''plan_hash'', ''approver'', ''authority'', ''constraints'', ''created_at'', ''expires_at''],
     [(''use_limit'', JInt 1), (''use_count'', JInt 0), (''human'', JBool True)])"

definition ExecutionRecord_fields :: field_list where
  "ExecutionRecord_fields = ([''plan_id'', ''node_id'', ''algorithm_id'', ''executor'', ''inputs_hash'', ''output'', ''status'', ''usage'',
     ''evidence_ids'', ''started_at'', ''completed_at''],
     [(''simulated'', JBool False)])"

definition RollbackRecord_fields :: field_list where
  "RollbackRecord_fields = ([''plan_id'', ''execution_ids'', ''rollback_class'', ''pre_state'', ''post_state'', ''restored_state'',
     ''failures'', ''status'', ''created_at''],
     [])"

definition FailureRecord_fields :: field_list where
  "FailureRecord_fields = ([''subject_id'', ''expected'', ''observed'', ''active_dimension'', ''frozen_dimensions'', ''evidence_ids'',
     ''retry_count'', ''status'', ''created_at''],
     [])"

definition AssuranceCase_fields :: field_list where
  "AssuranceCase_fields = ([''subject_id'', ''top_claim'', ''subclaims'', ''arguments'', ''supporting_evidence'', ''refuting_evidence'',
     ''invariant_ids'', ''decision_ids'', ''capability_facts'', ''approval_facts'', ''rollback_argument'',
     ''gaps'', ''conflicts'', ''uncertainties'', ''conclusion'', ''created_at''],
     [])"

definition ArtifactRecord_fields :: field_list where
  "ArtifactRecord_fields = ([''media_type'', ''sha256'', ''size'', ''source_ids'', ''provenance'', ''created_at''],
     [(''path'', JStr [])])"

definition SupersedenceRecord_fields :: field_list where
  "SupersedenceRecord_fields = ([''old_id'', ''new_id'', ''reason'', ''authority'', ''created_at''],
     [])"

definition RECORD_TYPES :: "(string, field_list) dict" where
  "RECORD_TYPES = [
     (''intent'', IntentRecord_fields),
     (''command-definition'', CommandDefinition_fields),
     (''command-invocation'', CommandInvocation_fields),
     (''capability-spec'', CapabilitySpec_fields),
     (''capability-grant'', CapabilityGrant_fields),
     (''algorithm-definition'', AlgorithmDefinition_fields),
     (''qualification'', QualificationRecord_fields),
     (''selection-decision'', SelectionDecision_fields),
     (''claim'', ClaimRecord_fields),
     (''evidence-requirement'', EvidenceRequirement_fields),
     (''egcf-evidence'', EvidenceArtifact_fields),
     (''confidence-assessment'', ConfidenceAssessment_fields),
     (''invariant'', InvariantRecord_fields),
     (''decision'', DecisionRecord_fields),
     (''workflow-node'', WorkflowNode_fields),
     (''workflow-definition'', WorkflowDefinition_fields),
     (''compiled-workflow'', CompiledWorkflow_fields),
     (''execution-plan'', ExecutionPlan_fields),
     (''approval'', ApprovalRecord_fields),
     (''execution'', ExecutionRecord_fields),
     (''rollback'', RollbackRecord_fields),
     (''failure'', FailureRecord_fields),
     (''assurance-case'', AssuranceCase_fields),
     (''artifact'', ArtifactRecord_fields),
     (''supersedence'', SupersedenceRecord_fields)]"

record egcf_record =
  er_type :: string
  er_fields :: "(string, json) dict"

definition field_names :: "field_list \<Rightarrow> string list" where
  "field_names fs = fst fs @ map fst (snd fs)"

text \<open>\<open>asdict\<close>.\<close>

definition to_payload :: "egcf_record \<Rightarrow> json" where
  "to_payload r = JObj (er_fields r)"

definition object_id :: "digest \<Rightarrow> egcf_record \<Rightarrow> string res" where
  "object_id H r = typed_id H (er_type r) (to_payload r)"

definition field :: "egcf_record \<Rightarrow> string \<Rightarrow> json" where
  "field r k = dict_getd (er_fields r) k JNull"

section \<open>Payloads\<close>

definition FORBIDDEN_DEFINITION_FIELDS :: "string list" where
  "FORBIDDEN_DEFINITION_FIELDS = [''callback'', ''callable'', ''executor'', ''function'', ''handler'', ''subprocess'']"

definition validate_record_payload :: "string \<Rightarrow> json \<Rightarrow> unit res" where
  "validate_record_payload object_type payload = (case dict_get RECORD_TYPES object_type of
     None \<Rightarrow> Inl (SchemaError ''unknown EGCF object type'')
   | Some fs \<Rightarrow> (case payload of
       JObj d \<Rightarrow>
         if list_ex (\<lambda>kv. fst kv \<notin> set (field_names fs)) d then Inl (SchemaError ''unknown fields'')
         else if list_ex (\<lambda>k. dict_get d k = None) (fst fs) then Inl (SchemaError ''missing fields'')
         else if object_type = ''command-definition'' \<and> list_ex (\<lambda>k. dict_get d k \<noteq> None) FORBIDDEN_DEFINITION_FIELDS
         then Inl (SchemaError ''command definitions cannot reference executors'')
         else Inr ()
     | _ \<Rightarrow> Inl (SchemaError ''payload must be an object'')))"

text \<open>The class called with the payload's keys: the fields in order, defaults for the absent ones.\<close>

definition construct_record :: "string \<Rightarrow> json \<Rightarrow> egcf_record res" where
  "construct_record object_type payload = bindR (validate_record_payload object_type payload) (\<lambda>_.
     let fs = dict_getd RECORD_TYPES object_type ([], []); d = (case payload of JObj d \<Rightarrow> d | _ \<Rightarrow> [])
     in Inr \<lparr> er_type = object_type, er_fields = map (\<lambda>k. (k, dict_getd d k (dict_getd (snd fs) k JNull))) (field_names fs) \<rparr>)"

section \<open>Values against schemas\<close>

text \<open>Python's \<open>==\<close> on these values: a Boolean equals its number, key order does not matter.\<close>

fun py_eq :: "json \<Rightarrow> json \<Rightarrow> bool" where
  "py_eq (JObj d) w = (case w of
     JObj e \<Rightarrow> length d = length e \<and> list_all (\<lambda>kv. case dict_get e (fst kv) of None \<Rightarrow> False | Some x \<Rightarrow> py_eq (snd kv) x) d
   | _ \<Rightarrow> False)"
| "py_eq (JList vs) w = (case w of JList ws \<Rightarrow> list_all2 py_eq vs ws | _ \<Rightarrow> False)"
| "py_eq (JBool b) w = (case w of JBool c \<Rightarrow> b = c | JInt i \<Rightarrow> i = (if b then 1 else 0) | _ \<Rightarrow> False)"
| "py_eq (JInt i) w = (case w of JBool c \<Rightarrow> i = (if c then 1 else 0) | JInt j \<Rightarrow> i = j | _ \<Rightarrow> False)"
| "py_eq v w = (v = w)"

text \<open>\<open>v in container\<close>.\<close>

definition py_in :: "json \<Rightarrow> json \<Rightarrow> bool res" where
  "py_in v container = (case container of
     JList vs \<Rightarrow> Inr (list_ex (py_eq v) vs)
   | JStr s \<Rightarrow> (case v of JStr t \<Rightarrow> Inr (contains t s) | _ \<Rightarrow> Inl (TypeError ''requires string as left operand''))
   | JObj d \<Rightarrow> (case v of JList _ \<Rightarrow> Inl (TypeError ''unhashable type'') | JObj _ \<Rightarrow> Inl (TypeError ''unhashable type'')
       | JStr s \<Rightarrow> Inr (dict_get d s \<noteq> None) | _ \<Rightarrow> Inr False)
   | _ \<Rightarrow> Inl (TypeError ''argument is not iterable''))"

text \<open>\<open>set(v)\<close> of a value: its elements, the characters of a string, the keys of an object.\<close>

definition py_items :: "json \<Rightarrow> json list res" where
  "py_items v = (case v of
     JList vs \<Rightarrow> Inr vs
   | JStr s \<Rightarrow> Inr (map (\<lambda>c. JStr [c]) s)
   | JObj d \<Rightarrow> Inr (map (JStr \<circ> fst) d)
   | _ \<Rightarrow> Inl (TypeError ''object is not iterable''))"

definition unhashable :: "json \<Rightarrow> bool" where
  "unhashable v = (case v of JList _ \<Rightarrow> True | JObj _ \<Rightarrow> True | _ \<Rightarrow> False)"

definition py_elements :: "json \<Rightarrow> json list res" where
  "py_elements v = bindR (py_items v) (\<lambda>vs. if list_ex unhashable vs then Inl (TypeError ''unhashable type'') else Inr vs)"

definition SCHEMA_TYPES :: "string list" where
  "SCHEMA_TYPES = [''object'', ''array'', ''string'', ''integer'', ''number'', ''boolean'', ''null'']"

definition has_schema_type :: "json \<Rightarrow> string \<Rightarrow> bool" where
  "has_schema_type v t = (case v of
     JObj _ \<Rightarrow> t = ''object'' | JList _ \<Rightarrow> t = ''array'' | JStr _ \<Rightarrow> t = ''string'' | JInt _ \<Rightarrow> t = ''integer'' \<or> t = ''number''
   | JBool _ \<Rightarrow> t = ''boolean'' | JNull \<Rightarrow> t = ''null'')"

definition expected_types :: "json \<Rightarrow> string list res" where
  "expected_types v = (let vs = (case v of JList vs \<Rightarrow> vs | _ \<Rightarrow> [v]) in
     if list_ex unhashable vs then Inl (TypeError ''unhashable type'')
     else Inr (filter (\<lambda>t. t \<in> set SCHEMA_TYPES) (map (\<lambda>v. case v of JStr t \<Rightarrow> t | _ \<Rightarrow> []) vs)))"

text \<open>\<open>isinstance(item, (str, int))\<close>; a Boolean is an \<open>int\<close>.\<close>

definition path_segment :: "json \<Rightarrow> bool" where
  "path_segment v = (case v of JStr s \<Rightarrow> True | JInt i \<Rightarrow> True | JBool b \<Rightarrow> True | _ \<Rightarrow> False)"

definition check_reference_value :: "(string, json) dict \<Rightarrow> unit res" where
  "check_reference_value d =
     (if list_ex (\<lambda>kv. fst kv \<notin> {''$from'', ''path'', ''default''}) d then Inl (SchemaError ''reference has unknown fields'')
      else if jstring (dict_get d ''$from'') = None then Inl (SchemaError ''reference $from must be string'')
      else case dict_get d ''path'' of
          None \<Rightarrow> Inr ()
        | Some (JList path) \<Rightarrow> if list_all path_segment path then Inr () else Inl (SchemaError ''reference path must be an array of strings or integers'')
        | Some v \<Rightarrow> Inl (SchemaError ''reference path must be an array of strings or integers''))"

definition check_kind :: "(string, json) dict \<Rightarrow> json \<Rightarrow> unit res" where
  "check_kind schema v =
     bindR (expected_types (dict_getd schema ''type'' JNull)) (\<lambda>types.
     if types \<noteq> [] \<and> \<not> list_ex (has_schema_type v) types then Inl (SchemaError ''value has the wrong type'')
     else bindR (case dict_get schema ''enum'' of None \<Rightarrow> Inr True | Some e \<Rightarrow> py_in v e) (\<lambda>listed.
     if \<not> listed then Inl (SchemaError ''value must be one of the enumerated'')
     else case dict_get schema ''const'' of
         None \<Rightarrow> Inr ()
       | Some c \<Rightarrow> if py_eq v c then Inr () else Inl (SchemaError ''value must equal the constant'')))"

definition check_keys :: "(string, json) dict \<Rightarrow> (string, json) dict \<Rightarrow> unit res" where
  "check_keys schema d =
     bindR (py_elements (dict_getd schema ''required'' (JList []))) (\<lambda>required.
     if list_ex (\<lambda>k. k \<notin> JStr ` set (map fst d)) required then Inl (SchemaError ''value is missing required fields'')
     else if dict_get schema ''additionalProperties'' \<noteq> Some (JBool False) then Inr ()
     else bindR (py_elements (dict_getd schema ''properties'' (JObj []))) (\<lambda>known.
     if list_ex (\<lambda>kv. JStr (fst kv) \<notin> set known) d then Inl (SchemaError ''value has unknown fields'') else Inr ()))"

definition property_schema :: "json \<Rightarrow> string \<Rightarrow> json option res" where
  "property_schema properties k = (case properties of
     JObj ps \<Rightarrow> Inr (case dict_get ps k of None \<Rightarrow> None | Some p \<Rightarrow> if py_truthy p then Some p else None)
   | JList vs \<Rightarrow> if JStr k \<in> set vs then Inl (TypeError ''list indices must be integers or slices'') else Inr None
   | JStr s \<Rightarrow> if contains k s then Inl (TypeError ''string indices must be integers'') else Inr None
   | _ \<Rightarrow> Inl (TypeError ''argument is not iterable''))"

lemma eachR_cong [fundef_cong]: "xs = ys \<Longrightarrow> (\<And>x. x \<in> set ys \<Longrightarrow> f x = g x) \<Longrightarrow> eachR f xs = eachR g ys"
proof (induction xs arbitrary: ys)
  case (Cons x xs)
  then show ?case by (cases ys) auto
qed simp

fun validate_json_value :: "json \<Rightarrow> json \<Rightarrow> unit res" where
  "validate_json_value schema (JObj d) =
     (if dict_get d ''$from'' \<noteq> None then check_reference_value d
      else case schema of
        JObj sc \<Rightarrow> bindR (check_kind sc (JObj d)) (\<lambda>_. bindR (check_keys sc d) (\<lambda>_.
          eachR (\<lambda>kv. bindR (property_schema (dict_getd sc ''properties'' (JObj [])) (fst kv)) (\<lambda>p.
            case p of None \<Rightarrow> Inr () | Some ps \<Rightarrow> validate_json_value ps (snd kv))) d))
      | _ \<Rightarrow> Inl (AttributeError ''get''))"
| "validate_json_value schema (JList vs) = (case schema of
     JObj sc \<Rightarrow> bindR (check_kind sc (JList vs)) (\<lambda>_. case dict_get sc ''items'' of
         None \<Rightarrow> Inr ()
       | Some items \<Rightarrow> if py_truthy items then eachR (\<lambda>v. validate_json_value items v) vs else Inr ())
   | _ \<Rightarrow> Inl (AttributeError ''get''))"
| "validate_json_value schema v = (case schema of JObj sc \<Rightarrow> check_kind sc v | _ \<Rightarrow> Inl (AttributeError ''get''))"

end
