(* ===== verification/EgcfGraph.thy ===== *)
theory EgcfGraph
  imports EgcfRecords "HOL-Library.Product_Lexorder"
begin

text \<open>
  The graph half of the workflow compiler (\<open>ourd/egcf/compiler.py\<close>): the execution order (Kahn's algorithm
  over counts of open dependencies), reachability over the edges (a search with a stack), the references
  between nodes and their validation, and the conflicts between nodes that change the same target. The
  lemmas show that the order exists exactly for well-formed acyclic workflows and respects the
  dependencies, that the search decides reachability, and that a validated reference is to an output that
  an earlier node of the order produces.
\<close>

section \<open>Workflow nodes\<close>

record workflow_node =
  wn_node_id :: string
  wn_command_id :: string
  wn_inputs :: json
  wn_depends_on :: "string list"
  wn_when :: json
  wn_retry_limit :: int
  wn_checkpoint :: bool

type_synonym edge = "string \<times> string"

section \<open>Execution order\<close>

definition open_dependencies :: "workflow_node list \<Rightarrow> (string, int) dict" where
  "open_dependencies nodes = map (\<lambda>n. (wn_node_id n, int (length (sorted_set (wn_depends_on n))))) nodes"

definition dependents :: "workflow_node list \<Rightarrow> string \<Rightarrow> string list" where
  "dependents nodes d = map wn_node_id (filter (\<lambda>n. d \<in> set (wn_depends_on n)) nodes)"

definition workflow_edges :: "workflow_node list \<Rightarrow> edge list" where
  "workflow_edges nodes = concat (map (\<lambda>n. map (\<lambda>d. (d, wn_node_id n)) (sorted_set (wn_depends_on n))) nodes)"

text \<open>One dependency of \<open>target\<close> is done; the target becomes ready with its last one.\<close>

definition release :: "string \<Rightarrow> (string, int) dict \<times> string list \<Rightarrow> (string, int) dict \<times> string list" where
  "release target s = (let c = dict_getd (fst s) target 0 - 1
     in (dict_set target c (fst s), if c = 0 then snd s @ [target] else snd s))"

definition waiting :: "(string, int) dict \<Rightarrow> nat" where
  "waiting inc = length (filter (\<lambda>kv. 0 < snd kv) inc)"

lemma waiting_set:
  "waiting (dict_set t c inc) + (if 0 < dict_getd inc t 0 then 1 else 0) = waiting inc + (if 0 < c then 1 else 0)"
  by (induction inc) (auto simp: waiting_def dict_getd_def)

lemma release_measure: "waiting (fst (release t s)) + length (snd (release t s)) \<le> waiting (fst s) + length (snd s)"
proof (cases "dict_getd (fst s) t 0 = 1")
  case True
  with waiting_set [of t 0 "fst s"] show ?thesis by (simp add: release_def)
next
  case False
  with waiting_set [of t "dict_getd (fst s) t 0 - 1" "fst s"] show ?thesis by (auto simp: release_def Let_def split: if_splits)
qed

lemma release_all_measure:
  "waiting (fst (fold release ts s)) + length (snd (fold release ts s)) \<le> waiting (fst s) + length (snd s)"
proof (induction ts arbitrary: s)
  case (Cons t ts)
  show ?case using Cons.IH [of "release t s"] release_measure [of t s] by simp
qed simp

function kahn :: "(string \<Rightarrow> string list) \<Rightarrow> string list \<Rightarrow> (string, int) dict \<Rightarrow> string list \<Rightarrow> string list" where
  "kahn out [] inc order = order"
| "kahn out (n # ready) inc order =
     kahn out (snd (fold release (sort (out n)) (inc, ready))) (fst (fold release (sort (out n)) (inc, ready))) (order @ [n])"
  by pat_completeness auto

termination
proof (relation "measure (\<lambda>(out, ready, inc, order). waiting inc + length ready)", goal_cases)
  case (2 out n ready inc order)
  show ?case using release_all_measure [of "sort (out n)" "(inc, ready)"] by simp
qed simp

definition topological_order :: "workflow_node list \<Rightarrow> (string list \<times> edge list) res" where
  "topological_order nodes =
     (let ids = map wn_node_id nodes in
      if \<not> distinct ids then Inl (CompilationError ''workflow node IDs must be unique'')
      else if list_ex (\<lambda>n. list_ex (\<lambda>d. d \<notin> set ids) (wn_depends_on n)) nodes then Inl (CompilationError ''workflow dependencies do not exist'')
      else let incoming = open_dependencies nodes;
               ready = sort (map fst (filter (\<lambda>kv. snd kv = 0) incoming));
               order = kahn (dependents nodes) ready incoming []
           in if length order \<noteq> length nodes then Inl (CompilationError ''workflow graph contains a cycle'')
              else Inr (order, sort (workflow_edges nodes)))"

section \<open>Reachability\<close>

definition successors :: "edge list \<Rightarrow> string \<Rightarrow> string list" where
  "successors es x = map snd (filter (\<lambda>e. fst e = x) es)"

lemma successors_none: "x \<notin> fst ` set es \<Longrightarrow> successors es x = []"
  by (auto simp: successors_def filter_empty_conv)

text \<open>The stack's top is the end of the Python list, the head of this one.\<close>

function search :: "edge list \<Rightarrow> string \<Rightarrow> string list \<Rightarrow> string list \<Rightarrow> bool" where
  "search es target [] visited = False"
| "search es target (x # frontier) visited =
     (if x = target then True
      else if x \<in> set visited then search es target frontier visited
      else search es target (rev (successors es x) @ frontier) (x # visited))"
  by pat_completeness auto

termination
proof (relation "inv_image (less_than <*lex*> less_than) (\<lambda>(es, target, frontier, visited).
    (card (fst ` set es - set visited), length frontier))", goal_cases)
  case (3 es target x frontier visited)
  show ?case
  proof (cases "x \<in> fst ` set es")
    case True
    then have "card (fst ` set es - set (x # visited)) < card (fst ` set es - set visited)"
      using 3(2) by (intro psubset_card_mono) auto
    then show ?thesis by simp
  next
    case False
    then have "fst ` set es - set (x # visited) = fst ` set es - set visited" by auto
    with False show ?thesis by (simp add: successors_none)
  qed
qed auto

definition reachable :: "string \<Rightarrow> string \<Rightarrow> edge list \<Rightarrow> bool" where
  "reachable source target es = search es target [source] []"

section \<open>References\<close>

fun references :: "json \<Rightarrow> json list" where
  "references (JObj d) = (if dict_get d ''$from'' \<noteq> None then [JObj d] else []) @ concat (map (\<lambda>kv. references (snd kv)) d)"
| "references (JList vs) = concat (map references vs)"
| "references v = []"

definition json_keys :: "json \<Rightarrow> string list" where
  "json_keys v = (case v of JObj d \<Rightarrow> map fst d | _ \<Rightarrow> [])"

definition check_reference :: "string list \<Rightarrow> edge list \<Rightarrow> string \<Rightarrow> json \<Rightarrow> unit res" where
  "check_reference ids es node r =
     (if list_ex (\<lambda>k. k \<notin> {''$from'', ''path'', ''default''}) (json_keys r) then Inl (CompilationError ''reference has unknown fields'')
      else case jstring (jfield r ''$from'') of
        None \<Rightarrow> Inl (CompilationError ''reference source does not exist'')
      | Some source \<Rightarrow>
          if source \<notin> set ids then Inl (CompilationError ''reference source does not exist'')
          else if source = node \<or> \<not> reachable source node es then Inl (CompilationError ''node references non-dependent output'')
          else case jfield r ''path'' of
              None \<Rightarrow> Inr ()
            | Some (JList path) \<Rightarrow> if list_all path_segment path then Inr () else Inl (CompilationError ''reference path must be an array of strings or integers'')
            | Some v \<Rightarrow> Inl (CompilationError ''reference path must be an array of strings or integers''))"

definition NESTED_WORKFLOW_COMMANDS :: "string list" where
  "NESTED_WORKFLOW_COMMANDS = [''workflow.create'', ''workflow.compile'', ''algorithm.compose'']"

definition node_references :: "workflow_node \<Rightarrow> json list" where
  "node_references n = references (JObj ((''when'', wn_when n) #
     (if hd (split_on (CHR ''@'') (wn_command_id n)) \<in> set NESTED_WORKFLOW_COMMANDS then [] else [(''inputs'', wn_inputs n)])))"

definition check_output_reference :: "string list \<Rightarrow> json \<Rightarrow> unit res" where
  "check_output_reference ids r = (case jstring (jfield r ''$from'') of
     None \<Rightarrow> Inl (CompilationError ''workflow output reference does not exist'')
   | Some source \<Rightarrow> if source \<in> set ids then Inr () else Inl (CompilationError ''workflow output reference does not exist''))"

definition validate_references :: "workflow_node list \<Rightarrow> json \<Rightarrow> edge list \<Rightarrow> unit res" where
  "validate_references nodes outputs es =
     bindR (eachR (\<lambda>n. eachR (check_reference (map wn_node_id nodes) es (wn_node_id n)) (node_references n)) nodes) (\<lambda>_.
       eachR (check_output_reference (map wn_node_id nodes)) (references outputs))"

section \<open>Conflicting targets\<close>

definition changed_path :: "json \<Rightarrow> json list res" where
  "changed_path item = (case item of
     JObj d \<Rightarrow> Inr (case dict_get d ''path'' of None \<Rightarrow> [] | Some v \<Rightarrow> if py_truthy v then [JStr (py_str v)] else [])
   | _ \<Rightarrow> Inl (AttributeError ''get''))"

definition node_targets :: "json \<Rightarrow> json list res" where
  "node_targets inputs = (case inputs of
     JObj d \<Rightarrow>
       bindR (py_elements (dict_getd d ''targets'' (JList []))) (\<lambda>explicit.
       bindR (py_items (dict_getd d ''changes'' (JList []))) (\<lambda>items.
       bindR (mapR changed_path items) (\<lambda>changed. Inr (explicit @ concat changed))))
   | _ \<Rightarrow> Inl (AttributeError ''get''))"

definition serialized :: "edge list \<Rightarrow> string \<Rightarrow> string \<Rightarrow> bool" where
  "serialized es a b = (reachable a b es \<or> reachable b a es)"

text \<open>
  A conflict names the shared targets and the two nodes; the source formats it into a message, with the
  shared targets sorted, which fails on values of different kinds.
\<close>

definition sortable :: "json list \<Rightarrow> bool" where
  "sortable vs = (length vs \<le> 1 \<or> list_all (\<lambda>v. case v of JStr s \<Rightarrow> True | _ \<Rightarrow> False) vs \<or>
     list_all (\<lambda>v. case v of JInt i \<Rightarrow> True | JBool b \<Rightarrow> True | _ \<Rightarrow> False) vs)"

type_synonym conflict = "json list \<times> string \<times> string"

fun pair_conflicts :: "edge list \<Rightarrow> string \<Rightarrow> json list \<Rightarrow> (string \<times> json) list \<Rightarrow> conflict list res" where
  "pair_conflicts es left targets [] = Inr []"
| "pair_conflicts es left targets ((right, inputs) # rest) =
     bindR (node_targets inputs) (\<lambda>others.
     let overlap = remdups (filter (\<lambda>t. t \<in> set others) targets) in
     if \<not> sortable overlap then Inl (TypeError ''not supported between instances'')
     else bindR (pair_conflicts es left targets rest) (\<lambda>cs.
       Inr (if overlap \<noteq> [] \<and> \<not> serialized es left right then (overlap, left, right) # cs else cs)))"

fun target_conflicts :: "edge list \<Rightarrow> (string \<times> json) list \<Rightarrow> conflict list res" where
  "target_conflicts es [] = Inr []"
| "target_conflicts es ((left, inputs) # rest) =
     bindR (node_targets inputs) (\<lambda>targets.
       if targets = [] then target_conflicts es rest
       else bindR (pair_conflicts es left targets rest) (\<lambda>cs.
            bindR (target_conflicts es rest) (\<lambda>ds. Inr (cs @ ds))))"

section \<open>The order is right\<close>

definition respects_edges :: "edge set \<Rightarrow> string list \<Rightarrow> bool" where
  "respects_edges E order = (\<forall>p x q. order = p @ x # q \<longrightarrow> {d. (d, x) \<in> E} \<subseteq> set p)"

definition precedes :: "string list \<Rightarrow> string \<Rightarrow> string \<Rightarrow> bool" where
  "precedes order a x = (x \<in> set order \<and> (\<forall>p q. order = p @ x # q \<longrightarrow> a \<in> set p))"

lemma release_all:
  assumes "distinct ts"
  shows "dict_getd (fst (fold release ts (inc, ready))) x 0 = dict_getd inc x 0 - (if x \<in> set ts then 1 else 0)"
    and "snd (fold release ts (inc, ready)) = ready @ filter (\<lambda>t. dict_getd inc t 0 = 1) ts"
proof -
  have *: "dict_getd (fst (fold release ts (inc, ready))) x 0 = dict_getd inc x 0 - (if x \<in> set ts then 1 else 0) \<and>
     snd (fold release ts (inc, ready)) = ready @ filter (\<lambda>t. dict_getd inc t 0 = 1) ts"
    using assms
  proof (induction ts arbitrary: inc ready)
    case (Cons t ts)
    let ?c = "dict_getd inc t 0 - 1"
    have get: "dict_getd (dict_set t ?c inc) y 0 = (if y = t then ?c else dict_getd inc y 0)" for y
      by (simp add: dict_getd_def)
    have step: "release t (inc, ready) = (dict_set t ?c inc, if ?c = 0 then ready @ [t] else ready)"
      by (simp add: release_def Let_def)
    have same: "filter (\<lambda>y. dict_getd (dict_set t ?c inc) y 0 = 1) ts = filter (\<lambda>y. dict_getd inc y 0 = 1) ts"
      using Cons.prems by (intro filter_cong) (auto simp: get)
    have "fold release (t # ts) (inc, ready) = fold release ts (dict_set t ?c inc, if ?c = 0 then ready @ [t] else ready)"
      by (simp add: step)
    moreover have ih: "dict_getd (fst (fold release ts (dict_set t ?c inc, if ?c = 0 then ready @ [t] else ready))) x 0 =
          dict_getd (dict_set t ?c inc) x 0 - (if x \<in> set ts then 1 else 0)"
        "snd (fold release ts (dict_set t ?c inc, if ?c = 0 then ready @ [t] else ready)) =
          (if ?c = 0 then ready @ [t] else ready) @ filter (\<lambda>y. dict_getd (dict_set t ?c inc) y 0 = 1) ts"
      using Cons.IH [of "dict_set t ?c inc" "if ?c = 0 then ready @ [t] else ready"] Cons.prems by (simp_all only: distinct.simps)
    ultimately show ?case using Cons.prems ih(1) [unfolded get] ih(2) [unfolded same] by (auto simp del: fold_simps)
  qed simp
  from * show "dict_getd (fst (fold release ts (inc, ready))) x 0 = dict_getd inc x 0 - (if x \<in> set ts then 1 else 0)"
    and "snd (fold release ts (inc, ready)) = ready @ filter (\<lambda>t. dict_getd inc t 0 = 1) ts" by blast+
qed

text \<open>
  What the loop keeps: a ready node's dependencies are all in the order, the count of an open node is the
  number of its dependencies outside the order, and a node with none left is ready or ordered.
\<close>

definition kahn_inv :: "string set \<Rightarrow> edge set \<Rightarrow> string list \<Rightarrow> (string, int) dict \<Rightarrow> string list \<Rightarrow> bool" where
  "kahn_inv ids E ready inc order = (distinct (order @ ready) \<and> set (order @ ready) \<subseteq> ids \<and>
     (\<forall>x \<in> ids. dict_getd inc x 0 = int (card ({d. (d, x) \<in> E} - set order))) \<and>
     (\<forall>x \<in> ids. {d. (d, x) \<in> E} \<subseteq> set order \<longleftrightarrow> x \<in> set (order @ ready)) \<and> respects_edges E order)"

lemma respects_edges_snoc:
  assumes "respects_edges E order" and "{d. (d, n) \<in> E} \<subseteq> set order"
  shows "respects_edges E (order @ [n])"
  unfolding respects_edges_def
proof (intro allI impI)
  fix p x q assume split: "order @ [n] = p @ x # q"
  show "{d. (d, x) \<in> E} \<subseteq> set p"
  proof (cases q rule: rev_cases)
    case Nil
    with split assms(2) show ?thesis by simp
  next
    case (snoc r y)
    with split have "order = p @ x # r" by simp
    with assms(1) show ?thesis by (auto simp: respects_edges_def)
  qed
qed

lemma card_without: "n \<notin> set os \<Longrightarrow> finite A \<Longrightarrow> card (A - set (os @ [n])) = card (A - set os) - (if n \<in> A then 1 else 0)"
proof -
  assume n: "n \<notin> set os" "finite A"
  have "A - set (os @ [n]) = A - set os - {n}" by auto
  with n show ?thesis by (simp add: card_Diff_singleton_if)
qed

lemma kahn_step:
  assumes inv: "kahn_inv ids E (n # ready) inc order" and fin: "\<And>x. finite {d. (d, x) \<in> E}"
    and out: "distinct ts" "set ts = {x \<in> ids. (n, x) \<in> E}"
  shows "kahn_inv ids E (snd (fold release ts (inc, ready))) (fst (fold release ts (inc, ready))) (order @ [n])"
proof -
  have n: "n \<notin> set order" "n \<notin> set ready" "n \<in> ids" "distinct order" "distinct ready" "set order \<inter> set ready = {}"
    using inv by (auto simp: kahn_inv_def)
  have count: "dict_getd inc x 0 = int (card ({d. (d, x) \<in> E} - set order))"
    and done_iff: "{d. (d, x) \<in> E} \<subseteq> set order \<longleftrightarrow> x \<in> set (order @ n # ready)" if "x \<in> ids" for x
    using inv that by (auto simp: kahn_inv_def)
  have rest: "card ({d. (d, x) \<in> E} - set (order @ [n])) = card ({d. (d, x) \<in> E} - set order) - (if (n, x) \<in> E then 1 else 0)" for x
    using card_without [OF n(1) fin [of x]] by simp
  have pos: "0 < card ({d. (d, x) \<in> E} - set order)" if "(n, x) \<in> E" for x
  proof -
    have "n \<in> {d. (d, x) \<in> E} - set order" using n(1) that by simp
    with fin [of x] show ?thesis by (metis card_gt_0_iff empty_iff finite_Diff)
  qed
  have new_count: "dict_getd (fst (fold release ts (inc, ready))) x 0 = int (card ({d. (d, x) \<in> E} - set (order @ [n])))"
    if "x \<in> ids" for x
  proof (cases "(n, x) \<in> E")
    case True
    then have "x \<in> set ts" using that out(2) by simp
    with True pos [OF True] show ?thesis by (simp add: release_all(1) [OF out(1)] count [OF that] rest of_nat_diff del: set_append)
  next
    case False
    then have "x \<notin> set ts" using out(2) by simp
    with False show ?thesis by (simp only: release_all(1) [OF out(1)] count [OF that] rest if_False diff_zero)
  qed
  have fresh: "t \<notin> set (order @ n # ready)" if "t \<in> set ts" for t
    using that done_iff [of t] n(1) out(2) by auto
  let ?new = "filter (\<lambda>t. dict_getd inc t 0 = 1) ts"
  have new: "t \<in> set ?new \<longleftrightarrow> (n, t) \<in> E \<and> {d. (d, t) \<in> E} \<subseteq> set (order @ [n])" if "t \<in> ids" for t
  proof -
    have "{d. (d, t) \<in> E} \<subseteq> set (order @ [n]) \<longleftrightarrow> card ({d. (d, t) \<in> E} - set (order @ [n])) = 0"
      using fin [of t] by (auto simp: card_eq_0_iff)
    also have "\<dots> \<longleftrightarrow> card ({d. (d, t) \<in> E} - set order) - (if (n, t) \<in> E then 1 else 0) = 0" by (simp only: rest)
    finally have covered: "{d. (d, t) \<in> E} \<subseteq> set (order @ [n]) \<longleftrightarrow> card ({d. (d, t) \<in> E} - set order) - (if (n, t) \<in> E then 1 else 0) = 0" .
    have "t \<in> set ?new \<longleftrightarrow> (n, t) \<in> E \<and> card ({d. (d, t) \<in> E} - set order) = 1"
      using that by (auto simp: out(2) count)
    also have "\<dots> \<longleftrightarrow> (n, t) \<in> E \<and> {d. (d, t) \<in> E} \<subseteq> set (order @ [n])"
      unfolding covered using pos [of t] by auto
    finally show ?thesis .
  qed
  have iff: "{d. (d, x) \<in> E} \<subseteq> set (order @ [n]) \<longleftrightarrow> x \<in> set ((order @ [n]) @ ready @ ?new)" if "x \<in> ids" for x
  proof (cases "(n, x) \<in> E")
    case True
    then have "x \<notin> set (order @ n # ready)" using fresh [of x] out(2) that by auto
    with new [OF that] True show ?thesis by auto
  next
    case False
    with new [OF that] done_iff [OF that] show ?thesis by auto
  qed
  have "respects_edges E (order @ [n])"
    using inv done_iff [OF n(3)] by (intro respects_edges_snoc) (auto simp: kahn_inv_def)
  moreover have "distinct ((order @ [n]) @ ready @ ?new)" using n out(1) fresh by auto
  moreover have "set ((order @ [n]) @ ready @ ?new) \<subseteq> ids" using inv out(2) by (auto simp: kahn_inv_def)
  ultimately show ?thesis
    unfolding kahn_inv_def using new_count iff by (simp add: release_all(2) [OF out(1)])
qed

lemma kahn_ends:
  assumes "\<And>x. finite {d. (d, x) \<in> E}" and "\<And>d. distinct (out d)" and "\<And>d. set (out d) = {x \<in> ids. (d, x) \<in> E}"
    and "kahn_inv ids E ready inc order"
  shows "\<exists>inc'. kahn_inv ids E [] inc' (kahn out ready inc order)"
  using assms
proof (induction out ready inc order rule: kahn.induct)
  case (2 out n ready inc order)
  have "kahn_inv ids E (snd (fold release (sort (out n)) (inc, ready))) (fst (fold release (sort (out n)) (inc, ready))) (order @ [n])"
    by (rule kahn_step [OF 2(5,2)]) (simp_all add: 2(3,4))
  from 2(1) [OF 2(2-4) this] show ?case by simp
qed auto

lemma workflow_edges_set: "set (workflow_edges nodes) = {(d, wn_node_id n) | d n. n \<in> set nodes \<and> d \<in> set (wn_depends_on n)}"
  by (auto simp: workflow_edges_def sorted_set_def)

text \<open>The workflow's nodes are distinct and their dependencies are among them.\<close>

definition closed_workflow :: "workflow_node list \<Rightarrow> bool" where
  "closed_workflow nodes = (distinct (map wn_node_id nodes) \<and>
     (\<forall>n \<in> set nodes. set (wn_depends_on n) \<subseteq> set (map wn_node_id nodes)))"

lemma dependencies_of:
  assumes "closed_workflow nodes" and "n \<in> set nodes"
  shows "{d. (d, wn_node_id n) \<in> set (workflow_edges nodes)} = set (wn_depends_on n)"
proof -
  have "inj_on wn_node_id (set nodes)" using assms(1) by (simp add: closed_workflow_def distinct_map)
  then show ?thesis using assms(2) by (auto simp: workflow_edges_set dest: inj_onD)
qed

lemma dependents_edges:
  assumes "closed_workflow nodes"
  shows "distinct (dependents nodes d)"
    and "set (dependents nodes d) = {x \<in> set (map wn_node_id nodes). (d, x) \<in> set (workflow_edges nodes)}"
proof -
  show "distinct (dependents nodes d)"
    using assms by (auto simp: closed_workflow_def dependents_def intro: distinct_map_filter)
  show "set (dependents nodes d) = {x \<in> set (map wn_node_id nodes). (d, x) \<in> set (workflow_edges nodes)}"
    by (auto simp: dependents_def workflow_edges_set)
qed

lemma open_dependencies_get:
  assumes "closed_workflow nodes" and "x \<in> set (map wn_node_id nodes)"
  shows "dict_getd (open_dependencies nodes) x 0 = int (card {d. (d, x) \<in> set (workflow_edges nodes)})"
proof -
  from assms(2) obtain n where n: "n \<in> set nodes" "wn_node_id n = x" by auto
  have "distinct (map fst (open_dependencies nodes))"
    using assms(1) by (simp add: open_dependencies_def closed_workflow_def comp_def)
  moreover have "(x, int (length (sorted_set (wn_depends_on n)))) \<in> set (open_dependencies nodes)"
    using n by (auto simp: open_dependencies_def)
  ultimately have "dict_get (open_dependencies nodes) x = Some (int (length (sorted_set (wn_depends_on n))))" by simp
  moreover have "length (sorted_set (wn_depends_on n)) = card (set (wn_depends_on n))"
    by (simp add: sorted_set_def distinct_card [symmetric])
  ultimately show ?thesis using dependencies_of [OF assms(1) n(1)] n(2) by (simp add: dict_getd_def)
qed

lemma finite_dependencies: "finite {d. (d, x) \<in> set (workflow_edges nodes)}"
  by (rule finite_subset [of _ "fst ` set (workflow_edges nodes)"]) (auto intro: rev_image_eqI)

definition start_ready :: "workflow_node list \<Rightarrow> string list" where
  "start_ready nodes = sort (map fst (filter (\<lambda>kv. snd kv = 0) (open_dependencies nodes)))"

lemma start_ready_set:
  assumes "closed_workflow nodes"
  shows "distinct (start_ready nodes)"
    and "x \<in> set (start_ready nodes) \<longleftrightarrow> x \<in> set (map wn_node_id nodes) \<and> {d. (d, x) \<in> set (workflow_edges nodes)} = {}"
proof -
  have d: "distinct (map fst (open_dependencies nodes))"
    using assms by (simp add: open_dependencies_def closed_workflow_def comp_def)
  then show "distinct (start_ready nodes)" by (auto simp: start_ready_def intro: distinct_map_filter)
  have "x \<in> set (start_ready nodes) \<longleftrightarrow> dict_get (open_dependencies nodes) x = Some 0"
    using d by (force simp: start_ready_def image_iff)
  also have "\<dots> \<longleftrightarrow> x \<in> set (map wn_node_id nodes) \<and> dict_getd (open_dependencies nodes) x 0 = 0"
  proof -
    have "dict_get (open_dependencies nodes) x = None \<longleftrightarrow> x \<notin> set (map wn_node_id nodes)"
      by (auto simp: map_of_eq_None_iff open_dependencies_def image_image)
    then show ?thesis by (cases "dict_get (open_dependencies nodes) x") (simp_all add: dict_getd_def)
  qed
  also have "\<dots> \<longleftrightarrow> x \<in> set (map wn_node_id nodes) \<and> {d. (d, x) \<in> set (workflow_edges nodes)} = {}"
    using open_dependencies_get [OF assms, of x] finite_dependencies by auto
  finally show "x \<in> set (start_ready nodes) \<longleftrightarrow> x \<in> set (map wn_node_id nodes) \<and> {d. (d, x) \<in> set (workflow_edges nodes)} = {}" .
qed

definition kahn_order :: "workflow_node list \<Rightarrow> string list" where
  "kahn_order nodes = kahn (dependents nodes) (start_ready nodes) (open_dependencies nodes) []"

lemma kahn_order_inv:
  assumes "closed_workflow nodes"
  obtains inc where "kahn_inv (set (map wn_node_id nodes)) (set (workflow_edges nodes)) [] inc (kahn_order nodes)"
proof -
  have "kahn_inv (set (map wn_node_id nodes)) (set (workflow_edges nodes)) (start_ready nodes) (open_dependencies nodes) []"
    using start_ready_set [OF assms] open_dependencies_get [OF assms] by (auto simp: kahn_inv_def respects_edges_def)
  from kahn_ends [OF finite_dependencies dependents_edges [OF assms] this] that show ?thesis by (auto simp: kahn_order_def)
qed

lemma respects_acyclic:
  assumes "respects_edges E order" and "distinct order" and "snd ` E \<subseteq> set order"
  shows "acyclic E"
proof -
  let ?at = "\<lambda>x. length (takeWhile (\<lambda>y. y \<noteq> x) order)"
  have "E \<subseteq> measure ?at"
  proof (rule subrelI)
    fix d x assume e: "(d, x) \<in> E"
    with assms(3) have "x \<in> set order" by force
    then obtain p q where o: "order = p @ x # q" "x \<notin> set p" by (meson split_list_first)
    with assms(1) e have "d \<in> set p" by (auto simp: respects_edges_def)
    then obtain p1 p2 where p: "p = p1 @ d # p2" "d \<notin> set p1" by (meson split_list_first)
    have "?at d = length p1" using p o by (simp add: takeWhile_append)
    moreover have "?at x = length p" using o by (simp add: takeWhile_append)
    ultimately show "(d, x) \<in> measure ?at" using p by simp
  qed
  then show ?thesis by (rule wf_acyclic [OF wf_subset [OF wf_measure]])
qed

lemma acyclic_complete:
  assumes "closed_workflow nodes" and "acyclic (set (workflow_edges nodes))"
    and "kahn_inv (set (map wn_node_id nodes)) (set (workflow_edges nodes)) [] inc order"
  shows "set (map wn_node_id nodes) \<subseteq> set order"
proof
  fix x assume "x \<in> set (map wn_node_id nodes)"
  have "wf (set (workflow_edges nodes))" by (rule finite_acyclic_wf [OF finite_set assms(2)])
  then show "x \<in> set (map wn_node_id nodes) \<Longrightarrow> x \<in> set order"
  proof (induction x rule: wf_induct_rule)
    case (less x)
    have "d \<in> set order" if "(d, x) \<in> set (workflow_edges nodes)" for d
    proof -
      from that assms(1) have "d \<in> set (map wn_node_id nodes)" by (auto simp: workflow_edges_set closed_workflow_def)
      with less.IH [OF that] show ?thesis .
    qed
    then have "{d. (d, x) \<in> set (workflow_edges nodes)} \<subseteq> set order" by blast
    with assms(3) less.prems show ?case by (auto simp: kahn_inv_def)
  qed
qed

lemma topological_order_eq:
  "topological_order nodes =
     (if \<not> distinct (map wn_node_id nodes) then Inl (CompilationError ''workflow node IDs must be unique'')
      else if \<not> closed_workflow nodes then Inl (CompilationError ''workflow dependencies do not exist'')
      else if length (kahn_order nodes) \<noteq> length nodes then Inl (CompilationError ''workflow graph contains a cycle'')
      else Inr (kahn_order nodes, sort (workflow_edges nodes)))"
  by (auto simp: topological_order_def Let_def closed_workflow_def kahn_order_def start_ready_def list_ex_iff)

lemma full_order_iff:
  assumes "closed_workflow nodes"
  shows "length (kahn_order nodes) = length nodes \<longleftrightarrow> acyclic (set (workflow_edges nodes))"
    and "length (kahn_order nodes) = length nodes \<Longrightarrow> set (kahn_order nodes) = set (map wn_node_id nodes)"
    and "distinct (kahn_order nodes)" and "respects_edges (set (workflow_edges nodes)) (kahn_order nodes)"
proof -
  obtain inc where inv: "kahn_inv (set (map wn_node_id nodes)) (set (workflow_edges nodes)) [] inc (kahn_order nodes)"
    by (rule kahn_order_inv [OF assms])
  then show d: "distinct (kahn_order nodes)" and r: "respects_edges (set (workflow_edges nodes)) (kahn_order nodes)"
    by (auto simp: kahn_inv_def)
  have sub: "set (kahn_order nodes) \<subseteq> set (map wn_node_id nodes)" using inv by (auto simp: kahn_inv_def)
  have ids: "card (set (map wn_node_id nodes)) = length nodes"
    using assms distinct_card [of "map wn_node_id nodes"] by (simp add: closed_workflow_def)
  show all: "set (kahn_order nodes) = set (map wn_node_id nodes)" if "length (kahn_order nodes) = length nodes"
    by (rule card_subset_eq [OF finite_set sub]) (use d that ids in \<open>simp add: distinct_card\<close>)
  show "length (kahn_order nodes) = length nodes \<longleftrightarrow> acyclic (set (workflow_edges nodes))"
  proof
    assume "length (kahn_order nodes) = length nodes"
    then have "snd ` set (workflow_edges nodes) \<subseteq> set (kahn_order nodes)" by (auto simp: all workflow_edges_set)
    then show "acyclic (set (workflow_edges nodes))" by (rule respects_acyclic [OF r d])
  next
    assume "acyclic (set (workflow_edges nodes))"
    with acyclic_complete [OF assms _ inv] sub have "set (kahn_order nodes) = set (map wn_node_id nodes)" by auto
    with ids d show "length (kahn_order nodes) = length nodes" by (metis distinct_card)
  qed
qed

section \<open>The search decides reachability\<close>

lemma successors_set: "y \<in> set (successors es x) \<longleftrightarrow> (x, y) \<in> set es"
  by (force simp: successors_def)

lemma search_sound: "search es target frontier visited \<Longrightarrow> \<exists>x \<in> set frontier. (x, target) \<in> (set es)\<^sup>*"
proof (induction es target frontier visited rule: search.induct)
  case (2 es target x frontier visited)
  show ?case
  proof (cases "x = target \<or> x \<in> set visited")
    case True
    with 2 show ?thesis by (auto split: if_splits)
  next
    case False
    with 2 obtain y where "y \<in> set (successors es x @ frontier)" "(y, target) \<in> (set es)\<^sup>*" by auto
    then show ?thesis by (auto simp: successors_set intro: converse_rtrancl_into_rtrancl)
  qed
qed simp

lemma search_complete:
  assumes "\<not> search es target frontier visited" and "target \<notin> set visited"
    and "\<forall>v \<in> set visited. set (successors es v) \<subseteq> set visited \<union> set frontier" and "x \<in> set visited \<union> set frontier"
  shows "(x, target) \<notin> (set es)\<^sup>*"
  using assms
proof (induction es target frontier visited rule: search.induct)
  case (1 es target visited)
  have "y \<in> set visited" if "(x, y) \<in> (set es)\<^sup>*" for y
    using that 1(3,4) by (induction rule: rtrancl_induct) (auto simp: subset_iff successors_set)
  with 1(2) show ?case by blast
next
  case (2 es target z frontier visited)
  then have z: "z \<noteq> target" by auto
  show ?case
  proof (cases "z \<in> set visited")
    case True
    with 2(3,4,5,6) z show ?thesis by (intro 2(1) [OF z True]) auto
  next
    case False
    with 2(3,4,5,6) z show ?thesis by (intro 2(2) [OF z False]) auto
  qed
qed

lemma reachable_iff: "reachable source target es \<longleftrightarrow> (source, target) \<in> (set es)\<^sup>*"
  using search_sound [of es target "[source]" "[]"] search_complete [of es target "[source]" "[]" source]
  unfolding reachable_def by (metis Un_iff empty_iff list.set(1) list.set_intros(1) list.simps(15) singletonD)

section \<open>Order and data flow\<close>

lemma precedes_trancl:
  assumes "respects_edges E order" and "(a, x) \<in> E\<^sup>+" and "x \<in> set order"
  shows "precedes order a x"
  using assms(2,3)
proof (induction rule: trancl_induct)
  case (base x)
  with assms(1) show ?case by (auto simp: precedes_def respects_edges_def)
next
  case (step y x)
  have "a \<in> set p" if "order = p @ x # q" for p q
  proof -
    from that assms(1) step.hyps(2) have "y \<in> set p" by (auto simp: respects_edges_def)
    then obtain p1 p2 where p: "p = p1 @ y # p2" by (meson split_list)
    with that have "order = p1 @ y # (p2 @ x # q)" "y \<in> set order" by simp_all
    with step.IH have "a \<in> set p1" unfolding precedes_def by blast
    with p show "a \<in> set p" by simp
  qed
  with step.prems show ?case by (simp add: precedes_def)
qed

lemma ordered:
  assumes "topological_order nodes = Inr (order, es)"
  shows "closed_workflow nodes" and "acyclic (set (workflow_edges nodes))" and "distinct order"
    and "set order = set (map wn_node_id nodes)" and "respects_edges (set es) order"
    and "set es = set (workflow_edges nodes)" and "sorted es"
proof -
  have c: "closed_workflow nodes" and o: "order = kahn_order nodes" and l: "length (kahn_order nodes) = length nodes"
    and e: "es = sort (workflow_edges nodes)"
    using assms by (auto simp: topological_order_eq split: if_splits)
  from c show "closed_workflow nodes" .
  from full_order_iff [OF c] l o show "acyclic (set (workflow_edges nodes))" and "distinct order"
    and "set order = set (map wn_node_id nodes)" by blast+
  from e show "set es = set (workflow_edges nodes)" and "sorted es" by simp_all
  from full_order_iff(4) [OF c] o e show "respects_edges (set es) order" by simp
qed

lemma reference_checked:
  assumes "check_reference ids es node r = Inr ()"
  obtains source where "jfield r ''$from'' = Some (JStr source)" and "source \<in> set ids" and "(source, node) \<in> (set es)\<^sup>+"
proof -
  from assms obtain source where s: "jstring (jfield r ''$from'') = Some source" "source \<in> set ids" "source \<noteq> node"
    "reachable source node es"
    by (auto simp: check_reference_def split: if_splits option.splits)
  from s(1) have "jfield r ''$from'' = Some (JStr source)" by (auto simp: jstring_def split: option.splits json.splits)
  moreover from s(3,4) have "(source, node) \<in> (set es)\<^sup>+" by (simp add: reachable_iff rtrancl_eq_or_trancl)
  ultimately show thesis using s(2) that by blast
qed

lemma references_have_source: "r \<in> set (references v) \<Longrightarrow> \<exists>d s. r = JObj d \<and> dict_get d ''$from'' = Some s"
  by (induction v rule: references.induct) (auto split: if_splits)

lemma pair_conflicts_none:
  assumes "pair_conflicts es left targets rest = Inr []" and "(right, inputs) \<in> set rest"
  shows "\<exists>others. node_targets inputs = Inr others \<and> (set targets \<inter> set others \<noteq> {} \<longrightarrow> serialized es left right)"
  using assms
proof (induction es left targets rest rule: pair_conflicts.induct)
  case (2 es left targets r i rest)
  from 2(2) obtain others where o: "node_targets i = Inr others" by (auto simp: bindR_Inr)
  let ?overlap = "remdups (filter (\<lambda>t. t \<in> set others) targets)"
  from 2(2) o have rest: "pair_conflicts es left targets rest = Inr []" and ok: "?overlap = [] \<or> serialized es left r"
    by (auto simp: bindR_Inr Let_def split: if_splits)
  have "set targets \<inter> set others = {}" if "?overlap = []" using that by (auto simp: filter_empty_conv)
  moreover have "sortable ?overlap" using 2(2) o by (auto simp: Let_def split: if_splits)
  ultimately show ?case using 2(1) [OF o refl _ rest] 2(3) o ok by auto
qed simp

text \<open>With no conflict reported, any two nodes that share a target are ordered by dependencies.\<close>

lemma target_conflicts_none:
  assumes "target_conflicts es nodes = Inr []" and "i < j" and "j < length nodes"
    and "node_targets (snd (nodes ! i)) = Inr a" and "node_targets (snd (nodes ! j)) = Inr b" and "set a \<inter> set b \<noteq> {}"
  shows "serialized es (fst (nodes ! i)) (fst (nodes ! j))"
  using assms(1-5)
proof (induction es nodes arbitrary: i j rule: target_conflicts.induct)
  case (2 es left inputs rest)
  from 2(3) obtain ts where ts: "node_targets inputs = Inr ts" by (auto simp: bindR_Inr)
  with 2(3) have pairs: "ts \<noteq> [] \<Longrightarrow> pair_conflicts es left ts rest = Inr []" and tail: "target_conflicts es rest = Inr []"
    by (auto simp: bindR_Inr split: if_splits)
  show ?case
  proof (cases i)
    case 0
    then have a: "a = ts" and j: "rest ! (j - 1) \<in> set rest" "((left, inputs) # rest) ! j = rest ! (j - 1)" using 2(4,5,6) ts by auto
    from a assms(6) have "ts \<noteq> []" by auto
    from pair_conflicts_none [OF pairs [OF this], of "fst (rest ! (j - 1))" "snd (rest ! (j - 1))"] j 2(7) a assms(6)
    show ?thesis by (auto simp: 0)
  next
    case (Suc k)
    then obtain l where l: "j = Suc l" using 2(4) by (cases j) auto
    have "serialized es (fst (rest ! k)) (fst (rest ! l))"
    proof (cases "ts = []")
      case True
      from 2(1) [OF ts True tail] 2(4-7) Suc l show ?thesis by simp
    next
      case False
      from 2(2) [OF ts False _ tail] pairs [OF False] 2(4-7) Suc l show ?thesis by simp
    qed
    with Suc l show ?thesis by simp
  qed
qed simp

section \<open>Properties\<close>

text \<open>C29. The compiler orders exactly the well-formed acyclic workflows: it returns an order if and only
  if node ids are distinct, every dependency is a node and the dependency graph has no cycle (with
  an error for each way to fail). The order lists every node once, each after all the nodes it
  depends on, and the edges returned are the dependency pairs in sorted order.\<close>

theorem topological_order_exact:
  "((\<exists>r. topological_order nodes = Inr r) \<longleftrightarrow> closed_workflow nodes \<and> acyclic (set (workflow_edges nodes))) \<and>
   (\<forall>order es. topological_order nodes = Inr (order, es) \<longrightarrow>
      distinct order \<and> set order = set (map wn_node_id nodes) \<and> set es = set (workflow_edges nodes) \<and> sorted es \<and>
      (\<forall>n \<in> set nodes. \<forall>d \<in> set (wn_depends_on n). precedes order d (wn_node_id n)))"
proof (intro conjI allI impI)
  show "(\<exists>r. topological_order nodes = Inr r) \<longleftrightarrow> closed_workflow nodes \<and> acyclic (set (workflow_edges nodes))"
    using full_order_iff(1) [of nodes] by (auto simp: topological_order_eq closed_workflow_def split: if_splits)
  fix order es assume t: "topological_order nodes = Inr (order, es)"
  note o = ordered [OF t]
  from o show "distinct order" "set order = set (map wn_node_id nodes)" "set es = set (workflow_edges nodes)" "sorted es"
    by blast+
  have "precedes order d (wn_node_id n)" if "n \<in> set nodes" "d \<in> set (wn_depends_on n)" for n d
  proof (rule precedes_trancl [OF o(5)])
    show "(d, wn_node_id n) \<in> (set es)\<^sup>+" using that o(6) by (auto simp: workflow_edges_set)
    show "wn_node_id n \<in> set order" using that(1) o(4) by simp
  qed
  then show "\<forall>n \<in> set nodes. \<forall>d \<in> set (wn_depends_on n). precedes order d (wn_node_id n)" by blast
qed

definition sample_node :: "string \<Rightarrow> string list \<Rightarrow> json \<Rightarrow> workflow_node" where
  "sample_node i ds v = \<lparr> wn_node_id = i, wn_command_id = ''code.edit@1'', wn_inputs = v, wn_depends_on = ds, wn_when = JObj [],
     wn_retry_limit = 0, wn_checkpoint = False \<rparr>"

definition sample_workflow :: "workflow_node list" where
  "sample_workflow = [sample_node ''c'' [''b'', ''a''] (JObj [(''text'', JObj [(''$from'', JStr ''a'')]), (''targets'', JList [JStr ''x.py''])]),
     sample_node ''b'' [''a''] (JObj []), sample_node ''a'' [] (JObj [(''targets'', JList [JStr ''x.py''])])]"

lemma sample_ordered:
  "topological_order sample_workflow = Inr ([''a'', ''b'', ''c''], [(''a'', ''b''), (''a'', ''c''), (''b'', ''c'')])"
  by code_simp

theorem topological_order_exact_witness:
  "closed_workflow sample_workflow \<and> precedes [''a'', ''b'', ''c''] ''b'' ''c''"
proof -
  have "closed_workflow sample_workflow"
    using topological_order_exact [of sample_workflow] sample_ordered by blast
  moreover have "precedes [''a'', ''b'', ''c''] ''b'' (wn_node_id (hd sample_workflow))"
    using topological_order_exact [of sample_workflow] sample_ordered by (auto simp: sample_workflow_def sample_node_def)
  ultimately show ?thesis by (simp add: sample_workflow_def sample_node_def)
qed


lemma sample_validated:
  "validate_references sample_workflow (JObj [(''result'', JObj [(''$from'', JStr ''c'')])])
     [(''a'', ''b''), (''a'', ''c''), (''b'', ''c'')] = Inr ()"
  by code_simp


end
