(* ===== verification/EgcfStore.thy ===== *)
theory EgcfStore
  imports EgcfRecords Persistence "HOL-Library.Product_Lexorder" "HOL-Library.Multiset"
begin

text \<open>
  The workflow engine's store (\<open>ourd/egcf/store.py\<close>): content-addressed object files, artifact files, the
  event log of \<open>ourd/persistence.py\<close>, and the SQLite projection the queries read. A file is the JSON value
  its text parses to (none when it cannot be read); \<open>put\<close> writes sorted keys, so what is read back is the
  envelope in normal form. The tables are dictionaries from their primary keys; the payload column is the
  text itself. The lemmas show that the projection is always what a rebuild from files and log computes.
\<close>

section \<open>Files\<close>

type_synonym object_files = "(string, json option) dict"

definition envelope :: "string \<Rightarrow> string \<Rightarrow> json \<Rightarrow> json" where
  "envelope object_type oid payload =
     JObj [(''schema_version'', JInt 1), (''object_type'', JStr object_type), (''object_id'', JStr oid), (''payload'', payload)]"

definition put_object :: "digest \<Rightarrow> string \<Rightarrow> json \<Rightarrow> object_files \<Rightarrow> (object_files \<times> string) res" where
  "put_object H object_type payload files =
     bindR (validate_record_payload object_type payload) (\<lambda>_.
     bindR (typed_id H object_type payload) (\<lambda>oid.
     bindR (parse_typed_id oid) (\<lambda>(_, h).
       case dict_get files h of
         None \<Rightarrow> Inr (dict_set h (Some (norm_json (envelope object_type oid payload))) files, oid)
       | Some None \<Rightarrow> Inl (ValueError ''existing object file is not JSON'')
       | Some (Some existing) \<Rightarrow>
           if canonical_json existing \<noteq> canonical_json (envelope object_type oid payload)
           then Inl (EGCFError ''immutable object collision'') else Inr (files, oid))))"

definition get_envelope :: "digest \<Rightarrow> object_files \<Rightarrow> string \<Rightarrow> (string, json) dict res" where
  "get_envelope H files oid =
     bindR (parse_typed_id oid) (\<lambda>(_, h). case dict_get files h of
       Some (Some (JObj e)) \<Rightarrow>
         if dict_get e ''object_id'' \<noteq> Some (JStr oid) then Inl (EGCFError ''object identity mismatch'')
         else let object_type = py_str (dict_getd e ''object_type'' (JStr [])); payload = jget e ''payload'' in
           bindR (validate_record_payload object_type payload) (\<lambda>_.
           bindR (typed_id H object_type payload) (\<lambda>actual.
             if actual \<noteq> oid then Inl (EGCFError ''object hash mismatch'') else Inr e))
     | Some (Some v) \<Rightarrow> Inl (AttributeError ''get'')
     | _ \<Rightarrow> Inl (EGCFError ''cannot read object''))"

definition get_object :: "digest \<Rightarrow> object_files \<Rightarrow> string \<Rightarrow> egcf_record res" where
  "get_object H files oid = bindR (get_envelope H files oid) (\<lambda>e.
     construct_record (py_str (jget e ''object_type'')) (jget e ''payload''))"

text \<open>
  One file of \<open>iter_envelopes\<close>: what it holds must be an envelope whose identifier the store can serve.
  The errors the source catches become one; a malformed identifier is not among them.
\<close>

definition entry_error :: "'a res \<Rightarrow> 'a res" where
  "entry_error m = (case m of
     Inl (KeyError _) \<Rightarrow> Inl (EGCFError ''invalid object store entry'')
   | Inl (OSError _) \<Rightarrow> Inl (EGCFError ''invalid object store entry'')
   | Inl (SchemaError _) \<Rightarrow> Inl (EGCFError ''invalid object store entry'')
   | Inl (EGCFError _) \<Rightarrow> Inl (EGCFError ''invalid object store entry'')
   | _ \<Rightarrow> m)"

definition read_entry :: "digest \<Rightarrow> object_files \<Rightarrow> string \<Rightarrow> (string, json) dict res" where
  "read_entry H files h = entry_error (case dict_get files h of
     Some (Some (JObj e)) \<Rightarrow> (case dict_get e ''object_id'' of
         None \<Rightarrow> Inl (KeyError ''object_id'')
       | Some v \<Rightarrow> bindR (get_envelope H files (py_str v)) (\<lambda>_. Inr e))
   | Some (Some v) \<Rightarrow> Inl (TypeError ''indices must be integers'')
   | _ \<Rightarrow> Inl (EGCFError ''not JSON''))"

definition iter_envelopes :: "digest \<Rightarrow> object_files \<Rightarrow> (string, json) dict list res" where
  "iter_envelopes H files = mapR (read_entry H files) (sort (map fst files))"

section \<open>The projection\<close>

record object_row =
  or_type :: string
  or_digest :: string
  or_payload_json :: string
  or_path :: string

type_synonym supersedence_row = "json \<times> json \<times> json"
type_synonym event_row = "json list \<times> string"

record index_tables =
  pj_objects :: "(string, object_row) dict"
  pj_supersedence :: "(json \<times> json, supersedence_row) dict"
  pj_events :: "(json, event_row) dict"

definition empty_projection :: index_tables where
  "empty_projection = \<lparr> pj_objects = [], pj_supersedence = [], pj_events = [] \<rparr>"

text \<open>\<open>INSERT OR IGNORE\<close>, and \<open>INSERT\<close>, which fails on a key in use.\<close>

definition insert_ignore :: "'k \<Rightarrow> 'v \<Rightarrow> ('k, 'v) dict \<Rightarrow> ('k, 'v) dict" where
  "insert_ignore k v d = (if dict_get d k = None then d @ [(k, v)] else d)"

definition insert_row :: "'k \<Rightarrow> 'v \<Rightarrow> ('k, 'v) dict \<Rightarrow> ('k, 'v) dict res" where
  "insert_row k v d = (if dict_get d k = None then Inr (d @ [(k, v)]) else Inl (ValueError ''UNIQUE constraint failed''))"

definition relative_path :: "string \<Rightarrow> string" where
  "relative_path h = ''objects/sha256/'' @ take 2 h @ ''/'' @ h @ ''.json''"

definition object_row_of :: "string \<Rightarrow> string \<Rightarrow> json \<Rightarrow> object_row" where
  "object_row_of object_type h payload = \<lparr> or_type = object_type, or_digest = h, or_payload_json = canonical_json payload, or_path = relative_path h \<rparr>"

definition event_row_of :: "event \<Rightarrow> event_row" where
  "event_row_of e = (map (jget e) [''timestamp'', ''previous_hash'', ''event_hash'', ''event_type'', ''payload_hash''], canonical_json (jget e ''payload''))"

section \<open>The store\<close>

record egcf_store =
  es_files :: object_files
  es_artifacts :: "(string, string) dict"
  es_projection :: index_tables
  es_log :: store
  es_parent_head :: string

text \<open>What a call takes from outside: the redaction rules, a fresh event's stamp, the time.\<close>

record call =
  cl_redactor :: redactor
  cl_stamp :: stamp
  cl_now :: string

definition index_event :: "event \<Rightarrow> index_tables \<Rightarrow> index_tables" where
  "index_event e p = p\<lparr>pj_events := insert_ignore (jget e ''event_id'') (event_row_of e) (pj_events p)\<rparr>"

definition log_event :: "digest \<Rightarrow> call \<Rightarrow> string \<Rightarrow> json \<Rightarrow> egcf_store \<Rightarrow> egcf_store" where
  "log_event H c event_type payload s =
     (let (l, e) = append_event H (cl_redactor c) (cl_stamp c) event_type payload (es_log s)
      in s\<lparr>es_log := l, es_projection := index_event e (es_projection s)\<rparr>)"

definition register :: "digest \<Rightarrow> call \<Rightarrow> string \<Rightarrow> egcf_record \<Rightarrow> egcf_store \<Rightarrow> (egcf_store \<times> string) res" where
  "register H c event_type r s =
     (let payload = to_payload r in
     bindR (typed_id H (er_type r) payload) (\<lambda>predicted.
     bindR (parse_typed_id predicted) (\<lambda>(_, predicted_digest).
     let existed = (dict_get (es_files s) predicted_digest \<noteq> None) in
     bindR (put_object H (er_type r) payload (es_files s)) (\<lambda>(files, oid).
     bindR (parse_typed_id oid) (\<lambda>(_, h).
     let p = es_projection s;
         s1 = s\<lparr>es_files := files, es_projection := p\<lparr>pj_objects := insert_ignore oid (object_row_of (er_type r) h payload) (pj_objects p)\<rparr>\<rparr>
     in Inr (if existed then s1
             else log_event H c event_type
               (JObj [(''object_id'', JStr oid), (''object_type'', JStr (er_type r)), (''parent_event_head'', JStr (es_parent_head s))]) s1,
           oid))))))"

definition store_get :: "digest \<Rightarrow> egcf_store \<Rightarrow> string \<Rightarrow> egcf_record res" where
  "store_get H s oid = get_object H (es_files s) oid"

text \<open>A record made by its class's constructor from named arguments.\<close>

definition make_record :: "string \<Rightarrow> (string, json) dict \<Rightarrow> egcf_record" where
  "make_record object_type args = (let fs = dict_getd RECORD_TYPES object_type ([], [])
     in \<lparr> er_type = object_type, er_fields = map (\<lambda>k. (k, dict_getd args k (dict_getd (snd fs) k JNull))) (field_names fs) \<rparr>)"

text \<open>\<open>B\<close> is \<open>sha256_bytes\<close>: the digest of a byte string.\<close>

definition put_artifact :: "(string \<Rightarrow> string) \<Rightarrow> string \<Rightarrow> egcf_store \<Rightarrow> (egcf_store \<times> string) res" where
  "put_artifact B content s = (let h = B content in
     case dict_get (es_artifacts s) h of
       Some old \<Rightarrow> if old \<noteq> content then Inl (EGCFError ''immutable artifact collision'') else Inr (s, h)
     | None \<Rightarrow> Inr (s\<lparr>es_artifacts := dict_set h content (es_artifacts s)\<rparr>, h))"

definition register_artifact ::
  "digest \<Rightarrow> (string \<Rightarrow> string) \<Rightarrow> call \<Rightarrow> string \<Rightarrow> string \<Rightarrow> string list \<Rightarrow> (string, json) dict \<Rightarrow> egcf_store \<Rightarrow> (egcf_store \<times> string) res" where
  "register_artifact H B c content media_type source_ids provenance s =
     bindR (put_artifact B content s) (\<lambda>(s1, h).
     register H c ''egcf_artifact_registered'' (make_record ''artifact''
       [(''media_type'', JStr media_type), (''sha256'', JStr h), (''size'', JInt (int (length content))),
        (''source_ids'', jstrs (from_keys source_ids)), (''provenance'', JObj provenance), (''created_at'', JStr (cl_now c)),
        (''path'', JStr (''artifacts/sha256/'' @ take 2 h @ ''/'' @ h))]) s1)"

definition supersede :: "digest \<Rightarrow> call \<Rightarrow> string \<Rightarrow> string \<Rightarrow> string \<Rightarrow> string \<Rightarrow> egcf_store \<Rightarrow> (egcf_store \<times> string) res" where
  "supersede H c old_id new_id reason authority s =
     bindR (store_get H s old_id) (\<lambda>_. bindR (store_get H s new_id) (\<lambda>_.
     bindR (register H c ''egcf_object_superseded'' (make_record ''supersedence''
       [(''old_id'', JStr old_id), (''new_id'', JStr new_id), (''reason'', JStr reason), (''authority'', JStr authority),
        (''created_at'', JStr (cl_now c))]) s) (\<lambda>(s1, record_id).
     let p = es_projection s1
     in Inr (s1\<lparr>es_projection := p\<lparr>pj_supersedence := insert_ignore (JStr old_id, JStr new_id)
               (JStr reason, JStr authority, JStr (cl_now c)) (pj_supersedence p)\<rparr>\<rparr>, record_id))))"

text \<open>The rows of a type (every type for the empty string), by type and identifier.\<close>

definition list_objects :: "egcf_store \<Rightarrow> string \<Rightarrow> (string \<times> object_row) list" where
  "list_objects s object_type = sort_key (\<lambda>(oid, row). (or_type row, oid))
     (filter (\<lambda>(oid, row). object_type = [] \<or> or_type row = object_type) (pj_objects (es_projection s)))"

definition find_records :: "digest \<Rightarrow> egcf_store \<Rightarrow> string \<Rightarrow> egcf_record list res" where
  "find_records H s object_type = mapR (\<lambda>(oid, row). store_get H s oid) (list_objects s object_type)"

definition active_ids :: "egcf_store \<Rightarrow> string \<Rightarrow> string list" where
  "active_ids s object_type = (let p = es_projection s in
     sort (map fst (filter (\<lambda>(oid, row). or_type row = object_type \<and> JStr oid \<notin> set (map (fst \<circ> fst) (pj_supersedence p))) (pj_objects p))))"

text \<open>\<open>rebuild_projection\<close>: on an error the transaction is dropped and the fresh tables stay empty.\<close>

definition rebuild_envelope :: "(string, json) dict \<Rightarrow> index_tables \<Rightarrow> index_tables res" where
  "rebuild_envelope e p =
     (let oid = py_str (jget e ''object_id''); object_type = py_str (jget e ''object_type''); payload = jget e ''payload'' in
      bindR (parse_typed_id oid) (\<lambda>(_, h).
      bindR (insert_row oid (object_row_of object_type h payload) (pj_objects p)) (\<lambda>objects.
      let q = p\<lparr>pj_objects := objects\<rparr>; d = (case payload of JObj d \<Rightarrow> d | _ \<Rightarrow> []) in
      Inr (if object_type = ''supersedence''
           then q\<lparr>pj_supersedence := insert_ignore (jget d ''old_id'', jget d ''new_id'')
                   (jget d ''reason'', jget d ''authority'', jget d ''created_at'') (pj_supersedence q)\<rparr>
           else q))))"

definition rebuild_event :: "event \<Rightarrow> index_tables \<Rightarrow> index_tables res" where
  "rebuild_event e p = bindR (insert_row (jget e ''event_id'') (event_row_of e) (pj_events p)) (\<lambda>es. Inr (p\<lparr>pj_events := es\<rparr>))"

definition rebuilt :: "digest \<Rightarrow> egcf_store \<Rightarrow> index_tables res" where
  "rebuilt H s = bindR (iter_envelopes H (es_files s)) (\<lambda>envelopes.
     bindR (foldR rebuild_envelope envelopes empty_projection) (\<lambda>p. foldR rebuild_event (ss_events (es_log s)) p))"

definition rebuild_projection :: "digest \<Rightarrow> egcf_store \<Rightarrow> egcf_store \<times> unit res" where
  "rebuild_projection H s = (case rebuilt H s of
     Inl e \<Rightarrow> (s\<lparr>es_projection := empty_projection\<rparr>, Inl e)
   | Inr p \<Rightarrow> (s\<lparr>es_projection := p\<rparr>, Inr ()))"

section \<open>Identifiers and files\<close>

text \<open>What a hexadecimal SHA-256 digest is here: 64 characters, none of them a colon.\<close>

definition sha_like :: "digest \<Rightarrow> bool" where
  "sha_like H = (\<forall>t. length (H t) = 64 \<and> CHR '':'' \<notin> set (H t))"

definition address_material :: "string \<times> json \<Rightarrow> json" where
  "address_material tp = JObj [(''object_type'', JStr (fst tp)), (''payload'', snd tp)]"

definition address :: "digest \<Rightarrow> string \<Rightarrow> json \<Rightarrow> string" where
  "address H object_type payload = stable_hash H (address_material (object_type, payload))"

definition oid_of :: "digest \<Rightarrow> string \<Rightarrow> json \<Rightarrow> string" where
  "oid_of H object_type payload = object_type @ '':sha256:'' @ address H object_type payload"

interpretation object_address: content_address address_material "\<lambda>(t, p). (t, norm_json p)" "\<lambda>_. True"
proof
  fix x y :: "string \<times> json"
  assume "norm_json (address_material x) = norm_json (address_material y)"
  then show "(case x of (t, p) \<Rightarrow> (t, norm_json p)) = (case y of (t, p) \<Rightarrow> (t, norm_json p))"
    by (cases x; cases y) (simp add: address_material_def norm_obj_eq)
qed

lemma known_type:
  assumes "dict_get RECORD_TYPES t \<noteq> None"
  shows "replace_char (CHR ''_'') (CHR ''-'') (lower (strip t)) = t" and "t \<noteq> []" and "CHR '':'' \<notin> set t"
proof -
  have "list_all (\<lambda>t. replace_char (CHR ''_'') (CHR ''-'') (lower (strip t)) = t \<and> t \<noteq> [] \<and> CHR '':'' \<notin> set t)
      (map fst RECORD_TYPES)" by code_simp
  moreover from assms have "t \<in> set (map fst RECORD_TYPES)" by (auto dest!: map_of_SomeD intro: rev_image_eqI)
  ultimately show "replace_char (CHR ''_'') (CHR ''-'') (lower (strip t)) = t" and "t \<noteq> []" and "CHR '':'' \<notin> set t"
    by (auto simp: list_all_iff)
qed

lemma typed_id_known: "dict_get RECORD_TYPES t \<noteq> None \<Longrightarrow> typed_id H t p = Inr (oid_of H t p)"
  using known_type [of t] by (simp add: typed_id_def Let_def oid_of_def address_def address_material_def)

lemma parse_oid:
  assumes "sha_like H" and "CHR '':'' \<notin> set t"
  shows "parse_typed_id (oid_of H t p) = Inr (t, address H t p)"
proof -
  have "oid_of H t p = join '':'' [t, ''sha256'', address H t p]" by (simp add: oid_of_def)
  moreover have "CHR '':'' \<notin> set (address H t p)" "length (address H t p) = 64"
    using assms(1) by (simp_all add: sha_like_def address_def stable_hash_def)
  ultimately have "split_on (CHR '':'') (oid_of H t p) = [t, ''sha256'', address H t p]"
    using assms(2) by (simp only:) (rule split_on_join, auto)
  with \<open>length (address H t p) = 64\<close> show ?thesis by (simp add: parse_typed_id_def)
qed

lemma norm_idem: "norm_json (norm_json v) = norm_json v"
proof (induction v rule: norm_json.induct)
  case (2 kvs)
  let ?n = "\<lambda>kv. (fst kv, norm_json (snd kv))"
  have insort: "insort_key fst (?n kv) (map ?n xs) = map ?n (insort_key fst kv xs)" for kv xs by (induction xs) auto
  have commute: "sort_key fst (map ?n xs) = map ?n (sort_key fst xs)" for xs
  proof (induction xs)
    case (Cons x xs)
    then show ?case using insort [of x "sort_key fst xs"] by (simp only: list.map sort_key_simps)
  qed simp
  have "sort_key fst (map ?n (sort_key fst (map ?n kvs))) = sort_key fst (sort_key fst (map ?n (map ?n kvs)))" by (simp only: commute)
  also have "map ?n (map ?n kvs) = map ?n kvs" using 2 by auto
  finally show ?case by (simp add: sort_key_id_if_sorted)
qed (auto simp: comp_def)

lemma address_norm: "address H t (norm_json p) = address H t p"
proof -
  have "canonical_json (address_material (t, norm_json p)) = canonical_json (address_material (t, p))"
    by (simp add: canonical_json_eq address_material_def norm_idem)
  then show ?thesis by (simp only: address_def stable_hash_def)
qed

lemma oid_norm: "oid_of H t (norm_json p) = oid_of H t p" by (simp add: oid_of_def address_norm)

definition stored_envelope :: "digest \<Rightarrow> string \<Rightarrow> json \<Rightarrow> json" where
  "stored_envelope H t p = JObj [(''object_id'', JStr (oid_of H t p)), (''object_type'', JStr t), (''payload'', p), (''schema_version'', JInt 1)]"

lemma norm_envelope: "norm_json (envelope t (oid_of H t p) p) = stored_envelope H t (norm_json p)"
  by (simp add: envelope_def stored_envelope_def oid_norm)

lemma validate_known: "validate_record_payload t p = Inr () \<Longrightarrow> dict_get RECORD_TYPES t \<noteq> None \<and> (\<exists>d. p = JObj d)"
  by (auto simp: validate_record_payload_def split: option.splits json.splits)

lemma norm_dict:
  assumes "distinct (map fst d)"
  obtains e where "norm_json (JObj d) = JObj e" and "distinct (map fst e)"
    and "\<forall>k. dict_get e k = map_option norm_json (dict_get d k)" and "fst ` set e = fst ` set d"
proof
  let ?n = "\<lambda>kv. (fst kv, norm_json (snd kv))"
  let ?e = "sort_key fst (map ?n d)"
  have m: "map fst (map ?n d) = map fst d" by simp
  show "norm_json (JObj d) = JObj ?e" by simp
  show "distinct (map fst ?e)" using assms m by (auto simp: distinct_map inj_on_def)
  show "\<forall>k. dict_get ?e k = map_option norm_json (dict_get d k)"
  proof
    fix k
    have "dict_get ?e k = dict_get (map ?n d) k" using map_of_sort_key_fst [of "map ?n d"] assms by (simp only: m)
    also have "\<dots> = map_option norm_json (dict_get d k)" by (induction d) auto
    finally show "dict_get ?e k = map_option norm_json (dict_get d k)" .
  qed
  show "fst ` set ?e = fst ` set d" by (simp add: image_image)
qed

lemma validate_norm:
  assumes "distinct (map fst d)"
  shows "validate_record_payload t (norm_json (JObj d)) = validate_record_payload t (JObj d)"
proof -
  obtain e where e: "norm_json (JObj d) = JObj e" "distinct (map fst e)" "\<forall>k. dict_get e k = map_option norm_json (dict_get d k)"
    "fst ` set e = fst ` set d" by (rule norm_dict [OF assms])
  have unknown: "list_ex (\<lambda>kv. fst kv \<notin> A) e = list_ex (\<lambda>kv. fst kv \<notin> A) d" for A
  proof -
    have ex: "list_ex (\<lambda>kv. fst kv \<notin> A) d' \<longleftrightarrow> (\<exists>k \<in> fst ` set d'. k \<notin> A)" for d' :: "(string \<times> json) list" by (auto simp: list_ex_iff)
    show ?thesis unfolding ex e(4) ..
  qed
  have none: "dict_get e k = None \<longleftrightarrow> dict_get d k = None" for k by (simp add: e(3))
  show ?thesis unfolding validate_record_payload_def e(1) json.case unknown none by (rule refl)
qed

text \<open>Every file holds the envelope of a valid record in normal form, under the digest it names.\<close>

definition files_ok :: "digest \<Rightarrow> object_files \<Rightarrow> bool" where
  "files_ok H files = (distinct (map fst files) \<and>
     (\<forall>h v. dict_get files h = Some v \<longrightarrow> (\<exists>t d. v = Some (stored_envelope H t (JObj d)) \<and> h = address H t (JObj d) \<and>
        validate_record_payload t (JObj d) = Inr () \<and> norm_json (JObj d) = JObj d \<and> distinct (map fst d))))"

lemma validated_ids:
  assumes "sha_like H" and "validate_record_payload t p = Inr ()"
  shows "typed_id H t p = Inr (oid_of H t p)" and "parse_typed_id (oid_of H t p) = Inr (t, address H t p)"
proof -
  from validate_known [OF assms(2)] have k: "dict_get RECORD_TYPES t \<noteq> None" by blast
  show "typed_id H t p = Inr (oid_of H t p)" by (rule typed_id_known [OF k])
  show "parse_typed_id (oid_of H t p) = Inr (t, address H t p)" by (rule parse_oid [OF assms(1) known_type(3) [OF k]])
qed

lemma get_stored:
  assumes "sha_like H" and "validate_record_payload t p = Inr ()" and "dict_get files (address H t p) = Some (Some (stored_envelope H t p))"
  shows "get_envelope H files (oid_of H t p) = Inr [(''object_id'', JStr (oid_of H t p)), (''object_type'', JStr t), (''payload'', p), (''schema_version'', JInt 1)]"
    and "get_object H files (oid_of H t p) = construct_record t p"
proof -
  show e: "get_envelope H files (oid_of H t p) = Inr [(''object_id'', JStr (oid_of H t p)), (''object_type'', JStr t), (''payload'', p), (''schema_version'', JInt 1)]"
    by (simp add: get_envelope_def validated_ids [OF assms(1,2)] assms(2,3) stored_envelope_def jget_def dict_getd_def py_str_def Let_def)
  show "get_object H files (oid_of H t p) = construct_record t p"
    by (simp add: get_object_def e jget_def dict_getd_def py_str_def)
qed

text \<open>What a write does, in full: nothing where the object is there, and otherwise one new file.\<close>

lemma put_object_effect:
  assumes "sha_like H" and "files_ok H files" and "distinct (map fst d)"
    and "put_object H t (JObj d) files = Inr (files', oid)"
  obtains e where "norm_json (JObj d) = JObj e" and "validate_record_payload t (JObj d) = Inr ()" and "oid = oid_of H t (JObj d)"
    and "files' = (if dict_get files (address H t (JObj d)) = None then dict_set (address H t (JObj d)) (Some (stored_envelope H t (JObj e))) files else files)"
    and "dict_get files' (address H t (JObj d)) = Some (Some (stored_envelope H t (JObj e)))"
    and "files_ok H files'"
proof -
  have v: "validate_record_payload t (JObj d) = Inr ()"
  proof (cases "validate_record_payload t (JObj d)")
    case (Inl x)
    then have "put_object H t (JObj d) files = Inl x" by (simp only: put_object_def bindR_simps)
    with assms(4) show ?thesis by simp
  qed simp
  note ids = validated_ids [OF assms(1) v]
  obtain e where e: "norm_json (JObj d) = JObj e" "distinct (map fst e)" by (rule norm_dict [OF assms(3)])
  let ?h = "address H t (JObj d)"
  have env: "norm_json (envelope t (oid_of H t (JObj d)) (JObj d)) = stored_envelope H t (JObj e)"
    by (simp only: norm_envelope e(1))
  have put: "put_object H t (JObj d) files = (case dict_get files ?h of
       None \<Rightarrow> Inr (dict_set ?h (Some (stored_envelope H t (JObj e))) files, oid_of H t (JObj d))
     | Some None \<Rightarrow> Inl (ValueError ''existing object file is not JSON'')
     | Some (Some existing) \<Rightarrow> if norm_json existing \<noteq> stored_envelope H t (JObj e)
         then Inl (EGCFError ''immutable object collision'') else Inr (files, oid_of H t (JObj d)))"
    unfolding put_object_def v ids bindR_simps canonical_json_eq env prod.case by (rule refl)
  have stored: "\<exists>x. f = Some x \<and> norm_json x = x" if "dict_get files ?h = Some f" for f
  proof -
    from that assms(2) obtain t' d' where "f = Some (stored_envelope H t' (JObj d'))" "norm_json (JObj d') = JObj d'"
      unfolding files_ok_def by blast
    then show ?thesis by (simp add: stored_envelope_def)
  qed
  have oid: "oid = oid_of H t (JObj d)"
    and files': "files' = (if dict_get files ?h = None then dict_set ?h (Some (stored_envelope H t (JObj e))) files else files)"
    and there: "dict_get files ?h \<noteq> None \<Longrightarrow> dict_get files ?h = Some (Some (stored_envelope H t (JObj e)))"
    using assms(4) [unfolded put] stored by (cases "dict_get files ?h"; force split: option.splits if_splits)+
  have get: "dict_get files' ?h = Some (Some (stored_envelope H t (JObj e)))" using there by (simp add: files')
  have "files_ok H files'"
  proof (cases "dict_get files ?h = None")
    case True
    have "?h = address H t (JObj e)" using address_norm [of H t "JObj d"] e(1) by simp
    moreover have "validate_record_payload t (JObj e) = Inr ()" using validate_norm [OF assms(3), of t] e(1) v by simp
    moreover have "norm_json (JObj e) = JObj e" using norm_idem [of "JObj d"] e(1) by simp
    ultimately have "\<exists>t' d'. Some (stored_envelope H t (JObj e)) = Some (stored_envelope H t' (JObj d')) \<and> ?h = address H t' (JObj d') \<and>
        validate_record_payload t' (JObj d') = Inr () \<and> norm_json (JObj d') = JObj d' \<and> distinct (map fst d')" using e(2) by blast
    moreover have "distinct (map fst files')" using assms(2) by (simp add: files_ok_def files' distinct_update)
    ultimately show ?thesis using assms(2) True unfolding files_ok_def by (simp add: files')
  next
    case False
    then have "files' = files" unfolding files' by (rule if_not_P)
    with assms(2) show ?thesis by simp
  qed
  with that [OF e(1) v oid files' get] show thesis .
qed

section \<open>What a registration does\<close>

lemma register_effect:
  assumes "sha_like H" and "files_ok H (es_files s)" and "distinct (map fst (er_fields r))"
    and "register H c event_type r s = Inr (s', oid)"
  defines "h \<equiv> address H (er_type r) (to_payload r)"
  defines "old \<equiv> dict_get (es_files s) h \<noteq> None"
  defines "appended \<equiv> append_event H (cl_redactor c) (cl_stamp c) event_type
       (JObj [(''object_id'', JStr oid), (''object_type'', JStr (er_type r)), (''parent_event_head'', JStr (es_parent_head s))]) (es_log s)"
  obtains e where "norm_json (to_payload r) = JObj e" and "validate_record_payload (er_type r) (to_payload r) = Inr ()"
    and "oid = oid_of H (er_type r) (to_payload r)"
    and "es_files s' = (if old then es_files s else dict_set h (Some (stored_envelope H (er_type r) (JObj e))) (es_files s))"
    and "dict_get (es_files s') h = Some (Some (stored_envelope H (er_type r) (JObj e)))" and "files_ok H (es_files s')"
    and "pj_objects (es_projection s') = insert_ignore oid (object_row_of (er_type r) h (to_payload r)) (pj_objects (es_projection s))"
    and "pj_supersedence (es_projection s') = pj_supersedence (es_projection s)"
    and "es_log s' = (if old then es_log s else fst appended)"
    and "pj_events (es_projection s') = (if old then pj_events (es_projection s)
           else insert_ignore (jget (snd appended) ''event_id'') (event_row_of (snd appended)) (pj_events (es_projection s)))"
    and "es_artifacts s' = es_artifacts s" and "es_parent_head s' = es_parent_head s"
proof -
  obtain pid where pid: "typed_id H (er_type r) (to_payload r) = Inr pid"
    using assms(4) by (auto simp only: register_def Let_def bindR_Inr)
  obtain kind ph where ph: "parse_typed_id pid = Inr (kind, ph)"
    using assms(4) by (auto simp only: register_def Let_def bindR_Inr pid)
  obtain files where put: "put_object H (er_type r) (JObj (er_fields r)) (es_files s) = Inr (files, oid)"
    using assms(4) unfolding register_def Let_def pid ph bindR_simps prod.case to_payload_def [symmetric]
    by (auto simp only: bindR_Inr prod.case split_paired_Ex prod.inject sum.inject)
  obtain e where e: "norm_json (JObj (er_fields r)) = JObj e" "validate_record_payload (er_type r) (JObj (er_fields r)) = Inr ()"
      "oid = oid_of H (er_type r) (JObj (er_fields r))"
      "files = (if dict_get (es_files s) (address H (er_type r) (JObj (er_fields r))) = None
         then dict_set (address H (er_type r) (JObj (er_fields r))) (Some (stored_envelope H (er_type r) (JObj e))) (es_files s) else es_files s)"
      "dict_get files (address H (er_type r) (JObj (er_fields r))) = Some (Some (stored_envelope H (er_type r) (JObj e)))" "files_ok H files"
    by (rule put_object_effect [OF assms(1-3) put])
  note ids = validated_ids [OF assms(1) e(2)]
  have h: "ph = h" "parse_typed_id oid = Inr (er_type r, h)"
    using pid ph ids e(3) by (simp_all add: to_payload_def h_def)
  let ?p = "es_projection s"
  let ?s1 = "s\<lparr>es_files := files, es_projection := ?p\<lparr>pj_objects := insert_ignore oid (object_row_of (er_type r) h (to_payload r)) (pj_objects ?p)\<rparr>\<rparr>"
  have s': "s' = (if old then ?s1 else log_event H c event_type
      (JObj [(''object_id'', JStr oid), (''object_type'', JStr (er_type r)), (''parent_event_head'', JStr (es_parent_head s))]) ?s1)"
    using assms(4) put unfolding register_def Let_def pid ph bindR_simps prod.case to_payload_def [symmetric] old_def
    by (simp add: h to_payload_def)
  show thesis
    by (rule that [of e]) (use e s' in \<open>auto simp: h_def to_payload_def old_def appended_def log_event_def index_event_def case_prod_beta\<close>)
qed

section \<open>The projection is what a rebuild computes\<close>

definition envelopes :: "object_files \<Rightarrow> (string, json) dict set" where
  "envelopes files = {e. \<exists>h. dict_get files h = Some (Some (JObj e))}"

definition row_of :: "(string, json) dict \<Rightarrow> string \<times> object_row" where
  "row_of e = (let oid = py_str (jget e ''object_id'') in
     (oid, object_row_of (py_str (jget e ''object_type'')) (case parse_typed_id oid of Inr (_, h) \<Rightarrow> h | Inl _ \<Rightarrow> []) (jget e ''payload'')))"

definition is_supersedence :: "(string, json) dict \<Rightarrow> bool" where
  "is_supersedence e = (py_str (jget e ''object_type'') = ''supersedence'')"

definition pair_of :: "(string, json) dict \<Rightarrow> json \<times> json" where
  "pair_of e = (let d = (case jget e ''payload'' of JObj d \<Rightarrow> d | _ \<Rightarrow> []) in (jget d ''old_id'', jget d ''new_id''))"

definition event_entry :: "event \<Rightarrow> json \<times> event_row" where
  "event_entry e = (jget e ''event_id'', event_row_of e)"

definition log_distinct :: "egcf_store \<Rightarrow> bool" where
  "log_distinct s = distinct (map (\<lambda>e. jget e ''event_id'') (ss_events (es_log s)))"

definition projects :: "index_tables \<Rightarrow> object_files \<Rightarrow> event list \<Rightarrow> bool" where
  "projects p files es = (distinct (map fst (pj_objects p)) \<and> set (pj_objects p) = row_of ` envelopes files \<and>
     fst ` set (pj_supersedence p) = pair_of ` {e \<in> envelopes files. is_supersedence e} \<and>
     distinct (map fst (pj_events p)) \<and> set (pj_events p) = event_entry ` set es)"

definition store_ok :: "digest \<Rightarrow> egcf_store \<Rightarrow> bool" where
  "store_ok H s = (files_ok H (es_files s) \<and> log_distinct s \<and> projects (es_projection s) (es_files s) (ss_events (es_log s)))"

lemma insert_ignore_keys: "fst ` set (insert_ignore k v d) = insert k (fst ` set d)"
  by (auto simp: insert_ignore_def dest: map_of_SomeD intro: rev_image_eqI)

lemma insert_ignore_distinct: "distinct (map fst d) \<Longrightarrow> distinct (map fst (insert_ignore k v d))"
  by (auto simp: insert_ignore_def map_of_eq_None_iff)

lemma insert_ignore_set:
  "distinct (map fst d) \<Longrightarrow> (k \<in> fst ` set d \<Longrightarrow> (k, v) \<in> set d) \<Longrightarrow> set (insert_ignore k v d) = insert (k, v) (set d)"
  by (auto simp: insert_ignore_def map_of_eq_None_iff)

lemma envelopes_set:
  assumes "dict_get files h = None"
  shows "envelopes (dict_set h (Some (JObj e)) files) = insert e (envelopes files)"
proof -
  have "(\<exists>k. dict_get (dict_set h (Some (JObj e)) files) k = Some (Some (JObj x))) \<longleftrightarrow>
      x = e \<or> (\<exists>k. dict_get files k = Some (Some (JObj x)))" for x
    using assms by (metis dict_get_set json.inject(5) option.distinct(1) option.inject)
  then show ?thesis by (auto simp: envelopes_def)
qed

lemma known_envelope:
  assumes "files_ok H files" and "e \<in> envelopes files"
  obtains t d where "JObj e = stored_envelope H t (JObj d)" and "dict_get files (address H t (JObj d)) = Some (Some (JObj e))"
    and "validate_record_payload t (JObj d) = Inr ()" and "norm_json (JObj d) = JObj d"
proof -
  from assms(2) obtain h where h: "dict_get files h = Some (Some (JObj e))" by (auto simp: envelopes_def)
  with assms(1) obtain t d where "Some (JObj e) = Some (stored_envelope H t (JObj d))" "h = address H t (JObj d)"
    "validate_record_payload t (JObj d) = Inr ()" "norm_json (JObj d) = JObj d" unfolding files_ok_def by blast
  with h that show thesis by simp
qed

lemma row_of_stored:
  assumes "sha_like H" and "JObj e = stored_envelope H t (JObj d)" and "validate_record_payload t (JObj d) = Inr ()"
  shows "row_of e = (oid_of H t (JObj d), object_row_of t (address H t (JObj d)) (JObj d))"
    and "is_supersedence e \<longleftrightarrow> t = ''supersedence''" and "pair_of e = (jget d ''old_id'', jget d ''new_id'')"
    and "py_str (jget e ''object_type'') = t" and "jget e ''payload'' = JObj d" and "py_str (jget e ''object_id'') = oid_of H t (JObj d)"
  using assms(2) validated_ids(2) [OF assms(1,3)]
  by (simp_all add: stored_envelope_def row_of_def is_supersedence_def pair_of_def jget_def dict_getd_def py_str_def Let_def)

text \<open>Files are found again by the identifier their envelope names.\<close>

lemma row_key_inj:
  assumes "sha_like H" and "files_ok H files"
  shows "inj_on (fst \<circ> row_of) (envelopes files)"
proof (rule inj_onI)
  fix e f assume e: "e \<in> envelopes files" and f: "f \<in> envelopes files" and eq: "(fst \<circ> row_of) e = (fst \<circ> row_of) f"
  obtain t d where d: "JObj e = stored_envelope H t (JObj d)" "dict_get files (address H t (JObj d)) = Some (Some (JObj e))"
    "validate_record_payload t (JObj d) = Inr ()" "norm_json (JObj d) = JObj d" by (rule known_envelope [OF assms(2) e])
  obtain u g where g: "JObj f = stored_envelope H u (JObj g)" "dict_get files (address H u (JObj g)) = Some (Some (JObj f))"
    "validate_record_payload u (JObj g) = Inr ()" "norm_json (JObj g) = JObj g" by (rule known_envelope [OF assms(2) f])
  have "parse_typed_id (oid_of H t (JObj d)) = parse_typed_id (oid_of H u (JObj g))"
    using eq row_of_stored(1) [OF assms(1) d(1,3)] row_of_stored(1) [OF assms(1) g(1,3)] by simp
  then have "Inr (t, address H t (JObj d)) = (Inr (u, address H u (JObj g)) :: (string \<times> string) res)"
    by (simp only: validated_ids(2) [OF assms(1) d(3)] validated_ids(2) [OF assms(1) g(3)])
  then have "(t, address H t (JObj d)) = (u, address H u (JObj g))" by (rule sum.inject(2) [THEN iffD1])
  then have "address H t (JObj d) = address H u (JObj g)" by (rule prod.inject [THEN iffD1, THEN conjunct2])
  with d(2) g(2) show "e = f" by simp
qed

lemma read_entry_ok:
  assumes "sha_like H" and "files_ok H files" and "h \<in> set (map fst files)"
  shows "\<exists>e. read_entry H files h = Inr e \<and> dict_get files h = Some (Some (JObj e))"
proof -
  from assms(3) obtain v where v: "dict_get files h = Some v" by (metis map_of_eq_None_iff option.exhaust set_map)
  with assms(2) obtain t d where d: "v = Some (stored_envelope H t (JObj d))" "h = address H t (JObj d)"
    "validate_record_payload t (JObj d) = Inr ()" unfolding files_ok_def by blast
  let ?e = "[(''object_id'', JStr (oid_of H t (JObj d))), (''object_type'', JStr t), (''payload'', JObj d), (''schema_version'', JInt 1)]"
  have f: "dict_get files h = Some (Some (JObj ?e))" using v d(1) by (simp add: stored_envelope_def)
  have "get_envelope H files (oid_of H t (JObj d)) = Inr ?e"
    by (rule get_stored(1) [OF assms(1) d(3)]) (use v d in simp)
  then have "read_entry H files h = Inr ?e" by (simp add: read_entry_def f py_str_def entry_error_def)
  with f show ?thesis by blast
qed

lemma iter_envelopes_ok:
  assumes "sha_like H" and "files_ok H files"
  obtains es where "iter_envelopes H files = Inr es" and "set es = envelopes files" and "distinct es"
proof -
  let ?get = "\<lambda>h. case dict_get files h of Some (Some (JObj e)) \<Rightarrow> e | _ \<Rightarrow> []"
  let ?es = "map ?get (sort (map fst files))"
  have entry: "read_entry H files h = Inr (?get h)" "dict_get files h = Some (Some (JObj (?get h)))" if "h \<in> set (map fst files)" for h
    using read_entry_ok [OF assms that] by auto
  have "iter_envelopes H files = Inr ?es"
    unfolding iter_envelopes_def by (rule mapR_total) (use entry in auto)
  moreover have "set ?es = envelopes files"
  proof
    show "set ?es \<subseteq> envelopes files"
    proof
      fix e assume "e \<in> set ?es"
      then obtain h where "h \<in> set (map fst files)" "e = ?get h" by auto
      with entry(2) [of h] show "e \<in> envelopes files" by (auto simp: envelopes_def)
    qed
    show "envelopes files \<subseteq> set ?es"
    proof
      fix e assume "e \<in> envelopes files"
      then obtain h where h: "dict_get files h = Some (Some (JObj e))" by (auto simp: envelopes_def)
      from map_of_SomeD [OF h] have k: "h \<in> set (sort (map fst files))" by (force simp: image_iff)
      have "e = ?get h" using h by simp
      then show "e \<in> set ?es" unfolding set_map by (rule rev_image_eqI [OF k])
    qed
  qed
  moreover have "distinct ?es"
  proof -
    have "inj_on ?get (set (map fst files))"
    proof (rule inj_onI)
      fix h k assume h: "h \<in> set (map fst files)" and k: "k \<in> set (map fst files)" and eq: "?get h = ?get k"
      have named: "\<exists>t d. JObj (?get x) = stored_envelope H t (JObj d) \<and> x = address H t (JObj d)" if "x \<in> set (map fst files)" for x
      proof -
        from assms(2) entry(2) [OF that] obtain t d where "Some (JObj (?get x)) = Some (stored_envelope H t (JObj d))" "x = address H t (JObj d)"
          unfolding files_ok_def by blast
        then show ?thesis by blast
      qed
      from named [OF h] obtain t d where d: "JObj (?get h) = stored_envelope H t (JObj d)" "h = address H t (JObj d)" by blast
      from named [OF k] obtain u g where g: "JObj (?get k) = stored_envelope H u (JObj g)" "k = address H u (JObj g)" by blast
      have "stored_envelope H t (JObj d) = stored_envelope H u (JObj g)" using d(1) g(1) eq by simp
      then show "h = k" unfolding d(2) g(2) by (simp add: stored_envelope_def)
    qed
    with assms(2) show ?thesis by (simp add: distinct_map files_ok_def)
  qed
  ultimately show thesis by (rule that)
qed

lemma rebuild_envelopes:
  assumes "sha_like H" and "files_ok H files" and "set es \<subseteq> envelopes files"
    and "distinct (map fst (pj_objects p) @ map (fst \<circ> row_of) es)"
  obtains q where "foldR rebuild_envelope es p = Inr q" and "pj_objects q = pj_objects p @ map row_of es"
    and "fst ` set (pj_supersedence q) = fst ` set (pj_supersedence p) \<union> pair_of ` {e \<in> set es. is_supersedence e}"
    and "pj_events q = pj_events p"
proof -
  have "\<exists>q. foldR rebuild_envelope es p = Inr q \<and> pj_objects q = pj_objects p @ map row_of es \<and>
      fst ` set (pj_supersedence q) = fst ` set (pj_supersedence p) \<union> pair_of ` {e \<in> set es. is_supersedence e} \<and> pj_events q = pj_events p"
    using assms(3,4)
  proof (induction es arbitrary: p)
    case (Cons e es)
    have "e \<in> envelopes files" using Cons.prems by simp
    then obtain t d where d: "JObj e = stored_envelope H t (JObj d)" "dict_get files (address H t (JObj d)) = Some (Some (JObj e))"
      "validate_record_payload t (JObj d) = Inr ()" "norm_json (JObj d) = JObj d" by (rule known_envelope [OF assms(2)])
    note e = row_of_stored [OF assms(1) d(1,3)]
    let ?q = "p\<lparr>pj_objects := pj_objects p @ [row_of e]\<rparr>"
    let ?r = "if is_supersedence e then ?q\<lparr>pj_supersedence := insert_ignore (pair_of e) (jget d ''reason'', jget d ''authority'', jget d ''created_at'') (pj_supersedence p)\<rparr> else ?q"
    have "insert_row (fst (row_of e)) (snd (row_of e)) (pj_objects p) = Inr (pj_objects p @ [row_of e])"
      using Cons.prems(2) by (auto simp: insert_row_def map_of_eq_None_iff)
    then have step: "rebuild_envelope e p = Inr ?r"
      by (simp add: rebuild_envelope_def Let_def e validated_ids(2) [OF assms(1) d(3)])
    have objects: "pj_objects ?r = pj_objects p @ [row_of e]" and events: "pj_events ?r = pj_events p"
      and pairs: "fst ` set (pj_supersedence ?r) = fst ` set (pj_supersedence p) \<union> (if is_supersedence e then {pair_of e} else {})"
      by (simp_all add: insert_ignore_keys)
    have "distinct (map fst (pj_objects ?r) @ map (fst \<circ> row_of) es)" using Cons.prems(2) unfolding objects by (auto simp: comp_def)
    moreover have "set es \<subseteq> envelopes files" using Cons.prems(1) by simp
    ultimately obtain q where q: "foldR rebuild_envelope es ?r = Inr q" "pj_objects q = pj_objects ?r @ map row_of es"
      "fst ` set (pj_supersedence q) = fst ` set (pj_supersedence ?r) \<union> pair_of ` {e \<in> set es. is_supersedence e}" "pj_events q = pj_events ?r"
      using Cons.IH [of ?r] by blast
    have "foldR rebuild_envelope (e # es) p = Inr q" by (simp only: foldR.simps step bindR_simps q(1))
    moreover have "fst ` set (pj_supersedence q) = fst ` set (pj_supersedence p) \<union> pair_of ` {x \<in> set (e # es). is_supersedence x}"
      unfolding q(3) pairs by auto
    ultimately show ?case using q(2,4) objects events by auto
  qed simp
  with that show thesis by blast
qed

lemma rebuild_events:
  assumes "distinct (map fst (pj_events p) @ map (\<lambda>e. jget e ''event_id'') es)"
  shows "foldR rebuild_event es p = Inr (p\<lparr>pj_events := pj_events p @ map event_entry es\<rparr>)"
  using assms
proof (induction es arbitrary: p)
  case (Cons e es)
  let ?q = "p\<lparr>pj_events := pj_events p @ [event_entry e]\<rparr>"
  have "rebuild_event e p = Inr ?q"
    using Cons.prems by (auto simp: rebuild_event_def insert_row_def event_entry_def map_of_eq_None_iff)
  moreover have "foldR rebuild_event es ?q = Inr (?q\<lparr>pj_events := pj_events ?q @ map event_entry es\<rparr>)"
    by (rule Cons.IH) (use Cons.prems in \<open>auto simp: event_entry_def\<close>)
  ultimately show ?case by simp
qed simp

text \<open>A rebuild from good files and a log of distinct events succeeds and projects them.\<close>

lemma rebuilt_projects:
  assumes "sha_like H" and "files_ok H (es_files s)" and "log_distinct s"
  obtains p where "rebuilt H s = Inr p" and "projects p (es_files s) (ss_events (es_log s))"
proof -
  obtain es where es: "iter_envelopes H (es_files s) = Inr es" "set es = envelopes (es_files s)" "distinct es"
    by (rule iter_envelopes_ok [OF assms(1,2)])
  have d: "distinct (map (fst \<circ> row_of) es)"
    using es(2,3) row_key_inj [OF assms(1,2)] by (simp add: distinct_map)
  obtain q where q: "foldR rebuild_envelope es empty_projection = Inr q" "pj_objects q = pj_objects empty_projection @ map row_of es"
    "fst ` set (pj_supersedence q) = fst ` set (pj_supersedence empty_projection) \<union> pair_of ` {e \<in> set es. is_supersedence e}"
    "pj_events q = pj_events empty_projection"
    by (rule rebuild_envelopes [OF assms(1,2), of es empty_projection]) (use es(2) d in \<open>simp_all add: empty_projection_def\<close>)
  let ?events = "ss_events (es_log s)"
  let ?p = "q\<lparr>pj_events := pj_events q @ map event_entry ?events\<rparr>"
  have keys: "fst \<circ> event_entry = (\<lambda>e. jget e ''event_id'')" by (simp add: fun_eq_iff event_entry_def)
  have "foldR rebuild_event ?events q = Inr ?p"
    by (rule rebuild_events) (use assms(3) q(4) in \<open>simp add: log_distinct_def empty_projection_def\<close>)
  with es(1) q(1) have "rebuilt H s = Inr ?p" by (simp add: rebuilt_def)
  moreover have "projects ?p (es_files s) ?events"
    using q d assms(3) keys es(2) by (simp add: projects_def empty_projection_def log_distinct_def)
  ultimately show thesis by (rule that)
qed

text \<open>Two projections of the same files and log answer every query alike.\<close>

definition same_view :: "index_tables \<Rightarrow> index_tables \<Rightarrow> bool" where
  "same_view p q = (map_of (pj_objects p) = map_of (pj_objects q) \<and> fst ` set (pj_supersedence p) = fst ` set (pj_supersedence q) \<and>
     map_of (pj_events p) = map_of (pj_events q))"

lemma projects_same_view: "projects p files es \<Longrightarrow> projects q files es \<Longrightarrow> same_view p q"
  by (simp add: projects_def same_view_def map_of_inject_set)

lemma queries_same:
  assumes "projects p files es" and "projects q files es"
  shows "active_ids (s\<lparr>es_projection := p\<rparr>) t = active_ids (s\<lparr>es_projection := q\<rparr>) t"
    and "list_objects (s\<lparr>es_projection := p\<rparr>) t = list_objects (s\<lparr>es_projection := q\<rparr>) t"
    and "find_records H (s\<lparr>es_projection := p\<rparr>) t = find_records H (s\<lparr>es_projection := q\<rparr>) t"
proof -
  have d: "distinct (pj_objects p)" "distinct (pj_objects q)" "set (pj_objects p) = set (pj_objects q)"
    using assms by (auto simp: projects_def distinct_map)
  then have m: "mset (pj_objects p) = mset (pj_objects q)" by (simp add: set_eq_iff_mset_eq_distinct)
  have old: "set (map (fst \<circ> fst) (pj_supersedence p)) = set (map (fst \<circ> fst) (pj_supersedence q))"
  proof -
    have "fst ` fst ` set (pj_supersedence p) = fst ` fst ` set (pj_supersedence q)" using assms by (simp only: projects_def)
    then show ?thesis by (simp add: image_image)
  qed
  have sel: "es_projection (s\<lparr>es_projection := r\<rparr>) = r" for r by (cases s) simp
  have "mset (map fst (filter P (pj_objects p))) = mset (map fst (filter P (pj_objects q)))" for P using m by simp
  then have sorted: "sort (map fst (filter P (pj_objects p))) = sort (map fst (filter P (pj_objects q)))" for P
    by (intro properties_for_sort [symmetric]) simp_all
  show "active_ids (s\<lparr>es_projection := p\<rparr>) t = active_ids (s\<lparr>es_projection := q\<rparr>) t"
    unfolding active_ids_def Let_def sel old by (rule sorted)
  let ?k = "\<lambda>(oid, row). (or_type row, oid)"
  show l: "list_objects (s\<lparr>es_projection := p\<rparr>) t = list_objects (s\<lparr>es_projection := q\<rparr>) t"
  proof -
    have "inj_on ?k (set (pj_objects p))"
    proof (rule inj_onI)
      fix x y assume x: "x \<in> set (pj_objects p)" and y: "y \<in> set (pj_objects p)" and "?k x = ?k y"
      then have "fst x = fst y" by (simp add: case_prod_beta)
      moreover have "distinct (map fst (pj_objects p))" using assms(1) by (simp only: projects_def)
      then have "inj_on fst (set (pj_objects p))" by (simp add: distinct_map)
      ultimately show "x = y" using x y by (simp add: inj_on_eq_iff)
    qed
    then show ?thesis unfolding list_objects_def sel
      by (intro sort_key_inj_key_eq) (auto simp: m inj_on_def)
  qed
  show "find_records H (s\<lparr>es_projection := p\<rparr>) t = find_records H (s\<lparr>es_projection := q\<rparr>) t"
    unfolding find_records_def l by (simp add: store_get_def)
qed

section \<open>Every operation keeps the projection right\<close>

definition fresh_call :: "call \<Rightarrow> egcf_store \<Rightarrow> bool" where
  "fresh_call c s = (JStr (sp_event_id (cl_stamp c)) \<notin> set (map (\<lambda>e. jget e ''event_id'') (ss_events (es_log s))))"

lemma append_event_parts:
  "ss_events (fst (append_event H R p t v l)) = ss_events l @ [snd (append_event H R p t v l)]"
  "jget (snd (append_event H R p t v l)) ''event_id'' = JStr (sp_event_id p)"
  by (simp_all add: append_event_def Let_def jget_def dict_getd_def)

text \<open>A registration adds its object to what is projected; the pairs of supersedence are for the caller.\<close>

lemma register_tables:
  assumes "sha_like H" and "store_ok H s" and "distinct (map fst (er_fields r))" and "fresh_call c s"
    and "register H c event_type r s = Inr (s', oid)"
  obtains e where "norm_json (to_payload r) = JObj e" and "validate_record_payload (er_type r) (to_payload r) = Inr ()"
    and "oid = oid_of H (er_type r) (JObj e)" and "files_ok H (es_files s')" and "log_distinct s'"
    and "dict_get (es_files s') (address H (er_type r) (JObj e)) = Some (Some (stored_envelope H (er_type r) (JObj e)))"
    and "\<exists>env. JObj env = stored_envelope H (er_type r) (JObj e) \<and> envelopes (es_files s') = insert env (envelopes (es_files s))"
    and "pj_supersedence (es_projection s') = pj_supersedence (es_projection s)"
    and "distinct (map fst (pj_objects (es_projection s')))" and "set (pj_objects (es_projection s')) = row_of ` envelopes (es_files s')"
    and "distinct (map fst (pj_events (es_projection s')))" and "set (pj_events (es_projection s')) = event_entry ` set (ss_events (es_log s'))"
    and "\<forall>h f. dict_get (es_files s) h = Some f \<longrightarrow> dict_get (es_files s') h = Some f"
proof -
  have ok: "files_ok H (es_files s)" and dl: "log_distinct s" and pj: "projects (es_projection s) (es_files s) (ss_events (es_log s))"
    using assms(2) by (simp_all add: store_ok_def)
  let ?h = "address H (er_type r) (to_payload r)" and ?old = "dict_get (es_files s) (address H (er_type r) (to_payload r)) \<noteq> None"
  let ?app = "append_event H (cl_redactor c) (cl_stamp c) event_type
       (JObj [(''object_id'', JStr oid), (''object_type'', JStr (er_type r)), (''parent_event_head'', JStr (es_parent_head s))]) (es_log s)"
  obtain e where e: "norm_json (to_payload r) = JObj e" "validate_record_payload (er_type r) (to_payload r) = Inr ()"
      "oid = oid_of H (er_type r) (to_payload r)"
    and files: "es_files s' = (if ?old then es_files s else dict_set ?h (Some (stored_envelope H (er_type r) (JObj e))) (es_files s))"
    and there: "dict_get (es_files s') ?h = Some (Some (stored_envelope H (er_type r) (JObj e)))" and ok': "files_ok H (es_files s')"
    and objects: "pj_objects (es_projection s') = insert_ignore oid (object_row_of (er_type r) ?h (to_payload r)) (pj_objects (es_projection s))"
    and pairs: "pj_supersedence (es_projection s') = pj_supersedence (es_projection s)"
    and log: "es_log s' = (if ?old then es_log s else fst ?app)"
    and events: "pj_events (es_projection s') = (if ?old then pj_events (es_projection s)
        else insert_ignore (jget (snd ?app) ''event_id'') (event_row_of (snd ?app)) (pj_events (es_projection s)))"
    by (rule register_effect [OF assms(1) ok assms(3,5)])
  obtain env where env: "JObj env = stored_envelope H (er_type r) (JObj e)" by (simp add: stored_envelope_def)
  have addr: "address H (er_type r) (JObj e) = ?h" and oid: "oid = oid_of H (er_type r) (JObj e)"
    using address_norm [of H "er_type r" "to_payload r"] oid_norm [of H "er_type r" "to_payload r"] e by simp_all
  obtain d where d: "to_payload r = JObj d" "distinct (map fst d)" using assms(3) by (simp add: to_payload_def)
  have valid: "validate_record_payload (er_type r) (JObj e) = Inr ()"
    using validate_norm [OF d(2), of "er_type r"] e(1,2) d(1) by simp
  have row: "row_of env = (oid, object_row_of (er_type r) ?h (to_payload r))"
  proof -
    have "canonical_json (JObj e) = canonical_json (to_payload r)" by (simp only: canonical_json_eq norm_idem e(1) [symmetric])
    then show ?thesis using row_of_stored(1) [OF assms(1) env valid] by (simp add: addr oid object_row_of_def)
  qed
  have envs: "envelopes (es_files s') = insert env (envelopes (es_files s))"
  proof (cases ?old)
    case True
    then have same: "es_files s' = es_files s" unfolding files by (rule if_P)
    with there env have "env \<in> envelopes (es_files s)" by (auto simp: envelopes_def)
    with same show ?thesis by auto
  next
    case False
    then have "es_files s' = dict_set ?h (Some (JObj env)) (es_files s)" unfolding files env by (rule if_not_P)
    with False envelopes_set [of "es_files s" ?h env] show ?thesis by simp
  qed
  have known: "row_of env \<in> set (pj_objects (es_projection s))" if "oid \<in> fst ` set (pj_objects (es_projection s))"
  proof -
    from that pj obtain x where x: "x \<in> envelopes (es_files s)" "fst (row_of x) = oid" by (auto simp: projects_def)
    have "x = env" by (rule inj_onD [OF row_key_inj [OF assms(1) ok']]) (use x row envs in simp_all)
    with x(1) pj show ?thesis by (simp add: projects_def)
  qed
  have os: "set (pj_objects (es_projection s')) = row_of ` envelopes (es_files s')"
    unfolding objects envs using pj insert_ignore_set [of "pj_objects (es_projection s)" oid] known row by (simp add: projects_def)
  have od: "distinct (map fst (pj_objects (es_projection s')))"
    unfolding objects using pj by (intro insert_ignore_distinct) (simp add: projects_def)
  have kept: "dict_get (es_files s') h = Some f" if "dict_get (es_files s) h = Some f" for h f
    using that unfolding files by (cases ?old) auto
  have ed: "distinct (map fst (pj_events (es_projection s')))"
    unfolding events using pj by (simp add: insert_ignore_distinct projects_def)
  have fresh: "jget (snd ?app) ''event_id'' \<notin> fst ` set (pj_events (es_projection s))"
    using assms(4) pj by (auto simp: append_event_parts fresh_call_def projects_def event_entry_def)
  have es: "set (pj_events (es_projection s')) = event_entry ` set (ss_events (es_log s'))"
  proof (cases ?old)
    case False
    have "set (insert_ignore (jget (snd ?app) ''event_id'') (event_row_of (snd ?app)) (pj_events (es_projection s))) =
        insert (event_entry (snd ?app)) (set (pj_events (es_projection s)))"
      unfolding event_entry_def by (rule insert_ignore_set) (use pj fresh in \<open>simp_all add: projects_def\<close>)
    with False pj show ?thesis by (simp add: events log append_event_parts projects_def)
  qed (use pj in \<open>simp add: events log projects_def\<close>)
  have "log_distinct s'"
    using dl assms(4) by (cases ?old) (auto simp: log_distinct_def log append_event_parts fresh_call_def)
  with e(1,2) oid ok' there [folded addr] env envs pairs od os ed es kept that show thesis by metis
qed

text \<open>
  A step of the store: registering a record that is no supersedence (those come only from \<open>supersede\<close>),
  superseding, storing an artifact, or rebuilding. Records are dictionaries, so their keys are distinct;
  an event's identifier is fresh.
\<close>

inductive egcf_step :: "digest \<Rightarrow> (string \<Rightarrow> string) \<Rightarrow> egcf_store \<Rightarrow> egcf_store \<Rightarrow> bool" for H B where
  registered: "fresh_call c s \<Longrightarrow> er_type r \<noteq> ''supersedence'' \<Longrightarrow> distinct (map fst (er_fields r)) \<Longrightarrow>
     register H c t r s = Inr (s', oid) \<Longrightarrow> egcf_step H B s s'"
| superseded: "fresh_call c s \<Longrightarrow> supersede H c old_id new_id reason authority s = Inr (s', oid) \<Longrightarrow> egcf_step H B s s'"
| artifact: "fresh_call c s \<Longrightarrow> register_artifact H B c content media sources provenance s = Inr (s', oid) \<Longrightarrow> egcf_step H B s s'"
| rebuild: "egcf_step H B s (fst (rebuild_projection H s))"

text \<open>Files are never changed or removed.\<close>

definition keeps_files :: "egcf_store \<Rightarrow> egcf_store \<Rightarrow> bool" where
  "keeps_files s s' = (\<forall>h f. dict_get (es_files s) h = Some f \<longrightarrow> dict_get (es_files s') h = Some f)"

lemma register_ok:
  assumes "sha_like H" and "store_ok H s" and "distinct (map fst (er_fields r))" and "fresh_call c s"
    and "er_type r \<noteq> ''supersedence''" and "register H c t r s = Inr (s', oid)"
  shows "store_ok H s'" and "keeps_files s s'"
proof -
  obtain e where v: "norm_json (to_payload r) = JObj e" "validate_record_payload (er_type r) (to_payload r) = Inr ()"
    "oid = oid_of H (er_type r) (JObj e)" "files_ok H (es_files s')" "log_distinct s'"
    "dict_get (es_files s') (address H (er_type r) (JObj e)) = Some (Some (stored_envelope H (er_type r) (JObj e)))"
    and ex: "\<exists>env. JObj env = stored_envelope H (er_type r) (JObj e) \<and> envelopes (es_files s') = insert env (envelopes (es_files s))"
    and tables: "pj_supersedence (es_projection s') = pj_supersedence (es_projection s)"
      "distinct (map fst (pj_objects (es_projection s')))" "set (pj_objects (es_projection s')) = row_of ` envelopes (es_files s')"
      "distinct (map fst (pj_events (es_projection s')))" "set (pj_events (es_projection s')) = event_entry ` set (ss_events (es_log s'))"
    and keep: "\<forall>h f. dict_get (es_files s) h = Some f \<longrightarrow> dict_get (es_files s') h = Some f"
    by (rule register_tables [OF assms(1-4,6)])
  from ex obtain env where env: "JObj env = stored_envelope H (er_type r) (JObj e)" "envelopes (es_files s') = insert env (envelopes (es_files s))"
    by (elim exE conjE) (rule that)
  have "\<not> is_supersedence env"
    using env(1) assms(5) by (simp add: stored_envelope_def is_supersedence_def jget_def dict_getd_def py_str_def)
  then have "{x \<in> envelopes (es_files s'). is_supersedence x} = {x \<in> envelopes (es_files s). is_supersedence x}"
    unfolding env(2) by auto
  then show "store_ok H s'" using v(4,5) tables assms(2) by (simp add: store_ok_def projects_def)
  show "keeps_files s s'" using keep by (simp add: keeps_files_def)
qed

lemma make_record_distinct:
  assumes "dict_get RECORD_TYPES t \<noteq> None"
  shows "distinct (map fst (er_fields (make_record t args)))"
proof -
  have "list_all (\<lambda>(t, fs). distinct (field_names fs)) RECORD_TYPES" by code_simp
  moreover from assms obtain fs where fs: "dict_get RECORD_TYPES t = Some fs" by blast
  moreover have "(t, fs) \<in> set RECORD_TYPES" by (rule map_of_SomeD [OF fs])
  ultimately have "distinct (field_names fs)" by (auto simp: list_all_iff)
  with fs show ?thesis by (simp add: make_record_def Let_def dict_getd_def comp_def)
qed

lemma make_record_type [simp]: "er_type (make_record t args) = t"
  by (simp add: make_record_def Let_def)

definition supersedence_record :: "call \<Rightarrow> string \<Rightarrow> string \<Rightarrow> string \<Rightarrow> string \<Rightarrow> egcf_record" where
  "supersedence_record c old_id new_id reason authority = make_record ''supersedence''
     [(''old_id'', JStr old_id), (''new_id'', JStr new_id), (''reason'', JStr reason), (''authority'', JStr authority),
      (''created_at'', JStr (cl_now c))]"

lemma supersedence_payload:
  "norm_json (to_payload (supersedence_record c old_id new_id reason authority)) =
     JObj [(''authority'', JStr authority), (''created_at'', JStr (cl_now c)), (''new_id'', JStr new_id), (''old_id'', JStr old_id), (''reason'', JStr reason)]"
  by (simp add: supersedence_record_def make_record_def to_payload_def RECORD_TYPES_def SupersedenceRecord_fields_def field_names_def dict_getd_def)

lemma supersede_parts:
  assumes "supersede H c old_id new_id reason authority s = Inr (s', oid)"
  obtains s1 where "register H c ''egcf_object_superseded'' (supersedence_record c old_id new_id reason authority) s = Inr (s1, oid)"
    and "s' = s1\<lparr>es_projection := (es_projection s1)\<lparr>pj_supersedence := insert_ignore (JStr old_id, JStr new_id)
          (JStr reason, JStr authority, JStr (cl_now c)) (pj_supersedence (es_projection s1))\<rparr>\<rparr>"
    and "\<exists>r. store_get H s old_id = Inr r" and "\<exists>r. store_get H s new_id = Inr r"
  using assms unfolding supersede_def supersedence_record_def [symmetric] Let_def
  by (simp only: bindR_Inr split_paired_Ex prod.case sum.inject prod.inject) blast

lemma supersede_ok:
  assumes "sha_like H" and "store_ok H s" and "fresh_call c s" and "supersede H c old_id new_id reason authority s = Inr (s', oid)"
  shows "store_ok H s'" and "keeps_files s s'"
    and "fst ` set (pj_supersedence (es_projection s')) = insert (JStr old_id, JStr new_id) (fst ` set (pj_supersedence (es_projection s)))"
proof -
  let ?r = "supersedence_record c old_id new_id reason authority"
  obtain s1 where s1: "register H c ''egcf_object_superseded'' ?r s = Inr (s1, oid)"
    and s': "s' = s1\<lparr>es_projection := (es_projection s1)\<lparr>pj_supersedence := insert_ignore (JStr old_id, JStr new_id)
          (JStr reason, JStr authority, JStr (cl_now c)) (pj_supersedence (es_projection s1))\<rparr>\<rparr>"
    by (rule supersede_parts [OF assms(4)])
  have t: "er_type ?r = ''supersedence''" by (simp add: supersedence_record_def)
  have d: "distinct (map fst (er_fields ?r))"
    unfolding supersedence_record_def by (rule make_record_distinct) code_simp
  obtain e where v: "norm_json (to_payload ?r) = JObj e" "validate_record_payload (er_type ?r) (to_payload ?r) = Inr ()"
    "oid = oid_of H (er_type ?r) (JObj e)" "files_ok H (es_files s1)" "log_distinct s1"
    "dict_get (es_files s1) (address H (er_type ?r) (JObj e)) = Some (Some (stored_envelope H (er_type ?r) (JObj e)))"
    and ex: "\<exists>env. JObj env = stored_envelope H (er_type ?r) (JObj e) \<and> envelopes (es_files s1) = insert env (envelopes (es_files s))"
    and tables: "pj_supersedence (es_projection s1) = pj_supersedence (es_projection s)"
      "distinct (map fst (pj_objects (es_projection s1)))" "set (pj_objects (es_projection s1)) = row_of ` envelopes (es_files s1)"
      "distinct (map fst (pj_events (es_projection s1)))" "set (pj_events (es_projection s1)) = event_entry ` set (ss_events (es_log s1))"
    and keep: "\<forall>h f. dict_get (es_files s) h = Some f \<longrightarrow> dict_get (es_files s1) h = Some f"
    by (rule register_tables [OF assms(1,2) d assms(3) s1])
  from ex [unfolded t] obtain env where env: "JObj env = stored_envelope H ''supersedence'' (JObj e)"
    "envelopes (es_files s1) = insert env (envelopes (es_files s))" by (elim exE conjE) (rule that)
  have "is_supersedence env"
    using env(1) by (simp add: stored_envelope_def is_supersedence_def jget_def dict_getd_def py_str_def)
  then have sub: "{x \<in> envelopes (es_files s1). is_supersedence x} = insert env {x \<in> envelopes (es_files s). is_supersedence x}"
    unfolding env(2) by auto
  have "pair_of env = (JStr old_id, JStr new_id)"
  proof -
    have e: "e = [(''authority'', JStr authority), (''created_at'', JStr (cl_now c)), (''new_id'', JStr new_id), (''old_id'', JStr old_id), (''reason'', JStr reason)]"
      using v(1) unfolding supersedence_payload by (simp only: json.inject)
    show ?thesis using env(1) by (simp add: stored_envelope_def pair_of_def jget_def dict_getd_def e)
  qed
  with sub have pairs: "pair_of ` {x \<in> envelopes (es_files s1). is_supersedence x} =
      insert (JStr old_id, JStr new_id) (pair_of ` {x \<in> envelopes (es_files s). is_supersedence x})" by simp
  show keys: "fst ` set (pj_supersedence (es_projection s')) = insert (JStr old_id, JStr new_id) (fst ` set (pj_supersedence (es_projection s)))"
    by (simp add: s' insert_ignore_keys tables(1))
  have f: "es_files s' = es_files s1" "es_log s' = es_log s1" "pj_objects (es_projection s') = pj_objects (es_projection s1)"
    "pj_events (es_projection s') = pj_events (es_projection s1)" by (simp_all add: s')
  have "fst ` set (pj_supersedence (es_projection s)) = pair_of ` {x \<in> envelopes (es_files s). is_supersedence x}"
    using assms(2) by (simp only: store_ok_def projects_def)
  then have "projects (es_projection s') (es_files s') (ss_events (es_log s'))"
    unfolding projects_def keys f pairs using tables by simp
  moreover have "log_distinct s'" using v(5) by (simp only: log_distinct_def f)
  ultimately show "store_ok H s'" using v(4) by (simp add: store_ok_def f)
  show "keeps_files s s'" using keep by (simp add: keeps_files_def f)
qed

lemma rebuild_ok:
  assumes "sha_like H" and "store_ok H s"
  obtains p where "rebuild_projection H s = (s\<lparr>es_projection := p\<rparr>, Inr ())" and "projects p (es_files s) (ss_events (es_log s))"
    and "store_ok H (s\<lparr>es_projection := p\<rparr>)"
proof -
  obtain p where p: "rebuilt H s = Inr p" "projects p (es_files s) (ss_events (es_log s))"
    using rebuilt_projects [OF assms(1)] assms(2) unfolding store_ok_def by metis
  with that assms(2) show thesis by (simp add: rebuild_projection_def store_ok_def log_distinct_def)
qed

lemma egcf_step_ok:
  assumes "sha_like H" and "egcf_step H B s s'" and "store_ok H s"
  shows "store_ok H s' \<and> keeps_files s s'"
  using assms(2)
proof (cases rule: egcf_step.cases)
  case (registered c r t oid)
  with register_ok [OF assms(1,3)] show ?thesis by blast
next
  case (superseded c old_id new_id reason authority oid)
  with supersede_ok [OF assms(1,3)] show ?thesis by blast
next
  case (artifact c content media sources provenance oid)
  from artifact(2) obtain s1 h where s1: "put_artifact B content s = Inr (s1, h)" by (auto simp: register_artifact_def bindR_Inr)
  then have same: "es_files s1 = es_files s" "es_log s1 = es_log s" "es_projection s1 = es_projection s"
    by (auto simp: put_artifact_def Let_def split: option.splits if_splits)
  have ok1: "store_ok H s1" "fresh_call c s1"
    using assms(3) artifact(1) by (simp_all add: store_ok_def log_distinct_def fresh_call_def same)
  from artifact(2) s1 obtain args where r: "register H c ''egcf_artifact_registered'' (make_record ''artifact'' args) s1 = Inr (s', oid)"
    by (auto simp: register_artifact_def)
  have "distinct (map fst (er_fields (make_record ''artifact'' args)))" by (rule make_record_distinct) code_simp
  from register_ok [OF assms(1) ok1(1) this ok1(2) _ r] show ?thesis by (simp add: keeps_files_def same)
next
  case rebuild
  obtain p where "rebuild_projection H s = (s\<lparr>es_projection := p\<rparr>, Inr ())" "store_ok H (s\<lparr>es_projection := p\<rparr>)"
    by (rule rebuild_ok [OF assms(1,3)])
  with rebuild show ?thesis by (simp add: keeps_files_def)
qed

lemma run_ok_store:
  assumes "sha_like H" and "(egcf_step H B)\<^sup>*\<^sup>* s s'" and "store_ok H s"
  shows "store_ok H s' \<and> keeps_files s s'"
  using assms(2,3)
proof (induction rule: rtranclp_induct)
  case base
  then show ?case by (simp add: keeps_files_def)
next
  case (step t u)
  then have "store_ok H t" "keeps_files s t" by blast+
  with egcf_step_ok [OF assms(1) step.hyps(2)] show ?case by (auto simp: keeps_files_def)
qed

definition empty_egcf :: egcf_store where
  "empty_egcf = \<lparr> es_files = [], es_artifacts = [], es_projection = empty_projection,
     es_log = \<lparr> ss_events = [], ss_head = [], ss_file = JNull \<rparr>, es_parent_head = [] \<rparr>"

lemma empty_egcf_ok: "store_ok H empty_egcf"
  by (simp add: store_ok_def files_ok_def log_distinct_def projects_def empty_egcf_def empty_projection_def envelopes_def)

lemma register_total:
  assumes "sha_like H" and "validate_record_payload (er_type r) (to_payload r) = Inr ()"
    and "dict_get (es_files s) (address H (er_type r) (to_payload r)) = None"
  shows "\<exists>s'. register H c t r s = Inr (s', oid_of H (er_type r) (to_payload r))"
proof -
  note ids = validated_ids [OF assms(1,2)]
  have "\<exists>files. put_object H (er_type r) (to_payload r) (es_files s) = Inr (files, oid_of H (er_type r) (to_payload r))"
    unfolding put_object_def assms(2) ids bindR_simps prod.case assms(3) option.case by blast
  then obtain files where "put_object H (er_type r) (to_payload r) (es_files s) = Inr (files, oid_of H (er_type r) (to_payload r))" by blast
  then show ?thesis by (simp only: register_def Let_def ids bindR_simps prod.case) blast
qed

text \<open>Reading any identifier that was handed out, from the files of any later state.\<close>

lemma registered_readable:
  assumes "sha_like H" and "store_ok H s" and "distinct (map fst (er_fields r))" and "register H c t r s = Inr (s1, oid)"
    and "keeps_files s1 s2"
  shows "store_get H s2 oid = construct_record (er_type r) (norm_json (to_payload r))"
    and "validate_record_payload (er_type r) (norm_json (to_payload r)) = Inr ()"
proof -
  have files: "files_ok H (es_files s)" using assms(2) by (simp add: store_ok_def)
  obtain d where d: "to_payload r = JObj d" "distinct (map fst d)" using assms(3) by (simp add: to_payload_def)
  obtain e where e: "norm_json (to_payload r) = JObj e" "validate_record_payload (er_type r) (to_payload r) = Inr ()"
    "oid = oid_of H (er_type r) (to_payload r)"
    "es_files s1 = (if dict_get (es_files s) (address H (er_type r) (to_payload r)) \<noteq> None then es_files s
        else dict_set (address H (er_type r) (to_payload r)) (Some (stored_envelope H (er_type r) (JObj e))) (es_files s))"
    "dict_get (es_files s1) (address H (er_type r) (to_payload r)) = Some (Some (stored_envelope H (er_type r) (JObj e)))"
    by (rule register_effect [OF assms(1) files assms(3,4)])
  show v: "validate_record_payload (er_type r) (norm_json (to_payload r)) = Inr ()"
    using validate_norm [OF d(2), of "er_type r"] e(2) d(1) by simp
  have "address H (er_type r) (JObj e) = address H (er_type r) (to_payload r)" "oid = oid_of H (er_type r) (JObj e)"
    using address_norm [of H "er_type r" "to_payload r"] oid_norm [of H "er_type r" "to_payload r"] e(1,3) by simp_all
  moreover have "dict_get (es_files s2) (address H (er_type r) (to_payload r)) = Some (Some (stored_envelope H (er_type r) (JObj e)))"
    using e(5) assms(5) by (simp add: keeps_files_def)
  ultimately show "store_get H s2 oid = construct_record (er_type r) (norm_json (to_payload r))"
    using get_stored(2) [OF assms(1) v [unfolded e(1)]] by (simp add: store_get_def e(1))
qed

lemma construct_fields:
  assumes "validate_record_payload t (norm_json (JObj d)) = Inr ()" and "distinct (map fst d)"
  obtains r where "construct_record t (norm_json (JObj d)) = Inr r" and "er_type r = t"
    and "\<forall>k \<in> fst ` set d. field r k = norm_json (dict_getd d k JNull)"
proof -
  obtain e where e: "norm_json (JObj d) = JObj e" "distinct (map fst e)" "\<forall>k. dict_get e k = map_option norm_json (dict_get d k)"
    "fst ` set e = fst ` set d" by (rule norm_dict [OF assms(2)])
  from assms(1) e(1) obtain fs where fs: "dict_get RECORD_TYPES t = Some fs" "\<not> list_ex (\<lambda>kv. fst kv \<notin> set (field_names fs)) e"
    by (auto simp: validate_record_payload_def split: option.splits if_splits)
  let ?r = "\<lparr> er_type = t, er_fields = map (\<lambda>k. (k, dict_getd e k (dict_getd (snd fs) k JNull))) (field_names fs) \<rparr>"
  have made: "construct_record t (norm_json (JObj d)) = Inr ?r"
    using assms(1) unfolding e(1) by (simp add: construct_record_def fs(1) Let_def dict_getd_def)
  have fields: "field ?r k = norm_json (dict_getd d k JNull)" if "k \<in> fst ` set d" for k
  proof -
    from that have "k \<in> fst ` set e" by (simp only: e(4))
    with fs(2) have "k \<in> set (field_names fs)" by (auto simp: list_ex_iff)
    then have "field ?r k = dict_getd e k (dict_getd (snd fs) k JNull)" by (simp add: field_def dict_getd_def map_of_map_restrict)
    moreover from that obtain v where "dict_get d k = Some v" by (metis map_of_eq_None_iff not_None_eq)
    ultimately show ?thesis by (simp add: dict_getd_def e(3))
  qed
  then have "\<forall>k \<in> fst ` set d. field ?r k = norm_json (dict_getd d k JNull)" by blast
  then show thesis by (rule that [OF made egcf_record.select_convs(1)])
qed

section \<open>Properties\<close>


text \<open>C32. Objects are immutable: what a registration returns an identifier for is read back under it, field
  for field up to the order of object keys, in every later state of the store, whatever else is
  registered, superseded or rebuilt.\<close>

theorem stored_object_immutable:
  assumes "sha_like H" and "(egcf_step H B)\<^sup>*\<^sup>* empty_egcf s" and "fresh_call c s" and "er_type r \<noteq> ''supersedence''"
    and "distinct (map fst (er_fields r))" and "register H c t r s = Inr (s1, oid)" and "(egcf_step H B)\<^sup>*\<^sup>* s1 s2"
  shows "\<exists>r'. store_get H s2 oid = Inr r' \<and> er_type r' = er_type r \<and>
    (\<forall>k \<in> fst ` set (er_fields r). field r' k = norm_json (field r k))"
proof -
  have ok: "store_ok H s" using run_ok_store [OF assms(1,2) empty_egcf_ok] by blast
  have "store_ok H s1" by (rule register_ok(1) [OF assms(1) ok assms(5,3,4,6)])
  then have keep: "keeps_files s1 s2" using run_ok_store [OF assms(1,7)] by blast
  note read = registered_readable [OF assms(1) ok assms(5,6) keep]
  obtain r' where "construct_record (er_type r) (norm_json (to_payload r)) = Inr r'" "er_type r' = er_type r"
    "\<forall>k \<in> fst ` set (er_fields r). field r' k = norm_json (dict_getd (er_fields r) k JNull)"
    unfolding to_payload_def by (rule construct_fields [OF read(2) [unfolded to_payload_def] assms(5)])
  with read(1) show ?thesis by (auto simp: field_def)
qed

definition sample_call :: call where
  "sample_call = \<lparr> cl_redactor = \<lparr> rd_environ = [], rd_configured = (\<lambda>p s. s) \<rparr>,
     cl_stamp = \<lparr> sp_event_id = ''e1'', sp_timestamp = ''t'', sp_run_id = [], sp_action_id = [], sp_transaction_id = [] \<rparr>, cl_now = ''t'' \<rparr>"

definition sample_capability :: egcf_record where
  "sample_capability = make_record ''capability-spec''
     [(''name'', JStr ''x.read''), (''level'', JStr ''C0''), (''facet'', JStr ''x''), (''description'', JStr ''d'')]"

lemma sample_digest: "sha_like (\<lambda>t. replicate 64 CHR ''a'')"
  by (simp add: sha_like_def)

lemma sample_registered:
  obtains s1 oid where "register (\<lambda>t. replicate 64 CHR ''a'') sample_call ''egcf_object_registered'' sample_capability empty_egcf = Inr (s1, oid)"
    and "egcf_step (\<lambda>t. replicate 64 CHR ''a'') (\<lambda>t. t) empty_egcf s1"
    and "fresh_call sample_call empty_egcf" and "er_type sample_capability \<noteq> ''supersedence''" and "distinct (map fst (er_fields sample_capability))"
proof -
  have v: "validate_record_payload (er_type sample_capability) (to_payload sample_capability) = Inr ()" by code_simp
  have f: "fresh_call sample_call empty_egcf" "er_type sample_capability \<noteq> ''supersedence''" "distinct (map fst (er_fields sample_capability))"
    by code_simp+
  obtain s1 where r: "register (\<lambda>t. replicate 64 CHR ''a'') sample_call ''egcf_object_registered'' sample_capability empty_egcf =
      Inr (s1, oid_of (\<lambda>t. replicate 64 CHR ''a'') (er_type sample_capability) (to_payload sample_capability))"
    using register_total [OF sample_digest v, of empty_egcf sample_call] by (auto simp: empty_egcf_def)
  from that [OF r egcf_step.registered [OF f r] f] show thesis .
qed


theorem stored_object_immutable_witness:
  "\<exists>s1 oid r'. register (\<lambda>t. replicate 64 CHR ''a'') sample_call ''egcf_object_registered'' sample_capability empty_egcf = Inr (s1, oid) \<and>
     store_get (\<lambda>t. replicate 64 CHR ''a'') s1 oid = Inr r' \<and> field r' ''level'' = JStr ''C0''"
proof -
  obtain s1 oid where s1: "register (\<lambda>t. replicate 64 CHR ''a'') sample_call ''egcf_object_registered'' sample_capability empty_egcf = Inr (s1, oid)"
    and step: "egcf_step (\<lambda>t. replicate 64 CHR ''a'') (\<lambda>t. t) empty_egcf s1"
    and f: "fresh_call sample_call empty_egcf" "er_type sample_capability \<noteq> ''supersedence''" "distinct (map fst (er_fields sample_capability))"
    by (rule sample_registered)
  obtain r' where r': "store_get (\<lambda>t. replicate 64 CHR ''a'') s1 oid = Inr r'"
    "\<forall>k \<in> fst ` set (er_fields sample_capability). field r' k = norm_json (field sample_capability k)"
    using stored_object_immutable [OF sample_digest rtranclp.rtrancl_refl f s1 rtranclp.rtrancl_refl] by blast
  have "''level'' \<in> fst ` set (er_fields sample_capability)" "field sample_capability ''level'' = JStr ''C0''" by code_simp+
  with bspec [OF r'(2) this(1)] have "field r' ''level'' = JStr ''C0''" by (simp only: norm_json.simps)
  with s1 r'(1) show ?thesis by blast
qed

end
