(* ===== verification/EgcfApproval.thy ===== *)
theory EgcfApproval
  imports EgcfStore
begin

text \<open>
  Approvals of execution plans (\<open>ourd/egcf/approval.py\<close>): \<open>authorize\<close> stores a human approval bound to the
  digest of one plan, \<open>validate\<close> admits it before a run. \<open>snap\<close> is the workspace's current snapshot hash;
  \<open>read_time\<close> and \<open>now\<close> read the ISO-8601 texts and the clock, as in \<open>Authority\<close>. The lemmas follow the
  store through its later states: what was counted stays counted, what was stored stays readable.
\<close>

section \<open>Values of fields\<close>

text \<open>A method call on a string field, and a number compared with an \<open>int\<close>.\<close>

definition text_of :: "json \<Rightarrow> string res" where
  "text_of v = (case v of JStr s \<Rightarrow> Inr s | _ \<Rightarrow> Inl (AttributeError ''object has no such attribute''))"

definition number_of :: "json \<Rightarrow> int res" where
  "number_of v = (case v of JInt i \<Rightarrow> Inr i | JBool b \<Rightarrow> Inr (if b then 1 else 0)
     | _ \<Rightarrow> Inl (TypeError ''not supported between instances''))"

primrec filterR :: "('a \<Rightarrow> bool res) \<Rightarrow> 'a list \<Rightarrow> 'a list res" where
  "filterR f [] = Inr []"
| "filterR f (x # xs) = bindR (f x) (\<lambda>b. bindR (filterR f xs) (\<lambda>ys. Inr (if b then x # ys else ys)))"

text \<open>\<open>store.find\<close> with a predicate.\<close>

definition find_where :: "digest \<Rightarrow> egcf_store \<Rightarrow> string \<Rightarrow> (egcf_record \<Rightarrow> bool res) \<Rightarrow> egcf_record list res" where
  "find_where H s object_type f = bindR (find_records H s object_type) (filterR f)"

section \<open>Approvals\<close>

definition expired :: "(string \<Rightarrow> int option) \<Rightarrow> int \<Rightarrow> json \<Rightarrow> bool res" where
  "expired read_time now expires_at =
     (if \<not> py_truthy expires_at then Inr False
      else bindR (text_of expires_at) (\<lambda>t. case read_time t of
          None \<Rightarrow> Inl (ValueError ''Invalid isoformat string'')
        | Some expiry \<Rightarrow> Inr (expiry \<le> now)))"

definition approval_record :: "call \<Rightarrow> string \<Rightarrow> string \<Rightarrow> string \<Rightarrow> string \<Rightarrow> (string, json) dict \<Rightarrow> string \<Rightarrow> int \<Rightarrow> egcf_record" where
  "approval_record c plan_id plan_digest approver authority constraints expires_at use_limit = make_record ''approval''
     [(''plan_id'', JStr plan_id), (''plan_hash'', JStr plan_digest), (''approver'', JStr approver), (''authority'', JStr authority),
      (''constraints'', JObj constraints), (''created_at'', JStr (cl_now c)), (''expires_at'', JStr expires_at),
      (''use_limit'', JInt (max 1 (min use_limit 20))), (''human'', JBool True)]"

definition authorize ::
  "digest \<Rightarrow> call \<Rightarrow> string \<Rightarrow> string \<Rightarrow> string \<Rightarrow> string \<Rightarrow> (string, json) dict \<Rightarrow> string \<Rightarrow> bool \<Rightarrow> int \<Rightarrow> egcf_store \<Rightarrow> (egcf_store \<times> string) res" where
  "authorize H c snap plan_id approver authority constraints expires_at human use_limit s =
     bindR (store_get H s plan_id) (\<lambda>plan.
     if er_type plan \<noteq> ''execution-plan'' then Inl (ApprovalError ''not an execution plan'')
     else if \<not> human then Inl (ApprovalError ''human approval records cannot be generated by a model or workflow'')
     else if strip approver = [] \<or> strip authority = [] then Inl (ApprovalError ''approval requires an approver and external authority statement'')
     else if field plan ''source_snapshot_hash'' \<noteq> JStr snap then Inl (ApprovalError ''execution plan source snapshot is stale'')
     else bindR (parse_typed_id plan_id) (\<lambda>(_, plan_digest).
       register H c ''egcf_human_approval'' (approval_record c plan_id plan_digest approver authority constraints expires_at use_limit) s))"

definition completed_run :: "string \<Rightarrow> egcf_record \<Rightarrow> bool res" where
  "completed_run plan_id r =
     (if er_type r = ''execution'' \<and> field r ''plan_id'' = JStr plan_id \<and> field r ''node_id'' = JStr ''__workflow__''
      then if unhashable (field r ''status'') then Inl (TypeError ''unhashable type'')
           else Inr (field r ''status'' \<in> {JStr ''COMPLETED'', JStr ''SIMULATED''})
      else Inr False)"

definition validate_approval ::
  "digest \<Rightarrow> (string \<Rightarrow> int option) \<Rightarrow> int \<Rightarrow> string \<Rightarrow> egcf_record \<Rightarrow> string \<Rightarrow> egcf_store \<Rightarrow> egcf_record res" where
  "validate_approval H read_time now snap plan approval_id s =
     bindR (store_get H s approval_id) (\<lambda>approval.
     if er_type approval \<noteq> ''approval'' then Inl (ApprovalError ''not an approval record'')
     else bindR (object_id H plan) (\<lambda>plan_id.
     if field approval ''plan_id'' \<noteq> JStr plan_id then Inl (ApprovalError ''approval is bound to a different execution plan'')
     else bindR (parse_typed_id plan_id) (\<lambda>(_, expected_digest).
     if field approval ''plan_hash'' \<noteq> JStr expected_digest then Inl (ApprovalError ''approval plan hash does not match the execution plan'')
     else if \<not> py_truthy (field approval ''human'') then Inl (ApprovalError ''human approval is required'')
     else bindR (expired read_time now (field approval ''expires_at'')) (\<lambda>late.
     if late then Inl (ApprovalError ''approval has expired'')
     else if field plan ''source_snapshot_hash'' \<noteq> JStr snap then Inl (ApprovalError ''source snapshot changed after approval'')
     else bindR (find_where H s ''execution'' (completed_run plan_id)) (\<lambda>runs.
     bindR (number_of (field approval ''use_limit'')) (\<lambda>limit.
     if int (length runs) \<ge> limit then Inl (ApprovalError ''approval use limit is exhausted'') else Inr approval))))))"

section \<open>Later states\<close>

lemma store_get_kept:
  assumes "keeps_files s s'" and "store_get H s oid = Inr r"
  shows "store_get H s' oid = Inr r"
proof -
  obtain k h where k: "parse_typed_id oid = Inr (k, h)"
    using assms(2) by (auto simp: store_get_def get_object_def get_envelope_def bindR_Inr)
  then obtain f where f: "dict_get (es_files s) h = Some f"
    using assms(2) by (cases "dict_get (es_files s) h") (auto simp: store_get_def get_object_def get_envelope_def)
  with assms(1) have "dict_get (es_files s') h = Some f" by (simp add: keeps_files_def)
  with f k have "get_envelope H (es_files s') oid = get_envelope H (es_files s) oid" by (simp add: get_envelope_def)
  with assms(2) show ?thesis by (simp add: store_get_def get_object_def)
qed

lemma list_objects_set: "set (list_objects s t) = {(oid, row) \<in> set (pj_objects (es_projection s)). t = [] \<or> or_type row = t}"
  by (auto simp: list_objects_def)

lemma list_objects_distinct:
  assumes "store_ok H s"
  shows "distinct (list_objects s t)"
proof -
  have "distinct (map fst (pj_objects (es_projection s)))" using assms by (simp add: store_ok_def projects_def)
  then show ?thesis by (simp add: list_objects_def distinct_map)
qed

lemma list_objects_mono:
  assumes "store_ok H s" and "store_ok H s'" and "keeps_files s s'"
  shows "set (list_objects s t) \<subseteq> set (list_objects s' t)"
proof -
  have "envelopes (es_files s) \<subseteq> envelopes (es_files s')" using assms(3) by (auto simp: envelopes_def keeps_files_def)
  with assms(1,2) have "set (pj_objects (es_projection s)) \<subseteq> set (pj_objects (es_projection s'))"
    by (auto simp: store_ok_def projects_def)
  then show ?thesis by (auto simp: list_objects_set)
qed

lemma filterR_length: "filterR f xs = Inr ys \<Longrightarrow> length ys = length (filter (\<lambda>x. f x = Inr True) xs)"
  by (induction xs arbitrary: ys) (auto simp: bindR_Inr split: if_splits)

lemma found_count:
  assumes "list_all2 (\<lambda>row r. g row = Inr r) rows rs"
  shows "length (filter P rs) = length (filter (\<lambda>row. \<exists>r. g row = Inr r \<and> P r) rows)"
  using assms by (induction rule: list_all2_induct) auto

lemma find_where_length:
  assumes "find_where H s t f = Inr xs"
  shows "length xs = length (filter (\<lambda>(oid, row). \<exists>r. store_get H s oid = Inr r \<and> f r = Inr True) (list_objects s t))"
proof -
  from assms obtain rs where rs: "find_records H s t = Inr rs" "filterR f rs = Inr xs" by (auto simp: find_where_def bindR_Inr)
  from rs(1) have "list_all2 (\<lambda>x r. (case x of (oid, row) \<Rightarrow> store_get H s oid) = Inr r) (list_objects s t) rs"
    by (simp add: find_records_def mapR_Inr)
  from found_count [OF this] filterR_length [OF rs(2)] show ?thesis by (simp add: case_prod_unfold)
qed

text \<open>A count of stored records never goes down.\<close>

lemma find_where_mono:
  assumes "store_ok H s" and "store_ok H s'" and "keeps_files s s'"
    and "find_where H s t f = Inr xs" and "find_where H s' t f = Inr ys"
  shows "length xs \<le> length ys"
proof -
  let ?p = "\<lambda>s (oid, row). \<exists>r. store_get H s oid = Inr r \<and> f r = Inr True"
  have sub: "set (filter (?p s) (list_objects s t)) \<subseteq> set (filter (?p s') (list_objects s' t))"
    using list_objects_mono [OF assms(1-3)] store_get_kept [OF assms(3)] by fastforce
  have "length xs = card (set (filter (?p s) (list_objects s t)))"
    using find_where_length [OF assms(4)] distinct_card [OF distinct_filter [OF list_objects_distinct [OF assms(1)]]] by metis
  moreover have "length ys = card (set (filter (?p s') (list_objects s' t)))"
    using find_where_length [OF assms(5)] distinct_card [OF distinct_filter [OF list_objects_distinct [OF assms(2)]]] by metis
  ultimately show ?thesis using card_mono [OF _ sub] by simp
qed

text \<open>The approval as it is read back from any later state.\<close>

lemma approval_fields:
  "er_type (approval_record c p d a u cs e n) = ''approval''" "distinct (map fst (er_fields (approval_record c p d a u cs e n)))"
  "field (approval_record c p d a u cs e n) ''plan_id'' = JStr p" "field (approval_record c p d a u cs e n) ''plan_hash'' = JStr d"
  "field (approval_record c p d a u cs e n) ''human'' = JBool True" "field (approval_record c p d a u cs e n) ''expires_at'' = JStr e"
  "field (approval_record c p d a u cs e n) ''use_limit'' = JInt (max 1 (min n 20))"
  "\<forall>k \<in> {''plan_id'', ''plan_hash'', ''human'', ''expires_at'', ''use_limit''}. k \<in> fst ` set (er_fields (approval_record c p d a u cs e n))"
  by (simp_all add: approval_record_def make_record_def field_def dict_getd_def RECORD_TYPES_def ApprovalRecord_fields_def field_names_def)

lemma authorize_parts:
  assumes "authorize H c snap plan_id approver authority constraints expires_at human use_limit s = Inr (s1, aid)"
  obtains k d where "parse_typed_id plan_id = Inr (k, d)"
    and "register H c ''egcf_human_approval'' (approval_record c plan_id d approver authority constraints expires_at use_limit) s = Inr (s1, aid)"
    and "\<exists>plan. store_get H s plan_id = Inr plan \<and> er_type plan = ''execution-plan'' \<and> field plan ''source_snapshot_hash'' = JStr snap"
    and "human" and "strip approver \<noteq> []" and "strip authority \<noteq> []"
  using assms by (auto simp: authorize_def bindR_Inr split: if_splits)

lemma approval_read:
  assumes "sha_like H" and "store_ok H s" and "register H c t (approval_record c p d a u cs e n) s = Inr (s1, aid)"
    and "fresh_call c s" and "keeps_files s1 s2"
  obtains r where "store_get H s2 aid = Inr r" and "er_type r = ''approval''" and "field r ''plan_id'' = JStr p"
    and "field r ''plan_hash'' = JStr d" and "field r ''human'' = JBool True" and "field r ''expires_at'' = JStr e"
    and "field r ''use_limit'' = JInt (max 1 (min n 20))"
proof -
  let ?a = "approval_record c p d a u cs e n"
  note read = registered_readable [OF assms(1,2) approval_fields(2) assms(3,5)]
  obtain r where r: "construct_record (er_type ?a) (norm_json (to_payload ?a)) = Inr r" "er_type r = er_type ?a"
    "\<forall>k \<in> fst ` set (er_fields ?a). field r k = norm_json (dict_getd (er_fields ?a) k JNull)"
    unfolding to_payload_def by (rule construct_fields [OF read(2) [unfolded to_payload_def] approval_fields(2)])
  then have f: "field r k = norm_json (field ?a k)" if "k \<in> {''plan_id'', ''plan_hash'', ''human'', ''expires_at'', ''use_limit''}" for k
    unfolding field_def using bspec [OF r(3) bspec [OF approval_fields(8) that]] by (simp only: field_def)
  from that [of r] r(1,2) read(1) show thesis by (simp add: f approval_fields)
qed

text \<open>A record its constructor made passes the payload check.\<close>

lemma make_record_valid:
  assumes "dict_get RECORD_TYPES t \<noteq> None" and "t \<noteq> ''command-definition''"
  shows "validate_record_payload t (to_payload (make_record t args)) = Inr ()"
proof -
  from assms(1) obtain fs where fs: "dict_get RECORD_TYPES t = Some fs" by blast
  let ?d = "er_fields (make_record t args)"
  have keys: "map fst ?d = field_names fs" by (simp add: make_record_def fs dict_getd_def comp_def)
  then have "dict_get ?d k \<noteq> None" if "k \<in> set (fst fs)" for k
    using that by (metis UnI1 field_names_def list.set_map map_of_eq_None_iff set_append)
  moreover have "\<forall>kv \<in> set ?d. fst kv \<in> set (field_names fs)" unfolding keys [symmetric] by simp
  ultimately show ?thesis using assms(2) by (auto simp: validate_record_payload_def fs to_payload_def list_ex_iff)
qed

section \<open>Properties\<close>

text \<open>C33. What an approval admits, exactly: in every state after \<open>authorize\<close>, \<open>validate\<close> accepts the approval for
  a plan if and only if the plan is the approved one, the expiry given then is absent or lies in the
  future, the plan's source snapshot is the workspace's, and the plan has completed fewer runs than the
  limit given then, clamped to 1..20. Only a human with an authority statement creates an approval.\<close>

theorem approval_admits_exactly:
  assumes "sha_like H" and "(egcf_step H B)\<^sup>*\<^sup>* empty_egcf s" and "fresh_call c s"
    and "authorize H c snap plan_id approver authority constraints expires_at human use_limit s = Inr (s1, aid)"
    and "(egcf_step H B)\<^sup>*\<^sup>* s1 s2"
  shows "human \<and> strip authority \<noteq> [] \<and> ((\<exists>a. validate_approval H read_time now snap2 plan aid s2 = Inr a) \<longleftrightarrow>
      object_id H plan = Inr plan_id \<and> (expires_at = [] \<or> (\<exists>t. read_time expires_at = Some t \<and> now < t)) \<and>
      field plan ''source_snapshot_hash'' = JStr snap2 \<and>
      (\<exists>runs. find_where H s2 ''execution'' (completed_run plan_id) = Inr runs \<and> int (length runs) < max 1 (min use_limit 20)))"
proof -
  obtain k d where d: "parse_typed_id plan_id = Inr (k, d)"
    "register H c ''egcf_human_approval'' (approval_record c plan_id d approver authority constraints expires_at use_limit) s = Inr (s1, aid)"
    and human: "human" "strip authority \<noteq> []"
    by (rule authorize_parts [OF assms(4)])
  have ok: "store_ok H s" using run_ok_store [OF assms(1,2) empty_egcf_ok] by blast
  have "store_ok H s1" by (rule register_ok(1) [OF assms(1) ok approval_fields(2) assms(3) _ d(2)]) (simp add: approval_fields)
  then have keep: "keeps_files s1 s2" using run_ok_store [OF assms(1,5)] by blast
  obtain r where r: "store_get H s2 aid = Inr r" "er_type r = ''approval''" "field r ''plan_id'' = JStr plan_id"
    "field r ''plan_hash'' = JStr d" "field r ''human'' = JBool True" "field r ''expires_at'' = JStr expires_at"
    "field r ''use_limit'' = JInt (max 1 (min use_limit 20))"
    by (rule approval_read [OF assms(1) ok d(2) assms(3) keep])
  have late: "expired read_time now (JStr expires_at) = Inr False \<longleftrightarrow> expires_at = [] \<or> (\<exists>t. read_time expires_at = Some t \<and> now < t)"
    by (auto simp: expired_def text_of_def py_truthy_def not_le split: option.splits)
  define n where "n = max 1 (min use_limit 20)"
  have "(\<exists>a. validate_approval H read_time now snap2 plan aid s2 = Inr a) \<longleftrightarrow> object_id H plan = Inr plan_id \<and>
      (expires_at = [] \<or> (\<exists>t. read_time expires_at = Some t \<and> now < t)) \<and> field plan ''source_snapshot_hash'' = JStr snap2 \<and>
      (\<exists>runs. find_where H s2 ''execution'' (completed_run plan_id) = Inr runs \<and> int (length runs) < max 1 (min use_limit 20))"
    (is "?valid \<longleftrightarrow> ?conditions")
  proof
    assume ?valid
    then show ?conditions unfolding late [symmetric] n_def [symmetric]
      by (auto simp: validate_approval_def r [folded n_def] bindR_Inr number_of_def py_truthy_def d(1) split: if_splits)
  next
    assume c: ?conditions
    then obtain runs where "find_where H s2 ''execution'' (completed_run plan_id) = Inr runs" "int (length runs) < n"
      unfolding n_def by blast
    with c [folded late] have "validate_approval H read_time now snap2 plan aid s2 = Inr r"
      by (simp add: validate_approval_def r [folded n_def] number_of_def py_truthy_def d(1))
    then show ?valid by blast
  qed
  with human show ?thesis by blast
qed

text \<open>C34. A spent approval stays spent: once a plan has completed as many runs as the approval allows, no
  later state of the store, no clock and no workspace makes \<open>validate\<close> accept it again.\<close>

theorem spent_approval_final:
  assumes "sha_like H" and "(egcf_step H B)\<^sup>*\<^sup>* empty_egcf s" and "store_get H s aid = Inr approval"
    and "object_id H plan = Inr plan_id" and "find_where H s ''execution'' (completed_run plan_id) = Inr completed"
    and "number_of (field approval ''use_limit'') = Inr limit" and "limit \<le> int (length completed)"
    and "(egcf_step H B)\<^sup>*\<^sup>* s s2"
  shows "validate_approval H read_time now snap plan aid s2 \<noteq> Inr a"
proof
  assume v: "validate_approval H read_time now snap plan aid s2 = Inr a"
  have ok: "store_ok H s" using run_ok_store [OF assms(1,2) empty_egcf_ok] by blast
  have ok2: "store_ok H s2" "keeps_files s s2" using run_ok_store [OF assms(1,8) ok] by blast+
  note there = store_get_kept [OF ok2(2) assms(3)]
  obtain runs2 where "find_where H s2 ''execution'' (completed_run plan_id) = Inr runs2" "int (length runs2) < limit"
    using v assms(6) by (auto simp: validate_approval_def there bindR_Inr assms(4) split: if_splits)
  with find_where_mono [OF ok ok2 assms(5)] assms(7) show False by fastforce
qed

section \<open>A plan, its approval and its run\<close>

definition sample_plan :: egcf_record where
  "sample_plan = make_record ''execution-plan''
     [(''compiled_workflow_id'', JStr ''w''), (''graph_hash'', JStr ''g''), (''source_snapshot_hash'', JStr ''snap''), (''node_order'', JList []),
      (''eon_action_ids'', JList []), (''algorithm_digests'', JObj []), (''capability_grant_id'', JStr ''c''), (''evidence_ids'', JList []),
      (''budget'', JObj []), (''rollback_graph'', JObj []), (''approval_policy'', JStr ''human''), (''expires_at'', JStr []), (''created_at'', JStr ''t'')]"

definition later_call :: call where
  "later_call = sample_call\<lparr>cl_stamp := (cl_stamp sample_call)\<lparr>sp_event_id := ''e2''\<rparr>\<rparr>"

definition plan_id_text :: string where
  "plan_id_text = ''execution-plan:sha256:'' @ replicate 64 CHR ''a''"

definition sample_execution :: egcf_record where
  "sample_execution = make_record ''execution''
     [(''plan_id'', JStr plan_id_text), (''node_id'', JStr ''__workflow__''), (''algorithm_id'', JStr ''x''), (''executor'', JStr ''x''),
      (''inputs_hash'', JStr ''i''), (''output'', JObj []), (''status'', JStr ''COMPLETED''), (''usage'', JObj []), (''evidence_ids'', JList []),
      (''started_at'', JStr ''t''), (''completed_at'', JStr ''t'')]"

definition last_call :: call where
  "last_call = sample_call\<lparr>cl_stamp := (cl_stamp sample_call)\<lparr>sp_event_id := ''e3''\<rparr>\<rparr>"

text \<open>A digest that tells the plan and its run from everything else.\<close>

definition plan_digest :: digest where
  "plan_digest t = replicate 64 (if t = canonical_json (address_material (''execution-plan'', to_payload sample_plan)) then CHR ''a''
     else if t = canonical_json (address_material (''execution'', to_payload sample_execution)) then CHR ''b'' else CHR ''c'')"

lemma plan_digest_sha: "sha_like plan_digest"
  by (simp add: plan_digest_def sha_like_def)

lemma material_types:
  assumes "canonical_json (address_material (t, p)) = canonical_json (address_material (u, q))"
  shows "t = u"
proof -
  from assms have "norm_json (address_material (t, p)) = norm_json (address_material (u, q))"
    by (rule canonical_json_injective [THEN iffD1])
  then show ?thesis by (simp add: address_material_def norm_obj_eq)
qed

lemma sample_addresses:
  "address plan_digest ''execution-plan'' (to_payload sample_plan) = replicate 64 CHR ''a''"
  "address plan_digest ''execution'' (to_payload sample_execution) = replicate 64 CHR ''b''"
  "address plan_digest ''approval'' p = replicate 64 CHR ''c''"
  by (auto simp: address_def stable_hash_def plan_digest_def dest: material_types)

lemma approved_valid:
  "validate_record_payload ''execution-plan'' (to_payload sample_plan) = Inr ()" "er_type sample_plan = ''execution-plan''"
  "distinct (map fst (er_fields sample_plan))" "fresh_call sample_call empty_egcf" "field sample_plan ''source_snapshot_hash'' = JStr ''snap''"
  "construct_record ''execution-plan'' (norm_json (to_payload sample_plan)) = Inr sample_plan"
  "validate_record_payload ''execution'' (to_payload sample_execution) = Inr ()" "er_type sample_execution = ''execution''"
  "distinct (map fst (er_fields sample_execution))" "construct_record ''execution'' (norm_json (to_payload sample_execution)) = Inr sample_execution"
  "completed_run plan_id_text sample_execution = Inr True"
  "sp_event_id (cl_stamp sample_call) = ''e1''" "sp_event_id (cl_stamp later_call) = ''e2''"
  "sp_event_id (cl_stamp last_call) = ''e3''"
  by code_simp+

text \<open>What a first registration leaves behind.\<close>

lemma registered_new:
  assumes "sha_like H" and "store_ok H s" and "distinct (map fst (er_fields r))" and "fresh_call c s" and "er_type r \<noteq> ''supersedence''"
    and "validate_record_payload (er_type r) (to_payload r) = Inr ()" and "address H (er_type r) (to_payload r) \<notin> set (map fst (es_files s))"
  shows "\<exists>s'. register H c t r s = Inr (s', oid_of H (er_type r) (to_payload r)) \<and> egcf_step H B s s' \<and> store_ok H s' \<and> keeps_files s s' \<and>
    map fst (es_files s') = map fst (es_files s) @ [address H (er_type r) (to_payload r)] \<and>
    map (\<lambda>e. jget e ''event_id'') (ss_events (es_log s')) = map (\<lambda>e. jget e ''event_id'') (ss_events (es_log s)) @ [JStr (sp_event_id (cl_stamp c))] \<and>
    pj_objects (es_projection s') = insert_ignore (oid_of H (er_type r) (to_payload r))
          (object_row_of (er_type r) (address H (er_type r) (to_payload r)) (to_payload r)) (pj_objects (es_projection s)) \<and>
    store_get H s' (oid_of H (er_type r) (to_payload r)) = construct_record (er_type r) (norm_json (to_payload r)) \<and>
    pj_supersedence (es_projection s') = pj_supersedence (es_projection s) \<and>
    dict_get (es_files s') (address H (er_type r) (to_payload r)) = Some (Some (stored_envelope H (er_type r) (norm_json (to_payload r))))"
proof -
  have new: "dict_get (es_files s) (address H (er_type r) (to_payload r)) = None" using assms(7) by (simp add: map_of_eq_None_iff)
  then obtain s' where r: "register H c t r s = Inr (s', oid_of H (er_type r) (to_payload r))"
    using register_total [OF assms(1,6)] by blast
  have files: "files_ok H (es_files s)" using assms(2) by (simp add: store_ok_def)
  note ok = register_ok [OF assms(1-5) r]
  have same: "keeps_files s' s'" by (simp add: keeps_files_def)
  note read = registered_readable(1) [OF assms(1,2,3) r same]
  show ?thesis
  proof (rule register_effect [OF assms(1) files assms(3) r])
    fix e
    assume e: "norm_json (to_payload r) = JObj e" and pairs: "pj_supersedence (es_projection s') = pj_supersedence (es_projection s)"
      and there: "dict_get (es_files s') (address H (er_type r) (to_payload r)) = Some (Some (stored_envelope H (er_type r) (JObj e)))"
      and "es_files s' = (if dict_get (es_files s) (address H (er_type r) (to_payload r)) \<noteq> None then es_files s
        else dict_set (address H (er_type r) (to_payload r)) (Some (stored_envelope H (er_type r) (JObj e))) (es_files s))"
      and objects: "pj_objects (es_projection s') = insert_ignore (oid_of H (er_type r) (to_payload r))
          (object_row_of (er_type r) (address H (er_type r) (to_payload r)) (to_payload r)) (pj_objects (es_projection s))"
      and "es_log s' = (if dict_get (es_files s) (address H (er_type r) (to_payload r)) \<noteq> None then es_log s
        else fst (append_event H (cl_redactor c) (cl_stamp c) t (JObj [(''object_id'', JStr (oid_of H (er_type r) (to_payload r))),
          (''object_type'', JStr (er_type r)), (''parent_event_head'', JStr (es_parent_head s))]) (es_log s)))"
    then have "map fst (es_files s') = map fst (es_files s) @ [address H (er_type r) (to_payload r)]"
      and "map (\<lambda>e. jget e ''event_id'') (ss_events (es_log s')) = map (\<lambda>e. jget e ''event_id'') (ss_events (es_log s)) @ [JStr (sp_event_id (cl_stamp c))]"
      using new assms(7) by (simp_all add: append_event_parts AList.update_keys)
    with r egcf_step.registered [OF assms(4,5,3) r] ok objects read pairs there [folded e] show ?thesis by blast
  qed
qed

lemma empty_parts:
  "pj_supersedence (es_projection empty_egcf) = []" "es_files empty_egcf = []" "ss_events (es_log empty_egcf) = []" "pj_objects (es_projection empty_egcf) = []"
  by (simp_all add: empty_egcf_def empty_projection_def)

lemma sample_oids:
  "oid_of plan_digest ''execution-plan'' (to_payload sample_plan) = plan_id_text"
  "object_id plan_digest sample_plan = Inr plan_id_text" "parse_typed_id plan_id_text = Inr (''execution-plan'', replicate 64 CHR ''a'')"
proof -
  show e: "oid_of plan_digest ''execution-plan'' (to_payload sample_plan) = plan_id_text"
    by (simp only: oid_of_def sample_addresses plan_id_text_def append_assoc append.simps)
  from validated_ids [OF plan_digest_sha approved_valid(1)] show "object_id plan_digest sample_plan = Inr plan_id_text"
    "parse_typed_id plan_id_text = Inr (''execution-plan'', replicate 64 CHR ''a'')"
    by (simp_all only: e object_id_def approved_valid(2) sample_addresses)
qed

lemma sample_plan_stored:
  obtains s1 where "egcf_step plan_digest B empty_egcf s1" and "store_ok plan_digest s1" and "map fst (es_files s1) = [replicate 64 CHR ''a'']"
    and "map (\<lambda>e. jget e ''event_id'') (ss_events (es_log s1)) = [JStr ''e1'']"
    and "pj_objects (es_projection s1) = [(plan_id_text, object_row_of ''execution-plan'' (replicate 64 CHR ''a'') (to_payload sample_plan))]"
    and "store_get plan_digest s1 plan_id_text = Inr sample_plan"
proof -
  have "address plan_digest (er_type sample_plan) (to_payload sample_plan) \<notin> set (map fst (es_files empty_egcf))" by (simp add: empty_egcf_def)
  with registered_new [where t = "''egcf_object_registered''" and B = B, OF plan_digest_sha empty_egcf_ok approved_valid(3,4)] that
  show thesis
    unfolding approved_valid(2) sample_oids(1) sample_addresses approved_valid(1) approved_valid(6) approved_valid(12) empty_parts
    by (auto simp: insert_ignore_def)
qed

lemma sample_approved:
  obtains s1 s2 s3 aid where "(egcf_step plan_digest B)\<^sup>*\<^sup>* empty_egcf s1" and "fresh_call later_call s1"
    and "authorize plan_digest later_call ''snap'' plan_id_text ''ann'' ''op'' [] [] True 1 s1 = Inr (s2, aid)"
    and "find_where plan_digest s2 ''execution'' (completed_run plan_id_text) = Inr []"
    and "egcf_step plan_digest B s1 s2" and "egcf_step plan_digest B s2 s3"
    and "find_where plan_digest s3 ''execution'' (completed_run plan_id_text) = Inr [sample_execution]"
    and "\<exists>a. store_get plan_digest s3 aid = Inr a \<and> field a ''use_limit'' = JInt 1"
proof -
  let ?H = plan_digest
  define a where "a = approval_record later_call plan_id_text (replicate 64 CHR ''a'') ''ann'' ''op'' [] [] 1"
  have a: "er_type a = ''approval''" "distinct (map fst (er_fields a))" unfolding a_def by (rule approval_fields)+
  obtain s1 where s1: "egcf_step ?H B empty_egcf s1" "store_ok ?H s1" "map fst (es_files s1) = [replicate 64 CHR ''a'']"
    "map (\<lambda>e. jget e ''event_id'') (ss_events (es_log s1)) = [JStr ''e1'']"
    "pj_objects (es_projection s1) = [(plan_id_text, object_row_of ''execution-plan'' (replicate 64 CHR ''a'') (to_payload sample_plan))]"
    "store_get ?H s1 plan_id_text = Inr sample_plan"
    by (rule sample_plan_stored)
  have v: "validate_record_payload ''approval'' (to_payload a) = Inr ()"
    unfolding a_def approval_record_def by (rule make_record_valid) code_simp+
  have f2: "fresh_call later_call s1" by (simp add: fresh_call_def s1(4) approved_valid(13))
  have "address ?H ''approval'' (to_payload a) \<notin> set (map fst (es_files s1))" by (simp add: s1(3) sample_addresses(3))
  with registered_new [where t = "''egcf_human_approval''" and B = B, OF plan_digest_sha s1(2) a(2) f2]
  obtain s2 where s2: "register ?H later_call ''egcf_human_approval'' a s1 = Inr (s2, oid_of ?H ''approval'' (to_payload a))"
    "egcf_step ?H B s1 s2" "store_ok ?H s2" "map fst (es_files s2) = [replicate 64 CHR ''a'', replicate 64 CHR ''c'']"
    "map (\<lambda>e. jget e ''event_id'') (ss_events (es_log s2)) = [JStr ''e1'', JStr ''e2'']"
    "pj_objects (es_projection s2) = insert_ignore (oid_of ?H ''approval'' (to_payload a)) (object_row_of ''approval'' (replicate 64 CHR ''c'') (to_payload a))
       (pj_objects (es_projection s1))"
    unfolding a(1) sample_addresses(3) approved_valid(13) s1(3) s1(4) using v by auto
  have f3: "fresh_call last_call s2" by (simp add: fresh_call_def s2(5) approved_valid(14))
  have "address ?H ''execution'' (to_payload sample_execution) \<notin> set (map fst (es_files s2))" by (simp add: s2(4) sample_addresses(2))
  with registered_new [where t = "''egcf_execution''" and B = B, OF plan_digest_sha s2(3) approved_valid(9) f3]
  obtain s3 where s3: "egcf_step ?H B s2 s3" "store_ok ?H s3" "keeps_files s2 s3"
    "pj_objects (es_projection s3) = insert_ignore (oid_of ?H ''execution'' (to_payload sample_execution))
        (object_row_of ''execution'' (replicate 64 CHR ''b'') (to_payload sample_execution)) (pj_objects (es_projection s2))"
    "store_get ?H s3 (oid_of ?H ''execution'' (to_payload sample_execution)) = Inr sample_execution"
    unfolding approved_valid(8) approved_valid(10) sample_addresses(2) using approved_valid(7) by auto
  have auth: "authorize ?H later_call ''snap'' plan_id_text ''ann'' ''op'' [] [] True 1 s1 = Inr (s2, oid_of ?H ''approval'' (to_payload a))"
    by (simp add: authorize_def s1(6) approved_valid(2,5) sample_oids(3) s2(1) [unfolded a_def] a_def strip_def lstrip_def rstrip_def is_space_def)
  have rows: "list_objects s2 ''execution'' = []" "map fst (list_objects s3 ''execution'') = [oid_of ?H ''execution'' (to_payload sample_execution)]"
    by (auto simp: list_objects_def s1(5) s2(6) s3(4) insert_ignore_def object_row_of_def oid_of_def plan_id_text_def)
  then have found: "find_where ?H s2 ''execution'' (completed_run plan_id_text) = Inr []"
    "find_where ?H s3 ''execution'' (completed_run plan_id_text) = Inr [sample_execution]"
    by (auto simp: find_where_def find_records_def s3(5) approved_valid(11))
  have same: "keeps_files s2 s3" by (rule s3(3))
  obtain x where "store_get ?H s3 (oid_of ?H ''approval'' (to_payload a)) = Inr x" "field x ''use_limit'' = JInt (max 1 (min 1 20))"
    by (rule approval_read [OF plan_digest_sha s1(2) s2(1) [unfolded a_def] f2 same, folded a_def])
  with that [OF r_into_rtranclp f2 auth found(1) s2(2) s3(1) found(2)] s1(1) show thesis by auto
qed

theorem approval_admits_exactly_witness:
  "\<exists>s1 s2 aid a. authorize plan_digest later_call ''snap'' plan_id_text ''ann'' ''op'' [] [] True 1 s1 = Inr (s2, aid) \<and>
     validate_approval plan_digest (\<lambda>t. None) 0 ''snap'' sample_plan aid s2 = Inr a"
proof -
  obtain s1 s2 s3 aid where s: "(egcf_step plan_digest (\<lambda>t. t))\<^sup>*\<^sup>* empty_egcf s1" "fresh_call later_call s1"
    "authorize plan_digest later_call ''snap'' plan_id_text ''ann'' ''op'' [] [] True 1 s1 = Inr (s2, aid)"
    and found: "find_where plan_digest s2 ''execution'' (completed_run plan_id_text) = Inr []"
    by (rule sample_approved)
  from approval_admits_exactly [OF plan_digest_sha s rtranclp.rtrancl_refl, of "\<lambda>t. None" 0 "''snap''" sample_plan]
  have "\<exists>a. validate_approval plan_digest (\<lambda>t. None) 0 ''snap'' sample_plan aid s2 = Inr a"
    by (simp add: sample_oids(2) approved_valid(5) found)
  with s(3) show ?thesis by blast
qed

theorem spent_approval_final_witness:
  "\<exists>s2 s3 aid a. (\<exists>s1. authorize plan_digest later_call ''snap'' plan_id_text ''ann'' ''op'' [] [] True 1 s1 = Inr (s2, aid)) \<and>
     (egcf_step plan_digest (\<lambda>t. t))\<^sup>*\<^sup>* s2 s3 \<and> store_get plan_digest s3 aid = Inr a \<and>
     (\<forall>b. validate_approval plan_digest (\<lambda>t. None) 0 ''snap'' sample_plan aid s3 \<noteq> Inr b)"
proof -
  obtain s1 s2 s3 aid where s: "(egcf_step plan_digest (\<lambda>t. t))\<^sup>*\<^sup>* empty_egcf s1"
      "authorize plan_digest later_call ''snap'' plan_id_text ''ann'' ''op'' [] [] True 1 s1 = Inr (s2, aid)"
      "egcf_step plan_digest (\<lambda>t. t) s1 s2" "egcf_step plan_digest (\<lambda>t. t) s2 s3"
    and found: "find_where plan_digest s3 ''execution'' (completed_run plan_id_text) = Inr [sample_execution]"
    and ex: "\<exists>a. store_get plan_digest s3 aid = Inr a \<and> field a ''use_limit'' = JInt 1"
    by (rule sample_approved)
  from ex obtain a where a: "store_get plan_digest s3 aid = Inr a" "number_of (field a ''use_limit'') = Inr 1" "(1::int) \<le> int (length [sample_execution])"
    by (auto simp: number_of_def)
  have run: "(egcf_step plan_digest (\<lambda>t. t))\<^sup>*\<^sup>* empty_egcf s3" "(egcf_step plan_digest (\<lambda>t. t))\<^sup>*\<^sup>* s2 s3"
    using s(1,3,4) by auto
  have "validate_approval plan_digest (\<lambda>t. None) 0 ''snap'' sample_plan aid s3 \<noteq> Inr b" for b
    by (rule spent_approval_final [OF plan_digest_sha run(1) a(1) sample_oids(2) found a(2,3) rtranclp.rtrancl_refl])
  with s(2) run(2) a(1) show ?thesis by blast
qed

end
