(* ===== verification/EgcfGovernance.thy ===== *)
theory EgcfGovernance
  imports EgcfApproval RScoring
begin

text \<open>
  Decisions and invariants kept as records of the store (\<open>ourd/egcf/decisions.py\<close>, \<open>invariants.py\<close>) and the
  conflicts the compiler refuses in strict mode (\<open>compiler.py\<close>, \<open>_governance_conflicts\<close>).
  An operation that registers several records takes one \<open>call\<close> for each. The lemmas
  show that a superseded record never comes back, and how the two notions of conflict differ.
\<close>

section \<open>Helpers\<close>

text \<open>\<open>dict.fromkeys\<close> on values: Python's equality decides what is a repetition.\<close>

definition py_unique :: "json list \<Rightarrow> json list" where
  "py_unique vs = foldl (\<lambda>acc v. if list_ex (py_eq v) acc then acc else acc @ [v]) [] vs"

text \<open>\<open>Record(**{**old.to_dict(), ...})\<close> and \<open>dataclasses.replace\<close>.\<close>

definition replaced :: "(string, json) dict \<Rightarrow> egcf_record \<Rightarrow> egcf_record" where
  "replaced changes r = r\<lparr>er_fields := fold (\<lambda>(k, v). dict_set k v) changes (er_fields r)\<rparr>"

text \<open>The pairs \<open>(records[i], records[j])\<close> with \<open>i < j\<close>, in the order of the two loops.\<close>

fun index_pairs :: "'a list \<Rightarrow> ('a \<times> 'a) list" where
  "index_pairs [] = []"
| "index_pairs (x # xs) = map (Pair x) xs @ index_pairs xs"

text \<open>\<open>{"object_id": record.object_id, **record.to_dict()}\<close>.\<close>

definition described :: "digest \<Rightarrow> egcf_record \<Rightarrow> json res" where
  "described H r = bindR (object_id H r) (\<lambda>i. Inr (JObj ((''object_id'', JStr i) # er_fields r)))"

definition scope_intersects :: "json \<Rightarrow> json \<Rightarrow> bool res" where
  "scope_intersects left right = bindR (py_elements left) (\<lambda>l. bindR (py_elements right) (\<lambda>r.
     Inr (list_ex (\<lambda>v. list_ex (py_eq v) r) l)))"

definition scope_overlap :: "json \<Rightarrow> json \<Rightarrow> bool res" where
  "scope_overlap left right = bindR (py_elements left) (\<lambda>l. bindR (py_elements right) (\<lambda>r.
     Inr (list_ex (\<lambda>v. list_ex (py_eq v) r) l \<or> JStr ''**'' \<in> set l \<or> JStr ''**'' \<in> set r)))"

definition governed_records :: "digest \<Rightarrow> string \<Rightarrow> (json \<Rightarrow> bool res) \<Rightarrow> egcf_store \<Rightarrow> egcf_record list res" where
  "governed_records H object_type accepts s =
     (let active = active_ids s object_type in
      bindR (find_records H s object_type) (filterR (\<lambda>r.
        if er_type r \<noteq> object_type then Inr False
        else bindR (object_id H r) (\<lambda>i. if i \<notin> set active then Inr False else accepts (field r ''status'')))))"

definition is_status :: "string \<Rightarrow> json \<Rightarrow> bool res" where
  "is_status status v = Inr (v = JStr status)"

text \<open>\<open>left.key.strip().lower()\<close> against the same of the other record.\<close>

definition same_text :: "string \<Rightarrow> egcf_record \<Rightarrow> egcf_record \<Rightarrow> bool res" where
  "same_text k l r = bindR (text_of (field l k)) (\<lambda>a. bindR (text_of (field r k)) (\<lambda>b. Inr (lower (strip a) = lower (strip b))))"

section \<open>Decisions\<close>

definition create_decision ::
  "digest \<Rightarrow> call \<Rightarrow> string \<Rightarrow> string list \<Rightarrow> string \<Rightarrow> string \<Rightarrow> string list \<Rightarrow> string list \<Rightarrow> string \<Rightarrow> string list \<Rightarrow> bool \<Rightarrow>
     egcf_store \<Rightarrow> (egcf_store \<times> string) res" where
  "create_decision H c question alternatives choice rationale evidence_ids constraints owner scope activate s =
     (if activate then Inl (EGCFError ''direct decision activation is forbidden; use an approved supersedence operation'')
      else register H c ''egcf_object_registered'' (make_record ''decision''
        [(''question'', JStr question), (''alternatives'', jstrs alternatives), (''choice'', JStr choice), (''rationale'', JStr rationale),
         (''evidence_ids'', jstrs (from_keys evidence_ids)), (''constraints'', jstrs constraints), (''owner'', JStr owner),
         (''scope'', jstrs scope), (''status'', JStr ''PROPOSED''), (''created_at'', JStr (cl_now c))]) s)"

definition decision_records :: "digest \<Rightarrow> bool \<Rightarrow> egcf_store \<Rightarrow> egcf_record list res" where
  "decision_records H active_only s =
     (if active_only then governed_records H ''decision'' (is_status ''ACTIVE'') s
      else bindR (find_records H s ''decision'') (\<lambda>rs. Inr (filter (\<lambda>r. er_type r = ''decision'') rs)))"

definition query_matches :: "string \<Rightarrow> string list \<Rightarrow> egcf_record \<Rightarrow> bool res" where
  "query_matches needle scope r =
     (if needle \<noteq> [] \<and> \<not> contains (lower needle)
          (lower (py_str (field r ''question'') @ '' '' @ py_str (field r ''choice'') @ '' '' @ py_str (field r ''rationale'')))
      then Inr False
      else if scope = [] then Inr True else scope_overlap (field r ''scope'') (jstrs scope))"

definition query_decisions :: "digest \<Rightarrow> string \<Rightarrow> string list \<Rightarrow> egcf_store \<Rightarrow> json list res" where
  "query_decisions H needle scope s =
     bindR (decision_records H False s) (\<lambda>rs. bindR (filterR (query_matches needle scope) rs) (mapR (described H)))"

definition decision_conflict :: "egcf_record \<Rightarrow> egcf_record \<Rightarrow> bool res" where
  "decision_conflict l r = bindR (same_text ''question'' l r) (\<lambda>same.
     if \<not> same then Inr False
     else bindR (same_text ''choice'' l r) (\<lambda>agree.
       if agree then Inr False else scope_overlap (field l ''scope'') (field r ''scope'')))"

definition conflict_entry :: "digest \<Rightarrow> string \<Rightarrow> egcf_record \<times> egcf_record \<Rightarrow> json res" where
  "conflict_entry H reason lr = bindR (object_id H (fst lr)) (\<lambda>i. bindR (object_id H (snd lr)) (\<lambda>j.
     Inr (JObj [(''left'', JStr i), (''right'', JStr j), (''reason'', JStr reason)])))"

definition decision_conflicts :: "digest \<Rightarrow> egcf_store \<Rightarrow> json list res" where
  "decision_conflicts H s =
     bindR (decision_records H True s) (\<lambda>rs. bindR (filterR (\<lambda>(l, r). decision_conflict l r) (index_pairs rs))
       (mapR (conflict_entry H ''active decisions choose different alternatives for the same question'')))"

definition supersede_decision ::
  "digest \<Rightarrow> call \<Rightarrow> call \<Rightarrow> string \<Rightarrow> string \<Rightarrow> string \<Rightarrow> string list \<Rightarrow> string \<Rightarrow> egcf_store \<Rightarrow> (egcf_store \<times> string) res" where
  "supersede_decision H c1 c2 old_id choice rationale evidence_ids authority s =
     (if authority = [] then Inl (EGCFError ''decision supersedence requires authority'')
      else bindR (store_get H s old_id) (\<lambda>old.
        if er_type old \<noteq> ''decision'' then Inl (EGCFError ''not a decision'')
        else bindR (register H c1 ''egcf_object_registered'' (replaced
            [(''choice'', JStr choice), (''rationale'', JStr rationale), (''evidence_ids'', jstrs (from_keys evidence_ids)),
             (''status'', JStr ''ACTIVE''), (''created_at'', JStr (cl_now c1)), (''supersedes'', JStr old_id)] old) s) (\<lambda>(s1, new_id).
          bindR (supersede H c2 old_id new_id ''decision superseded'' authority s1) (\<lambda>(s2, _). Inr (s2, new_id)))))"

section \<open>Invariants\<close>

definition normalize_statement :: "string \<Rightarrow> string" where
  "normalize_statement statement = join '' '' (words (rstrip_char (CHR ''.'') (strip (lower statement))))"

definition opposites :: "string \<Rightarrow> string \<Rightarrow> bool" where
  "opposites left right = (let l = normalize_statement left; r = normalize_statement right in l = ''not '' @ r \<or> r = ''not '' @ l)"

definition candidate_invariant :: "call \<Rightarrow> string list \<Rightarrow> string \<Rightarrow> string \<Rightarrow> egcf_record" where
  "candidate_invariant c scope source statement = (let name = join ''-'' (take 8 (words (normalize_statement statement))) in
     make_record ''invariant''
       [(''name'', JStr (if name = [] then ''unnamed'' else name)), (''statement'', JStr statement), (''scope'', jstrs scope),
        (''status'', JStr ''DISCOVERED_CANDIDATE''), (''validator'', JObj [(''kind'', JStr ''unvalidated''), (''source'', JStr source)]),
        (''evidence_ids'', JList []), (''falsifier'', JStr (''Find a case in scope where: not ('' @ statement @ '')'')),
        (''counterexamples'', JList []), (''authority'', JStr ''proposal-only''), (''created_at'', JStr (cl_now c))])"

definition discover_invariants ::
  "digest \<Rightarrow> (nat \<Rightarrow> call) \<Rightarrow> string list \<Rightarrow> string list \<Rightarrow> string \<Rightarrow> egcf_store \<Rightarrow> (egcf_store \<times> string list) res" where
  "discover_invariants H calls statements scope source s =
     foldR (\<lambda>(i, statement) (st, ids).
         bindR (register H (calls i) ''egcf_object_registered'' (candidate_invariant (calls i) scope source statement) st)
           (\<lambda>(st1, oid). Inr (st1, ids @ [oid])))
       (enumerate 0 (from_keys (map strip (filter (\<lambda>x. strip x \<noteq> []) statements)))) (s, [])"

definition register_invariant ::
  "digest \<Rightarrow> call \<Rightarrow> string \<Rightarrow> string \<Rightarrow> string list \<Rightarrow> (string, json) dict \<Rightarrow> string list \<Rightarrow> string \<Rightarrow> string \<Rightarrow> string list \<Rightarrow>
     egcf_store \<Rightarrow> (egcf_store \<times> string) res" where
  "register_invariant H c name statement scope validator evidence_ids falsifier authority counterexamples s =
     (let evidence = from_keys evidence_ids in
      if authority = [] \<or> validator = [] \<or> evidence = [] \<or> falsifier = []
      then Inl (EGCFError ''registered invariant requires authority, validator, evidence, and falsifier'')
      else register H c ''egcf_object_registered'' (make_record ''invariant''
        [(''name'', JStr name), (''statement'', JStr statement), (''scope'', jstrs scope), (''status'', JStr ''REGISTERED''),
         (''validator'', JObj validator), (''evidence_ids'', jstrs evidence), (''falsifier'', JStr falsifier),
         (''counterexamples'', jstrs counterexamples), (''authority'', JStr authority), (''created_at'', JStr (cl_now c))]) s)"

definition invariant_records :: "digest \<Rightarrow> bool \<Rightarrow> egcf_store \<Rightarrow> egcf_record list res" where
  "invariant_records H active_only s =
     (if active_only then governed_records H ''invariant'' (is_status ''REGISTERED'') s
      else bindR (find_records H s ''invariant'') (\<lambda>rs. Inr (filter (\<lambda>r. er_type r = ''invariant'') rs)))"

definition validate_invariant ::
  "digest \<Rightarrow> call \<Rightarrow> call \<Rightarrow> string \<Rightarrow> bool \<Rightarrow> string list \<Rightarrow> egcf_store \<Rightarrow> (egcf_store \<times> string) res" where
  "validate_invariant H c1 c2 invariant_id success evidence_ids s =
     bindR (store_get H s invariant_id) (\<lambda>inv.
     if er_type inv \<noteq> ''invariant'' then Inl (EGCFError ''not an invariant'')
     else bindR (py_items (field inv ''evidence_ids'')) (\<lambda>old.
     if list_ex unhashable old then Inl (TypeError ''unhashable type'')
     else bindR (register H c1 ''egcf_object_registered'' (replaced
         [(''status'', JStr (if success then ''VALIDATED'' else ''CONFLICTED'')), (''evidence_ids'', JList (py_unique (old @ map JStr evidence_ids))),
          (''created_at'', JStr (cl_now c1)), (''supersedes'', JStr invariant_id)] inv) s) (\<lambda>(s1, new_id).
       bindR (supersede H c2 invariant_id new_id ''invariant validation result'' ''deterministic validator'' s1) (\<lambda>(s2, _). Inr (s2, new_id)))))"

definition invariant_conflict :: "egcf_record \<Rightarrow> egcf_record \<Rightarrow> bool res" where
  "invariant_conflict l r =
     bindR (if field l ''name'' \<noteq> field r ''name'' then Inr False
            else bindR (text_of (field l ''statement'')) (\<lambda>a. bindR (text_of (field r ''statement'')) (\<lambda>b.
              Inr (normalize_statement a \<noteq> normalize_statement b)))) (\<lambda>renamed.
     bindR (scope_overlap (field l ''scope'') (field r ''scope'')) (\<lambda>overlap.
     if \<not> overlap then Inr False
     else if renamed then Inr True
     else bindR (text_of (field l ''statement'')) (\<lambda>a. bindR (text_of (field r ''statement'')) (\<lambda>b. Inr (opposites a b)))))"

definition invariant_conflicts :: "digest \<Rightarrow> egcf_store \<Rightarrow> json list res" where
  "invariant_conflicts H s =
     bindR (invariant_records H True s) (\<lambda>rs. bindR (filterR (\<lambda>(l, r). invariant_conflict l r) (index_pairs rs))
       (mapR (conflict_entry H ''active invariant statements conflict in overlapping scope'')))"

definition supersede_invariant ::
  "digest \<Rightarrow> call \<Rightarrow> call \<Rightarrow> string \<Rightarrow> egcf_record \<Rightarrow> string \<Rightarrow> string \<Rightarrow> egcf_store \<Rightarrow> (egcf_store \<times> string) res" where
  "supersede_invariant H c1 c2 old_id new_record reason authority s =
     (if authority = [] then Inl (EGCFError ''invariant supersedence requires authority'')
      else bindR (register H c1 ''egcf_object_registered'' (replaced [(''supersedes'', JStr old_id)] new_record) s) (\<lambda>(s1, new_id).
        bindR (supersede H c2 old_id new_id reason authority s1) (\<lambda>(s2, _). Inr (s2, new_id))))"

section \<open>What strict compilation refuses\<close>

definition compiler_invariant_conflict :: "egcf_record \<Rightarrow> egcf_record \<Rightarrow> bool res" where
  "compiler_invariant_conflict l r = bindR (same_text ''name'' l r) (\<lambda>same.
     if \<not> same then Inr False
     else bindR (text_of (field l ''statement'')) (\<lambda>a. bindR (text_of (field r ''statement'')) (\<lambda>b.
       if strip a = strip b then Inr False else scope_intersects (field l ''scope'') (field r ''scope''))))"

definition compiler_decision_conflict :: "egcf_record \<Rightarrow> egcf_record \<Rightarrow> bool res" where
  "compiler_decision_conflict l r = bindR (same_text ''question'' l r) (\<lambda>same.
     if \<not> same then Inr False
     else bindR (same_text ''choice'' l r) (\<lambda>agree.
       if agree then Inr False else scope_intersects (field l ''scope'') (field r ''scope'')))"

definition conflict_text :: "digest \<Rightarrow> string \<Rightarrow> egcf_record \<times> egcf_record \<Rightarrow> string res" where
  "conflict_text H label lr = bindR (object_id H (fst lr)) (\<lambda>i. bindR (object_id H (snd lr)) (\<lambda>j. Inr (label @ '': '' @ i @ '' vs '' @ j)))"

definition registered_or_validated :: "json \<Rightarrow> bool res" where
  "registered_or_validated v =
     (if unhashable v then Inl (TypeError ''unhashable type'') else Inr (v \<in> {JStr ''REGISTERED'', JStr ''VALIDATED''}))"

definition governance_conflicts :: "digest \<Rightarrow> egcf_store \<Rightarrow> string list res" where
  "governance_conflicts H s =
     bindR (governed_records H ''invariant'' registered_or_validated s) (\<lambda>invariants.
     bindR (filterR (\<lambda>(l, r). compiler_invariant_conflict l r) (index_pairs invariants)) (\<lambda>ips.
     bindR (mapR (conflict_text H ''active invariant conflict'') ips) (\<lambda>first.
     bindR (governed_records H ''decision'' (is_status ''ACTIVE'') s) (\<lambda>decisions.
     bindR (filterR (\<lambda>(l, r). compiler_decision_conflict l r) (index_pairs decisions)) (\<lambda>dps.
     bindR (mapR (conflict_text H ''active decision conflict'') dps) (\<lambda>second. Inr (first @ second)))))))"

section \<open>Supersedence is for good\<close>

lemma superseded_pairs:
  assumes "store_ok H s"
  shows "(\<exists>k \<in> set (pj_supersedence (es_projection s)). fst (fst k) = v) \<longleftrightarrow>
    (\<exists>e \<in> envelopes (es_files s). is_supersedence e \<and> fst (pair_of e) = v)"
proof -
  have "fst ` set (pj_supersedence (es_projection s)) = pair_of ` {e \<in> envelopes (es_files s). is_supersedence e}"
    using assms by (simp add: store_ok_def projects_def)
  then have "v \<in> fst ` fst ` set (pj_supersedence (es_projection s)) \<longleftrightarrow> v \<in> fst ` pair_of ` {e \<in> envelopes (es_files s). is_supersedence e}"
    by (simp only:)
  then show ?thesis by (simp only: image_image image_iff Bex_def mem_Collect_eq conj_assoc eq_commute [of v])
qed

lemma active_iff:
  "oid \<in> set (active_ids s t) \<longleftrightarrow> (\<exists>row. (oid, row) \<in> set (pj_objects (es_projection s)) \<and> or_type row = t) \<and>
     \<not> (\<exists>k \<in> set (pj_supersedence (es_projection s)). fst (fst k) = JStr oid)"
  by (force simp: active_ids_def Let_def)

lemma pair_superseded:
  assumes "fst ` set X = insert (a, b) Y"
  shows "\<exists>k \<in> set X. fst (fst k) = a"
proof -
  have "(a, b) \<in> fst ` set X" unfolding assms by (rule insertI1)
  then obtain k where "(a, b) = fst k" "k \<in> set X" by (rule imageE)
  then have "fst (fst k) = a" "k \<in> set X" by (simp_all only: fst_conv flip: \<open>(a, b) = fst k\<close>)
  then show ?thesis by (rule bexI)
qed

lemma superseded_kept:
  assumes "store_ok H s" and "store_ok H s2" and "keeps_files s s2"
    and "\<exists>k \<in> set (pj_supersedence (es_projection s)). fst (fst k) = JStr oid"
  shows "oid \<notin> set (active_ids s2 t)"
proof -
  have "envelopes (es_files s) \<subseteq> envelopes (es_files s2)" using assms(3) by (auto simp: envelopes_def keeps_files_def)
  moreover have "\<exists>e \<in> envelopes (es_files s). is_supersedence e \<and> fst (pair_of e) = JStr oid"
    using superseded_pairs [OF assms(1)] assms(4) by blast
  ultimately have "\<exists>k \<in> set (pj_supersedence (es_projection s2)). fst (fst k) = JStr oid"
    using superseded_pairs [OF assms(2)] by blast
  then show ?thesis unfolding active_iff by blast
qed

section \<open>The two notions of conflict\<close>

definition shares_scope :: "egcf_record \<Rightarrow> egcf_record \<Rightarrow> bool" where
  "shares_scope l r = (scope_intersects (field l ''scope'') (field r ''scope'') = Inr True)"

lemma compiler_conflict_iff:
  "compiler_decision_conflict l r = Inr True \<longleftrightarrow> decision_conflict l r = Inr True \<and> shares_scope l r"
  by (auto simp: compiler_decision_conflict_def decision_conflict_def shares_scope_def scope_overlap_def scope_intersects_def bindR_Inr split: if_splits)

lemma filterR_filter: "filterR f xs = Inr ys \<Longrightarrow> ys = filter (\<lambda>x. f x = Inr True) xs"
  by (induction xs arbitrary: ys) (auto simp: bindR_Inr split: if_splits)

section \<open>Properties\<close>

text \<open>C38. What is superseded stays superseded, and stays readable: from the moment \<open>supersede\<close> returns, in every
  later state of the store the old object is inactive whatever its type, and reading it gives the same
  record as before.\<close>

theorem superseded_never_returns:
  assumes "sha_like H" and "(egcf_step H B)\<^sup>*\<^sup>* empty_egcf s" and "fresh_call c s"
    and "supersede H c old_id new_id reason authority s = Inr (s1, rid)" and "(egcf_step H B)\<^sup>*\<^sup>* s1 s2"
  shows "old_id \<notin> set (active_ids s2 t) \<and> (\<exists>r. store_get H s old_id = Inr r \<and> store_get H s2 old_id = Inr r)"
proof -
  have ok: "store_ok H s" using run_ok_store [OF assms(1,2) empty_egcf_ok] by blast
  note sup = supersede_ok [OF assms(1) ok assms(3,4)]
  have run: "store_ok H s2" "keeps_files s1 s2" using run_ok_store [OF assms(1,5) sup(1)] by blast+
  have "\<exists>k \<in> set (pj_supersedence (es_projection s1)). fst (fst k) = JStr old_id"
    by (rule pair_superseded [OF sup(3)])
  then have inactive: "old_id \<notin> set (active_ids s2 t)" by (rule superseded_kept [OF sup(1) run])
  obtain s' where "\<exists>r. store_get H s old_id = Inr r" by (rule supersede_parts [OF assms(4)])
  moreover have "keeps_files s s2" using sup(2) run(2) by (simp add: keeps_files_def)
  ultimately show ?thesis using inactive store_get_kept by blast
qed

text \<open>C39. What strict compilation refuses against what \<open>decision.conflicts\<close> reports: of the same decisions, the
  compiler's conflicts are those of the decision manager whose scopes share an element. A conflict whose
  scopes only meet through the wildcard "**" is reported, and compiled all the same.\<close>

theorem strict_conflicts_are_shared:
  assumes "filterR (\<lambda>(l, r). compiler_decision_conflict l r) (index_pairs rs) = Inr refused"
    and "filterR (\<lambda>(l, r). decision_conflict l r) (index_pairs rs) = Inr reported"
  shows "refused = filter (\<lambda>(l, r). shares_scope l r) reported \<and>
    (\<forall>(l, r) \<in> set reported - set refused. \<exists>scope. JStr ''**'' \<in> set scope \<and>
       (py_elements (field l ''scope'') = Inr scope \<or> py_elements (field r ''scope'') = Inr scope))"
proof -
  have eq: "refused = filter (\<lambda>(l, r). shares_scope l r) reported"
    using filterR_filter [OF assms(1)] filterR_filter [OF assms(2)]
    by (auto simp: compiler_conflict_iff case_prod_unfold intro: filter_cong)
  have "\<exists>scope. JStr ''**'' \<in> set scope \<and> (py_elements (field l ''scope'') = Inr scope \<or> py_elements (field r ''scope'') = Inr scope)"
    if "decision_conflict l r = Inr True" "\<not> shares_scope l r" for l r
    using that by (auto simp: decision_conflict_def shares_scope_def scope_overlap_def scope_intersects_def bindR_Inr split: if_splits)
  moreover have "decision_conflict l r = Inr True" if "(l, r) \<in> set reported" for l r
    using that filterR_filter [OF assms(2)] by auto
  ultimately show ?thesis using eq by auto
qed

definition sample_decision :: "string \<Rightarrow> string \<Rightarrow> egcf_record" where
  "sample_decision choice scope = make_record ''decision''
     [(''question'', JStr ''Which store?''), (''choice'', JStr choice), (''scope'', jstrs [scope]), (''status'', JStr ''ACTIVE'')]"

theorem strict_conflicts_are_shared_witness:
  "\<exists>refused reported. filterR (\<lambda>(l, r). decision_conflict l r) (index_pairs [sample_decision ''sql'' ''**'', sample_decision ''files'' ''src'']) = Inr reported \<and>
     refused = filter (\<lambda>(l, r). shares_scope l r) reported \<and> refused = [] \<and> length reported = 1"
proof -
  let ?rs = "[sample_decision ''sql'' ''**'', sample_decision ''files'' ''src'']"
  have r: "filterR (\<lambda>(l, r). compiler_decision_conflict l r) (index_pairs ?rs) = Inr []"
    "filterR (\<lambda>(l, r). decision_conflict l r) (index_pairs ?rs) = Inr [(sample_decision ''sql'' ''**'', sample_decision ''files'' ''src'')]"
    by code_simp+
  from strict_conflicts_are_shared [OF r] r(2) show ?thesis by (intro exI conjI) (assumption | simp)+
qed

theorem superseded_never_returns_witness:
  "\<exists>s s1 rid. supersede plan_digest last_call plan_id_text (oid_of plan_digest ''execution'' (to_payload sample_execution)) ''r'' ''a'' s = Inr (s1, rid) \<and>
     store_get plan_digest s plan_id_text = Inr sample_plan \<and> plan_id_text \<notin> set (active_ids s1 ''execution-plan'')"
proof -
  let ?H = plan_digest and ?oid = "oid_of plan_digest ''execution'' (to_payload sample_execution)"
  obtain s1 where s1: "egcf_step ?H (\<lambda>t. t) empty_egcf s1" "store_ok ?H s1" "map fst (es_files s1) = [replicate 64 CHR ''a'']"
    "map (\<lambda>e. jget e ''event_id'') (ss_events (es_log s1)) = [JStr ''e1'']"
    "pj_objects (es_projection s1) = [(plan_id_text, object_row_of ''execution-plan'' (replicate 64 CHR ''a'') (to_payload sample_plan))]"
    "store_get ?H s1 plan_id_text = Inr sample_plan"
    by (rule sample_plan_stored)
  have f: "fresh_call later_call s1" by (simp add: fresh_call_def s1(4) approved_valid(13))
  have "address ?H ''execution'' (to_payload sample_execution) \<notin> set (map fst (es_files s1))" by (simp add: s1(3) sample_addresses(2))
  with registered_new [where t = "''egcf_execution''" and B = "\<lambda>t. t", OF plan_digest_sha s1(2) approved_valid(9) f]
  obtain s2 where s2: "egcf_step ?H (\<lambda>t. t) s1 s2" "store_ok ?H s2" "keeps_files s1 s2" "map fst (es_files s2) = [replicate 64 CHR ''a'', replicate 64 CHR ''b'']"
    "map (\<lambda>e. jget e ''event_id'') (ss_events (es_log s2)) = [JStr ''e1'', JStr ''e2'']"
    "store_get ?H s2 ?oid = Inr sample_execution"
    unfolding approved_valid(8) approved_valid(10) sample_addresses(2) approved_valid(13) s1(3) s1(4) using approved_valid(7) by auto
  let ?r = "supersedence_record last_call plan_id_text ?oid ''r'' ''a''"
  have v: "validate_record_payload (er_type ?r) (to_payload ?r) = Inr ()" "er_type ?r = ''supersedence''"
    unfolding supersedence_record_def make_record_type by (rule make_record_valid, code_simp+)
  have "address ?H (er_type ?r) (to_payload ?r) = replicate 64 CHR ''c''"
    unfolding v(2) by (auto simp: address_def stable_hash_def plan_digest_def dest: material_types)
  moreover have "replicate 64 CHR ''c'' \<notin> set (map fst (es_files s2))" unfolding s2(4) by simp
  ultimately have "dict_get (es_files s2) (address ?H (er_type ?r) (to_payload ?r)) = None"
    by (simp only: map_of_eq_None_iff list.set_map not_False_eq_True)
  then obtain s3 rid where "register ?H last_call ''egcf_object_superseded'' ?r s2 = Inr (s3, rid)"
    using register_total [OF plan_digest_sha v(1)] by blast
  then obtain s' where s': "supersede ?H last_call plan_id_text ?oid ''r'' ''a'' s2 = Inr (s', rid)"
    using s2(6) store_get_kept [OF s2(3) s1(6)] by (simp add: supersede_def supersedence_record_def [symmetric] Let_def)
  have f3: "fresh_call last_call s2" by (simp add: fresh_call_def s2(5) approved_valid(14))
  have run: "(egcf_step ?H (\<lambda>t. t))\<^sup>*\<^sup>* empty_egcf s2" using s1(1) s2(1) by auto
  from superseded_never_returns [OF plan_digest_sha run f3 s' rtranclp.rtrancl_refl]
  have "plan_id_text \<notin> set (active_ids s' ''execution-plan'')" by blast
  with s' store_get_kept [OF s2(3) s1(6)] show ?thesis by blast
qed

end
