(* ===== verification/EgcfCapabilities.thy ===== *)
theory EgcfCapabilities
  imports EgcfGovernance Models
begin

text \<open>
  Capabilities of the workflow engine (\<open>ourd/egcf/capabilities.py\<close>): the levels, the core table, what a task's
  authority manifest grants, and the check of a requirement against a grant. The lists of a grant hold
  strings, as its class declares. The lemmas bound what a check admits by the manifest the grant comes from.
\<close>

section \<open>Levels\<close>

definition CAPABILITY_ORDER :: "(string, int) dict" where
  "CAPABILITY_ORDER = [(''C0'', 0), (''C1'', 1), (''C2'', 2), (''C3'', 3), (''C4'', 4), (''C5'', 5)]"

definition CORE_CAPABILITIES :: "(string, string) dict" where
  "CORE_CAPABILITIES = [
     (''registry.read'', ''C0''), (''filesystem.read'', ''C0''), (''analysis.reason'', ''C1''), (''analysis.model'', ''C1''),
     (''analysis.experiment'', ''C1''), (''analysis.debug'', ''C1''), (''analysis.performance'', ''C1''), (''analysis.security'', ''C1''),
     (''analysis.geometry'', ''C1''), (''analysis.grammar'', ''C1''), (''analysis.vision'', ''C1''), (''analysis.cad'', ''C1''),
     (''evidence.analyse'', ''C1''), (''governance.read'', ''C1''), (''governance.propose'', ''C1''), (''registry.propose'', ''C1''),
     (''registry.qualify'', ''C1''), (''workflow.plan'', ''C1''), (''eon.plan'', ''C1''), (''verification.run'', ''C1''),
     (''simulation.run'', ''C2''), (''simulation.robotics'', ''C2''), (''agent.local'', ''C2''), (''filesystem.write'', ''C3''),
     (''process.execute'', ''C3''), (''workflow.execute'', ''C3''), (''registry.admin'', ''C3''), (''governance.write'', ''C3''),
     (''network.write'', ''C4''), (''git.remote.write'', ''C4''), (''database.write'', ''C4''), (''deployment.write'', ''C4''),
     (''human.contact'', ''C4''), (''governance.admin'', ''C5''), (''secret.rotate'', ''C5''), (''hardware.control'', ''C5'')]"

text \<open>\<open>CAPABILITY_ORDER[v]\<close> and \<open>v in CAPABILITY_ORDER\<close>.\<close>

definition order_of :: "json \<Rightarrow> int res" where
  "order_of v = (if unhashable v then Inl (TypeError ''unhashable type'')
     else case v of
       JStr l \<Rightarrow> (case dict_get CAPABILITY_ORDER l of None \<Rightarrow> Inl (KeyError ''capability level'') | Some i \<Rightarrow> Inr i)
     | _ \<Rightarrow> Inl (KeyError ''capability level''))"

definition known_level :: "json \<Rightarrow> bool res" where
  "known_level v = (if unhashable v then Inl (TypeError ''unhashable type'')
     else Inr (case v of JStr l \<Rightarrow> dict_get CAPABILITY_ORDER l \<noteq> None | _ \<Rightarrow> False))"

section \<open>The resolver\<close>

definition core_spec :: "string \<times> string \<Rightarrow> egcf_record" where
  "core_spec c = make_record ''capability-spec''
     [(''name'', JStr (fst c)), (''level'', JStr (snd c)), (''facet'', JStr (hd (split_on (CHR ''.'') (fst c)))),
      (''description'', JStr (''EGCF capability '' @ fst c))]"

definition bootstrap_capabilities :: "digest \<Rightarrow> (nat \<Rightarrow> call) \<Rightarrow> egcf_store \<Rightarrow> egcf_store res" where
  "bootstrap_capabilities H calls s =
     foldR (\<lambda>(i, c) st. bindR (register H (calls i) ''egcf_object_registered'' (core_spec c) st) (\<lambda>(st1, _). Inr st1))
       (enumerate 0 CORE_CAPABILITIES) s"

definition capability_specs :: "digest \<Rightarrow> egcf_store \<Rightarrow> egcf_record list res" where
  "capability_specs H s = bindR (find_records H s ''capability-spec'') (\<lambda>rs. Inr (filter (\<lambda>r. er_type r = ''capability-spec'') rs))"

definition describe_capability :: "digest \<Rightarrow> egcf_store \<Rightarrow> string \<Rightarrow> egcf_record res" where
  "describe_capability H s name = bindR (capability_specs H s) (\<lambda>specs.
     let matches = filter (\<lambda>r. field r ''name'' = JStr name) specs in
     if matches = [] then Inl (CapabilityError ''unknown capability'') else Inr (last matches))"

definition raise_level :: "digest \<Rightarrow> egcf_store \<Rightarrow> string \<Rightarrow> json \<Rightarrow> json res" where
  "raise_level H s capability level =
     bindR (describe_capability H s capability) (\<lambda>spec.
     bindR (order_of (field spec ''level'')) (\<lambda>i. bindR (order_of level) (\<lambda>j.
       Inr (if i > j then field spec ''level'' else level))))"

definition requirement_level :: "digest \<Rightarrow> egcf_store \<Rightarrow> string list \<Rightarrow> string \<Rightarrow> json res" where
  "requirement_level H s capabilities declared =
     (if dict_get CAPABILITY_ORDER declared = None then Inl (CapabilityError ''invalid capability level'')
      else foldR (raise_level H s) capabilities (JStr declared))"

definition MAPPED_CAPABILITIES :: "(string, string) dict" where
  "MAPPED_CAPABILITIES = [
     (''workspace.list'', ''filesystem.read''), (''workspace.read'', ''filesystem.read''), (''workspace.search'', ''filesystem.read''),
     (''git.status'', ''filesystem.read''), (''git.diff'', ''filesystem.read''), (''python.unittest'', ''verification.run''),
     (''python.py_compile'', ''verification.run''), (''ctest.run'', ''verification.run''), (''cmake.build'', ''process.execute''),
     (''package.install'', ''process.execute'')]"

definition level_rank :: "string \<Rightarrow> int" where
  "level_rank l = dict_getd CAPABILITY_ORDER l 0"

definition granted_names :: "authority_manifest \<Rightarrow> string list" where
  "granted_names m =
     map fst (filter (\<lambda>c. level_rank (snd c) \<le> level_rank ''C1'') CORE_CAPABILITIES) @
     List.map_filter (dict_get MAPPED_CAPABILITIES) (am_read_capabilities m @ am_command_capabilities m) @
     filter (\<lambda>c. c \<in> set (map fst CORE_CAPABILITIES)) (am_semantic_capabilities m) @
     (if am_read_only m then [] else [''filesystem.write'', ''process.execute'', ''workflow.execute''])"

definition grant_from_authority :: "authority_manifest \<Rightarrow> egcf_record res" where
  "grant_from_authority m =
     (if list_ex (\<lambda>c. c \<notin> set (map fst CORE_CAPABILITIES)) (am_semantic_capabilities m)
      then Inl (CapabilityError ''authority contains unknown semantic capabilities'')
      else Inr (make_record ''capability-grant''
        [(''subject'', JStr (am_task_id m)), (''capability_ceiling'', JStr (am_semantic_capability_ceiling m)),
         (''capabilities'', jstrs (sorted_set (filter (\<lambda>c. c \<in> set (map fst CORE_CAPABILITIES)) (granted_names m)))),
         (''scope'', jstrs (am_allowed_paths m)), (''resources'', JObj [(''forbidden_paths'', jstrs (am_forbidden_paths m))]),
         (''expires_at'', JStr (am_expires_at m)), (''budget'', JObj [(''retries'', JInt (am_max_retries_per_action m))]),
         (''approval_modes'', jstrs (''automatic'' # (if am_allow_interactive_l2 m then [''human''] else []))),
         (''issuer'', JStr (am_operator m)), (''authority_hash'', JStr (am_authority_hash m)), (''use_limit'', JInt 20)]))"

definition text_list :: "json \<Rightarrow> string list res" where
  "text_list v = bindR (py_elements v) (mapR (\<lambda>x. case x of JStr t \<Rightarrow> Inr t | _ \<Rightarrow> Inl (TypeError ''not supported between instances'')))"

definition check_grant ::
  "(string \<Rightarrow> int option) \<Rightarrow> int \<Rightarrow> egcf_record \<Rightarrow> string \<Rightarrow> string list \<Rightarrow> json res" where
  "check_grant read_time now grant required_level required_capabilities =
     bindR (expired read_time now (field grant ''expires_at'')) (\<lambda>late.
     if late then Inl (CapabilityError ''capability grant has expired'')
     else if dict_get CAPABILITY_ORDER required_level = None then Inl (CapabilityError ''invalid capability level in requirement or grant'')
     else bindR (known_level (field grant ''capability_ceiling'')) (\<lambda>known.
     if \<not> known then Inl (CapabilityError ''invalid capability level in requirement or grant'')
     else bindR (text_list (field grant ''capabilities'')) (\<lambda>granted.
     let missing = sorted_set (filter (\<lambda>c. c \<notin> set granted) required_capabilities) in
     bindR (order_of (field grant ''capability_ceiling'')) (\<lambda>ceiling.
     bindR (if \<not> (level_rank required_level \<le> ceiling \<and> missing = []) then Inr False
            else bindR (number_of (field grant ''use_count'')) (\<lambda>i. bindR (number_of (field grant ''use_limit'')) (\<lambda>j. Inr (i < j))))
       (\<lambda>allowed.
     if \<not> allowed then Inl (CapabilityError ''capability requirement exceeds grant'')
     else Inr (JObj [(''allowed'', JBool True), (''required_level'', JStr required_level),
       (''capability_ceiling'', field grant ''capability_ceiling''), (''required_capabilities'', jstrs (sorted_set required_capabilities)),
       (''granted_capabilities'', jstrs (sorted_set granted)), (''missing_capabilities'', jstrs missing),
       (''use_count'', field grant ''use_count''), (''use_limit'', field grant ''use_limit''), (''reason'', JStr ''authorized'')]))))))"

definition request_capabilities ::
  "digest \<Rightarrow> call \<Rightarrow> egcf_store \<Rightarrow> string \<Rightarrow> string list \<Rightarrow> string list \<Rightarrow> string \<Rightarrow> json res" where
  "request_capabilities H c s subject capabilities scope justification =
     (let requested = sorted_set capabilities in
      bindR (requirement_level H s requested ''C0'') (\<lambda>level.
        Inr (JObj [(''status'', JStr ''PROPOSED''), (''subject'', JStr subject), (''capabilities'', jstrs requested),
          (''capability_level'', level), (''scope'', jstrs scope), (''justification'', JStr justification),
          (''created_at'', JStr (cl_now c)), (''approval_required'', JBool True)])))"

definition store_grant :: "digest \<Rightarrow> call \<Rightarrow> egcf_record \<Rightarrow> bool \<Rightarrow> egcf_store \<Rightarrow> (egcf_store \<times> string) res" where
  "store_grant H c r administrative s =
     (if \<not> administrative then Inl (CapabilityError ''capability grant requires external administrative authority'')
      else register H c ''egcf_object_registered'' r s)"

definition revoke_grant :: "digest \<Rightarrow> call \<Rightarrow> string \<Rightarrow> bool \<Rightarrow> string \<Rightarrow> egcf_store \<Rightarrow> json res" where
  "revoke_grant H c grant_id administrative reason s =
     (if \<not> administrative then Inl (CapabilityError ''capability revoke requires external administrative authority'')
      else bindR (store_get H s grant_id) (\<lambda>r.
        if er_type r \<noteq> ''capability-grant'' then Inl (CapabilityError ''not a capability grant'')
        else Inr (JObj [(''grant_id'', JStr grant_id), (''status'', JStr ''REVOKED''), (''reason'', JStr reason), (''revoked_at'', JStr (cl_now c))])))"

section \<open>What a grant covers\<close>

text \<open>The specification: which core capabilities an authority manifest stands for.\<close>

definition authority_covers :: "authority_manifest \<Rightarrow> string \<Rightarrow> bool" where
  "authority_covers m c = (case dict_get CORE_CAPABILITIES c of None \<Rightarrow> False
     | Some l \<Rightarrow> l \<in> {''C0'', ''C1''} \<or> c \<in> set (am_semantic_capabilities m) \<or>
         (\<not> am_read_only m \<and> c \<in> {''filesystem.write'', ''process.execute'', ''workflow.execute''}) \<or>
         (c = ''process.execute'' \<and> (\<exists>x \<in> set (am_read_capabilities m @ am_command_capabilities m). x \<in> {''cmake.build'', ''package.install''})))"

lemma text_list_strings [simp]: "text_list (jstrs xs) = Inr xs"
proof -
  have "list_ex unhashable (map JStr xs) = False" by (induction xs) (simp_all add: unhashable_def)
  moreover have "mapR (\<lambda>x. case x of JStr t \<Rightarrow> Inr t | _ \<Rightarrow> Inl (TypeError ''not supported between instances'')) (map JStr xs) = Inr xs"
    by (induction xs) simp_all
  ultimately show ?thesis by (simp add: text_list_def py_elements_def py_items_def)
qed

lemma in_map_filter: "y \<in> set (List.map_filter f xs) \<longleftrightarrow> (\<exists>x \<in> set xs. f x = Some y)"
  by (induction xs) (auto simp: List.map_filter_simps split: option.splits)

lemma keys_filter: "c \<in> set (map fst (filter P d)) \<longleftrightarrow> (\<exists>l. (c, l) \<in> set d \<and> P (c, l))"
  by force

lemma core_low:
  assumes "dict_get CORE_CAPABILITIES c = Some l"
  shows "c \<in> set (map fst (filter (\<lambda>c. level_rank (snd c) \<le> level_rank ''C1'') CORE_CAPABILITIES)) \<longleftrightarrow> l \<in> {''C0'', ''C1''}"
proof -
  have d: "distinct (map fst CORE_CAPABILITIES)" by code_simp
  have "list_all (\<lambda>x. (level_rank (snd x) \<le> level_rank ''C1'') = (snd x \<in> {''C0'', ''C1''})) CORE_CAPABILITIES" by code_simp
  then have "\<forall>x \<in> set CORE_CAPABILITIES. (level_rank (snd x) \<le> level_rank ''C1'') = (snd x \<in> {''C0'', ''C1''})" by (simp only: list_all_iff)
  moreover have "(c, l') \<in> set CORE_CAPABILITIES \<longleftrightarrow> l' = l" for l'
    unfolding map_of_eq_Some_iff [OF d, symmetric] assms by (simp only: option.inject eq_commute)
  ultimately show ?thesis unfolding keys_filter by (metis snd_conv)
qed

lemma mapped_values:
  assumes "dict_get MAPPED_CAPABILITIES x = Some c"
  shows "dict_get CORE_CAPABILITIES c \<in> {Some ''C0'', Some ''C1''} \<or> (c = ''process.execute'' \<and> x \<in> {''cmake.build'', ''package.install''})"
proof -
  have "list_all (\<lambda>(x, c). dict_get CORE_CAPABILITIES c \<in> {Some ''C0'', Some ''C1''} \<or> (c = ''process.execute'' \<and> x \<in> {''cmake.build'', ''package.install''}))
      MAPPED_CAPABILITIES" by code_simp
  with map_of_SomeD [OF assms] show ?thesis by (auto simp only: list_all_iff)
qed

lemma mapped_execute: "dict_get MAPPED_CAPABILITIES ''cmake.build'' = Some ''process.execute''"
  "dict_get MAPPED_CAPABILITIES ''package.install'' = Some ''process.execute''"
  by code_simp+

lemma covered_iff: "c \<in> set (map fst CORE_CAPABILITIES) \<and> c \<in> set (granted_names m) \<longleftrightarrow> authority_covers m c"
proof (cases "dict_get CORE_CAPABILITIES c")
  case None
  then have "c \<notin> set (map fst CORE_CAPABILITIES)" by (simp add: map_of_eq_None_iff)
  with None show ?thesis by (simp add: authority_covers_def)
next
  case (Some l)
  then have core: "c \<in> set (map fst CORE_CAPABILITIES)" by (metis map_of_eq_None_iff list.set_map option.distinct(1))
  let ?caps = "am_read_capabilities m @ am_command_capabilities m"
  let ?run = "c = ''process.execute'' \<and> (\<exists>x \<in> set ?caps. x \<in> {''cmake.build'', ''package.install''})"
  let ?mapped = "\<exists>x \<in> set ?caps. dict_get MAPPED_CAPABILITIES x = Some c"
  have m: "?mapped \<longrightarrow> l \<in> {''C0'', ''C1''} \<or> ?run"
  proof
    assume ?mapped
    then obtain x where x: "x \<in> set ?caps" "dict_get MAPPED_CAPABILITIES x = Some c" by blast
    from mapped_values [OF x(2)] x(1) show "l \<in> {''C0'', ''C1''} \<or> ?run" unfolding Some by blast
  qed
  have r: "?run \<longrightarrow> ?mapped" using mapped_execute by blast
  have "c \<in> set (List.map_filter (dict_get MAPPED_CAPABILITIES) ?caps) \<longleftrightarrow> ?mapped"
    by (simp only: in_map_filter)
  then have g: "c \<in> set (granted_names m) \<longleftrightarrow> l \<in> {''C0'', ''C1''} \<or> ?mapped \<or> c \<in> set (am_semantic_capabilities m) \<or>
      (\<not> am_read_only m \<and> c \<in> {''filesystem.write'', ''process.execute'', ''workflow.execute''})"
    using core core_low [OF Some] unfolding granted_names_def set_append Un_iff set_filter mem_Collect_eq
    by (cases "am_read_only m") (simp only: if_True if_False list.set empty_iff simp_thms)+
  show ?thesis unfolding authority_covers_def Some option.case g using core m r by argo
qed

lemma grant_fields:
  assumes "grant_from_authority m = Inr g"
  shows "field g ''capability_ceiling'' = JStr (am_semantic_capability_ceiling m)" "field g ''expires_at'' = JStr (am_expires_at m)"
    "field g ''capabilities'' = jstrs (sorted_set (filter (\<lambda>c. c \<in> set (map fst CORE_CAPABILITIES)) (granted_names m)))"
    "field g ''use_count'' = JInt 0" "field g ''use_limit'' = JInt 20"
  using assms by (auto simp: grant_from_authority_def make_record_def field_def dict_getd_def RECORD_TYPES_def CapabilityGrant_fields_def
      field_names_def split: if_splits)

lemma order_level: "dict_get CAPABILITY_ORDER l = Some i \<Longrightarrow> level_rank l = i \<and> order_of (JStr l) = Inr i"
  by (simp add: level_rank_def dict_getd_def order_of_def unhashable_def)

lemma not_expired:
  "expired read_time now (JStr e) = Inr False \<longleftrightarrow> e = [] \<or> (\<exists>t. read_time e = Some t \<and> now < t)"
  by (auto simp: expired_def text_of_def py_truthy_def not_le split: option.splits)

lemma missing_empty: "sorted_set (filter (\<lambda>c. c \<notin> set granted) cs) = [] \<longleftrightarrow> set cs \<subseteq> set granted"
  unfolding sorted_set_def set_empty [symmetric] by auto

text \<open>The check of any grant, in terms of its fields.\<close>

lemma check_passes:
  assumes "text_list (field g ''capabilities'') = Inr granted" and "number_of (field g ''use_count'') = Inr i" and "number_of (field g ''use_limit'') = Inr j"
    and "field g ''capability_ceiling'' = JStr ceiling"
  shows "(\<exists>result. check_grant read_time now g level cs = Inr result) \<longleftrightarrow> expired read_time now (field g ''expires_at'') = Inr False \<and>
    dict_get CAPABILITY_ORDER level \<noteq> None \<and> dict_get CAPABILITY_ORDER ceiling \<noteq> None \<and> level_rank level \<le> level_rank ceiling \<and>
    set cs \<subseteq> set granted \<and> i < j"
proof (cases "expired read_time now (field g ''expires_at'') = Inr False \<and> dict_get CAPABILITY_ORDER level \<noteq> None \<and> dict_get CAPABILITY_ORDER ceiling \<noteq> None")
  case True
  then obtain n where n: "dict_get CAPABILITY_ORDER ceiling = Some n" by blast
  have k: "known_level (JStr ceiling) = Inr True" by (simp add: known_level_def unhashable_def n)
  show ?thesis using True order_level [OF n]
    by (auto simp: check_grant_def assms k n missing_empty Let_def)
next
  case False
  then show ?thesis
    by (auto simp: check_grant_def assms bindR_Inr known_level_def unhashable_def split: if_splits)
qed

section \<open>Properties\<close>



text \<open>The level of a requirement is the highest of the declared one and those of its capabilities.\<close>

lemma requirement_level_is_max:
  assumes "requirement_level H s capabilities declared = Inr l"
  shows "\<exists>i. order_of l = Inr i \<and> level_rank declared \<le> i \<and>
    (\<forall>c \<in> set capabilities. \<exists>spec j. describe_capability H s c = Inr spec \<and> order_of (field spec ''level'') = Inr j \<and> j \<le> i) \<and>
    (l = JStr declared \<or> (\<exists>c \<in> set capabilities. \<exists>spec. describe_capability H s c = Inr spec \<and> l = field spec ''level''))"
proof -
  from assms obtain d where d: "dict_get CAPABILITY_ORDER declared = Some d" and run: "foldR (raise_level H s) capabilities (JStr declared) = Inr l"
    by (auto simp: requirement_level_def split: if_splits)
  from order_level [OF d] have "order_of (JStr declared) = Inr (level_rank declared)" by simp
  with run show ?thesis
  proof (induction capabilities arbitrary: l rule: rev_induct)
    case Nil
    then show ?case by auto
  next
    case (snoc c cs)
    from snoc.prems(1) obtain k where k: "foldR (raise_level H s) cs (JStr declared) = Inr k" "raise_level H s c k = Inr l"
      by (auto simp: foldR_append bindR_Inr)
    from snoc.IH [OF k(1) snoc.prems(2)] obtain i where i: "order_of k = Inr i" "level_rank declared \<le> i"
      "\<forall>c \<in> set cs. \<exists>spec j. describe_capability H s c = Inr spec \<and> order_of (field spec ''level'') = Inr j \<and> j \<le> i"
      "k = JStr declared \<or> (\<exists>c \<in> set cs. \<exists>spec. describe_capability H s c = Inr spec \<and> k = field spec ''level'')" by blast
    from k(2) i(1) obtain spec j where j: "describe_capability H s c = Inr spec" "order_of (field spec ''level'') = Inr j"
      "l = (if j > i then field spec ''level'' else k)" by (auto simp: raise_level_def bindR_Inr)
    show ?case
    proof (cases "j > i")
      case True
      then have "\<forall>c \<in> set cs. \<exists>spec m. describe_capability H s c = Inr spec \<and> order_of (field spec ''level'') = Inr m \<and> m \<le> j"
        using i(3) by (meson less_imp_le order_trans)
      with True j i(2) show ?thesis by (intro exI [of _ j]) auto
    next
      case False
      with j i show ?thesis by (intro exI [of _ i]) auto
    qed
  qed
qed

end
