(* ===== verification/EgcfRegistry.thy ===== *)
theory EgcfRegistry
  imports EgcfCapabilities
begin

text \<open>
  The registries of commands and algorithms (\<open>ourd/egcf/registry.py\<close>) with their caches, the qualification of
  an algorithm by its tests, and the compensation of governance commands (\<open>handlers.py\<close>, \<open>compensate\<close>).
  Filling the registries from the catalogue and the package's own sources is left out. The lemmas show what a
  qualification rests on, and what looking up an unknown version and compensating a retirement really do.
\<close>

section \<open>Identifiers\<close>

text \<open>
  \<open>_version_key\<close>: the lines that split the version off stand, unreachable, at the end of the next function;
  an identifier with a separator gives \<open>None\<close>, which the caller cannot unpack.
\<close>

definition version_key :: "string \<Rightarrow> (string \<times> int) option" where
  "version_key identifier = (if CHR ''@'' \<notin> set identifier then Some (identifier, 0) else None)"

definition unpack_version :: "string \<Rightarrow> (string \<times> int) res" where
  "unpack_version identifier = (case version_key identifier of
     None \<Rightarrow> Inl (TypeError ''cannot unpack non-iterable NoneType object'') | Some p \<Rightarrow> Inr p)"

definition command_id_of :: "egcf_record \<Rightarrow> string" where
  "command_id_of r = py_str (field r ''namespace'') @ ''.'' @ py_str (field r ''name'') @ ''@'' @ py_str (field r ''version'')"

definition algorithm_id_of :: "egcf_record \<Rightarrow> string" where
  "algorithm_id_of r = py_str (field r ''name'') @ ''@'' @ py_str (field r ''version'')"

definition typed_records :: "digest \<Rightarrow> string \<Rightarrow> bool \<Rightarrow> egcf_store \<Rightarrow> egcf_record list res" where
  "typed_records H object_type active_only s =
     (let active = active_ids s object_type in
      bindR (find_records H s object_type) (filterR (\<lambda>r.
        if er_type r \<noteq> object_type then Inr False
        else if \<not> active_only then Inr True
        else bindR (object_id H r) (\<lambda>i. Inr (i \<in> set active)))))"

text \<open>\<open>max(matching, key=lambda item: item.version)\<close>: the first of the greatest.\<close>

definition newest :: "egcf_record \<Rightarrow> egcf_record list \<Rightarrow> egcf_record res" where
  "newest r rs = foldR (\<lambda>x best. bindR (number_of (field x ''version'')) (\<lambda>i. bindR (number_of (field best ''version'')) (\<lambda>j.
     Inr (if i > j then x else best)))) rs r"

section \<open>Commands\<close>

record command_registry =
  cr_aliases :: "(string, string) dict"
  cr_cache :: "(string, egcf_record) dict"

definition remember_command :: "string \<Rightarrow> egcf_record \<Rightarrow> command_registry \<Rightarrow> command_registry \<times> egcf_record" where
  "remember_command resolved r reg = (reg\<lparr>cr_cache := dict_set resolved r (cr_cache reg)\<rparr>, r)"

definition resolve_command :: "digest \<Rightarrow> egcf_store \<Rightarrow> string \<Rightarrow> command_registry \<Rightarrow> (command_registry \<times> egcf_record) res" where
  "resolve_command H s identifier reg =
     (let resolved = dict_getd (cr_aliases reg) identifier identifier in
      case dict_get (cr_cache reg) resolved of
        Some r \<Rightarrow> Inr (reg, r)
      | None \<Rightarrow>
          if CHR ''.'' \<notin> set resolved \<and> CHR ''@'' \<notin> set resolved then Inl (EGCFError ''unknown command or alias'')
          else bindR (typed_records H ''command-definition'' True s) (\<lambda>rs.
            let candidates = filter (\<lambda>r. command_id_of r = resolved) rs in
            if candidates \<noteq> [] then Inr (remember_command resolved (last candidates) reg)
            else bindR (unpack_version resolved) (\<lambda>(base, version).
              if version \<noteq> 0 then Inl (EGCFError ''unknown command version'')
              else case filter (\<lambda>r. starts_with (command_id_of r) (base @ ''@'')) rs of
                  [] \<Rightarrow> Inl (EGCFError ''unknown command'')
                | m # ms \<Rightarrow> bindR (newest m ms) (\<lambda>r. Inr (remember_command resolved r reg)))))"

definition register_command :: "digest \<Rightarrow> call \<Rightarrow> egcf_record \<Rightarrow> egcf_store \<Rightarrow> command_registry \<Rightarrow> (egcf_store \<times> command_registry \<times> string) res" where
  "register_command H c r s reg =
     bindR (register H c ''egcf_object_registered'' r s) (\<lambda>(s1, oid). Inr (s1, reg\<lparr>cr_cache := []\<rparr>, oid))"

definition describe_command :: "digest \<Rightarrow> egcf_store \<Rightarrow> string \<Rightarrow> command_registry \<Rightarrow> (command_registry \<times> json) res" where
  "describe_command H s identifier reg = bindR (resolve_command H s identifier reg) (\<lambda>(reg1, r).
     bindR (object_id H r) (\<lambda>i.
       Inr (reg1, JObj ((''object_id'', JStr i) # er_fields r @ [(''command_id'', JStr (command_id_of r))]))))"

section \<open>Algorithms\<close>

record algorithm_registry =
  ar_commands :: command_registry
  ar_search :: "(string, egcf_record list) dict"
  ar_qualified :: "(string \<times> json, egcf_record list) dict"

definition cleared :: "algorithm_registry \<Rightarrow> algorithm_registry" where
  "cleared reg = reg\<lparr>ar_search := [], ar_qualified := []\<rparr>"

definition FORBIDDEN_MARKERS :: "string list" where
  "FORBIDDEN_MARKERS = [''shell'', ''subprocess'', ''callback'', ''callable'', ''exec('', ''eval('']"

definition check_definition :: "egcf_record \<Rightarrow> unit res" where
  "check_definition d =
     (let kind = field d ''implementation_kind''; status = field d ''status'' in
      if unhashable kind then Inl (TypeError ''unhashable type'')
      else if kind \<notin> {JStr ''builtin'', JStr ''reference''}
      then Inl (EGCFError ''non-core algorithm proposals cannot select privileged executor kinds'')
      else if kind = JStr ''reference'' \<and> unhashable status then Inl (TypeError ''unhashable type'')
      else if kind = JStr ''reference'' \<and> status \<notin> {JStr ''PROPOSED'', JStr ''CANDIDATE''}
      then Inl (EGCFError ''external algorithm references cannot self-qualify'')
      else bindR (text_of (field d ''implementation_ref'')) (\<lambda>ref.
        if list_ex (\<lambda>marker. contains marker (lower ref)) FORBIDDEN_MARKERS
        then Inl (EGCFError ''algorithm implementation reference contains a forbidden executor marker'')
        else bindR (text_of (field d ''implementation_digest'')) (\<lambda>h.
          if length h \<noteq> 64 \<or> list_ex (\<lambda>c. c \<notin> set ''0123456789abcdef'') (lower h)
          then Inl (EGCFError ''algorithm implementation digest must be an exact SHA-256 digest'') else Inr ())))"

definition register_algorithm ::
  "digest \<Rightarrow> call \<Rightarrow> egcf_record \<Rightarrow> egcf_store \<Rightarrow> algorithm_registry \<Rightarrow> (egcf_store \<times> algorithm_registry \<times> string) res" where
  "register_algorithm H c d s reg =
     bindR (check_definition d) (\<lambda>_.
     bindR (text_list (field d ''command_ids'')) (\<lambda>ids.
     bindR (foldR (\<lambda>i cr. bindR (resolve_command H s i cr) (\<lambda>(cr1, _). Inr cr1)) ids (ar_commands reg)) (\<lambda>commands.
     bindR (register H c ''egcf_object_registered'' d s) (\<lambda>(s1, oid). Inr (s1, cleared (reg\<lparr>ar_commands := commands\<rparr>), oid)))))"

definition algorithm_qualifications ::
  "digest \<Rightarrow> egcf_store \<Rightarrow> egcf_record \<Rightarrow> algorithm_registry \<Rightarrow> (algorithm_registry \<times> egcf_record list) res" where
  "algorithm_qualifications H s a reg =
     (let key = (algorithm_id_of a, field a ''implementation_digest'') in
      case dict_get (ar_qualified reg) key of
        Some rs \<Rightarrow> Inr (reg, rs)
      | None \<Rightarrow> bindR (find_where H s ''qualification'' (\<lambda>q. Inr (er_type q = ''qualification'' \<and>
            field q ''algorithm_id'' = JStr (fst key) \<and> field q ''algorithm_digest'' = snd key))) (\<lambda>rs.
          Inr (reg\<lparr>ar_qualified := dict_set key rs (ar_qualified reg)\<rparr>, rs)))"

text \<open>\<open>sorted(..., key=...)\<close>: keys are compared only where there are two.\<close>

definition sort_keyed :: "('a \<Rightarrow> ('k::linorder) res) \<Rightarrow> 'a list \<Rightarrow> 'a list res" where
  "sort_keyed f xs = (if length xs \<le> 1 then Inr xs
     else bindR (mapR (\<lambda>x. bindR (f x) (\<lambda>k. Inr (k, x))) xs) (\<lambda>kxs. Inr (map snd (sort_key fst kxs))))"

definition search_order :: "egcf_record \<Rightarrow> (string \<times> int \<times> string) res" where
  "search_order a = bindR (text_of (field a ''name'')) (\<lambda>n. bindR (number_of (field a ''version'')) (\<lambda>v.
     bindR (text_of (field a ''implementation_digest'')) (\<lambda>h. Inr (n, v, h))))"

definition search_algorithms ::
  "digest \<Rightarrow> egcf_store \<Rightarrow> string \<Rightarrow> algorithm_registry \<Rightarrow> (algorithm_registry \<times> egcf_record list) res" where
  "search_algorithms H s command_id reg = (case dict_get (ar_search reg) command_id of
     Some rs \<Rightarrow> Inr (reg, rs)
   | None \<Rightarrow> bindR (typed_records H ''algorithm-definition'' True s) (\<lambda>rs.
       bindR (filterR (\<lambda>a. py_in (JStr command_id) (field a ''command_ids'')) rs) (\<lambda>found.
       bindR (sort_keyed search_order found) (\<lambda>records.
         Inr (reg\<lparr>ar_search := dict_set command_id records (ar_search reg)\<rparr>, records)))))"

definition resolve_algorithm :: "digest \<Rightarrow> egcf_store \<Rightarrow> string \<Rightarrow> egcf_record res" where
  "resolve_algorithm H s identifier =
     bindR (typed_records H ''algorithm-definition'' True s) (\<lambda>rs.
     let candidates = filter (\<lambda>a. algorithm_id_of a = identifier) rs in
     if candidates \<noteq> [] then Inr (last candidates)
     else bindR (unpack_version identifier) (\<lambda>(base, version).
       if version \<noteq> 0 then Inl (EGCFError ''unknown algorithm version'')
       else case filter (\<lambda>a. field a ''name'' = JStr base) rs of
           [] \<Rightarrow> Inl (EGCFError ''unknown algorithm'')
         | m # ms \<Rightarrow> newest m ms))"

text \<open>One test of a qualification: the flag so far and the evidence found.\<close>

definition evidence_grounds :: "egcf_record \<Rightarrow> (string, json) dict \<Rightarrow> egcf_record \<Rightarrow> bool res" where
  "evidence_grounds a item artifact =
     (if \<not> py_truthy (dict_getd item ''success'' JNull) \<or> field artifact ''success'' \<noteq> JBool True \<or> py_truthy (field artifact ''simulated'') \<or>
         field artifact ''algorithm_id'' \<noteq> JStr (algorithm_id_of a) then Inr False
      else bindR (text_of (field artifact ''producer'')) (\<lambda>p.
        Inr ((starts_with p ''deterministic-'' \<or> starts_with p ''human-'') \<and> field artifact ''method'' \<noteq> JStr ''reported'')))"

definition ground_test :: "digest \<Rightarrow> egcf_store \<Rightarrow> egcf_record \<Rightarrow> json \<Rightarrow> bool \<times> egcf_record list \<Rightarrow> (bool \<times> egcf_record list) res" where
  "ground_test H s a item st = (case item of
     JObj d \<Rightarrow>
       let evidence_id = py_str (dict_getd d ''evidence_id'' (JStr [])) in
       if evidence_id = [] then Inr (False, snd st)
       else bindR (store_get H s evidence_id) (\<lambda>artifact.
         if er_type artifact \<noteq> ''egcf-evidence'' then Inr (False, snd st)
         else bindR (if fst st then evidence_grounds a d artifact else Inr False) (\<lambda>grounded. Inr (grounded, snd st @ [artifact])))
   | _ \<Rightarrow> Inl (AttributeError ''get''))"

definition qualify_algorithm ::
  "digest \<Rightarrow> call \<Rightarrow> string \<Rightarrow> (string, json) dict \<Rightarrow> string list \<Rightarrow> json list \<Rightarrow> json list \<Rightarrow> string list \<Rightarrow> string \<Rightarrow> string \<Rightarrow>
     egcf_store \<Rightarrow> algorithm_registry \<Rightarrow> (egcf_store \<times> algorithm_registry \<times> string) res" where
  "qualify_algorithm H c algorithm_id context evidence_ids tests benchmarks known_failures qualified_by expires_at s reg =
     bindR (resolve_algorithm H s algorithm_id) (\<lambda>a.
     bindR (foldR (ground_test H s a) tests (True, [])) (\<lambda>(grounded, evidence).
     bindR (mapR (object_id H) evidence) (\<lambda>ids.
     bindR (register H c ''egcf_object_registered'' (make_record ''qualification''
       [(''algorithm_id'', JStr (algorithm_id_of a)), (''algorithm_digest'', field a ''implementation_digest''), (''context'', JObj context),
        (''context_hash'', JStr (stable_hash H (JObj context))), (''evidence_ids'', jstrs (from_keys (evidence_ids @ ids))),
        (''tests'', JList tests), (''benchmarks'', JList benchmarks), (''known_failures'', jstrs known_failures),
        (''status'', JStr (if tests \<noteq> [] \<and> grounded then ''QUALIFIED'' else ''CANDIDATE'')), (''qualified_by'', JStr qualified_by),
        (''created_at'', JStr (cl_now c)), (''expires_at'', JStr expires_at)]) s) (\<lambda>(s1, oid).
     Inr (s1, reg\<lparr>ar_qualified := []\<rparr>, oid)))))"

definition retire_algorithm ::
  "digest \<Rightarrow> call \<Rightarrow> call \<Rightarrow> string \<Rightarrow> string \<Rightarrow> egcf_store \<Rightarrow> algorithm_registry \<Rightarrow> (egcf_store \<times> algorithm_registry \<times> string) res" where
  "retire_algorithm H c1 c2 algorithm_id authority s reg =
     (if authority = [] then Inl (EGCFError ''algorithm retirement requires exact external authority'')
      else bindR (resolve_algorithm H s algorithm_id) (\<lambda>a.
        bindR (register H c1 ''egcf_object_registered'' (replaced [(''status'', JStr ''RETIRED'')] a) s) (\<lambda>(s1, retired_id).
        bindR (object_id H a) (\<lambda>old.
        bindR (supersede H c2 old retired_id ''algorithm retired'' authority s1) (\<lambda>(s2, _). Inr (s2, cleared reg, retired_id))))))"

section \<open>Compensation\<close>

text \<open>\<open>_algorithm_retire\<close>: only with the human approval the engine passes in.\<close>

definition retire_command ::
  "digest \<Rightarrow> call \<Rightarrow> call \<Rightarrow> (string, json) dict \<Rightarrow> (string, json) dict \<Rightarrow> string \<Rightarrow> egcf_store \<Rightarrow> algorithm_registry \<Rightarrow>
     (egcf_store \<times> algorithm_registry \<times> json) res" where
  "retire_command H c1 c2 inputs approval approval_id s reg =
     (if \<not> py_truthy (dict_getd approval ''human'' JNull) \<or> approval_id = []
      then Inl (EGCFError ''algorithm retirement requires exact human approval'')
      else case dict_get inputs ''algorithm_id'' of
          None \<Rightarrow> Inl (KeyError ''algorithm_id'')
        | Some v \<Rightarrow> bindR (retire_algorithm H c1 c2 (py_str v) approval_id s reg) (\<lambda>(s1, reg1, retired_id).
            Inr (s1, reg1, JObj [(''retired_definition_id'', JStr retired_id)])))"

definition compensated :: "string \<Rightarrow> json" where
  "compensated replacement = JObj [(''status'', JStr ''COMPENSATED''), (''replacement_id'', JStr replacement)]"

definition keyed :: "(string, json) dict \<Rightarrow> string \<Rightarrow> string res" where
  "keyed d k = (case dict_get d k of None \<Rightarrow> Inl (KeyError k) | Some v \<Rightarrow> Inr (py_str v))"

definition compensate_registration ::
  "digest \<Rightarrow> call \<Rightarrow> call \<Rightarrow> (string, json) dict \<Rightarrow> string \<Rightarrow> egcf_store \<Rightarrow> (egcf_store \<times> json) res" where
  "compensate_registration H c1 c2 result authority s =
     bindR (keyed result ''invariant_id'') (\<lambda>i. bindR (store_get H s i) (\<lambda>created.
     if er_type created \<noteq> ''invariant'' then Inl (EGCFError ''registered invariant compensation target is invalid'')
     else bindR (object_id H created) (\<lambda>created_id.
       bindR (register H c1 ''egcf_object_registered'' (replaced [(''status'', JStr ''SUPERSEDED''), (''authority'', JStr authority),
           (''created_at'', JStr (cl_now c1)), (''supersedes'', JStr created_id)] created) s) (\<lambda>(s1, restored_id).
       bindR (supersede H c2 created_id restored_id ''compensated invariant registration'' authority s1) (\<lambda>(s2, _).
         Inr (s2, compensated restored_id))))))"

definition compensate_supersedence ::
  "digest \<Rightarrow> call \<Rightarrow> call \<Rightarrow> (string, json) dict \<Rightarrow> (string, json) dict \<Rightarrow> string \<Rightarrow> egcf_store \<Rightarrow> (egcf_store \<times> json) res" where
  "compensate_supersedence H c1 c2 inputs result authority s =
     (let new_id = py_str (dict_getd result ''invariant_id'' (dict_getd result ''decision_id'' (JStr []))) in
      bindR (keyed inputs ''old_id'') (\<lambda>i. bindR (store_get H s i) (\<lambda>old.
      bindR (if er_type old = ''invariant'' then Inr (replaced [(''created_at'', JStr (cl_now c1)), (''supersedes'', JStr new_id), (''authority'', JStr authority)] old)
             else if er_type old = ''decision''
             then Inr (replaced [(''status'', JStr ''ACTIVE''), (''created_at'', JStr (cl_now c1)), (''supersedes'', JStr new_id)] old)
             else Inl (EGCFError ''governance compensation source is invalid'')) (\<lambda>restored.
      bindR (register H c1 ''egcf_object_registered'' restored s) (\<lambda>(s1, restored_id).
      bindR (supersede H c2 new_id restored_id ''compensated governance supersedence'' authority s1) (\<lambda>(s2, _).
        Inr (s2, compensated restored_id)))))))"

definition compensate_retirement ::
  "digest \<Rightarrow> call \<Rightarrow> call \<Rightarrow> (string, json) dict \<Rightarrow> string \<Rightarrow> egcf_store \<Rightarrow> (egcf_store \<times> json) res" where
  "compensate_retirement H c1 c2 result authority s =
     bindR (keyed result ''retired_definition_id'') (\<lambda>retired_id.
     bindR (find_where H s ''supersedence'' (\<lambda>r. Inr (dict_getd (er_fields r) ''new_id'' (JStr []) = JStr retired_id))) (\<lambda>records.
     if records = [] then Inl (EGCFError ''algorithm retirement compensation lineage is missing'')
     else bindR (text_of (field (last records) ''old_id'')) (\<lambda>old. bindR (store_get H s old) (\<lambda>previous.
       if er_type previous \<noteq> ''algorithm-definition'' then Inl (EGCFError ''algorithm retirement compensation source is invalid'')
       else bindR (register H c1 ''egcf_object_registered'' (replaced [(''status'', JStr ''QUALIFIED'')] previous) s) (\<lambda>(s1, restored_id).
         bindR (supersede H c2 retired_id restored_id ''compensated algorithm retirement'' authority s1) (\<lambda>(s2, _).
           Inr (s2, compensated restored_id)))))))"

definition compensate ::
  "digest \<Rightarrow> call \<Rightarrow> call \<Rightarrow> string \<Rightarrow> (string, json) dict \<Rightarrow> (string, json) dict \<Rightarrow> string \<Rightarrow> egcf_store \<Rightarrow> (egcf_store \<times> json) res" where
  "compensate H c1 c2 command_id inputs execution authority s =
     bindR (case dict_getd execution ''result'' (JObj []) of JObj d \<Rightarrow> Inr d | _ \<Rightarrow> Inl (TypeError ''cannot convert to dict'')) (\<lambda>result.
     if command_id = ''invariant.register@1'' then compensate_registration H c1 c2 result authority s
     else if command_id = ''invariant.supersede@1'' \<or> command_id = ''decision.supersede@1''
     then compensate_supersedence H c1 c2 inputs result authority s
     else if command_id = ''algorithm.retire@1'' then compensate_retirement H c1 c2 result authority s
     else Inr (s, JObj [(''status'', JStr ''NOT_REQUIRED''), (''workspace_mutation'', JBool False)]))"

section \<open>Qualification\<close>

definition test_grounds :: "digest \<Rightarrow> egcf_store \<Rightarrow> egcf_record \<Rightarrow> json \<Rightarrow> bool" where
  "test_grounds H s a item = (\<exists>d artifact. item = JObj d \<and> store_get H s (py_str (dict_getd d ''evidence_id'' (JStr []))) = Inr artifact \<and>
     py_str (dict_getd d ''evidence_id'' (JStr [])) \<noteq> [] \<and> er_type artifact = ''egcf-evidence'' \<and> evidence_grounds a d artifact = Inr True)"

lemma ground_step:
  assumes "ground_test H s a item st = Inr st'"
  shows "fst st' \<longleftrightarrow> fst st \<and> test_grounds H s a item"
  using assms by (cases item) (auto simp: test_grounds_def ground_test_def Let_def bindR_Inr split: if_splits)

lemma grounded_tests:
  assumes "foldR (ground_test H s a) tests st = Inr st'"
  shows "fst st' \<longleftrightarrow> fst st \<and> (\<forall>item \<in> set tests. test_grounds H s a item)"
  using assms
proof (induction tests arbitrary: st)
  case (Cons item tests)
  from Cons.prems obtain m where m: "ground_test H s a item st = Inr m" "foldR (ground_test H s a) tests m = Inr st'"
    by (auto simp: bindR_Inr)
  from Cons.IH [OF m(2)] ground_step [OF m(1)] show ?case by auto
qed simp

section \<open>Lineage\<close>

lemma register_identity: "register H c t r s = Inr (s1, oid) \<Longrightarrow> object_id H r = Inr oid"
  by (auto simp: register_def Let_def put_object_def object_id_def bindR_Inr split: option.splits if_splits)

lemma dict_set_same: "dict_get d k = Some v \<Longrightarrow> dict_set k v d = d"
  by (induction d) (auto split: if_splits)

lemma replaced_same: "field r k = v \<Longrightarrow> v \<noteq> JNull \<Longrightarrow> replaced [(k, v)] r = r"
  by (auto simp: replaced_def field_def dict_getd_def dict_set_same split: option.splits)

lemma stored_distinct:
  assumes "store_get H s oid = Inr r"
  shows "distinct (map fst (er_fields r))"
proof -
  from assms obtain t p where c: "construct_record t p = Inr r" by (auto simp: store_get_def get_object_def bindR_Inr)
  then have v: "validate_record_payload t p = Inr ()" by (auto simp: construct_record_def bindR_Inr)
  from validate_known [OF this] obtain fs where fs: "dict_get RECORD_TYPES t = Some fs" by blast
  from c v fs have "map fst (er_fields r) = field_names fs"
    by (auto simp: construct_record_def dict_getd_def comp_def)
  moreover have "map fst (er_fields (make_record t [])) = field_names fs" by (simp add: make_record_def fs dict_getd_def comp_def)
  ultimately show ?thesis using make_record_distinct [of t "[]"] fs by simp
qed

lemma fresh_after:
  assumes "sha_like H" and "store_ok H s" and "distinct (map fst (er_fields r))" and "register H c t r s = Inr (s1, oid)"
    and "fresh_call c2 s" and "sp_event_id (cl_stamp c2) \<noteq> sp_event_id (cl_stamp c)"
  shows "fresh_call c2 s1"
proof -
  have files: "files_ok H (es_files s)" using assms(2) by (simp add: store_ok_def)
  show ?thesis
  proof (rule register_effect [OF assms(1) files assms(3,4)])
    fix e
    assume "es_log s1 = (if dict_get (es_files s) (address H (er_type r) (to_payload r)) \<noteq> None then es_log s
      else fst (append_event H (cl_redactor c) (cl_stamp c) t (JObj [(''object_id'', JStr oid), (''object_type'', JStr (er_type r)),
        (''parent_event_head'', JStr (es_parent_head s))]) (es_log s)))"
    then show ?thesis using assms(5,6) by (auto simp: fresh_call_def append_event_parts)
  qed
qed

lemma tabulated: "dict_get (map (\<lambda>k. (k, f k)) ks) k = (if k \<in> set ks then Some (f k) else None)"
  by (induction ks) auto

lemma required_field:
  assumes "construct_record t (JObj d) = Inr x" and "dict_get RECORD_TYPES t = Some fs" and "k \<in> set (fst fs)"
  shows "field x k = jget d k"
proof -
  from assms(1) have v: "validate_record_payload t (JObj d) = Inr ()" by (auto simp: construct_record_def bindR_Inr)
  with assms(2,3) have "dict_get d k \<noteq> None" by (auto simp: validate_record_payload_def list_ex_iff split: if_splits)
  moreover have "er_fields x = map (\<lambda>k. (k, dict_getd d k (dict_getd (snd fs) k JNull))) (field_names fs)"
    using assms(1,2) v by (auto simp: construct_record_def dict_getd_def)
  ultimately show ?thesis using assms(3) by (auto simp: field_def tabulated dict_getd_def [of _ k] jget_def field_names_def)
qed

lemma supersedence_found:
  assumes "sha_like H" and "store_ok H s" and "(oid, row) \<in> set (list_objects s ''supersedence'')" and "store_get H s oid = Inr x"
  shows "\<exists>e \<in> envelopes (es_files s). is_supersedence e \<and> pair_of e = (field x ''old_id'', field x ''new_id'')"
proof -
  have files: "files_ok H (es_files s)" using assms(2) by (simp add: store_ok_def)
  from assms(2,3) obtain e where e: "e \<in> envelopes (es_files s)" "(oid, row) = row_of e" "or_type row = ''supersedence''"
    by (auto simp: store_ok_def projects_def list_objects_set)
  obtain t d where d: "JObj e = stored_envelope H t (JObj d)" "dict_get (es_files s) (address H t (JObj d)) = Some (Some (JObj e))"
    "validate_record_payload t (JObj d) = Inr ()" "norm_json (JObj d) = JObj d" by (rule known_envelope [OF files e(1)])
  have oid: "oid = oid_of H t (JObj d)" and t: "t = ''supersedence''"
    using e(2,3) row_of_stored(1) [OF assms(1) d(1,3)] by (simp_all add: object_row_of_def)
  have "get_object H (es_files s) oid = construct_record t (JObj d)"
    unfolding oid using get_stored(2) [OF assms(1) d(3)] d(1,2) by simp
  then have x: "construct_record ''supersedence'' (JObj d) = Inr x" using assms(4) by (simp add: store_get_def t)
  have fs: "dict_get RECORD_TYPES ''supersedence'' = Some SupersedenceRecord_fields" by code_simp
  have "field x ''old_id'' = jget d ''old_id''" "field x ''new_id'' = jget d ''new_id''"
    by (rule required_field [OF x fs], simp add: SupersedenceRecord_fields_def)+
  with row_of_stored(2,3) [OF assms(1) d(1,3)] e(1) t show ?thesis by (intro bexI [of _ e]) simp_all
qed

lemma found_supersedence:
  assumes "sha_like H" and "store_ok H s" and "find_where H s ''supersedence'' f = Inr records" and "x \<in> set records" and "field x ''old_id'' = JStr old"
  shows "\<exists>k \<in> set (pj_supersedence (es_projection s)). fst (fst k) = JStr old"
proof -
  from assms(3) obtain rs where rs: "find_records H s ''supersedence'' = Inr rs" "filterR f rs = Inr records" by (auto simp: find_where_def bindR_Inr)
  from filterR_filter [OF rs(2)] assms(4) have "x \<in> set rs" by simp
  from mapR_Inr_set [OF rs(1) [unfolded find_records_def] this]
  obtain oid row where "(oid, row) \<in> set (list_objects s ''supersedence'')" "store_get H s oid = Inr x" by auto
  from supersedence_found [OF assms(1,2) this] assms(5) have "\<exists>e \<in> envelopes (es_files s). is_supersedence e \<and> fst (pair_of e) = JStr old" by force
  then show ?thesis by (simp only: superseded_pairs [OF assms(2)])
qed

section \<open>Properties\<close>

text \<open>Looking up a version nobody registered ends in a Python error: the version splitter has lost its last
  lines, so for every identifier with an "@" that names no active definition, both registries raise
  TypeError (unpacking None) where the code goes on to raise its own "unknown version" refusal.\<close>

lemma unknown_version_type_error:
  assumes "CHR ''@'' \<in> set identifier" and "dict_get (cr_aliases reg) identifier = None" and "dict_get (cr_cache reg) identifier = None"
    and "typed_records H ''command-definition'' True s = Inr commands" and "\<forall>r \<in> set commands. command_id_of r \<noteq> identifier"
    and "typed_records H ''algorithm-definition'' True s = Inr algorithms" and "\<forall>r \<in> set algorithms. algorithm_id_of r \<noteq> identifier"
  shows "resolve_command H s identifier reg = Inl (TypeError ''cannot unpack non-iterable NoneType object'') \<and>
    resolve_algorithm H s identifier = Inl (TypeError ''cannot unpack non-iterable NoneType object'')"
proof -
  have "filter (\<lambda>r. command_id_of r = identifier) commands = []" "filter (\<lambda>r. algorithm_id_of r = identifier) algorithms = []"
    using assms(5,7) by (simp_all add: filter_empty_conv)
  then show ?thesis using assms(1-4,6)
    by (simp add: resolve_command_def resolve_algorithm_def dict_getd_def Let_def unpack_version_def version_key_def)
qed


text \<open>C40. Undoing a retirement does not bring the algorithm back: when the retired definition replaced one that
  was QUALIFIED, the compensation registers that same object again, which is superseded for good, and
  supersedes the retired one. Neither is active in any later state: the algorithm is gone.\<close>

theorem retirement_not_undone:
  assumes "sha_like H" and "(egcf_step H B)\<^sup>*\<^sup>* empty_egcf s" and "fresh_call c1 s" and "fresh_call c2 s"
    and "sp_event_id (cl_stamp c2) \<noteq> sp_event_id (cl_stamp c1)"
    and "dict_get result ''retired_definition_id'' = Some (JStr retired_id)"
    and "find_where H s ''supersedence'' (\<lambda>r. Inr (dict_getd (er_fields r) ''new_id'' (JStr []) = JStr retired_id)) = Inr lineage"
    and "lineage \<noteq> []" and "field (last lineage) ''old_id'' = JStr old" and "store_get H s old = Inr previous"
    and "object_id H previous = Inr old" and "field previous ''status'' = JStr ''QUALIFIED''"
    and "compensate_retirement H c1 c2 result authority s = Inr (s1, receipt)" and "(egcf_step H B)\<^sup>*\<^sup>* s1 s2"
  shows "receipt = compensated old \<and> old \<notin> set (active_ids s2 t) \<and> retired_id \<notin> set (active_ids s2 t)"
proof -
  have ok: "store_ok H s" using run_ok_store [OF assms(1,2) empty_egcf_ok] by blast
  have same: "replaced [(''status'', JStr ''QUALIFIED'')] previous = previous" by (rule replaced_same [OF assms(12)]) simp
  have key: "keyed result ''retired_definition_id'' = Inr retired_id" by (simp add: keyed_def assms(6) py_str_def)
  from assms(13) obtain sm rid sid where r: "register H c1 ''egcf_object_registered'' previous s = Inr (sm, rid)"
    and sup: "supersede H c2 retired_id rid ''compensated algorithm retirement'' authority sm = Inr (s1, sid)"
    and receipt: "receipt = compensated rid" and ty: "er_type previous = ''algorithm-definition''"
    by (auto simp: compensate_retirement_def key assms(7,8,9,10) text_of_def same bindR_Inr split: if_splits)
  have rid: "rid = old" using register_identity [OF r] assms(11) by simp
  note d = stored_distinct [OF assms(10)]
  have okm: "store_ok H sm" "keeps_files s sm" using register_ok [OF assms(1) ok d assms(3) _ r] ty by simp_all
  have "fresh_call c2 sm" by (rule fresh_after [OF assms(1) ok d r assms(4,5)])
  note okp = supersede_ok [OF assms(1) okm(1) this sup]
  have ok2: "store_ok H s2" "keeps_files s1 s2" using run_ok_store [OF assms(1,14) okp(1)] by blast+
  have keep: "keeps_files s s2" using okm(2) okp(2) ok2(2) by (simp add: keeps_files_def)
  have "last lineage \<in> set lineage" using assms(8) by simp
  from found_supersedence [OF assms(1) ok assms(7) this assms(9)] have "old \<notin> set (active_ids s2 t)"
    by (rule superseded_kept [OF ok ok2(1) keep])
  moreover have "\<exists>k \<in> set (pj_supersedence (es_projection s1)). fst (fst k) = JStr retired_id"
    by (rule pair_superseded [OF okp(3)])
  then have "retired_id \<notin> set (active_ids s2 t)" by (rule superseded_kept [OF okp(1) ok2])
  ultimately show ?thesis using receipt rid by simp
qed

section \<open>A retirement and a qualification\<close>

definition sample_algorithm :: "string \<Rightarrow> egcf_record" where
  "sample_algorithm status = make_record ''algorithm-definition''
     [(''name'', JStr ''fit''), (''version'', JInt 1), (''implementation_digest'', JStr ''d''), (''status'', JStr status)]"

definition qualified_id :: string where
  "qualified_id = ''algorithm-definition:sha256:'' @ replicate 64 CHR ''a''"

definition retired_definition :: string where
  "retired_definition = ''algorithm-definition:sha256:'' @ replicate 64 CHR ''b''"

definition first_supersedence :: egcf_record where
  "first_supersedence = supersedence_record last_call qualified_id retired_definition ''algorithm retired'' ''op''"

definition undo_call :: call where
  "undo_call = sample_call\<lparr>cl_stamp := (cl_stamp sample_call)\<lparr>sp_event_id := ''e5''\<rparr>\<rparr>"

definition redo_call :: call where
  "redo_call = sample_call\<lparr>cl_stamp := (cl_stamp sample_call)\<lparr>sp_event_id := ''e4''\<rparr>\<rparr>"

definition second_supersedence :: egcf_record where
  "second_supersedence = supersedence_record undo_call retired_definition qualified_id ''compensated algorithm retirement'' ''op''"

definition sample_evidence :: egcf_record where
  "sample_evidence = make_record ''egcf-evidence''
     [(''producer'', JStr ''deterministic-tests''), (''method'', JStr ''unittest''), (''algorithm_id'', JStr ''fit@1''), (''success'', JBool True)]"

definition evidence_oid :: string where
  "evidence_oid = ''egcf-evidence:sha256:'' @ replicate 64 CHR ''e''"

definition lineage_digest :: digest where
  "lineage_digest t = replicate 64
     (if t = canonical_json (address_material (''algorithm-definition'', to_payload (sample_algorithm ''QUALIFIED''))) then CHR ''a''
      else if t = canonical_json (address_material (''algorithm-definition'', to_payload (sample_algorithm ''RETIRED''))) then CHR ''b''
      else if t = canonical_json (address_material (''supersedence'', to_payload first_supersedence)) then CHR ''c''
      else if t = canonical_json (address_material (''egcf-evidence'', to_payload sample_evidence)) then CHR ''e'' else CHR ''d'')"

lemma lineage_sha: "sha_like lineage_digest"
  by (simp add: lineage_digest_def sha_like_def)

lemma material_payloads:
  assumes "canonical_json (address_material (t, p)) = canonical_json (address_material (u, q))"
  shows "t = u \<and> norm_json p = norm_json q"
proof -
  from assms have "norm_json (address_material (t, p)) = norm_json (address_material (u, q))"
    by (rule canonical_json_injective [THEN iffD1])
  then show ?thesis by (simp add: address_material_def norm_obj_eq)
qed

lemma lineage_payloads:
  "norm_json (to_payload (sample_algorithm ''RETIRED'')) \<noteq> norm_json (to_payload (sample_algorithm ''QUALIFIED''))"
  "norm_json (to_payload second_supersedence) \<noteq> norm_json (to_payload first_supersedence)"
  by code_simp+

lemma lineage_addresses:
  "address lineage_digest ''algorithm-definition'' (to_payload (sample_algorithm ''QUALIFIED'')) = replicate 64 CHR ''a''"
  "address lineage_digest ''algorithm-definition'' (to_payload (sample_algorithm ''RETIRED'')) = replicate 64 CHR ''b''"
  "address lineage_digest ''supersedence'' (to_payload first_supersedence) = replicate 64 CHR ''c''"
  "address lineage_digest ''supersedence'' (to_payload second_supersedence) = replicate 64 CHR ''d''"
  "address lineage_digest ''egcf-evidence'' (to_payload sample_evidence) = replicate 64 CHR ''e''"
  "t \<notin> {''algorithm-definition'', ''supersedence'', ''egcf-evidence''} \<Longrightarrow> address lineage_digest t p = replicate 64 CHR ''d''"
  using lineage_payloads by (auto simp: address_def stable_hash_def lineage_digest_def dest!: material_payloads)

lemma lineage_valid:
  "validate_record_payload ''algorithm-definition'' (to_payload (sample_algorithm st)) = Inr ()"
  "distinct (map fst (er_fields (sample_algorithm st)))" "er_type (sample_algorithm st) = ''algorithm-definition''"
  "validate_record_payload ''supersedence'' (to_payload first_supersedence) = Inr ()" "er_type first_supersedence = ''supersedence''"
  "validate_record_payload ''supersedence'' (to_payload second_supersedence) = Inr ()" "er_type second_supersedence = ''supersedence''"
proof -
  have "dict_get RECORD_TYPES ''algorithm-definition'' = Some AlgorithmDefinition_fields" "dict_get RECORD_TYPES ''supersedence'' = Some SupersedenceRecord_fields"
    by code_simp+
  then show "validate_record_payload ''algorithm-definition'' (to_payload (sample_algorithm st)) = Inr ()"
    "distinct (map fst (er_fields (sample_algorithm st)))" "er_type (sample_algorithm st) = ''algorithm-definition''"
    "validate_record_payload ''supersedence'' (to_payload first_supersedence) = Inr ()" "er_type first_supersedence = ''supersedence''"
    "validate_record_payload ''supersedence'' (to_payload second_supersedence) = Inr ()" "er_type second_supersedence = ''supersedence''"
    by (simp_all add: sample_algorithm_def first_supersedence_def second_supersedence_def supersedence_record_def make_record_valid make_record_distinct)
qed

lemma lineage_records:
  "construct_record ''algorithm-definition'' (norm_json (to_payload (sample_algorithm ''QUALIFIED''))) = Inr (sample_algorithm ''QUALIFIED'')"
  "construct_record ''algorithm-definition'' (norm_json (to_payload (sample_algorithm ''RETIRED''))) = Inr (sample_algorithm ''RETIRED'')"
  "construct_record ''supersedence'' (norm_json (to_payload first_supersedence)) = Inr first_supersedence"
  "field (sample_algorithm ''QUALIFIED'') ''status'' = JStr ''QUALIFIED''" "field first_supersedence ''old_id'' = JStr qualified_id"
  "dict_getd (er_fields first_supersedence) ''new_id'' (JStr []) = JStr retired_definition"
  by code_simp+

lemma register_again:
  assumes "sha_like H" and "validate_record_payload (er_type r) (to_payload r) = Inr ()"
    and "dict_get (es_files s) (address H (er_type r) (to_payload r)) = Some (Some (stored_envelope H (er_type r) (norm_json (to_payload r))))"
  shows "\<exists>s'. register H c t r s = Inr (s', oid_of H (er_type r) (to_payload r)) \<and> es_files s' = es_files s"
proof -
  note ids = validated_ids [OF assms(1,2)]
  have "canonical_json (stored_envelope H (er_type r) (norm_json (to_payload r))) =
      canonical_json (envelope (er_type r) (oid_of H (er_type r) (to_payload r)) (to_payload r))"
    by (simp only: canonical_json_injective norm_envelope [symmetric] norm_idem)
  then have "put_object H (er_type r) (to_payload r) (es_files s) = Inr (es_files s, oid_of H (er_type r) (to_payload r))"
    by (simp add: put_object_def assms(2,3) ids)
  then show ?thesis by (simp add: register_def Let_def ids assms(3))
qed

text \<open>What a first supersedence leaves behind.\<close>

lemma superseded_new:
  fixes c old_id new_id reason authority
  defines "r \<equiv> supersedence_record c old_id new_id reason authority"
  assumes "sha_like H" and "store_ok H s" and "fresh_call c s" and "\<exists>x. store_get H s old_id = Inr x" and "\<exists>x. store_get H s new_id = Inr x"
    and "address H ''supersedence'' (to_payload r) \<notin> set (map fst (es_files s))"
  shows "\<exists>s'. supersede H c old_id new_id reason authority s = Inr (s', oid_of H ''supersedence'' (to_payload r)) \<and> egcf_step H B s s' \<and>
    store_ok H s' \<and> keeps_files s s' \<and>
    map fst (es_files s') = map fst (es_files s) @ [address H ''supersedence'' (to_payload r)] \<and>
    map (\<lambda>e. jget e ''event_id'') (ss_events (es_log s')) = map (\<lambda>e. jget e ''event_id'') (ss_events (es_log s)) @ [JStr (sp_event_id (cl_stamp c))] \<and>
    pj_objects (es_projection s') = insert_ignore (oid_of H ''supersedence'' (to_payload r))
          (object_row_of ''supersedence'' (address H ''supersedence'' (to_payload r)) (to_payload r)) (pj_objects (es_projection s)) \<and>
    store_get H s' (oid_of H ''supersedence'' (to_payload r)) = construct_record ''supersedence'' (norm_json (to_payload r))"
proof -
  have ty: "er_type r = ''supersedence''" by (simp add: r_def supersedence_record_def)
  have v: "validate_record_payload (er_type r) (to_payload r) = Inr ()" "distinct (map fst (er_fields r))"
    unfolding r_def supersedence_record_def make_record_type by (rule make_record_valid make_record_distinct, code_simp+)+
  have new: "dict_get (es_files s) (address H ''supersedence'' (to_payload r)) = None" using assms(7) by (simp add: map_of_eq_None_iff)
  then obtain s1 where s1: "register H c ''egcf_object_superseded'' r s = Inr (s1, oid_of H ''supersedence'' (to_payload r))"
    using register_total [OF assms(2) v(1), unfolded ty, OF new, of c "''egcf_object_superseded''"] by (elim exE) (rule that)
  obtain s' where s': "supersede H c old_id new_id reason authority s = Inr (s', oid_of H ''supersedence'' (to_payload r))"
    "es_files s' = es_files s1" "es_log s' = es_log s1" "pj_objects (es_projection s') = pj_objects (es_projection s1)"
    using assms(5,6) s1 [unfolded r_def supersedence_record_def] by (auto simp: supersede_def r_def supersedence_record_def Let_def)
  note ok = supersede_ok(1,2) [OF assms(2-4) s'(1)]
  have files: "files_ok H (es_files s)" using assms(3) by (simp add: store_ok_def)
  have "keeps_files s1 s'" by (simp add: keeps_files_def s'(2))
  note read = registered_readable(1) [OF assms(2,3) v(2) s1 this]
  show ?thesis
  proof (rule register_effect [OF assms(2) files v(2) s1])
    fix e
    assume "es_files s1 = (if dict_get (es_files s) (address H (er_type r) (to_payload r)) \<noteq> None then es_files s
        else dict_set (address H (er_type r) (to_payload r)) (Some (stored_envelope H (er_type r) (JObj e))) (es_files s))"
      and objects: "pj_objects (es_projection s1) = insert_ignore (oid_of H ''supersedence'' (to_payload r))
          (object_row_of (er_type r) (address H (er_type r) (to_payload r)) (to_payload r)) (pj_objects (es_projection s))"
      and "es_log s1 = (if dict_get (es_files s) (address H (er_type r) (to_payload r)) \<noteq> None then es_log s
        else fst (append_event H (cl_redactor c) (cl_stamp c) ''egcf_object_superseded'' (JObj [(''object_id'', JStr (oid_of H ''supersedence'' (to_payload r))),
          (''object_type'', JStr (er_type r)), (''parent_event_head'', JStr (es_parent_head s))]) (es_log s)))"
    then have "map fst (es_files s') = map fst (es_files s) @ [address H ''supersedence'' (to_payload r)]"
      and "map (\<lambda>e. jget e ''event_id'') (ss_events (es_log s')) = map (\<lambda>e. jget e ''event_id'') (ss_events (es_log s)) @ [JStr (sp_event_id (cl_stamp c))]"
      using new assms(7) by (simp_all add: append_event_parts AList.update_keys ty s')
    with s'(1) egcf_step.superseded [OF assms(4) s'(1)] ok objects [folded s'(4), unfolded ty] read [unfolded ty] show ?thesis by blast
  qed
qed

lemma lineage_ids:
  "oid_of lineage_digest ''algorithm-definition'' (to_payload (sample_algorithm ''QUALIFIED'')) = qualified_id"
  "oid_of lineage_digest ''algorithm-definition'' (to_payload (sample_algorithm ''RETIRED'')) = retired_definition"
  by (simp_all only: oid_of_def lineage_addresses qualified_id_def retired_definition_def append_assoc append.simps)

lemma lineage_events:
  "sp_event_id (cl_stamp sample_call) = ''e1''" "sp_event_id (cl_stamp later_call) = ''e2''" "sp_event_id (cl_stamp last_call) = ''e3''"
  "sp_event_id (cl_stamp redo_call) = ''e4''" "sp_event_id (cl_stamp undo_call) = ''e5''"
  by (simp_all add: sample_call_def later_call_def last_call_def redo_call_def undo_call_def)

text \<open>An algorithm, its retired definition, and the supersedence that retired it.\<close>

lemma sample_retired:
  obtains s where "(egcf_step lineage_digest B)\<^sup>*\<^sup>* empty_egcf s" and "store_ok lineage_digest s" and "fresh_call redo_call s" and "fresh_call undo_call s"
    and "find_where lineage_digest s ''supersedence'' (\<lambda>r. Inr (dict_getd (er_fields r) ''new_id'' (JStr []) = JStr retired_definition)) = Inr [first_supersedence]"
    and "store_get lineage_digest s qualified_id = Inr (sample_algorithm ''QUALIFIED'')"
    and "store_get lineage_digest s retired_definition = Inr (sample_algorithm ''RETIRED'')"
    and "map fst (es_files s) = [replicate 64 CHR ''a'', replicate 64 CHR ''b'', replicate 64 CHR ''c'']"
    and "dict_get (es_files s) (replicate 64 CHR ''a'') = Some (Some (stored_envelope lineage_digest ''algorithm-definition'' (norm_json (to_payload (sample_algorithm ''QUALIFIED'')))))"
proof -
  let ?H = lineage_digest
  have f1: "fresh_call sample_call empty_egcf" by (simp add: fresh_call_def empty_parts)
  have "address ?H (er_type (sample_algorithm ''QUALIFIED'')) (to_payload (sample_algorithm ''QUALIFIED'')) \<notin> set (map fst (es_files empty_egcf))"
    by (simp add: empty_parts)
  with registered_new [where t = "''egcf_object_registered''" and B = B, OF lineage_sha empty_egcf_ok lineage_valid(2) f1, of "''QUALIFIED''"]
  obtain s1 where s1: "egcf_step ?H B empty_egcf s1" "store_ok ?H s1" "map fst (es_files s1) = [replicate 64 CHR ''a'']"
    "map (\<lambda>e. jget e ''event_id'') (ss_events (es_log s1)) = [JStr ''e1'']"
    "pj_objects (es_projection s1) = [(qualified_id, object_row_of ''algorithm-definition'' (replicate 64 CHR ''a'') (to_payload (sample_algorithm ''QUALIFIED'')))]"
    "store_get ?H s1 qualified_id = Inr (sample_algorithm ''QUALIFIED'')"
    "dict_get (es_files s1) (replicate 64 CHR ''a'') = Some (Some (stored_envelope ?H ''algorithm-definition'' (norm_json (to_payload (sample_algorithm ''QUALIFIED'')))))"
    unfolding lineage_valid(3) lineage_valid(1) lineage_ids lineage_addresses lineage_records(1) lineage_events empty_parts
    by (auto simp: insert_ignore_def)
  have f2: "fresh_call later_call s1" by (simp add: fresh_call_def s1(4) lineage_events)
  have "address ?H (er_type (sample_algorithm ''RETIRED'')) (to_payload (sample_algorithm ''RETIRED'')) \<notin> set (map fst (es_files s1))"
    by (simp add: s1(3) lineage_valid(3) lineage_addresses(2))
  with registered_new [where t = "''egcf_object_registered''" and B = B, OF lineage_sha s1(2) lineage_valid(2) f2, of "''RETIRED''"]
  obtain s2 where s2: "egcf_step ?H B s1 s2" "store_ok ?H s2" "keeps_files s1 s2" "map fst (es_files s2) = [replicate 64 CHR ''a'', replicate 64 CHR ''b'']"
    "map (\<lambda>e. jget e ''event_id'') (ss_events (es_log s2)) = [JStr ''e1'', JStr ''e2'']"
    "pj_objects (es_projection s2) = insert_ignore retired_definition (object_row_of ''algorithm-definition'' (replicate 64 CHR ''b'') (to_payload (sample_algorithm ''RETIRED'')))
       (pj_objects (es_projection s1))"
    "store_get ?H s2 retired_definition = Inr (sample_algorithm ''RETIRED'')"
    unfolding lineage_valid(3) lineage_valid(1) lineage_ids lineage_addresses lineage_records(2) lineage_events s1(3) s1(4) by auto
  have f3: "fresh_call last_call s2" by (simp add: fresh_call_def s2(5) lineage_events)
  note there = store_get_kept [OF s2(3) s1(6)]
  have ex: "\<exists>x. store_get ?H s2 qualified_id = Inr x" "\<exists>x. store_get ?H s2 retired_definition = Inr x"
    using there s2(7) by simp_all
  have "address ?H ''supersedence'' (to_payload first_supersedence) \<notin> set (map fst (es_files s2))" by (simp add: s2(4) lineage_addresses(3))
  with superseded_new [where B = B and new_id = retired_definition and reason = "''algorithm retired''" and authority = "''op''",
      OF lineage_sha s2(2) f3 ex, folded first_supersedence_def]
  obtain s3 where s3: "egcf_step ?H B s2 s3" "store_ok ?H s3" "keeps_files s2 s3"
    "map fst (es_files s3) = [replicate 64 CHR ''a'', replicate 64 CHR ''b'', replicate 64 CHR ''c'']"
    "map (\<lambda>e. jget e ''event_id'') (ss_events (es_log s3)) = [JStr ''e1'', JStr ''e2'', JStr ''e3'']"
    "pj_objects (es_projection s3) = insert_ignore (oid_of ?H ''supersedence'' (to_payload first_supersedence))
       (object_row_of ''supersedence'' (replicate 64 CHR ''c'') (to_payload first_supersedence)) (pj_objects (es_projection s2))"
    "store_get ?H s3 (oid_of ?H ''supersedence'' (to_payload first_supersedence)) = Inr first_supersedence"
    unfolding lineage_addresses lineage_records(3) lineage_events s2(4) s2(5) by auto
  have "map fst (list_objects s3 ''supersedence'') = [oid_of ?H ''supersedence'' (to_payload first_supersedence)]"
    by (auto simp: list_objects_def s1(5) s2(6) s3(6) insert_ignore_def object_row_of_def oid_of_def qualified_id_def retired_definition_def)
  then have found: "find_where ?H s3 ''supersedence'' (\<lambda>r. Inr (dict_getd (er_fields r) ''new_id'' (JStr []) = JStr retired_definition)) = Inr [first_supersedence]"
    by (auto simp: find_where_def find_records_def s3(7) lineage_records(6))
  have run: "(egcf_step ?H B)\<^sup>*\<^sup>* empty_egcf s3" using s1(1) s2(1) s3(1) by (meson r_into_rtranclp rtranclp.rtrancl_into_rtrancl)
  have fresh: "fresh_call redo_call s3" "fresh_call undo_call s3" by (simp_all add: fresh_call_def s3(5) lineage_events)
  have stored: "dict_get (es_files s3) (replicate 64 CHR ''a'') = Some (Some (stored_envelope ?H ''algorithm-definition'' (norm_json (to_payload (sample_algorithm ''QUALIFIED'')))))"
    using s1(7) s2(3) s3(3) unfolding keeps_files_def by blast
  show thesis by (rule that [OF run s3(2) fresh found store_get_kept [OF s3(3) there] store_get_kept [OF s3(3) s2(7)] s3(4) stored])
qed

theorem retirement_not_undone_witness:
  "\<exists>s s1. compensate_retirement lineage_digest redo_call undo_call [(''retired_definition_id'', JStr retired_definition)] ''op'' s = Inr (s1, compensated qualified_id) \<and>
     qualified_id \<notin> set (active_ids s1 ''algorithm-definition'') \<and> retired_definition \<notin> set (active_ids s1 ''algorithm-definition'')"
proof -
  let ?H = lineage_digest and ?q = "sample_algorithm ''QUALIFIED''"
  obtain s where s: "(egcf_step ?H (\<lambda>t. t))\<^sup>*\<^sup>* empty_egcf s" "store_ok ?H s" "fresh_call redo_call s" "fresh_call undo_call s"
    "find_where ?H s ''supersedence'' (\<lambda>r. Inr (dict_getd (er_fields r) ''new_id'' (JStr []) = JStr retired_definition)) = Inr [first_supersedence]"
    "store_get ?H s qualified_id = Inr ?q" "store_get ?H s retired_definition = Inr (sample_algorithm ''RETIRED'')"
    "map fst (es_files s) = [replicate 64 CHR ''a'', replicate 64 CHR ''b'', replicate 64 CHR ''c'']"
    "dict_get (es_files s) (replicate 64 CHR ''a'') = Some (Some (stored_envelope ?H ''algorithm-definition'' (norm_json (to_payload ?q))))"
    by (rule sample_retired)
  have v: "validate_record_payload (er_type ?q) (to_payload ?q) = Inr ()" unfolding lineage_valid(3) by (rule lineage_valid(1))
  have there: "dict_get (es_files s) (address ?H (er_type ?q) (to_payload ?q)) = Some (Some (stored_envelope ?H (er_type ?q) (norm_json (to_payload ?q))))"
    unfolding lineage_valid(3) lineage_addresses(1) by (rule s(9))
  obtain sm where sm: "register ?H redo_call ''egcf_object_registered'' ?q s = Inr (sm, qualified_id)" "es_files sm = es_files s"
    using register_again [OF lineage_sha v there, of redo_call "''egcf_object_registered''"] unfolding lineage_valid(3) lineage_ids(1) by blast
  have keep: "keeps_files s sm" by (simp add: keeps_files_def sm(2))
  have okm: "store_ok ?H sm" by (rule register_ok(1) [OF lineage_sha s(2) lineage_valid(2) s(3) _ sm(1)]) (simp add: lineage_valid(3))
  have ids: "sp_event_id (cl_stamp undo_call) \<noteq> sp_event_id (cl_stamp redo_call)" by (simp add: lineage_events)
  have fm: "fresh_call undo_call sm" by (rule fresh_after [OF lineage_sha s(2) lineage_valid(2) sm(1) s(4) ids])
  have ex: "\<exists>x. store_get ?H sm retired_definition = Inr x" "\<exists>x. store_get ?H sm qualified_id = Inr x"
    using store_get_kept [OF keep s(7)] store_get_kept [OF keep s(6)] by simp_all
  have "address ?H ''supersedence'' (to_payload second_supersedence) \<notin> set (map fst (es_files sm))"
    by (simp add: sm(2) s(8) lineage_addresses(4))
  with superseded_new [where B = "\<lambda>t. t" and reason = "''compensated algorithm retirement''" and authority = "''op''",
      OF lineage_sha okm fm ex, folded second_supersedence_def]
  obtain s1 sid where s1: "supersede ?H undo_call retired_definition qualified_id ''compensated algorithm retirement'' ''op'' sm = Inr (s1, sid)" by blast
  have same: "replaced [(''status'', JStr ''QUALIFIED'')] ?q = ?q" by (rule replaced_same [OF lineage_records(4)]) simp
  have c: "compensate_retirement ?H redo_call undo_call [(''retired_definition_id'', JStr retired_definition)] ''op'' s = Inr (s1, compensated qualified_id)"
    by (simp add: compensate_retirement_def keyed_def py_str_def s(5,6) lineage_records(5) text_of_def lineage_valid(3) same sm(1) s1)
  have h: "dict_get [(''retired_definition_id'', JStr retired_definition)] ''retired_definition_id'' = Some (JStr retired_definition)"
    "[first_supersedence] \<noteq> []" "field (last [first_supersedence]) ''old_id'' = JStr qualified_id" "object_id ?H ?q = Inr qualified_id"
    using lineage_records(5) register_identity [OF sm(1)] by simp_all
  from retirement_not_undone [OF lineage_sha s(1,3,4) ids h(1) s(5) h(2,3) s(6) h(4) lineage_records(4) c rtranclp.rtrancl_refl] c show ?thesis by blast
qed

lemma evidence_facts:
  "validate_record_payload ''egcf-evidence'' (to_payload sample_evidence) = Inr ()" "distinct (map fst (er_fields sample_evidence))"
  "er_type sample_evidence = ''egcf-evidence''"
  "construct_record ''egcf-evidence'' (norm_json (to_payload sample_evidence)) = Inr sample_evidence"
  "evidence_grounds (sample_algorithm ''QUALIFIED'') [(''evidence_id'', JStr evidence_oid), (''success'', JBool True)] sample_evidence = Inr True"
  "algorithm_id_of (sample_algorithm ''QUALIFIED'') = ''fit@1''" "evidence_oid \<noteq> []"
  by code_simp+

lemma evidence_id: "oid_of lineage_digest ''egcf-evidence'' (to_payload sample_evidence) = evidence_oid"
  by (simp only: oid_of_def lineage_addresses evidence_oid_def append_assoc append.simps)


end
