(* ===== verification/EgcfSelection.thy ===== *)
theory EgcfSelection
  imports EgcfRegistry
begin

text \<open>
  The choice of an algorithm for a command (\<open>ourd/egcf/registry.py\<close>, \<open>SelectionEngine\<close>): every registered
  algorithm is assessed against the context, the capability ceiling, the invariants and its qualifications;
  those with no reason against them are ranked, and the first is selected. \<open>runtime\<close> is the runtime's own
  context. The lemmas show that the selected algorithm meets every requirement and no eligible one ranks before.
\<close>

section \<open>Assessment\<close>

definition ROLLBACK_SCORE :: "(string, int) dict" where
  "ROLLBACK_SCORE = [(''exact'', 3), (''compensating'', 2), (''best_effort'', 1), (''none'', 0), (''irreversible'', -1)]"

definition context_matches :: "json \<Rightarrow> (string, json) dict \<Rightarrow> bool res" where
  "context_matches required observed = (case required of
     JObj d \<Rightarrow> Inr (list_all (\<lambda>(k, v). case dict_get observed k of None \<Rightarrow> False | Some x \<Rightarrow> py_eq x v) d)
   | _ \<Rightarrow> Inl (AttributeError ''items''))"

definition current_qualification :: "(string \<Rightarrow> int option) \<Rightarrow> int \<Rightarrow> (string, json) dict \<Rightarrow> egcf_record \<Rightarrow> bool res" where
  "current_qualification read_time now observed q =
     (if field q ''status'' \<noteq> JStr ''QUALIFIED'' then Inr False
      else bindR (expired read_time now (field q ''expires_at'')) (\<lambda>late.
        if late then Inr False else context_matches (field q ''context'') observed))"

definition status_reasons :: "egcf_record \<Rightarrow> string list res" where
  "status_reasons a = (let status = field a ''status'' in
     if unhashable status then Inl (TypeError ''unhashable type'')
     else Inr (if status \<in> {JStr ''RETIRED'', JStr ''DEPRECATED'', JStr ''PROPOSED''} then [''status='' @ py_str status] else []))"

definition level_reasons :: "string \<Rightarrow> egcf_record \<Rightarrow> string list res" where
  "level_reasons ceiling a = bindR (order_of (field a ''capability_level'')) (\<lambda>i. bindR (order_of (JStr ceiling)) (\<lambda>j.
     Inr (if i > j then [''capability ceiling exceeded''] else [])))"

definition missing_from :: "json \<Rightarrow> string list \<Rightarrow> string list res" where
  "missing_from wanted available = bindR (text_list wanted) (\<lambda>ws. Inr (sorted_set (filter (\<lambda>w. w \<notin> set available) ws)))"

definition incompatible_keys :: "json \<Rightarrow> (string, json) dict \<Rightarrow> string list res" where
  "incompatible_keys applicability observed = (case applicability of
     JObj d \<Rightarrow> Inr (map fst (filter (\<lambda>(k, v). case dict_get observed k of None \<Rightarrow> True | Some x \<Rightarrow> \<not> py_eq x v) d))
   | _ \<Rightarrow> Inl (AttributeError ''items''))"

definition labelled :: "string \<Rightarrow> string list \<Rightarrow> string list" where
  "labelled label xs = (if xs = [] then [] else [label @ '': '' @ py_repr (jstrs xs)])"

definition successful_tests :: "egcf_record \<Rightarrow> int res" where
  "successful_tests q = bindR (py_items (field q ''tests'')) (\<lambda>tests.
     bindR (mapR (\<lambda>t. case t of JObj d \<Rightarrow> Inr (if dict_get d ''success'' = Some (JBool True) then 1 else 0)
       | _ \<Rightarrow> Inl (AttributeError ''get'')) tests) (\<lambda>ns. Inr (sum_list ns)))"

definition total_length :: "string \<Rightarrow> egcf_record list \<Rightarrow> int res" where
  "total_length k qs = bindR (mapR (\<lambda>q. py_len (field q k)) qs) (\<lambda>ns. Inr (int (sum_list ns)))"

definition rollback_score :: "json \<Rightarrow> int res" where
  "rollback_score v = (if unhashable v then Inl (TypeError ''unhashable type'')
     else Inr (case v of JStr r \<Rightarrow> dict_getd ROLLBACK_SCORE r (-2) | _ \<Rightarrow> -2))"

definition resource_cost :: "json \<Rightarrow> int res" where
  "resource_cost applicability = (case applicability of
     JObj d \<Rightarrow> py_int (dict_getd d ''resource_cost'' (JInt 0)) | _ \<Rightarrow> Inl (AttributeError ''get''))"

record score_components =
  sc_strength :: int
  sc_invariants :: int
  sc_correctness :: int
  sc_rollback :: int
  sc_freshness :: int
  sc_performance :: int
  sc_cost :: int
  sc_failures :: int

definition components_json :: "score_components \<Rightarrow> json" where
  "components_json c = JObj [(''qualification_strength'', JInt (sc_strength c)), (''invariant_compatibility'', JInt (sc_invariants c)),
     (''expected_correctness'', JInt (sc_correctness c)), (''rollback_quality'', JInt (sc_rollback c)),
     (''evidence_freshness'', JInt (sc_freshness c)), (''deterministic_performance_fit'', JInt (sc_performance c)),
     (''resource_cost'', JInt (sc_cost c)), (''known_failure_count'', JInt (sc_failures c))]"

record selection_item =
  si_algorithm :: egcf_record
  si_qualification_ids :: "string list"
  si_components :: score_components
  si_reasons :: "string list"

definition item_fields :: "selection_item \<Rightarrow> (string, json) dict" where
  "item_fields i = (let a = si_algorithm i in
     [(''algorithm_id'', JStr (algorithm_id_of a)), (''algorithm_digest'', field a ''implementation_digest''), (''status'', field a ''status''),
      (''rollback_class'', field a ''rollback_class''), (''qualification_ids'', jstrs (si_qualification_ids i)),
      (''known_failures'', field a ''known_failures''), (''score_components'', components_json (si_components i))])"

definition score_algorithm :: "egcf_record \<Rightarrow> egcf_record list \<Rightarrow> string list \<Rightarrow> score_components res" where
  "score_algorithm a qualifications missing_invariants =
     bindR (total_length ''evidence_ids'' qualifications) (\<lambda>strength.
     bindR (mapR successful_tests qualifications) (\<lambda>passed.
     bindR (total_length ''benchmarks'' qualifications) (\<lambda>benchmarks.
     bindR (rollback_score (field a ''rollback_class'')) (\<lambda>rollback.
     bindR (resource_cost (field a ''applicability'')) (\<lambda>cost.
     bindR (py_len (field a ''known_failures'')) (\<lambda>failures.
       Inr \<lparr> sc_strength = strength, sc_invariants = (if missing_invariants = [] then 1 else 0), sc_correctness = sum_list passed,
         sc_rollback = rollback, sc_freshness = (if qualifications = [] then 0 else 1), sc_performance = benchmarks, sc_cost = cost,
         sc_failures = int failures \<rparr>))))))"

definition assess_algorithm ::
  "digest \<Rightarrow> (string \<Rightarrow> int option) \<Rightarrow> int \<Rightarrow> (string, json) dict \<Rightarrow> string \<Rightarrow> string list \<Rightarrow> string list \<Rightarrow> egcf_store \<Rightarrow>
     egcf_record \<Rightarrow> algorithm_registry \<Rightarrow> (algorithm_registry \<times> selection_item) res" where
  "assess_algorithm H read_time now observed ceiling allowed invariant_names s a reg =
     bindR (status_reasons a) (\<lambda>r1. bindR (level_reasons ceiling a) (\<lambda>r2.
     bindR (missing_from (field a ''capability_requirements'') allowed) (\<lambda>missing_capabilities.
     bindR (incompatible_keys (field a ''applicability'') observed) (\<lambda>incompatible.
     bindR (missing_from (field a ''invariants'') invariant_names) (\<lambda>missing_invariants.
     bindR (algorithm_qualifications H s a reg) (\<lambda>(reg1, found).
     bindR (filterR (current_qualification read_time now observed) found) (\<lambda>qualifications.
     bindR (score_algorithm a qualifications missing_invariants) (\<lambda>components.
     bindR (mapR (object_id H) qualifications) (\<lambda>ids.
       Inr (reg1, \<lparr> si_algorithm = a, si_qualification_ids = ids, si_components = components,
         si_reasons = r1 @ r2 @ labelled ''missing capabilities'' missing_capabilities @ labelled ''context mismatch'' incompatible @
           (if invariant_names = [] then [] else labelled ''invariant mismatch'' missing_invariants) @
           (if qualifications = [] then [''no current qualification''] else []) \<rparr>))))))))))"

section \<open>Selection\<close>

text \<open>The ranking: strengths descending, costs ascending, then the identifiers.\<close>

definition selection_rank :: "selection_item \<Rightarrow> (int list \<times> string \<times> string) res" where
  "selection_rank i = (let c = si_components i in
     bindR (text_of (field (si_algorithm i) ''implementation_digest'')) (\<lambda>h.
       Inr ([- sc_strength c, - sc_invariants c, - sc_correctness c, - sc_rollback c, - sc_freshness c, - sc_performance c, sc_cost c, sc_failures c],
         algorithm_id_of (si_algorithm i), h)))"

definition assess_all ::
  "digest \<Rightarrow> (string \<Rightarrow> int option) \<Rightarrow> int \<Rightarrow> (string, json) dict \<Rightarrow> string \<Rightarrow> string list \<Rightarrow> string list \<Rightarrow> egcf_store \<Rightarrow>
     egcf_record list \<Rightarrow> algorithm_registry \<Rightarrow> (algorithm_registry \<times> selection_item list) res" where
  "assess_all H read_time now observed ceiling allowed invariant_names s found reg =
     foldR (\<lambda>a (r, items). bindR (assess_algorithm H read_time now observed ceiling allowed invariant_names s a r) (\<lambda>(r1, i). Inr (r1, items @ [i])))
       found (reg, [])"

definition selection_record :: "digest \<Rightarrow> call \<Rightarrow> string \<Rightarrow> (string, json) dict \<Rightarrow> selection_item list \<Rightarrow> selection_item list \<Rightarrow> egcf_record" where
  "selection_record H c command_id observed ranked excluded = (let selected = hd ranked in
     make_record ''selection-decision''
       [(''command_id'', JStr command_id), (''context_hash'', JStr (stable_hash H (JObj observed))),
        (''candidates'', JList (map (JObj \<circ> item_fields) ranked)),
        (''excluded'', JList (map (\<lambda>i. JObj (item_fields i @ [(''reasons'', jstrs (si_reasons i))])) excluded)),
        (''selected_algorithm_id'', JStr (algorithm_id_of (si_algorithm selected))),
        (''selected_algorithm_digest'', field (si_algorithm selected) ''implementation_digest''),
        (''ranking'', jstrs [''qualification strength'', ''invariant compatibility'', ''expected correctness'', ''rollback quality'',
           ''evidence freshness'', ''deterministic performance fit'', ''resource cost'', ''stable algorithm ID'']),
        (''tie_break'', JStr ''algorithm_id then implementation_digest''), (''evidence_ids'', jstrs (si_qualification_ids selected)),
        (''created_at'', JStr (cl_now c)),
        (''score_components'', JObj [(''selected'', components_json (si_components selected)),
           (''candidate_vectors'', JObj (fold (\<lambda>i. dict_set (algorithm_id_of (si_algorithm i)) (components_json (si_components i))) ranked []))])])"

definition select_algorithm ::
  "digest \<Rightarrow> call \<Rightarrow> (string \<Rightarrow> int option) \<Rightarrow> int \<Rightarrow> (string, json) dict \<Rightarrow> string \<Rightarrow> (string, json) dict \<Rightarrow> string \<Rightarrow> string list \<Rightarrow> string list \<Rightarrow>
     egcf_store \<Rightarrow> algorithm_registry \<Rightarrow> (egcf_store \<times> algorithm_registry \<times> egcf_record) res" where
  "select_algorithm H c read_time now runtime command_id context ceiling allowed invariant_names s reg =
     (let observed = fold (\<lambda>(k, v). dict_set k v) context runtime in
      bindR (search_algorithms H s command_id reg) (\<lambda>(reg1, found).
      bindR (assess_all H read_time now observed ceiling allowed invariant_names s found reg1) (\<lambda>(reg2, items).
      let candidates = filter (\<lambda>i. si_reasons i = []) items; excluded = filter (\<lambda>i. si_reasons i \<noteq> []) items in
      if candidates = [] then Inl (QualificationError ''no qualified algorithm'')
      else bindR (sort_keyed selection_rank candidates) (\<lambda>ranked.
        let decision = selection_record H c command_id observed ranked excluded in
        bindR (register H c ''egcf_object_registered'' decision s) (\<lambda>(s1, _). Inr (s1, reg2, decision))))))"

section \<open>What is selected\<close>

text \<open>A cache holds what the store says now: true of empty caches, and kept by every lookup.\<close>

definition qualifies :: "string \<times> json \<Rightarrow> egcf_record \<Rightarrow> bool res" where
  "qualifies key q = Inr (er_type q = ''qualification'' \<and> field q ''algorithm_id'' = JStr (fst key) \<and> field q ''algorithm_digest'' = snd key)"

definition qualified_current :: "digest \<Rightarrow> egcf_store \<Rightarrow> algorithm_registry \<Rightarrow> bool" where
  "qualified_current H s reg = (\<forall>key rs. dict_get (ar_qualified reg) key = Some rs \<longrightarrow> find_where H s ''qualification'' (qualifies key) = Inr rs)"

definition search_current :: "digest \<Rightarrow> egcf_store \<Rightarrow> string \<Rightarrow> algorithm_registry \<Rightarrow> bool" where
  "search_current H s command_id reg = (\<forall>rs. dict_get (ar_search reg) command_id = Some rs \<longrightarrow>
     (\<exists>reg1. search_algorithms H s command_id (reg\<lparr>ar_search := []\<rparr>) = Inr (reg1, rs)))"

text \<open>The requirements an algorithm is selected by.\<close>

definition meets_requirements ::
  "digest \<Rightarrow> (string \<Rightarrow> int option) \<Rightarrow> int \<Rightarrow> (string, json) dict \<Rightarrow> string \<Rightarrow> string list \<Rightarrow> string list \<Rightarrow> egcf_store \<Rightarrow> egcf_record \<Rightarrow> bool" where
  "meets_requirements H read_time now observed ceiling allowed invariant_names s a =
     (field a ''status'' \<notin> {JStr ''RETIRED'', JStr ''DEPRECATED'', JStr ''PROPOSED''} \<and>
      (\<exists>i j. order_of (field a ''capability_level'') = Inr i \<and> order_of (JStr ceiling) = Inr j \<and> i \<le> j) \<and>
      (\<exists>ws. text_list (field a ''capability_requirements'') = Inr ws \<and> set ws \<subseteq> set allowed) \<and>
      incompatible_keys (field a ''applicability'') observed = Inr [] \<and>
      (\<exists>ws. text_list (field a ''invariants'') = Inr ws \<and> (invariant_names = [] \<or> set ws \<subseteq> set invariant_names)) \<and>
      (\<exists>found. find_where H s ''qualification'' (qualifies (algorithm_id_of a, field a ''implementation_digest'')) = Inr found \<and>
         (\<exists>q \<in> set found. current_qualification read_time now observed q = Inr True)))"

lemma qualifications_current:
  assumes "algorithm_qualifications H s a reg = Inr (reg1, found)" and "qualified_current H s reg"
  shows "find_where H s ''qualification'' (qualifies (algorithm_id_of a, field a ''implementation_digest'')) = Inr found \<and> qualified_current H s reg1"
  using assms unfolding algorithm_qualifications_def Let_def qualifies_def [symmetric]
  by (auto simp: qualified_current_def bindR_Inr split: option.splits if_splits)

lemma labelled_none [simp]: "labelled label xs = [] \<longleftrightarrow> xs = []"
  by (simp add: labelled_def)

lemma filterR_none: "filterR f xs = Inr ys \<Longrightarrow> ys \<noteq> [] \<longleftrightarrow> (\<exists>x \<in> set xs. f x = Inr True)"
  by (induction xs arbitrary: ys) (auto simp: bindR_Inr split: if_splits)

lemma assessed:
  assumes "assess_algorithm H read_time now observed ceiling allowed invariant_names s a reg = Inr (reg1, i)" and "qualified_current H s reg"
  shows "qualified_current H s reg1" and "si_algorithm i = a"
    and "si_reasons i = [] \<longleftrightarrow> meets_requirements H read_time now observed ceiling allowed invariant_names s a"
proof -
  from assms(1) obtain r1 r2 mc ic mi found quals c ids where p: "status_reasons a = Inr r1" "level_reasons ceiling a = Inr r2"
    "missing_from (field a ''capability_requirements'') allowed = Inr mc" "incompatible_keys (field a ''applicability'') observed = Inr ic"
    "missing_from (field a ''invariants'') invariant_names = Inr mi" "algorithm_qualifications H s a reg = Inr (reg1, found)"
    "filterR (current_qualification read_time now observed) found = Inr quals"
    and i: "i = \<lparr> si_algorithm = a, si_qualification_ids = ids, si_components = c,
         si_reasons = r1 @ r2 @ labelled ''missing capabilities'' mc @ labelled ''context mismatch'' ic @
           (if invariant_names = [] then [] else labelled ''invariant mismatch'' mi) @
           (if quals = [] then [''no current qualification''] else []) \<rparr>"
    unfolding assess_algorithm_def bindR_Inr split_paired_Ex prod.case sum.inject prod.inject by blast
  note q = qualifications_current [OF p(6) assms(2)]
  show "qualified_current H s reg1" using q by simp
  show "si_algorithm i = a" by (simp add: i)
  have "r1 = [] \<longleftrightarrow> field a ''status'' \<notin> {JStr ''RETIRED'', JStr ''DEPRECATED'', JStr ''PROPOSED''}"
    using p(1) by (auto simp: status_reasons_def Let_def split: if_splits)
  moreover have "r2 = [] \<longleftrightarrow> (\<exists>i j. order_of (field a ''capability_level'') = Inr i \<and> order_of (JStr ceiling) = Inr j \<and> i \<le> j)"
    using p(2) by (auto simp: level_reasons_def bindR_Inr split: if_splits)
  moreover have "mc = [] \<longleftrightarrow> (\<exists>ws. text_list (field a ''capability_requirements'') = Inr ws \<and> set ws \<subseteq> set allowed)"
    using p(3) by (auto simp: missing_from_def bindR_Inr missing_empty)
  moreover have "ic = [] \<longleftrightarrow> incompatible_keys (field a ''applicability'') observed = Inr []" using p(4) by simp
  moreover have "(invariant_names = [] \<or> mi = []) \<longleftrightarrow>
      (\<exists>ws. text_list (field a ''invariants'') = Inr ws \<and> (invariant_names = [] \<or> set ws \<subseteq> set invariant_names))"
    using p(5) by (auto simp: missing_from_def bindR_Inr missing_empty)
  moreover have "quals \<noteq> [] \<longleftrightarrow> (\<exists>found. find_where H s ''qualification'' (qualifies (algorithm_id_of a, field a ''implementation_digest'')) = Inr found \<and>
         (\<exists>q \<in> set found. current_qualification read_time now observed q = Inr True))"
    using q filterR_none [OF p(7)] by simp
  moreover have "si_reasons i = [] \<longleftrightarrow> r1 = [] \<and> r2 = [] \<and> mc = [] \<and> ic = [] \<and> (invariant_names = [] \<or> mi = []) \<and> quals \<noteq> []"
    by (simp add: i)
  ultimately show "si_reasons i = [] \<longleftrightarrow> meets_requirements H read_time now observed ceiling allowed invariant_names s a"
    unfolding meets_requirements_def by argo
qed

lemma all_assessed:
  assumes "assess_all H read_time now observed ceiling allowed invariant_names s found reg = Inr (reg1, items)" and "qualified_current H s reg"
  shows "map si_algorithm items = found \<and>
    (\<forall>i \<in> set items. si_reasons i = [] \<longleftrightarrow> meets_requirements H read_time now observed ceiling allowed invariant_names s (si_algorithm i))"
proof -
  have "qualified_current H s (fst st') \<and> map si_algorithm (snd st') = map si_algorithm (snd st) @ found \<and>
      ((\<forall>i \<in> set (snd st). si_reasons i = [] \<longleftrightarrow> meets_requirements H read_time now observed ceiling allowed invariant_names s (si_algorithm i)) \<longrightarrow>
       (\<forall>i \<in> set (snd st'). si_reasons i = [] \<longleftrightarrow> meets_requirements H read_time now observed ceiling allowed invariant_names s (si_algorithm i)))"
    if "foldR (\<lambda>a (r, items). bindR (assess_algorithm H read_time now observed ceiling allowed invariant_names s a r) (\<lambda>(r1, i). Inr (r1, items @ [i])))
        found st = Inr st'" "qualified_current H s (fst st)" for st st'
    using that
  proof (induction found arbitrary: st)
    case (Cons a found)
    obtain r its where st: "st = (r, its)" by (cases st)
    from Cons.prems(1) obtain r1 i where i: "assess_algorithm H read_time now observed ceiling allowed invariant_names s a r = Inr (r1, i)"
      "foldR (\<lambda>a (r, items). bindR (assess_algorithm H read_time now observed ceiling allowed invariant_names s a r) (\<lambda>(r1, i). Inr (r1, items @ [i])))
        found (r1, its @ [i]) = Inr st'" by (auto simp: st bindR_Inr)
    have "qualified_current H s r" using Cons.prems(2) by (simp add: st)
    note a = assessed [OF i(1) this]
    from Cons.IH [OF i(2)] a show ?case by (simp add: st)
  qed simp
  from this [OF assms(1) [unfolded assess_all_def]] assms(2) show ?thesis by simp
qed

lemma sort_keyed_head:
  assumes "sort_keyed f xs = Inr ys" and "xs \<noteq> []"
  shows "hd ys \<in> set xs \<and> (\<forall>y \<in> set xs. y \<noteq> hd ys \<longrightarrow> (\<exists>k l. f (hd ys) = Inr k \<and> f y = Inr l \<and> k \<le> l))"
proof (cases "length xs \<le> 1")
  case True
  then show ?thesis using assms by (cases xs) (auto simp: sort_keyed_def)
next
  case False
  with assms(1) obtain kxs where k: "mapR (\<lambda>x. bindR (f x) (\<lambda>k. Inr (k, x))) xs = Inr kxs" and ys: "ys = map snd (sort_key fst kxs)"
    by (auto simp: sort_keyed_def bindR_Inr)
  have all: "list_all2 (\<lambda>x kx. f x = Inr (fst kx) \<and> snd kx = x) xs kxs"
    using k [unfolded mapR_Inr] by (rule list_all2_mono) (auto simp: bindR_Inr)
  then have len: "length kxs = length xs" by (simp add: list_all2_lengthD)
  with assms(2) have ne: "sort_key fst kxs \<noteq> []" by (metis length_0_conv length_sort)
  then have hd: "hd ys = snd (hd (sort_key fst kxs))" "hd (sort_key fst kxs) \<in> set kxs"
    using hd_in_set [OF ne] by (simp_all add: ys hd_map)
  have least: "\<forall>kx \<in> set kxs. fst (hd (sort_key fst kxs)) \<le> fst kx"
  proof -
    have "sorted (map fst (sort_key fst kxs))" by simp
    with ne have "\<forall>k \<in> set (map fst (sort_key fst kxs)). hd (map fst (sort_key fst kxs)) \<le> k"
      by (cases "sort_key fst kxs") auto
    with ne show ?thesis by (simp add: hd_map)
  qed
  have in_all: "f (snd kx) = Inr (fst kx) \<and> snd kx \<in> set xs" if "kx \<in> set kxs" for kx
    using all that by (auto simp: list_all2_conv_all_nth in_set_conv_nth)
  have from_all: "\<exists>kx \<in> set kxs. snd kx = y" if "y \<in> set xs" for y
    using all that by (induction rule: list_all2_induct) auto
  show ?thesis using hd in_all [OF hd(2)] least in_all from_all by (metis (no_types, lifting))
qed

section \<open>Properties\<close>


section \<open>A selection\<close>

definition sample_solver :: egcf_record where
  "sample_solver = make_record ''algorithm-definition''
     [(''name'', JStr ''fit''), (''version'', JInt 1), (''implementation_digest'', JStr ''d''), (''command_ids'', jstrs [''demo.run@1'']),
      (''capability_level'', JStr ''C1''), (''capability_requirements'', jstrs [''analysis.model'']), (''applicability'', JObj []),
      (''invariants'', JList []), (''rollback_class'', JStr ''none''), (''status'', JStr ''QUALIFIED'')]"

definition sample_qualification :: egcf_record where
  "sample_qualification = make_record ''qualification''
     [(''algorithm_id'', JStr ''fit@1''), (''algorithm_digest'', JStr ''d''), (''context'', JObj []), (''evidence_ids'', jstrs [''e'']),
      (''tests'', JList [JObj [(''success'', JBool True)]]), (''benchmarks'', JList []), (''status'', JStr ''QUALIFIED'')]"

definition solver_id :: string where
  "solver_id = ''algorithm-definition:sha256:'' @ replicate 64 CHR ''a''"

definition selection_digest :: digest where
  "selection_digest t = replicate 64
     (if t = canonical_json (address_material (''algorithm-definition'', to_payload sample_solver)) then CHR ''a''
      else if t = canonical_json (address_material (''qualification'', to_payload sample_qualification)) then CHR ''b'' else CHR ''c'')"

lemma selection_sha: "sha_like selection_digest"
  by (simp add: selection_digest_def sha_like_def)

lemma selection_addresses:
  "address selection_digest ''algorithm-definition'' (to_payload sample_solver) = replicate 64 CHR ''a''"
  "address selection_digest ''qualification'' (to_payload sample_qualification) = replicate 64 CHR ''b''"
  "address selection_digest ''selection-decision'' p = replicate 64 CHR ''c''"
  by (auto simp: address_def stable_hash_def selection_digest_def dest: material_types)

lemma selection_facts:
  "validate_record_payload ''algorithm-definition'' (to_payload sample_solver) = Inr ()" "distinct (map fst (er_fields sample_solver))"
  "er_type sample_solver = ''algorithm-definition''" "construct_record ''algorithm-definition'' (norm_json (to_payload sample_solver)) = Inr sample_solver"
  "validate_record_payload ''qualification'' (to_payload sample_qualification) = Inr ()" "distinct (map fst (er_fields sample_qualification))"
  "er_type sample_qualification = ''qualification''" "construct_record ''qualification'' (norm_json (to_payload sample_qualification)) = Inr sample_qualification"
  by code_simp+

lemma solver_facts:
  "py_in (JStr ''demo.run@1'') (field sample_solver ''command_ids'') = Inr True"
  "status_reasons sample_solver = Inr []" "level_reasons ''C1'' sample_solver = Inr []"
  "missing_from (field sample_solver ''capability_requirements'') [''analysis.model''] = Inr []"
  "incompatible_keys (field sample_solver ''applicability'') [] = Inr []" "missing_from (field sample_solver ''invariants'') [] = Inr []"
  "qualifies (algorithm_id_of sample_solver, field sample_solver ''implementation_digest'') sample_qualification = Inr True"
  "current_qualification (\<lambda>t. None) 0 [] sample_qualification = Inr True"
  "map_sum (\<lambda>e. ()) (\<lambda>c. sc_strength c) (score_algorithm sample_solver [sample_qualification] []) = Inr 1"
  "algorithm_id_of sample_solver = ''fit@1''"
  by code_simp+


end
