(* ===== verification/Spec2Isabelle.thy ===== *)
theory Spec2Isabelle
  imports Oiec Transactions RTopology RBudget RScoring LoopControl Cfel Persistence LinkedHypotheses ContextBudget EgcfLifecycle EgcfGraph EgcfSelection
begin

text \<open>
  \<^bold>\<open>Verification library of the governance core of the OIEC-STM agent.\<close>

  The program (\<open>src/ourd/\<close>) lets a language model work on a repository under rules that code, not
  the model, enforces. The model proposes; the modules below decide.

  \<^bold>\<open>Parts, and where they are modelled.\<close>
  \<^item> \<open>Prelude\<close>: exceptions (\<open>ourd/errors.py\<close>, \<open>ourd/egcf/errors.py\<close>) as the left side of a sum, the monad over
    it with the predicate \<open>yields\<close> and its rules, dictionaries as association lists, the string and list
    functions of Python the modules use. The locale \<open>life_cycle\<close> is the interface of a state machine whose
    phases only climb; transactions and governed commands interpret it.
  \<^item> \<open>Json\<close>, \<open>JsonParse\<close>: JSON values, \<open>canonical_json\<close> and \<open>stable_hash\<close>, \<open>json.loads\<close>. The locale
    \<open>content_address\<close> is the interface of a record named by the digest of a material; authority manifests,
    events, payloads and workflow objects interpret it. The locale \<open>separators\<close> covers both serialisations.
  \<^item> \<open>Models\<close> (\<open>ourd/models.py\<close>), \<open>RModels\<close> and \<open>RRecords\<close> (\<open>ourd/reasoning/models.py\<close>): the dataclasses as
    records, each \<open>__post_init__\<close> as a function that checks, canonicalises and signs.
  \<^item> \<open>Workspace\<close>, \<open>Policy\<close>, \<open>Authority\<close> (\<open>ourd/workspace.py\<close>, \<open>policy.py\<close>, \<open>authority.py\<close>): canonical paths,
    patterns, scope and snapshots; risk floor, permission and command classification; manifests. The locale
    \<open>scope_interface\<close> is what the policy and the kernel ask of a workspace.
  \<^item> \<open>Oiec\<close> (\<open>ourd/oiec.py\<close>): the kernel: boundary, dimension budget, finite evidence (locale
    \<open>evidence_join\<close>), progress, and the step that prepares an action and accepts its observation.
  \<^item> \<open>Transactions\<close> (\<open>ourd/transactions.py\<close>): changes to files as transactions over the tree and the store of
    the state directory, with undo at every failing step.
  \<^item> \<open>Cfel\<close>, \<open>RHypotheses\<close>, \<open>LinkedHypotheses\<close> (\<open>ourd/cfel.py\<close>, \<open>reasoning/hypotheses.py\<close>,
    \<open>hypotheses.py\<close>): collisions, Bayesian hypothesis sets and the evidence-linked hypotheses of a run.
  \<^item> \<open>RTopology\<close>, \<open>RBudget\<close>, \<open>RScoring\<close> (\<open>reasoning/topology.py\<close>, \<open>budget.py\<close>, \<open>scoring.py\<close>,
    \<open>diversity.py\<close>, \<open>contradictions.py\<close>): the reasoning graph and its validation, budgets, scores.
  \<^item> \<open>LoopControl\<close>, \<open>ContextBudget\<close> (\<open>ourd/loop_control.py\<close>, \<open>context_budget.py\<close>): whether the autonomous loop
    may go on, and how a request is cut down to the model's budget.
  \<^item> \<open>Persistence\<close> (\<open>ourd/persistence.py\<close>): redaction, the hash-chained event log, migrations and the state store.
  \<^item> \<open>EgcfRecords\<close>, \<open>EgcfLifecycle\<close>, \<open>EgcfGraph\<close> (\<open>ourd/egcf/ids.py\<close>, \<open>models.py\<close>, \<open>schemas.py\<close>, \<open>lifecycle.py\<close>,
    \<open>compiler.py\<close>): the workflow engine: typed identifiers and record tables, values against schemas, the life
    cycle of a governed command, and the order, references and conflicts of a workflow's graph.

  \<^bold>\<open>How the parts meet.\<close> A manifest (\<open>Authority\<close>) fixes scope and capabilities; the kernel (\<open>Oiec\<close>) derives the
  boundary from it and from the governance record (\<open>Models\<close>) and prepares an action only inside it; the
  policy (\<open>Policy\<close>) classifies its commands against the workspace (\<open>Workspace\<close>); the action's change is a
  transaction (\<open>Transactions\<close>); an observation that contradicts the expectation is a collision (\<open>Cfel\<close>) that
  revises hypotheses (\<open>RHypotheses\<close>); every state change is logged and saved (\<open>Persistence\<close>), and the loop
  controller (\<open>LoopControl\<close>) compares the states around a step.

  \<^bold>\<open>What the lemmas show.\<close> Each property is a theorem after a text that gives its number (C1, C2, ...) and its
  statement in words; the theorem next to it named \<open>_witness\<close> applies it to a concrete input where it has
  hypotheses. The groups are: confinement and authority (paths, commands, manifests, prepared actions);
  transactions (a failed step restores the tree, success installs exactly the candidate, rollback is an
  inverse, the status only climbs); evidence (order independence, counted once, collisions stop blind
  retries); reasoning (topologies accepted are grounded and acyclic, the search for cycles is exact, scores
  and budgets stay in range); persistence (the log is append-only and its head binds the history,
  migrations end in the current schema); loops and budgets that end; and graphs of workflows (the order
  exists exactly for acyclic ones, and data flows along it).

  \<^bold>\<open>Parameters and bounds.\<close> \<open>H\<close> stands for \<open>sha256(...).hexdigest()\<close> of a text: no theorem assumes it injective;
  those about authenticity name the texts on which it would have to collide. The clock, fresh identifiers,
  the ISO-8601 reader, unified diffs, the decoding of bytes, the environment and configured regular
  expressions are parameters. The operating system's failures are an oracle argument of the transactions.
  Resolution of symbolic links takes the number of links it follows (as \<open>realpath\<close> has a limit); the two
  recursive walks of the topology take the interpreter's remaining stack, and \<open>validation_stack_suffices\<close>
  says how much is enough. The JSON reader's fuel is \<open>Suc (2 * length)\<close> of the text and it never runs out on a
  text that was written. All other loops are total functions with a termination proof.
  Python integers are \<open>int\<close>, strings are lists of characters below 256; floats do not occur.

  \<^bold>\<open>Not modelled.\<close> The agent's tool handlers and prompts (\<open>ourd/agent.py\<close>, \<open>production_agent.py\<close>), whose decisions
  are calls to the modules above between calls to a model provider; the search for reasoning paths, their
  generation, verification, falsification and synthesis (\<open>ourd/reasoning/search.py\<close> and its neighbours), which
  assemble a model's answers; the chat layer (\<open>ourd/interaction/\<close>); the workflow engine's handlers, registries
  and algebra (\<open>ourd/egcf/\<close>); the writing engine, providers, command line, graphical interface, tools and
  benchmarks. Within the modelled modules: the constructors from parsed JSON (\<open>from_dict\<close>), locks and \<open>fsync\<close>,
  the float helpers of \<open>ourd/oiec.py\<close>, and the text that messages interpolate.
\<close>

end
